(* ===== verification/Prelude.thy ===== *)
theory Prelude
  imports Main "HOL-Library.Word" "HOL-Library.Monad_Syntax"
begin

text \<open>
  Shared vocabulary of the development: the integer types of the 16-bit target, bit
  tests on flag words, and singly linked lists threaded through tables.

  The sources keep their queues and free lists as pointers between the slots of a fixed
  table.  A pointer is an \<open>'a option\<close> (\<open>None\<close> is the nil pointer) and a table's link
  field is a function \<open>'a \<Rightarrow> 'a option\<close>.  \<open>lseg nx p xs q\<close> says that following the
  links from \<open>p\<close> visits exactly the slots \<open>xs\<close> and arrives at \<open>q\<close>; \<open>chain nx p xs\<close> is
  the special case of a nil-terminated list.

  Operations whose C body may never return (an endless walk over a cyclic list, a call of
  \<open>panic\<close>) have the result type \<open>_ option\<close>, with \<open>None\<close> for "does not return".
\<close>

unbundle bit_operations_syntax

named_theorems flag_simps "bit tests on flag words"
named_theorems chain_simps "linked lists through tables"

section \<open>Integers of the target machine\<close>

type_synonym u8 = "8 word"
type_synonym u16 = "16 word"
type_synonym u32 = "32 word"

lemma unat_u8_less [simp]: "unat (w :: u8) < 256"
  using unsigned_less [of w] by (simp add: nat_less_iff)

lemma unat_u16_less [simp]: "unat (w :: u16) < 65536"
  using unsigned_less [of w] by (simp add: nat_less_iff)

lemma unat_of_nat_u8: "n < 256 \<Longrightarrow> unat (word_of_nat n :: u8) = n"
  by (simp add: unat_of_nat)

lemma unat_of_nat_u16: "n < 65536 \<Longrightarrow> unat (word_of_nat n :: u16) = n"
  by (simp add: unat_of_nat)

text \<open>A C \<^verbatim>\<open>long\<close> is an \<open>int\<close>; \<open>long_of\<close> is the wrap-around to 32 bits, \<open>int_of\<close> that of an \<^verbatim>\<open>int\<close>.\<close>

definition long_of :: "int \<Rightarrow> int" where
  "long_of x = sint (word_of_int x :: u32)"

definition int_of :: "int \<Rightarrow> int" where
  "int_of x = sint (word_of_int x :: u16)"

lemma int_of_small: "- 32768 \<le> x \<Longrightarrow> x < 32768 \<Longrightarrow> int_of x = x"
  by (simp add: int_of_def sint_sbintrunc' signed_take_bit_int_eq_self)

lemma long_of_small: "- 2147483648 \<le> x \<Longrightarrow> x < 2147483648 \<Longrightarrow> long_of x = x"
  by (simp add: long_of_def sint_sbintrunc' signed_take_bit_int_eq_self)

definition has_flag :: "u16 \<Rightarrow> u16 \<Rightarrow> bool" where
  "has_flag f m \<longleftrightarrow> f AND m \<noteq> 0"

definition set_flag :: "u16 \<Rightarrow> u16 \<Rightarrow> u16" where
  "set_flag f m = f OR m"

definition clr_flag :: "u16 \<Rightarrow> u16 \<Rightarrow> u16" where
  "clr_flag f m = f AND NOT m"

lemma has_flag_zero [simp]: "\<not> has_flag 0 m"
  by (simp add: has_flag_def)

lemma has_set_same [flag_simps]: "m \<noteq> 0 \<Longrightarrow> has_flag (set_flag f m) m"
  by (simp add: has_flag_def set_flag_def word_bw_lcs(1) word_ao_absorbs)

lemma set_flag_nonzero [flag_simps]: "m \<noteq> 0 \<Longrightarrow> set_flag f m \<noteq> 0"
  by (metis has_flag_zero has_set_same)

lemma has_clr_same [flag_simps]: "\<not> has_flag (clr_flag f m) m"
  by (simp add: has_flag_def clr_flag_def word_bw_assocs(1))

lemma has_set_other [flag_simps]:
  "m AND n = 0 \<Longrightarrow> has_flag (set_flag f m) n = has_flag f n"
  by (simp add: has_flag_def set_flag_def word_ao_dist)

lemma has_clr_other [flag_simps]:
  assumes "m AND n = 0"
  shows "has_flag (clr_flag f m) n = has_flag f n"
proof -
  have "(NOT m) AND n = n"
    using assms by (auto simp: bit_eq_iff bit_simps)
  then show ?thesis by (simp add: has_flag_def clr_flag_def word_bw_assocs(1))
qed

lemma has_flag_nonzero: "has_flag f m \<Longrightarrow> f \<noteq> 0"
  by auto

lemma sint_nonneg_u16:
  assumes "\<not> sint (g :: u16) < 0"
  shows "unat g < 32768"
proof -
  have "\<not> bit g 15" using assms bit_last_iff [of g] by simp
  then have "\<not> bit (unat g) 15" by (simp add: bit_unsigned_iff)
  then have "even (unat g div 2 ^ 15)" unfolding bit_iff_odd by simp
  then have "unat g div 32768 \<noteq> 1" by auto
  moreover have "unat g div 32768 < 2" by (simp add: less_mult_imp_div_less)
  ultimately show ?thesis by linarith
qed

section \<open>Linked lists through tables\<close>

fun lseg :: "('a \<Rightarrow> 'a option) \<Rightarrow> 'a option \<Rightarrow> 'a list \<Rightarrow> 'a option \<Rightarrow> bool" where
  "lseg nx p [] q \<longleftrightarrow> p = q"
| "lseg nx p (x # xs) q \<longleftrightarrow> p = Some x \<and> lseg nx (nx x) xs q"

abbreviation chain :: "('a \<Rightarrow> 'a option) \<Rightarrow> 'a option \<Rightarrow> 'a list \<Rightarrow> bool" where
  "chain nx p xs \<equiv> lseg nx p xs None"

lemma lseg_append [simp]:
  "lseg nx p (xs @ ys) q \<longleftrightarrow> (\<exists>r. lseg nx p xs r \<and> lseg nx r ys q)"
  by (induction xs arbitrary: p) auto

lemma lseg_frame [chain_simps]:
  "x \<notin> set xs \<Longrightarrow> lseg (nx(x := v)) p xs q = lseg nx p xs q"
  by (induction xs arbitrary: p) auto

lemma lseg_cong:
  "(\<And>x. x \<in> set xs \<Longrightarrow> nx x = ny x) \<Longrightarrow> lseg nx p xs q = lseg ny p xs q"
  by (induction xs arbitrary: p) auto

lemma chain_unique: "chain nx p xs \<Longrightarrow> chain nx p ys \<Longrightarrow> xs = ys"
proof (induction xs arbitrary: p ys)
  case Nil
  then show ?case by (cases ys) auto
next
  case (Cons x xs)
  then show ?case by (cases ys) auto
qed

lemma chain_distinct: "chain nx p xs \<Longrightarrow> distinct xs"
proof (induction xs arbitrary: p)
  case (Cons x xs)
  have "x \<notin> set xs"
  proof
    assume "x \<in> set xs"
    then obtain us vs where xs: "xs = us @ x # vs" by (meson split_list)
    with Cons.prems have "chain nx (nx x) (us @ x # vs)" and "chain nx (nx x) vs" by auto
    then have "us @ x # vs = vs" by (rule chain_unique)
    then have "length (us @ x # vs) = length vs" by simp
    then show False by simp
  qed
  with Cons show ?case by auto
qed simp

lemma chain_None [simp]: "chain nx None xs \<longleftrightarrow> xs = []"
  by (cases xs) auto

lemma chain_Some: "chain nx (Some x) xs \<longleftrightarrow> (\<exists>ys. xs = x # ys \<and> chain nx (nx x) ys)"
  by (cases xs) auto

lemma chain_nil_iff: "chain nx p xs \<Longrightarrow> p = None \<longleftrightarrow> xs = []"
  by (cases xs) auto

lemma chain_last_link: "chain nx p xs \<Longrightarrow> xs \<noteq> [] \<Longrightarrow> nx (last xs) = None"
  by (induction xs arbitrary: p) (auto split: if_splits)

text \<open>Adding a slot at the tail, as both queue insertions of the kernel do.\<close>

lemma chain_snoc:
  assumes "chain nx p xs" and "xs \<noteq> []" and "y \<notin> set xs"
  shows "chain (nx(last xs := Some y, y := None)) p (xs @ [y])"
proof -
  have l: "last xs \<noteq> y" using assms by auto
  have "distinct xs" using assms(1) by (rule chain_distinct)
  then have "last xs \<notin> set (butlast xs)"
    using assms(2) by (metis append_butlast_last_id distinct_append not_distinct_conv_prefix)
  moreover have "y \<notin> set (butlast xs)" using assms(3) by (meson in_set_butlastD)
  moreover have "lseg nx p (butlast xs) (Some (last xs))"
    using assms(1,2) lseg_append [of nx p "butlast xs" "[last xs]" None] by auto
  ultimately have "lseg (nx(last xs := Some y, y := None)) p (butlast xs @ [last xs]) (Some y)"
    using l by (auto simp: chain_simps)
  then show ?thesis using assms(2) l by auto
qed

text \<open>Unlinking a slot from behind its predecessor.\<close>

lemma chain_unlink:
  assumes "chain nx p (us @ [a, x] @ vs)"
  shows "chain (nx(a := nx x)) p (us @ [a] @ vs)"
proof -
  from assms have d: "distinct (us @ [a, x] @ vs)" by (rule chain_distinct)
  from assms have "lseg nx p us (Some a)" "nx a = Some x" "chain nx (nx x) vs" by auto
  with d show ?thesis by (auto simp: chain_simps)
qed

text \<open>The walk to the last slot of a nonempty list.\<close>

partial_function (option) last_link :: "('a \<Rightarrow> 'a option) \<Rightarrow> 'a \<Rightarrow> 'a option" where
  "last_link nx p = (case nx p of None \<Rightarrow> Some p | Some q \<Rightarrow> last_link nx q)"

lemma last_link_chain [chain_simps]:
  "chain nx (Some p) xs \<Longrightarrow> last_link nx p = Some (last xs)"
proof (induction xs arbitrary: p)
  case (Cons x xs)
  then show ?case by (cases xs) (auto simp: last_link.simps [of nx x])
qed simp

end
