(* ===== verification/KTypes.thy ===== *)
theory KTypes
  imports Prelude
begin

text \<open>
  Data of the kernel: the process table of \<^verbatim>\<open>kernel/proc.h\<close>, the globals of
  \<^verbatim>\<open>kernel/glo.h\<close>, the constants of \<^verbatim>\<open>h/const.h\<close>, \<^verbatim>\<open>h/com.h\<close> and \<^verbatim>\<open>h/error.h\<close> that the
  message and scheduling code uses, and the assembly helpers \<^verbatim>\<open>cp_mess\<close>, \<^verbatim>\<open>lock\<close> and
  \<^verbatim>\<open>restore\<close> of \<^verbatim>\<open>kernel/klib88.asm\<close>.

  A process is named by its number (\<open>-NR_TASKS \<dots> NR_PROCS-1\<close>); the table is a function
  on these numbers, and a \<^verbatim>\<open>struct proc *\<close> is the number of the slot it points to.
\<close>

section \<open>Constants\<close>

type_synonym pnr = int

abbreviation (input) "NR_TASKS \<equiv> (8::int)"
abbreviation (input) "NR_PROCS \<equiv> (16::int)"
abbreviation (input) "LOW_USER \<equiv> (2::int)"
abbreviation (input) "MM_PROC_NR \<equiv> (0::int)"
abbreviation (input) "FS_PROC_NR \<equiv> (1::int)"
abbreviation (input) "HARDWARE \<equiv> (-1::int)"
abbreviation (input) "SYSTASK \<equiv> (-2::int)"
abbreviation (input) "CLOCK \<equiv> (-3::int)"
abbreviation (input) "IDLE \<equiv> (-999::int)"
abbreviation (input) "ANY \<equiv> NR_PROCS + 100"

abbreviation (input) "SEND \<equiv> (1::u16)"
abbreviation (input) "RECEIVE \<equiv> (2::u16)"
abbreviation (input) "BOTH \<equiv> (3::u16)"

abbreviation (input) "OK \<equiv> (0::int)"
abbreviation (input) "E_BAD_DEST \<equiv> (-1::int)"
abbreviation (input) "E_BAD_SRC \<equiv> (-2::int)"
abbreviation (input) "E_OVERRUN \<equiv> (-4::int)"
abbreviation (input) "E_NO_PERM \<equiv> (-8::int)"
abbreviation (input) "E_BAD_FCN \<equiv> (-9::int)"
abbreviation (input) "E_BAD_ADDR \<equiv> (-10::int)"
abbreviation (input) "E_BAD_PROC \<equiv> (-11::int)"

abbreviation (input) "SEG_T \<equiv> (0::nat)"
abbreviation (input) "SEG_D \<equiv> (1::nat)"
abbreviation (input) "SEG_S \<equiv> (2::nat)"
abbreviation (input) "CLICK_SHIFT \<equiv> (4::nat)"

abbreviation (input) "RET_REG \<equiv> (0::nat)"
abbreviation (input) "TASK_Q \<equiv> (0::nat)"
abbreviation (input) "SERVER_Q \<equiv> (1::nat)"
abbreviation (input) "USER_Q \<equiv> (2::nat)"

text \<open>\<open>sizeof(message)\<close>: two ints and a union whose largest member is \<open>mess_3\<close>.\<close>

abbreviation (input) "MESS_SIZE \<equiv> (24::u16)"

abbreviation (input) "P_SLOT_FREE \<equiv> (1::u16)"
abbreviation (input) "NO_MAP \<equiv> (2::u16)"
abbreviation (input) "SENDING \<equiv> (4::u16)"
abbreviation (input) "RECEIVING \<equiv> (8::u16)"

section \<open>Records\<close>

record mem_map =
  mem_vir :: u16
  mem_phys :: u16
  mem_len :: u16

record pc_psw =
  pc :: u16
  cs :: u16
  psw :: u16

record kproc =
  p_reg :: "nat \<Rightarrow> u16"
  p_sp :: u16
  p_pcpsw :: pc_psw
  p_flags :: u16
  p_map :: "nat \<Rightarrow> mem_map"
  p_splimit :: u16
  p_pid :: int
  user_time :: int
  sys_time :: int
  child_utime :: int
  child_stime :: int
  p_alarm :: int
  p_callerq :: "pnr option"
  p_sendlink :: "pnr option"
  p_messbuf :: u16
  p_getfrom :: int
  p_nextready :: "pnr option"
  p_pending :: u16

text \<open>
  \<open>memory\<close> is physical memory, \<open>int_flag\<close> the interrupt-enable bit of the running PSW
  and \<open>lockvar\<close> the word in which \<^verbatim>\<open>lock\<close> saves it; \<open>addr_m\<close> is the link-time address of
  the message buffer \<^verbatim>\<open>m\<close> of \<^verbatim>\<open>kernel/system.c\<close> in the kernel's data segment.
\<close>

record kernel =
  procs :: "pnr \<Rightarrow> kproc"
  rdy_head :: "nat \<Rightarrow> pnr option"
  rdy_tail :: "nat \<Rightarrow> pnr option"
  cur_proc :: int
  prev_proc :: int
  proc_ptr :: pnr
  bill_ptr :: pnr
  busy_map :: u16
  task_mess :: "nat \<Rightarrow> u16"
  realtime :: int
  lost_ticks :: int
  sig_procs :: int
  int_flag :: bool
  lockvar :: bool
  memory :: "nat \<Rightarrow> u8"
  addr_m :: u16

definition set_proc :: "pnr \<Rightarrow> (kproc \<Rightarrow> kproc) \<Rightarrow> kernel \<Rightarrow> kernel" where
  "set_proc i f k = k\<lparr>procs := (procs k)(i := f (procs k i))\<rparr>"

abbreviation nextready :: "kernel \<Rightarrow> pnr \<Rightarrow> pnr option" where
  "nextready k \<equiv> (\<lambda>i. p_nextready (procs k i))"

abbreviation sendlink :: "kernel \<Rightarrow> pnr \<Rightarrow> pnr option" where
  "sendlink k \<equiv> (\<lambda>i. p_sendlink (procs k i))"

lemma set_proc_sel [simp]:
  "procs (set_proc i f k) = (procs k)(i := f (procs k i))"
  "rdy_head (set_proc i f k) = rdy_head k"
  "rdy_tail (set_proc i f k) = rdy_tail k"
  "cur_proc (set_proc i f k) = cur_proc k"
  "prev_proc (set_proc i f k) = prev_proc k"
  "proc_ptr (set_proc i f k) = proc_ptr k"
  "bill_ptr (set_proc i f k) = bill_ptr k"
  "busy_map (set_proc i f k) = busy_map k"
  "task_mess (set_proc i f k) = task_mess k"
  "realtime (set_proc i f k) = realtime k"
  "lost_ticks (set_proc i f k) = lost_ticks k"
  "sig_procs (set_proc i f k) = sig_procs k"
  "int_flag (set_proc i f k) = int_flag k"
  "lockvar (set_proc i f k) = lockvar k"
  "memory (set_proc i f k) = memory k"
  "addr_m (set_proc i f k) = addr_m k"
  by (simp_all add: set_proc_def)

text \<open>Projecting a link field out of the table after one slot has been updated.\<close>

lemma link_upd [simp]:
  "(\<lambda>i. p_nextready (if i = a then x else g i)) = (\<lambda>i. p_nextready (g i))(a := p_nextready x)"
  "(\<lambda>i. p_sendlink (if i = a then x else g i)) = (\<lambda>i. p_sendlink (g i))(a := p_sendlink x)"
  by auto

section \<open>Assembly helpers\<close>

text \<open>A segment:offset pair addresses one byte of a 20-bit physical space.\<close>

definition phys_of :: "u16 \<Rightarrow> u16 \<Rightarrow> nat" where
  "phys_of sg off = (unat sg * 16 + unat off) mod 2 ^ 20"

definition get16 :: "(nat \<Rightarrow> u8) \<Rightarrow> u16 \<Rightarrow> u16 \<Rightarrow> u16" where
  "get16 mem sg off =
     word_of_nat (unat (mem (phys_of sg off)) + 256 * unat (mem (phys_of sg (off + 1))))"

definition put16 :: "u16 \<Rightarrow> u16 \<Rightarrow> u16 \<Rightarrow> (nat \<Rightarrow> u8) \<Rightarrow> (nat \<Rightarrow> u8)" where
  "put16 sg off w mem =
     mem(phys_of sg off := word_of_nat (unat w mod 256),
         phys_of sg (off + 1) := word_of_nat (unat w div 256))"

text \<open>
  \<^verbatim>\<open>cp_mess\<close>: the first word of the destination becomes the sender's number, the other
  eleven words are copied in ascending order (\<^verbatim>\<open>rep movsw\<close>).
\<close>

definition cp_mess ::
  "pnr \<Rightarrow> u16 \<Rightarrow> u16 \<Rightarrow> u16 \<Rightarrow> u16 \<Rightarrow> (nat \<Rightarrow> u8) \<Rightarrow> (nat \<Rightarrow> u8)" where
  "cp_mess src src_clicks src_offset dst_clicks dst_offset mem =
     fold (\<lambda>i m. put16 dst_clicks (dst_offset + 2 * word_of_nat i)
                   (get16 m src_clicks (src_offset + 2 * word_of_nat i)) m)
       [1..<12] (put16 dst_clicks dst_offset (word_of_int src) mem)"

definition lock :: "kernel \<Rightarrow> kernel" where
  "lock k = k\<lparr>lockvar := int_flag k, int_flag := False\<rparr>"

definition restore :: "kernel \<Rightarrow> kernel" where
  "restore k = k\<lparr>int_flag := lockvar k\<rparr>"

lemma lock_sel [simp]:
  "procs (lock k) = procs k" "rdy_head (lock k) = rdy_head k" "rdy_tail (lock k) = rdy_tail k"
  "cur_proc (lock k) = cur_proc k" "bill_ptr (lock k) = bill_ptr k" "memory (lock k) = memory k"
  "prev_proc (lock k) = prev_proc k" "proc_ptr (lock k) = proc_ptr k"
  "sig_procs (lock k) = sig_procs k" "addr_m (lock k) = addr_m k" "busy_map (lock k) = busy_map k"
  "task_mess (lock k) = task_mess k" "realtime (lock k) = realtime k"
  "lost_ticks (lock k) = lost_ticks k"
  by (simp_all add: lock_def)

lemma restore_sel [simp]:
  "procs (restore k) = procs k" "rdy_head (restore k) = rdy_head k"
  "rdy_tail (restore k) = rdy_tail k" "cur_proc (restore k) = cur_proc k"
  "bill_ptr (restore k) = bill_ptr k" "memory (restore k) = memory k"
  "prev_proc (restore k) = prev_proc k" "proc_ptr (restore k) = proc_ptr k"
  "sig_procs (restore k) = sig_procs k" "addr_m (restore k) = addr_m k"
  "busy_map (restore k) = busy_map k" "task_mess (restore k) = task_mess k"
  "realtime (restore k) = realtime k" "lost_ticks (restore k) = lost_ticks k"
  by (simp_all add: restore_def)

end
