(* ===== verification/KProc.thy ===== *)
theory KProc
  imports KTypes
begin

text \<open>
  \<^verbatim>\<open>kernel/proc.c\<close>: message passing by rendezvous and the three scheduling queues, with
  \<^verbatim>\<open>inform\<close> of \<^verbatim>\<open>kernel/system.c\<close>, which \<^verbatim>\<open>mini_rec\<close> calls when the memory manager blocks.
\<close>

section \<open>Scheduling queues\<close>

definition queue_of :: "pnr \<Rightarrow> nat" where
  "queue_of r = (if r < 0 then TASK_Q else if r < LOW_USER then SERVER_Q else USER_Q)"

definition pick_proc :: "kernel \<Rightarrow> kernel" where
  "pick_proc k =
     (let q = (if rdy_head k TASK_Q \<noteq> None then TASK_Q
               else if rdy_head k SERVER_Q \<noteq> None then SERVER_Q else USER_Q);
          k1 = k\<lparr>prev_proc := cur_proc k\<rparr>
      in case rdy_head k1 q of
           Some rp \<Rightarrow>
             (let k2 = k1\<lparr>cur_proc := rp, proc_ptr := rp\<rparr>
              in if cur_proc k2 \<ge> LOW_USER then k2\<lparr>bill_ptr := proc_ptr k2\<rparr> else k2)
         | None \<Rightarrow> k1\<lparr>cur_proc := IDLE, proc_ptr := HARDWARE, bill_ptr := HARDWARE\<rparr>)"

definition ready :: "pnr \<Rightarrow> kernel \<Rightarrow> kernel" where
  "ready rp k0 =
     (let k = lock k0;
          q = queue_of rp;
          k1 = (case rdy_head k q of
                  None \<Rightarrow> k\<lparr>rdy_head := (rdy_head k)(q := Some rp)\<rparr>
                | Some _ \<Rightarrow>
                    (case rdy_tail k q of
                       Some t \<Rightarrow> set_proc t (\<lambda>p. p\<lparr>p_nextready := Some rp\<rparr>) k
                     | None \<Rightarrow> k));
          k2 = k1\<lparr>rdy_tail := (rdy_tail k1)(q := Some rp)\<rparr>
      in restore (set_proc rp (\<lambda>p. p\<lparr>p_nextready := None\<rparr>) k2))"

text \<open>
  The search of \<^verbatim>\<open>unready\<close> for the slot whose successor is \<open>rp\<close>: \<open>Some None\<close> when the
  end of the queue is reached first.
\<close>

partial_function (option) find_before ::
  "(pnr \<Rightarrow> pnr option) \<Rightarrow> pnr \<Rightarrow> pnr \<Rightarrow> pnr option option" where
  "find_before nx rp xp =
     (if nx xp = Some rp then Some (Some xp)
      else case nx xp of None \<Rightarrow> Some None | Some y \<Rightarrow> find_before nx rp y)"

text \<open>Both early returns of the C body leave without calling \<^verbatim>\<open>restore\<close>; so does the model.\<close>

definition unready :: "pnr \<Rightarrow> kernel \<Rightarrow> kernel option" where
  "unready rp k0 =
     (let k = lock k0; q = queue_of rp
      in case rdy_head k q of
           None \<Rightarrow> Some k
         | Some xp \<Rightarrow>
             if xp = rp
             then Some (restore (pick_proc (k\<lparr>rdy_head := (rdy_head k)(q := nextready k xp)\<rparr>)))
             else do {
               found \<leftarrow> find_before (nextready k) rp xp;
               (case found of
                  None \<Rightarrow> Some k
                | Some xp' \<Rightarrow> do {
                    let k1 = set_proc xp' (\<lambda>p. p\<lparr>p_nextready := nextready k rp\<rparr>) k;
                    t \<leftarrow> last_link (nextready k1) xp';
                    Some (restore (k1\<lparr>rdy_tail := (rdy_tail k1)(q := Some t)\<rparr>))
                  })
             })"

definition sched :: "kernel \<Rightarrow> kernel" where
  "sched k0 =
     (let k = lock k0
      in case rdy_head k USER_Q of
           None \<Rightarrow> restore k
         | Some h \<Rightarrow>
             (let k1 = (case rdy_tail k USER_Q of
                          Some t \<Rightarrow> set_proc t (\<lambda>p. p\<lparr>p_nextready := Some h\<rparr>) k
                        | None \<Rightarrow> k);
                  k2 = k1\<lparr>rdy_tail := (rdy_tail k1)(USER_Q := Some h)\<rparr>;
                  k3 = k2\<lparr>rdy_head := (rdy_head k2)(USER_Q := nextready k2 h)\<rparr>;
                  k4 = set_proc h (\<lambda>p. p\<lparr>p_nextready := None\<rparr>) k3
              in restore (pick_proc k4)))"

section \<open>Messages\<close>

text \<open>The bounds check of \<^verbatim>\<open>mini_send\<close> on the message buffer, in 16-bit arithmetic.\<close>

definition bad_mess_addr :: "kproc \<Rightarrow> u16 \<Rightarrow> bool" where
  "bad_mess_addr caller_ptr m_ptr =
     (let len = mem_len (p_map caller_ptr SEG_D);
          vb = m_ptr;
          vlo = drop_bit CLICK_SHIFT vb;
          vhi = drop_bit CLICK_SHIFT (vb + MESS_SIZE - 1)
      in vhi < vlo \<or> vhi - mem_vir (p_map caller_ptr SEG_D) \<ge> len)"

definition mini_send :: "pnr \<Rightarrow> pnr \<Rightarrow> u16 \<Rightarrow> kernel \<Rightarrow> (int \<times> kernel) option" where
  "mini_send caller dest m_ptr k =
     (if caller \<ge> LOW_USER \<and> (dest \<noteq> FS_PROC_NR \<and> dest \<noteq> MM_PROC_NR) then Some (E_BAD_DEST, k)
      else if has_flag (p_flags (procs k dest)) P_SLOT_FREE then Some (E_BAD_DEST, k)
      else if bad_mess_addr (procs k caller) m_ptr then Some (E_BAD_ADDR, k)
      else if has_flag (p_flags (procs k dest)) RECEIVING
              \<and> (p_getfrom (procs k dest) = ANY \<or> p_getfrom (procs k dest) = caller)
      then
        (let k1 = k\<lparr>memory := cp_mess caller (mem_phys (p_map (procs k caller) SEG_D)) m_ptr
                               (mem_phys (p_map (procs k dest) SEG_D)) (p_messbuf (procs k dest))
                               (memory k)\<rparr>;
             k2 = set_proc dest (\<lambda>p. p\<lparr>p_flags := clr_flag (p_flags p) RECEIVING\<rparr>) k1
         in Some (OK, if p_flags (procs k2 dest) = 0 then ready dest k2 else k2))
      else if caller = HARDWARE then Some (E_OVERRUN, k)
      else do {
        k1 \<leftarrow> unready caller (set_proc caller
                (\<lambda>p. p\<lparr>p_messbuf := m_ptr, p_flags := set_flag (p_flags p) SENDING\<rparr>) k);
        k2 \<leftarrow> (case p_callerq (procs k1 dest) of
                 None \<Rightarrow> Some (set_proc dest (\<lambda>p. p\<lparr>p_callerq := Some caller\<rparr>) k1)
               | Some next_ptr \<Rightarrow> do {
                   l \<leftarrow> last_link (sendlink k1) next_ptr;
                   Some (set_proc l (\<lambda>p. p\<lparr>p_sendlink := Some caller\<rparr>) k1)
                 });
        Some (OK, set_proc caller (\<lambda>p. p\<lparr>p_sendlink := None\<rparr>) k2)
      })"

text \<open>
  \<^verbatim>\<open>inform\<close>: tell a server that waits for ANY about the first process with a pending
  signal.  The message is built in the static buffer \<^verbatim>\<open>m\<close> of the kernel's data segment;
  \<open>KSIG\<close> is 64.  \<open>None\<close> is the call of \<^verbatim>\<open>panic\<close>.
\<close>

abbreviation (input) "KSIG \<equiv> (64::u16)"

definition first_pending :: "kernel \<Rightarrow> pnr option" where
  "first_pending k = List.find (\<lambda>i. p_pending (procs k i) \<noteq> 0) [0..NR_PROCS - 1]"

definition inform :: "pnr \<Rightarrow> kernel \<Rightarrow> kernel option" where
  "inform proc_nr k =
     (if \<not> has_flag (p_flags (procs k proc_nr)) RECEIVING \<or> p_getfrom (procs k proc_nr) \<noteq> ANY
      then Some k
      else case first_pending k of
          None \<Rightarrow> Some k
        | Some rp \<Rightarrow> do {
            let ds = mem_phys (p_map (procs k HARDWARE) SEG_D);
            let k1 = k\<lparr>memory := put16 ds (addr_m k + 6) (p_pending (procs k rp))
                                 (put16 ds (addr_m k + 4) (word_of_int rp)
                                 (put16 ds (addr_m k + 2) KSIG (memory k))),
                       sig_procs := sig_procs k - 1\<rparr>;
            (n, k2) \<leftarrow> mini_send HARDWARE proc_nr (addr_m k) k1;
            if n \<noteq> OK then None
            else Some (set_proc rp (\<lambda>p. p\<lparr>p_pending := 0\<rparr>) k2)
          })"

text \<open>
  The search of \<^verbatim>\<open>mini_rec\<close> through the callers' queue: the first acceptable sender,
  with the slot before it.
\<close>

partial_function (option) find_sender ::
  "(pnr \<Rightarrow> pnr option) \<Rightarrow> int \<Rightarrow> pnr option \<Rightarrow> pnr \<Rightarrow> (pnr option \<times> pnr) option option" where
  "find_sender nx src prev_ptr s =
     (if src = ANY \<or> src = s then Some (Some (prev_ptr, s))
      else case nx s of None \<Rightarrow> Some None | Some y \<Rightarrow> find_sender nx src (Some s) y)"

definition mini_rec :: "pnr \<Rightarrow> int \<Rightarrow> u16 \<Rightarrow> kernel \<Rightarrow> (int \<times> kernel) option" where
  "mini_rec caller src m_ptr k = do {
     found \<leftarrow> (case p_callerq (procs k caller) of
                 None \<Rightarrow> Some None
               | Some s \<Rightarrow> find_sender (sendlink k) src None s);
     (case found of
        Some (prev_ptr, sender) \<Rightarrow>
          (let k1 = k\<lparr>memory := cp_mess sender (mem_phys (p_map (procs k sender) SEG_D))
                                  (p_messbuf (procs k sender))
                                  (mem_phys (p_map (procs k caller) SEG_D)) m_ptr (memory k)\<rparr>;
               k2 = set_proc sender (\<lambda>p. p\<lparr>p_flags := clr_flag (p_flags p) SENDING\<rparr>) k1;
               k3 = (if p_flags (procs k2 sender) = 0 then ready sender k2 else k2)
           in if p_callerq (procs k3 caller) = Some sender
              then Some (OK, set_proc caller
                      (\<lambda>p. p\<lparr>p_callerq := p_sendlink (procs k3 sender)\<rparr>) k3)
              else (case prev_ptr of
                      Some pv \<Rightarrow> Some (OK, set_proc pv
                        (\<lambda>p. p\<lparr>p_sendlink := p_sendlink (procs k3 sender)\<rparr>) k3)
                    | None \<Rightarrow> None))
      | None \<Rightarrow> do {
          k1 \<leftarrow> unready caller (set_proc caller
                  (\<lambda>p. p\<lparr>p_getfrom := src, p_messbuf := m_ptr,
                         p_flags := set_flag (p_flags p) RECEIVING\<rparr>) k);
          k2 \<leftarrow> (if sig_procs k1 > 0 \<and> caller = MM_PROC_NR \<and> src = ANY
                 then inform MM_PROC_NR k1 else Some k1);
          Some (OK, k2)
        })
   }"

definition set_ret :: "pnr \<Rightarrow> int \<Rightarrow> kernel \<Rightarrow> kernel" where
  "set_ret p n k = set_proc p (\<lambda>r. r\<lparr>p_reg := (p_reg r)(RET_REG := word_of_int n)\<rparr>) k"

definition sys_call :: "u16 \<Rightarrow> pnr \<Rightarrow> int \<Rightarrow> u16 \<Rightarrow> kernel \<Rightarrow> kernel option" where
  "sys_call fn caller src_dest m_ptr k =
     (if src_dest < - NR_TASKS \<or> (src_dest \<ge> NR_PROCS \<and> src_dest \<noteq> ANY)
      then Some (set_ret caller E_BAD_SRC k)
      else if fn \<noteq> BOTH \<and> caller \<ge> LOW_USER then Some (set_ret caller E_NO_PERM k)
      else do {
        (n, k1) \<leftarrow> (if has_flag fn SEND then do {
                       (n, k1) \<leftarrow> mini_send caller src_dest m_ptr k;
                       Some (n, if fn = SEND \<or> n \<noteq> OK then set_ret caller n k1 else k1)
                     } else Some (OK, k));
        if n \<noteq> OK then Some k1
        else if has_flag fn RECEIVE then do {
          (n, k2) \<leftarrow> mini_rec caller src_dest m_ptr k1;
          Some (set_ret caller n k2)
        } else Some k1
      })"

text \<open>
  \<^verbatim>\<open>interrupt\<close>: the reset of the interrupt controller is port output and is left out.
  The loop over the tasks with a pending interrupt is a fold over \<open>2..NR_TASKS\<close>.
\<close>

definition task_bit :: "nat \<Rightarrow> u16" where
  "task_bit i = push_bit i 1"

fun retry_tasks :: "u16 \<Rightarrow> nat list \<Rightarrow> kernel \<Rightarrow> kernel option" where
  "retry_tasks old_map [] k = Some k"
| "retry_tasks old_map (i # is) k =
     (if has_flag old_map (task_bit i)
      then do {
        (n, k1) \<leftarrow> mini_send HARDWARE (- int i) (task_mess k i) k;
        retry_tasks old_map is
          (if n = OK then k1\<lparr>busy_map := clr_flag (busy_map k1) (task_bit i)\<rparr> else k1)
      }
      else retry_tasks old_map is k)"

definition interrupt :: "pnr \<Rightarrow> u16 \<Rightarrow> kernel \<Rightarrow> kernel option" where
  "interrupt task m_ptr k = do {
     let this_bit = task_bit (nat (- task));
     (n, k1) \<leftarrow> mini_send HARDWARE task m_ptr k;
     let (old_map, k2) =
       (if n \<noteq> OK
        then (busy_map k1,
              if task = CLOCK then k1\<lparr>lost_ticks := int_of (lost_ticks k1 + 1)\<rparr>
              else k1\<lparr>busy_map := set_flag (busy_map k1) this_bit,
                      task_mess := (task_mess k1)(nat (- task) := m_ptr)\<rparr>)
        else (let k2 = k1\<lparr>busy_map := clr_flag (busy_map k1) this_bit\<rparr> in (busy_map k2, k2)));
     k3 \<leftarrow> (if old_map \<noteq> 0 then retry_tasks old_map [2..<9] k2 else Some k2);
     Some (if rdy_head k3 TASK_Q \<noteq> None \<and> (cur_proc k3 \<ge> 0 \<or> cur_proc k3 = IDLE)
           then pick_proc k3 else k3)
   }"

end
