(* ===== verification/KProcInv.thy ===== *)
theory KProcInv
  imports KProc
begin

text \<open>
  The queues of \<^verbatim>\<open>kernel/proc.c\<close> as lists.  \<open>rq_ok k rq\<close> says that the three ready queues
  of \<open>k\<close> hold the lists \<open>rq\<close>, \<open>cq_ok k cq\<close> that the callers' queue of every process \<open>d\<close>
  holds \<open>cq d\<close>; \<open>krep\<close> adds how the queues agree with \<^verbatim>\<open>p_flags\<close>: a process is on its ready
  queue exactly when its flags are zero and on some callers' queue exactly when it is
  SENDING.  Each operation is refined to the list operation it stands for.
\<close>

section \<open>Ready queues\<close>

definition valid_nr :: "pnr \<Rightarrow> bool" where
  "valid_nr p \<longleftrightarrow> - NR_TASKS \<le> p \<and> p < NR_PROCS"

definition rq_ok :: "kernel \<Rightarrow> (nat \<Rightarrow> pnr list) \<Rightarrow> bool" where
  "rq_ok k rq \<longleftrightarrow> (\<forall>q<3. chain (nextready k) (rdy_head k q) (rq q)
      \<and> (rq q \<noteq> [] \<longrightarrow> rdy_tail k q = Some (last (rq q)))
      \<and> (\<forall>p\<in>set (rq q). queue_of p = q \<and> valid_nr p))"

lemma queue_of_less [simp]: "queue_of p < 3"
  by (simp add: queue_of_def)

lemma rq_okD:
  assumes "rq_ok k rq" "q < 3"
  shows "chain (nextready k) (rdy_head k q) (rq q)"
    and "rq q \<noteq> [] \<Longrightarrow> rdy_tail k q = Some (last (rq q))"
    and "p \<in> set (rq q) \<Longrightarrow> queue_of p = q" and "p \<in> set (rq q) \<Longrightarrow> valid_nr p"
  using assms by (auto simp: rq_ok_def)

lemma rq_ok_cong:
  assumes "\<And>p. nextready k' p = nextready k p" "rdy_head k' = rdy_head k"
    "rdy_tail k' = rdy_tail k"
  shows "rq_ok k' rq = rq_ok k rq"
  using assms by (simp add: rq_ok_def fun_eq_iff)

lemma rq_head_None: "rq_ok k rq \<Longrightarrow> q < 3 \<Longrightarrow> rdy_head k q = None \<longleftrightarrow> rq q = []"
  using rq_okD(1) chain_nil_iff by blast

text \<open>The four ways a ready queue changes, for any table of links.\<close>

lemma rq_ok_update:
  assumes "rq_ok k rq" "r < 3"
    and "chain (nextready k') (rdy_head k' r) xs"
    and "xs \<noteq> [] \<Longrightarrow> rdy_tail k' r = Some (last xs)"
    and "\<And>p. p \<in> set xs \<Longrightarrow> queue_of p = r \<and> valid_nr p"
    and "\<And>q. q \<noteq> r \<Longrightarrow> rdy_head k' q = rdy_head k q \<and> rdy_tail k' q = rdy_tail k q"
    and "\<And>p. queue_of p \<noteq> r \<Longrightarrow> nextready k' p = nextready k p"
  shows "rq_ok k' (rq(r := xs))"
  unfolding rq_ok_def
proof (intro allI impI)
  fix q :: nat assume q: "q < 3"
  show "chain (nextready k') (rdy_head k' q) ((rq(r := xs)) q) \<and>
      ((rq(r := xs)) q \<noteq> [] \<longrightarrow> rdy_tail k' q = Some (last ((rq(r := xs)) q))) \<and>
      (\<forall>p\<in>set ((rq(r := xs)) q). queue_of p = q \<and> valid_nr p)"
  proof (cases "q = r")
    case True
    then show ?thesis using assms(3-5) by auto
  next
    case False
    have "chain (nextready k') (rdy_head k q) (rq q) = chain (nextready k) (rdy_head k q) (rq q)"
      by (rule lseg_cong) (metis False assms(1,7) q rq_okD(3))
    then show ?thesis using False q assms(1,6) by (auto simp: rq_ok_def)
  qed
qed

lemma pick_proc_sel [simp]:
  "procs (pick_proc k) = procs k" "rdy_head (pick_proc k) = rdy_head k"
  "rdy_tail (pick_proc k) = rdy_tail k" "memory (pick_proc k) = memory k"
  "sig_procs (pick_proc k) = sig_procs k" "addr_m (pick_proc k) = addr_m k"
  "busy_map (pick_proc k) = busy_map k" "task_mess (pick_proc k) = task_mess k"
  "lost_ticks (pick_proc k) = lost_ticks k" "realtime (pick_proc k) = realtime k"
  "prev_proc (pick_proc k) = cur_proc k"
  by (simp_all add: pick_proc_def Let_def split: option.splits)

lemma ready_rq:
  assumes "rq_ok k rq" "valid_nr rp" "rp \<notin> set (rq (queue_of rp))"
  shows "rq_ok (ready rp k) (rq(queue_of rp := rq (queue_of rp) @ [rp]))"
proof (rule rq_ok_update [OF assms(1)])
  let ?q = "queue_of rp" and ?xs = "rq (queue_of rp)"
  have c: "chain (nextready k) (rdy_head k ?q) ?xs" using assms(1) by (simp add: rq_okD)
  show "chain (nextready (ready rp k)) (rdy_head (ready rp k) ?q) (?xs @ [rp])"
  proof (cases "?xs = []")
    case True
    with c show ?thesis by (simp add: ready_def Let_def)
  next
    case False
    then obtain h where h: "rdy_head k ?q = Some h" and t: "rdy_tail k ?q = Some (last ?xs)"
      using c assms(1) by (cases ?xs) (auto dest!: rq_okD(2) [of k rq ?q])
    have "nextready (ready rp k) = (nextready k)(last ?xs := Some rp, rp := None)"
      using h t by (auto simp: ready_def Let_def fun_eq_iff)
    moreover have "rdy_head (ready rp k) ?q = rdy_head k ?q"
      using h t by (simp add: ready_def Let_def)
    ultimately show ?thesis using chain_snoc [OF c False assms(3)] by simp
  qed
  show "queue_of p = ?q \<and> valid_nr p" if "p \<in> set (?xs @ [rp])" for p
    using that assms(2) rq_okD(3,4) [OF assms(1), of ?q p] by auto
  show "rdy_head (ready rp k) q = rdy_head k q \<and> rdy_tail (ready rp k) q = rdy_tail k q"
    if "q \<noteq> ?q" for q
    using that by (auto simp: ready_def Let_def split: option.splits)
  show "nextready (ready rp k) p = nextready k p" if "queue_of p \<noteq> ?q" for p
  proof -
    have "p \<noteq> rp" "?xs \<noteq> [] \<Longrightarrow> p \<noteq> last ?xs"
      using that assms(1) rq_okD(3) [of k rq ?q "last ?xs"] by auto
    then show ?thesis
      using rq_head_None [OF assms(1), of ?q] rq_okD(2) [OF assms(1), of ?q]
      by (cases "?xs = []") (auto simp: ready_def Let_def split: option.splits)
  qed
qed (auto simp: ready_def Let_def split: option.splits)

lemma find_before_hit:
  "chain nx (Some xp) (us @ [a, rp] @ vs) \<Longrightarrow> find_before nx rp xp = Some (Some a)"
proof (induction us arbitrary: xp)
  case Nil
  then show ?case by (simp add: find_before.simps)
next
  case (Cons u us)
  have "distinct ((u # us) @ [a, rp] @ vs)" using Cons.prems by (rule chain_distinct)
  then have "hd (us @ [a]) \<noteq> rp" by (cases us) auto
  moreover obtain y where y: "nx xp = Some y" "y = hd (us @ [a])"
    using Cons.prems by (cases us) auto
  moreover have "chain nx (Some y) (us @ [a, rp] @ vs)" using Cons.prems y by auto
  ultimately show ?case using Cons.IH by (simp add: find_before.simps [of nx rp xp])
qed

lemma find_before_miss:
  "chain nx (Some xp) xs \<Longrightarrow> rp \<notin> set (tl xs) \<Longrightarrow> find_before nx rp xp = Some None"
proof (induction xs arbitrary: xp)
  case (Cons x xs)
  then show ?case
    by (cases xs) (auto simp: find_before.simps [of nx rp x])
qed simp

text \<open>\<^verbatim>\<open>unready\<close> always returns on a well-formed queue and removes exactly \<open>rp\<close>.\<close>

lemma unready_rq:
  assumes "rq_ok k rq"
  shows "\<exists>k'. unready rp k = Some k'
    \<and> rq_ok k' (rq(queue_of rp := remove1 rp (rq (queue_of rp))))"
proof -
  let ?q = "queue_of rp" and ?xs = "rq (queue_of rp)"
  have c: "chain (nextready k) (rdy_head k ?q) ?xs" using assms by (simp add: rq_okD)
  have d: "distinct ?xs" using c by (rule chain_distinct)
  have keep: "rq_ok (lock k) (rq(?q := ?xs))"
    using assms rq_ok_cong [of "lock k" k] by simp
  show ?thesis
  proof (cases ?xs)
    case Nil
    then show ?thesis using c keep by (simp add: unready_def Let_def)
  next
    case (Cons h t)
    then have h: "rdy_head k ?q = Some h" "chain (nextready k) (nextready k h) t" using c by auto
    show ?thesis
    proof (cases "h = rp")
      case True
      have "rq_ok (restore (pick_proc ((lock k)\<lparr>rdy_head :=
              (rdy_head (lock k))(?q := nextready (lock k) h)\<rparr>))) (rq(?q := t))"
      proof (rule rq_ok_update [OF assms])
        show "queue_of p = ?q \<and> valid_nr p" if "p \<in> set t" for p
          using that Cons rq_okD(3,4) [OF assms, of ?q p] by simp
        show "rdy_tail (restore (pick_proc ((lock k)\<lparr>rdy_head :=
              (rdy_head (lock k))(?q := nextready (lock k) h)\<rparr>))) ?q = Some (last t)"
          if "t \<noteq> []" using that Cons rq_okD(2) [OF assms, of ?q] by simp
      qed (use h in auto)
      then show ?thesis using h True Cons by (simp add: unready_def Let_def)
    next
      case hne: False
      show ?thesis
      proof (cases "rp \<in> set t")
        case False
        then have "find_before (nextready (lock k)) rp h = Some None"
          using find_before_miss [of "nextready k" h "h # t" rp] h by simp
        then show ?thesis using h hne False Cons keep
          by (simp add: unready_def Let_def remove1_idem)
      next
        case True
        then obtain us a vs where xs: "?xs = us @ [a, rp] @ vs"
        proof -
          from True obtain bs cs where t: "t = bs @ rp # cs" by (meson split_list)
          have "h # bs = butlast (h # bs) @ [last (h # bs)]" by simp
          then have "?xs = butlast (h # bs) @ [last (h # bs), rp] @ cs"
            using Cons t by (metis append_Cons append_Nil append_assoc)
          then show ?thesis by (rule that)
        qed
        let ?k1 = "set_proc a (\<lambda>p. p\<lparr>p_nextready := nextready (lock k) rp\<rparr>) (lock k)"
        have fb: "find_before (nextready k) rp h = Some (Some a)"
          using c h xs find_before_hit by metis
        have rem: "remove1 rp ?xs = us @ [a] @ vs"
          using d xs by (simp add: remove1_append)
        have ch: "chain (nextready ?k1) (rdy_head k ?q) (us @ [a] @ vs)"
          using chain_unlink [of "nextready k" "rdy_head k ?q" us a rp vs] c xs by simp
        then have "chain (nextready ?k1) (Some a) ([a] @ vs)" by auto
        then have ll: "last_link (nextready ?k1) a = Some (last (us @ [a] @ vs))"
          by (simp only: last_link_chain) simp
        have "rq_ok (restore (?k1\<lparr>rdy_tail := (rdy_tail ?k1)(?q := Some (last (us @ [a] @ vs)))\<rparr>))
            (rq(?q := us @ [a] @ vs))"
        proof (rule rq_ok_update [OF assms])
          show "queue_of p = ?q \<and> valid_nr p" if "p \<in> set (us @ [a] @ vs)" for p
            using that assms xs rq_okD(3,4) [OF assms, of ?q p] by auto
          have "queue_of a = ?q" using xs rq_okD(3) [OF assms, of ?q a] by auto
          then show "nextready (restore (?k1\<lparr>rdy_tail := (rdy_tail ?k1)(?q := Some (last (us @ [a] @ vs)))\<rparr>)) p
            = nextready k p" if "queue_of p \<noteq> ?q" for p
            using that by auto
        qed (use ch in auto)
        then show ?thesis using h hne fb ll rem
          by (simp add: unready_def Let_def del: last_append)
      qed
    qed
  qed
qed

end
