(* ===== verification/KIpc.thy ===== *)
theory KIpc
  imports KProcInv
begin

text \<open>
  Message passing over the queues: the callers' queues as lists, the agreement of the
  queues with the process flags (\<open>krep\<close>), and the refinement of \<^verbatim>\<open>mini_send\<close>,
  \<^verbatim>\<open>inform\<close> and \<^verbatim>\<open>mini_rec\<close> to list operations.
\<close>

section \<open>What scheduling leaves alone\<close>

definition frame :: "kernel \<Rightarrow> kernel \<Rightarrow> bool" where
  "frame k k' \<longleftrightarrow>
     (\<forall>p. (procs k' p)\<lparr>p_nextready := None\<rparr> = (procs k p)\<lparr>p_nextready := None\<rparr>)
     \<and> memory k' = memory k \<and> sig_procs k' = sig_procs k \<and> addr_m k' = addr_m k
     \<and> busy_map k' = busy_map k \<and> task_mess k' = task_mess k
     \<and> realtime k' = realtime k \<and> lost_ticks k' = lost_ticks k"

lemma frame_procD:
  assumes "(p'::kproc)\<lparr>p_nextready := None\<rparr> = p\<lparr>p_nextready := None\<rparr>"
  shows "p_reg p' = p_reg p" "p_sp p' = p_sp p" "p_pcpsw p' = p_pcpsw p" "p_flags p' = p_flags p"
    "p_map p' = p_map p" "p_pid p' = p_pid p" "user_time p' = user_time p"
    "sys_time p' = sys_time p" "child_utime p' = child_utime p" "child_stime p' = child_stime p"
    "p_alarm p' = p_alarm p" "p_callerq p' = p_callerq p" "p_sendlink p' = p_sendlink p"
    "p_messbuf p' = p_messbuf p" "p_getfrom p' = p_getfrom p" "p_pending p' = p_pending p"
  using assms by (cases p; cases p'; simp)+

lemma frameD:
  assumes "frame k k'"
  shows "p_reg (procs k' p) = p_reg (procs k p)" "p_flags (procs k' p) = p_flags (procs k p)"
    "p_map (procs k' p) = p_map (procs k p)" "p_callerq (procs k' p) = p_callerq (procs k p)"
    "p_sendlink (procs k' p) = p_sendlink (procs k p)"
    "p_messbuf (procs k' p) = p_messbuf (procs k p)"
    "p_getfrom (procs k' p) = p_getfrom (procs k p)"
    "p_pending (procs k' p) = p_pending (procs k p)"
    "memory k' = memory k" "sig_procs k' = sig_procs k" "addr_m k' = addr_m k"
    "busy_map k' = busy_map k" "task_mess k' = task_mess k" "lost_ticks k' = lost_ticks k"
  using assms frame_procD [of "procs k' p" "procs k p"] by (auto simp: frame_def)

lemma ready_frame: "frame k (ready p k)"
  by (auto simp: frame_def ready_def Let_def split: option.splits)

lemma unready_frame: "unready p k = Some k' \<Longrightarrow> frame k k'"
  by (auto simp: frame_def unready_def Let_def bind_eq_Some_conv split: option.splits if_splits)

lemmas ready_frameD [simp] = frameD [OF ready_frame]

section \<open>Queue interface\<close>

text \<open>
  What the message code relies on: a queue of processes per priority, insertion at the
  tail and removal of any member, both total and exact.
\<close>

locale proc_queue =
  fixes rep :: "'s \<Rightarrow> (nat \<Rightarrow> pnr list) \<Rightarrow> bool"
    and enq :: "pnr \<Rightarrow> 's \<Rightarrow> 's"
    and deq :: "pnr \<Rightarrow> 's \<Rightarrow> 's option"
  assumes enq_rep: "rep s rq \<Longrightarrow> valid_nr p \<Longrightarrow> p \<notin> set (rq (queue_of p)) \<Longrightarrow>
      rep (enq p s) (rq(queue_of p := rq (queue_of p) @ [p]))"
    and deq_rep: "rep s rq \<Longrightarrow>
      \<exists>s'. deq p s = Some s' \<and> rep s' (rq(queue_of p := remove1 p (rq (queue_of p))))"
    and rep_distinct: "rep s rq \<Longrightarrow> distinct (rq (queue_of p))"
begin

lemma deq_total: "rep s rq \<Longrightarrow> deq p s \<noteq> None"
  using deq_rep by fastforce

lemma deq_gone:
  "rep s rq \<Longrightarrow> \<exists>s' rq'. deq p s = Some s' \<and> rep s' rq' \<and> p \<notin> set (rq' (queue_of p))"
  using deq_rep [of s rq p] rep_distinct [of s rq p] by fastforce

lemma enq_deq:
  assumes "rep s rq" "valid_nr p" "p \<notin> set (rq (queue_of p))"
  shows "\<exists>s'. deq p (enq p s) = Some s' \<and> rep s' rq"
  using deq_rep [OF enq_rep [OF assms], of p] assms(3) by (simp add: remove1_append)

lemma requeue:
  assumes "rep s rq" "valid_nr p" "p \<in> set (rq (queue_of p))"
  shows "\<exists>s'. deq p s = Some s' \<and>
    rep (enq p s') (rq(queue_of p := remove1 p (rq (queue_of p)) @ [p]))"
proof -
  obtain s' where s': "deq p s = Some s'" "rep s' (rq(queue_of p := remove1 p (rq (queue_of p))))"
    using deq_rep [OF assms(1)] by blast
  have "p \<notin> set (remove1 p (rq (queue_of p)))" using rep_distinct [OF assms(1), of p] by simp
  with enq_rep [OF s'(2) assms(2)] s'(1) show ?thesis by simp
qed

end

interpretation rdy: proc_queue rq_ok ready unready
proof
  show "rq_ok k rq \<Longrightarrow> distinct (rq (queue_of p))" for k rq p
    using rq_okD(1) [of k rq "queue_of p"] chain_distinct by fastforce
qed (auto intro: ready_rq unready_rq)

section \<open>Callers' queues\<close>

definition cq_ok :: "kernel \<Rightarrow> (pnr \<Rightarrow> pnr list) \<Rightarrow> bool" where
  "cq_ok k cq \<longleftrightarrow> (\<forall>d. valid_nr d \<longrightarrow> chain (sendlink k) (p_callerq (procs k d)) (cq d))
     \<and> (\<forall>d. \<not> valid_nr d \<longrightarrow> cq d = [])
     \<and> (\<forall>d e p. p \<in> set (cq d) \<longrightarrow> p \<in> set (cq e) \<longrightarrow> d = e)
     \<and> (\<forall>d. \<forall>p\<in>set (cq d). valid_nr p \<and> p \<noteq> HARDWARE)"

lemma cq_okD:
  assumes "cq_ok k cq"
  shows "valid_nr d \<Longrightarrow> chain (sendlink k) (p_callerq (procs k d)) (cq d)"
    and "p \<in> set (cq d) \<Longrightarrow> p \<in> set (cq e) \<Longrightarrow> d = e"
    and "p \<in> set (cq d) \<Longrightarrow> valid_nr p" and "p \<in> set (cq d) \<Longrightarrow> p \<noteq> HARDWARE"
    and "p \<in> set (cq d) \<Longrightarrow> valid_nr d"
  using assms unfolding cq_ok_def by (blast, blast, blast, blast, force)

lemma cq_ok_cong:
  assumes "\<And>p. p_sendlink (procs k' p) = p_sendlink (procs k p)"
    "\<And>p. p_callerq (procs k' p) = p_callerq (procs k p)"
  shows "cq_ok k' cq = cq_ok k cq"
  using assms by (simp add: cq_ok_def)

lemma cq_ok_update:
  assumes "cq_ok k cq" "valid_nr r"
    and "chain (sendlink k') (p_callerq (procs k' r)) xs"
    and "\<And>p. p \<in> set xs \<Longrightarrow> valid_nr p \<and> p \<noteq> HARDWARE"
    and "\<And>p d. p \<in> set xs \<Longrightarrow> p \<in> set (cq d) \<Longrightarrow> d = r"
    and "\<And>d. d \<noteq> r \<Longrightarrow> p_callerq (procs k' d) = p_callerq (procs k d)"
    and "\<And>p d. d \<noteq> r \<Longrightarrow> p \<in> set (cq d) \<Longrightarrow> sendlink k' p = sendlink k p"
  shows "cq_ok k' (cq(r := xs))"
proof -
  have "chain (sendlink k') (p_callerq (procs k' d)) (cq d)" if d: "valid_nr d" "d \<noteq> r" for d
  proof -
    have "chain (sendlink k') (p_callerq (procs k d)) (cq d)
        = chain (sendlink k) (p_callerq (procs k d)) (cq d)"
      by (rule lseg_cong) (use assms(7) d in blast)
    then show ?thesis using d assms(1,6) cq_okD(1) by metis
  qed
  then show ?thesis
    using assms(1-5) unfolding cq_ok_def by (auto split: if_splits)
qed

lemma find_sender_hit:
  assumes "chain nx (Some x) (us @ s # vs)"
    and "src = ANY \<or> src = s" and "\<forall>u\<in>set us. \<not> (src = ANY \<or> src = u)"
  shows "find_sender nx src pv x = Some (Some (if us = [] then pv else Some (last us), s))"
  using assms
proof (induction us arbitrary: x pv)
  case Nil
  then show ?case by (simp add: find_sender.simps)
next
  case (Cons u us)
  then obtain y where y: "nx x = Some y" "x = u" "chain nx (Some y) (us @ s # vs)"
    by (cases us) auto
  have na: "\<not> (src = ANY \<or> src = u)" using Cons.prems(3) by simp
  have "find_sender nx src (Some u) y = Some (Some (if us = [] then Some u else Some (last us), s))"
    using Cons.IH [OF y(3) Cons.prems(2)] Cons.prems(3) by simp
  then show ?case using na y by (simp add: find_sender.simps [of nx src pv u])
qed

lemma find_sender_miss:
  assumes "chain nx (Some x) xs" "\<forall>u\<in>set xs. \<not> (src = ANY \<or> src = u)"
  shows "find_sender nx src pv x = Some None"
  using assms
proof (induction xs arbitrary: x pv)
  case (Cons u us)
  then show ?case by (cases us) (auto simp: find_sender.simps [of nx src _ u])
qed simp

section \<open>Agreement of queues and flags\<close>

definition krep :: "kernel \<Rightarrow> (nat \<Rightarrow> pnr list) \<Rightarrow> (pnr \<Rightarrow> pnr list) \<Rightarrow> bool" where
  "krep k rq cq \<longleftrightarrow> rq_ok k rq \<and> cq_ok k cq
     \<and> (\<forall>p. valid_nr p \<and> p \<noteq> HARDWARE \<longrightarrow> (p \<in> set (rq (queue_of p)) \<longleftrightarrow> p_flags (procs k p) = 0))
     \<and> (\<forall>p. valid_nr p \<longrightarrow> (has_flag (p_flags (procs k p)) SENDING \<longleftrightarrow> (\<exists>d. p \<in> set (cq d))))
     \<and> HARDWARE \<notin> set (rq TASK_Q) \<and> p_flags (procs k HARDWARE) = 0"

definition kenv :: "kernel \<Rightarrow> bool" where
  "kenv k \<longleftrightarrow> \<not> has_flag (p_flags (procs k MM_PROC_NR)) P_SLOT_FREE
     \<and> \<not> bad_mess_addr (procs k HARDWARE) (addr_m k)"

definition kinv :: "kernel \<Rightarrow> bool" where
  "kinv k \<longleftrightarrow> kenv k \<and> (\<exists>rq cq. krep k rq cq)"

abbreviation a_ready :: "pnr \<Rightarrow> (nat \<Rightarrow> pnr list) \<Rightarrow> nat \<Rightarrow> pnr list" where
  "a_ready p rq \<equiv> rq(queue_of p := rq (queue_of p) @ [p])"

abbreviation a_unready :: "pnr \<Rightarrow> (nat \<Rightarrow> pnr list) \<Rightarrow> nat \<Rightarrow> pnr list" where
  "a_unready p rq \<equiv> rq(queue_of p := remove1 p (rq (queue_of p)))"

lemma krepD:
  assumes "krep k rq cq"
  shows "rq_ok k rq" "cq_ok k cq"
    "valid_nr p \<Longrightarrow> p \<noteq> HARDWARE \<Longrightarrow> p \<in> set (rq (queue_of p)) \<longleftrightarrow> p_flags (procs k p) = 0"
    "valid_nr p \<Longrightarrow> has_flag (p_flags (procs k p)) SENDING \<longleftrightarrow> (\<exists>d. p \<in> set (cq d))"
    "HARDWARE \<notin> set (rq TASK_Q)" "p_flags (procs k HARDWARE) = 0"
  using assms by (auto simp: krep_def)

lemma hw_queue [simp]: "queue_of HARDWARE = TASK_Q" and hw_valid [simp]: "valid_nr HARDWARE"
  by (simp_all add: queue_of_def valid_nr_def)

text \<open>Making a blocked process runnable, and blocking one, at the level of \<open>krep\<close>.\<close>

lemma krep_unblock:
  assumes k: "krep k rq cq" and p: "valid_nr p" "p_flags (procs k p) \<noteq> 0"
    and k2: "k2 = set_proc p (\<lambda>r. r\<lparr>p_flags := f\<rparr>) k"
    and k3: "k3 = (if f = 0 then ready p k2 else k2)"
  shows "rq_ok k3 (if f = 0 then a_ready p rq else rq)"
    and "\<And>i. valid_nr i \<Longrightarrow> i \<noteq> HARDWARE \<Longrightarrow>
      i \<in> set ((if f = 0 then a_ready p rq else rq) (queue_of i)) \<longleftrightarrow> p_flags (procs k3 i) = 0"
    and "HARDWARE \<notin> set ((if f = 0 then a_ready p rq else rq) TASK_Q)"
    and "p_flags (procs k3 HARDWARE) = 0" and "p \<noteq> HARDWARE"
proof -
  show ph: "p \<noteq> HARDWARE" using p(2) krepD(6) [OF k] by auto
  then have np: "p \<notin> set (rq (queue_of p))" using krepD(3) [OF k p(1)] p(2) by simp
  have r2: "rq_ok k2 rq" using krepD(1) [OF k] k2 rq_ok_cong [of k2 k] by simp
  show "rq_ok k3 (if f = 0 then a_ready p rq else rq)"
    using rdy.enq_rep [OF r2 p(1) np] r2 k3 by simp
  show "i \<in> set ((if f = 0 then a_ready p rq else rq) (queue_of i)) \<longleftrightarrow> p_flags (procs k3 i) = 0"
    if "valid_nr i" "i \<noteq> HARDWARE" for i
    using krepD(3) [OF k that] np by (auto simp: k3 k2)
  show "HARDWARE \<notin> set ((if f = 0 then a_ready p rq else rq) TASK_Q)"
    using krepD(5) [OF k] ph by (auto simp: queue_of_def)
  show "p_flags (procs k3 HARDWARE) = 0" using krepD(6) [OF k] ph by (auto simp: k3 k2)
qed

lemma krep_block:
  assumes k: "krep k rq cq" and p: "valid_nr p" "p \<noteq> HARDWARE" and f: "p_flags (g (procs k p)) \<noteq> 0"
    and g: "\<And>r. p_nextready (g r) = p_nextready r"
  shows "\<exists>k'. unready p (set_proc p g k) = Some k' \<and> frame (set_proc p g k) k'
    \<and> rq_ok k' (a_unready p rq)
    \<and> (\<forall>i. valid_nr i \<and> i \<noteq> HARDWARE \<longrightarrow>
         (i \<in> set (a_unready p rq (queue_of i)) \<longleftrightarrow> p_flags (procs k' i) = 0))
    \<and> HARDWARE \<notin> set (a_unready p rq TASK_Q) \<and> p_flags (procs k' HARDWARE) = 0"
proof -
  have "rq_ok (set_proc p g k) rq"
    using krepD(1) [OF k] rq_ok_cong [of "set_proc p g k" k] g by simp
  from rdy.deq_rep [OF this, of p] obtain k' where
    k': "unready p (set_proc p g k) = Some k'" "rq_ok k' (a_unready p rq)" by blast
  have fr: "frame (set_proc p g k) k'" using k'(1) by (rule unready_frame)
  have d: "distinct (rq (queue_of p))" using krepD(1) [OF k] by (rule rdy.rep_distinct)
  have "i \<in> set (a_unready p rq (queue_of i)) \<longleftrightarrow> p_flags (procs k' i) = 0"
    if "valid_nr i" "i \<noteq> HARDWARE" for i
    using krepD(3) [OF k that] d f by (auto simp: frameD [OF fr])
  moreover have "HARDWARE \<notin> set (a_unready p rq TASK_Q)"
    using krepD(5) [OF k] by (auto dest: in_set_remove1 [THEN iffD1, rotated] notin_set_remove1)
  moreover have "p_flags (procs k' HARDWARE) = 0"
    using krepD(6) [OF k] p by (simp add: frameD [OF fr])
  ultimately show ?thesis using k' fr by blast
qed

section \<open>mini_send\<close>

definition send_refused :: "kernel \<Rightarrow> pnr \<Rightarrow> pnr \<Rightarrow> u16 \<Rightarrow> bool" where
  "send_refused k caller dest m_ptr \<longleftrightarrow>
     (caller \<ge> LOW_USER \<and> dest \<noteq> FS_PROC_NR \<and> dest \<noteq> MM_PROC_NR)
     \<or> has_flag (p_flags (procs k dest)) P_SLOT_FREE \<or> bad_mess_addr (procs k caller) m_ptr"

definition waits_for :: "kernel \<Rightarrow> pnr \<Rightarrow> pnr \<Rightarrow> bool" where
  "waits_for k dest caller \<longleftrightarrow> has_flag (p_flags (procs k dest)) RECEIVING
     \<and> (p_getfrom (procs k dest) = ANY \<or> p_getfrom (procs k dest) = caller)"

definition mess_copied :: "kernel \<Rightarrow> pnr \<Rightarrow> u16 \<Rightarrow> pnr \<Rightarrow> u16 \<Rightarrow> (nat \<Rightarrow> u8)" where
  "mess_copied k from from_ptr to to_ptr =
     cp_mess from (mem_phys (p_map (procs k from) SEG_D)) from_ptr
       (mem_phys (p_map (procs k to) SEG_D)) to_ptr (memory k)"

lemma mini_send_refused:
  "send_refused k caller dest m_ptr \<Longrightarrow>
     mini_send caller dest m_ptr k = Some (E_BAD_DEST, k)
     \<or> mini_send caller dest m_ptr k = Some (E_BAD_ADDR, k)"
  by (auto simp: send_refused_def mini_send_def)

lemma mini_send_deliver:
  assumes k: "krep k rq cq" and v: "valid_nr dest"
    and ok: "\<not> send_refused k caller dest m_ptr" and w: "waits_for k dest caller"
  defines "f \<equiv> clr_flag (p_flags (procs k dest)) RECEIVING"
  shows "\<exists>k'. mini_send caller dest m_ptr k = Some (OK, k')
    \<and> krep k' (if f = 0 then a_ready dest rq else rq) cq
    \<and> memory k' = mess_copied k caller m_ptr dest (p_messbuf (procs k dest))
    \<and> p_flags (procs k' dest) = f
    \<and> (\<forall>p. p \<noteq> dest \<longrightarrow> p_flags (procs k' p) = p_flags (procs k p))
    \<and> (\<forall>p. p_map (procs k' p) = p_map (procs k p)) \<and> addr_m k' = addr_m k"
proof -
  define k1 where "k1 = k\<lparr>memory := mess_copied k caller m_ptr dest (p_messbuf (procs k dest))\<rparr>"
  define k2 where "k2 = set_proc dest (\<lambda>p. p\<lparr>p_flags := f\<rparr>) k1"
  define k3 where "k3 = (if f = 0 then ready dest k2 else k2)"
  have k2': "k2 = set_proc dest (\<lambda>p. p\<lparr>p_flags := clr_flag (p_flags p) RECEIVING\<rparr>) k1"
    by (simp add: k2_def set_proc_def f_def k1_def)
  have ms: "mini_send caller dest m_ptr k = Some (OK, k3)"
    using ok w unfolding mini_send_def send_refused_def waits_for_def k3_def k2' k1_def
      mess_copied_def f_def Let_def by simp
  have kr: "krep k1 rq cq"
    using k rq_ok_cong [of k1 k rq] cq_ok_cong [of k1 k cq] by (simp add: krep_def k1_def)
  have fl: "p_flags (procs k1 dest) \<noteq> 0"
    using w by (auto simp: waits_for_def k1_def)
  note U = krep_unblock [OF kr v fl k2_def k3_def]
  have sel: "p_flags (procs k3 p) = (if p = dest then f else p_flags (procs k p))"
    "p_sendlink (procs k3 p) = p_sendlink (procs k p)"
    "p_callerq (procs k3 p) = p_callerq (procs k p)" "p_map (procs k3 p) = p_map (procs k p)"
    "addr_m k3 = addr_m k" "memory k3 = memory k1" for p
    by (simp_all add: k3_def k2_def k1_def)
  have "cq_ok k3 cq" using krepD(2) [OF k] cq_ok_cong [of k3 k cq] sel by simp
  moreover have "has_flag f SENDING = has_flag (p_flags (procs k dest)) SENDING"
    by (simp add: f_def flag_simps)
  ultimately have "krep k3 (if f = 0 then a_ready dest rq else rq) cq"
    using U(1-4) krepD(4) [OF k] sel unfolding krep_def by auto
  then show ?thesis using ms sel by (auto simp: k1_def)
qed

lemma cq_enqueue:
  assumes c: "cq_ok k1 cq" and v: "valid_nr dest" "valid_nr caller" "caller \<noteq> HARDWARE"
    and new: "\<And>d. caller \<notin> set (cq d)"
  shows "\<exists>k2. (case p_callerq (procs k1 dest) of
        None \<Rightarrow> Some (set_proc dest (\<lambda>p. p\<lparr>p_callerq := Some caller\<rparr>) k1)
      | Some next_ptr \<Rightarrow> do {
          l \<leftarrow> last_link (sendlink k1) next_ptr;
          Some (set_proc l (\<lambda>p. p\<lparr>p_sendlink := Some caller\<rparr>) k1) }) = Some k2
    \<and> cq_ok (set_proc caller (\<lambda>p. p\<lparr>p_sendlink := None\<rparr>) k2) (cq(dest := cq dest @ [caller]))
    \<and> (\<forall>p. \<exists>a b. procs k2 p = (procs k1 p)\<lparr>p_callerq := a, p_sendlink := b\<rparr>)
    \<and> (\<exists>t. k2 = k1\<lparr>procs := t\<rparr>)"
proof (cases "cq dest = []")
  case True
  then have e: "p_callerq (procs k1 dest) = None"
    using cq_okD(1) [OF c v(1)] by simp
  let ?k2 = "set_proc dest (\<lambda>p. p\<lparr>p_callerq := Some caller\<rparr>) k1"
  have "cq_ok (set_proc caller (\<lambda>p. p\<lparr>p_sendlink := None\<rparr>) ?k2) (cq(dest := cq dest @ [caller]))"
    by (rule cq_ok_update [OF c v(1)]) (use True v new in auto)
  moreover have "\<exists>a b. procs ?k2 p = (procs k1 p)\<lparr>p_callerq := a, p_sendlink := b\<rparr>" for p
    by (cases "procs k1 p") auto
  ultimately show ?thesis using e by (intro exI [of _ ?k2]) (auto simp: set_proc_def)
next
  case False
  let ?l = "last (cq dest)"
  have ch: "chain (sendlink k1) (p_callerq (procs k1 dest)) (cq dest)"
    by (rule cq_okD(1) [OF c v(1)])
  then obtain n where e: "p_callerq (procs k1 dest) = Some n" using False by (cases "cq dest") auto
  have ll: "last_link (sendlink k1) n = Some ?l"
    by (rule last_link_chain) (use ch e in simp)
  let ?k2 = "set_proc ?l (\<lambda>p. p\<lparr>p_sendlink := Some caller\<rparr>) k1"
  have lmem: "?l \<in> set (cq dest)" using False by simp
  have "cq_ok (set_proc caller (\<lambda>p. p\<lparr>p_sendlink := None\<rparr>) ?k2) (cq(dest := cq dest @ [caller]))"
  proof (rule cq_ok_update [OF c v(1)])
    have "sendlink (set_proc caller (\<lambda>p. p\<lparr>p_sendlink := None\<rparr>) ?k2)
        = (sendlink k1)(?l := Some caller, caller := None)"
      by (auto simp: fun_eq_iff)
    moreover have cqsel: "p_callerq (procs (set_proc caller (\<lambda>p. p\<lparr>p_sendlink := None\<rparr>) ?k2) dest)
        = p_callerq (procs k1 dest)" by simp
    ultimately show "chain (sendlink (set_proc caller (\<lambda>p. p\<lparr>p_sendlink := None\<rparr>) ?k2))
        (p_callerq (procs (set_proc caller (\<lambda>p. p\<lparr>p_sendlink := None\<rparr>) ?k2) dest))
        (cq dest @ [caller])"
      using chain_snoc [OF ch False new] by (simp only:)
    show "valid_nr p \<and> p \<noteq> HARDWARE" if "p \<in> set (cq dest @ [caller])" for p
      using that v cq_okD(3,4) [OF c, of p dest] by auto
    show "d = dest" if "p \<in> set (cq dest @ [caller])" "p \<in> set (cq d)" for p d
      using that new cq_okD(2) [OF c] by auto
    show "sendlink (set_proc caller (\<lambda>p. p\<lparr>p_sendlink := None\<rparr>) ?k2) p = sendlink k1 p"
      if "d \<noteq> dest" "p \<in> set (cq d)" for p d
    proof -
      have "p \<noteq> caller" "p \<noteq> ?l" using that new cq_okD(2) [OF c that(2), of dest] lmem by auto
      then show ?thesis by simp
    qed
  qed simp
  moreover have "\<exists>a b. procs ?k2 p = (procs k1 p)\<lparr>p_callerq := a, p_sendlink := b\<rparr>" for p
    by (cases "procs k1 p") auto
  ultimately show ?thesis using e ll by (intro exI [of _ ?k2]) (auto simp: set_proc_def)
qed

lemma mini_send_queue:
  assumes k: "krep k rq cq" and v: "valid_nr dest" "valid_nr caller" "caller \<noteq> HARDWARE"
    and ok: "\<not> send_refused k caller dest m_ptr" and w: "\<not> waits_for k dest caller"
    and ns: "\<not> has_flag (p_flags (procs k caller)) SENDING"
  shows "\<exists>k'. mini_send caller dest m_ptr k = Some (OK, k')
    \<and> krep k' (a_unready caller rq) (cq(dest := cq dest @ [caller]))
    \<and> memory k' = memory k \<and> p_messbuf (procs k' caller) = m_ptr
    \<and> p_flags (procs k' caller) = set_flag (p_flags (procs k caller)) SENDING
    \<and> (\<forall>p. p \<noteq> caller \<longrightarrow> p_flags (procs k' p) = p_flags (procs k p))
    \<and> (\<forall>p. p_map (procs k' p) = p_map (procs k p)) \<and> addr_m k' = addr_m k"
proof -
  let ?g = "\<lambda>p. p\<lparr>p_messbuf := m_ptr, p_flags := set_flag (p_flags p) SENDING\<rparr>"
  obtain k1 where k1: "unready caller (set_proc caller ?g k) = Some k1"
    "frame (set_proc caller ?g k) k1" "rq_ok k1 (a_unready caller rq)"
    "\<forall>i. valid_nr i \<and> i \<noteq> HARDWARE \<longrightarrow>
         (i \<in> set (a_unready caller rq (queue_of i)) \<longleftrightarrow> p_flags (procs k1 i) = 0)"
    "HARDWARE \<notin> set (a_unready caller rq TASK_Q)" "p_flags (procs k1 HARDWARE) = 0"
    using krep_block [OF k v(2,3), of ?g] by (auto simp: flag_simps)
  note fr = frameD [OF k1(2)]
  have c1: "cq_ok k1 cq" using krepD(2) [OF k] cq_ok_cong [of k1 k cq] by (simp add: fr)
  have new: "caller \<notin> set (cq d)" for d using krepD(4) [OF k v(2)] ns by blast
  obtain k2 where k2: "(case p_callerq (procs k1 dest) of
        None \<Rightarrow> Some (set_proc dest (\<lambda>p. p\<lparr>p_callerq := Some caller\<rparr>) k1)
      | Some next_ptr \<Rightarrow> do {
          l \<leftarrow> last_link (sendlink k1) next_ptr;
          Some (set_proc l (\<lambda>p. p\<lparr>p_sendlink := Some caller\<rparr>) k1) }) = Some k2"
    "cq_ok (set_proc caller (\<lambda>p. p\<lparr>p_sendlink := None\<rparr>) k2) (cq(dest := cq dest @ [caller]))"
    "\<And>p. \<exists>a b. procs k2 p = (procs k1 p)\<lparr>p_callerq := a, p_sendlink := b\<rparr>"
    "\<exists>t. k2 = k1\<lparr>procs := t\<rparr>"
    using cq_enqueue [OF c1 v new] by blast
  define k3 where "k3 = set_proc caller (\<lambda>p. p\<lparr>p_sendlink := None\<rparr>) k2"
  have ms: "mini_send caller dest m_ptr k = Some (OK, k3)"
  proof -
    have c: "\<not> (caller \<ge> LOW_USER \<and> (dest \<noteq> FS_PROC_NR \<and> dest \<noteq> MM_PROC_NR))"
      "\<not> has_flag (p_flags (procs k dest)) P_SLOT_FREE" "\<not> bad_mess_addr (procs k caller) m_ptr"
      using ok by (auto simp: send_refused_def)
    have cw: "\<not> (has_flag (p_flags (procs k dest)) RECEIVING
        \<and> (p_getfrom (procs k dest) = ANY \<or> p_getfrom (procs k dest) = caller))"
      using w by (simp add: waits_for_def)
    show ?thesis
      unfolding mini_send_def if_not_P [OF c(1)] if_not_P [OF c(2)] if_not_P [OF c(3)]
        if_not_P [OF cw] if_not_P [OF v(3)] k1(1) bind.simps k2(1) k3_def by (rule refl)
  qed
  have sel: "p_flags (procs k3 p) = p_flags (procs k1 p)" "p_map (procs k3 p) = p_map (procs k1 p)"
    "p_messbuf (procs k3 p) = p_messbuf (procs k1 p)"
    "p_nextready (procs k3 p) = p_nextready (procs k1 p)" for p
    using k2(3) [of p] by (auto simp: k3_def)
  have sel2: "rdy_head k3 = rdy_head k1" "rdy_tail k3 = rdy_tail k1" "memory k3 = memory k1"
    "addr_m k3 = addr_m k1" using k2(4) by (auto simp: k3_def)
  have "rq_ok k3 (a_unready caller rq)"
    using k1(3) rq_ok_cong [of k3 k1] sel sel2 by simp
  moreover have "has_flag (p_flags (procs k3 p)) SENDING \<longleftrightarrow>
      (\<exists>d. p \<in> set ((cq(dest := cq dest @ [caller])) d))" if "valid_nr p" for p
    using krepD(4) [OF k that] by (auto simp: sel fr flag_simps split: if_splits)
  ultimately have "krep k3 (a_unready caller rq) (cq(dest := cq dest @ [caller]))"
    using k1(4-6) k2(2) unfolding krep_def k3_def [symmetric] by (simp only: sel) blast
  then show ?thesis using ms by (auto simp: sel sel2 fr)
qed

end
