(* ===== verification/KSysCall.thy ===== *)
theory KSysCall
  imports KIpc
begin

text \<open>
  The entry points of \<^verbatim>\<open>kernel/proc.c\<close> (\<^verbatim>\<open>sys_call\<close>, \<^verbatim>\<open>interrupt\<close>) keep the kernel
  invariant \<open>kinv\<close> and always return, and the theorems about single operations.
\<close>

section \<open>Congruences\<close>

lemma krep_cong:
  assumes "rdy_head k' = rdy_head k" "rdy_tail k' = rdy_tail k"
    "\<And>p. p_flags (procs k' p) = p_flags (procs k p)"
    "\<And>p. p_nextready (procs k' p) = p_nextready (procs k p)"
    "\<And>p. p_sendlink (procs k' p) = p_sendlink (procs k p)"
    "\<And>p. p_callerq (procs k' p) = p_callerq (procs k p)"
  shows "krep k' rq cq = krep k rq cq"
  using assms rq_ok_cong [of k' k rq] cq_ok_cong [of k' k cq] by (simp add: krep_def)

lemma kenv_cong:
  assumes "has_flag (p_flags (procs k' MM_PROC_NR)) P_SLOT_FREE
      = has_flag (p_flags (procs k MM_PROC_NR)) P_SLOT_FREE"
    "p_map (procs k' HARDWARE) = p_map (procs k HARDWARE)" "addr_m k' = addr_m k"
  shows "kenv k' = kenv k"
  using assms by (simp add: kenv_def bad_mess_addr_def)

section \<open>inform\<close>

lemma mm_valid [simp]: "valid_nr MM_PROC_NR"
  by (simp add: valid_nr_def)

lemma inform_ok:
  assumes k: "krep k rq cq" and e: "kenv k"
  shows "\<exists>k' rq'. inform MM_PROC_NR k = Some k' \<and> krep k' rq' cq \<and> kenv k'
    \<and> (\<forall>p. p \<noteq> MM_PROC_NR \<longrightarrow> p_flags (procs k' p) = p_flags (procs k p))"
proof (cases "has_flag (p_flags (procs k MM_PROC_NR)) RECEIVING
    \<and> p_getfrom (procs k MM_PROC_NR) = ANY \<and> first_pending k \<noteq> None")
  case False
  then show ?thesis using k e by (auto simp: inform_def)
next
  case True
  then obtain rp where rp: "first_pending k = Some rp" by auto
  define ds where "ds = mem_phys (p_map (procs k HARDWARE) SEG_D)"
  define k1 where "k1 = k\<lparr>memory := put16 ds (addr_m k + 6) (p_pending (procs k rp))
                               (put16 ds (addr_m k + 4) (word_of_int rp)
                               (put16 ds (addr_m k + 2) KSIG (memory k))),
                     sig_procs := sig_procs k - 1\<rparr>"
  have kr: "krep k1 rq cq" using k krep_cong [of k1 k rq cq] by (simp add: k1_def)
  have nr: "\<not> send_refused k1 HARDWARE MM_PROC_NR (addr_m k)"
    using e by (simp add: send_refused_def kenv_def k1_def)
  have w: "waits_for k1 MM_PROC_NR HARDWARE" using True by (simp add: waits_for_def k1_def)
  from mini_send_deliver [OF kr mm_valid nr w] obtain k2 rq2 where
    k2: "mini_send HARDWARE MM_PROC_NR (addr_m k) k1 = Some (OK, k2)" "krep k2 rq2 cq"
      "p_flags (procs k2 MM_PROC_NR) = clr_flag (p_flags (procs k1 MM_PROC_NR)) RECEIVING"
      "\<forall>p. p \<noteq> MM_PROC_NR \<longrightarrow> p_flags (procs k2 p) = p_flags (procs k1 p)"
      "\<forall>p. p_map (procs k2 p) = p_map (procs k1 p)" "addr_m k2 = addr_m k1"
    by blast
  define k3 where "k3 = set_proc rp (\<lambda>p. p\<lparr>p_pending := 0\<rparr>) k2"
  have i: "inform MM_PROC_NR k = Some k3"
    using True rp k2(1) by (simp add: inform_def ds_def k1_def k3_def Let_def)
  have "krep k3 rq2 cq" using k2(2) krep_cong [of k3 k2] by (simp add: k3_def)
  moreover have "kenv k3"
    using e kenv_cong [of k3 k] k2(3-6) by (simp add: k3_def k1_def flag_simps)
  ultimately show ?thesis using i k2(4) by (auto simp: k3_def k1_def)
qed

section \<open>mini_rec\<close>

definition accepts :: "int \<Rightarrow> pnr \<Rightarrow> bool" where
  "accepts src s \<longleftrightarrow> src = ANY \<or> src = s"

lemma find_split:
  "List.find P xs = Some s \<Longrightarrow> \<exists>us vs. xs = us @ s # vs \<and> P s \<and> (\<forall>u\<in>set us. \<not> P u)"
proof (induction xs)
  case (Cons x xs)
  show ?case
  proof (cases "P x")
    case True
    with Cons.prems show ?thesis by (intro exI [of _ "[]"] exI [of _ xs]) simp
  next
    case False
    with Cons obtain us vs where "xs = us @ s # vs" "P s" "\<forall>u\<in>set us. \<not> P u" by auto
    with False show ?thesis by (intro exI [of _ "x # us"] exI [of _ vs]) simp
  qed
qed simp

text \<open>A sender is waiting: the first acceptable one is served and leaves the queue.\<close>

lemma mini_rec_found:
  assumes k: "krep k rq cq" and v: "valid_nr caller"
    and fd: "List.find (accepts src) (cq caller) = Some s"
  defines "f \<equiv> clr_flag (p_flags (procs k s)) SENDING"
  shows "\<exists>k'. mini_rec caller src m_ptr k = Some (OK, k')
    \<and> krep k' (if f = 0 then a_ready s rq else rq) (cq(caller := remove1 s (cq caller)))
    \<and> memory k' = mess_copied k s (p_messbuf (procs k s)) caller m_ptr
    \<and> p_flags (procs k' s) = f
    \<and> (\<forall>p. p \<noteq> s \<longrightarrow> p_flags (procs k' p) = p_flags (procs k p))
    \<and> (\<forall>p. p_map (procs k' p) = p_map (procs k p)) \<and> addr_m k' = addr_m k"
proof -
  from find_split [OF fd] obtain us vs where xs: "cq caller = us @ s # vs"
    and acc: "src = ANY \<or> src = s" and nac: "\<forall>u\<in>set us. \<not> (src = ANY \<or> src = u)"
    by (auto simp: accepts_def)
  have cq: "cq_ok k cq" by (rule krepD(2) [OF k])
  have ch: "chain (sendlink k) (p_callerq (procs k caller)) (us @ s # vs)"
    using cq_okD(1) [OF cq v] xs by simp
  have dist: "distinct (us @ s # vs)" using ch by (rule chain_distinct)
  have smem: "s \<in> set (cq caller)" using xs by simp
  obtain h where h: "p_callerq (procs k caller) = Some h" using ch by (cases us) auto
  have hs: "h = (if us = [] then s else hd us)" using ch h by (cases us) auto
  define pv where "pv = (if us = [] then None else Some (last us))"
  have fs: "find_sender (sendlink k) src None h = Some (Some (pv, s))"
    unfolding pv_def by (rule find_sender_hit [where vs = vs, OF _ acc nac]) (use ch h in simp)
  define k1 where "k1 = k\<lparr>memory := mess_copied k s (p_messbuf (procs k s)) caller m_ptr\<rparr>"
  define k2 where "k2 = set_proc s (\<lambda>p. p\<lparr>p_flags := f\<rparr>) k1"
  define k3 where "k3 = (if f = 0 then ready s k2 else k2)"
  have k2': "k2 = set_proc s (\<lambda>p. p\<lparr>p_flags := clr_flag (p_flags p) SENDING\<rparr>) k1"
    by (simp add: k2_def set_proc_def f_def k1_def)
  have kr: "krep k1 rq cq" using k krep_cong [of k1 k rq cq] by (simp add: k1_def)
  have vs: "valid_nr s" using cq_okD(3) [OF cq smem] .
  have snd: "has_flag (p_flags (procs k s)) SENDING" using krepD(4) [OF k vs] smem by blast
  then have fl: "p_flags (procs k1 s) \<noteq> 0" by (auto simp: k1_def)
  note U = krep_unblock [OF kr vs fl k2_def k3_def]
  have sel: "p_flags (procs k3 p) = (if p = s then f else p_flags (procs k p))"
    "p_sendlink (procs k3 p) = p_sendlink (procs k p)"
    "p_callerq (procs k3 p) = p_callerq (procs k p)" "p_map (procs k3 p) = p_map (procs k p)"
    "addr_m k3 = addr_m k" "memory k3 = memory k1" for p
    by (simp_all add: k3_def k2_def k1_def)
  have c3: "cq_ok k3 cq" using cq cq_ok_cong [of k3 k cq] sel by simp
  have hus: "h = s \<longleftrightarrow> us = []" using hs dist by (cases us) auto
  define k4 where "k4 = (if us = []
      then set_proc caller (\<lambda>p. p\<lparr>p_callerq := p_sendlink (procs k3 s)\<rparr>) k3
      else set_proc (last us) (\<lambda>p. p\<lparr>p_sendlink := p_sendlink (procs k3 s)\<rparr>) k3)"
  have mr: "mini_rec caller src m_ptr k = Some (OK, k4)"
  proof -
    have e3: "(if p_flags (procs k2 s) = 0 then ready s k2 else k2) = k3"
      by (simp add: k3_def k2_def)
    have e4: "(p_callerq (procs k3 caller) = Some s) = (us = [])"
      using sel(3) h hus by simp
    show ?thesis
      unfolding mini_rec_def h option.case(2) fs bind.simps prod.case
        mess_copied_def [symmetric] k1_def [symmetric] k2' [symmetric] Let_def e3 e4
      by (simp add: k4_def pv_def)
  qed
  have sel4: "p_flags (procs k4 p) = p_flags (procs k3 p)" "p_map (procs k4 p) = p_map (procs k3 p)"
    "p_nextready (procs k4 p) = p_nextready (procs k3 p)"
    "rdy_head k4 = rdy_head k3" "rdy_tail k4 = rdy_tail k3"
    "addr_m k4 = addr_m k3" "memory k4 = memory k3" for p
    by (auto simp: k4_def)
  have rem: "remove1 s (cq caller) = us @ vs" using dist xs by (simp add: remove1_append)
  have c4: "cq_ok k4 (cq(caller := us @ vs))"
  proof (rule cq_ok_update [OF c3 v])
    show "valid_nr p \<and> p \<noteq> HARDWARE" if "p \<in> set (us @ vs)" for p
      using that xs cq_okD(3,4) [OF cq, of p caller] by auto
    show "d = caller" if "p \<in> set (us @ vs)" "p \<in> set (cq d)" for p d
      using that xs cq_okD(2) [OF cq that(2), of caller] by auto
    show "chain (sendlink k4) (p_callerq (procs k4 caller)) (us @ vs)"
    proof (cases "us = []")
      case True
      then have "sendlink k4 = sendlink k" "p_callerq (procs k4 caller) = sendlink k s"
        by (auto simp: k4_def fun_eq_iff sel)
      then show ?thesis using ch True by simp
    next
      case False
      let ?a = "last us"
      have b: "us = butlast us @ [?a]" using False by simp
      have e: "sendlink k4 = (sendlink k)(?a := sendlink k s)"
        "p_callerq (procs k4 caller) = p_callerq (procs k caller)"
        using False by (auto simp: k4_def fun_eq_iff sel)
      have "butlast us @ [?a, s] @ vs = us @ s # vs" "butlast us @ [?a] @ vs = us @ vs"
        by (metis append_Cons append_Nil append_assoc b)+
      then show ?thesis
        using chain_unlink [of "sendlink k" "p_callerq (procs k caller)" "butlast us" ?a s vs] ch e
        by metis
    qed
    show "p_callerq (procs k4 d) = p_callerq (procs k3 d)" if "d \<noteq> caller" for d
      using that by (auto simp: k4_def)
    show "sendlink k4 p = sendlink k3 p" if "d \<noteq> caller" "p \<in> set (cq d)" for p d
    proof -
      have "us \<noteq> [] \<Longrightarrow> last us \<in> set (cq caller)" using xs by simp
      then have "us \<noteq> [] \<Longrightarrow> p \<noteq> last us" using that cq_okD(2) [OF cq that(2), of caller] by auto
      then show ?thesis by (auto simp: k4_def)
    qed
  qed
  have sflag: "\<not> has_flag f SENDING" by (simp add: f_def flag_simps)
  have "has_flag (p_flags (procs k4 p)) SENDING \<longleftrightarrow>
      (\<exists>d. p \<in> set ((cq(caller := us @ vs)) d))" if p: "valid_nr p" for p
  proof (cases "p = s")
    case True
    have "s \<notin> set (us @ vs)" using dist by auto
    moreover have "s \<notin> set (cq d)" if "d \<noteq> caller" for d
      using that cq_okD(2) [OF cq smem, of d] by auto
    ultimately show ?thesis using sflag True by (simp add: sel4 sel)
  next
    case False
    have "p \<in> set ((cq(caller := us @ vs)) d) \<longleftrightarrow> p \<in> set (cq d)" for d
      using False xs by (cases "d = caller") auto
    then show ?thesis using krepD(4) [OF k p] False by (simp only: sel4 sel if_False)
  qed
  moreover have "rq_ok k4 (if f = 0 then a_ready s rq else rq)"
    using U(1) rq_ok_cong [of k4 k3] sel4 by simp
  ultimately have "krep k4 (if f = 0 then a_ready s rq else rq) (cq(caller := us @ vs))"
    using U(2-4) c4 unfolding krep_def by (simp only: sel4) blast
  then show ?thesis using mr rem sel4 sel by (auto simp: k1_def)
qed

text \<open>No acceptable sender: the caller blocks, and MM may be told of a pending signal.\<close>

lemma mini_rec_block:
  assumes k: "krep k rq cq" and e: "kenv k" and v: "valid_nr caller" "caller \<noteq> HARDWARE"
    and fd: "List.find (accepts src) (cq caller) = None"
  shows "\<exists>k' rq'. mini_rec caller src m_ptr k = Some (OK, k') \<and> krep k' rq' cq \<and> kenv k'
    \<and> (\<not> (sig_procs k > 0 \<and> caller = MM_PROC_NR \<and> src = ANY) \<longrightarrow>
        rq' = a_unready caller rq \<and> memory k' = memory k \<and> p_getfrom (procs k' caller) = src
        \<and> p_messbuf (procs k' caller) = m_ptr
        \<and> p_flags (procs k' caller) = set_flag (p_flags (procs k caller)) RECEIVING)"
proof -
  let ?g = "\<lambda>p. p\<lparr>p_getfrom := src, p_messbuf := m_ptr, p_flags := set_flag (p_flags p) RECEIVING\<rparr>"
  have nac: "\<forall>u\<in>set (cq caller). \<not> (src = ANY \<or> src = u)"
    using fd by (auto simp: find_None_iff accepts_def)
  have fs: "(case p_callerq (procs k caller) of None \<Rightarrow> Some None
      | Some s \<Rightarrow> find_sender (sendlink k) src None s) = Some None"
    using cq_okD(1) [OF krepD(2) [OF k] v(1)] find_sender_miss [OF _ nac, of "sendlink k"]
    by (auto split: option.split)
  obtain k1 where k1: "unready caller (set_proc caller ?g k) = Some k1"
    "frame (set_proc caller ?g k) k1" "rq_ok k1 (a_unready caller rq)"
    "\<forall>i. valid_nr i \<and> i \<noteq> HARDWARE \<longrightarrow>
         (i \<in> set (a_unready caller rq (queue_of i)) \<longleftrightarrow> p_flags (procs k1 i) = 0)"
    "HARDWARE \<notin> set (a_unready caller rq TASK_Q)" "p_flags (procs k1 HARDWARE) = 0"
    using krep_block [OF k v, of ?g] by (auto simp: flag_simps)
  note fr = frameD [OF k1(2)]
  have c1: "cq_ok k1 cq" using krepD(2) [OF k] cq_ok_cong [of k1 k cq] by (simp add: fr)
  have "has_flag (p_flags (procs k1 p)) SENDING \<longleftrightarrow> (\<exists>d. p \<in> set (cq d))" if "valid_nr p" for p
    using krepD(4) [OF k that] by (auto simp: fr flag_simps)
  then have kr1: "krep k1 (a_unready caller rq) cq"
    using k1(3-6) c1 unfolding krep_def by blast
  have e1: "kenv k1" using e kenv_cong [of k1 k] by (simp add: fr flag_simps)
  show ?thesis
  proof (cases "sig_procs k > 0 \<and> caller = MM_PROC_NR \<and> src = ANY")
    case True
    then have cnd: "sig_procs k1 > 0 \<and> caller = MM_PROC_NR \<and> src = ANY" by (simp add: fr)
    obtain k2 rq2 where k2: "inform MM_PROC_NR k1 = Some k2" "krep k2 rq2 cq" "kenv k2"
      using inform_ok [OF kr1 e1] by blast
    have "mini_rec caller src m_ptr k = Some (OK, k2)"
      unfolding mini_rec_def fs bind.simps option.case(1) k1(1) if_P [OF cnd] k2(1) by (rule refl)
    then show ?thesis using k2 True by blast
  next
    case False
    then have cnd: "\<not> (sig_procs k1 > 0 \<and> caller = MM_PROC_NR \<and> src = ANY)" by (simp add: fr)
    have "mini_rec caller src m_ptr k = Some (OK, k1)"
      unfolding mini_rec_def fs bind.simps option.case(1) k1(1) if_not_P [OF cnd] by (rule refl)
    then show ?thesis using kr1 e1 by (intro exI conjI) (auto simp: fr)
  qed
qed

end
