(* ===== verification/KMess.thy ===== *)
theory KMess
  imports KTypes
begin

text \<open>
  What \<^verbatim>\<open>cp_mess\<close> does to physical memory: the two bytes of the sender's number, then 22
  bytes of the message, and nothing else.
\<close>

definition lin :: "u16 \<Rightarrow> u16 \<Rightarrow> nat" where
  "lin sg off = unat sg * 16 + unat off"

text \<open>A message buffer that does not wrap around its segment or the top of memory.\<close>

definition mess_fits :: "u16 \<Rightarrow> u16 \<Rightarrow> bool" where
  "mess_fits sg off \<longleftrightarrow> unat off + 24 \<le> 2 ^ 16 \<and> lin sg off + 24 \<le> 2 ^ 20"

lemma phys_of_add:
  assumes "mess_fits sg off" "j < 24"
  shows "phys_of sg (off + word_of_nat j) = lin sg off + j"
proof -
  have "unat (word_of_nat j :: u16) = j" using assms(2) by (simp add: unat_of_nat_u16)
  then have "unat (off + word_of_nat j) = unat off + j"
    using assms by (subst unat_add_lem [THEN iffD1]) (auto simp: mess_fits_def)
  then show ?thesis using assms by (simp add: phys_of_def lin_def mess_fits_def)
qed

lemma phys_of_words:
  assumes "mess_fits sg off" "i < 12"
  shows "phys_of sg (off + 2 * word_of_nat i) = lin sg off + 2 * i"
    and "phys_of sg (off + 2 * word_of_nat i + 1) = lin sg off + 2 * i + 1"
proof -
  have "(2 * word_of_nat i :: u16) = word_of_nat (2 * i)"
    "(2 * word_of_nat i + 1 :: u16) = word_of_nat (2 * i + 1)" by simp_all
  then show "phys_of sg (off + 2 * word_of_nat i) = lin sg off + 2 * i"
    "phys_of sg (off + 2 * word_of_nat i + 1) = lin sg off + 2 * i + 1"
    using phys_of_add [OF assms(1), of "2 * i"] phys_of_add [OF assms(1), of "2 * i + 1"] assms(2)
    by (simp_all add: add_ac)
qed

lemma byte_split:
  fixes a b :: u8
  shows "(word_of_nat (unat (word_of_nat (unat a + 256 * unat b) :: u16) mod 256) :: u8) = a"
    and "(word_of_nat (unat (word_of_nat (unat a + 256 * unat b) :: u16) div 256) :: u8) = b"
proof -
  have a: "unat a < 256" and b: "unat b < 256" by simp_all
  then have "unat (word_of_nat (unat a + 256 * unat b) :: u16) = unat a + 256 * unat b"
    by (intro unat_of_nat_u16) linarith
  then show "(word_of_nat (unat (word_of_nat (unat a + 256 * unat b) :: u16) mod 256) :: u8) = a"
    "(word_of_nat (unat (word_of_nat (unat a + 256 * unat b) :: u16) div 256) :: u8) = b"
    using a by simp_all
qed

lemma put16_get16:
  assumes "mess_fits ssg soff" "mess_fits dsg doff" "i < 12"
  shows "put16 dsg (doff + 2 * word_of_nat i) (get16 m ssg (soff + 2 * word_of_nat i)) m'
    = m'(lin dsg doff + 2 * i := m (lin ssg soff + 2 * i),
         lin dsg doff + 2 * i + 1 := m (lin ssg soff + 2 * i + 1))"
  using assms phys_of_words by (simp add: put16_def get16_def byte_split del: of_nat_add)

lemma mess_loop:
  assumes f: "mess_fits ssg soff" "mess_fits dsg doff"
    and dj: "lin ssg soff + 24 \<le> lin dsg doff \<or> lin dsg doff + 24 \<le> lin ssg soff"
    and n: "1 \<le> n" "n \<le> 12"
  shows "fold (\<lambda>i m. put16 dsg (doff + 2 * word_of_nat i)
                   (get16 m ssg (soff + 2 * word_of_nat i)) m) [1..<n] mem
    = (\<lambda>a. if lin dsg doff + 2 \<le> a \<and> a < lin dsg doff + 2 * n
           then mem (lin ssg soff + (a - lin dsg doff)) else mem a)"
  using n
proof (induction n rule: dec_induct)
  case base
  then show ?case by (auto simp: fun_eq_iff)
next
  case (step n)
  then show ?case
    using dj by (auto simp: put16_get16 [OF f] fun_eq_iff less_Suc_eq)
qed

lemma cp_mess_bytes:
  assumes "mess_fits ssg soff" "mess_fits dsg doff"
    and "lin ssg soff + 24 \<le> lin dsg doff \<or> lin dsg doff + 24 \<le> lin ssg soff"
  shows "cp_mess src ssg soff dsg doff mem =
    (\<lambda>a. if a = lin dsg doff then word_of_nat (unat (word_of_int src :: u16) mod 256)
         else if a = lin dsg doff + 1 then word_of_nat (unat (word_of_int src :: u16) div 256)
         else if lin dsg doff + 2 \<le> a \<and> a < lin dsg doff + 24
         then mem (lin ssg soff + (a - lin dsg doff)) else mem a)"
proof -
  have p: "phys_of dsg doff = lin dsg doff" "phys_of dsg (doff + 1) = lin dsg doff + 1"
    using phys_of_words [OF assms(2), of 0] by simp_all
  show ?thesis
    unfolding cp_mess_def
    by (subst mess_loop [OF assms]) (use assms(3) in \<open>auto simp: put16_def p fun_eq_iff\<close>)
qed

text \<open>The source field of a delivered message reads back as the sender's number.\<close>

lemma put16_source:
  assumes "mess_fits dsg doff"
  shows "get16 (put16 dsg doff w mem) dsg doff = w"
proof -
  have p: "phys_of dsg doff = lin dsg doff" "phys_of dsg (doff + 1) = lin dsg doff + 1"
    using phys_of_words [OF assms, of 0] by simp_all
  have w: "unat w < 65536" by simp
  have "unat (word_of_nat (unat w mod 256) :: u8) = unat w mod 256"
    "unat (word_of_nat (unat w div 256) :: u8) = unat w div 256"
    using w by (intro unat_of_nat_u8, arith)+
  then show ?thesis by (simp add: get16_def put16_def p)
qed

end
