(* ===== verification/KSteps.thy ===== *)
theory KSteps
  imports KSysCall KMess
begin

text \<open>
  \<^verbatim>\<open>sys_call\<close>, \<^verbatim>\<open>interrupt\<close> and \<^verbatim>\<open>sched\<close> as transitions of the kernel: each returns and
  keeps \<open>kinv\<close>.
\<close>

section \<open>mini_send, all cases\<close>

lemma fn_flags [simp]: "\<not> has_flag 1 2" "has_flag 1 1" "\<not> has_flag 2 1" "has_flag 2 2"
  "has_flag 3 1" "has_flag 3 2"
  by (simp_all add: has_flag_def)

lemma mini_send_glob:
  assumes "mini_send c d m k = Some (n, k')"
  shows "busy_map k' = busy_map k" "task_mess k' = task_mess k" "lost_ticks k' = lost_ticks k"
    "sig_procs k' = sig_procs k" "p_getfrom (procs k' p) = p_getfrom (procs k p)"
    "p_pending (procs k' p) = p_pending (procs k p)" "p_reg (procs k' p) = p_reg (procs k p)"
  using assms
  by (auto simp: mini_send_def Let_def bind_eq_Some_conv frameD split: if_splits option.splits
      dest!: unready_frame)

lemma kenv_flags:
  assumes "kenv k" "p_map (procs k' HARDWARE) = p_map (procs k HARDWARE)" "addr_m k' = addr_m k"
    and "p_flags (procs k' MM_PROC_NR) = p_flags (procs k MM_PROC_NR)
      \<or> p_flags (procs k' MM_PROC_NR) = clr_flag (p_flags (procs k MM_PROC_NR)) RECEIVING
      \<or> p_flags (procs k' MM_PROC_NR) = clr_flag (p_flags (procs k MM_PROC_NR)) SENDING
      \<or> p_flags (procs k' MM_PROC_NR) = set_flag (p_flags (procs k MM_PROC_NR)) SENDING"
  shows "kenv k'"
  using assms kenv_cong [of k' k] by (auto simp: flag_simps)

lemma mini_send_kinv:
  assumes k: "krep k rq cq" and e: "kenv k" and v: "valid_nr caller" "caller \<noteq> HARDWARE"
    and d: "caller < LOW_USER \<Longrightarrow> valid_nr dest"
    and ns: "\<not> has_flag (p_flags (procs k caller)) SENDING"
  shows "\<exists>n k' rq' cq'. mini_send caller dest m_ptr k = Some (n, k') \<and> krep k' rq' cq' \<and> kenv k'"
proof (cases "send_refused k caller dest m_ptr")
  case True
  then show ?thesis using mini_send_refused k e by meson
next
  case nr: False
  have vd: "valid_nr dest"
    using nr d by (cases "caller < LOW_USER") (auto simp: send_refused_def valid_nr_def)
  show ?thesis
  proof (cases "waits_for k dest caller")
    case True
    obtain k' rq' where k': "mini_send caller dest m_ptr k = Some (OK, k')" "krep k' rq' cq"
      "p_flags (procs k' dest) = clr_flag (p_flags (procs k dest)) RECEIVING"
      "\<forall>p. p \<noteq> dest \<longrightarrow> p_flags (procs k' p) = p_flags (procs k p)"
      "\<forall>p. p_map (procs k' p) = p_map (procs k p)" "addr_m k' = addr_m k"
      using mini_send_deliver [OF k vd nr True] by blast
    have "kenv k'" by (rule kenv_flags [OF e]) (use k'(3-6) in \<open>cases "dest = MM_PROC_NR"; simp\<close>)+
    then show ?thesis using k' by blast
  next
    case False
    obtain k' rq' cq' where k': "mini_send caller dest m_ptr k = Some (OK, k')" "krep k' rq' cq'"
      "p_flags (procs k' caller) = set_flag (p_flags (procs k caller)) SENDING"
      "\<forall>p. p \<noteq> caller \<longrightarrow> p_flags (procs k' p) = p_flags (procs k p)"
      "\<forall>p. p_map (procs k' p) = p_map (procs k p)" "addr_m k' = addr_m k"
      using mini_send_queue [OF k vd v nr False ns] by blast
    have "kenv k'"
      by (rule kenv_flags [OF e]) (use k'(3-6) in \<open>cases "caller = MM_PROC_NR"; simp\<close>)+
    then show ?thesis using k' by blast
  qed
qed

lemma mini_rec_kinv:
  assumes k: "krep k rq cq" and e: "kenv k" and v: "valid_nr caller" "caller \<noteq> HARDWARE"
  shows "\<exists>k' rq' cq'. mini_rec caller src m_ptr k = Some (OK, k') \<and> krep k' rq' cq' \<and> kenv k'"
proof (cases "List.find (accepts src) (cq caller)")
  case None
  then show ?thesis using mini_rec_block [OF k e v None] by blast
next
  case (Some s)
  obtain k' rq' cq' where k': "mini_rec caller src m_ptr k = Some (OK, k')" "krep k' rq' cq'"
    "p_flags (procs k' s) = clr_flag (p_flags (procs k s)) SENDING"
    "\<forall>p. p \<noteq> s \<longrightarrow> p_flags (procs k' p) = p_flags (procs k p)"
    "\<forall>p. p_map (procs k' p) = p_map (procs k p)" "addr_m k' = addr_m k"
    using mini_rec_found [OF k v(1) Some] by blast
  have "kenv k'" by (rule kenv_flags [OF e]) (use k'(3-6) in \<open>cases "s = MM_PROC_NR"; simp\<close>)+
  then show ?thesis using k' by blast
qed

lemma set_ret_krep: "krep (set_ret p n k) rq cq = krep k rq cq"
  by (rule krep_cong) (simp_all add: set_ret_def)

lemma set_ret_kenv: "kenv (set_ret p n k) = kenv k"
  by (rule kenv_cong) (simp_all add: set_ret_def)

lemma kinvI: "krep k rq cq \<Longrightarrow> kenv k \<Longrightarrow> kinv k"
  by (auto simp: kinv_def)

lemma sys_call_total:
  assumes inv: "kinv k" and v: "valid_nr caller" "caller \<noteq> HARDWARE"
    and ns: "\<not> has_flag (p_flags (procs k caller)) SENDING"
    and any: "has_flag fn SEND \<Longrightarrow> src_dest = ANY \<Longrightarrow> caller \<ge> LOW_USER"
  shows "\<exists>k'. sys_call fn caller src_dest m_ptr k = Some k' \<and> kinv k'"
proof -
  obtain rq cq where k: "krep k rq cq" and e: "kenv k" using inv by (auto simp: kinv_def)
  have err: "kinv (set_ret caller n k)" for n
    by (rule kinvI) (use k e in \<open>simp_all add: set_ret_krep set_ret_kenv\<close>)
  have rec: "\<exists>k'. (do { (n, k2) \<leftarrow> mini_rec caller src_dest m_ptr k1; Some (set_ret caller n k2) })
      = Some k' \<and> kinv k'" if "krep k1 rq1 cq1" "kenv k1" for k1 rq1 cq1
    using mini_rec_kinv [OF that v, of src_dest m_ptr]
    by (auto intro!: kinvI simp: set_ret_krep set_ret_kenv)
  show ?thesis
  proof (cases "has_flag fn SEND \<and> \<not> (src_dest < - NR_TASKS \<or> (src_dest \<ge> NR_PROCS \<and> src_dest \<noteq> ANY))")
    case True
    then have "caller < LOW_USER \<Longrightarrow> valid_nr src_dest" using any by (auto simp: valid_nr_def)
    from mini_send_kinv [OF k e v this ns, of m_ptr] obtain n k1 rq1 cq1 where
      ms: "mini_send caller src_dest m_ptr k = Some (n, k1)" "krep k1 rq1 cq1" "kenv k1" by blast
    have "krep (set_ret caller n k1) rq1 cq1" "kenv (set_ret caller n k1)"
      using ms by (simp_all add: set_ret_krep set_ret_kenv)
    then show ?thesis using True ms err rec [OF ms(2,3)] kinvI
      by (auto simp: sys_call_def)
  next
    case False
    then show ?thesis using err rec [OF k e] inv by (auto simp: sys_call_def)
  qed
qed

section \<open>interrupt\<close>

definition hw_fails :: "kernel \<Rightarrow> pnr \<Rightarrow> u16 \<Rightarrow> bool" where
  "hw_fails k dest m_ptr \<longleftrightarrow> send_refused k HARDWARE dest m_ptr \<or> \<not> waits_for k dest HARDWARE"

lemma mini_send_hw_fails:
  "hw_fails k dest m_ptr \<Longrightarrow> \<exists>n. n \<noteq> OK \<and> mini_send HARDWARE dest m_ptr k = Some (n, k)"
  by (auto simp: hw_fails_def send_refused_def waits_for_def mini_send_def Let_def)

lemma mini_send_hw_ok:
  assumes k: "krep k rq cq" and e: "kenv k" and v: "valid_nr dest" and h: "\<not> hw_fails k dest m_ptr"
  shows "\<exists>k' rq'. mini_send HARDWARE dest m_ptr k = Some (OK, k') \<and> krep k' rq' cq \<and> kenv k'
    \<and> (\<forall>t m. hw_fails k t m \<longrightarrow> hw_fails k' t m)"
proof -
  have nr: "\<not> send_refused k HARDWARE dest m_ptr" and w: "waits_for k dest HARDWARE"
    using h by (auto simp: hw_fails_def)
  obtain k' rq' where k': "mini_send HARDWARE dest m_ptr k = Some (OK, k')" "krep k' rq' cq"
    "p_flags (procs k' dest) = clr_flag (p_flags (procs k dest)) RECEIVING"
    "\<forall>p. p \<noteq> dest \<longrightarrow> p_flags (procs k' p) = p_flags (procs k p)"
    "\<forall>p. p_map (procs k' p) = p_map (procs k p)" "addr_m k' = addr_m k"
    using mini_send_deliver [OF k v nr w] by blast
  have "kenv k'" by (rule kenv_flags [OF e]) (use k'(3-6) in \<open>cases "dest = MM_PROC_NR"; simp\<close>)+
  moreover have "hw_fails k' t m" if "hw_fails k t m" for t m
    using that k'(3-5) mini_send_glob(5) [OF k'(1)]
    by (cases "t = dest")
      (auto simp: hw_fails_def send_refused_def waits_for_def bad_mess_addr_def flag_simps)
  ultimately show ?thesis using k'(1,2) by blast
qed

lemma task_bits: "i < 16 \<Longrightarrow> j < 16 \<Longrightarrow> i \<noteq> j \<Longrightarrow> task_bit i AND task_bit j = 0"
  by (auto simp: task_bit_def bit_eq_iff bit_simps)

lemma task_bit_nonzero [simp]: "i < 16 \<Longrightarrow> task_bit i \<noteq> 0"
  by (auto simp: task_bit_def)

lemma krep_busy: "krep (k\<lparr>busy_map := b\<rparr>) rq cq = krep k rq cq"
  "krep (k\<lparr>lost_ticks := l\<rparr>) rq cq = krep k rq cq"
  "krep (k\<lparr>busy_map := b, task_mess := t\<rparr>) rq cq = krep k rq cq"
  "krep (k\<lparr>memory := mm\<rparr>) rq cq = krep k rq cq"
  by (rule krep_cong; simp)+

lemma kenv_busy: "kenv (k\<lparr>busy_map := b\<rparr>) = kenv k"
  "kenv (k\<lparr>lost_ticks := l\<rparr>) = kenv k"
  "kenv (k\<lparr>busy_map := b, task_mess := t\<rparr>) = kenv k"
  "kenv (k\<lparr>memory := mm\<rparr>) = kenv k"
  by (rule kenv_cong; simp)+

lemma hw_fails_busy: "hw_fails (k\<lparr>busy_map := b\<rparr>) t m = hw_fails k t m"
  by (simp add: hw_fails_def send_refused_def waits_for_def)

text \<open>
  The retry loop returns, and leaves a task alone whose pending message still cannot be
  delivered: it keeps its bit and its message pointer.
\<close>

lemma retry_tasks_ok:
  assumes "krep k rq cq" "kenv k" "\<forall>i\<in>set is. 2 \<le> i \<and> i \<le> 8"
  shows "\<exists>k' rq'. retry_tasks om is k = Some k' \<and> krep k' rq' cq \<and> kenv k'
    \<and> task_mess k' = task_mess k \<and> lost_ticks k' = lost_ticks k
    \<and> (\<forall>i<16. hw_fails k (- int i) (task_mess k i) \<longrightarrow>
         has_flag (busy_map k') (task_bit i) = has_flag (busy_map k) (task_bit i))"
  using assms
proof (induction "is" arbitrary: k rq)
  case Nil
  then show ?case by auto
next
  case (Cons j js)
  have js: "\<forall>i\<in>set js. 2 \<le> i \<and> i \<le> 8" using Cons.prems by simp
  show ?case
  proof (cases "has_flag om (task_bit j)")
    case False
    then show ?thesis using Cons.IH [OF Cons.prems(1,2) js] by simp
  next
    case om: True
    show ?thesis
    proof (cases "hw_fails k (- int j) (task_mess k j)")
      case True
      then obtain n where n: "n \<noteq> OK" "mini_send HARDWARE (- int j) (task_mess k j) k = Some (n, k)"
        using mini_send_hw_fails by blast
      then show ?thesis using om Cons.IH [OF Cons.prems(1,2) js] by simp
    next
      case False
      have vj: "valid_nr (- int j)" using Cons.prems(3) by (simp add: valid_nr_def)
      obtain k1 rq1 where k1: "mini_send HARDWARE (- int j) (task_mess k j) k = Some (OK, k1)"
        "krep k1 rq1 cq" "kenv k1" "\<forall>t m. hw_fails k t m \<longrightarrow> hw_fails k1 t m"
        using mini_send_hw_ok [OF Cons.prems(1,2) vj False] by blast
      let ?k2 = "k1\<lparr>busy_map := clr_flag (busy_map k1) (task_bit j)\<rparr>"
      obtain k3 rq3 where k3: "retry_tasks om js ?k2 = Some k3" "krep k3 rq3 cq" "kenv k3"
        "task_mess k3 = task_mess ?k2" "lost_ticks k3 = lost_ticks ?k2"
        "\<forall>i<16. hw_fails ?k2 (- int i) (task_mess ?k2 i) \<longrightarrow>
           has_flag (busy_map k3) (task_bit i) = has_flag (busy_map ?k2) (task_bit i)"
        using Cons.IH [of ?k2 rq1, OF _ _ js] k1(2,3) by (auto simp: krep_busy kenv_busy)
      have "has_flag (busy_map k3) (task_bit i) = has_flag (busy_map k) (task_bit i)"
        if i: "i < 16" "hw_fails k (- int i) (task_mess k i)" for i
      proof -
        have "i \<noteq> j" using i(2) False by auto
        then have "task_bit j AND task_bit i = 0"
          using task_bits [of j i] i(1) Cons.prems(3) by simp
        then show ?thesis
          using k3(6) i k1(4) mini_send_glob(1,2) [OF k1(1)]
          by (simp add: hw_fails_busy flag_simps)
      qed
      then show ?thesis using om k1(1) k3 mini_send_glob(1-3) [OF k1(1)] by simp blast
    qed
  qed
qed

lemma pick_krep: "krep (pick_proc k) rq cq = krep k rq cq"
  by (rule krep_cong; simp)

lemma pick_kenv: "kenv (pick_proc k) = kenv k"
  by (rule kenv_cong; simp)

text \<open>
  \<open>interrupt\<close> returns, keeps the invariant, and loses no interrupt: the message is
  delivered at once, or counted (clock), or recorded as pending for the task.
\<close>

lemma interrupt_ok:
  assumes inv: "kinv k" and t: "- NR_TASKS \<le> task" "task < HARDWARE"
  shows "\<exists>k'. interrupt task m_ptr k = Some k' \<and> kinv k'
    \<and> (hw_fails k task m_ptr \<longrightarrow>
         (if task = CLOCK then lost_ticks k' = int_of (lost_ticks k + 1)
          else has_flag (busy_map k') (task_bit (nat (- task)))
               \<and> task_mess k' (nat (- task)) = m_ptr))
    \<and> (\<not> hw_fails k task m_ptr \<longrightarrow> lost_ticks k' = lost_ticks k)"
proof -
  obtain rq cq where k: "krep k rq cq" and e: "kenv k" using inv by (auto simp: kinv_def)
  have v: "valid_nr task" using t by (simp add: valid_nr_def)
  have sched: "kinv (if c then pick_proc k3 else k3)" if "krep k3 rq3 cq3" "kenv k3" for c k3 rq3 cq3
    using that kinvI by (auto simp: pick_krep pick_kenv)
  have l: "\<forall>i\<in>set [2..<9::nat]. 2 \<le> i \<and> i \<le> 8" by simp
  let ?i = "nat (- task)"
  have i16: "?i < 16" and ti: "- int ?i = task" using t by auto
  show ?thesis
  proof (cases "hw_fails k task m_ptr")
    case True
    then obtain n where n: "n \<noteq> OK" "mini_send HARDWARE task m_ptr k = Some (n, k)"
      using mini_send_hw_fails by blast
    define k2 where "k2 = (if task = CLOCK then k\<lparr>lost_ticks := int_of (lost_ticks k + 1)\<rparr>
        else k\<lparr>busy_map := set_flag (busy_map k) (task_bit ?i),
               task_mess := (task_mess k)(?i := m_ptr)\<rparr>)"
    have k2: "krep k2 rq cq" "kenv k2" using k e by (simp_all add: k2_def krep_busy kenv_busy)
    define k3o where "k3o = (if busy_map k \<noteq> 0 then retry_tasks (busy_map k) [2..<9] k2 else Some k2)"
    obtain k3 rq3 where k3: "k3o = Some k3" "krep k3 rq3 cq" "kenv k3"
        "task_mess k3 = task_mess k2" "lost_ticks k3 = lost_ticks k2"
        "hw_fails k2 (- int ?i) (task_mess k2 ?i) \<Longrightarrow>
           has_flag (busy_map k3) (task_bit ?i) = has_flag (busy_map k2) (task_bit ?i)"
      using retry_tasks_ok [OF k2 l, of "busy_map k"] k2 i16 unfolding k3o_def by (cases "busy_map k = 0") auto
    have "interrupt task m_ptr k = Some (if rdy_head k3 TASK_Q \<noteq> None
        \<and> (cur_proc k3 \<ge> 0 \<or> cur_proc k3 = IDLE) then pick_proc k3 else k3)"
      unfolding interrupt_def Let_def n(2) bind.simps prod.case if_P [OF n(1)]
        k2_def [symmetric] k3o_def [symmetric] k3(1) by (rule refl)
    moreover have "hw_fails k2 task m_ptr" if "task \<noteq> CLOCK"
      using True that by (simp add: k2_def hw_fails_def send_refused_def waits_for_def)
    ultimately show ?thesis
      using True sched [OF k3(2,3)] k3(4,5) k3(6) [unfolded ti] i16
      by (auto simp: k2_def ti flag_simps)
  next
    case False
    obtain k1 rq1 where k1: "mini_send HARDWARE task m_ptr k = Some (OK, k1)" "krep k1 rq1 cq"
      "kenv k1" using mini_send_hw_ok [OF k e v False] by blast
    define k2 where "k2 = k1\<lparr>busy_map := clr_flag (busy_map k1) (task_bit ?i)\<rparr>"
    have k2: "krep k2 rq1 cq" "kenv k2" using k1 by (simp_all add: k2_def krep_busy kenv_busy)
    define k3o where "k3o = (if busy_map k2 \<noteq> 0 then retry_tasks (busy_map k2) [2..<9] k2 else Some k2)"
    obtain k3 rq3 where k3: "k3o = Some k3" "krep k3 rq3 cq" "kenv k3"
        "task_mess k3 = task_mess k2" "lost_ticks k3 = lost_ticks k2"
      using retry_tasks_ok [OF k2 l, of "busy_map k2"] k2 unfolding k3o_def by (cases "busy_map k2 = 0") auto
    have nn: "\<not> OK \<noteq> OK" by simp
    have "interrupt task m_ptr k = Some (if rdy_head k3 TASK_Q \<noteq> None
        \<and> (cur_proc k3 \<ge> 0 \<or> cur_proc k3 = IDLE) then pick_proc k3 else k3)"
      unfolding interrupt_def Let_def k1(1) bind.simps prod.case if_not_P [OF nn]
        k2_def [symmetric] k3o_def [symmetric] k3(1) by (rule refl)
    then show ?thesis
      using False sched [OF k3(2,3)] k3(5) mini_send_glob(3) [OF k1(1)]
      by (auto simp: k2_def)
  qed
qed

end
