(* ===== verification/KMain.thy ===== *)
theory KMain
  imports KSteps
begin

text \<open>
  \<^verbatim>\<open>main\<close> of \<^verbatim>\<open>kernel/main.c\<close> (the part that builds the process table and the ready
  queues), the kernel as a transition system, and the theorem that its invariant holds in
  every reachable state.
\<close>

section \<open>Boot\<close>

text \<open>
  What the build and the linker fix: the segment sizes that \<^verbatim>\<open>tools/build\<close> patches into
  the kernel, the entry points of the table \<^verbatim>\<open>task\<close> of \<^verbatim>\<open>kernel/table.c\<close> (the last four
  entries are 0 there), and the addresses of the task stacks, of \<^verbatim>\<open>k_stack\<close> and of \<^verbatim>\<open>m\<close>.
\<close>

record kimage =
  sizes :: "nat \<Rightarrow> u16"
  task_addr :: "nat \<Rightarrow> u16"
  t_stack :: "int \<Rightarrow> u16"
  k_stack :: u16
  m_address :: u16

abbreviation (input) "CS_REG \<equiv> (9::nat)"
abbreviation (input) "DS_REG \<equiv> (8::nat)"
abbreviation (input) "SS_REG \<equiv> (10::nat)"
abbreviation (input) "ES_REG \<equiv> (7::nat)"
abbreviation (input) "INIT_SP \<equiv> (16::u16)"
abbreviation (input) "INIT_PSW \<equiv> (512::u16)"
abbreviation (input) "VERY_BIG \<equiv> (39328::u16)"
abbreviation (input) "BASE_CLICK \<equiv> (96::u16)"

definition task_table :: "kimage \<Rightarrow> nat \<Rightarrow> u16" where
  "task_table img i = (if i < 7 then task_addr img i else 0)"

definition init_map :: "kimage \<Rightarrow> pnr \<Rightarrow> kernel \<Rightarrow> kproc \<Rightarrow> kproc" where
  "init_map img t k p =
     (let sz = sizes img; base_click = BASE_CLICK; mm_base = base_click + (sz 0 + sz 1); m = p_map p
      in if t < 0
         then p\<lparr>p_map := m(
           SEG_T := (m SEG_T)\<lparr>mem_len := VERY_BIG, mem_phys := base_click\<rparr>,
           SEG_D := (m SEG_D)\<lparr>mem_len := VERY_BIG, mem_phys := base_click + sz 0\<rparr>,
           SEG_S := (m SEG_S)\<lparr>mem_len := VERY_BIG, mem_phys := base_click + sz 0 + sz 1,
                               mem_vir := sz 0 + sz 1\<rparr>)\<rparr>
         else
           (let i = 2 * nat t; previous_base = mem_phys (p_map (procs k (t - 1)) SEG_S);
                tphys = (if t = 0 then mm_base else previous_base);
                dphys = tphys + sz (i + 2)
            in p\<lparr>p_map := m(
                 SEG_T := (m SEG_T)\<lparr>mem_len := sz (i + 2), mem_phys := tphys\<rparr>,
                 SEG_D := (m SEG_D)\<lparr>mem_len := sz (i + 3), mem_phys := dphys\<rparr>,
                 SEG_S := (m SEG_S)\<lparr>mem_vir := sz (i + 3), mem_phys := dphys + sz (i + 3)\<rparr>)\<rparr>))"

definition set_segs :: "kproc \<Rightarrow> kproc" where
  "set_segs p = p\<lparr>p_reg := (p_reg p)(CS_REG := mem_phys (p_map p SEG_T),
                                     DS_REG := mem_phys (p_map p SEG_D),
                                     SS_REG := mem_phys (p_map p SEG_D),
                                     ES_REG := mem_phys (p_map p SEG_D))\<rparr>"

definition init_slot :: "kimage \<Rightarrow> pnr \<Rightarrow> kernel \<Rightarrow> kernel" where
  "init_slot img t k =
     (let sp = (if t < 0 then t_stack img (NR_TASKS + t + 1) else INIT_SP);
          entry = task_table img (nat (t + NR_TASKS));
          k1 = set_proc t (\<lambda>p. p\<lparr>p_reg := (\<lambda>r. if r < 11 then word_of_nat (64 * r) else p_reg p r),
                 p_sp := sp,
                 p_splimit := (if sp \<noteq> INIT_SP then sp - 2 * ((256 - 8) div 2) else sp),
                 p_pcpsw := (p_pcpsw p)\<lparr>pc := entry\<rparr>\<rparr>) k;
          k2 = (if entry \<noteq> 0 \<or> t \<ge> 0 then ready t k1 else k1)
      in set_proc t (\<lambda>p. set_segs (init_map img t k2
           (p\<lparr>p_pcpsw := (p_pcpsw p)\<lparr>psw := INIT_PSW\<rparr>, p_flags := 0\<rparr>))) k2)"

definition kernel_main :: "kimage \<Rightarrow> kernel \<Rightarrow> kernel" where
  "kernel_main img k0 =
     (let k1 = fold (init_slot img) [- NR_TASKS..LOW_USER] (lock k0);
          k2 = set_proc HARDWARE (\<lambda>p. p\<lparr>p_sp := k_stack img + 256, p_splimit := k_stack img + 8\<rparr>) k1;
          k3 = fold (\<lambda>i. set_proc i (\<lambda>p. p\<lparr>p_flags := P_SLOT_FREE\<rparr>)) [LOW_USER + 1..NR_PROCS - 1] k2
      in pick_proc (k3\<lparr>bill_ptr := HARDWARE\<rparr>))"

text \<open>The zeroed data segment in which \<^verbatim>\<open>main\<close> starts.\<close>

definition zero_proc :: kproc where
  "zero_proc = \<lparr>p_reg = (\<lambda>_. 0), p_sp = 0, p_pcpsw = \<lparr>pc = 0, cs = 0, psw = 0\<rparr>, p_flags = 0,
     p_map = (\<lambda>_. \<lparr>mem_vir = 0, mem_phys = 0, mem_len = 0\<rparr>), p_splimit = 0, p_pid = 0,
     user_time = 0, sys_time = 0, child_utime = 0, child_stime = 0, p_alarm = 0,
     p_callerq = None, p_sendlink = None, p_messbuf = 0, p_getfrom = 0, p_nextready = None,
     p_pending = 0\<rparr>"

definition zero_kernel :: "kimage \<Rightarrow> (nat \<Rightarrow> u8) \<Rightarrow> kernel" where
  "zero_kernel img mem = \<lparr>procs = (\<lambda>_. zero_proc), rdy_head = (\<lambda>_. None), rdy_tail = (\<lambda>_. None),
     cur_proc = 0, prev_proc = 0, proc_ptr = 0, bill_ptr = 0, busy_map = 0, task_mess = (\<lambda>_. 0),
     realtime = 0, lost_ticks = 0, sig_procs = 0, int_flag = True, lockvar = False,
     memory = mem, addr_m = m_address img\<rparr>"

definition boots :: "kimage \<Rightarrow> bool" where
  "boots img \<longleftrightarrow> (\<forall>i<7. task_addr img i \<noteq> 0) \<and> unat (m_address img) + 24 \<le> 65536"

lemma init_slot_rq:
  assumes "rq_ok k rq" "valid_nr t" "t \<notin> set (rq (queue_of t))"
  shows "rq_ok (init_slot img t k)
    (if task_table img (nat (t + NR_TASKS)) \<noteq> 0 \<or> t \<ge> 0 then a_ready t rq else rq)"
proof -
  define k1 where "k1 = set_proc t (\<lambda>p. p\<lparr>p_reg := (\<lambda>r. if r < 11 then word_of_nat (64 * r) else p_reg p r),
       p_sp := (if t < 0 then t_stack img (NR_TASKS + t + 1) else INIT_SP),
       p_splimit := (if (if t < 0 then t_stack img (NR_TASKS + t + 1) else INIT_SP) \<noteq> INIT_SP
          then (if t < 0 then t_stack img (NR_TASKS + t + 1) else INIT_SP) - 2 * ((256 - 8) div 2)
          else (if t < 0 then t_stack img (NR_TASKS + t + 1) else INIT_SP)),
       p_pcpsw := (p_pcpsw p)\<lparr>pc := task_table img (nat (t + NR_TASKS))\<rparr>\<rparr>) k"
  have k1: "rq_ok k1 rq" using assms(1) rq_ok_cong [of k1 k rq] by (simp add: k1_def)
  define k2 where "k2 = (if task_table img (nat (t + NR_TASKS)) \<noteq> 0 \<or> t \<ge> 0 then ready t k1 else k1)"
  have i: "init_slot img t k = set_proc t (\<lambda>p. set_segs (init_map img t k2
           (p\<lparr>p_pcpsw := (p_pcpsw p)\<lparr>psw := INIT_PSW\<rparr>, p_flags := 0\<rparr>))) k2"
    unfolding init_slot_def Let_def k1_def [symmetric] k2_def [symmetric] by (rule refl)
  have nr: "p_nextready (set_segs (init_map img t k2 q)) = p_nextready q" for q
    by (simp add: set_segs_def init_map_def Let_def)
  have "rq_ok k2 (if task_table img (nat (t + NR_TASKS)) \<noteq> 0 \<or> t \<ge> 0 then a_ready t rq else rq)"
    using k1 ready_rq [OF k1 assms(2,3)] by (simp add: k2_def)
  moreover have "rq_ok (init_slot img t k) rq' = rq_ok k2 rq'" for rq'
    unfolding i by (rule rq_ok_cong) (simp_all add: nr)
  ultimately show ?thesis by simp
qed

lemma set_segs_sel [simp]: "p_flags (set_segs (init_map img t k p)) = p_flags p"
  "p_callerq (set_segs (init_map img t k p)) = p_callerq p"
  "p_sendlink (set_segs (init_map img t k p)) = p_sendlink p"
  by (simp_all add: set_segs_def init_map_def Let_def)

lemma init_slot_sel:
  "p_flags (procs (init_slot img t k) p) = (if p = t then 0 else p_flags (procs k p))"
  "p_callerq (procs (init_slot img t k) p) = p_callerq (procs k p)"
  "addr_m (init_slot img t k) = addr_m k"
  "p \<noteq> t \<Longrightarrow> p_map (procs (init_slot img t k) p) = p_map (procs k p)"
  by (simp_all add: init_slot_def Let_def)

lemma boot_loop:
  assumes "rq_ok k rq" "distinct ts" "\<forall>t\<in>set ts. valid_nr t \<and> t \<notin> set (rq (queue_of t))"
  shows "\<exists>rq'. rq_ok (fold (init_slot img) ts k) rq'
    \<and> (\<forall>p. p \<in> set (rq' (queue_of p)) \<longleftrightarrow> p \<in> set (rq (queue_of p))
         \<or> p \<in> set ts \<and> (task_table img (nat (p + NR_TASKS)) \<noteq> 0 \<or> p \<ge> 0))
    \<and> (\<forall>p. p_flags (procs (fold (init_slot img) ts k) p)
         = (if p \<in> set ts then 0 else p_flags (procs k p)))
    \<and> (\<forall>p. p_callerq (procs (fold (init_slot img) ts k) p) = p_callerq (procs k p))
    \<and> addr_m (fold (init_slot img) ts k) = addr_m k"
  using assms
proof (induction ts arbitrary: k rq)
  case Nil
  then show ?case by auto
next
  case (Cons t ts)
  define rq1 where
    "rq1 = (if task_table img (nat (t + NR_TASKS)) \<noteq> 0 \<or> t \<ge> 0 then a_ready t rq else rq)"
  have r1: "rq_ok (init_slot img t k) rq1"
    unfolding rq1_def by (rule init_slot_rq) (use Cons.prems in auto)
  have m: "p \<in> set (rq1 (queue_of p)) \<longleftrightarrow> p \<in> set (rq (queue_of p)) \<or>
      p = t \<and> (task_table img (nat (t + NR_TASKS)) \<noteq> 0 \<or> t \<ge> 0)" for p
    by (auto simp: rq1_def)
  have d: "distinct ts" "\<forall>p\<in>set ts. valid_nr p \<and> p \<notin> set (rq1 (queue_of p))"
    using Cons.prems(2,3) m by auto
  from Cons.IH [OF r1 d] show ?case by (auto simp: m init_slot_sel)
qed

lemma init_slot_hw_map:
  "mem_len (p_map (procs (init_slot img HARDWARE k) HARDWARE) SEG_D) = VERY_BIG"
  "mem_vir (p_map (procs (init_slot img HARDWARE k) HARDWARE) SEG_D)
     = mem_vir (p_map (procs k HARDWARE) SEG_D)"
  by (simp_all add: init_slot_def Let_def set_segs_def init_map_def)

lemma boot_other_map:
  "p \<notin> set ts \<Longrightarrow> p_map (procs (fold (init_slot img) ts k) p) = p_map (procs k p)"
  by (induction ts arbitrary: k) (auto simp: init_slot_sel)

lemma boot_hw_map:
  "mem_len (p_map (procs (fold (init_slot img) [- NR_TASKS..LOW_USER] k) HARDWARE) SEG_D) = VERY_BIG"
  "mem_vir (p_map (procs (fold (init_slot img) [- NR_TASKS..LOW_USER] k) HARDWARE) SEG_D)
     = mem_vir (p_map (procs k HARDWARE) SEG_D)"
proof -
  have "[- NR_TASKS..LOW_USER] = [-8, -7, -6, -5, -4, -3, -2] @ HARDWARE # [0, 1, 2]"
    by (simp add: upto.simps)
  moreover have "HARDWARE \<notin> set [0, 1, 2]" "HARDWARE \<notin> set [-8, -7, -6, -5, -4, -3, -2]" by simp_all
  ultimately obtain as bs where l: "[- NR_TASKS..LOW_USER] = as @ HARDWARE # bs"
    and n: "HARDWARE \<notin> set bs" "HARDWARE \<notin> set as" by blast
  show "mem_len (p_map (procs (fold (init_slot img) [- NR_TASKS..LOW_USER] k) HARDWARE) SEG_D) = VERY_BIG"
    "mem_vir (p_map (procs (fold (init_slot img) [- NR_TASKS..LOW_USER] k) HARDWARE) SEG_D)
     = mem_vir (p_map (procs k HARDWARE) SEG_D)"
    unfolding l fold_append fold.simps comp_apply
    by (simp_all only: boot_other_map [OF n(1)] boot_other_map [OF n(2)] init_slot_hw_map)
qed

lemma drop_bit_u16: "unat (drop_bit 4 (w::u16)) = unat w div 16"
  by (simp add: drop_bit_eq_div unat_div_distrib)

lemma bad_mess_addrI:
  assumes "unat m + 24 \<le> 65536" "mem_vir (p_map p SEG_D) = 0" "mem_len (p_map p SEG_D) = VERY_BIG"
  shows "\<not> bad_mess_addr p m"
proof -
  have u: "unat (m + 23) = unat m + 23"
    using assms(1) by (subst unat_add_lem [THEN iffD1]) auto
  have "unat (m + 23) div 16 < 4096" by (rule div_less_iff_less_mult [THEN iffD2]) auto
  moreover have "unat (VERY_BIG) = 39328" by simp
  moreover have "MESS_SIZE - 1 = 23" by simp
  moreover have "m + MESS_SIZE - 1 = m + 23" by (simp add: add_diff_eq [symmetric])
  ultimately show ?thesis
    unfolding bad_mess_addr_def Let_def word_less_nat_alt word_le_nat_alt drop_bit_u16 assms(2,3)
    using u by (simp only: diff_zero drop_bit_u16 u) (simp add: div_le_mono not_less)
qed

lemma free_slots_sel:
  fixes xs :: "pnr list"
  defines "g \<equiv> fold (\<lambda>i. set_proc i (\<lambda>p. p\<lparr>p_flags := P_SLOT_FREE\<rparr>)) xs"
  shows "procs (g k) p = (if p \<in> set xs then (procs k p)\<lparr>p_flags := P_SLOT_FREE\<rparr> else procs k p)"
    "rdy_head (g k) = rdy_head k" "rdy_tail (g k) = rdy_tail k" "addr_m (g k) = addr_m k"
  unfolding g_def by (induction xs arbitrary: k) auto

text \<open>What \<^verbatim>\<open>main\<close> leaves: every task but HARDWARE, MM, FS and INIT are ready.\<close>

lemma boot_state:
  assumes "k4 = kernel_main img (zero_kernel img mem)"
  shows "\<exists>rq. rq_ok k4 rq \<and> (\<forall>p. p \<in> set (rq (queue_of p)) \<longleftrightarrow>
      - NR_TASKS \<le> p \<and> p \<le> LOW_USER \<and> (task_table img (nat (p + NR_TASKS)) \<noteq> 0 \<or> p \<ge> 0))"
    and "p_flags (procs k4 p) = (if LOW_USER < p \<and> p < NR_PROCS then P_SLOT_FREE else 0)"
    and "p_callerq (procs k4 p) = None" and "addr_m k4 = m_address img"
    and "mem_len (p_map (procs k4 HARDWARE) SEG_D) = VERY_BIG"
    and "mem_vir (p_map (procs k4 HARDWARE) SEG_D) = 0"
proof -
  define k0 where "k0 = lock (zero_kernel img mem)"
  define ts where "ts = [- NR_TASKS..LOW_USER]"
  define k1 where "k1 = fold (init_slot img) ts k0"
  define fs where "fs = [LOW_USER + 1..NR_PROCS - 1]"
  have z: "rq_ok k0 (\<lambda>_. [])" by (simp add: rq_ok_def k0_def zero_kernel_def)
  have zp: "p_flags (procs k0 p) = 0" "p_callerq (procs k0 p) = None" "addr_m k0 = m_address img"
    "mem_vir (p_map (procs k0 p) SEG_D) = 0" for p
    by (simp_all add: k0_def zero_kernel_def zero_proc_def)
  have "\<forall>t\<in>set ts. valid_nr t \<and> t \<notin> set ((\<lambda>_. []) (queue_of t))" "distinct ts"
    by (auto simp: ts_def valid_nr_def)
  from boot_loop [OF z this(2,1), of img] obtain rq where
    rq: "rq_ok k1 rq" "\<And>p. p \<in> set (rq (queue_of p)) \<longleftrightarrow>
         p \<in> set ts \<and> (task_table img (nat (p + NR_TASKS)) \<noteq> 0 \<or> p \<ge> 0)"
      "\<And>p. p_flags (procs k1 p) = 0" "\<And>p. p_callerq (procs k1 p) = None"
      "addr_m k1 = m_address img"
    unfolding k1_def [symmetric] zp by auto
  have fsI: "p \<in> set fs \<longleftrightarrow> LOW_USER < p \<and> p < NR_PROCS" for p
    unfolding fs_def by (auto simp only: set_upto atLeastAtMost_iff)
  have tsI: "p \<in> set ts \<longleftrightarrow> - NR_TASKS \<le> p \<and> p \<le> LOW_USER" for p
    unfolding ts_def by (simp only: set_upto atLeastAtMost_iff)
  have sel: "p_nextready (procs k4 p) = p_nextready (procs k1 p)"
    "p_flags (procs k4 p) = (if p \<in> set fs then P_SLOT_FREE else 0)"
    "p_callerq (procs k4 p) = None" "rdy_head k4 = rdy_head k1" "rdy_tail k4 = rdy_tail k1"
    "p_map (procs k4 p) = p_map (procs k1 p)" "addr_m k4 = m_address img" for p
    unfolding assms kernel_main_def k0_def [symmetric] ts_def [symmetric] k1_def [symmetric]
      fs_def [symmetric] Let_def
    by (simp_all add: free_slots_sel rq)
  show "\<exists>rq. rq_ok k4 rq \<and> (\<forall>p. p \<in> set (rq (queue_of p)) \<longleftrightarrow>
      - NR_TASKS \<le> p \<and> p \<le> LOW_USER \<and> (task_table img (nat (p + NR_TASKS)) \<noteq> 0 \<or> p \<ge> 0))"
    using rq(1,2) rq_ok_cong [of k4 k1 rq] sel by (auto simp only: tsI)
  show "p_flags (procs k4 p) = (if LOW_USER < p \<and> p < NR_PROCS then P_SLOT_FREE else 0)"
    by (simp only: sel(2) fsI)
  show "p_callerq (procs k4 p) = None" "addr_m k4 = m_address img" by (simp_all only: sel)
  show "mem_len (p_map (procs k4 HARDWARE) SEG_D) = VERY_BIG"
    "mem_vir (p_map (procs k4 HARDWARE) SEG_D) = 0"
    unfolding sel k1_def ts_def boot_hw_map zp by (rule refl)+
qed

lemma boot_kinv:
  assumes "boots img"
  shows "kinv (kernel_main img (zero_kernel img mem))"
proof -
  define k where "k = kernel_main img (zero_kernel img mem)"
  note B = boot_state [OF k_def]
  obtain rq where rq: "rq_ok k rq" "\<And>p. p \<in> set (rq (queue_of p)) \<longleftrightarrow>
      - NR_TASKS \<le> p \<and> p \<le> LOW_USER \<and> (task_table img (nat (p + NR_TASKS)) \<noteq> 0 \<or> p \<ge> 0)"
    using B(1) by blast
  have task: "task_table img (nat (p + NR_TASKS)) \<noteq> 0" if "- NR_TASKS \<le> p" "p < HARDWARE" for p
    using that assms by (simp add: task_table_def boots_def)
  have mem: "p \<in> set (rq (queue_of p)) \<longleftrightarrow> p_flags (procs k p) = 0"
    if "valid_nr p" "p \<noteq> HARDWARE" for p
    using that task [of p] by (cases "p < HARDWARE") (auto simp: B(2) rq(2) valid_nr_def)
  have hw: "HARDWARE \<notin> set (rq TASK_Q)" using rq(2) [of HARDWARE] by (simp add: task_table_def)
  have "\<not> has_flag P_SLOT_FREE SENDING" by (simp add: has_flag_def)
  then have "krep k rq (\<lambda>_. [])"
    using rq(1) mem hw by (auto simp: krep_def cq_ok_def B(2,3))
  moreover have "\<not> bad_mess_addr (procs k HARDWARE) (m_address img)"
    by (rule bad_mess_addrI [OF _ B(6,5)]) (use assms in \<open>simp add: boots_def\<close>)
  then have "kenv k" unfolding kenv_def B(2,4) by simp
  ultimately show ?thesis unfolding k_def by (rule kinvI)
qed

section \<open>sched\<close>

lemma sched_krep:
  assumes k: "krep k rq cq"
  shows "krep (sched k) (case rq USER_Q of [] \<Rightarrow> rq | x # xs \<Rightarrow> rq(USER_Q := xs @ [x])) cq"
proof (cases "rq USER_Q")
  case Nil
  then have "rdy_head k USER_Q = None" using rq_head_None [OF krepD(1) [OF k]] by simp
  then show ?thesis using k Nil krep_cong [of "sched k" k] by (simp add: sched_def)
next
  case (Cons x xs)
  have r: "rq_ok k rq" by (rule krepD(1) [OF k])
  have c: "chain (nextready k) (rdy_head k USER_Q) (x # xs)" using rq_okD(1) [OF r, of USER_Q] Cons by simp
  have t: "rdy_tail k USER_Q = Some (last (x # xs))" using rq_okD(2) [OF r, of USER_Q] Cons by simp
  have d: "x \<notin> set xs" using chain_distinct [OF c] by simp
  have h: "rdy_head k USER_Q = Some x" "chain (nextready k) (nextready k x) xs" using c by auto
  have s: "nextready (sched k) = (nextready k)(last (x # xs) := Some x, x := None)"
    "rdy_head (sched k) USER_Q = (if xs = [] then Some x else nextready k x)"
    "rdy_tail (sched k) USER_Q = Some x"
    "\<And>q. q \<noteq> USER_Q \<Longrightarrow> rdy_head (sched k) q = rdy_head k q \<and> rdy_tail (sched k) q = rdy_tail k q"
    "\<And>p. p_flags (procs (sched k) p) = p_flags (procs k p)"
    "\<And>p. p_sendlink (procs (sched k) p) = p_sendlink (procs k p)"
    "\<And>p. p_callerq (procs (sched k) p) = p_callerq (procs k p)"
    using h t d by (auto simp: sched_def Let_def fun_eq_iff split: if_splits)
  have user: "queue_of p = USER_Q" "valid_nr p" if "p \<in> set (x # xs)" for p
    using rq_okD(3,4) [OF r, of USER_Q p] that Cons by auto
  have "rq_ok (sched k) (rq(USER_Q := xs @ [x]))"
  proof (rule rq_ok_update [OF r])
    show "chain (nextready (sched k)) (rdy_head (sched k) USER_Q) (xs @ [x])"
    proof (cases "xs = []")
      case True
      then show ?thesis by (simp add: s(1,2))
    next
      case False
      then show ?thesis using chain_snoc [OF h(2) False d] by (simp only: s(1,2) last.simps if_False)
    qed
    show "nextready (sched k) p = nextready k p" if "queue_of p \<noteq> USER_Q" for p
    proof -
      have "queue_of (last (x # xs)) = USER_Q" by (rule user(1)) (rule last_in_set, simp)
      then have "p \<noteq> last (x # xs)" "p \<noteq> x" using that user(1) [of x] by auto
      then have "((nextready k)(last (x # xs) := Some x, x := None)) p = nextready k p"
        by (simp only: fun_upd_apply if_False)
      then show ?thesis using fun_cong [OF s(1), of p] by (rule trans [rotated])
    qed
  qed (use user s in auto)
  moreover have "cq_ok (sched k) cq" using krepD(2) [OF k] cq_ok_cong [of "sched k" k] s by simp
  moreover have "set ((rq(USER_Q := xs @ [x])) q) = set (rq q)" for q using Cons by auto
  ultimately have "krep (sched k) (rq(USER_Q := xs @ [x])) cq"
    using k by (simp add: krep_def s(5) del: fun_upd_apply)
  then show ?thesis using Cons by simp
qed

lemma sched_kenv: "kenv (sched k) = kenv k"
  by (rule kenv_cong) (simp_all add: sched_def Let_def split: option.splits)

section \<open>The kernel as a transition system\<close>

text \<open>
  A step is a trap by a runnable process (servers and tasks name a destination when they
  send), an interrupt for a task, the end of a quantum, or user code writing memory.
\<close>

definition may_call :: "kernel \<Rightarrow> u16 \<Rightarrow> pnr \<Rightarrow> int \<Rightarrow> bool" where
  "may_call k fn caller src_dest \<longleftrightarrow> valid_nr caller \<and> caller \<noteq> HARDWARE
     \<and> p_flags (procs k caller) = 0
     \<and> \<not> (has_flag fn SEND \<and> src_dest = ANY \<and> caller < LOW_USER)"

inductive kstep :: "kernel \<Rightarrow> kernel \<Rightarrow> bool" where
  call: "may_call k fn caller src_dest \<Longrightarrow> sys_call fn caller src_dest m_ptr k = Some k' \<Longrightarrow> kstep k k'"
| intr: "- NR_TASKS \<le> task \<Longrightarrow> task < HARDWARE \<Longrightarrow> interrupt task m_ptr k = Some k' \<Longrightarrow> kstep k k'"
| quantum: "kstep k (sched k)"
| store: "kstep k (k\<lparr>memory := mem\<rparr>)"

inductive kreachable :: "kimage \<Rightarrow> kernel \<Rightarrow> bool" for img where
  boot: "kreachable img (kernel_main img (zero_kernel img mem))"
| step: "kreachable img k \<Longrightarrow> kstep k k' \<Longrightarrow> kreachable img k'"

inductive_cases kstepE: "kstep k k'"

lemma call_total:
  assumes "kinv k" "may_call k fn caller src_dest"
  shows "\<exists>k'. sys_call fn caller src_dest m_ptr k = Some k' \<and> kinv k'"
  by (rule sys_call_total) (use assms in \<open>auto simp: may_call_def\<close>)

lemma kstep_kinv: "kstep k k' \<Longrightarrow> kinv k \<Longrightarrow> kinv k'"
proof (induction rule: kstep.induct)
  case (call k fn caller src_dest m_ptr k')
  then show ?case using call_total [OF call(3) call(1), of m_ptr] by auto
next
  case (intr task m_ptr k k')
  then show ?case using interrupt_ok [OF intr(4) intr(1,2), of m_ptr] by auto
next
  case (quantum k)
  then show ?case using sched_krep sched_kenv by (auto simp: kinv_def) blast
next
  case (store k mem)
  then show ?case by (auto simp: kinv_def krep_busy kenv_busy)
qed

lemma kreachable_kinv: "kreachable img k \<Longrightarrow> boots img \<Longrightarrow> kinv k"
  by (induction rule: kreachable.induct) (auto intro: boot_kinv kstep_kinv)

end
