(* ===== verification/KernelProps.thy ===== *)
theory KernelProps
  imports KMain
begin

text \<open>
  The properties of \<^verbatim>\<open>kernel/proc.c\<close>, each with an instance at a concrete kernel:
  \<open>demo_kernel g\<close>, in which MM runs, FS waits for a message from \<open>g\<close> in the buffer at
  0x100, and every other slot is free; MM's data segment starts at click 0x1000, FS's at
  click 0x2000.
\<close>

definition demo_kernel :: "int \<Rightarrow> kernel" where
  "demo_kernel g =
     (let m = (\<lambda>b _. \<lparr>mem_vir = 0, mem_phys = b, mem_len = 4096\<rparr>);
          free = zero_proc\<lparr>p_flags := P_SLOT_FREE, p_map := m 0\<rparr>
      in (zero_kernel \<lparr>sizes = (\<lambda>_. 0), task_addr = (\<lambda>_. 1), t_stack = (\<lambda>_. 0), k_stack = 0,
                       m_address = 0\<rparr> (\<lambda>a. word_of_nat a))
         \<lparr>procs := (\<lambda>p. if p = MM_PROC_NR then zero_proc\<lparr>p_map := m 4096\<rparr>
                       else if p = FS_PROC_NR
                       then zero_proc\<lparr>p_flags := RECEIVING, p_getfrom := g, p_messbuf := 256, p_map := m 8192\<rparr>
                       else if p = HARDWARE then zero_proc\<lparr>p_map := m 0\<rparr> else free),
          rdy_head := (\<lambda>q. if q = SERVER_Q then Some MM_PROC_NR else None),
          rdy_tail := (\<lambda>q. if q = SERVER_Q then Some MM_PROC_NR else None)\<rparr>)"

lemma demo_sel [simp]:
  "p_flags (procs (demo_kernel g) p) = (if p = FS_PROC_NR then RECEIVING
     else if p = MM_PROC_NR \<or> p = HARDWARE then 0 else P_SLOT_FREE)"
  "p_getfrom (procs (demo_kernel g) FS_PROC_NR) = g"
  "p_messbuf (procs (demo_kernel g) FS_PROC_NR) = 256"
  "p_nextready (procs (demo_kernel g) p) = None" "p_callerq (procs (demo_kernel g) p) = None"
  "p_map (procs (demo_kernel g) p) s = \<lparr>mem_vir = 0,
     mem_phys = (if p = MM_PROC_NR then 4096 else if p = FS_PROC_NR then 8192 else 0), mem_len = 4096\<rparr>"
  "rdy_head (demo_kernel g) q = (if q = SERVER_Q then Some MM_PROC_NR else None)"
  "rdy_tail (demo_kernel g) q = (if q = SERVER_Q then Some MM_PROC_NR else None)"
  "addr_m (demo_kernel g) = 0" "memory (demo_kernel g) a = word_of_nat a"
  "sig_procs (demo_kernel g) = 0"
  by (simp_all add: demo_kernel_def zero_kernel_def zero_proc_def Let_def)

lemma demo_addr: "\<not> bad_mess_addr (procs (demo_kernel g) p) 0"
  "\<not> bad_mess_addr (procs (demo_kernel g) p) 64"
  by (simp_all add: bad_mess_addr_def Let_def drop_bit_eq_div word_le_nat_alt)

lemma demo_krep: "krep (demo_kernel g) (\<lambda>q. if q = SERVER_Q then [MM_PROC_NR] else []) (\<lambda>_. [])"
  by (auto simp: krep_def rq_ok_def cq_ok_def queue_of_def valid_nr_def has_flag_def)

lemma demo_kinv: "kinv (demo_kernel g)"
  by (rule kinvI [OF demo_krep]) (simp add: kenv_def demo_addr)

definition demo_image :: kimage where
  "demo_image = \<lparr>sizes = (\<lambda>_. 256), task_addr = (\<lambda>i. word_of_nat i + 1), t_stack = (\<lambda>_. 0),
     k_stack = 0, m_address = 1000\<rparr>"

lemma demo_boots: "boots demo_image"
proof -
  have "(word_of_nat i + 1 :: u16) \<noteq> 0" if "i < 7" for i
  proof -
    have "(word_of_nat i + 1 :: u16) = word_of_nat (Suc i)" by simp
    moreover have "unat (word_of_nat (Suc i) :: u16) = Suc i"
      using that by (intro unat_of_nat_u16) simp
    ultimately show ?thesis by (metis nat.distinct(1) unsigned_0)
  qed
  then show ?thesis by (simp add: boots_def demo_image_def)
qed

section \<open>System properties\<close>

text \<open>C1: In every state the kernel can reach from boot through system calls, interrupts,
  quantum ends and user stores, the queues are well formed and agree with the flags: a
  process (other than the pseudo task HARDWARE) is on its ready queue exactly when its
  \<^verbatim>\<open>p_flags\<close> are zero, on a callers' queue exactly when it is SENDING, and on one only.\<close>

theorem kernel_invariant:
  assumes "boots img" and "kreachable img k"
  shows "\<exists>rq cq. krep k rq cq"
  using kreachable_kinv [OF assms(2,1)] by (simp add: kinv_def)

theorem kernel_invariant_witness:
  "boots demo_image \<and> (\<exists>rq cq. krep (sched (kernel_main demo_image (zero_kernel demo_image (\<lambda>_. 0)))) rq cq)"
  using kernel_invariant [OF demo_boots kreachable.step [OF kreachable.boot kstep.quantum]]
    demo_boots by blast

text \<open>C6: No trap hangs or panics the kernel: in every reachable state, the system call of
  any runnable process returns, whatever function code, partner and buffer it passes (a
  server or task must not send to ANY), and so does every task interrupt.\<close>

theorem kernel_always_returns:
  assumes "boots img" and "kreachable img k"
  shows "(may_call k fn caller src_dest \<longrightarrow>
            (\<exists>k'. sys_call fn caller src_dest m_ptr k = Some k' \<and> kreachable img k'))
    \<and> (- NR_TASKS \<le> task \<and> task < HARDWARE \<longrightarrow>
            (\<exists>k'. interrupt task m_ptr k = Some k' \<and> kreachable img k'))"
proof -
  have inv: "kinv k" by (rule kreachable_kinv [OF assms(2,1)])
  show ?thesis
    using call_total [OF inv] interrupt_ok [OF inv] kreachable.step [OF assms(2)] kstep.call kstep.intr
    by (metis (no_types, lifting))
qed

theorem kernel_always_returns_witness:
  "\<exists>k'. sys_call BOTH MM_PROC_NR FS_PROC_NR 64 (kernel_main demo_image (zero_kernel demo_image (\<lambda>_. 0)))
    = Some k' \<and> kreachable demo_image k'"
proof -
  have "may_call (kernel_main demo_image (zero_kernel demo_image (\<lambda>_. 0))) BOTH MM_PROC_NR FS_PROC_NR"
    by (simp add: may_call_def boot_state(2) [OF refl] valid_nr_def)
  then show ?thesis
    using kernel_always_returns [OF demo_boots kreachable.boot] by blast
qed

text \<open>No interrupt is lost: if the task is not waiting, a clock tick is counted in
  \<^verbatim>\<open>lost_ticks\<close> and any other interrupt leaves its bit in \<^verbatim>\<open>busy_map\<close> and its message
  pointer in \<^verbatim>\<open>task_mess\<close>; if it is waiting, no tick is counted. The kernel invariant is kept.\<close>

theorem interrupt_not_lost:
  assumes "kinv k" and "- NR_TASKS \<le> task" and "task < HARDWARE"
  shows "\<exists>k'. interrupt task m_ptr k = Some k' \<and> kinv k'
    \<and> (hw_fails k task m_ptr \<longrightarrow>
         (if task = CLOCK then lost_ticks k' = int_of (lost_ticks k + 1)
          else has_flag (busy_map k') (task_bit (nat (- task))) \<and> task_mess k' (nat (- task)) = m_ptr))
    \<and> (\<not> hw_fails k task m_ptr \<longrightarrow> lost_ticks k' = lost_ticks k)"
  by (rule interrupt_ok [OF assms])

theorem interrupt_not_lost_witness:
  "\<exists>k'. interrupt (-5) 64 (demo_kernel 0) = Some k' \<and> has_flag (busy_map k') 32 \<and> task_mess k' 5 = 64"
proof -
  have "hw_fails (demo_kernel 0) (-5) 64"
    by (simp add: hw_fails_def send_refused_def has_flag_def)
  then show ?thesis
    using interrupt_not_lost [OF demo_kinv, of "-5" 64 0] by (auto simp: task_bit_def)
qed

section \<open>Messages\<close>

text \<open>C2: Rendezvous. If the destination waits for the caller, \<^verbatim>\<open>mini_send\<close> returns OK,
  unblocks the destination, and its buffer holds the caller's number followed by bytes
  2..23 of the caller's message; no other byte of memory changes.\<close>

theorem mini_send_rendezvous:
  fixes k caller dest m_ptr
  defines "sseg \<equiv> mem_phys (p_map (procs k caller) SEG_D)"
    and "dseg \<equiv> mem_phys (p_map (procs k dest) SEG_D)" and "buf \<equiv> p_messbuf (procs k dest)"
  assumes k: "krep k rq cq" and v: "valid_nr dest"
    and ok: "\<not> send_refused k caller dest m_ptr" and w: "waits_for k dest caller"
    and fits: "mess_fits sseg m_ptr" "mess_fits dseg buf"
    and disj: "lin sseg m_ptr + 24 \<le> lin dseg buf \<or> lin dseg buf + 24 \<le> lin sseg m_ptr"
  shows "\<exists>k'. mini_send caller dest m_ptr k = Some (OK, k')
    \<and> p_flags (procs k' dest) = clr_flag (p_flags (procs k dest)) RECEIVING
    \<and> get16 (memory k') dseg buf = word_of_int caller
    \<and> (\<forall>j. 2 \<le> j \<and> j < 24 \<longrightarrow> memory k' (lin dseg buf + j) = memory k (lin sseg m_ptr + j))
    \<and> (\<forall>a. a < lin dseg buf \<or> lin dseg buf + 24 \<le> a \<longrightarrow> memory k' a = memory k a)"
proof -
  obtain k' where k': "mini_send caller dest m_ptr k = Some (OK, k')"
    "memory k' = cp_mess caller sseg m_ptr dseg buf (memory k)"
    "p_flags (procs k' dest) = clr_flag (p_flags (procs k dest)) RECEIVING"
    using mini_send_deliver [OF k v ok w] by (auto simp: mess_copied_def sseg_def dseg_def buf_def)
  note B = cp_mess_bytes [OF fits disj, of caller "memory k"]
  have "phys_of dseg buf = lin dseg buf" "phys_of dseg (buf + 1) = lin dseg buf + 1"
    using phys_of_words [OF fits(2), of 0] by simp_all
  then have "get16 (memory k') dseg buf = get16 (put16 dseg buf (word_of_int caller) (memory k)) dseg buf"
    by (simp add: k'(2) B get16_def put16_def)
  then have "get16 (memory k') dseg buf = word_of_int caller" using put16_source [OF fits(2)] by simp
  then show ?thesis using k' by (auto simp: B)
qed

theorem mini_send_rendezvous_witness:
  "\<exists>k'. mini_send MM_PROC_NR FS_PROC_NR 64 (demo_kernel ANY) = Some (OK, k')
    \<and> get16 (memory k') 8192 256 = 0 \<and> memory k' (8192 * 16 + 256 + 5) = 69"
proof -
  have ex: "\<exists>k'. mini_send MM_PROC_NR FS_PROC_NR 64 (demo_kernel ANY) = Some (OK, k')
    \<and> p_flags (procs k' FS_PROC_NR) = clr_flag (p_flags (procs (demo_kernel ANY) FS_PROC_NR)) RECEIVING
    \<and> get16 (memory k') (mem_phys (p_map (procs (demo_kernel ANY) FS_PROC_NR) SEG_D))
        (p_messbuf (procs (demo_kernel ANY) FS_PROC_NR)) = word_of_int MM_PROC_NR
    \<and> (\<forall>j. 2 \<le> j \<and> j < 24 \<longrightarrow> memory k' (lin (mem_phys (p_map (procs (demo_kernel ANY) FS_PROC_NR) SEG_D))
            (p_messbuf (procs (demo_kernel ANY) FS_PROC_NR)) + j)
          = memory (demo_kernel ANY) (lin (mem_phys (p_map (procs (demo_kernel ANY) MM_PROC_NR) SEG_D)) 64 + j))
    \<and> (\<forall>a. a < lin (mem_phys (p_map (procs (demo_kernel ANY) FS_PROC_NR) SEG_D))
            (p_messbuf (procs (demo_kernel ANY) FS_PROC_NR))
          \<or> lin (mem_phys (p_map (procs (demo_kernel ANY) FS_PROC_NR) SEG_D))
            (p_messbuf (procs (demo_kernel ANY) FS_PROC_NR)) + 24 \<le> a
          \<longrightarrow> memory k' a = memory (demo_kernel ANY) a)"
    by (rule mini_send_rendezvous [OF demo_krep])
      (simp_all add: valid_nr_def send_refused_def waits_for_def demo_addr has_flag_def mess_fits_def lin_def)
  from ex obtain k' where k': "mini_send MM_PROC_NR FS_PROC_NR 64 (demo_kernel ANY) = Some (OK, k')"
    "get16 (memory k') 8192 256 = 0"
    "\<forall>j. 2 \<le> j \<and> j < 24 \<longrightarrow> memory k' (lin 8192 256 + j) = memory (demo_kernel ANY) (lin 4096 64 + j)"
    by auto
  from k'(3) have "memory k' (lin 8192 256 + 5) = memory (demo_kernel ANY) (lin 4096 64 + 5)" by simp
  then show ?thesis using k' by (auto simp: lin_def)
qed

text \<open>C3: If the destination does not wait for the caller, \<^verbatim>\<open>mini_send\<close> blocks the caller
  (SENDING, off its ready queue), appends it to the end of the destination's callers'
  queue, and copies nothing.\<close>

theorem mini_send_blocks_and_queues:
  assumes "krep k rq cq" and "valid_nr dest" and "valid_nr caller" and "caller \<noteq> HARDWARE"
    and "\<not> send_refused k caller dest m_ptr" and "\<not> waits_for k dest caller"
    and "\<not> has_flag (p_flags (procs k caller)) SENDING"
  shows "\<exists>k'. mini_send caller dest m_ptr k = Some (OK, k')
    \<and> krep k' (rq(queue_of caller := remove1 caller (rq (queue_of caller)))) (cq(dest := cq dest @ [caller]))
    \<and> memory k' = memory k \<and> p_messbuf (procs k' caller) = m_ptr
    \<and> p_flags (procs k' caller) = set_flag (p_flags (procs k caller)) SENDING"
  using mini_send_queue [OF assms] by blast

theorem mini_send_blocks_and_queues_witness:
  "\<exists>k' rq. mini_send MM_PROC_NR FS_PROC_NR 64 (demo_kernel CLOCK) = Some (OK, k')
    \<and> krep k' rq ((\<lambda>_. [])(FS_PROC_NR := [MM_PROC_NR]))"
  using mini_send_blocks_and_queues [OF demo_krep, of FS_PROC_NR MM_PROC_NR CLOCK 64]
  by (fastforce simp: valid_nr_def send_refused_def waits_for_def demo_addr has_flag_def)

text \<open>C4: \<^verbatim>\<open>mini_rec\<close> serves the callers' queue in order: the first queued sender that the
  source argument accepts is the one whose message is copied; it leaves the queue, stops
  SENDING, and becomes ready exactly when no other flag blocks it.\<close>

theorem mini_rec_serves_first:
  assumes "krep k rq cq" and "valid_nr caller"
    and "List.find (accepts src) (cq caller) = Some s"
  shows "\<exists>k'. mini_rec caller src m_ptr k = Some (OK, k')
    \<and> krep k' (if clr_flag (p_flags (procs k s)) SENDING = 0
               then rq(queue_of s := rq (queue_of s) @ [s]) else rq)
              (cq(caller := remove1 s (cq caller)))
    \<and> memory k' = mess_copied k s (p_messbuf (procs k s)) caller m_ptr
    \<and> p_flags (procs k' s) = clr_flag (p_flags (procs k s)) SENDING"
  using mini_rec_found [OF assms] by blast

theorem mini_rec_serves_first_witness:
  "\<exists>k k' rq. krep k rq ((\<lambda>_. [])(FS_PROC_NR := [MM_PROC_NR]))
    \<and> mini_rec FS_PROC_NR ANY 512 k = Some (OK, k') \<and> (\<exists>rq'. krep k' rq' (\<lambda>_. []))"
proof -
  obtain k rq where k: "krep k rq ((\<lambda>_. [])(FS_PROC_NR := [MM_PROC_NR]))"
    using mini_send_queue [OF demo_krep, of FS_PROC_NR MM_PROC_NR CLOCK 64]
    by (fastforce simp: valid_nr_def send_refused_def waits_for_def demo_addr has_flag_def)
  have "((\<lambda>_. [])(FS_PROC_NR := [MM_PROC_NR]))(FS_PROC_NR := []) = (\<lambda>_. [] :: pnr list)" by auto
  then show ?thesis
    using k mini_rec_serves_first [OF k, of FS_PROC_NR ANY MM_PROC_NR 512]
    by (fastforce simp: valid_nr_def accepts_def)
qed



section \<open>Scheduling\<close>

text \<open>\<^verbatim>\<open>pick_proc\<close> runs the head of the highest nonempty queue (tasks, then servers, then
  users), bills the processor only to users or, when idle, to HARDWARE, and remembers who
  ran before.\<close>

theorem pick_proc_priority:
  assumes "rq_ok k rq"
  shows "cur_proc (pick_proc k) =
      (case rq TASK_Q @ rq SERVER_Q @ rq USER_Q of [] \<Rightarrow> IDLE | p # _ \<Rightarrow> p)
    \<and> prev_proc (pick_proc k) = cur_proc k
    \<and> bill_ptr (pick_proc k) =
      (case rq TASK_Q @ rq SERVER_Q of [] \<Rightarrow> (case rq USER_Q of [] \<Rightarrow> HARDWARE | p # _ \<Rightarrow> p)
       | _ \<Rightarrow> bill_ptr k)"
proof -
  have c: "chain (nextready k) (rdy_head k q) (rq q)" "p \<in> set (rq q) \<Longrightarrow> queue_of p = q" if "q < 3" for q p
    using rq_okD(1,3) [OF assms that] by auto
  have h: "rdy_head k q = (case rq q of [] \<Rightarrow> None | p # _ \<Rightarrow> Some p)" if "q < 3" for q
    using c(1) [OF that] by (cases "rq q") auto
  have lo: "p < LOW_USER" if "p \<in> set (rq TASK_Q) \<or> p \<in> set (rq SERVER_Q)" for p
  proof -
    from that have "queue_of p = TASK_Q \<or> queue_of p = SERVER_Q"
      using c(2) [of TASK_Q p] c(2) [of SERVER_Q p] by fastforce
    then show ?thesis by (simp add: queue_of_def split: if_splits)
  qed
  have hi: "LOW_USER \<le> p" if "p \<in> set (rq USER_Q)" for p
  proof -
    have "queue_of p = USER_Q" by (rule c(2) [OF _ that]) simp
    then show ?thesis by (simp add: queue_of_def split: if_splits)
  qed
  show ?thesis
  proof (cases "rq TASK_Q")
    case (Cons p ps)
    then show ?thesis using lo [of p] h [of TASK_Q] by (simp add: pick_proc_def Let_def)
  next
    case t: Nil
    show ?thesis
    proof (cases "rq SERVER_Q")
      case (Cons p ps)
      then show ?thesis using t lo [of p] h [of TASK_Q] h [of SERVER_Q] by (simp add: pick_proc_def Let_def)
    next
      case Nil
      then show ?thesis using t hi [of "hd (rq USER_Q)"] h [of TASK_Q] h [of SERVER_Q] h [of USER_Q]
        by (auto simp: pick_proc_def Let_def split: list.splits)
    qed
  qed
qed

theorem pick_proc_priority_witness:
  "cur_proc (pick_proc (demo_kernel ANY)) = MM_PROC_NR"
  using pick_proc_priority [OF krepD(1) [OF demo_krep [of ANY]]] by simp

text \<open>Round robin. \<^verbatim>\<open>sched\<close> moves the head of the user queue to its tail, leaves the other
  queues and all callers' queues alone, and keeps the agreement of queues and flags.\<close>

theorem sched_round_robin:
  assumes "krep k rq cq"
  shows "krep (sched k) (case rq USER_Q of [] \<Rightarrow> rq | x # xs \<Rightarrow> rq(USER_Q := xs @ [x])) cq"
  by (rule sched_krep [OF assms])

theorem sched_round_robin_witness:
  "krep (sched (demo_kernel ANY)) (\<lambda>q. if q = SERVER_Q then [MM_PROC_NR] else []) (\<lambda>_. [])"
  using sched_round_robin [OF demo_krep [of ANY]] by simp

section \<open>Defects\<close>

text \<open>The early returns of \<^verbatim>\<open>unready\<close> skip \<^verbatim>\<open>restore()\<close>: when the process is not on its
  queue, interrupts stay disabled although they were enabled before the call; when it is
  on the queue, the interrupt flag is the same after the call.\<close>

theorem unready_interrupt_flag:
  assumes "rq_ok k rq"
  shows "\<exists>k'. unready p k = Some k' \<and>
    int_flag k' = (if p \<in> set (rq (queue_of p)) then int_flag k else False)"
proof -
  let ?q = "queue_of p"
  have c: "chain (nextready k) (rdy_head k ?q) (rq ?q)" using assms by (simp add: rq_okD)
  have fl: "int_flag (pick_proc j) = int_flag j" "lockvar (pick_proc j) = lockvar j" for j
    by (simp_all add: pick_proc_def Let_def split: option.splits)
  obtain k' where k': "unready p k = Some k'" using unready_rq [OF assms] by blast
  show ?thesis
  proof (cases "rq ?q")
    case Nil
    then show ?thesis using c by (simp add: unready_def lock_def Let_def)
  next
    case (Cons h t)
    then have h: "rdy_head k ?q = Some h" using c by simp
    show ?thesis
    proof (cases "h = p")
      case True
      then show ?thesis using h Cons by (simp add: unready_def Let_def restore_def fl) (simp add: lock_def)
    next
      case hp: False
      show ?thesis
      proof (cases "p \<in> set t")
        case False
        then have "find_before (nextready k) p h = Some None"
          using find_before_miss [of "nextready k" h "h # t" p] c h Cons by simp
        then show ?thesis using h hp False Cons by (simp add: unready_def Let_def) (simp add: lock_def)
      next
        case True
        obtain bs cs where t: "t = bs @ p # cs" using True by (meson split_list)
        have "h # t = butlast (h # bs) @ [last (h # bs), p] @ cs"
          using t by (metis append_Cons append_Nil append_assoc append_butlast_last_id list.discI)
        then have "find_before (nextready k) p h = Some (Some (last (h # bs)))"
          using find_before_hit c h Cons by metis
        then have "int_flag k' = lockvar (lock k)"
          using k' h hp by (auto simp: unready_def Let_def bind_eq_Some_conv restore_def)
        then show ?thesis using k' True Cons by (simp add: lock_def)
      qed
    qed
  qed
qed

theorem unready_interrupt_flag_witness:
  "\<exists>k'. unready FS_PROC_NR ((demo_kernel ANY)\<lparr>int_flag := True\<rparr>) = Some k' \<and> \<not> int_flag k'"
proof -
  have "rq_ok ((demo_kernel ANY)\<lparr>int_flag := True\<rparr>) (\<lambda>q. if q = SERVER_Q then [MM_PROC_NR] else [])"
    using krepD(1) [OF demo_krep [of ANY]] by (simp add: rq_ok_def)
  from unready_interrupt_flag [OF this, of FS_PROC_NR] show ?thesis by (simp add: queue_of_def)
qed

text \<open>\<^verbatim>\<open>mini_send\<close> does not ask whether the destination is itself still blocked SENDING: a
  server in the middle of a send-and-receive, queued on a third process, gets the incoming
  message copied over the buffer that still holds its own undelivered one, and stays queued
  with that buffer as the message to deliver.\<close>

theorem sendrec_buffer_overwritten:
  assumes k: "krep k rq cq" and v: "valid_nr dest" and s: "dest \<in> set (cq e)"
    and ok: "\<not> send_refused k caller dest m_ptr" and w: "waits_for k dest caller"
  shows "\<exists>k' rq'. mini_send caller dest m_ptr k = Some (OK, k') \<and> krep k' rq' cq \<and> dest \<in> set (cq e)
    \<and> has_flag (p_flags (procs k' dest)) SENDING
    \<and> memory k' = mess_copied k caller m_ptr dest (p_messbuf (procs k dest))"
proof -
  have "has_flag (p_flags (procs k dest)) SENDING" using krepD(4) [OF k v] s by blast
  then show ?thesis using mini_send_deliver [OF k v ok w] s by (auto simp: flag_simps)
qed

text \<open>The concrete case: MM, in a send-and-receive with CLOCK's slot, is sent to by FS.\<close>

definition crossed_kernel :: kernel where
  "crossed_kernel = (demo_kernel ANY)\<lparr>procs := (\<lambda>p. if p = FS_PROC_NR
       then (procs (demo_kernel ANY) p)\<lparr>p_flags := 12, p_sendlink := None\<rparr>
       else if p = CLOCK then (procs (demo_kernel ANY) p)\<lparr>p_flags := RECEIVING, p_getfrom := HARDWARE,
              p_callerq := Some FS_PROC_NR\<rparr>
       else procs (demo_kernel ANY) p)\<rparr>"

theorem sendrec_buffer_overwritten_witness:
  "\<exists>k'. mini_send MM_PROC_NR FS_PROC_NR 64 crossed_kernel = Some (OK, k')
    \<and> has_flag (p_flags (procs k' FS_PROC_NR)) SENDING"
proof -
  have r: "krep crossed_kernel (\<lambda>q. if q = SERVER_Q then [MM_PROC_NR] else [])
      (\<lambda>d. if d = CLOCK then [FS_PROC_NR] else [])"
    by (auto simp: krep_def rq_ok_def cq_ok_def queue_of_def valid_nr_def has_flag_def crossed_kernel_def
        split: if_splits)
  have "\<exists>k' rq'. mini_send MM_PROC_NR FS_PROC_NR 64 crossed_kernel = Some (OK, k')
    \<and> krep k' rq' (\<lambda>d. if d = CLOCK then [FS_PROC_NR] else [])
    \<and> FS_PROC_NR \<in> set ((\<lambda>d. if d = CLOCK then [FS_PROC_NR] else []) CLOCK)
    \<and> has_flag (p_flags (procs k' FS_PROC_NR)) SENDING
    \<and> memory k' = mess_copied crossed_kernel MM_PROC_NR 64 FS_PROC_NR (p_messbuf (procs crossed_kernel FS_PROC_NR))"
    by (rule sendrec_buffer_overwritten [OF r])
      (auto simp: valid_nr_def send_refused_def waits_for_def has_flag_def crossed_kernel_def demo_addr)
  then show ?thesis by blast
qed

end
