(* ===== verification/KCopy.thy ===== *)
theory KCopy
  imports KernelProps
begin

text \<open>
  Addresses and copies: \<^verbatim>\<open>umap\<close> of \<^verbatim>\<open>kernel/system.c\<close>, which turns a virtual address of a process
  into a physical one, \<^verbatim>\<open>phys_copy\<close> and \<^verbatim>\<open>get_byte\<close> of \<^verbatim>\<open>kernel/klib88.asm\<close>, and the messages of the
  tasks.  A \<^verbatim>\<open>phys_bytes\<close> is a 32-bit word here; the memory functions use its low 20 bits.
\<close>

section \<open>Messages to and from tasks\<close>

text \<open>The fields of a message that the tasks use, under the names of \<^verbatim>\<open>h/type.h\<close>.\<close>

record kmess =
  m_source :: int
  m_type :: int
  m1_i1 :: int
  m1_i2 :: int
  m1_i3 :: int
  m1_p1 :: u16
  m2_i1 :: int
  m2_i2 :: int
  m2_i3 :: int
  m2_l1 :: int
  m2_l2 :: int
  m2_p1 :: u16
  m4_l1 :: int
  m4_l2 :: int
  m4_l3 :: int
  m4_l4 :: int
  m5_c1 :: int
  m5_c2 :: int
  m5_i1 :: int
  m5_i2 :: int
  m5_l1 :: int
  m5_l2 :: int
  m5_l3 :: int
  m6_i1 :: int
  m6_i2 :: int
  m6_l1 :: int
  m6_f1 :: u16

abbreviation (input) "ABS \<equiv> (-999::int)"
abbreviation (input) "EINTR \<equiv> (-4::int)"
abbreviation (input) "EIO \<equiv> (-5::int)"
abbreviation (input) "ENXIO \<equiv> (-6::int)"
abbreviation (input) "EAGAIN \<equiv> (-11::int)"
abbreviation (input) "EFAULT \<equiv> (-14::int)"
abbreviation (input) "EINVAL \<equiv> (-22::int)"
abbreviation (input) "EOF \<equiv> (-104::int)"
abbreviation (input) "SUSPEND \<equiv> (-998::int)"
abbreviation (input) "TASK_REPLY \<equiv> (68::int)"
abbreviation (input) "REVIVE \<equiv> (67::int)"
abbreviation (input) "CANCEL \<equiv> (0::int)"

section \<open>umap\<close>

definition last_click :: "u16 \<Rightarrow> u16 \<Rightarrow> u16" where
  "last_click vir_addr bytes = drop_bit CLICK_SHIFT (vir_addr + bytes - 1)"

definition umap :: "kproc \<Rightarrow> nat \<Rightarrow> u16 \<Rightarrow> u16 \<Rightarrow> u32" where
  "umap rp seg vir_addr bytes =
     (if bytes = 0 then 0
      else
        (let vc = last_click vir_addr bytes;
             s = (if seg \<noteq> SEG_T
                  then (if vc < mem_vir (p_map rp SEG_D) + mem_len (p_map rp SEG_D) then SEG_D else SEG_S)
                  else seg);
             m = p_map rp s
         in if drop_bit CLICK_SHIFT vir_addr \<ge> mem_vir m + mem_len m then 0
            else push_bit CLICK_SHIFT (ucast (mem_phys m))
                 + (ucast vir_addr - ucast (push_bit CLICK_SHIFT (mem_vir m)))))"

section \<open>phys_copy\<close>

text \<open>
  The routine copies at most 32768 bytes at a time; an even number of bytes goes by words, each
  read whole before it is written, an odd one by bytes.
\<close>

definition in_mem :: "nat \<Rightarrow> nat" where
  "in_mem a = a mod 2 ^ 20"

definition move_byte :: "nat \<Rightarrow> nat \<Rightarrow> (nat \<Rightarrow> u8) \<Rightarrow> (nat \<Rightarrow> u8)" where
  "move_byte s d mem = mem(in_mem d := mem (in_mem s))"

definition move_word :: "nat \<Rightarrow> nat \<Rightarrow> (nat \<Rightarrow> u8) \<Rightarrow> (nat \<Rightarrow> u8)" where
  "move_word s d mem = mem(in_mem d := mem (in_mem s), in_mem (d + 1) := mem (in_mem (s + 1)))"

definition copy_chunk :: "nat \<Rightarrow> nat \<Rightarrow> nat \<Rightarrow> (nat \<Rightarrow> u8) \<Rightarrow> (nat \<Rightarrow> u8)" where
  "copy_chunk s d n =
     (if odd n then fold (\<lambda>i. move_byte (s + i) (d + i)) [0..<n]
      else fold (\<lambda>i. move_word (s + 2 * i) (d + 2 * i)) [0..<n div 2])"

fun copy_chunks :: "nat \<Rightarrow> nat \<Rightarrow> nat \<Rightarrow> (nat \<Rightarrow> u8) \<Rightarrow> (nat \<Rightarrow> u8)" where
  "copy_chunks s d n mem =
     (if n < 32768 then copy_chunk s d n mem
      else copy_chunks (s + 32768) (d + 32768) (n - 32768) (copy_chunk s d 32768 mem))"

declare copy_chunks.simps [simp del]

definition phys_copy :: "u32 \<Rightarrow> u32 \<Rightarrow> u32 \<Rightarrow> kernel \<Rightarrow> kernel" where
  "phys_copy source destination bytecount k =
     k\<lparr>memory := copy_chunks (unat source) (unat destination) (unat bytecount) (memory k)\<rparr>"

definition get_byte :: "u16 \<Rightarrow> u16 \<Rightarrow> kernel \<Rightarrow> u8" where
  "get_byte sg off k = memory k (phys_of sg off)"

section \<open>What a copy does\<close>

text \<open>
  Two physical ranges of \<open>n\<close> bytes below the top of memory that do not overlap.
\<close>

definition apart :: "nat \<Rightarrow> nat \<Rightarrow> nat \<Rightarrow> bool" where
  "apart s d n \<longleftrightarrow> s + n \<le> 2 ^ 20 \<and> d + n \<le> 2 ^ 20 \<and> (s + n \<le> d \<or> d + n \<le> s)"

definition copied :: "nat \<Rightarrow> nat \<Rightarrow> nat \<Rightarrow> (nat \<Rightarrow> u8) \<Rightarrow> (nat \<Rightarrow> u8)" where
  "copied s d n mem = (\<lambda>a. if d \<le> a \<and> a < d + n then mem (s + (a - d)) else mem a)"

lemma in_mem_small [simp]: "a < 2 ^ 20 \<Longrightarrow> in_mem a = a"
  by (simp add: in_mem_def)

lemma copied_nothing: "copied s d 0 mem = mem"
  by (auto simp: copied_def fun_eq_iff)

lemma copied_step:
  assumes "apart s d n" "k + j \<le> n" "\<And>a. m a = copied s d k mem a"
    and "\<And>a. m' a = (if d + k \<le> a \<and> a < d + k + j then m (s + (a - d)) else m a)"
  shows "m' = copied s d (k + j) mem"
  using assms by (auto simp: fun_eq_iff copied_def apart_def)

lemma fold_bytes:
  assumes "apart s d n" "k \<le> n"
  shows "fold (\<lambda>i. move_byte (s + i) (d + i)) [0..<k] mem = copied s d k mem"
  using assms(2)
proof (induction k)
  case (Suc k)
  have "s + k < 2 ^ 20" "d + k < 2 ^ 20" using assms(1) Suc.prems by (auto simp: apart_def)
  then have "move_byte (s + k) (d + k) (copied s d k mem) = copied s d (k + 1) mem"
    using Suc.prems by (intro copied_step [OF assms(1)]) (auto simp: move_byte_def)
  then show ?case using Suc by simp
qed (simp add: copied_nothing)

lemma fold_words:
  assumes "apart s d n" "2 * k \<le> n"
  shows "fold (\<lambda>i. move_word (s + 2 * i) (d + 2 * i)) [0..<k] mem = copied s d (2 * k) mem"
  using assms(2)
proof (induction k)
  case (Suc k)
  have "s + 2 * k + 1 < 2 ^ 20" "d + 2 * k + 1 < 2 ^ 20" using assms(1) Suc.prems by (auto simp: apart_def)
  then have "move_word (s + 2 * k) (d + 2 * k) (copied s d (2 * k) mem) = copied s d (2 * k + 2) mem"
    using Suc.prems by (intro copied_step [OF assms(1)]) (auto simp: move_word_def)
  then show ?case using Suc by simp
qed (simp add: copied_nothing)

lemma copy_chunk_apart: "apart s d n \<Longrightarrow> copy_chunk s d n mem = copied s d n mem"
  by (auto simp: copy_chunk_def fold_bytes [of s d n n] fold_words [of s d n "n div 2"])

lemma copy_chunks_apart: "apart s d n \<Longrightarrow> copy_chunks s d n mem = copied s d n mem"
proof (induction s d n mem rule: copy_chunks.induct)
  case (1 s d n mem)
  show ?case
  proof (cases "n < 32768")
    case True
    then show ?thesis using copy_chunk_apart [OF "1.prems"] by (simp add: copy_chunks.simps)
  next
    case False
    have a: "apart s d 32768" "apart (s + 32768) (d + 32768) (n - 32768)"
      using "1.prems" False by (auto simp: apart_def)
    have "copied (s + 32768) (d + 32768) (n - 32768) (copied s d 32768 mem) = copied s d n mem"
      using "1.prems" False by (auto simp: copied_def apart_def fun_eq_iff)
    then show ?thesis
      using False "1.IH" [OF False a(2)] copy_chunk_apart [OF a(1)] by (subst copy_chunks.simps) simp
  qed
qed

lemma phys_copy_apart:
  "apart (unat s) (unat d) (unat n) \<Longrightarrow> memory (phys_copy s d n k) = copied (unat s) (unat d) (unat n) (memory k)"
  by (simp add: phys_copy_def copy_chunks_apart)

lemma phys_copy_sel [simp]:
  "procs (phys_copy s d n k) = procs k" "addr_m (phys_copy s d n k) = addr_m k"
  "rdy_head (phys_copy s d n k) = rdy_head k" "rdy_tail (phys_copy s d n k) = rdy_tail k"
  by (simp_all add: phys_copy_def)

end
