(* ===== verification/KSystem.thy ===== *)
theory KSystem
  imports KCopy
begin

text \<open>
  The system task, \<^verbatim>\<open>kernel/system.c\<close>, with \<^verbatim>\<open>set_name\<close> of \<^verbatim>\<open>kernel/dmp.c\<close> and \<^verbatim>\<open>build_sig\<close> of
  \<^verbatim>\<open>kernel/klib88.asm\<close>.  A handler maps the request and the state to a result, the message as it
  goes back, and the new state; \<open>None\<close> is a panic.  The process table and the statics of the kernel
  are record fields, not bytes of \<open>memory\<close>: what the code copies into \<^verbatim>\<open>rp->p_map\<close> or \<^verbatim>\<open>vargv\<close> is read from
  memory and assigned.  \<open>sys_env\<close> has the link-time addresses of these objects, which \<^verbatim>\<open>umap\<close> is asked about.
\<close>

section \<open>State and environment\<close>

record sys_env =
  at_p_map :: "pnr \<Rightarrow> u16"
  at_sig_stuff :: u16

record ksys =
  kn :: kernel
  aout :: "pnr \<Rightarrow> u32"

abbreviation (input) "D_SPACE \<equiv> SEG_D"
abbreviation (input) "SIG_PUSH_BYTES \<equiv> (8::u16)"

definition on_kn :: "(kernel \<Rightarrow> kernel) \<Rightarrow> ksys \<Rightarrow> ksys" where
  "on_kn f s = s\<lparr>kn := f (kn s)\<rparr>"

lemma on_kn_sel [simp]: "kn (on_kn f s) = f (kn s)" "aout (on_kn f s) = aout s"
  by (simp_all add: on_kn_def)

definition bad_user :: "int \<Rightarrow> bool" where
  "bad_user n \<longleftrightarrow> n < 0 \<or> n \<ge> NR_PROCS"

definition mem16 :: "kernel \<Rightarrow> u32 \<Rightarrow> u16" where
  "mem16 k a = word_of_nat (unat (memory k (in_mem (unat a))) + 256 * unat (memory k (in_mem (unat a + 1))))"

section \<open>FORK, NEWMAP, EXEC\<close>

definition do_fork_sys :: "kmess \<Rightarrow> ksys \<Rightarrow> int \<times> ksys" where
  "do_fork_sys m s =
     (let k1 = m1_i1 m; k2 = m1_i2 m; pid = m1_i3 m
      in if bad_user k1 \<or> bad_user k2 then (E_BAD_PROC, s)
         else
           (let s1 = on_kn (set_proc k2 (\<lambda>_. procs (kn s) k1)) s
            in (OK, on_kn (set_proc k2 (\<lambda>p. p\<lparr>p_flags := set_flag (p_flags p) NO_MAP, p_pid := pid,
                    p_reg := (p_reg p)(RET_REG := 0), user_time := 0, sys_time := 0, child_utime := 0,
                    child_stime := 0\<rparr>)) s1)))"

text \<open>A memory map as it lies in memory: three segments of three words.\<close>

definition map_at :: "kernel \<Rightarrow> u32 \<Rightarrow> nat \<Rightarrow> mem_map" where
  "map_at k a i = \<lparr>mem_vir = mem16 k (a + 6 * word_of_nat i), mem_phys = mem16 k (a + 6 * word_of_nat i + 2),
                   mem_len = mem16 k (a + 6 * word_of_nat i + 4)\<rparr>"

definition load_map :: "(nat \<Rightarrow> mem_map) \<Rightarrow> kproc \<Rightarrow> kproc" where
  "load_map new p =
     (let p1 = p\<lparr>p_map := (\<lambda>i. if i < 3 then new i else p_map p i)\<rparr>
      in p1\<lparr>p_reg := (p_reg p1)(CS_REG := mem_phys (p_map p1 SEG_T), DS_REG := mem_phys (p_map p1 SEG_D),
               SS_REG := mem_phys (p_map p1 SEG_D), ES_REG := mem_phys (p_map p1 SEG_D))\<rparr>)"

definition do_newmap :: "sys_env \<Rightarrow> kmess \<Rightarrow> ksys \<Rightarrow> (int \<times> ksys) option" where
  "do_newmap e m s =
     (let caller = m_source m; k = m1_i1 m; vn = 18
      in if k < - NR_TASKS \<or> k \<ge> NR_PROCS then Some (E_BAD_PROC, s)
         else
           (let src_phys = umap (procs (kn s) caller) SEG_D (m1_p1 m) vn;
                dst_phys = umap (procs (kn s) SYSTASK) SEG_D (at_p_map e k) vn
            in if src_phys = 0 \<or> dst_phys = 0 then None \<comment> \<open>panic: bad call to sys_newmap\<close>
               else
                 (let s1 = on_kn (set_proc k (load_map (map_at (kn s) src_phys))) s;
                      old_flags = p_flags (procs (kn s1) k);
                      s2 = on_kn (set_proc k (\<lambda>p. p\<lparr>p_flags := clr_flag (p_flags p) NO_MAP\<rparr>)) s1
                  in Some (OK, if old_flags \<noteq> 0 \<and> p_flags (procs (kn s2) k) = 0 then on_kn (ready k) s2 else s2))))"

text \<open>\<^verbatim>\<open>set_name\<close>: remember where the name of the program is, for the dump of the process table.\<close>

definition set_name :: "int \<Rightarrow> u16 \<Rightarrow> ksys \<Rightarrow> ksys" where
  "set_name proc_nr ptr s =
     (if ptr = 0 then s\<lparr>aout := (aout s)(proc_nr := 0)\<rparr>
      else
        (let src = umap (procs (kn s) proc_nr) SEG_D (ptr + 2) 2
         in if src = 0 then s
            else s\<lparr>aout := (aout s)(proc_nr := umap (procs (kn s) proc_nr) SEG_D (mem16 (kn s) src) 20)\<rparr>))"

definition do_exec_sys :: "kmess \<Rightarrow> ksys \<Rightarrow> int \<times> ksys" where
  "do_exec_sys m s =
     (let k = m1_i1 m; sp = m1_p1 m
      in if bad_user k then (E_BAD_PROC, s)
         else
           (let s1 = on_kn (set_proc k (\<lambda>p. p\<lparr>p_sp := sp, p_pcpsw := (p_pcpsw p)\<lparr>pc := 0\<rparr>, p_alarm := 0,
                       p_flags := clr_flag (p_flags p) RECEIVING\<rparr>)) s;
                s2 = (if p_flags (procs (kn s1) k) = 0 then on_kn (ready k) s1 else s1)
            in (OK, set_name k sp s2)))"

section \<open>XIT\<close>

text \<open>
  The search for the exiting process \<open>rc\<close> in the callers' queue that starts at \<open>np\<close>: the slot before
  it, if there is one.  It is the loop of \<open>find_before\<close> in \<^verbatim>\<open>unready\<close>.
\<close>

definition unlink_from :: "pnr \<Rightarrow> pnr \<Rightarrow> kernel \<Rightarrow> (bool \<times> kernel) option" where
  "unlink_from rc rp k =
     (case p_callerq (procs k rp) of
        None \<Rightarrow> Some (False, k)
      | Some h \<Rightarrow>
          if h = rc then Some (True, set_proc rp (\<lambda>p. p\<lparr>p_callerq := p_sendlink (procs k rc)\<rparr>) k)
          else do {
            found \<leftarrow> find_before (sendlink k) rc h;
            Some (False, case found of
                None \<Rightarrow> k
              | Some np \<Rightarrow> set_proc np (\<lambda>p. p\<lparr>p_sendlink := p_sendlink (procs k rc)\<rparr>) k)
          })"

fun unlink_sender :: "pnr \<Rightarrow> pnr list \<Rightarrow> kernel \<Rightarrow> kernel option" where
  "unlink_sender rc [] k = Some k"
| "unlink_sender rc (rp # rps) k = do {
     (front, k1) \<leftarrow> unlink_from rc rp k;
     (if front then Some k1 else unlink_sender rc rps k1)
   }"

definition do_xit :: "kmess \<Rightarrow> ksys \<Rightarrow> (int \<times> ksys) option" where
  "do_xit m s =
     (let parent = m1_i1 m; proc_nr = m1_i2 m
      in if bad_user parent \<or> bad_user proc_nr then Some (E_BAD_PROC, s)
         else do {
           let rc = procs (kn s) proc_nr;
           let k1 = set_proc parent (\<lambda>p. p\<lparr>child_utime := long_of (child_utime p + (user_time rc + child_utime rc))\<rparr>) (kn s);
           let rc1 = procs k1 proc_nr;
           let k2 = set_proc parent (\<lambda>p. p\<lparr>child_stime := long_of (child_stime p + (sys_time rc1 + child_stime rc1))\<rparr>) k1;
           k3 \<leftarrow> unready proc_nr k2;
           let s1 = set_name proc_nr 0 (s\<lparr>kn := set_proc proc_nr (\<lambda>p. p\<lparr>p_alarm := 0\<rparr>) k3\<rparr>);
           k4 \<leftarrow> (if has_flag (p_flags (procs (kn s1) proc_nr)) SENDING
                  then unlink_sender proc_nr [- NR_TASKS..NR_PROCS - 1] (kn s1)
                  else Some (kn s1));
           Some (OK, s1\<lparr>kn := set_proc proc_nr (\<lambda>p. p\<lparr>p_flags := P_SLOT_FREE\<rparr>) k4\<rparr>)
         })"

section \<open>GETSP, TIMES, SIG, COPY\<close>

definition do_getsp :: "kmess \<Rightarrow> ksys \<Rightarrow> int \<times> kmess" where
  "do_getsp m s =
     (if bad_user (m1_i1 m) then (E_BAD_PROC, m) else (OK, m\<lparr>m1_p1 := p_sp (procs (kn s) (m1_i1 m))\<rparr>))"

definition do_times_sys :: "kmess \<Rightarrow> ksys \<Rightarrow> int \<times> kmess" where
  "do_times_sys m s =
     (if bad_user (m1_i1 m) then (E_BAD_PROC, m)
      else (let rp = procs (kn s) (m1_i1 m)
            in (OK, m\<lparr>m4_l1 := user_time rp, m4_l2 := sys_time rp, m4_l3 := child_utime rp,
                      m4_l4 := child_stime rp\<rparr>)))"

definition build_sig :: "kproc \<Rightarrow> int \<Rightarrow> u16 list" where
  "build_sig rp sig = [word_of_int sig, pc (p_pcpsw rp), p_reg rp CS_REG, psw (p_pcpsw rp)]"

definition push_words :: "u32 \<Rightarrow> u16 list \<Rightarrow> kernel \<Rightarrow> kernel" where
  "push_words dst ws k =
     k\<lparr>memory := fold (\<lambda>(i, w) m. m(in_mem (unat dst + 2 * i) := ucast w,
                                  in_mem (unat dst + 2 * i + 1) := ucast (drop_bit 8 w)))
                   (enumerate 0 ws) (memory k)\<rparr>"

definition do_sig :: "kmess \<Rightarrow> ksys \<Rightarrow> (int \<times> ksys) option" where
  "do_sig m s =
     (let proc_nr = m6_i1 m; sig = m6_i2 m; sig_handler = m6_f1 m
      in if proc_nr < LOW_USER \<or> proc_nr \<ge> NR_PROCS then Some (E_BAD_PROC, s)
         else
           (let rp = procs (kn s) proc_nr;
                new_sp = p_sp rp - SIG_PUSH_BYTES;
                dst_phys = umap rp SEG_S new_sp SIG_PUSH_BYTES
            in if dst_phys = 0 then None \<comment> \<open>panic: do_sig can't signal; SP bad\<close>
               else
                 (let s1 = on_kn (push_words dst_phys (build_sig rp sig)) s
                  in Some (OK, on_kn (set_proc proc_nr (\<lambda>p. p\<lparr>p_sp := new_sp,
                          p_pcpsw := (p_pcpsw p)\<lparr>pc := sig_handler\<rparr>\<rparr>)) s1))))"

text \<open>The segment numbers in the message are characters; everything but \<open>T\<close> means \<open>D\<close> or \<open>S\<close>.\<close>

definition copy_address :: "kernel \<Rightarrow> int \<Rightarrow> int \<Rightarrow> int \<Rightarrow> int \<Rightarrow> u32" where
  "copy_address k nr space buffer bytes =
     (if nr = ABS then word_of_int buffer
      else umap (procs k nr) (if space = 0 then SEG_T else SEG_D) (word_of_int buffer) (word_of_int bytes))"

definition do_copy :: "kmess \<Rightarrow> ksys \<Rightarrow> int \<times> ksys" where
  "do_copy m s =
     (let src_phys = copy_address (kn s) (m5_i1 m) (m5_c1 m) (m5_l1 m) (m5_l3 m);
          dst_phys = copy_address (kn s) (m5_i2 m) (m5_c2 m) (m5_l2 m) (m5_l3 m)
      in if src_phys = 0 \<or> dst_phys = 0 then (EFAULT, s)
         else (OK, on_kn (phys_copy src_phys dst_phys (word_of_int (m5_l3 m))) s))"

section \<open>The task\<close>

text \<open>One turn of \<^verbatim>\<open>sys_task\<close>: the reply that goes to \<^verbatim>\<open>m_source\<close>, and the state.\<close>

definition sys_task :: "sys_env \<Rightarrow> kmess \<Rightarrow> ksys \<Rightarrow> (kmess \<times> ksys) option" where
  "sys_task e m s = do {
     (r, m1, s1) \<leftarrow>
       (if m_type m = 4 then Some (let (r, s1) = do_fork_sys m s in (r, m, s1))
        else if m_type m = 5 then do { (r, s1) \<leftarrow> do_newmap e m s; Some (r, m, s1) }
        else if m_type m = 7 then Some (let (r, s1) = do_exec_sys m s in (r, m, s1))
        else if m_type m = 1 then do { (r, s1) \<leftarrow> do_xit m s; Some (r, m, s1) }
        else if m_type m = 2 then Some (let (r, m1) = do_getsp m s in (r, m1, s))
        else if m_type m = 8 then Some (let (r, m1) = do_times_sys m s in (r, m1, s))
        else if m_type m = 9 then None \<comment> \<open>\<^verbatim>\<open>do_abort\<close>: panic\<close>
        else if m_type m = 3 then do { (r, s1) \<leftarrow> do_sig m s; Some (r, m, s1) }
        else if m_type m = 6 then Some (let (r, s1) = do_copy m s in (r, m, s1))
        else Some (E_BAD_FCN, m, s));
     Some (m1\<lparr>m_type := r\<rparr>, s1)
   }"

section \<open>Signals of tasks\<close>

definition cause_sig :: "int \<Rightarrow> nat \<Rightarrow> kernel \<Rightarrow> kernel option" where
  "cause_sig proc_nr sig_nr k =
     (let k1 = (if p_pending (procs k proc_nr) = 0 then k\<lparr>sig_procs := sig_procs k + 1\<rparr> else k)
      in inform MM_PROC_NR (set_proc proc_nr (\<lambda>p. p\<lparr>p_pending := set_flag (p_pending p) (push_bit (sig_nr - 1) 1)\<rparr>) k1))"

end
