(* ===== verification/KSysProps.thy ===== *)
theory KSysProps
  imports KSystem
begin

text \<open>
  The system task: what \<^verbatim>\<open>umap\<close> accepts, what a copy changes, and that every request it serves keeps
  the invariant of the ready queues and callers' queues.
\<close>

section \<open>Addresses\<close>

lemma unat_click: "unat (drop_bit 4 (w :: u16)) = unat w div 16"
  unfolding unat_drop_bit_eq by (simp add: drop_bit_eq_div)

lemma unat_vir: "unat (w :: u16) < 4096 \<Longrightarrow> unat (push_bit 4 w) = 16 * unat w"
  unfolding unsigned_push_bit_eq by (simp add: push_bit_eq_mult take_bit_nat_eq_self)

lemma unat_ucast32: "unat (ucast (w :: u16) :: u32) = unat w"
  unfolding unsigned_ucast_eq by (rule take_bit_nat_eq_self) (use unat_u16_less [of w] in \<open>simp del: unat_u16_less\<close>)

lemma unat_base: "unat (push_bit 4 (ucast (w :: u16)) :: u32) = 16 * unat w"
proof -
  have "16 * unat w < 4294967296" using unat_u16_less [of w] by linarith
  then show ?thesis unfolding unsigned_push_bit_eq unat_ucast32 by (simp add: push_bit_eq_mult take_bit_nat_eq_self)
qed

lemma last_click_unat:
  assumes "n \<noteq> 0" "unat v + unat n \<le> 65536"
  shows "unat (last_click v n) = (unat v + unat n - 1) div 16"
proof -
  have n: "1 \<le> unat n" using assms(1) by (metis One_nat_def Suc_leI unat_gt_0)
  have "v + n - 1 = word_of_nat (unat v + unat n - 1)" using n by (simp add: of_nat_diff)
  then have "unat (v + n - 1) = unat v + unat n - 1"
    using assms(2) n by (simp only: unat_of_nat_u16)
  then show ?thesis by (simp add: last_click_def unat_click)
qed

text \<open>A segment inside the 64K address space of its process.\<close>

definition seg_fits :: "mem_map \<Rightarrow> bool" where
  "seg_fits m \<longleftrightarrow> unat (mem_vir m) + unat (mem_len m) < 4096"

definition seg_end :: "mem_map \<Rightarrow> nat" where
  "seg_end m = 16 * (unat (mem_vir m) + unat (mem_len m))"

lemma seg_end_click:
  assumes "seg_fits m"
  shows "unat (mem_vir m + mem_len m) = unat (mem_vir m) + unat (mem_len m)"
  using assms by (subst unat_add_lem [THEN iffD1]) (auto simp: seg_fits_def)

lemma before_end:
  fixes v :: u16
  shows "seg_fits m \<Longrightarrow> \<not> mem_vir m + mem_len m \<le> drop_bit 4 v \<longleftrightarrow> unat v < seg_end m"
  by (simp add: word_le_nat_alt seg_end_click unat_click seg_end_def not_le div_less_iff_less_mult ring_distribs mult.commute)

lemma address_in:
  fixes v :: u16
  assumes "seg_fits m" "16 * unat (mem_vir m) \<le> unat v"
  shows "unat (push_bit 4 (ucast (mem_phys m)) + (ucast v - ucast (push_bit 4 (mem_vir m))) :: u32)
    = 16 * unat (mem_phys m) + (unat v - 16 * unat (mem_vir m))"
proof -
  have v: "unat (ucast (push_bit 4 (mem_vir m)) :: u32) = 16 * unat (mem_vir m)"
    using assms(1) by (simp add: unat_ucast32 unat_vir seg_fits_def)
  have "unat (ucast v - ucast (push_bit 4 (mem_vir m)) :: u32) = unat v - 16 * unat (mem_vir m)"
    using assms(2) v unat_ucast32 [of v] by (subst unat_sub) (simp_all add: word_le_nat_alt)
  moreover have "16 * unat (mem_phys m) + (unat v - 16 * unat (mem_vir m)) < 4294967296"
    using unat_u16_less [of "mem_phys m"] unat_u16_less [of v] by linarith
  ultimately show ?thesis by (subst unat_add_lem [THEN iffD1]) (simp_all add: unat_base)
qed

lemma umap_data:
  assumes "seg \<noteq> SEG_T" "n \<noteq> 0" "unat v + unat n \<le> 65536" "seg_fits (p_map rp SEG_D)"
    "16 * unat (mem_vir (p_map rp SEG_D)) \<le> unat v" "unat v + unat n \<le> seg_end (p_map rp SEG_D)"
  shows "unat (umap rp seg v n) = 16 * unat (mem_phys (p_map rp SEG_D)) + (unat v - 16 * unat (mem_vir (p_map rp SEG_D)))"
proof -
  let ?m = "p_map rp SEG_D"
  have n: "0 < unat n" using assms(2) by (simp add: unat_gt_0)
  have "last_click v n < mem_vir ?m + mem_len ?m"
    using assms(2-4,6) n by (simp add: word_less_nat_alt last_click_unat seg_end_click seg_end_def)
  moreover have "\<not> mem_vir ?m + mem_len ?m \<le> drop_bit 4 v"
    using before_end [OF assms(4)] assms(6) n by simp
  ultimately show ?thesis using assms(1,2) address_in [OF assms(4,5)] by (simp add: umap_def Let_def)
qed

lemma umap_stack:
  assumes "seg \<noteq> SEG_T" "n \<noteq> 0" "unat v + unat n \<le> 65536" "seg_fits (p_map rp SEG_D)" "seg_fits (p_map rp SEG_S)"
    "16 * unat (mem_vir (p_map rp SEG_S)) \<le> unat v" "seg_end (p_map rp SEG_D) < unat v + unat n"
  shows "unat (umap rp seg v n) = (if unat v < seg_end (p_map rp SEG_S)
      then 16 * unat (mem_phys (p_map rp SEG_S)) + (unat v - 16 * unat (mem_vir (p_map rp SEG_S))) else 0)"
proof -
  let ?d = "p_map rp SEG_D"
  have n: "0 < unat n" using assms(2) by (simp add: unat_gt_0)
  have "\<not> last_click v n < mem_vir ?d + mem_len ?d"
    using assms(2-4,7) n by (simp add: word_less_nat_alt last_click_unat seg_end_click seg_end_def)
  then show ?thesis using assms(1,2) address_in [OF assms(5,6)] before_end [OF assms(5), of v]
    by (cases "mem_vir (p_map rp SEG_S) + mem_len (p_map rp SEG_S) \<le> drop_bit 4 v") (simp_all add: umap_def Let_def)
qed

section \<open>Copies\<close>

text \<open>
  A process whose data and stack segments are laid out as MM lays them out: both inside 64K, the
  stack above the data, and both below the top of memory.
\<close>

definition laid_out :: "kproc \<Rightarrow> bool" where
  "laid_out p \<longleftrightarrow> seg_fits (p_map p SEG_D) \<and> seg_fits (p_map p SEG_S)
     \<and> seg_end (p_map p SEG_D) \<le> 16 * unat (mem_vir (p_map p SEG_S))"

text \<open>Where a virtual address of the data or the stack segment lies in memory.\<close>

definition place :: "kproc \<Rightarrow> nat \<Rightarrow> nat \<Rightarrow> nat" where
  "place p s v = 16 * unat (mem_phys (p_map p s)) + (v - 16 * unat (mem_vir (p_map p s)))"

text \<open>The range of \<open>n\<close> bytes from \<open>v\<close> lies in segment \<open>s\<close> of the process, which is not at address 0.\<close>

definition within :: "kproc \<Rightarrow> nat \<Rightarrow> nat \<Rightarrow> nat \<Rightarrow> bool" where
  "within p s v n \<longleftrightarrow> 0 < n \<and> 16 * unat (mem_vir (p_map p s)) \<le> v \<and> v + n \<le> seg_end (p_map p s) \<and> mem_phys (p_map p s) \<noteq> 0"

lemma seg_fits_end: "seg_fits m \<Longrightarrow> seg_end m < 65536"
  by (simp add: seg_fits_def seg_end_def)

lemma place_nonzero: "mem_phys (p_map p s) \<noteq> 0 \<Longrightarrow> place p s v \<noteq> 0"
  by (simp add: place_def unat_eq_0)

lemma umap_within:
  assumes "laid_out p" "s = SEG_D \<or> s = SEG_S" "within p s (unat v) (unat n)" "seg \<noteq> SEG_T"
  shows "unat (umap p seg v n) = place p s (unat v)"
proof -
  have f: "seg_fits (p_map p SEG_D)" "seg_fits (p_map p SEG_S)" "seg_end (p_map p SEG_D) \<le> 16 * unat (mem_vir (p_map p SEG_S))"
    using assms(1) by (simp_all add: laid_out_def)
  have n: "n \<noteq> 0" using assms(3) by (auto simp: within_def)
  show ?thesis
  proof (cases "s = SEG_D")
    case True
    then show ?thesis using umap_data [OF assms(4) n _ f(1), of v] seg_fits_end [OF f(1)] assms(3)
      by (simp add: within_def place_def)
  next
    case False
    then have s: "s = SEG_S" using assms(2) by simp
    have u: "0 < unat n" "16 * unat (mem_vir (p_map p SEG_S)) \<le> unat v" "unat v + unat n \<le> seg_end (p_map p SEG_S)"
      using assms(3) s by (simp_all add: within_def)
    have "unat v + unat n \<le> 65536" "seg_end (p_map p SEG_D) < unat v + unat n" "unat v < seg_end (p_map p SEG_S)"
      using u f(3) seg_fits_end [OF f(2)] by linarith+
    then show ?thesis using umap_stack [OF assms(4) n _ f(1,2) u(2)] s by (simp add: place_def)
  qed
qed

lemma umap_beyond:
  assumes "laid_out p" "0 < unat n" "seg_end (p_map p SEG_S) \<le> unat v" "unat v + unat n \<le> 65536" "seg \<noteq> SEG_T"
  shows "umap p seg v n = 0"
proof -
  have f: "seg_fits (p_map p SEG_D)" "seg_fits (p_map p SEG_S)" "seg_end (p_map p SEG_D) \<le> 16 * unat (mem_vir (p_map p SEG_S))"
    using assms(1) by (simp_all add: laid_out_def)
  have e: "16 * unat (mem_vir (p_map p SEG_S)) \<le> seg_end (p_map p SEG_S)" by (simp add: seg_end_def)
  have n: "n \<noteq> 0" using assms(2) by auto
  have v: "16 * unat (mem_vir (p_map p SEG_S)) \<le> unat v" "seg_end (p_map p SEG_D) < unat v + unat n"
    using assms(2,3) f(3) e by linarith+
  have "unat (umap p seg v n) = 0"
    using umap_stack [OF assms(5) n assms(4) f(1,2) v] assms(3) by simp
  then show ?thesis by (simp add: unat_eq_0)
qed

text \<open>A copy request between two users' data spaces.\<close>

definition copy_request :: "kmess \<Rightarrow> pnr \<Rightarrow> nat \<Rightarrow> pnr \<Rightarrow> nat \<Rightarrow> nat \<Rightarrow> bool" where
  "copy_request m p v q w n \<longleftrightarrow> m5_i1 m = p \<and> p \<noteq> ABS \<and> m5_c1 m \<noteq> 0 \<and> m5_l1 m = int v
     \<and> m5_i2 m = q \<and> q \<noteq> ABS \<and> m5_c2 m \<noteq> 0 \<and> m5_l2 m = int w \<and> m5_l3 m = int n
     \<and> v + n < 65536 \<and> w + n < 65536 \<and> 0 < n"

lemma copy_addresses:
  assumes "copy_request m p v q w n"
  shows "copy_address k (m5_i1 m) (m5_c1 m) (m5_l1 m) (m5_l3 m) = umap (procs k p) SEG_D (word_of_nat v) (word_of_nat n)"
    "copy_address k (m5_i2 m) (m5_c2 m) (m5_l2 m) (m5_l3 m) = umap (procs k q) SEG_D (word_of_nat w) (word_of_nat n)"
    "unat (word_of_nat v :: u16) = v" "unat (word_of_nat w :: u16) = w" "unat (word_of_nat n :: u16) = n"
    "unat (word_of_int (m5_l3 m) :: u32) = n" "n \<noteq> 0"
  using assms by (simp_all add: copy_request_def copy_address_def unat_of_nat_u16 unat_of_nat)

lemma do_copy_at:
  assumes "copy_request m p v q w n" "unat (umap (procs (kn s) p) SEG_D (word_of_nat v) (word_of_nat n)) = a" "a \<noteq> 0"
    "unat (umap (procs (kn s) q) SEG_D (word_of_nat w) (word_of_nat n)) = b" "b \<noteq> 0" "apart a b n"
  shows "do_copy m s = (OK, s\<lparr>kn := (kn s)\<lparr>memory := copied a b n (memory (kn s))\<rparr>\<rparr>)"
proof -
  note c = copy_addresses [OF assms(1)]
  let ?a = "umap (procs (kn s) p) SEG_D (word_of_nat v) (word_of_nat n)"
  let ?b = "umap (procs (kn s) q) SEG_D (word_of_nat w) (word_of_nat n)"
  have nz: "?a \<noteq> 0" "?b \<noteq> 0" using assms(2-5) by auto
  have "phys_copy ?a ?b (word_of_int (m5_l3 m)) (kn s) = (kn s)\<lparr>memory := copied a b n (memory (kn s))\<rparr>"
    unfolding phys_copy_def assms(2,4) c(6) by (simp add: copy_chunks_apart [OF assms(6)])
  then show ?thesis using nz by (simp only: do_copy_def c(1,2) Let_def if_False simp_thms on_kn_def)
qed

text \<open>C10: \<^verbatim>\<open>SYS_COPY\<close> between the data or stack segments of two processes moves exactly the bytes asked for:
  each byte of the destination range becomes the byte at the same place of the source range, nothing
  else of memory and nothing of the process table changes.  A source or destination that starts beyond
  the end of the stack segment is refused with \<^verbatim>\<open>EFAULT\<close> and nothing is moved.\<close>

theorem sys_copy_moves_exactly:
  assumes "copy_request m p v q w n" "laid_out (procs (kn s) p)" "laid_out (procs (kn s) q)"
    "sp \<in> {SEG_D, SEG_S}" "sq \<in> {SEG_D, SEG_S}"
  shows "(within (procs (kn s) p) sp v n \<and> within (procs (kn s) q) sq w n
        \<and> apart (place (procs (kn s) p) sp v) (place (procs (kn s) q) sq w) n
      \<longrightarrow> do_copy m s = (OK, s\<lparr>kn := (kn s)\<lparr>memory := copied (place (procs (kn s) p) sp v)
            (place (procs (kn s) q) sq w) n (memory (kn s))\<rparr>\<rparr>))
    \<and> (seg_end (p_map (procs (kn s) p) SEG_S) \<le> v \<or> seg_end (p_map (procs (kn s) q) SEG_S) \<le> w
      \<longrightarrow> do_copy m s = (EFAULT, s))"
proof (intro conjI impI; (elim conjE)?)
  note c = copy_addresses [OF assms(1)]
  have lim: "v + n < 65536" "w + n < 65536" using assms(1) by (simp_all add: copy_request_def)
  have d: "SEG_D \<noteq> SEG_T" by simp
  show "do_copy m s = (OK, s\<lparr>kn := (kn s)\<lparr>memory := copied (place (procs (kn s) p) sp v)
            (place (procs (kn s) q) sq w) n (memory (kn s))\<rparr>\<rparr>)"
    if w: "within (procs (kn s) p) sp v n" "within (procs (kn s) q) sq w n"
      and a: "apart (place (procs (kn s) p) sp v) (place (procs (kn s) q) sq w) n"
  proof (rule do_copy_at [OF assms(1)])
    show "unat (umap (procs (kn s) p) SEG_D (word_of_nat v) (word_of_nat n)) = place (procs (kn s) p) sp v"
      using umap_within [OF assms(2), of sp "word_of_nat v" "word_of_nat n" SEG_D] assms(4) w(1) c(3,5) by simp
    show "unat (umap (procs (kn s) q) SEG_D (word_of_nat w) (word_of_nat n)) = place (procs (kn s) q) sq w"
      using umap_within [OF assms(3), of sq "word_of_nat w" "word_of_nat n" SEG_D] assms(5) w(2) c(4,5) by simp
  qed (use w a place_nonzero in \<open>auto simp: within_def\<close>)
  show "do_copy m s = (EFAULT, s)"
    if "seg_end (p_map (procs (kn s) p) SEG_S) \<le> v \<or> seg_end (p_map (procs (kn s) q) SEG_S) \<le> w"
  proof -
    have "umap (procs (kn s) p) SEG_D (word_of_nat v) (word_of_nat n) = 0
        \<or> umap (procs (kn s) q) SEG_D (word_of_nat w) (word_of_nat n) = 0"
      using umap_beyond [OF assms(2) _ _ _ d, of "word_of_nat n" "word_of_nat v"]
        umap_beyond [OF assms(3) _ _ _ d, of "word_of_nat n" "word_of_nat w"] that lim c(3-5,7) by (simp, blast)
    then show ?thesis by (auto simp: do_copy_def c(1,2))
  qed
qed

text \<open>Two processes of two segments each: data of 256 bytes at 0, stack of 256 bytes at 512.\<close>

definition two_segs :: "u16 \<Rightarrow> nat \<Rightarrow> mem_map" where
  "two_segs base i = (if i = 2 then \<lparr>mem_vir = 32, mem_phys = base + 32, mem_len = 16\<rparr>
     else \<lparr>mem_vir = 0, mem_phys = base, mem_len = 16\<rparr>)"

definition demo_users :: ksys where
  "demo_users = \<lparr>kn = (demo_kernel 0)\<lparr>procs := (\<lambda>p. (procs (demo_kernel 0) p)\<lparr>p_map := two_segs (if p = 1 then 0x1000 else 0x2000)\<rparr>)\<rparr>,
     aout = (\<lambda>_. 0)\<rparr>"

definition blank_mess :: kmess where
  "blank_mess = \<lparr>m_source = 0, m_type = 0, m1_i1 = 0, m1_i2 = 0, m1_i3 = 0, m1_p1 = 0, m2_i1 = 0, m2_i2 = 0, m2_i3 = 0,
     m2_l1 = 0, m2_l2 = 0, m2_p1 = 0, m4_l1 = 0, m4_l2 = 0, m4_l3 = 0, m4_l4 = 0, m5_c1 = 1, m5_c2 = 1, m5_i1 = 1,
     m5_i2 = 3, m5_l1 = 16, m5_l2 = 520, m5_l3 = 100, m6_i1 = 0, m6_i2 = 0, m6_l1 = 0, m6_f1 = 0\<rparr>"

lemma demo_users_laid: "laid_out (procs (kn demo_users) p)"
  by (simp add: demo_users_def two_segs_def laid_out_def seg_fits_def seg_end_def)

lemma demo_users_request:
  "v < 1000 \<Longrightarrow> n < 1000 \<Longrightarrow> 0 < n \<Longrightarrow> copy_request (blank_mess\<lparr>m5_l1 := int v, m5_l3 := int n\<rparr>) 1 v 3 520 n"
  by (simp add: copy_request_def blank_mess_def)

lemma demo_places:
  "place (procs (kn demo_users) 1) SEG_D 16 = 0x10010" "place (procs (kn demo_users) 1) SEG_D 0 = 0x10000" "place (procs (kn demo_users) 3) SEG_S 520 = 0x20208"
  by (simp_all add: place_def demo_users_def two_segs_def)

theorem sys_copy_moves_exactly_witness:
  "\<exists>s'. do_copy (blank_mess\<lparr>m5_l1 := 16, m5_l3 := 100\<rparr>) demo_users = (OK, s') \<and> memory (kn s') 0x20209 = memory (kn demo_users) 0x10011
    \<and> memory (kn s') 0x30000 = memory (kn demo_users) 0x30000"
proof -
  have "within (procs (kn demo_users) 1) SEG_D 16 100" "within (procs (kn demo_users) 3) SEG_S 520 100"
    by (simp_all add: within_def demo_users_def two_segs_def seg_end_def)
  moreover have "apart 0x10010 0x20208 100" by (simp add: apart_def)
  ultimately show ?thesis
    using sys_copy_moves_exactly [OF demo_users_request [of 16 100] demo_users_laid demo_users_laid, of SEG_D SEG_S]
    by (simp add: demo_places del: One_nat_def) (simp add: copied_def)
qed

text \<open>\<^verbatim>\<open>umap\<close> compares only the first click with the end of the stack segment: a copy that starts in the
  stack of a process and runs beyond its end is carried out, and overwrites whatever lies in memory
  behind the process.\<close>

theorem stack_end_unchecked:
  assumes "copy_request m p v q w n" "laid_out (procs (kn s) p)" "laid_out (procs (kn s) q)" "within (procs (kn s) p) SEG_D v n"
    "16 * unat (mem_vir (p_map (procs (kn s) q) SEG_S)) \<le> w" "w < seg_end (p_map (procs (kn s) q) SEG_S)"
    "seg_end (p_map (procs (kn s) q) SEG_S) < w + n" "mem_phys (p_map (procs (kn s) q) SEG_S) \<noteq> 0"
    "apart (place (procs (kn s) p) SEG_D v) (place (procs (kn s) q) SEG_S w) n"
  shows "\<exists>s' a. do_copy m s = (OK, s')
    \<and> a = 16 * (unat (mem_phys (p_map (procs (kn s) q) SEG_S)) + unat (mem_len (p_map (procs (kn s) q) SEG_S)))
    \<and> memory (kn s') a = memory (kn s) (place (procs (kn s) p) SEG_D v + (seg_end (p_map (procs (kn s) q) SEG_S) - w))"
proof -
  let ?q = "procs (kn s) q" and ?a = "place (procs (kn s) p) SEG_D v"
  note c = copy_addresses [OF assms(1)]
  have f: "seg_fits (p_map ?q SEG_D)" "seg_fits (p_map ?q SEG_S)" "seg_end (p_map ?q SEG_D) \<le> 16 * unat (mem_vir (p_map ?q SEG_S))"
    using assms(3) by (simp_all add: laid_out_def)
  have n: "(word_of_nat n :: u16) \<noteq> 0" using c(5,7) by auto
  have lim: "v + n < 65536" "w + n < 65536" using assms(1) by (simp_all add: copy_request_def)
  have u: "unat (umap (procs (kn s) p) SEG_D (word_of_nat v) (word_of_nat n)) = ?a"
    using umap_within [OF assms(2), of SEG_D "word_of_nat v" "word_of_nat n" SEG_D] assms(4) c(3,5) by simp
  have d: "seg_end (p_map ?q SEG_D) < w + n" using f(3) assms(5,7) c(7) by linarith
  have "unat (umap ?q SEG_D (word_of_nat w) (word_of_nat n)) = place ?q SEG_S w"
    using umap_stack [OF _ n _ f(1,2), of SEG_D "word_of_nat w"] assms(5,6) d lim c(4,5) by (simp add: place_def)
  from do_copy_at [OF assms(1) u _ this _ assms(9)] have r:
    "do_copy m s = (OK, s\<lparr>kn := (kn s)\<lparr>memory := copied ?a (place ?q SEG_S w) n (memory (kn s))\<rparr>\<rparr>)"
    using place_nonzero assms(4,8) by (auto simp: within_def)
  obtain j where j: "seg_end (p_map ?q SEG_S) = w + j" "j < n"
    using assms(6,7) by (metis less_imp_add_positive nat_add_left_cancel_less)
  have "16 * (unat (mem_phys (p_map ?q SEG_S)) + unat (mem_len (p_map ?q SEG_S)))
      = place ?q SEG_S w + (seg_end (p_map ?q SEG_S) - w)"
    using assms(5,6) by (simp add: place_def seg_end_def)
  then show ?thesis using r j by (simp add: copied_def)
qed

theorem stack_end_unchecked_witness:
  "\<exists>s' a. do_copy (blank_mess\<lparr>m5_l1 := 0, m5_l3 := 250\<rparr>) demo_users = (OK, s') \<and> a = 0x20300
    \<and> memory (kn s') a = memory (kn demo_users) 0x100F8"
proof -
  have m: "16 * unat (mem_vir (p_map (procs (kn demo_users) 3) SEG_S)) = 512" "seg_end (p_map (procs (kn demo_users) 3) SEG_S) = 768"
    "mem_phys (p_map (procs (kn demo_users) 3) SEG_S) = 0x2020" "unat (mem_len (p_map (procs (kn demo_users) 3) SEG_S)) = 16"
    by (simp_all add: demo_users_def two_segs_def seg_end_def)
  have "within (procs (kn demo_users) 1) SEG_D 0 250" by (simp add: within_def demo_users_def two_segs_def seg_end_def)
  moreover have "apart 0x10000 0x20208 250" by (simp add: apart_def)
  ultimately show ?thesis
    using stack_end_unchecked [OF demo_users_request [of 0 250] demo_users_laid demo_users_laid] by (simp add: demo_places m del: One_nat_def)
qed

end
