(* ===== verification/KPrinter.thy ===== *)
theory KPrinter
  imports KSysProps
begin

text \<open>
  The printer task, \<^verbatim>\<open>kernel/printer.c\<close>.  What the hardware says is the parameter \<open>status\<close>, the value
  that the n-th \<^verbatim>\<open>port_in\<close> of the status port reads; the bytes strobed into the printer are collected in
  \<open>printed\<close>, the replies to FS in \<open>pr_sent\<close>.  Delay loops, the other port output and \<^verbatim>\<open>pr_error\<close>, which
  only prints, are left out; port numbers are not part of the state.
\<close>

section \<open>State\<close>

record pr_env =
  status :: "nat \<Rightarrow> int"
  int_mess_at :: u16

record printer =
  pr_caller :: int
  pr_proc :: int
  orig_count :: int
  pr_es :: u16
  pr_offset :: u16
  pcount :: int
  pr_busy :: bool
  cum_count :: int
  prev_ct :: int
  pr_reads :: nat
  printed :: "u8 list"
  pr_sent :: "(int \<times> int \<times> int \<times> int) list"    \<comment> \<open>destination, type, \<open>REP_PROC_NR\<close>, \<open>REP_STATUS\<close>\<close>

abbreviation (input) "NORMAL_STATUS \<equiv> (0xDF::int)"
abbreviation (input) "BUSY_STATUS \<equiv> (0x5F::int)"
abbreviation (input) "CANCELED \<equiv> (-999::int)"
abbreviation (input) "PRINTER \<equiv> (-8::int)"
abbreviation (input) "MAX_REP \<equiv> (1000::nat)"
abbreviation (input) "TTY_O_DONE \<equiv> (2::int)"
abbreviation (input) "TTY_WRITE \<equiv> (4::int)"

definition pr_reply :: "int \<Rightarrow> int \<Rightarrow> int \<Rightarrow> int \<Rightarrow> printer \<Rightarrow> printer" where
  "pr_reply code replyee process st p = p\<lparr>pr_sent := pr_sent p @ [(replyee, code, process, st)]\<rparr>"

section \<open>The interrupt handler\<close>

text \<open>One character: fetched from the user's buffer and strobed into the printer.\<close>

definition put_char :: "kernel \<Rightarrow> printer \<Rightarrow> printer" where
  "put_char k p = p\<lparr>printed := printed p @ [get_byte (pr_es p) (pr_offset p) k], pr_offset := pr_offset p + 1,
                    pcount := pcount p - 1, cum_count := int_of (cum_count p + 1)\<rparr>"

text \<open>
  The loop of \<^verbatim>\<open>pr_char\<close>, at most \<open>pcount\<close> characters: the result is the status that ended it when the
  printer is neither busy nor ready, \<open>Inl\<close> when the loop has returned because the printer is busy.
\<close>

fun pr_loop :: "pr_env \<Rightarrow> kernel \<Rightarrow> nat \<Rightarrow> printer \<Rightarrow> bool \<times> int \<times> printer" where
  "pr_loop e k 0 p = (False, 0, p)"
| "pr_loop e k (Suc n) p =
     (let value = status e (pr_reads p); p1 = p\<lparr>pr_reads := pr_reads p + 1\<rparr>
      in if value = NORMAL_STATUS then pr_loop e k n (put_char k p1)
         else if value = BUSY_STATUS then (True, value, p1)
         else (False, value, p1))"

text \<open>The message \<^verbatim>\<open>int_mess\<close> to the printer task is built in the kernel's data segment.\<close>

definition done_mess :: "pr_env \<Rightarrow> int \<Rightarrow> kernel \<Rightarrow> kernel" where
  "done_mess e st k =
     (let ds = mem_phys (p_map (procs k HARDWARE) SEG_D)
      in k\<lparr>memory := put16 ds (int_mess_at e + 6) (word_of_int st)
                       (put16 ds (int_mess_at e + 2) (word_of_int TTY_O_DONE) (memory k))\<rparr>)"

definition pr_char :: "pr_env \<Rightarrow> printer \<times> kernel \<Rightarrow> (printer \<times> kernel) option" where
  "pr_char e = (\<lambda>(p, k).
     if \<not> pr_busy p then Some (p, k)
     else
       (let (stopped, value, p1) = pr_loop e k (nat (pcount p)) p
        in if stopped then Some (p1, k)
           else do {
             k2 \<leftarrow> interrupt PRINTER (int_mess_at e) (done_mess e (if pcount p1 = 0 then OK else value) k);
             Some (p1, k2)
           }))"

section \<open>The task\<close>

text \<open>Waiting for the printer to be ready: the last status read, or \<open>BUSY_STATUS\<close> after \<^verbatim>\<open>MAX_REP\<close> trials.\<close>

fun await_printer :: "pr_env \<Rightarrow> nat \<Rightarrow> printer \<Rightarrow> int \<times> printer" where
  "await_printer e 0 p = (BUSY_STATUS, p)"
| "await_printer e (Suc n) p =
     (let value = status e (pr_reads p); p1 = p\<lparr>pr_reads := pr_reads p + 1\<rparr>
      in if value = BUSY_STATUS then await_printer e n p1 else (value, p1))"

text \<open>
  \<open>junk\<close> is the value of the uninitialised local \<^verbatim>\<open>value\<close>, which \<^verbatim>\<open>do_write\<close> compares with
  \<^verbatim>\<open>BUSY_STATUS\<close> even when it has not read the port.
\<close>

definition do_write_pr :: "pr_env \<Rightarrow> int \<Rightarrow> kmess \<Rightarrow> printer \<times> kernel \<Rightarrow> (printer \<times> kernel) option" where
  "do_write_pr e junk m = (\<lambda>(p, k). do {
     let phys = umap (procs k (m2_i2 m)) SEG_D (m2_p1 m) (word_of_int (m2_i3 m));
     let r = (if phys = 0 then E_BAD_ADDR else if m2_i3 m \<le> 0 then EINVAL else if pr_busy p then EAGAIN else OK);
     ((value, r1), p2, k2) \<leftarrow>
       (if r \<noteq> OK then Some ((junk, r), p, k)
        else
          (let p1 = p\<lparr>pr_caller := m_source m, pr_proc := m2_i2 m, pcount := m2_i3 m, orig_count := m2_i3 m,
                      pr_es := ucast (drop_bit CLICK_SHIFT phys), pr_offset := ucast (phys AND 15)\<rparr>;
               (value, p2) = await_printer e MAX_REP p1
           in if value = NORMAL_STATUS
              then do { (p3, k3) \<leftarrow> pr_char e (p2\<lparr>pr_busy := True\<rparr>, k); Some ((value, SUSPEND), p3, k3) }
              else Some ((value, if value = BUSY_STATUS then OK else EIO), p2, k)));
     Some (pr_reply TASK_REPLY (m_source m) (m2_i2 m) (if value = BUSY_STATUS then EAGAIN else r1) p2, k2)
   })"

definition do_done_pr :: "kmess \<Rightarrow> printer \<Rightarrow> printer" where
  "do_done_pr m p =
     (let st = (if m2_i2 m = OK then orig_count p else EIO)
      in (if pr_proc p \<noteq> CANCELED then pr_reply REVIVE (pr_caller p) (pr_proc p) st p else p)\<lparr>pr_busy := False\<rparr>)"

definition do_cancel_pr :: "kmess \<Rightarrow> printer \<Rightarrow> printer" where
  "do_cancel_pr m p =
     (if \<not> pr_busy p then p
      else pr_reply TASK_REPLY (m_source m) (m2_i2 m) EINTR (p\<lparr>pr_busy := False, pcount := 0, pr_proc := CANCELED\<rparr>))"

definition printer_task :: "pr_env \<Rightarrow> int \<Rightarrow> kmess \<Rightarrow> printer \<times> kernel \<Rightarrow> (printer \<times> kernel) option" where
  "printer_task e junk m = (\<lambda>(p, k).
     if m_type m = TTY_WRITE then do_write_pr e junk m (p, k)
     else if m_type m = CANCEL then Some (do_cancel_pr m p, k)
     else if m_type m = TTY_O_DONE then Some (do_done_pr m p, k)
     else Some (p, k))"

section \<open>What is printed\<close>

definition buffer_bytes :: "kernel \<Rightarrow> u16 \<Rightarrow> u16 \<Rightarrow> nat \<Rightarrow> u8 list" where
  "buffer_bytes k sg off n = map (\<lambda>i. get_byte sg (off + word_of_nat i) k) [0..<n]"

text \<open>The number of characters that go before the first status that is not \<^verbatim>\<open>NORMAL_STATUS\<close>.\<close>

fun ready_run :: "(nat \<Rightarrow> int) \<Rightarrow> nat \<Rightarrow> nat \<Rightarrow> nat" where
  "ready_run st r 0 = 0"
| "ready_run st r (Suc n) = (if st r = NORMAL_STATUS then Suc (ready_run st (r + 1) n) else 0)"

lemma ready_run_le: "ready_run st r n \<le> n"
  by (induction n arbitrary: r) auto

lemma buffer_bytes_Suc: "buffer_bytes k sg off (Suc n) = get_byte sg off k # buffer_bytes k sg (off + 1) n"
proof -
  have "map (\<lambda>i. get_byte sg (off + word_of_nat i) k) [Suc 0..<Suc n] = map (\<lambda>i. get_byte sg (off + 1 + word_of_nat i) k) [0..<n]"
    unfolding map_Suc_upt [symmetric] by (simp add: add.assoc)
  then show ?thesis by (simp add: buffer_bytes_def upt_conv_Cons del: upt_Suc)
qed

lemma int_of_mod: "int_of x mod 65536 = x mod 65536"
proof -
  have "take_bit 16 (signed_take_bit 15 x) = take_bit 16 x" by (simp add: take_bit_signed_take_bit)
  then show ?thesis by (simp add: int_of_def sint_sbintrunc' take_bit_eq_mod)
qed

lemma pr_loop_prints:
  assumes "pr_loop e k n p = (stopped, v, p')" "pcount p = int n"
  shows "printed p' = printed p @ buffer_bytes k (pr_es p) (pr_offset p) (ready_run (status e) (pr_reads p) n)
    \<and> pcount p' = int (n - ready_run (status e) (pr_reads p) n)
    \<and> pr_offset p' = pr_offset p + word_of_nat (ready_run (status e) (pr_reads p) n)
    \<and> cum_count p' mod 65536 = (cum_count p + int (ready_run (status e) (pr_reads p) n)) mod 65536
    \<and> pr_es p' = pr_es p \<and> pr_busy p' = pr_busy p \<and> pr_sent p' = pr_sent p
    \<and> (stopped \<longleftrightarrow> ready_run (status e) (pr_reads p) n < n \<and> status e (pr_reads p + ready_run (status e) (pr_reads p) n) = BUSY_STATUS)"
  using assms
proof (induction n arbitrary: p)
  case 0
  then show ?case by (simp add: buffer_bytes_def)
next
  case (Suc n)
  show ?case
  proof (cases "status e (pr_reads p) = NORMAL_STATUS")
    case True
    let ?p = "put_char k (p\<lparr>pr_reads := pr_reads p + 1\<rparr>)"
    have s: "(int_of (cum_count p + 1) + x) mod 65536 = (cum_count p + (x + 1)) mod 65536" for x
    proof -
      have "(int_of (cum_count p + 1) + x) mod 65536 = (int_of (cum_count p + 1) mod 65536 + x) mod 65536" by (rule mod_add_left_eq [symmetric])
      also have "\<dots> = (cum_count p + 1 + x) mod 65536" unfolding int_of_mod by (rule mod_add_left_eq)
      finally show ?thesis by (simp add: add_ac)
    qed
    have "pr_loop e k n ?p = (stopped, v, p')" using Suc.prems(1) True by simp
    from Suc.IH [OF this] Suc.prems(2) s [of "int (ready_run (status e) (Suc (pr_reads p)) n)"] True show ?thesis
      by (simp add: put_char_def buffer_bytes_Suc add_ac)
  next
    case False
    then show ?thesis using Suc.prems by (auto simp: buffer_bytes_def Let_def split: if_splits)
  qed
qed

lemma buffer_bytes_split:
  "m \<le> n \<Longrightarrow> buffer_bytes k sg off m @ buffer_bytes k sg (off + word_of_nat m) (n - m) = buffer_bytes k sg off n"
proof (induction m arbitrary: n off)
  case (Suc m)
  then obtain n' where n: "n = Suc n'" by (cases n) auto
  show ?case using Suc.IH [of n' "off + 1"] Suc.prems by (simp add: n buffer_bytes_Suc add_ac)
qed (simp add: buffer_bytes_def)

text \<open>C13: The printer loses and repeats nothing: at every interrupt, what has gone to the printer followed by
  what is still to go from the user's buffer is the same, while the count falls by the characters that
  went and \<^verbatim>\<open>cum_count\<close>, a 16-bit number that is never reset, rises by them modulo 65536; \<^verbatim>\<open>pr_char\<close> tells the task that it is done exactly when it did not stop at a busy printer.\<close>

theorem printer_loses_nothing:
  assumes "pr_char e (p, k) = Some (p', k')" "pr_busy p" "0 \<le> pcount p"
  shows "printed p' @ buffer_bytes k (pr_es p') (pr_offset p') (nat (pcount p'))
      = printed p @ buffer_bytes k (pr_es p) (pr_offset p) (nat (pcount p))
    \<and> 0 \<le> pcount p' \<and> pcount p' \<le> pcount p \<and> cum_count p' mod 65536 = (cum_count p + (pcount p - pcount p')) mod 65536
    \<and> (if 0 < pcount p' \<and> status e (pr_reads p + nat (pcount p - pcount p')) = BUSY_STATUS then k' = k
       else \<exists>st. interrupt PRINTER (int_mess_at e) (done_mess e st k) = Some k' \<and> (pcount p' = 0 \<longrightarrow> st = OK))"
proof -
  obtain n where n: "pcount p = int n" using assms(3) nonneg_int_cases by blast
  obtain stopped v p1 where l: "pr_loop e k n p = (stopped, v, p1)" by (metis prod_cases3)
  let ?r = "ready_run (status e) (pr_reads p) n"
  have h: "printed p1 = printed p @ buffer_bytes k (pr_es p) (pr_offset p) ?r" "pcount p1 = int (n - ?r)"
    "pr_offset p1 = pr_offset p + word_of_nat ?r" "cum_count p1 mod 65536 = (cum_count p + int ?r) mod 65536" "pr_es p1 = pr_es p"
    "stopped \<longleftrightarrow> ?r < n \<and> status e (pr_reads p + ?r) = BUSY_STATUS"
    using pr_loop_prints [OF l n] by auto
  have le: "?r \<le> n" by (rule ready_run_le)
  have p': "p' = p1" "if stopped then k' = k
      else interrupt PRINTER (int_mess_at e) (done_mess e (if pcount p1 = 0 then OK else v) k) = Some k'"
    using assms(1,2) l n by (auto simp: pr_char_def bind_eq_Some_conv split: if_splits)
  have "printed p' @ buffer_bytes k (pr_es p') (pr_offset p') (nat (pcount p'))
      = printed p @ buffer_bytes k (pr_es p) (pr_offset p) (nat (pcount p))"
    using buffer_bytes_split [OF le] by (simp add: p'(1) h n)
  moreover have "nat (pcount p - pcount p') = ?r" "0 < pcount p' \<longleftrightarrow> ?r < n" using le by (auto simp: p'(1) h n)
  ultimately show ?thesis using le p'(2) h by (auto simp: p'(1) n split: if_splits)
qed

text \<open>The printer takes two characters and is then busy.\<close>

definition demo_printer :: printer where
  "demo_printer = \<lparr>pr_caller = 1, pr_proc = 3, orig_count = 5, pr_es = 0x1000, pr_offset = 2, pcount = 5, pr_busy = True,
     cum_count = 7, prev_ct = 0, pr_reads = 0, printed = [], pr_sent = []\<rparr>"

theorem printer_loses_nothing_witness:
  "\<exists>p'. pr_char \<lparr>status = (\<lambda>i. if i < 2 then 0xDF else 0x5F), int_mess_at = 0\<rparr> (demo_printer, demo_kernel 0) = Some (p', demo_kernel 0)
    \<and> printed p' = [2, 3] \<and> pcount p' = 3 \<and> cum_count p' mod 65536 = 9"
proof -
  let ?e = "\<lparr>status = (\<lambda>i. if i < 2 then 0xDF else 0x5F), int_mess_at = 0\<rparr>"
  have five: "nat (pcount demo_printer) = Suc (Suc (Suc 2))" by (simp add: demo_printer_def)
  obtain p' where l: "pr_loop ?e (demo_kernel 0) (Suc (Suc (Suc 2))) demo_printer = (True, 0x5F, p')"
      "printed p' = [2, 3]" "pcount p' = 3"
    by (simp only: pr_loop.simps) (simp add: demo_printer_def put_char_def get_byte_def phys_of_def Let_def)
  have p': "pr_char ?e (demo_printer, demo_kernel 0) = Some (p', demo_kernel 0)"
    unfolding pr_char_def prod.case five l(1) by (simp add: demo_printer_def)
  have "cum_count p' mod 65536 = (cum_count demo_printer + (pcount demo_printer - pcount p')) mod 65536"
    using printer_loses_nothing [OF p'(1)] by (simp add: demo_printer_def)
  then show ?thesis using p' l(2,3) by (simp add: demo_printer_def)
qed

end
