(* ===== verification/KSysInv.thy ===== *)
theory KSysInv
  imports KSysProps
begin

text \<open>
  Requests to the system task and the queues of the kernel: FORK, NEWMAP, EXEC and XIT change
  process flags and queues, and keep the invariant \<open>kinv\<close>; the others do not touch them.
\<close>

section \<open>Flags and the ready queue\<close>

lemma cong_ready: "krep k rq cq \<Longrightarrow> procs k' = procs k \<Longrightarrow> rdy_head k' = rdy_head k \<Longrightarrow> rdy_tail k' = rdy_tail k \<Longrightarrow> krep k' rq cq"
  using krep_cong [of k' k rq cq] by simp

text \<open>A change of a process that leaves flags and links alone.\<close>

lemma krep_set_proc:
  assumes "krep k rq cq" "p_flags (f (procs k i)) = p_flags (procs k i)" "p_nextready (f (procs k i)) = p_nextready (procs k i)"
    "p_sendlink (f (procs k i)) = p_sendlink (procs k i)" "p_callerq (f (procs k i)) = p_callerq (procs k i)"
  shows "krep (set_proc i f k) rq cq"
  using krep_cong [of "set_proc i f k" k rq cq] assms by auto

lemma kenv_set_proc:
  assumes "kenv k" "i \<noteq> HARDWARE"
    "has_flag (p_flags (f (procs k i))) P_SLOT_FREE = has_flag (p_flags (procs k i)) P_SLOT_FREE \<or> i \<noteq> MM_PROC_NR"
  shows "kenv (set_proc i f k)"
proof -
  have "has_flag (p_flags (procs (set_proc i f k) MM_PROC_NR)) P_SLOT_FREE = has_flag (p_flags (procs k MM_PROC_NR)) P_SLOT_FREE"
    using assms(3) by auto
  then show ?thesis using kenv_cong [of "set_proc i f k" k] assms(1,2) by simp
qed

text \<open>New flags for a blocked process, which becomes ready when they are zero.\<close>

lemma krep_new_flags:
  assumes k: "krep k rq cq" and p: "valid_nr p" "p_flags (procs k p) \<noteq> 0"
    and f: "has_flag f SENDING = has_flag (p_flags (procs k p)) SENDING"
  defines "k2 \<equiv> set_proc p (\<lambda>r. r\<lparr>p_flags := f\<rparr>) k"
  shows "\<exists>rq'. krep (if f = 0 then ready p k2 else k2) rq' cq"
proof -
  define k3 where "k3 = (if f = 0 then ready p k2 else k2)"
  have k2: "k2 = set_proc p (\<lambda>r. r\<lparr>p_flags := f\<rparr>) k" by (simp add: k2_def)
  note u = krep_unblock [OF k p k2 k3_def]
  have "cq_ok k3 cq" using krepD(2) [OF k] cq_ok_cong [of k3 k] by (simp add: k3_def k2_def)
  moreover have "has_flag (p_flags (procs k3 q)) SENDING \<longleftrightarrow> (\<exists>d. q \<in> set (cq d))" if "valid_nr q" for q
    using krepD(4) [OF k that] f by (cases "q = p") (auto simp: k3_def k2_def)
  ultimately have "krep k3 (if f = 0 then a_ready p rq else rq) cq"
    using u(1-4) unfolding krep_def by blast
  then show ?thesis unfolding k3_def by blast
qed

lemma kenv_ready: "kenv (ready p k) = kenv k"
  by (rule kenv_cong) simp_all

lemma exec_newmap_kinv:
  assumes "kinv k" "valid_nr p" "p \<noteq> HARDWARE" "p_flags (procs k p) \<noteq> 0"
    "p_flags (f (procs k p)) = p_flags (procs k p)" "p_nextready (f (procs k p)) = p_nextready (procs k p)"
    "p_sendlink (f (procs k p)) = p_sendlink (procs k p)" "p_callerq (f (procs k p)) = p_callerq (procs k p)"
    and b: "b = NO_MAP \<or> b = RECEIVING"
    and k2: "k2 = set_proc p (\<lambda>r. r\<lparr>p_flags := clr_flag (p_flags r) b\<rparr>) (set_proc p f k)"
  shows "kinv (if p_flags (procs k2 p) = 0 then ready p k2 else k2)"
proof -
  obtain rq cq where k: "krep k rq cq" and e: "kenv k" using assms(1) by (auto simp: kinv_def)
  let ?k1 = "set_proc p f k"
  have k1: "krep ?k1 rq cq" by (rule krep_set_proc [OF k]) (use assms in simp_all)
  define fl where "fl = clr_flag (p_flags (procs k p)) b"
  have eq: "k2 = set_proc p (\<lambda>r. r\<lparr>p_flags := fl\<rparr>) ?k1" using assms(5) by (simp add: k2 set_proc_def fl_def)
  have "b AND SENDING = 0" "b AND P_SLOT_FREE = 0" using b by auto
  then have s: "has_flag fl SENDING = has_flag (p_flags (procs k p)) SENDING"
    "has_flag fl P_SLOT_FREE = has_flag (p_flags (procs k p)) P_SLOT_FREE"
    by (simp_all add: fl_def flag_simps)
  obtain rq' where "krep (if fl = 0 then ready p k2 else k2) rq' cq"
    using krep_new_flags [OF k1 assms(2), of fl] assms(4,5) s(1) unfolding eq by auto
  moreover have "kenv k2" unfolding eq
    by (rule kenv_set_proc [OF kenv_set_proc [OF e assms(3)]]) (use assms(3,5) s(2) in simp_all)
  then have "kenv (if fl = 0 then ready p k2 else k2)" by (simp add: kenv_ready)
  moreover have "p_flags (procs k2 p) = fl" by (simp add: eq)
  ultimately show ?thesis using kinvI by simp
qed

section \<open>FORK\<close>

lemma fork_kinv:
  assumes inv: "kinv k" and v: "valid_nr c" "c \<noteq> HARDWARE" and fr: "p_flags (procs k c) = P_SLOT_FREE" "p_callerq (procs k c) = None"
    and new: "p_flags (f (procs k c)) \<noteq> 0" "\<not> has_flag (p_flags (f (procs k c))) SENDING" "p_callerq (f (procs k c)) = None"
  shows "kinv (set_proc c f k)"
proof -
  obtain rq cq where k: "krep k rq cq" and e: "kenv k" using inv by (auto simp: kinv_def)
  let ?k = "set_proc c f k"
  have nrq: "c \<notin> set (rq q)" if "q < 3" for q
    using krepD(3) [OF k v] fr(1) rq_okD(3) [OF krepD(1) [OF k] that, of c] by auto
  have ncq: "c \<notin> set (cq d)" for d
    using krepD(4) [OF k v(1)] fr(1) by (auto simp: has_flag_def)
  have "rq_ok ?k rq" using krepD(1) [OF k] nrq by (auto simp: rq_ok_def chain_simps)
  moreover have "cq_ok ?k cq"
    using krepD(2) [OF k] ncq fr(2) new(3) unfolding cq_ok_def by (auto simp: chain_simps)
  ultimately have "krep ?k rq cq"
    using k nrq [of "queue_of c"] ncq new(1,2) v unfolding krep_def by auto
  moreover have "c \<noteq> MM_PROC_NR" using e fr(1) by (auto simp: kenv_def has_flag_def)
  then have "kenv ?k" using e v(2) kenv_cong [of ?k k] by simp
  ultimately show ?thesis by (rule kinvI)
qed

section \<open>XIT\<close>

text \<open>Only the links of the callers' queues change.\<close>

definition relinked :: "kernel \<Rightarrow> kernel \<Rightarrow> bool" where
  "relinked k k' \<longleftrightarrow> (\<forall>p. (procs k' p)\<lparr>p_callerq := None, p_sendlink := None\<rparr> = (procs k p)\<lparr>p_callerq := None, p_sendlink := None\<rparr>)
     \<and> rdy_head k' = rdy_head k \<and> rdy_tail k' = rdy_tail k \<and> addr_m k' = addr_m k"

lemma relinkedD:
  assumes "relinked k k'"
  shows "p_flags (procs k' p) = p_flags (procs k p)" "p_nextready (procs k' p) = p_nextready (procs k p)"
    "p_map (procs k' p) = p_map (procs k p)" "rdy_head k' = rdy_head k" "rdy_tail k' = rdy_tail k" "addr_m k' = addr_m k"
proof -
  have "(procs k' p)\<lparr>p_callerq := None, p_sendlink := None\<rparr> = (procs k p)\<lparr>p_callerq := None, p_sendlink := None\<rparr>"
    using assms by (simp add: relinked_def)
  then show "p_flags (procs k' p) = p_flags (procs k p)" "p_nextready (procs k' p) = p_nextready (procs k p)"
    "p_map (procs k' p) = p_map (procs k p)" by (cases "procs k' p"; cases "procs k p"; simp)+
qed (use assms in \<open>simp_all add: relinked_def\<close>)

lemma relinked_refl: "relinked k k"
  by (simp add: relinked_def)

lemma unlink_from_absent:
  assumes "cq_ok k cq" "valid_nr d" "x \<notin> set (cq d)"
  shows "unlink_from x d k = Some (False, k)"
proof (cases "p_callerq (procs k d)")
  case (Some h)
  have c: "chain (sendlink k) (Some h) (cq d)" using cq_okD(1) [OF assms(1,2)] Some by simp
  then have "h \<noteq> x" "find_before (sendlink k) x h = Some None"
    using assms(3) find_before_miss [OF c] by (cases "cq d"; auto)+
  then show ?thesis using Some by (simp add: unlink_from_def)
qed (simp add: unlink_from_def)

lemma unlink_from_present:
  assumes c: "cq_ok k cq" and v: "valid_nr d" and x: "x \<in> set (cq d)"
  shows "\<exists>b k'. unlink_from x d k = Some (b, k') \<and> cq_ok k' (cq(d := remove1 x (cq d))) \<and> relinked k k'"
proof -
  obtain us vs where uv: "cq d = us @ x # vs" using x by (meson split_list)
  have ch: "chain (sendlink k) (p_callerq (procs k d)) (us @ x # vs)" using cq_okD(1) [OF c v] uv by simp
  have dist: "distinct (us @ x # vs)" using ch by (rule chain_distinct)
  have rem: "remove1 x (cq d) = us @ vs" using dist by (simp add: uv remove1_append)
  have mem: "p \<in> set (us @ vs) \<Longrightarrow> p \<in> set (cq d)" for p using uv by auto
  have upd: "cq_ok k' (cq(d := us @ vs))"
    if "chain (sendlink k') (p_callerq (procs k' d)) (us @ vs)" "\<And>e. e \<noteq> d \<Longrightarrow> p_callerq (procs k' e) = p_callerq (procs k e)"
      "\<And>p e. e \<noteq> d \<Longrightarrow> p \<in> set (cq e) \<Longrightarrow> sendlink k' p = sendlink k p" for k'
    by (rule cq_ok_update [OF c v that(1)]) (use mem cq_okD(2-4) [OF c] that(2,3) in blast)+
  show ?thesis
  proof (cases us rule: rev_cases)
    case Nil
    let ?k = "set_proc d (\<lambda>p. p\<lparr>p_callerq := p_sendlink (procs k x)\<rparr>) k"
    have "p_callerq (procs k d) = Some x" "chain (sendlink k) (p_sendlink (procs k x)) vs" using ch Nil by auto
    moreover have "sendlink ?k = sendlink k" by (auto simp: fun_eq_iff)
    ultimately have "unlink_from x d k = Some (True, ?k)" "cq_ok ?k (cq(d := us @ vs))"
      using upd [of ?k] Nil by (simp_all add: unlink_from_def)
    moreover have "relinked k ?k" by (simp add: relinked_def)
    ultimately show ?thesis using rem by auto
  next
    case (snoc us' a)
    let ?k = "set_proc a (\<lambda>p. p\<lparr>p_sendlink := p_sendlink (procs k x)\<rparr>) k"
    obtain h where h: "p_callerq (procs k d) = Some h" using ch by (cases us) auto
    have ch': "chain (sendlink k) (Some h) (us' @ [a, x] @ vs)" using ch h snoc by simp
    have "h = hd us" using ch h snoc by (cases us') auto
    then have "h \<noteq> x" using dist snoc by (metis append_is_Nil_conv disjoint_insert(1) distinct_append hd_in_set list.distinct(1) list.set(2))
    moreover have "find_before (sendlink k) x h = Some (Some a)" using ch' by (rule find_before_hit)
    ultimately have u: "unlink_from x d k = Some (False, ?k)" using h by (simp add: unlink_from_def)
    have sl: "sendlink ?k = (sendlink k)(a := sendlink k x)" by (auto simp: fun_eq_iff)
    have "chain (sendlink ?k) (p_callerq (procs ?k d)) (us @ vs)"
      using chain_unlink [OF ch'] h snoc unfolding sl by (cases "d = a") auto
    moreover have "a \<in> set (cq d)" using uv snoc by simp
    then have "a \<notin> set (cq e)" if "e \<noteq> d" for e using that cq_okD(2) [OF c] by blast
    ultimately have "cq_ok ?k (cq(d := us @ vs))" by (intro upd) auto
    moreover have "relinked k ?k" by (simp add: relinked_def)
    ultimately show ?thesis using u rem by auto
  qed
qed

lemma unlink_sender_absent:
  "cq_ok k cq \<Longrightarrow> \<forall>d\<in>set ds. valid_nr d \<and> x \<notin> set (cq d) \<Longrightarrow> unlink_sender x ds k = Some k"
  by (induction ds) (simp_all add: unlink_from_absent)

lemma unlink_sender_present:
  assumes "cq_ok k cq" "\<forall>e\<in>set ds. valid_nr e" "d \<in> set ds" "x \<in> set (cq d)"
  shows "\<exists>k'. unlink_sender x ds k = Some k' \<and> cq_ok k' (cq(d := remove1 x (cq d))) \<and> relinked k k'"
  using assms(2,3)
proof (induction ds)
  case (Cons e ds)
  show ?case
  proof (cases "e = d")
    case True
    obtain b k' where u: "unlink_from x d k = Some (b, k')" "cq_ok k' (cq(d := remove1 x (cq d)))" "relinked k k'"
      using unlink_from_present [OF assms(1) _ assms(4)] Cons.prems True by auto
    have ch: "distinct (cq d)" using chain_distinct [OF cq_okD(1) [OF assms(1)]] Cons.prems True by auto
    have "x \<notin> set ((cq(d := remove1 x (cq d))) e)" for e using ch cq_okD(2) [OF assms(1,4)] by auto
    then have "unlink_sender x ds k' = Some k'" using unlink_sender_absent [OF u(2)] Cons.prems(1) by simp
    then show ?thesis using u True by (cases b) (auto simp del: fun_upd_apply)
  next
    case False
    then have "x \<notin> set (cq e)" using cq_okD(2) [OF assms(1)] assms(4) by blast
    then have "unlink_from x e k = Some (False, k)" using unlink_from_absent [OF assms(1)] Cons.prems(1) by simp
    moreover have "d \<in> set ds" "\<forall>e\<in>set ds. valid_nr e" using Cons.prems False by auto
    ultimately show ?thesis using Cons.IH by simp
  qed
qed simp

lemma exit_kinv:
  assumes inv: "kinv k" and v: "valid_nr x" "LOW_USER \<le> x"
  shows "\<exists>k1. unready x k = Some k1 \<and> (\<exists>k3. (if has_flag (p_flags (procs k1 x)) SENDING
        then unlink_sender x [- NR_TASKS..NR_PROCS - 1] (set_proc x (\<lambda>p. p\<lparr>p_alarm := 0\<rparr>) k1)
        else Some (set_proc x (\<lambda>p. p\<lparr>p_alarm := 0\<rparr>) k1)) = Some k3
      \<and> kinv (set_proc x (\<lambda>p. p\<lparr>p_flags := P_SLOT_FREE\<rparr>) k3))"
proof -
  obtain rq cq where k: "krep k rq cq" and e: "kenv k" using inv by (auto simp: kinv_def)
  have xh: "x \<noteq> HARDWARE" using v(2) by simp
  obtain k1 where k1: "unready x k = Some k1" "rq_ok k1 (a_unready x rq)" using unready_rq krepD(1) [OF k] by blast
  have fr: "frame k k1" using k1(1) by (rule unready_frame)
  let ?k2 = "set_proc x (\<lambda>p. p\<lparr>p_alarm := 0\<rparr>) k1"
  have c2: "cq_ok ?k2 cq" using krepD(2) [OF k] cq_ok_cong [of ?k2 k] by (simp add: frameD [OF fr])
  have r2: "rq_ok ?k2 (a_unready x rq)" using k1(2) rq_ok_cong [of ?k2 k1] by simp
  have fl: "p_flags (procs k1 p) = p_flags (procs k p)" for p by (simp add: frameD [OF fr])
  have distinct_q: "distinct (cq d)" for d
    using chain_distinct [OF cq_okD(1) [OF krepD(2) [OF k]]] krepD(2) [OF k] by (cases "valid_nr d") (auto simp: cq_ok_def)
  have "\<exists>k3 cq'. (if has_flag (p_flags (procs k1 x)) SENDING then unlink_sender x [- NR_TASKS..NR_PROCS - 1] ?k2 else Some ?k2) = Some k3
      \<and> cq_ok k3 cq' \<and> relinked ?k2 k3 \<and> (\<forall>d. x \<notin> set (cq' d)) \<and> (\<forall>p d. p \<noteq> x \<longrightarrow> (p \<in> set (cq' d) \<longleftrightarrow> p \<in> set (cq d)))"
  proof (cases "has_flag (p_flags (procs k1 x)) SENDING")
    case False
    then have "x \<notin> set (cq d)" for d using krepD(4) [OF k v(1)] fl by auto
    then show ?thesis using False c2 relinked_refl by auto
  next
    case True
    then obtain d where d: "x \<in> set (cq d)" using krepD(4) [OF k v(1)] fl by auto
    have vd: "valid_nr d" using cq_okD(5) [OF c2 d] .
    then have "d \<in> set [- NR_TASKS..NR_PROCS - 1]" by (auto simp: valid_nr_def)
    moreover have "\<forall>e\<in>set [- NR_TASKS..NR_PROCS - 1]. valid_nr e" by (auto simp: valid_nr_def)
    ultimately obtain k3 where k3: "unlink_sender x [- NR_TASKS..NR_PROCS - 1] ?k2 = Some k3"
      "cq_ok k3 (cq(d := remove1 x (cq d)))" "relinked ?k2 k3"
      using unlink_sender_present [OF c2 _ _ d] by blast
    have "x \<notin> set ((cq(d := remove1 x (cq d))) q)" for q
      using cq_okD(2) [OF c2 d] distinct_q [of d] by auto
    moreover have "p \<in> set ((cq(d := remove1 x (cq d))) q) \<longleftrightarrow> p \<in> set (cq q)" if "p \<noteq> x" for p q
      using that by simp
    ultimately show ?thesis unfolding if_P [OF True] using k3 by blast
  qed
  then obtain k3 cq' where k3: "(if has_flag (p_flags (procs k1 x)) SENDING then unlink_sender x [- NR_TASKS..NR_PROCS - 1] ?k2 else Some ?k2) = Some k3"
    "cq_ok k3 cq'" "relinked ?k2 k3" "\<And>d. x \<notin> set (cq' d)" "\<And>p d. p \<noteq> x \<Longrightarrow> p \<in> set (cq' d) \<longleftrightarrow> p \<in> set (cq d)"
    by blast
  let ?k4 = "set_proc x (\<lambda>p. p\<lparr>p_flags := P_SLOT_FREE\<rparr>) k3"
  note rl = relinkedD [OF k3(3)]
  have rq4: "rq_ok ?k4 (a_unready x rq)" using r2 rq_ok_cong [of ?k4 ?k2] rl by simp
  have cq4: "cq_ok ?k4 cq'" using k3(2) cq_ok_cong [of ?k4 k3] by simp
  have fl4: "p_flags (procs ?k4 p) = (if p = x then P_SLOT_FREE else p_flags (procs k p))" for p
    using rl(1) fl by simp
  have dq: "distinct (rq (queue_of x))" using krepD(1) [OF k] by (rule rdy.rep_distinct)
  have rdy4: "p \<in> set (a_unready x rq (queue_of p)) \<longleftrightarrow> p_flags (procs ?k4 p) = 0" if "valid_nr p" "p \<noteq> HARDWARE" for p
    using krepD(3) [OF k that] dq unfolding fl4 by (cases "p = x") auto
  have snd4: "has_flag (p_flags (procs ?k4 p)) SENDING \<longleftrightarrow> (\<exists>d. p \<in> set (cq' d))" if "valid_nr p" for p
    using krepD(4) [OF k that] k3(4,5) unfolding fl4 by (cases "p = x") (auto simp: has_flag_def)
  have "HARDWARE \<notin> set (a_unready x rq TASK_Q)"
    using krepD(5) [OF k] by (auto dest: in_set_remove1 [THEN iffD1, rotated] notin_set_remove1)
  then have "krep ?k4 (a_unready x rq) cq'"
    using rq4 cq4 rdy4 snd4 fl4 [of HARDWARE] krepD(6) [OF k] xh unfolding krep_def by auto
  moreover have "kenv ?k4"
  proof -
    have "p_map (procs ?k4 HARDWARE) = p_map (procs k HARDWARE)" "addr_m ?k4 = addr_m k"
      using rl(3,6) xh by (simp_all add: frameD [OF fr])
    then show ?thesis using kenv_cong [of ?k4 k] e fl4 [of MM_PROC_NR] v(2) by simp
  qed
  ultimately show ?thesis using k1(1) k3(1) kinvI by blast
qed

section \<open>One request\<close>

text \<open>
  What MM and FS see to before they ask: FORK names a slot that is free and a parent that is blocked,
  with nobody queued on either; the map of the kernel itself is not changed; EXEC is for a process that is
  blocked; only users exit.
\<close>

definition sys_request_ok :: "kmess \<Rightarrow> kernel \<Rightarrow> bool" where
  "sys_request_ok m k \<longleftrightarrow>
     (m_type m = 4 \<and> \<not> bad_user (m1_i1 m) \<and> \<not> bad_user (m1_i2 m)
       \<longrightarrow> p_flags (procs k (m1_i2 m)) = P_SLOT_FREE \<and> p_callerq (procs k (m1_i2 m)) = None
           \<and> \<not> has_flag (p_flags (procs k (m1_i1 m))) SENDING \<and> p_callerq (procs k (m1_i1 m)) = None)
     \<and> (m_type m = 5 \<longrightarrow> m1_i1 m \<noteq> HARDWARE)
     \<and> (m_type m = 7 \<longrightarrow> p_flags (procs k (m1_i1 m)) \<noteq> 0)
     \<and> (m_type m = 1 \<longrightarrow> LOW_USER \<le> m1_i2 m)"

text \<open>The requests on which the task stops the system.\<close>

definition sys_panics :: "sys_env \<Rightarrow> kmess \<Rightarrow> kernel \<Rightarrow> bool" where
  "sys_panics e m k \<longleftrightarrow> m_type m = 9
     \<or> m_type m = 5 \<and> - NR_TASKS \<le> m1_i1 m \<and> m1_i1 m < NR_PROCS
        \<and> (umap (procs k (m_source m)) SEG_D (m1_p1 m) 18 = 0 \<or> umap (procs k SYSTASK) SEG_D (at_p_map e (m1_i1 m)) 18 = 0)
     \<or> m_type m = 3 \<and> LOW_USER \<le> m6_i1 m \<and> m6_i1 m < NR_PROCS
        \<and> umap (procs k (m6_i1 m)) SEG_S (p_sp (procs k (m6_i1 m)) - 8) 8 = 0"

lemma kinv_cong:
  assumes "kinv k" "procs k' = procs k" "rdy_head k' = rdy_head k" "rdy_tail k' = rdy_tail k" "addr_m k' = addr_m k"
  shows "kinv k'"
proof -
  obtain rq cq where k: "krep k rq cq" and e: "kenv k" using assms(1) by (auto simp: kinv_def)
  show ?thesis by (rule kinvI [OF cong_ready [OF k]]) (use assms e kenv_cong [of k' k] in simp_all)
qed

lemma kinv_set_proc:
  assumes "kinv k" "i \<noteq> HARDWARE" "p_flags (f (procs k i)) = p_flags (procs k i)" "p_nextready (f (procs k i)) = p_nextready (procs k i)"
    "p_sendlink (f (procs k i)) = p_sendlink (procs k i)" "p_callerq (f (procs k i)) = p_callerq (procs k i)"
  shows "kinv (set_proc i f k)"
proof -
  obtain rq cq where k: "krep k rq cq" and e: "kenv k" using assms(1) by (auto simp: kinv_def)
  show ?thesis by (rule kinvI [OF krep_set_proc [OF k] kenv_set_proc [OF e]]) (use assms in simp_all)
qed

lemma valid_user: "\<not> bad_user n \<Longrightarrow> valid_nr n \<and> n \<noteq> HARDWARE"
  by (auto simp: bad_user_def valid_nr_def)

lemma set_name_kn [simp]: "kn (set_name n p s) = kn s"
  by (simp add: set_name_def Let_def)

lemma do_fork_kinv:
  assumes "kinv (kn s)" "sys_request_ok m (kn s)" "m_type m = 4"
  shows "kinv (kn (snd (do_fork_sys m s)))"
proof (cases "bad_user (m1_i1 m) \<or> bad_user (m1_i2 m)")
  case False
  let ?f = "\<lambda>_. (procs (kn s) (m1_i1 m))\<lparr>p_flags := set_flag (p_flags (procs (kn s) (m1_i1 m))) NO_MAP, p_pid := m1_i3 m,
      p_reg := (p_reg (procs (kn s) (m1_i1 m)))(RET_REG := 0), user_time := 0, sys_time := 0, child_utime := 0, child_stime := 0\<rparr>"
  have "kn (snd (do_fork_sys m s)) = set_proc (m1_i2 m) ?f (kn s)"
    using False by (simp add: do_fork_sys_def Let_def set_proc_def)
  moreover have "kinv (set_proc (m1_i2 m) ?f (kn s))"
    by (rule fork_kinv) (use assms False valid_user in \<open>auto simp: sys_request_ok_def flag_simps\<close>)
  ultimately show ?thesis by simp
qed (use assms(1) in \<open>auto simp: do_fork_sys_def Let_def\<close>)

lemma do_exec_kinv:
  assumes "kinv (kn s)" "sys_request_ok m (kn s)" "m_type m = 7"
  shows "kinv (kn (snd (do_exec_sys m s)))"
proof (cases "bad_user (m1_i1 m)")
  case False
  let ?p = "m1_i1 m"
  let ?f = "\<lambda>p. p\<lparr>p_sp := m1_p1 m, p_pcpsw := (p_pcpsw p)\<lparr>pc := 0\<rparr>, p_alarm := 0\<rparr>"
  define k2 where "k2 = set_proc ?p (\<lambda>r. r\<lparr>p_flags := clr_flag (p_flags r) RECEIVING\<rparr>) (set_proc ?p ?f (kn s))"
  have "kinv (if p_flags (procs k2 ?p) = 0 then ready ?p k2 else k2)"
    by (rule exec_newmap_kinv [OF assms(1) _ _ _ _ _ _ _ _ k2_def])
      (use False assms valid_user in \<open>auto simp: sys_request_ok_def\<close>)
  moreover have "set_proc ?p (\<lambda>p. p\<lparr>p_sp := m1_p1 m, p_pcpsw := (p_pcpsw p)\<lparr>pc := 0\<rparr>, p_alarm := 0,
      p_flags := clr_flag (p_flags p) RECEIVING\<rparr>) (kn s) = k2" by (simp add: k2_def set_proc_def)
  ultimately show ?thesis using False by (auto simp: do_exec_sys_def Let_def)
qed (use assms(1) in \<open>auto simp: do_exec_sys_def Let_def\<close>)

lemma do_newmap_kinv:
  assumes "kinv (kn s)" "sys_request_ok m (kn s)" "m_type m = 5" "do_newmap e m s = Some (r, s')"
  shows "kinv (kn s')"
proof (cases "m1_i1 m < - NR_TASKS \<or> m1_i1 m \<ge> NR_PROCS")
  case False
  let ?p = "m1_i1 m" let ?f = "load_map (map_at (kn s) (umap (procs (kn s) (m_source m)) SEG_D (m1_p1 m) 18))"
  have f: "p_flags (?f r) = p_flags r" "p_nextready (?f r) = p_nextready r" "p_sendlink (?f r) = p_sendlink r"
    "p_callerq (?f r) = p_callerq r" for r by (simp_all add: load_map_def Let_def)
  define k2 where "k2 = set_proc ?p (\<lambda>r. r\<lparr>p_flags := clr_flag (p_flags r) NO_MAP\<rparr>) (set_proc ?p ?f (kn s))"
  have v: "valid_nr ?p" "?p \<noteq> HARDWARE" using False assms(2,3) by (auto simp: sys_request_ok_def valid_nr_def)
  have r: "kn s' = (if p_flags (procs (kn s) ?p) \<noteq> 0 \<and> p_flags (procs k2 ?p) = 0 then ready ?p k2 else k2)"
    using assms(4) False f by (auto simp: do_newmap_def Let_def k2_def split: if_splits)
  show ?thesis
  proof (cases "p_flags (procs (kn s) ?p) = 0")
    case True
    have "(?f r)\<lparr>p_flags := clr_flag (p_flags (?f r)) NO_MAP\<rparr> = ?f r" if "p_flags r = 0" for r
      using that f(1) [of r] by (cases "?f r") (simp add: clr_flag_def)
    then have "k2 = set_proc ?p ?f (kn s)"
      using True by (simp add: k2_def set_proc_def)
    then show ?thesis using kinv_set_proc [OF assms(1) v(2), of ?f] f r True by simp
  next
    case nz: False
    have "kinv (if p_flags (procs k2 ?p) = 0 then ready ?p k2 else k2)"
      by (rule exec_newmap_kinv [OF assms(1) v nz _ _ _ _ _ k2_def]) (use f in simp_all)
    then show ?thesis using r nz by simp
  qed
qed (use assms in \<open>auto simp: do_newmap_def Let_def\<close>)

lemma do_xit_kinv:
  assumes "kinv (kn s)" "sys_request_ok m (kn s)" "m_type m = 1"
  shows "\<exists>r s'. do_xit m s = Some (r, s') \<and> kinv (kn s')"
proof (cases "bad_user (m1_i1 m) \<or> bad_user (m1_i2 m)")
  case False
  let ?q = "m1_i1 m" and ?x = "m1_i2 m"
  define k1 where "k1 = set_proc ?q (\<lambda>p. p\<lparr>child_utime := long_of (child_utime p
      + (user_time (procs (kn s) ?x) + child_utime (procs (kn s) ?x)))\<rparr>) (kn s)"
  define k2 where "k2 = set_proc ?q (\<lambda>p. p\<lparr>child_stime := long_of (child_stime p
      + (sys_time (procs k1 ?x) + child_stime (procs k1 ?x)))\<rparr>) k1"
  have q: "?q \<noteq> HARDWARE" and x: "valid_nr ?x" using False valid_user by auto
  have i1: "kinv k1" unfolding k1_def by (rule kinv_set_proc [OF assms(1) q]) simp_all
  have "kinv k2" unfolding k2_def by (rule kinv_set_proc [OF i1 q]) simp_all
  from exit_kinv [OF this x] assms(2,3) obtain k3 k4 where
    k3: "unready ?x k2 = Some k3" and k4: "(if has_flag (p_flags (procs k3 ?x)) SENDING
        then unlink_sender ?x [- NR_TASKS..NR_PROCS - 1] (set_proc ?x (\<lambda>p. p\<lparr>p_alarm := 0\<rparr>) k3)
        else Some (set_proc ?x (\<lambda>p. p\<lparr>p_alarm := 0\<rparr>) k3)) = Some k4"
      "kinv (set_proc ?x (\<lambda>p. p\<lparr>p_flags := P_SLOT_FREE\<rparr>) k4)"
    unfolding sys_request_ok_def by blast
  have "has_flag (p_flags (procs (set_proc ?x (\<lambda>p. p\<lparr>p_alarm := 0\<rparr>) k3) ?x)) SENDING = has_flag (p_flags (procs k3 ?x)) SENDING"
    by simp
  then show ?thesis using False k3 k4
    by (cases "has_flag (p_flags (procs k3 ?x)) SENDING")
      (auto simp add: do_xit_def Let_def k1_def [symmetric] k2_def [symmetric] simp del: upto_rec_numeral set_proc_sel(1))
qed (auto simp: do_xit_def Let_def assms(1))

text \<open>C9: Every request that MM and FS may make of the system task keeps the kernel's invariant (ready
  queues, callers' queues and process flags agree), also when a process is killed that is queued to send,
  forked, mapped or made ready by EXEC; and the task stops the system only on \<^verbatim>\<open>SYS_ABORT\<close>, on a map
  address that \<^verbatim>\<open>umap\<close> refuses, or on a signal to a process whose stack pointer is bad.\<close>

theorem sys_task_keeps_invariant:
  assumes "kinv (kn s)" "sys_request_ok m (kn s)"
  shows "case sys_task e m s of None \<Rightarrow> sys_panics e m (kn s)
    | Some (m', s') \<Rightarrow> kinv (kn s') \<and> \<not> sys_panics e m (kn s) \<and> m_source m' = m_source m"
proof -
  note d = sys_task_def sys_panics_def
  consider "m_type m = 4" | "m_type m = 5" | "m_type m = 7" | "m_type m = 1" | "m_type m = 3" | "m_type m = 6"
    | "m_type m \<notin> {1, 3, 4, 5, 6, 7}" by blast
  then show ?thesis
  proof cases
    case 1
    then show ?thesis using do_fork_kinv [OF assms 1] by (cases "do_fork_sys m s") (simp add: d)
  next
    case 2
    have p: "do_newmap e m s = None \<longleftrightarrow> sys_panics e m (kn s)" using 2 by (auto simp: d do_newmap_def Let_def)
    show ?thesis
    proof (cases "do_newmap e m s")
      case (Some y)
      then show ?thesis using 2 p do_newmap_kinv [OF assms 2, of e] by (cases y) (simp add: sys_task_def)
    qed (use 2 p in \<open>simp add: sys_task_def\<close>)
  next
    case 3
    then show ?thesis using do_exec_kinv [OF assms 3] by (cases "do_exec_sys m s") (simp add: d)
  next
    case 4
    then show ?thesis using do_xit_kinv [OF assms 4] by (auto simp: d)
  next
    case 5
    have k: "kinv (kn s')" if "do_sig m s = Some (r, s')" for r s'
    proof -
      have "kinv (push_words a ws (kn s))" for a ws by (rule kinv_cong [OF assms(1)]) (simp_all add: push_words_def)
      then show ?thesis using that assms(1)
        by (auto simp: do_sig_def Let_def split: if_splits intro!: kinv_set_proc)
    qed
    have p: "do_sig m s = None \<longleftrightarrow> sys_panics e m (kn s)" using 5 by (auto simp: d do_sig_def Let_def)
    show ?thesis
    proof (cases "do_sig m s")
      case (Some y)
      then show ?thesis using 5 p k by (cases y) (simp add: sys_task_def)
    qed (use 5 p in \<open>simp add: sys_task_def\<close>)
  next
    case 6
    have "kinv (phys_copy a b n (kn s))" for a b n by (rule kinv_cong [OF assms(1)]) simp_all
    then show ?thesis using 6 assms(1) by (simp add: d do_copy_def Let_def)
  next
    case 7
    then show ?thesis using assms(1) by (auto simp: d do_getsp_def do_times_sys_def Let_def)
  qed
qed

text \<open>FS forks into the free slot 2; MM then asks for the times of the child.\<close>

theorem sys_task_keeps_invariant_witness:
  "\<exists>m' s'. sys_task \<lparr>at_p_map = (\<lambda>_. 0), at_sig_stuff = 0\<rparr> (blank_mess\<lparr>m_type := 4, m1_i1 := 1, m1_i2 := 2, m1_i3 := 77\<rparr>)
      \<lparr>kn = demo_kernel 0, aout = (\<lambda>_. 0)\<rparr> = Some (m', s')
    \<and> kinv (kn s') \<and> p_pid (procs (kn s') 2) = 77 \<and> m_type m' = OK"
proof -
  let ?e = "\<lparr>at_p_map = (\<lambda>_. 0), at_sig_stuff = 0\<rparr>" let ?s = "\<lparr>kn = demo_kernel 0, aout = (\<lambda>_. 0)\<rparr>"
  let ?m = "blank_mess\<lparr>m_type := 4, m1_i1 := 1, m1_i2 := 2, m1_i3 := 77\<rparr>"
  have "sys_request_ok ?m (kn ?s)" by (simp add: sys_request_ok_def blank_mess_def has_flag_def)
  from sys_task_keeps_invariant [OF _ this, of ?e] show ?thesis
    by (simp add: demo_kinv sys_task_def do_fork_sys_def bad_user_def blank_mess_def Let_def)
qed

section \<open>A child inherits alarm and signals\<close>

definition pending_procs :: "kernel \<Rightarrow> pnr set" where
  "pending_procs k = {p. 0 \<le> p \<and> p < NR_PROCS \<and> p_pending (procs k p) \<noteq> 0}"

text \<open>FORK copies the whole slot, the alarm and the pending signals included, and counts nothing: when
  the parent has a signal pending that MM has not taken yet, the child has it too, both share the alarm of
  the parent, and \<^verbatim>\<open>sig_procs\<close> is one short of the number of processes with a signal pending.\<close>

theorem fork_miscounts_signals:
  assumes "\<not> bad_user (m1_i1 m)" "\<not> bad_user (m1_i2 m)" "p_pending (procs (kn s) (m1_i1 m)) \<noteq> 0"
    "p_pending (procs (kn s) (m1_i2 m)) = 0" "sig_procs (kn s) = int (card (pending_procs (kn s)))"
  shows "\<exists>s'. do_fork_sys m s = (OK, s') \<and> p_pending (procs (kn s') (m1_i2 m)) = p_pending (procs (kn s) (m1_i1 m))
    \<and> p_alarm (procs (kn s') (m1_i2 m)) = p_alarm (procs (kn s) (m1_i1 m))
    \<and> sig_procs (kn s') = int (card (pending_procs (kn s'))) - 1"
proof -
  obtain s' where s': "do_fork_sys m s = (OK, s')" "sig_procs (kn s') = sig_procs (kn s)"
    "p_alarm (procs (kn s') (m1_i2 m)) = p_alarm (procs (kn s) (m1_i1 m))"
    "\<And>p. p_pending (procs (kn s') p) = (if p = m1_i2 m then p_pending (procs (kn s) (m1_i1 m)) else p_pending (procs (kn s) p))"
    using assms(1,2) by (simp add: do_fork_sys_def Let_def)
  have "pending_procs (kn s') = insert (m1_i2 m) (pending_procs (kn s))"
    using assms(2,3) s'(4) by (auto simp: pending_procs_def bad_user_def)
  moreover have "finite (pending_procs (kn s))" by (rule finite_subset [of _ "{0..16}"]) (auto simp: pending_procs_def)
  moreover have "m1_i2 m \<notin> pending_procs (kn s)" using assms(4) by (simp add: pending_procs_def)
  ultimately show ?thesis using s' assms(5) by simp
qed

theorem fork_miscounts_signals_witness:
  "\<exists>s'. do_fork_sys (blank_mess\<lparr>m_type := 4, m1_i1 := 1, m1_i2 := 2\<rparr>)
      \<lparr>kn = (set_proc 1 (\<lambda>p. p\<lparr>p_pending := 4\<rparr>) (demo_kernel 0))\<lparr>sig_procs := 1\<rparr>, aout = (\<lambda>_. 0)\<rparr> = (OK, s')
    \<and> sig_procs (kn s') = int (card (pending_procs (kn s'))) - 1"
proof -
  have z: "p_pending (procs (demo_kernel 0) p) = 0" for p by (simp add: demo_kernel_def zero_kernel_def zero_proc_def Let_def)
  let ?s = "\<lparr>kn = (set_proc 1 (\<lambda>p. p\<lparr>p_pending := 4\<rparr>) (demo_kernel 0))\<lparr>sig_procs := 1\<rparr>, aout = (\<lambda>_. 0)\<rparr>"
  have "pending_procs (kn ?s) = {1}" by (auto simp: pending_procs_def z)
  then show ?thesis
    using fork_miscounts_signals [of "blank_mess\<lparr>m_type := 4, m1_i1 := 1, m1_i2 := 2\<rparr>" ?s] by (auto simp: bad_user_def z)
qed

end
