(* ===== verification/KClock.thy ===== *)
theory KClock
  imports KPrinter KSysInv "HOL-Library.Signed_Division"
begin

text \<open>
  The clock task, \<^verbatim>\<open>kernel/clock.c\<close>: alarms, the time of day, accounting, the end of a quantum and the
  watch on a printer that has stopped.  The state holds the kernel and the printer, which a tick may call.
  A watch-dog function is an address; what it does to the kernel is the parameter \<open>dog\<close> (\<^verbatim>\<open>floppy.c\<close> has
  the only ones).  \<^verbatim>\<open>init_clock\<close> is port output alone and has no counterpart.
\<close>

section \<open>State\<close>

record clock_env =
  dog :: "u16 \<Rightarrow> kernel \<Rightarrow> kernel option"
  pr_hw :: pr_env

record clock =
  krn :: kernel
  prn :: printer
  boot_time :: int
  next_alarm :: int
  sched_ticks :: int
  prev_ptr :: "pnr option"
  watch_dog :: "nat \<Rightarrow> u16"

abbreviation (input) "HZ \<equiv> (60::int)"
abbreviation (input) "SCHED_RATE \<equiv> (6::int)"
abbreviation (input) "MAX_P_LONG \<equiv> (2147483647::int)"
abbreviation (input) "SIGALRM \<equiv> (14::nat)"

abbreviation alarm :: "kernel \<Rightarrow> pnr \<Rightarrow> int" where
  "alarm k p \<equiv> p_alarm (procs k p)"

definition all_slots :: "pnr list" where
  "all_slots = [- NR_TASKS..NR_PROCS - 1]"

section \<open>Alarms\<close>

definition earlier :: "kernel \<Rightarrow> pnr \<Rightarrow> int \<Rightarrow> int" where
  "earlier k p next = (if alarm k p \<noteq> 0 \<and> alarm k p < next then alarm k p else next)"

text \<open>\<open>None\<close> for a process number outside the table, which the code does not check.\<close>

definition do_setalarm :: "kmess \<Rightarrow> clock \<Rightarrow> (kmess \<times> clock) option" where
  "do_setalarm m c =
     (let proc_nr = m6_i1 m; delta_ticks = m6_l1 m; function = m6_f1 m; k = krn c
      in if proc_nr < - NR_TASKS \<or> proc_nr \<ge> NR_PROCS then None
         else
           (let m1 = m\<lparr>m6_l1 := (if alarm k proc_nr = 0 then 0 else long_of (alarm k proc_nr - realtime k) sdiv HZ)\<rparr>;
                k1 = set_proc proc_nr (\<lambda>p. p\<lparr>p_alarm := (if delta_ticks = 0 then 0 else long_of (realtime k + delta_ticks))\<rparr>) k;
                c1 = c\<lparr>krn := k1, watch_dog := (if proc_nr < 0 then (watch_dog c)(nat (- proc_nr) := function) else watch_dog c)\<rparr>
            in Some (m1, c1\<lparr>next_alarm := fold (earlier k1) all_slots MAX_P_LONG\<rparr>)))"

definition do_get_time :: "kmess \<Rightarrow> clock \<Rightarrow> kmess" where
  "do_get_time m c = m\<lparr>m_type := 1, m6_l1 := long_of (boot_time c + realtime (krn c) sdiv HZ)\<rparr>"

definition do_set_time :: "kmess \<Rightarrow> clock \<Rightarrow> clock" where
  "do_set_time m c = c\<lparr>boot_time := long_of (m6_l1 m - realtime (krn c) sdiv HZ)\<rparr>"

section \<open>A clock tick\<close>

definition due :: "kernel \<Rightarrow> pnr \<Rightarrow> bool" where
  "due k p \<longleftrightarrow> alarm k p \<noteq> 0 \<and> alarm k p \<le> realtime k"

text \<open>A timer has gone off: a signal for a user process, the watch-dog function for a task.\<close>

definition ring :: "clock_env \<Rightarrow> (nat \<Rightarrow> u16) \<Rightarrow> pnr \<Rightarrow> kernel \<Rightarrow> kernel option" where
  "ring e dogs p k = do {
     k1 \<leftarrow> (if p \<ge> 0 then cause_sig p SIGALRM k else dog e (dogs (nat (- p))) k);
     Some (set_proc p (\<lambda>r. r\<lparr>p_alarm := 0\<rparr>) k1)
   }"

fun scan_alarms :: "clock_env \<Rightarrow> (nat \<Rightarrow> u16) \<Rightarrow> pnr list \<Rightarrow> int \<Rightarrow> kernel \<Rightarrow> (int \<times> kernel) option" where
  "scan_alarms e dogs [] next k = Some (next, k)"
| "scan_alarms e dogs (p # ps) next k =
     (if alarm k p \<noteq> 0
      then do {
        k1 \<leftarrow> (if alarm k p \<le> realtime k then ring e dogs p k else Some k);
        scan_alarms e dogs ps (earlier k1 p next) k1
      }
      else scan_alarms e dogs ps next k)"

definition accounting :: "kernel \<Rightarrow> kernel" where
  "accounting k =
     (if prev_proc k \<ge> LOW_USER
      then set_proc (bill_ptr k) (\<lambda>p. p\<lparr>user_time := long_of (user_time p + 1)\<rparr>) k
      else set_proc (bill_ptr k) (\<lambda>p. p\<lparr>sys_time := long_of (sys_time p + 1)\<rparr>) k)"

definition advance_time :: "kernel \<Rightarrow> kernel" where
  "advance_time k = k\<lparr>realtime := long_of (realtime k + int_of (lost_ticks k + 1)), lost_ticks := 0\<rparr>"

definition end_of_quantum :: "clock_env \<Rightarrow> clock \<Rightarrow> clock option" where
  "end_of_quantum e c =
     (let k1 = (if Some (bill_ptr (krn c)) = prev_ptr c then sched (krn c) else krn c);
          p = prn c
      in do {
        (p1, k2) \<leftarrow> (if pr_busy p \<and> pcount p > 0 \<and> cum_count p = prev_ct p then pr_char (pr_hw e) (p, k1) else Some (p, k1));
        Some (c\<lparr>krn := k2, prn := p1\<lparr>prev_ct := cum_count p1\<rparr>, sched_ticks := SCHED_RATE, prev_ptr := Some (bill_ptr k1)\<rparr>)
      })"

definition do_clocktick :: "clock_env \<Rightarrow> clock \<Rightarrow> clock option" where
  "do_clocktick e c = do {
     let k1 = advance_time (krn c);
     (next, k2) \<leftarrow> (if next_alarm c \<le> realtime k1 then scan_alarms e (watch_dog c) all_slots MAX_P_LONG k1
                    else Some (next_alarm c, k1));
     let c1 = c\<lparr>krn := accounting k2, next_alarm := next, sched_ticks := sched_ticks c - 1\<rparr>;
     (if sched_ticks c1 = 0 then end_of_quantum e c1 else Some c1)
   }"

section \<open>The task\<close>

text \<open>One turn of \<^verbatim>\<open>clock_task\<close>: the reply, if there is one, and the state; an unknown call is a panic.\<close>

definition clock_task :: "clock_env \<Rightarrow> kmess \<Rightarrow> clock \<Rightarrow> (kmess option \<times> clock) option" where
  "clock_task e m c =
     (if m_type m = 1 then do { (m1, c1) \<leftarrow> do_setalarm m c; Some (Some (m1\<lparr>m_type := OK\<rparr>), c1) }
      else if m_type m = 3 then Some (Some ((do_get_time m c)\<lparr>m_type := OK\<rparr>), c)
      else if m_type m = 4 then Some (Some (m\<lparr>m_type := OK\<rparr>), do_set_time m c)
      else if m_type m = 2 then do { c1 \<leftarrow> do_clocktick e c; Some (None, c1) }
      else None)"

section \<open>What leaves the alarms alone\<close>

definition timing :: "kernel \<Rightarrow> (pnr \<Rightarrow> int) \<times> int" where
  "timing k = (alarm k, realtime k)"

lemma timing_frame: "frame k k' \<Longrightarrow> timing k' = timing k"
  by (auto simp: timing_def frame_def fun_eq_iff dest: frame_procD)

lemma timing_set_proc [simp]: "(\<And>p. p_alarm (f p) = p_alarm p) \<Longrightarrow> timing (set_proc i f k) = timing k"
  by (auto simp: timing_def fun_eq_iff)

lemma timing_fields [simp]:
  "timing (k\<lparr>memory := m\<rparr>) = timing k" "timing (k\<lparr>sig_procs := n\<rparr>) = timing k" "timing (k\<lparr>busy_map := b\<rparr>) = timing k"
  "timing (k\<lparr>task_mess := t\<rparr>) = timing k" "timing (k\<lparr>lost_ticks := n\<rparr>) = timing k"
  "timing (pick_proc k) = timing k" "timing (ready p k) = timing k" "timing (lock k) = timing k" "timing (restore k) = timing k"
  "timing (k\<lparr>rdy_head := h\<rparr>) = timing k" "timing (k\<lparr>rdy_tail := h\<rparr>) = timing k"
  using timing_frame [OF ready_frame] by (simp_all add: timing_def)

lemma timing_send: "mini_send c d m k = Some (n, k') \<Longrightarrow> timing k' = timing k"
  by (auto simp: mini_send_def Let_def bind_eq_Some_conv split: if_splits option.splits dest!: unready_frame [THEN timing_frame])

lemma timing_inform: "inform d k = Some k' \<Longrightarrow> timing k' = timing k"
  by (auto simp: inform_def Let_def bind_eq_Some_conv split: if_splits option.splits dest!: timing_send)

lemma timing_cause_sig: "cause_sig p n k = Some k' \<Longrightarrow> timing k' = timing k"
  by (auto simp: cause_sig_def Let_def dest!: timing_inform)

lemma timing_retry: "retry_tasks old is k = Some k' \<Longrightarrow> timing k' = timing k"
proof (induction "is" arbitrary: k)
  case (Cons i "is")
  show ?case
  proof (cases "has_flag old (task_bit i)")
    case True
    then obtain n k1 where k1: "mini_send HARDWARE (- int i) (task_mess k i) k = Some (n, k1)"
      "retry_tasks old is (if n = OK then k1\<lparr>busy_map := clr_flag (busy_map k1) (task_bit i)\<rparr> else k1) = Some k'"
      using Cons.prems by (auto simp: bind_eq_Some_conv)
    show ?thesis using Cons.IH [OF k1(2)] timing_send [OF k1(1)] by (auto split: if_splits)
  qed (use Cons in simp)
qed simp

lemma timing_interrupt:
  assumes "interrupt t m k = Some k'"
  shows "timing k' = timing k"
proof -
  obtain n k1 where k1: "mini_send HARDWARE t m k = Some (n, k1)" using assms by (auto simp: interrupt_def Let_def bind_eq_Some_conv)
  obtain old k2 where k2: "timing k2 = timing k1"
    "(if old \<noteq> 0 then retry_tasks old [2..<9] k2 else Some k2) \<bind> (\<lambda>k3. Some (if rdy_head k3 TASK_Q \<noteq> None
        \<and> (cur_proc k3 \<ge> 0 \<or> cur_proc k3 = IDLE) then pick_proc k3 else k3)) = Some k'"
  proof (cases "n = OK")
    case True
    then show ?thesis using assms k1 that [of "k1\<lparr>busy_map := clr_flag (busy_map k1) (task_bit (nat (- t)))\<rparr>"]
      by (simp add: interrupt_def Let_def del: upt_rec_numeral)
  next
    case False
    then show ?thesis using assms k1 that [of "if t = CLOCK then k1\<lparr>lost_ticks := int_of (lost_ticks k1 + 1)\<rparr>
        else k1\<lparr>busy_map := set_flag (busy_map k1) (task_bit (nat (- t))), task_mess := (task_mess k1)(nat (- t) := m)\<rparr>" "busy_map k1"]
      by (simp add: interrupt_def Let_def del: upt_rec_numeral)
  qed
  obtain k3 where r: "(if old \<noteq> 0 then retry_tasks old [2..<9] k2 else Some k2) = Some k3"
    and k': "k' = (if rdy_head k3 TASK_Q \<noteq> None \<and> (cur_proc k3 \<ge> 0 \<or> cur_proc k3 = IDLE) then pick_proc k3 else k3)"
    using k2(2) unfolding bind_eq_Some_conv by auto
  have k3: "timing k3 = timing k2"
  proof (cases "old = 0")
    case True
    then have "Some k2 = Some k3" using r by (simp only: simp_thms if_False)
    then show ?thesis by simp
  next
    case False
    then show ?thesis using r timing_retry by (metis (no_types, lifting))
  qed
  have "timing k' = timing k3" unfolding k' by simp
  then show ?thesis using k3 k2(1) timing_send [OF k1] by (simp only:)
qed

lemma timing_sched [simp]: "timing (sched k) = timing k"
  by (simp add: sched_def Let_def split: option.splits)

lemma timing_accounting [simp]: "timing (accounting k) = timing k"
  by (simp add: accounting_def)

lemma timing_pr_char: "pr_char e (p, k) = Some (p', k') \<Longrightarrow> timing k' = timing k"
  by (auto simp: pr_char_def done_mess_def Let_def bind_eq_Some_conv split: if_splits prod.splits dest!: timing_interrupt)

lemma timing_quantum:
  assumes "end_of_quantum e c = Some c'"
  shows "timing (krn c') = timing (krn c) \<and> next_alarm c' = next_alarm c \<and> watch_dog c' = watch_dog c"
  using assms by (auto simp: end_of_quantum_def Let_def bind_eq_Some_conv split: if_splits prod.splits dest!: timing_pr_char)

section \<open>The alarms of a tick\<close>

text \<open>The field \<^verbatim>\<open>next_alarm\<close> is never later than an alarm that is set.\<close>

definition alarms_ok :: "clock \<Rightarrow> bool" where
  "alarms_ok c \<longleftrightarrow> (\<forall>p. valid_nr p \<and> alarm (krn c) p \<noteq> 0 \<longrightarrow> next_alarm c \<le> alarm (krn c) p)"

text \<open>Watch-dog functions do not set alarms: they run inside the clock task, which takes no requests meanwhile.\<close>

definition dogs_ok :: "clock_env \<Rightarrow> bool" where
  "dogs_ok e \<longleftrightarrow> (\<forall>f k k'. dog e f k = Some k' \<longrightarrow> timing k' = timing k)"

text \<open>The specification of a scan: the alarms of a list of processes ring one after the other, once each.\<close>

fun ring_all :: "clock_env \<Rightarrow> (nat \<Rightarrow> u16) \<Rightarrow> pnr list \<Rightarrow> kernel \<Rightarrow> kernel option" where
  "ring_all e dogs [] k = Some k"
| "ring_all e dogs (p # ps) k = do {
     k1 \<leftarrow> (if 0 \<le> p then cause_sig p SIGALRM k else dog e (dogs (nat (- p))) k);
     ring_all e dogs ps (k1\<lparr>procs := (procs k1)(p := (procs k1 p)\<lparr>p_alarm := 0\<rparr>)\<rparr>)
   }"

lemma ring_all_Cons: "ring_all e dogs (p # ps) k = ring e dogs p k \<bind> ring_all e dogs ps"
  by (simp add: ring_def set_proc_def)

lemma ring_timing:
  assumes "dogs_ok e" "ring e dogs p k = Some k'"
  shows "realtime k' = realtime k \<and> alarm k' q = (if q = p then 0 else alarm k q)"
proof -
  obtain k1 where k1: "(if p \<ge> 0 then cause_sig p SIGALRM k else dog e (dogs (nat (- p))) k) = Some k1"
    "k' = set_proc p (\<lambda>r. r\<lparr>p_alarm := 0\<rparr>) k1" using assms(2) by (auto simp: ring_def bind_eq_Some_conv)
  have "timing k1 = timing k" using k1(1) assms(1) timing_cause_sig by (auto simp: dogs_ok_def split: if_splits)
  then have "alarm k1 q = alarm k q" "realtime k1 = realtime k" by (simp_all add: timing_def fun_eq_iff)
  then show ?thesis using k1(2) by simp
qed

lemma ring_all_timing:
  assumes "dogs_ok e" "ring_all e dogs ps k = Some k'"
  shows "realtime k' = realtime k \<and> alarm k' q = (if q \<in> set ps then 0 else alarm k q)"
  using assms(2)
proof (induction ps arbitrary: k)
  case (Cons p ps)
  obtain k1 where k1: "ring e dogs p k = Some k1" "ring_all e dogs ps k1 = Some k'"
    using Cons.prems by (auto simp: ring_all_Cons bind_eq_Some_conv simp del: ring_all.simps(2))
  show ?case using Cons.IH [OF k1(2)] ring_timing [OF assms(1) k1(1), of q] by auto
qed simp

lemma earlier_le: "earlier k p n \<le> n" "alarm k p \<noteq> 0 \<Longrightarrow> earlier k p n \<le> alarm k p"
  by (auto simp: earlier_def)

lemma fold_earlier_le: "fold (earlier k) ps n \<le> n"
  using earlier_le(1) by (induction ps arbitrary: n) (simp, fastforce intro: order.trans)

lemma fold_earlier_alarm: "p \<in> set ps \<Longrightarrow> alarm k p \<noteq> 0 \<Longrightarrow> fold (earlier k) ps n \<le> alarm k p"
proof (induction ps arbitrary: n)
  case (Cons q ps)
  show ?case
  proof (cases "p \<in> set ps")
    case True
    then show ?thesis using Cons by simp
  next
    case False
    then have "q = p" using Cons.prems by simp
    then show ?thesis using fold_earlier_le [of k ps "earlier k p n"] earlier_le(2) [of k p n] Cons.prems by simp
  qed
qed simp

lemma scan_le: "scan_alarms e dogs ps next k = Some (n, k') \<Longrightarrow> n \<le> next"
proof (induction ps arbitrary: "next" k)
  case (Cons p ps)
  show ?case
  proof (cases "alarm k p = 0")
    case False
    then obtain k1 where "scan_alarms e dogs ps (earlier k1 p next) k1 = Some (n, k')"
      using Cons.prems by (auto simp: bind_eq_Some_conv)
    then show ?thesis using Cons.IH earlier_le(1) [of k1 p "next"] by fastforce
  qed (use Cons in simp)
qed simp

text \<open>The scan rings exactly the alarms that are due, in the order of the table, and finds the next one.\<close>

lemma scan_step:
  "scan_alarms e dogs (p # ps) next k =
     (if alarm k p = 0 then scan_alarms e dogs ps next k
      else if due k p then ring e dogs p k \<bind> (\<lambda>k1. scan_alarms e dogs ps (earlier k1 p next) k1)
      else scan_alarms e dogs ps (earlier k p next) k)"
  by (simp add: due_def)

lemma scan_rings:
  assumes "dogs_ok e" "distinct ps"
  shows "map_option snd (scan_alarms e dogs ps next k) = ring_all e dogs (filter (due k) ps) k"
  using assms(2)
proof (induction ps arbitrary: "next" k)
  case (Cons p ps)
  have np: "p \<notin> set ps" and d: "distinct ps" using Cons.prems by simp_all
  show ?case
  proof (cases "due k p")
    case True
    then have nz: "alarm k p \<noteq> 0" by (simp add: due_def)
    have tail: "map_option snd (scan_alarms e dogs ps next1 k1) = ring_all e dogs (filter (due k) ps) k1"
      if "ring e dogs p k = Some k1" for next1 k1
    proof -
      have "due k1 q = due k q" if "q \<in> set ps" for q
        using ring_timing [OF assms(1) \<open>ring e dogs p k = Some k1\<close>, of q] np that by (auto simp: due_def)
      then have "filter (due k1) ps = filter (due k) ps" by (rule filter_cong [OF refl])
      then show ?thesis using Cons.IH [OF d, of next1 k1] by simp
    qed
    show ?thesis
      using True nz tail by (cases "ring e dogs p k") (simp_all add: scan_step ring_all_Cons del: scan_alarms.simps(2) ring_all.simps(2))
  next
    case False
    then show ?thesis using Cons.IH [OF d] by (cases "alarm k p = 0") (simp_all add: scan_step del: scan_alarms.simps(2))
  qed
qed simp

lemma scan_next:
  assumes "dogs_ok e" "distinct ps" "scan_alarms e dogs ps next k = Some (n, k')" "q \<in> set ps" "alarm k' q \<noteq> 0"
  shows "n \<le> alarm k' q"
  using assms(2-5)
proof (induction ps arbitrary: "next" k)
  case (Cons p ps)
  have np: "p \<notin> set ps" and d: "distinct ps" using Cons.prems by simp_all
  obtain next1 k1 where s: "scan_alarms e dogs ps next1 k1 = Some (n, k')" and n1: "alarm k1 p \<noteq> 0 \<Longrightarrow> next1 \<le> alarm k1 p"
  proof (cases "alarm k p = 0")
    case True
    then show ?thesis using Cons.prems(2) that by (simp add: scan_step del: scan_alarms.simps(2))
  next
    case False
    then obtain k1 where "scan_alarms e dogs ps (earlier k1 p next) k1 = Some (n, k')"
      using Cons.prems(2) by (auto simp: scan_step bind_eq_Some_conv simp del: scan_alarms.simps(2) split: if_splits)
    then show ?thesis using that earlier_le(2) by blast
  qed
  show ?case
  proof (cases "q = p")
    case True
    have r: "ring_all e dogs (filter (due k1) ps) k1 = Some k'" using scan_rings [OF assms(1) d, of dogs next1 k1] s by simp
    have "alarm k' p = alarm k1 p" using ring_all_timing [OF assms(1) r, of p] np by simp
    then show ?thesis using scan_le [OF s] n1 Cons.prems(4) True by simp
  next
    case False
    then show ?thesis using Cons.IH [OF d s] Cons.prems(3,4) by simp
  qed
qed simp

lemma all_slots: "set all_slots = {p. valid_nr p}" "distinct all_slots"
  unfolding all_slots_def by (auto simp: valid_nr_def simp del: upto_rec_numeral)

lemma advance_alarm [simp]: "alarm (advance_time k) p = alarm k p"
  by (simp add: advance_time_def)

lemma accounting_alarm: "alarm (accounting k) p = alarm k p"
  using timing_accounting [of k] by (simp add: timing_def fun_eq_iff)

text \<open>The parts of a tick.\<close>

lemma tick_parts:
  assumes "do_clocktick e c = Some c'" "dogs_ok e"
  obtains n k2 where "(if next_alarm c \<le> realtime (advance_time (krn c))
      then scan_alarms e (watch_dog c) all_slots MAX_P_LONG (advance_time (krn c)) else Some (next_alarm c, advance_time (krn c))) = Some (n, k2)"
    "next_alarm c' = n" "\<And>p. alarm (krn c') p = alarm k2 p" "watch_dog c' = watch_dog c" "realtime (krn c') = realtime k2"
proof -
  obtain n k2 where s: "(if next_alarm c \<le> realtime (advance_time (krn c))
      then scan_alarms e (watch_dog c) all_slots MAX_P_LONG (advance_time (krn c)) else Some (next_alarm c, advance_time (krn c))) = Some (n, k2)"
    and r: "(let c1 = c\<lparr>krn := accounting k2, next_alarm := n, sched_ticks := sched_ticks c - 1\<rparr>
      in if sched_ticks c1 = 0 then end_of_quantum e c1 else Some c1) = Some c'"
    using assms(1) unfolding do_clocktick_def Let_def bind_eq_Some_conv by auto
  have q: "timing (krn c') = timing (accounting k2) \<and> next_alarm c' = n \<and> watch_dog c' = watch_dog c"
    using r timing_quantum [of e "c\<lparr>krn := accounting k2, next_alarm := n, sched_ticks := sched_ticks c - 1\<rparr>" c']
    by (auto simp: Let_def split: if_splits)
  then have "timing (krn c') = timing k2" by simp
  then have "alarm (krn c') p = alarm k2 p" "realtime (krn c') = realtime k2" for p by (simp_all add: timing_def fun_eq_iff)
  then show ?thesis using that s q by blast
qed

text \<open>What follows the alarms: accounting, and the end of a quantum on every sixth tick.\<close>

lemma tick_scan:
  assumes "do_clocktick e c = Some c'" "dogs_ok e" "alarms_ok c"
  defines "k1 \<equiv> advance_time (krn c)"
  shows "\<exists>k2 c2. ring_all e (watch_dog c) (filter (due k1) all_slots) k1 = Some k2
    \<and> c2 = c\<lparr>krn := accounting k2, next_alarm := next_alarm c', sched_ticks := sched_ticks c - 1\<rparr>
    \<and> (if sched_ticks c = 1 then end_of_quantum e c2 = Some c' else c' = c2)
    \<and> (\<forall>p. alarm (krn c') p = alarm k2 p) \<and> realtime (krn c') = realtime k1"
proof -
  obtain n k2 where s: "(if next_alarm c \<le> realtime k1 then scan_alarms e (watch_dog c) all_slots MAX_P_LONG k1 else Some (next_alarm c, k1)) = Some (n, k2)"
    and r0: "(let c1 = c\<lparr>krn := accounting k2, next_alarm := n, sched_ticks := sched_ticks c - 1\<rparr>
      in if sched_ticks c1 = 0 then end_of_quantum e c1 else Some c1) = Some c'"
    using assms(1) unfolding do_clocktick_def Let_def bind_eq_Some_conv k1_def by auto
  define c2 where "c2 = c\<lparr>krn := accounting k2, next_alarm := n, sched_ticks := sched_ticks c - 1\<rparr>"
  have r1: "if sched_ticks c = 1 then end_of_quantum e c2 = Some c' else c' = c2"
    using r0 unfolding Let_def c2_def by (simp split: if_splits)
  have q: "timing (krn c') = timing (accounting k2) \<and> next_alarm c' = n"
    using r1 timing_quantum [of e c2 c'] by (auto simp: c2_def split: if_splits)
  then have "timing (krn c') = timing k2" by simp
  then have k2: "alarm (krn c') p = alarm k2 p" "realtime (krn c') = realtime k2" for p by (simp_all add: timing_def fun_eq_iff)
  have r: "ring_all e (watch_dog c) (filter (due k1) all_slots) k1 = Some k2"
  proof (cases "next_alarm c \<le> realtime k1")
    case True
    then have "scan_alarms e (watch_dog c) all_slots MAX_P_LONG k1 = Some (n, k2)" using s by (simp only: if_True)
    then show ?thesis using scan_rings [OF assms(2) all_slots(2), of "watch_dog c" MAX_P_LONG k1] by (simp only: option.map snd_conv)
  next
    case False
    have "\<not> due k1 p" if "p \<in> set all_slots" for p
      using assms(3) False that unfolding all_slots(1) by (auto simp: due_def k1_def alarms_ok_def)
    then have "filter (due k1) all_slots = []" by (simp add: filter_empty_conv)
    then show ?thesis using s False by simp
  qed
  have rt: "realtime (krn c') = realtime k1" using k2 ring_all_timing [OF assms(2) r] by metis
  have "c2 = c\<lparr>krn := accounting k2, next_alarm := next_alarm c', sched_ticks := sched_ticks c - 1\<rparr>" using q by (simp add: c2_def)
  then show ?thesis using r r1 k2(1) rt by blast
qed

text \<open>C12: The field \<^verbatim>\<open>next_alarm\<close>, which lets a tick skip the process table, is never later than an alarm that
  is set, whatever the clock task is asked to do and however many alarms a tick rings.\<close>

theorem next_alarm_stays_early:
  assumes "clock_task e m c = Some (r, c')" "alarms_ok c" "dogs_ok e"
  shows "alarms_ok c'"
proof -
  have "alarms_ok c'" if "do_setalarm m c = Some (m1, c')" for m1
  proof -
    let ?k = "krn c'"
    have n: "next_alarm c' = fold (earlier ?k) all_slots MAX_P_LONG"
      using that by (auto simp: do_setalarm_def Let_def split: if_splits)
    show ?thesis unfolding alarms_ok_def n using fold_earlier_alarm [of _ all_slots ?k] unfolding all_slots(1) by blast
  qed
  moreover have "alarms_ok c'" if t: "do_clocktick e c = Some c'"
  proof -
    obtain n k2 where s: "(if next_alarm c \<le> realtime (advance_time (krn c))
        then scan_alarms e (watch_dog c) all_slots MAX_P_LONG (advance_time (krn c)) else Some (next_alarm c, advance_time (krn c))) = Some (n, k2)"
      and k2: "next_alarm c' = n" "\<And>p. alarm (krn c') p = alarm k2 p"
      using tick_parts [OF t assms(3)] by metis
    have "n \<le> alarm k2 p" if p: "valid_nr p" "alarm k2 p \<noteq> 0" for p
    proof (cases "next_alarm c \<le> realtime (advance_time (krn c))")
      case True
      then have "scan_alarms e (watch_dog c) all_slots MAX_P_LONG (advance_time (krn c)) = Some (n, k2)" using s by simp
      from scan_next [OF assms(3) all_slots(2) this] show ?thesis using p all_slots(1) by blast
    next
      case False
      then have "n = next_alarm c" "k2 = advance_time (krn c)" using s by (simp_all only: if_False option.inject prod.inject)
      then show ?thesis using p assms(2) by (simp add: alarms_ok_def)
    qed
    then show ?thesis using k2 by (simp add: alarms_ok_def)
  qed
  moreover have "alarms_ok (do_set_time m c)" using assms(2) by (simp add: alarms_ok_def do_set_time_def)
  ultimately show ?thesis using assms(1,2) by (auto simp: clock_task_def bind_eq_Some_conv split: if_splits)
qed

text \<open>Process 3 has an alarm at tick 1; the last tick was 0.\<close>

definition demo_clock :: clock where
  "demo_clock = \<lparr>krn = (set_proc 3 (\<lambda>p. p\<lparr>p_alarm := 1\<rparr>) (demo_kernel 0))\<lparr>realtime := 0, lost_ticks := 0\<rparr>, prn = demo_printer,
     boot_time = 1000, next_alarm = 0, sched_ticks = 6, prev_ptr = None, watch_dog = (\<lambda>_. 0)\<rparr>"

definition demo_clock_env :: clock_env where
  "demo_clock_env = \<lparr>dog = (\<lambda>_ k. Some k), pr_hw = \<lparr>status = (\<lambda>_. 0), int_mess_at = 0\<rparr>\<rparr>"

lemma demo_alarm: "alarm (demo_kernel g) p = 0" "p_pending (procs (demo_kernel g) p) = 0"
  by (simp_all add: demo_kernel_def zero_kernel_def zero_proc_def Let_def)

lemma demo_clock_ok: "alarms_ok demo_clock" "dogs_ok demo_clock_env"
  by (simp_all add: alarms_ok_def demo_clock_def dogs_ok_def demo_clock_env_def demo_alarm)

theorem next_alarm_stays_early_witness:
  "\<exists>r c'. clock_task demo_clock_env (blank_mess\<lparr>m_type := 1, m6_i1 := 5, m6_l1 := 30\<rparr>) demo_clock = Some (r, c') \<and> next_alarm c' \<le> 1"
proof -
  obtain r c' where c: "clock_task demo_clock_env (blank_mess\<lparr>m_type := 1, m6_i1 := 5, m6_l1 := 30\<rparr>) demo_clock = Some (r, c')"
    and a: "alarm (krn c') 3 = 1"
    by (simp add: clock_task_def do_setalarm_def Let_def demo_clock_def)
  have v: "valid_nr 3" by (simp add: valid_nr_def)
  have "alarms_ok c'" by (rule next_alarm_stays_early [OF c demo_clock_ok])
  then have "next_alarm c' \<le> alarm (krn c') 3" using v a unfolding alarms_ok_def by (metis one_neq_zero)
  then show ?thesis using c a by simp
qed

text \<open>C11: A tick rings exactly the alarms that are due, each once and in the order of the process table, as if
  it looked at every process on every tick: SIGALRM for a user, the watch-dog function for a task; missed ticks
  (at most 32766, so that their count fits) are made up first.  Nothing else happens to the kernel before the
  accounting and, on the last tick of a quantum, its end.  Afterwards no alarm is due, those that rang are
  cleared, and the others stand.\<close>

theorem alarms_ring_when_due:
  assumes "do_clocktick e c = Some c'" "alarms_ok c" "dogs_ok e" "0 \<le> lost_ticks (krn c)" "lost_ticks (krn c) < 32767"
    "0 \<le> realtime (krn c)" "realtime (krn c) + lost_ticks (krn c) + 1 \<le> MAX_P_LONG"
    and "k1 = (krn c)\<lparr>realtime := realtime (krn c) + lost_ticks (krn c) + 1, lost_ticks := 0\<rparr>"
  shows "\<exists>k2 c2. ring_all e (watch_dog c) (filter (\<lambda>p. alarm k1 p \<noteq> 0 \<and> alarm k1 p \<le> realtime k1) [- 8..15]) k1 = Some k2
    \<and> c2 = c\<lparr>krn := accounting k2, next_alarm := next_alarm c', sched_ticks := sched_ticks c - 1\<rparr>
    \<and> (if sched_ticks c = 1 then end_of_quantum e c2 = Some c' else c' = c2)
    \<and> realtime (krn c') = realtime k1
    \<and> (\<forall>p. valid_nr p \<longrightarrow> \<not> due (krn c') p \<and> alarm (krn c') p = (if due k1 p then 0 else alarm (krn c) p))"
proof -
  have k1: "k1 = advance_time (krn c)"
    using assms(4-7) by (simp add: assms(8) advance_time_def int_of_small long_of_small add.assoc)
  obtain k2 c2 where r: "ring_all e (watch_dog c) (filter (due k1) all_slots) k1 = Some k2"
    and c2: "c2 = c\<lparr>krn := accounting k2, next_alarm := next_alarm c', sched_ticks := sched_ticks c - 1\<rparr>"
      "if sched_ticks c = 1 then end_of_quantum e c2 = Some c' else c' = c2"
    and k2: "\<And>p. alarm (krn c') p = alarm k2 p" "realtime (krn c') = realtime k1"
    using tick_scan [OF assms(1,3,2)] unfolding k1 by blast
  have al: "alarm (krn c') p = (if due k1 p then 0 else alarm (krn c) p)" if p: "valid_nr p" for p
  proof -
    have "p \<in> set (filter (due k1) all_slots) \<longleftrightarrow> due k1 p" using p all_slots(1) unfolding set_filter by blast
    then show ?thesis using ring_all_timing [OF assms(3) r, of p] k2(1) by (simp only: k1 advance_alarm)
  qed
  have "\<not> due (krn c') p" if "alarm (krn c') p = (if due k1 p then 0 else alarm (krn c) p)" for p
    using that k2(2) by (auto simp: due_def k1 split: if_splits)
  moreover have "ring_all e (watch_dog c) (filter (\<lambda>p. alarm k1 p \<noteq> 0 \<and> alarm k1 p \<le> realtime k1) [- 8..15]) k1 = Some k2"
    using r by (simp add: due_def [abs_def] all_slots_def)
  ultimately show ?thesis using c2 k2(2) al by blast
qed

lemma filter_one: "distinct xs \<Longrightarrow> x \<in> set xs \<Longrightarrow> (\<And>y. P y \<longleftrightarrow> y = x) \<Longrightarrow> filter P xs = [x]"
  by (induction xs) (auto simp: filter_empty_conv)

theorem alarms_ring_when_due_witness:
  "\<exists>c'. do_clocktick demo_clock_env demo_clock = Some c' \<and> realtime (krn c') = 1 \<and> alarm (krn c') 3 = 0 \<and> sched_ticks c' = 5"
proof -
  let ?k1 = "advance_time (krn demo_clock)"
  have rt: "realtime ?k1 = 1" by (simp add: advance_time_def demo_clock_def long_of_small int_of_small)
  have al: "alarm (krn demo_clock) p = (if p = 3 then 1 else 0)" for p by (simp add: demo_clock_def demo_alarm)
  have d: "due ?k1 p \<longleftrightarrow> p = 3" for p by (simp add: due_def al rt)
  have "3 \<in> set all_slots" by (simp add: all_slots(1) valid_nr_def)
  then have "filter (due ?k1) all_slots = [3]" using filter_one [OF all_slots(2)] d by simp
  moreover have "\<exists>k. ring demo_clock_env (watch_dog demo_clock) 3 ?k1 = Some k"
    by (simp add: ring_def cause_sig_def inform_def Let_def demo_clock_def advance_time_def)
  ultimately have "map_option snd (scan_alarms demo_clock_env (watch_dog demo_clock) all_slots MAX_P_LONG ?k1) \<noteq> None"
    using scan_rings [OF demo_clock_ok(2) all_slots(2), of "watch_dog demo_clock" MAX_P_LONG ?k1]
    by (auto simp: ring_all_Cons simp del: ring_all.simps(2))
  then obtain n k2 where "scan_alarms demo_clock_env (watch_dog demo_clock) all_slots MAX_P_LONG ?k1 = Some (n, k2)" by auto
  then obtain c' where c': "do_clocktick demo_clock_env demo_clock = Some c'"
    using rt by (simp add: do_clocktick_def Let_def) (simp add: demo_clock_def)
  have v: "valid_nr 3" by (simp add: valid_nr_def)
  have h: "0 \<le> lost_ticks (krn demo_clock)" "lost_ticks (krn demo_clock) < 32767" "0 \<le> realtime (krn demo_clock)"
    "realtime (krn demo_clock) + lost_ticks (krn demo_clock) + 1 \<le> MAX_P_LONG"
    by (simp_all add: demo_clock_def)
  define k1 where "k1 = (krn demo_clock)\<lparr>realtime := realtime (krn demo_clock) + lost_ticks (krn demo_clock) + 1, lost_ticks := 0\<rparr>"
  obtain k2 c2 where T: "c2 = demo_clock\<lparr>krn := accounting k2, next_alarm := next_alarm c', sched_ticks := sched_ticks demo_clock - 1\<rparr>"
    "if sched_ticks demo_clock = 1 then end_of_quantum demo_clock_env c2 = Some c' else c' = c2" "realtime (krn c') = realtime k1"
    "\<forall>p. valid_nr p \<longrightarrow> \<not> due (krn c') p \<and> alarm (krn c') p = (if due k1 p then 0 else alarm (krn demo_clock) p)"
    using alarms_ring_when_due [OF c' demo_clock_ok h k1_def] by blast
  have s: "sched_ticks demo_clock = 6" by (simp add: demo_clock_def)
  have "sched_ticks c2 = 5" by (simp add: T(1) s)
  then have "sched_ticks c' = 5" using T(2) s by simp
  moreover have "realtime k1 = 1" "alarm k1 3 = 1" by (simp_all add: k1_def demo_clock_def)
  ultimately show ?thesis using c' T(3) T(4) v by (auto simp: due_def)
qed

end
