(* ===== verification/KMemory.thy ===== *)
theory KMemory
  imports KSysProps
begin

text \<open>
  The memory task, \<^verbatim>\<open>kernel/memory.c\<close>: RAM disk, \<^verbatim>\<open>/dev/mem\<close>, \<^verbatim>\<open>/dev/kmem\<close> and \<^verbatim>\<open>/dev/null\<close>.  The two
  tables of the task are functions on minor device numbers; addresses are longs, that is integers that
  wrap around at 32 bits.
\<close>

section \<open>State\<close>

record ramdisk =
  ram_origin :: "int \<Rightarrow> int"
  ram_limit :: "int \<Rightarrow> int"

abbreviation (input) "NR_RAMS \<equiv> (4::int)"
abbreviation (input) "RAM_DEV \<equiv> (0::int)"
abbreviation (input) "MEM_DEV \<equiv> (1::int)"
abbreviation (input) "KMEM_DEV \<equiv> (2::int)"
abbreviation (input) "NULL_DEV \<equiv> (3::int)"
abbreviation (input) "MEM_BYTES \<equiv> (655360::int)"
abbreviation (input) "DISK_READ \<equiv> (3::int)"
abbreviation (input) "DISK_WRITE \<equiv> (4::int)"
abbreviation (input) "DISK_IOCTL \<equiv> (5::int)"

section \<open>Operations\<close>

text \<open>
  The first lines of \<^verbatim>\<open>mem_task\<close>: \<open>base\<close> is the click that \<^verbatim>\<open>get_base\<close> answers, \<open>sz\<close> the size table
  that the build tool patches into the kernel; the shift of the sum of two unsigned sizes wraps at 16 bits.
\<close>

definition mem_task_init :: "u16 \<Rightarrow> (nat \<Rightarrow> u16) \<Rightarrow> ramdisk \<Rightarrow> ramdisk" where
  "mem_task_init base sz r =
     r\<lparr>ram_origin := (ram_origin r)(KMEM_DEV := long_of (uint base * 16)),
       ram_limit := (ram_limit r)(KMEM_DEV := uint (push_bit CLICK_SHIFT (sz 0 + sz 1)), MEM_DEV := MEM_BYTES)\<rparr>"

definition do_mem :: "kmess \<Rightarrow> ramdisk \<Rightarrow> kernel \<Rightarrow> int \<times> kernel" where
  "do_mem m r k =
     (let device = m2_i1 m
      in if device < 0 \<or> device \<ge> NR_RAMS then (ENXIO, k)
         else if device = NULL_DEV then (if m_type m = DISK_READ then EOF else m2_i3 m, k)
         else if m2_l1 m < 0 then (ENXIO, k)
         else
           (let mem_phys = long_of (ram_origin r device + m2_l1 m)
            in if mem_phys \<ge> ram_limit r device then (EOF, k)
               else
                 (let count = (if long_of (mem_phys + m2_i3 m) > ram_limit r device
                               then int_of (ram_limit r device - mem_phys) else m2_i3 m);
                      user_phys = umap (procs k (m2_i2 m)) SEG_D (m2_p1 m) (word_of_int count)
                  in if user_phys = 0 then (E_BAD_ADDR, k)
                     else if m_type m = DISK_READ
                     then (count, phys_copy (word_of_int mem_phys) user_phys (word_of_int count) k)
                     else (count, phys_copy user_phys (word_of_int mem_phys) (word_of_int count) k))))"

definition do_setup :: "kmess \<Rightarrow> ramdisk \<Rightarrow> int \<times> ramdisk" where
  "do_setup m r =
     (let device = m2_i1 m
      in if device < 0 \<or> device \<ge> NR_RAMS then (ENXIO, r)
         else (OK, r\<lparr>ram_origin := (ram_origin r)(device := m2_l1 m),
                     ram_limit := (ram_limit r)(device := long_of (m2_l1 m + m2_i3 m * 1024))\<rparr>))"

text \<open>One turn of \<^verbatim>\<open>mem_task\<close>: the reply for \<^verbatim>\<open>caller\<close>; a message from another task is a panic.\<close>

definition mem_task :: "kmess \<Rightarrow> ramdisk \<times> kernel \<Rightarrow> (kmess \<times> ramdisk \<times> kernel) option" where
  "mem_task m = (\<lambda>(r, k).
     if m_source m < 0 then None
     else
       (let proc_nr = m2_i2 m;
            (n, r1, k1) = (if m_type m = DISK_READ \<or> m_type m = DISK_WRITE then (let (n, k1) = do_mem m r k in (n, r, k1))
                           else if m_type m = DISK_IOCTL then (let (n, r1) = do_setup m r in (n, r1, k))
                           else (EINVAL, r, k))
        in Some (m\<lparr>m_type := TASK_REPLY, m2_i1 := proc_nr, m2_i2 := n\<rparr>, r1, k1)))"

section \<open>Transfers\<close>

text \<open>
  A transfer of \<open>n\<close> bytes between position \<open>pos\<close> of a device and the data segment of process \<open>p\<close> at \<open>v\<close>.
\<close>

definition transfer :: "kmess \<Rightarrow> int \<Rightarrow> nat \<Rightarrow> pnr \<Rightarrow> nat \<Rightarrow> nat \<Rightarrow> bool" where
  "transfer m dev pos p v n \<longleftrightarrow> m2_i1 m = dev \<and> m2_i2 m = p \<and> m2_i3 m = int n \<and> m2_l1 m = int pos
     \<and> m2_p1 m = word_of_nat v \<and> v < 65536 \<and> 0 < n \<and> n < 32768"

text \<open>A device that occupies the bytes from \<open>a\<close> to \<open>b\<close> of memory.\<close>

definition occupies :: "ramdisk \<Rightarrow> int \<Rightarrow> nat \<Rightarrow> nat \<Rightarrow> bool" where
  "occupies r dev a b \<longleftrightarrow> dev \<in> {RAM_DEV, MEM_DEV, KMEM_DEV} \<and> ram_origin r dev = int a \<and> ram_limit r dev = int b \<and> b \<le> 2 ^ 20"

lemma do_mem_moves:
  assumes t: "transfer m dev pos p v n" and o: "occupies r dev a b" and i: "a + pos < b" and l: "laid_out (procs k p)"
    and n': "n' = min n (b - (a + pos))" and w: "within (procs k p) SEG_D v n'"
    and ap: "apart (place (procs k p) SEG_D v) (a + pos) n'"
  shows "do_mem m r k = (int n', k\<lparr>memory :=
    (if m_type m = DISK_READ then copied (a + pos) (place (procs k p) SEG_D v) n' (memory k)
     else copied (place (procs k p) SEG_D v) (a + pos) n' (memory k))\<rparr>)"
proof -
  have m: "m2_i1 m = dev" "m2_i2 m = p" "m2_i3 m = int n" "m2_l1 m = int pos" "m2_p1 m = word_of_nat v" "v < 65536"
    "0 < n" "n < 32768" using t by (simp_all add: transfer_def)
  have d: "0 \<le> dev" "dev < NR_RAMS" "dev \<noteq> NULL_DEV" "ram_origin r dev = int a" "ram_limit r dev = int b" "b \<le> 1048576"
    using o by (auto simp: occupies_def)
  have ph: "long_of (int a + int pos) = int (a + pos)"
    using i d(6) by (subst long_of_small) simp_all
  have s: "long_of (int (a + pos) + int n) = int (a + pos + n)" using i d(6) m(8) by (subst long_of_small) simp_all
  have c: "(if int b < long_of (int (a + pos) + int n) then int_of (int b - int (a + pos)) else int n) = int n'"
  proof (cases "a + pos + n > b")
    case True
    then have "b - (a + pos) < n" using i by linarith
    then show ?thesis using True i s m(8) by (simp add: n' int_of_small of_nat_diff)
  next
    case False
    then show ?thesis using s by (simp add: n')
  qed
  have nn: "0 < n'" "n' < 32768" using n' m(7,8) i by auto
  have v: "unat (word_of_nat v :: u16) = v" "unat (word_of_nat n' :: u16) = n'"
    using m(6) nn by (simp_all add: unat_of_nat_u16)
  have u: "unat (umap (procs k p) SEG_D (word_of_nat v) (word_of_nat n')) = place (procs k p) SEG_D v"
    using umap_within [OF l, of SEG_D "word_of_nat v" "word_of_nat n'" SEG_D] w v by simp
  moreover have "place (procs k p) SEG_D v \<noteq> 0" using w place_nonzero by (auto simp: within_def)
  ultimately have nz: "umap (procs k p) SEG_D (word_of_nat v) (word_of_nat n') \<noteq> 0" by (metis unsigned_0)
  have w32: "unat (word_of_int (int (a + pos)) :: u32) = a + pos" "unat (word_of_int (int n') :: u32) = n'"
    using i d(6) nn by (simp_all add: unat_of_nat del: of_nat_add)
  have ap': "apart (a + pos) (place (procs k p) SEG_D v) n'" using ap by (auto simp: apart_def)
  have lim: "\<not> int b \<le> int (a + pos)" using i by simp
  have r: "do_mem m r k = (int n', if m_type m = DISK_READ
      then phys_copy (word_of_int (int (a + pos))) (umap (procs k p) SEG_D (word_of_nat v) (word_of_nat n')) (word_of_int (int n')) k
      else phys_copy (umap (procs k p) SEG_D (word_of_nat v) (word_of_nat n')) (word_of_int (int (a + pos))) (word_of_int (int n')) k)"
    using d(1-3) lim nz unfolding do_mem_def Let_def m(1-5) d(4,5) ph c by (simp del: of_nat_add One_nat_def)
  show ?thesis
    unfolding r phys_copy_def w32 u copy_chunks_apart [OF ap] copy_chunks_apart [OF ap'] by simp
qed

text \<open>C14: The RAM disk and the memory devices never touch a byte outside the device, whatever the position and
  the count: a transfer that reaches the end is cut there, one that starts at or beyond it answers
  \<^verbatim>\<open>EOF\<close>; and what one process writes at a position, another reads back there.\<close>

theorem ram_disk_roundtrip:
  assumes "transfer w dev pos p v n" "m_type w = DISK_WRITE" "transfer m dev pos q u n" "m_type m = DISK_READ"
    "occupies r dev a b" "a + pos < b" "laid_out (procs k p)" "laid_out (procs k q)" "n' = min n (b - (a + pos))"
    "within (procs k p) SEG_D v n'" "within (procs k q) SEG_D u n'"
    "apart (place (procs k p) SEG_D v) (a + pos) n'" "apart (place (procs k q) SEG_D u) (a + pos) n'"
  shows "\<exists>k1 k2. do_mem w r k = (int n', k1) \<and> do_mem m r k1 = (int n', k2)
    \<and> (\<forall>c. c < a + pos \<or> b \<le> c \<longrightarrow> memory k1 c = memory k c)
    \<and> (\<forall>i<n'. memory k2 (place (procs k q) SEG_D u + i) = memory k (place (procs k p) SEG_D v + i))"
proof -
  define k1 where "k1 = k\<lparr>memory := copied (place (procs k p) SEG_D v) (a + pos) n' (memory k)\<rparr>"
  have 1: "do_mem w r k = (int n', k1)"
    using do_mem_moves [OF assms(1,5-7,9,10,12)] assms(2) by (simp add: k1_def)
  have "do_mem m r k1 = (int n', k1\<lparr>memory := copied (a + pos) (place (procs k q) SEG_D u) n' (memory k1)\<rparr>)"
    using do_mem_moves [OF assms(3,5,6) _ assms(9), of k1] assms(4,8,11,13) by (simp add: k1_def)
  moreover have "memory k1 c = memory k c" if "c < a + pos \<or> b \<le> c" for c
    using that assms(6,9) by (auto simp: k1_def copied_def)
  moreover have "copied (a + pos) (place (procs k q) SEG_D u) n' (memory k1) (place (procs k q) SEG_D u + i)
      = memory k (place (procs k p) SEG_D v + i)" if "i < n'" for i
    using that by (simp add: copied_def k1_def)
  ultimately show ?thesis using 1 by auto
qed

text \<open>A RAM disk of 4096 bytes at 0x30000; process 1 writes at position 4000, process 3 reads, and both
  transfers are cut to 96 bytes.\<close>

definition demo_ram :: ramdisk where
  "demo_ram = \<lparr>ram_origin = (\<lambda>_. 0x30000), ram_limit = (\<lambda>_. 0x31000)\<rparr>"

theorem ram_disk_roundtrip_witness:
  "\<exists>k1 k2. do_mem (blank_mess\<lparr>m_type := 4, m2_i1 := 0, m2_i2 := 1, m2_i3 := 200, m2_l1 := 4000, m2_p1 := 8\<rparr>) demo_ram (kn demo_users) = (96, k1)
    \<and> do_mem (blank_mess\<lparr>m_type := 3, m2_i1 := 0, m2_i2 := 3, m2_i3 := 200, m2_l1 := 4000, m2_p1 := 16\<rparr>) demo_ram k1 = (96, k2)
    \<and> memory k2 0x20011 = memory (kn demo_users) 0x10009"
proof -
  let ?k = "kn demo_users"
  let ?w = "blank_mess\<lparr>m_type := 4, m2_i1 := 0, m2_i2 := 1, m2_i3 := 200, m2_l1 := 4000, m2_p1 := 8\<rparr>"
  let ?m = "blank_mess\<lparr>m_type := 3, m2_i1 := 0, m2_i2 := 3, m2_i3 := 200, m2_l1 := 4000, m2_p1 := 16\<rparr>"
  have t: "transfer ?w 0 4000 1 8 200" "transfer ?m 0 4000 3 16 200" by (simp_all add: transfer_def)
  have o: "occupies demo_ram 0 0x30000 0x31000" by (simp add: occupies_def demo_ram_def)
  have w: "within (procs ?k 1) SEG_D 8 96" "within (procs ?k 3) SEG_D 16 96"
    by (simp_all add: within_def demo_users_def two_segs_def seg_end_def)
  have pl: "place (procs ?k 1) SEG_D 8 = 0x10008" "place (procs ?k 3) SEG_D 16 = 0x20010"
    by (simp_all add: place_def demo_users_def two_segs_def)
  have a: "apart 0x10008 (0x30000 + 4000) 96" "apart 0x20010 (0x30000 + 4000) 96" by (simp_all add: apart_def)
  have "\<exists>k1 k2. do_mem ?w demo_ram ?k = (int 96, k1) \<and> do_mem ?m demo_ram k1 = (int 96, k2)
    \<and> (\<forall>c. c < 0x30000 + 4000 \<or> 0x31000 \<le> c \<longrightarrow> memory k1 c = memory ?k c)
    \<and> (\<forall>i<96. memory k2 (place (procs ?k 3) SEG_D 16 + i) = memory ?k (place (procs ?k 1) SEG_D 8 + i))"
    by (rule ram_disk_roundtrip [OF t(1) _ t(2) _ o _ demo_users_laid demo_users_laid _ w])
      (use a in \<open>simp_all add: pl del: One_nat_def\<close>)
  then obtain k1 k2 where k: "do_mem ?w demo_ram ?k = (int 96, k1)" "do_mem ?m demo_ram k1 = (int 96, k2)"
    "\<forall>i<96. memory k2 (place (procs ?k 3) SEG_D 16 + i) = memory ?k (place (procs ?k 1) SEG_D 8 + i)" by blast
  have "memory k2 (0x20010 + 1) = memory ?k (0x10008 + 1)" using k(3) unfolding pl by (rule allE [where x = 1]) simp
  then show ?thesis using k(1,2) by simp
qed

end
