(* ===== verification/KTty.thy ===== *)
theory KTty
  imports KPrinter
begin

text \<open>
  The terminal task, \<^verbatim>\<open>kernel/tty.c\<close>, first half: the terminal's state and the device-dependent output
  to the memory-mapped console, with \<^verbatim>\<open>vid_copy\<close> of \<^verbatim>\<open>kernel/klib88.asm\<close>.

  There is one terminal (\<^verbatim>\<open>NR_TTYS\<close> is 1), so the entry of \<^verbatim>\<open>tty_struct\<close> is the record itself; the
  keyboard's state and the globals of the driver are fields of it.  Pointers into \<^verbatim>\<open>tty_inqueue\<close> are
  indices.  The video RAM is \<open>vram\<close>, the word at each even offset; what goes to the 6845, the timer and
  port B is the log \<open>port_outs\<close>.  Replies, which \<^verbatim>\<open>tty_reply\<close> sends, are collected in \<open>tty_sent\<close>.
\<close>

section \<open>State\<close>

text \<open>
  \<open>color\<close> is the global of the same name, from which \<^verbatim>\<open>tty_init\<close> takes \<^verbatim>\<open>vid_mask\<close> and the other video
  parameters, and \<open>scan_code\<close> that of the key typed at boot; the addresses are those of the driver's arrays in the kernel's data segment.  The
  dumps of \<^verbatim>\<open>dmp.c\<close> are the characters they print.
\<close>

record tty_env =
  color :: bool
  scan_code :: int
  tty_buf_at :: u16
  driver_buf_at :: u16
  keybd_mess_at :: u16
  port_b :: u16
  p_dmp :: "kernel \<Rightarrow> u8 list"
  map_dmp :: "kernel \<Rightarrow> u8 list"

record tty_answer =
  rep_code :: int
  rep_to :: int
  rep_proc :: int
  rep_status :: int
  rep_flags :: int
  rep_spek :: int

record tty =
  tty_inqueue :: "nat \<Rightarrow> u8"
  tty_inhead :: nat
  tty_intail :: nat
  tty_incount :: int
  tty_lfct :: int
  tty_ramqueue :: "nat \<Rightarrow> u16"
  tty_rwords :: nat
  tty_org :: u16
  tty_vid :: u16
  tty_esc_state :: nat
  tty_echar :: u8
  tty_attribute :: u16
  tty_mode :: u16
  tty_column :: int
  tty_row :: int
  tty_escaped :: bool
  tty_inhibited :: bool
  tty_makebreak :: bool
  tty_waiting :: bool
  tty_erase :: u8
  tty_kill :: u8
  tty_intr :: u8
  tty_quit :: u8
  tty_xon :: u8
  tty_xoff :: u8
  tty_eof :: u8
  tty_incaller :: int
  tty_inproc :: int
  tty_in_vir :: u16
  tty_inleft :: int
  tty_otcaller :: int
  tty_outproc :: int
  tty_out_vir :: u16
  tty_phys :: u32
  tty_outleft :: int
  tty_cum :: int
  shift1 :: bool
  shift2 :: bool
  capslock :: bool
  numlock :: bool
  control :: bool
  alt :: bool
  olivetti :: bool
  vram :: "u16 \<Rightarrow> u16"
  port_outs :: "(u16 \<times> u16) list"
  tty_sent :: "tty_answer list"

abbreviation (input) "TTY_IN_BYTES \<equiv> (200::nat)"
abbreviation (input) "TTY_RAM_WORDS \<equiv> (320::nat)"
abbreviation (input) "TTY_BUF_SIZE \<equiv> (256::nat)"
abbreviation (input) "MAX_OVERRUN \<equiv> (16::int)"
abbreviation (input) "XTABS \<equiv> (0xC00::u16)"
abbreviation (input) "RAW \<equiv> (0x20::u16)"
abbreviation (input) "CRMOD \<equiv> (0x10::u16)"
abbreviation (input) "ECHO \<equiv> (8::u16)"
abbreviation (input) "CBREAK \<equiv> (2::u16)"
abbreviation (input) "COOKED \<equiv> (0::u16)"
abbreviation (input) "MARKER \<equiv> (0::u8)"
abbreviation (input) "LF \<equiv> (10::u8)"
abbreviation (input) "CR \<equiv> (13::u8)"
abbreviation (input) "BS \<equiv> (8::u8)"
abbreviation (input) "TAB \<equiv> (9::u8)"
abbreviation (input) "ESC \<equiv> (27::u8)"
abbreviation (input) "SPACE \<equiv> (32::u8)"
abbreviation (input) "BACKSLASH \<equiv> (92::u8)"
abbreviation (input) "BLANK \<equiv> (0x700::u16)"
abbreviation (input) "LINE_WIDTH \<equiv> (80::int)"
abbreviation (input) "SCR_LINES \<equiv> (25::int)"
abbreviation (input) "VID_ORG \<equiv> (12::u16)"
abbreviation (input) "CURSOR \<equiv> (14::u16)"
abbreviation (input) "CUR_SIZE \<equiv> (10::u16)"

text \<open>What a store into a C \<^verbatim>\<open>char\<close> leaves of an \<^verbatim>\<open>int\<close>.\<close>

definition schar :: "int \<Rightarrow> int" where
  "schar x = sint (word_of_int x :: u8)"

definition vid_mask :: "tty_env \<Rightarrow> u16" where
  "vid_mask e = (if color e then 0x3FFF else 0x0FFF)"

definition vid_port :: "tty_env \<Rightarrow> u16" where
  "vid_port e = (if color e then 0x3D0 else 0x3B0)"

definition vid_retrace :: "tty_env \<Rightarrow> int" where
  "vid_retrace e = (if color e then 0x300 else 0x7000)"

definition port_out :: "u16 \<Rightarrow> u16 \<Rightarrow> tty \<Rightarrow> tty" where
  "port_out p v t = t\<lparr>port_outs := port_outs t @ [(p, v)]\<rparr>"

section \<open>vid_copy\<close>

text \<open>
  Words go to the video RAM from offset \<open>off AND vid_mask\<close> on; what does not fit before its end is copied to
  its beginning.  A nil buffer is the constant function \<open>BLANK\<close>.
\<close>

definition store_words :: "(nat \<Rightarrow> u16) \<Rightarrow> u16 \<Rightarrow> nat \<Rightarrow> (u16 \<Rightarrow> u16) \<Rightarrow> (u16 \<Rightarrow> u16)" where
  "store_words buf di cx = fold (\<lambda>i v. v(di + 2 * word_of_nat i := buf i)) [0..<cx]"

definition overrun :: "tty_env \<Rightarrow> u16 \<Rightarrow> nat \<Rightarrow> int" where
  "overrun e di words = uint di + 2 * int words - uint (vid_mask e) - 1"

lemma overrun_less: "0 < overrun e (off AND vid_mask e) words \<Longrightarrow> nat (overrun e (off AND vid_mask e) words div 2) < words"
proof -
  have "uint (off AND vid_mask e) \<le> uint (vid_mask e)" by (simp add: word_and_le1 word_le_def [symmetric])
  then show "0 < overrun e (off AND vid_mask e) words \<Longrightarrow> ?thesis" unfolding overrun_def by arith
qed

function vid_copy :: "tty_env \<Rightarrow> (nat \<Rightarrow> u16) \<Rightarrow> u16 \<Rightarrow> nat \<Rightarrow> (u16 \<Rightarrow> u16) \<Rightarrow> (u16 \<Rightarrow> u16)" where
  "vid_copy e buf off words v =
     (let di = off AND vid_mask e; bx = overrun e di words
      in if bx \<le> 0 then store_words buf di words v
         else (let rest = nat (bx div 2); cx = words - rest; v1 = store_words buf di cx v
               in if rest = 0 then v1 else vid_copy e (\<lambda>i. buf (i + cx)) 0 rest v1))"
  by pat_completeness auto

termination
  by (relation "measure (\<lambda>(e, buf, off, words, v). words)") (auto intro: overrun_less)

declare vid_copy.simps [simp del]

section \<open>The 6845, the cursor and the screen\<close>

definition set_6845 :: "tty_env \<Rightarrow> u16 \<Rightarrow> u16 \<Rightarrow> tty \<Rightarrow> tty" where
  "set_6845 e reg val =
     port_out (vid_port e + 5) (val AND 0xFF) \<circ> port_out (vid_port e + 4) (reg + 1)
     \<circ> port_out (vid_port e + 5) (drop_bit 8 val AND 0xFF) \<circ> port_out (vid_port e + 4) reg"

definition flush :: "tty_env \<Rightarrow> tty \<Rightarrow> tty" where
  "flush e t =
     (if tty_rwords t = 0 then t
      else
        (let t1 = t\<lparr>vram := vid_copy e (tty_ramqueue t) (tty_vid t) (tty_rwords t) (vram t),
                    tty_vid := tty_vid t + 2 * word_of_nat (tty_rwords t)\<rparr>
         in (set_6845 e CURSOR (signed_drop_bit 1 (tty_vid t1)) t1)\<lparr>tty_rwords := 0\<rparr>))"

definition move_to :: "tty_env \<Rightarrow> int \<Rightarrow> int \<Rightarrow> tty \<Rightarrow> tty" where
  "move_to e x y t0 =
     (let t = flush e t0
      in if x < 0 \<or> x \<ge> LINE_WIDTH \<or> y < 0 \<or> y \<ge> SCR_LINES then t
         else
           (let t1 = t\<lparr>tty_column := x, tty_row := y,
                       tty_vid := tty_org t + word_of_int (2 * (SCR_LINES - 1 - y) * LINE_WIDTH + 2 * x)\<rparr>
            in set_6845 e CURSOR (signed_drop_bit 1 (tty_vid t1)) t1))"

definition scroll_screen :: "tty_env \<Rightarrow> bool \<Rightarrow> tty \<Rightarrow> tty" where
  "scroll_screen e forward t =
     (let amount = (if forward then 160 else - 160);
          org = (tty_org t + amount) AND vid_mask e;
          offset = (if forward then (org + 3840) AND vid_mask e else org)
      in set_6845 e VID_ORG (signed_drop_bit 1 org)
           (t\<lparr>tty_org := org, vram := vid_copy e (\<lambda>i. BLANK) offset (nat LINE_WIDTH) (vram t)\<rparr>))"

text \<open>The bell: the timer's channel 2 is loaded with \<^verbatim>\<open>BEEP_FREQ\<close> and gated to the speaker for a while.\<close>

definition beep :: "tty_env \<Rightarrow> tty \<Rightarrow> tty" where
  "beep e = port_out 0x61 (port_b e) \<circ> port_out 0x61 (port_b e OR 3) \<circ> port_out 0x42 0x05 \<circ> port_out 0x42 0x33
     \<circ> port_out 0x43 0xB6"

text \<open>The loop of \<^verbatim>\<open>escape\<close> that clears to the end of the screen, \<open>vid_retrace\<close> bytes at a time.\<close>

function clear_loop :: "tty_env \<Rightarrow> int \<Rightarrow> u16 \<Rightarrow> (u16 \<Rightarrow> u16) \<Rightarrow> (u16 \<Rightarrow> u16)" where
  "clear_loop e n vx v =
     (if n > 0
      then (let ct = min n (vid_retrace e)
            in clear_loop e (n - ct) (vx + word_of_int ct) (vid_copy e (\<lambda>i. BLANK) vx (nat (ct div 2)) v))
      else v)"
  by pat_completeness auto

termination
  by (relation "measure (\<lambda>(e, n, vx, v). nat n)") (auto simp: vid_retrace_def)

declare clear_loop.simps [simp del]

definition escape :: "tty_env \<Rightarrow> u8 \<Rightarrow> u8 \<Rightarrow> tty \<Rightarrow> tty" where
  "escape e x y t =
     (if x = 122 then t\<lparr>tty_attribute := push_bit 8 (scast y)\<rparr>
      else if x = 126 then
        (if y = 48
         then t\<lparr>vram := clear_loop e (2 * LINE_WIDTH * (tty_row t + 1) - 2 * tty_column t) (tty_vid t) (vram t)\<rparr>
         else if y = 49 then scroll_screen e False t
         else t)
      else move_to e (sint x - 32) (sint y - 32) t)"

section \<open>out_char\<close>

text \<open>
  \<open>put_glyph\<close> is the default branch of \<^verbatim>\<open>out_char\<close>, which is also what the calls \<^verbatim>\<open>out_char(tp, ' ')\<close> for a
  tab come to, and \<open>tabs\<close> the loop of these calls.
\<close>

definition put_glyph :: "tty_env \<Rightarrow> u8 \<Rightarrow> tty \<Rightarrow> tty" where
  "put_glyph e c t =
     (if tty_column t \<ge> LINE_WIDTH then t
      else
        (let t1 = (if tty_rwords t = TTY_RAM_WORDS then flush e t else t)
         in t1\<lparr>tty_ramqueue := (tty_ramqueue t1)(tty_rwords t1 := tty_attribute t1 OR scast c),
               tty_rwords := tty_rwords t1 + 1, tty_column := tty_column t1 + 1\<rparr>))"

partial_function (option) tabs :: "tty_env \<Rightarrow> tty \<Rightarrow> tty option" where
  "tabs e t =
     (let t1 = put_glyph e SPACE t
      in if tty_column t1 mod 8 \<noteq> 0 then tabs e t1 else Some t1)"

definition line_feed :: "tty_env \<Rightarrow> tty \<Rightarrow> tty" where
  "line_feed e t =
     (let t1 = (if has_flag (tty_mode t) CRMOD then move_to e 0 (tty_row t) t else t);
          t2 = (if tty_row t1 = 0 then scroll_screen e True t1 else t1\<lparr>tty_row := tty_row t1 - 1\<rparr>)
      in move_to e (tty_column t2) (tty_row t2) t2)"

definition out_char :: "tty_env \<Rightarrow> u8 \<Rightarrow> tty \<Rightarrow> tty option" where
  "out_char e c t =
     (if tty_esc_state t = 1 then Some (t\<lparr>tty_echar := c, tty_esc_state := 2\<rparr>)
      else if tty_esc_state t = 2 then Some ((escape e (tty_echar t) c t)\<lparr>tty_esc_state := 0\<rparr>)
      else if c = 7 then Some (beep e (flush e t))
      else if c = 11 then Some (move_to e (tty_column t) (tty_row t + 1) t)
      else if c = 12 \<or> c = 14 then Some (move_to e (tty_column t + 1) (tty_row t) t)
      else if c = BS then Some (move_to e (tty_column t - 1) (tty_row t) t)
      else if c = LF then Some (line_feed e t)
      else if c = CR then Some (move_to e 0 (tty_row t) t)
      else if c = TAB then (if tty_mode t AND XTABS = XTABS then tabs e t else Some t)
      else if c = ESC then Some ((flush e t)\<lparr>tty_esc_state := 1\<rparr>)
      else Some (put_glyph e c t))"

primrec out_chars :: "tty_env \<Rightarrow> u8 list \<Rightarrow> tty \<Rightarrow> tty option" where
  "out_chars e [] t = Some t"
| "out_chars e (c # xs) t = do { t1 \<leftarrow> out_char e c t; out_chars e xs t1 }"

text \<open>\<^verbatim>\<open>echo\<close> shows a typed character, but not a marker.\<close>

definition echo :: "tty_env \<Rightarrow> u8 \<Rightarrow> tty \<Rightarrow> tty option" where
  "echo e c t =
     (if \<not> has_flag (tty_mode t) ECHO then Some t
      else do { t1 \<leftarrow> (if c \<noteq> MARKER then out_char e c t else Some t); Some (flush e t1) })"

definition putc :: "tty_env \<Rightarrow> u8 \<Rightarrow> tty \<Rightarrow> tty option" where
  "putc e c = out_char e c"

section \<open>Start-up\<close>

definition tty_init :: "tty_env \<Rightarrow> tty \<times> kernel \<Rightarrow> tty \<times> kernel" where
  "tty_init e = (\<lambda>(t, k).
     (let t1 = t\<lparr>tty_inhead := 0, tty_intail := 0, tty_mode := CRMOD OR XTABS OR ECHO, tty_erase := BS, tty_kill := 64,
                 tty_intr := 127, tty_quit := 28, tty_xon := 17, tty_xoff := 19, tty_eof := 4, tty_makebreak := True,
                 tty_attribute := BLANK\<rparr>;
          ds = mem_phys (p_map (procs k HARDWARE) SEG_D);
          k1 = k\<lparr>memory := (memory k)(phys_of ds (driver_buf_at e + 1) := word_of_int MAX_OVERRUN)\<rparr>;
          t2 = move_to e 0 0 (set_6845 e VID_ORG 0 (set_6845 e CUR_SIZE 31 t1))
      in (if scan_code e = 12 then t2\<lparr>olivetti := True\<rparr> else t2, k1)))"

end
