(* ===== verification/KTtyIn.thy ===== *)
theory KTtyIn
  imports KTty
begin

text \<open>
  The terminal task, \<^verbatim>\<open>kernel/tty.c\<close>, second half: the keyboard's interrupt routine, typed characters with the
  editing of lines, reading, writing, the parameters of the terminal, and the main loop's \<^verbatim>\<open>tty_task\<close>.

  The driver's arrays that other code reaches by address (\<^verbatim>\<open>tty_driver_buf\<close>, \<^verbatim>\<open>tty_buf\<close>, \<^verbatim>\<open>keybd_mess\<close>) are
  bytes of the kernel's data segment.
\<close>

definition kernel_ds :: "kernel \<Rightarrow> u16" where
  "kernel_ds k = mem_phys (p_map (procs k HARDWARE) SEG_D)"

definition peek :: "kernel \<Rightarrow> u16 \<Rightarrow> u8" where
  "peek k a = memory k (phys_of (kernel_ds k) a)"

definition poke :: "u16 \<Rightarrow> u8 \<Rightarrow> kernel \<Rightarrow> kernel" where
  "poke a b k = k\<lparr>memory := (memory k)(phys_of (kernel_ds k) a := b)\<rparr>"

abbreviation (input) "E_TRY_AGAIN \<equiv> (-3::int)"
abbreviation (input) "TTY \<equiv> (-7::int)"
abbreviation (input) "SIGINT \<equiv> (2::nat)"
abbreviation (input) "SIGQUIT \<equiv> (3::nat)"
abbreviation (input) "TTY_CHAR_INT \<equiv> (1::int)"
abbreviation (input) "TTY_READ \<equiv> (3::int)"
abbreviation (input) "TTY_IOCTL \<equiv> (5::int)"

definition tty_reply :: "int \<Rightarrow> int \<Rightarrow> int \<Rightarrow> int \<Rightarrow> int \<Rightarrow> int \<Rightarrow> tty \<Rightarrow> tty" where
  "tty_reply code replyee proc_nr st extra other t =
     t\<lparr>tty_sent := tty_sent t @ [\<lparr>rep_code = code, rep_to = replyee, rep_proc = proc_nr, rep_status = st,
                                   rep_flags = extra, rep_spek = other\<rparr>]\<rparr>"

section \<open>Output\<close>

text \<open>\<^verbatim>\<open>finish\<close> ends a write.\<close>

definition finish :: "int \<Rightarrow> tty \<Rightarrow> tty" where
  "finish code t =
     (let t1 = t\<lparr>tty_rwords := 0, tty_outleft := 0\<rparr>
      in if \<not> tty_waiting t1 then t1
         else (tty_reply TASK_REPLY (tty_otcaller t1) (tty_outproc t1) code 0 0 t1)\<lparr>tty_waiting := False\<rparr>)"

fun console_loop :: "tty_env \<Rightarrow> kernel \<Rightarrow> u16 \<Rightarrow> nat \<Rightarrow> u16 \<Rightarrow> tty \<Rightarrow> (u16 \<times> tty) option" where
  "console_loop e k segment 0 offset t = Some (offset, t)"
| "console_loop e k segment (Suc n) offset t =
     (if tty_inhibited t then Some (offset, t)
      else do {
        t1 \<leftarrow> out_char e (get_byte segment offset k) t;
        console_loop e k segment n (offset + 1) (t1\<lparr>tty_outleft := tty_outleft t1 - 1\<rparr>)
      })"

definition console :: "tty_env \<Rightarrow> kernel \<Rightarrow> tty \<Rightarrow> tty option" where
  "console e k t =
     (let segment = ucast (drop_bit 4 (tty_phys t)); offset1 = ucast (tty_phys t AND 15)
      in do {
        (offset, t1) \<leftarrow> console_loop e k segment (nat (tty_outleft t)) offset1 t;
        let t2 = flush e t1;
        let count = sint (offset - offset1);
        let t3 = t2\<lparr>tty_phys := tty_phys t2 + word_of_int count, tty_cum := int_of (tty_cum t2 + count)\<rparr>;
        Some (if tty_outleft t3 = 0 then finish (tty_cum t3) t3 else t3)
      })"

definition do_write_tty :: "tty_env \<Rightarrow> kmess \<Rightarrow> tty \<times> kernel \<Rightarrow> (tty \<times> kernel) option" where
  "do_write_tty e m = (\<lambda>(t, k).
     (let t1 = t\<lparr>tty_otcaller := schar (m_source m), tty_outproc := schar (m2_i2 m), tty_out_vir := m2_p1 m,
                 tty_outleft := m2_i3 m, tty_waiting := True, tty_cum := 0\<rparr>;
          phys = umap (procs k (tty_outproc t1)) SEG_D (tty_out_vir t1) (word_of_int (tty_outleft t1));
          t2 = t1\<lparr>tty_phys := phys\<rparr>;
          t3 = (if phys = 0 then t2\<lparr>tty_cum := E_BAD_ADDR, tty_outleft := 0\<rparr> else t2)
      in do { t4 \<leftarrow> console e k t3; Some (t4, k) }))"

section \<open>The input queue\<close>

definition next_in :: "nat \<Rightarrow> nat" where
  "next_in i = (if i + 1 = TTY_IN_BYTES then 0 else i + 1)"

definition prev_in :: "nat \<Rightarrow> nat" where
  "prev_in i = (if i \<noteq> 0 then i - 1 else TTY_IN_BYTES - 1)"

definition store_in :: "u8 \<Rightarrow> tty \<Rightarrow> tty" where
  "store_in ch t = t\<lparr>tty_inqueue := (tty_inqueue t)(tty_inhead t := ch), tty_inhead := next_in (tty_inhead t),
                     tty_incount := tty_incount t + 1\<rparr>"

text \<open>\<^verbatim>\<open>chuck\<close>: \<open>None\<close> is the return value \<^verbatim>\<open>-1\<close>, nothing erased.\<close>

definition chuck :: "tty \<Rightarrow> tty option" where
  "chuck t =
     (if tty_incount t = 0 then None
      else if tty_inqueue t (prev_in (tty_inhead t)) = LF \<or> tty_inqueue t (prev_in (tty_inhead t)) = CR then None
      else Some (t\<lparr>tty_inhead := prev_in (tty_inhead t), tty_incount := tty_incount t - 1\<rparr>))"

partial_function (option) chuck_line :: "tty \<Rightarrow> tty option" where
  "chuck_line t = (case chuck t of None \<Rightarrow> Some t | Some t1 \<Rightarrow> chuck_line t1)"

section \<open>Key numbers\<close>

definition unsh :: "u8 list" where
  "unsh = [0, 27, 49, 50, 51, 52, 53, 54, 55, 56, 57, 48, 45, 61, 8, 9, 113, 119, 101, 114, 116, 121, 117, 105, 111,
    112, 91, 93, 13, 130, 97, 115, 100, 102, 103, 104, 106, 107, 108, 59, 39, 96, 128, 92, 122, 120, 99, 118, 98, 110,
    109, 44, 46, 47, 129, 42, 131, 32, 132, 161, 162, 163, 164, 165, 166, 167, 168, 169, 170, 133, 136, 183, 184, 185,
    137, 180, 181, 182, 140, 177, 178, 179, 48, 127]"

definition sh :: "u8 list" where
  "sh = [0, 27, 33, 64, 35, 36, 37, 94, 38, 42, 40, 41, 95, 43, 8, 9, 81, 87, 69, 82, 84, 89, 85, 73, 79, 80, 123,
    125, 13, 130, 65, 83, 68, 70, 71, 72, 74, 75, 76, 58, 34, 126, 128, 124, 90, 88, 67, 86, 66, 78, 77, 60, 62, 63,
    129, 42, 131, 32, 132, 145, 146, 147, 148, 149, 150, 151, 152, 153, 154, 132, 139, 55, 56, 57, 137, 52, 53, 54,
    140, 49, 50, 51, 48, 177]"

definition unm24 :: "u8 list" where
  "unm24 = [0, 27, 49, 50, 51, 52, 53, 54, 55, 56, 57, 48, 45, 94, 8, 9, 113, 119, 101, 114, 116, 121, 117, 105, 111,
    112, 64, 91, 13, 130, 97, 115, 100, 102, 103, 104, 106, 107, 108, 59, 58, 93, 128, 92, 122, 120, 99, 118, 98, 110,
    109, 44, 46, 47, 129, 42, 131, 32, 132, 161, 162, 163, 164, 165, 166, 167, 168, 169, 170, 19, 136, 183, 184, 185,
    137, 180, 181, 182, 140, 177, 178, 179, 48, 46, 32, 12, 138, 13, 180, 178, 182, 184, 26, 139, 32, 47, 171, 172,
    173, 174, 175, 141, 142, 143]"

definition m24 :: "u8 list" where
  "m24 = [0, 27, 33, 34, 35, 36, 37, 38, 39, 40, 41, 95, 61, 126, 8, 9, 81, 87, 69, 82, 84, 89, 85, 73, 79, 80, 96,
    123, 13, 130, 65, 83, 68, 70, 71, 72, 74, 75, 76, 43, 42, 125, 128, 124, 90, 88, 67, 86, 66, 78, 77, 60, 62, 63,
    129, 42, 131, 32, 132, 145, 146, 147, 148, 149, 150, 151, 152, 153, 154, 184, 19, 55, 56, 57, 137, 52, 53, 54,
    140, 49, 50, 51, 135, 127, 185, 12, 186, 13, 8, 10, 12, 30, 26, 187, 188, 47, 155, 156, 157, 158, 159, 189, 190,
    191]"

definition entry :: "u8 list \<Rightarrow> nat \<Rightarrow> u8 option" where
  "entry tab c = (if c < length tab then Some (tab ! c) else None)"

text \<open>The key's code before the effects of ALT and CONTROL; \<open>None\<close> when a table is indexed beyond its end.\<close>

definition key_code :: "tty \<Rightarrow> nat \<Rightarrow> u8 option" where
  "key_code t c = do {
     let shifted = (shift1 t \<or> shift2 t \<or> capslock t);
     code \<leftarrow> (if \<not> olivetti t then entry (if shifted then sh else unsh) c
               else entry (if shifted then m24 else unm24) c);
     code1 \<leftarrow> (if control t \<and> c < 14 then entry sh c else Some code);
     if c > 70 \<and> numlock t then entry (if \<not> olivetti t then sh else m24) c else Some code1
   }"

definition shift_key :: "u8 \<Rightarrow> bool \<Rightarrow> tty \<Rightarrow> tty" where
  "shift_key code pressed t =
     (if code = 128 then t\<lparr>shift1 := pressed\<rparr>
      else if code = 129 then t\<lparr>shift2 := pressed\<rparr>
      else if code = 130 then t\<lparr>control := pressed\<rparr>
      else if code = 131 then t\<lparr>alt := pressed\<rparr>
      else if code = 132 then (if pressed then t\<lparr>capslock := \<not> capslock t\<rparr> else t)
      else if code = 133 then (if pressed then t\<lparr>numlock := \<not> numlock t\<rparr> else t)
      else t)"

definition make_break :: "u8 \<Rightarrow> tty \<Rightarrow> (u8 \<times> tty) option" where
  "make_break ch t = do {
     let pressed = (ch AND 128 = 0);
     code \<leftarrow> key_code t (unat (ch AND 127));
     Some (if code < 128 \<or> code \<ge> 134
           then (let c1 = (if alt t then code OR 128 else code);
                     c2 = (if control t then c1 AND 31 else c1);
                     c3 = (if c2 = 0 then 144 else c2)
                 in (if pressed then c3 else 0, t))
           else (0, shift_key code pressed t))
   }"

section \<open>Typed characters\<close>

definition func_key :: "tty_env \<Rightarrow> u8 \<Rightarrow> tty \<times> kernel \<Rightarrow> (tty \<times> kernel) option" where
  "func_key e ch = (\<lambda>(t, k).
     do { t1 \<leftarrow> (if ch = 59 then out_chars e (p_dmp e k) t else if ch = 60 then out_chars e (map_dmp e k) t else Some t);
          Some (t1, k) })"

text \<open>What all modes do: count line feeds, store the character and echo it.\<close>

definition queue_char :: "tty_env \<Rightarrow> u8 \<Rightarrow> tty \<Rightarrow> tty option" where
  "queue_char e ch t =
     echo e ch (store_in ch (if ch = LF \<or> ch = MARKER then t\<lparr>tty_lfct := tty_lfct t + 1\<rparr> else t))"

text \<open>The editing of a line in cooked mode: \<open>None\<close> as the character when it has been used up.\<close>

definition edit_char :: "tty_env \<Rightarrow> u8 \<Rightarrow> tty \<Rightarrow> (u8 option \<times> tty) option" where
  "edit_char e ch t =
     (if ch = tty_erase t \<and> \<not> tty_escaped t
      then do {
        t1 \<leftarrow> echo e BS (case chuck t of None \<Rightarrow> t | Some t0 \<Rightarrow> t0);
        t2 \<leftarrow> echo e SPACE t1;
        t3 \<leftarrow> echo e BS t2;
        Some (None, t3)
      }
      else if ch = tty_kill t \<and> \<not> tty_escaped t
      then do {
        t1 \<leftarrow> chuck_line t;
        t2 \<leftarrow> echo e (tty_kill t1) t1;
        t3 \<leftarrow> echo e LF t2;
        Some (None, t3)
      }
      else if \<not> tty_escaped t
      then (if ch = BACKSLASH then do { t1 \<leftarrow> echo e ch (t\<lparr>tty_escaped := True\<rparr>); Some (None, t1) }
            else Some (Some (if ch = tty_eof t then MARKER else ch), t))
      else
        (let t1 = t\<lparr>tty_escaped := False\<rparr>
         in Some (Some ch, if ch \<noteq> tty_erase t \<and> ch \<noteq> tty_kill t \<and> ch \<noteq> tty_eof t then store_in BACKSLASH t1 else t1)))"

text \<open>Interrupt, quit, stop and start characters of the cooked and cbreak modes.\<close>

definition special_char :: "tty_env \<Rightarrow> int \<Rightarrow> u8 \<Rightarrow> tty \<times> kernel \<Rightarrow> (tty \<times> kernel) option" where
  "special_char e line ch0 = (\<lambda>(t, k).
     (let ch = (if ch0 = CR \<and> has_flag (tty_mode t) CRMOD then LF else ch0)
      in if ch = tty_intr t \<or> ch = tty_quit t
         then
           (let sg = (if ch = tty_intr t then SIGINT else SIGQUIT);
                t1 = (finish EINTR (t\<lparr>tty_inhibited := False\<rparr>))\<lparr>tty_inhead := 0, tty_intail := 0, tty_incount := 0, tty_lfct := 0\<rparr>
            in do { k1 \<leftarrow> cause_sig (LOW_USER + 1 + line) sg k; Some (t1, k1) })
         else if ch = tty_xoff t then Some (t\<lparr>tty_inhibited := True\<rparr>, k)
         else if ch = tty_xon t then do { t1 \<leftarrow> console e k (t\<lparr>tty_inhibited := False\<rparr>); Some (t1, k) }
         else do { t1 \<leftarrow> queue_char e ch t; Some (t1, k) }))"

definition in_char :: "tty_env \<Rightarrow> int \<Rightarrow> u8 \<Rightarrow> tty \<times> kernel \<Rightarrow> (tty \<times> kernel) option" where
  "in_char e line ch0 = (\<lambda>(t, k).
     if line \<noteq> 0 then None
     else if 59 \<le> ch0 \<and> ch0 \<le> 68 then func_key e ch0 (t, k)
     else if tty_incount t \<ge> int TTY_IN_BYTES then Some (t, k)
     else
       (let mode = tty_mode t AND (RAW OR CBREAK)
        in do {
          (ch, t1) \<leftarrow> (if tty_makebreak t then make_break ch0 t else Some (if mode \<noteq> RAW then ch0 AND 127 else ch0, t));
          if ch = 0 then Some (t1, k)
          else if mode = COOKED \<or> mode = CBREAK
          then do {
            (r, t2) \<leftarrow> (if mode = COOKED then edit_char e ch t1 else Some (Some ch, t1));
            case r of None \<Rightarrow> Some (t2, k) | Some ch2 \<Rightarrow> special_char e line ch2 (t2, k)
          }
          else do { t2 \<leftarrow> queue_char e ch t1; Some (t2, k) }
        }))"

section \<open>Reading\<close>

text \<open>
  The inner loop of \<^verbatim>\<open>rd_chars\<close>: at most \<open>n\<close> characters go from the queue to \<^verbatim>\<open>tty_buf\<close>; the result is
  their number \<^verbatim>\<open>ct\<close>, \<^verbatim>\<open>eot_seen\<close> and \<^verbatim>\<open>enough\<close>.
\<close>

fun fill_buf :: "tty_env \<Rightarrow> bool \<Rightarrow> nat \<Rightarrow> nat \<Rightarrow> bool \<Rightarrow> tty \<times> kernel \<Rightarrow> nat \<times> bool \<times> bool \<times> tty \<times> kernel" where
  "fill_buf e cooked 0 ct enough (t, k) = (ct, False, enough, t, k)"
| "fill_buf e cooked (Suc n) ct enough (t, k) =
     (let ch = tty_inqueue t (tty_intail t);
          t1 = t\<lparr>tty_intail := next_in (tty_intail t)\<rparr>;
          k1 = poke (tty_buf_at e + word_of_nat ct) ch k
      in if ch = LF \<or> ch = MARKER
         then
           (let t2 = t1\<lparr>tty_lfct := tty_lfct t1 - 1\<rparr>
            in if cooked then (ct + 1, ch = MARKER, True, t2, k1) else fill_buf e cooked n (ct + 1) True (t2, k1))
         else fill_buf e cooked n (ct + 1) enough (t1, k1))"

partial_function (option) rd_loop :: "tty_env \<Rightarrow> bool \<Rightarrow> u32 \<Rightarrow> u32 \<Rightarrow> int \<Rightarrow> tty \<times> kernel \<Rightarrow> (int \<times> tty \<times> kernel) option" where
  "rd_loop e cooked buf_phys user_phys cum s =
     (let (t, k) = s
      in if tty_inleft t \<le> 0 then Some (cum, t, k)
         else
           (let buf_ct = min (min (tty_inleft t) (tty_incount t)) (int TTY_BUF_SIZE);
                (ct, eot_seen, enough, t1, k1) = fill_buf e cooked (nat buf_ct) 0 False (t, k);
                user_ct = (if eot_seen then int ct - 1 else int ct);
                k2 = phys_copy buf_phys user_phys (word_of_int user_ct) k1;
                t2 = t1\<lparr>tty_inleft := tty_inleft t1 - int ct, tty_incount := tty_incount t1 - int ct\<rparr>
            in if tty_incount t2 = 0 \<or> enough then Some (cum + user_ct, t2, k2)
               else rd_loop e cooked buf_phys (user_phys + word_of_int user_ct) (cum + user_ct) (t2, k2)))"

definition rd_chars :: "tty_env \<Rightarrow> tty \<times> kernel \<Rightarrow> (int \<times> tty \<times> kernel) option" where
  "rd_chars e = (\<lambda>(t, k).
     (let cooked = (tty_mode t AND (RAW OR CBREAK) = 0)
      in if tty_incount t = 0 \<or> cooked \<and> tty_lfct t = 0 then Some (SUSPEND, t, k)
         else
           (let user_phys = umap (procs k (tty_inproc t)) SEG_D (tty_in_vir t) (word_of_int (tty_inleft t))
            in if user_phys = 0 then Some (E_BAD_ADDR, t, k)
               else
                 (let buf_phys = umap (procs k TTY) SEG_D (tty_buf_at e) (word_of_nat TTY_BUF_SIZE)
                  in do {
                    (cum, t1, k1) \<leftarrow> rd_loop e cooked buf_phys user_phys 0 (t, k);
                    Some (cum, t1\<lparr>tty_inleft := 0\<rparr>, k1)
                  }))))"

definition do_read_tty :: "tty_env \<Rightarrow> kmess \<Rightarrow> tty \<times> kernel \<Rightarrow> (tty \<times> kernel) option" where
  "do_read_tty e m = (\<lambda>(t, k).
     if tty_inleft t > 0 then Some (tty_reply TASK_REPLY (m_source m) (m2_i2 m) E_TRY_AGAIN 0 0 t, k)
     else do {
       (code, t1, k1) \<leftarrow> rd_chars e (t\<lparr>tty_incaller := schar (m_source m), tty_inproc := schar (m2_i2 m),
                                          tty_in_vir := m2_p1 m, tty_inleft := m2_i3 m\<rparr>, k);
       Some (tty_reply TASK_REPLY (m_source m) (tty_inproc t1) code 0 0 t1, k1)
     })"

section \<open>Interrupts from the keyboard\<close>

text \<open>The accumulated characters and their lines, two bytes each, as \<^verbatim>\<open>do_charint\<close> copies them.\<close>

definition take_typed :: "u16 \<Rightarrow> kernel \<Rightarrow> (u8 \<times> u8) list \<times> kernel" where
  "take_typed a k =
     (let n = nat (sint (peek k a))
      in (map (\<lambda>i. (peek k (a + 2 + 2 * word_of_nat i), peek k (a + 3 + 2 * word_of_nat i))) [0..<n], poke a 0 k))"

definition wake_reader :: "tty_env \<Rightarrow> tty \<times> kernel \<Rightarrow> (tty \<times> kernel) option" where
  "wake_reader e = (\<lambda>(t, k).
     if tty_inleft t > 0 \<and> (tty_lfct t > 0 \<or> tty_mode t AND (CBREAK OR RAW) \<noteq> 0 \<and> tty_incount t > 0)
     then do {
       (m, t1, k1) \<leftarrow> rd_chars e (t, k);
       Some (tty_reply REVIVE (tty_incaller t1) (tty_inproc t1) m 0 0 t1, k1)
     }
     else Some (t, k))"

fun charint_loop :: "tty_env \<Rightarrow> (u8 \<times> u8) list \<Rightarrow> tty \<times> kernel \<Rightarrow> (tty \<times> kernel) option" where
  "charint_loop e [] s = Some s"
| "charint_loop e ((ch, n) # rest) s = do {
     s1 \<leftarrow> in_char e (sint n) ch s;
     s2 \<leftarrow> wake_reader e s1;
     charint_loop e rest s2
   }"

definition do_charint :: "tty_env \<Rightarrow> kmess \<Rightarrow> tty \<times> kernel \<Rightarrow> (tty \<times> kernel) option" where
  "do_charint e m = (\<lambda>(t, k).
     (let (typed, k1) = take_typed (m2_p1 m) k
      in if length typed > nat MAX_OVERRUN then None else charint_loop e typed (t, k1)))"

text \<open>The interrupt routine; \<open>scan\<close> is what the keyboard's port reads.\<close>

definition enable_8259 :: "tty \<Rightarrow> tty" where
  "enable_8259 = port_out 0x20 0x20"

definition keyboard :: "tty_env \<Rightarrow> u8 \<Rightarrow> tty \<times> kernel \<Rightarrow> (tty \<times> kernel) option" where
  "keyboard e scan = (\<lambda>(t0, k).
     (let t = port_out 0x61 (port_b e) (port_out 0x61 (port_b e OR 0x80) t0);
          code = uint scan; r = code - 128
      in if r > 0 \<and> r \<noteq> 29 \<and> r \<noteq> 42 \<and> r \<noteq> 54 \<and> r \<noteq> 56 \<and> r \<noteq> 69 then Some (enable_8259 t, k)
         else if r \<le> 0 \<and> \<not> has_flag (tty_mode t) RAW \<and> control t \<and> code = 31 \<and> tty_xoff t = 19
         then Some (enable_8259 (t\<lparr>tty_inhibited := True\<rparr>), k)
         else if control t \<and> alt t \<and> code = 83 then None
         else
           (let n = sint (peek k (driver_buf_at e))
            in if n < sint (peek k (driver_buf_at e + 1))
               then
                 (let at = driver_buf_at e + 2 * word_of_int n;
                      k1 = poke (driver_buf_at e) (word_of_int n + 1) (poke (at + 3) 0 (poke (at + 2) scan k));
                      k2 = k1\<lparr>memory := put16 (kernel_ds k1) (keybd_mess_at e + 18) (driver_buf_at e)
                                 (put16 (kernel_ds k1) (keybd_mess_at e + 2) (word_of_int TTY_CHAR_INT) (memory k1))\<rparr>
                  in do { k3 \<leftarrow> interrupt TTY (keybd_mess_at e) k2; Some (t, k3) })
               else Some (enable_8259 t, k))))"

section \<open>Parameters and cancelling\<close>

abbreviation (input) "TIOCGETP \<equiv> (0x7408::int)"
abbreviation (input) "TIOCSETP \<equiv> (0x7409::int)"
abbreviation (input) "TIOCGETC \<equiv> (0x7412::int)"
abbreviation (input) "TIOCSETC \<equiv> (0x7411::int)"

definition do_ioctl_tty :: "kmess \<Rightarrow> tty \<Rightarrow> tty" where
  "do_ioctl_tty m t =
     (let spek = (word_of_int (m2_l1 m) :: u32); req = m2_i3 m;
          reply = tty_reply TASK_REPLY (m_source m) (m2_i2 m)
      in if req = TIOCSETP
         then reply OK 0 0 (t\<lparr>tty_erase := ucast (drop_bit 8 spek), tty_kill := ucast spek,
                              tty_mode := word_of_int (m2_l2 m)\<rparr>)
         else if req = TIOCSETC
         then reply OK 0 0 (t\<lparr>tty_intr := ucast (drop_bit 24 spek), tty_quit := ucast (drop_bit 16 spek),
                              tty_xon := ucast (drop_bit 8 spek), tty_xoff := ucast spek,
                              tty_eof := ucast (drop_bit 8 (word_of_int (m2_l2 m) :: u32))\<rparr>)
         else if req = TIOCGETP
         then reply OK (sint (tty_mode t)) (sint (push_bit 8 (ucast (tty_erase t)) OR ucast (tty_kill t) :: u32)) t
         else if req = TIOCGETC
         then reply OK (sint (push_bit 8 (ucast (tty_eof t)) :: u32))
                (sint (push_bit 24 (ucast (tty_intr t)) OR push_bit 16 (ucast (tty_quit t))
                       OR push_bit 8 (ucast (tty_xon t)) OR ucast (tty_xoff t) :: u32)) t
         else reply EINVAL 0 0 t)"

definition do_cancel_tty :: "kmess \<Rightarrow> tty \<Rightarrow> tty" where
  "do_cancel_tty m t =
     (if tty_inleft t = 0 \<and> tty_outleft t = 0 then t
      else tty_reply TASK_REPLY (m_source m) (m2_i2 m) EINTR 0 0
        (t\<lparr>tty_inhead := 0, tty_intail := 0, tty_incount := 0, tty_lfct := 0, tty_inleft := 0, tty_outleft := 0,
           tty_waiting := False, tty_inhibited := False\<rparr>))"

text \<open>One message; a \<^verbatim>\<open>TTY_LINE\<close> other than 0 is an index outside \<^verbatim>\<open>tty_struct\<close>.\<close>

definition tty_task :: "tty_env \<Rightarrow> kmess \<Rightarrow> tty \<times> kernel \<Rightarrow> (tty \<times> kernel) option" where
  "tty_task e m = (\<lambda>(t, k).
     if m_type m = TTY_CHAR_INT then do_charint e m (t, k)
     else if m_type m \<in> {TTY_READ, TTY_WRITE, TTY_IOCTL, CANCEL} \<and> m2_i1 m \<noteq> 0 then None
     else if m_type m = TTY_READ then do_read_tty e m (t, k)
     else if m_type m = TTY_WRITE then do_write_tty e m (t, k)
     else if m_type m = TTY_IOCTL then Some (do_ioctl_tty m t, k)
     else if m_type m = CANCEL then Some (do_cancel_tty m t, k)
     else Some (tty_reply TASK_REPLY (m_source m) (m2_i2 m) EINVAL 0 0 t, k))"

end
