(* ===== verification/KTtyOut.thy ===== *)
theory KTtyOut
  imports KTtyIn
begin

text \<open>
  Output to the console: \<^verbatim>\<open>vid_copy\<close> writes around the end of the video RAM, \<^verbatim>\<open>out_char\<close> always returns
  and keeps the cursor on the screen, and characters that are printed appear in the cells after the cursor.
\<close>

section \<open>vid_copy wraps around\<close>

definition vid_size :: "tty_env \<Rightarrow> nat" where
  "vid_size e = (if color e then 0x4000 else 0x1000)"

lemma unat_vid_mask: "unat (x AND vid_mask e) = unat x mod vid_size e"
proof (cases "color e")
  case True
  have "x AND vid_mask e = take_bit 14 x" using True by (simp add: vid_mask_def take_bit_eq_mask mask_eq_exp_minus_1)
  then show ?thesis using True by (simp add: vid_size_def take_bit_eq_mod unat_mod)
next
  case False
  have "x AND vid_mask e = take_bit 12 x" using False by (simp add: vid_mask_def take_bit_eq_mask mask_eq_exp_minus_1)
  then show ?thesis using False by (simp add: vid_size_def take_bit_eq_mod unat_mod)
qed

text \<open>
  What a copy is meant to do, cell by cell: cell \<open>a\<close> of the video RAM, \<open>p\<close> bytes behind the start when one
  counts around its end, receives word \<open>p div 2\<close> when the copy is that long.
\<close>

definition screen_put :: "tty_env \<Rightarrow> (nat \<Rightarrow> u16) \<Rightarrow> u16 \<Rightarrow> nat \<Rightarrow> (u16 \<Rightarrow> u16) \<Rightarrow> (u16 \<Rightarrow> u16)" where
  "screen_put e buf off n v =
     (\<lambda>a. let p = (unat a + vid_size e - unat off mod vid_size e) mod vid_size e
          in if unat a < vid_size e \<and> even p \<and> p < 2 * n then buf (p div 2) else v a)"

lemma store_words_cell:
  assumes "unat di + 2 * cx \<le> 65536"
  shows "store_words buf di cx v a
    = (if unat di \<le> unat a \<and> unat a < unat di + 2 * cx \<and> even (unat a - unat di) then buf ((unat a - unat di) div 2) else v a)"
  using assms
proof (induction cx)
  case 0
  have "\<not> (unat di \<le> unat a \<and> unat a < unat di)" by linarith
  then show ?case by (auto simp: store_words_def)
next
  case (Suc cx)
  have u: "unat (di + 2 * word_of_nat cx) = unat di + 2 * cx"
    using Suc.prems by (simp add: unat_word_ariths unat_of_nat)
  have eq: "a = di + 2 * word_of_nat cx \<longleftrightarrow> unat a = unat di + 2 * cx" by (metis u unsigned_word_eqI)
  have IH: "store_words buf di cx v a
    = (if unat di \<le> unat a \<and> unat a < unat di + 2 * cx \<and> even (unat a - unat di) then buf ((unat a - unat di) div 2) else v a)"
    using Suc by simp
  have st: "store_words buf di (Suc cx) v a = (if a = di + 2 * word_of_nat cx then buf cx else store_words buf di cx v a)"
    by (simp add: store_words_def)
  consider (last) "unat a = unat di + 2 * cx" | (odd) "unat a = unat di + 2 * cx + 1"
    | (else) "unat a < unat di + 2 * cx \<or> unat di + 2 * cx + 1 < unat a" by linarith
  then show ?case by cases (auto simp: st IH eq)
qed

lemma vid_size_even: "even (vid_size e)" and vid_size_pos: "0 < vid_size e" and vid_size_le: "vid_size e \<le> 0x4000"
  by (simp_all add: vid_size_def)

lemma vid_mask_size: "uint (vid_mask e) + 1 = int (vid_size e)"
  by (simp add: vid_mask_def vid_size_def)

lemma vid_copy_fits:
  "overrun e (off AND vid_mask e) n \<le> 0 \<Longrightarrow> vid_copy e buf off n v = store_words buf (off AND vid_mask e) n v"
  by (subst vid_copy.simps) (simp add: Let_def)

lemma vid_copy_over:
  assumes "0 < overrun e (off AND vid_mask e) n" "nat (overrun e (off AND vid_mask e) n div 2) = r" "0 < r"
  shows "vid_copy e buf off n v
    = vid_copy e (\<lambda>i. buf (i + (n - r))) 0 r (store_words buf (off AND vid_mask e) (n - r) v)"
  using assms by (subst vid_copy.simps) (simp add: Let_def)

lemma vid_copy_wraps_at:
  assumes "even (unat off)" "2 * n \<le> vid_size e"
  shows "vid_copy e buf off n v a = screen_put e buf off n v a"
proof -
  let ?di = "off AND vid_mask e" and ?S = "vid_size e"
  define d where "d = unat ?di"
  have d: "d = unat off mod ?S" "d < ?S" using vid_size_pos by (simp_all add: d_def unat_vid_mask)
  have ev: "even d" using assms(1) vid_size_even by (simp add: d(1) dvd_mod_iff)
  have o: "overrun e ?di n = int d + 2 * int n - int ?S"
    using vid_mask_size [of e] unfolding overrun_def d_def by simp
  have sz: "?S \<le> 16384" by (rule vid_size_le)
  have p: "(unat a + ?S - d) mod ?S = (if d \<le> unat a then unat a - d else unat a + ?S - d)" if "unat a < ?S"
  proof (cases "d \<le> unat a")
    case True
    then have "unat a + ?S - d = (unat a - d) + ?S" by simp
    then have "(unat a + ?S - d) mod ?S = (unat a - d) mod ?S" by simp
    then show ?thesis using True that by simp
  next
    case False
    then have "unat a + ?S - d < ?S" using that by simp
    then show ?thesis using False by simp
  qed
  show ?thesis
  proof (cases "d + 2 * n \<le> ?S")
    case True
    have f: "unat ?di + 2 * n \<le> 65536" using True sz by (simp add: d_def)
    have "vid_copy e buf off n v a = store_words buf ?di n v a"
      using True o by (subst vid_copy_fits) simp_all
    also have "\<dots> = screen_put e buf off n v a"
      unfolding store_words_cell [OF f] screen_put_def d(1) [symmetric] Let_def d_def [symmetric]
      using True p d(2) assms(2) by (auto simp: not_le)
    finally show ?thesis .
  next
    case False
    define r where "r = (d + 2 * n - ?S) div 2"
    define c where "c = n - r"
    obtain d' S' where dS: "d = 2 * d'" "?S = 2 * S'" using ev vid_size_even [of e] by (elim evenE) auto
    have "d + 2 * n - ?S = 2 * (d' + n - S')" using dS by simp
    then have r0: "r = d' + n - S'" by (simp add: r_def)
    have r: "r = d' + n - S'" "0 < r" "c = S' - d'" "r \<le> d'" "r < n" "n = r + c"
      using False assms(2) d(2) dS by (simp_all add: r0 c_def)
    have rest: "nat (overrun e ?di n div 2) = r" unfolding o r(1) using dS by simp
    have f: "unat ?di + 2 * c \<le> 65536" using r dS d(2) sz by (simp add: d_def [symmetric])
    have o0: "overrun e (0 AND vid_mask e) r \<le> 0"
      using vid_mask_size [of e] r dS d(2) by (simp add: overrun_def)
    have f0: "unat (0 AND vid_mask e) + 2 * r \<le> 65536" using r(4) dS d(2) sz by simp
    have "unat a + ?S - d = unat a + 2 * c" using r(3) dS d(2) by simp
    then have half: "(unat a + ?S - d) div 2 = unat a div 2 + c" by simp
    have "vid_copy e buf off n v a
        = store_words (\<lambda>i. buf (i + c)) (0 AND vid_mask e) r (store_words buf ?di c v) a"
      using False o o0 by (simp only: vid_copy_over [OF _ rest r(2)] vid_copy_fits c_def)
    also have "\<dots> = screen_put e buf off n v a"
      unfolding store_words_cell [OF f] store_words_cell [OF f0] screen_put_def d(1) [symmetric] Let_def d_def [symmetric]
      using p r dS d(2) half by (auto simp: not_le)
    finally show ?thesis .
  qed
qed


text \<open>C19: \<^verbatim>\<open>vid_copy\<close> is the cell-wise copy around the end of the video RAM, for every even offset, also beyond the
  RAM, and every length up to its size.\<close>

theorem vid_copy_wraps:
  assumes "even (unat off)" "2 * n \<le> vid_size e"
  shows "vid_copy e buf off n v = screen_put e buf off n v"
  using vid_copy_wraps_at [OF assms] by (rule ext)

lemma screen_put_nothing [simp]: "screen_put e buf off 0 v = v"
  by (simp add: screen_put_def)

section \<open>The cursor stays on the screen\<close>

definition screen_ok :: "tty \<Rightarrow> bool" where
  "screen_ok t \<longleftrightarrow> 0 \<le> tty_column t \<and> tty_column t \<le> LINE_WIDTH \<and> 0 \<le> tty_row t \<and> tty_row t < SCR_LINES
     \<and> tty_rwords t \<le> TTY_RAM_WORDS \<and> tty_esc_state t \<le> 2"

text \<open>What output leaves alone: everything but the screen.\<close>

definition not_screen :: "tty \<Rightarrow> tty" where
  "not_screen t = t\<lparr>tty_ramqueue := (\<lambda>i. 0), tty_rwords := 0, tty_org := 0, tty_vid := 0, tty_esc_state := 0, tty_echar := 0,
     tty_attribute := 0, tty_column := 0, tty_row := 0, vram := (\<lambda>i. 0), port_outs := []\<rparr>"

lemma port_out_not_screen [simp]: "not_screen (port_out p v t) = not_screen t"
  by (simp add: port_out_def not_screen_def)

lemma port_out_screen_ok [simp]: "screen_ok (port_out p v t) = screen_ok t"
  by (simp add: port_out_def screen_ok_def)

lemma port_out_sel [simp]:
  "tty_column (port_out p v t) = tty_column t" "tty_row (port_out p v t) = tty_row t"
  "tty_rwords (port_out p v t) = tty_rwords t" "tty_vid (port_out p v t) = tty_vid t"
  "tty_esc_state (port_out p v t) = tty_esc_state t" "vram (port_out p v t) = vram t"
  "tty_org (port_out p v t) = tty_org t" "tty_attribute (port_out p v t) = tty_attribute t"
  by (simp_all add: port_out_def)

lemma set_6845_simps [simp]:
  "not_screen (set_6845 e r v t) = not_screen t" "screen_ok (set_6845 e r v t) = screen_ok t"
  "tty_column (set_6845 e r v t) = tty_column t" "tty_row (set_6845 e r v t) = tty_row t"
  "tty_rwords (set_6845 e r v t) = tty_rwords t" "tty_vid (set_6845 e r v t) = tty_vid t"
  "tty_esc_state (set_6845 e r v t) = tty_esc_state t" "vram (set_6845 e r v t) = vram t"
  "tty_org (set_6845 e r v t) = tty_org t" "tty_attribute (set_6845 e r v t) = tty_attribute t"
  by (simp_all add: set_6845_def)

lemma not_screen_upd [simp]:
  "not_screen (t\<lparr>tty_ramqueue := q\<rparr>) = not_screen t" "not_screen (t\<lparr>tty_rwords := w\<rparr>) = not_screen t"
  "not_screen (t\<lparr>tty_org := og\<rparr>) = not_screen t" "not_screen (t\<lparr>tty_vid := vi\<rparr>) = not_screen t"
  "not_screen (t\<lparr>tty_esc_state := es\<rparr>) = not_screen t" "not_screen (t\<lparr>tty_echar := ec\<rparr>) = not_screen t"
  "not_screen (t\<lparr>tty_attribute := att\<rparr>) = not_screen t" "not_screen (t\<lparr>tty_column := x\<rparr>) = not_screen t"
  "not_screen (t\<lparr>tty_row := y\<rparr>) = not_screen t" "not_screen (t\<lparr>vram := vr\<rparr>) = not_screen t"
  by (simp_all add: not_screen_def)

lemma flush_simps [simp]:
  "not_screen (flush e t) = not_screen t" "tty_column (flush e t) = tty_column t" "tty_row (flush e t) = tty_row t"
  "tty_rwords (flush e t) = 0" "tty_esc_state (flush e t) = tty_esc_state t" "tty_attribute (flush e t) = tty_attribute t"
  by (auto simp: flush_def Let_def)

lemma flush_ok: "screen_ok t \<Longrightarrow> screen_ok (flush e t)"
  by (simp add: screen_ok_def)

lemma move_to_ok: "screen_ok t \<Longrightarrow> screen_ok (move_to e x y t)"
  by (auto simp: move_to_def Let_def dest!: flush_ok [of t e]) (simp_all add: screen_ok_def)

lemma move_to_not_screen [simp]: "not_screen (move_to e x y t) = not_screen t"
  by (simp add: move_to_def Let_def)

lemma scroll_screen_ok: "screen_ok t \<Longrightarrow> screen_ok (scroll_screen e f t)"
  by (simp add: scroll_screen_def Let_def screen_ok_def)

lemma scroll_screen_simps [simp]:
  "not_screen (scroll_screen e f t) = not_screen t" "tty_row (scroll_screen e f t) = tty_row t"
  "tty_column (scroll_screen e f t) = tty_column t"
  by (simp_all add: scroll_screen_def Let_def)

lemma escape_ok: "screen_ok t \<Longrightarrow> screen_ok (escape e x y t)"
  by (auto simp: escape_def scroll_screen_ok move_to_ok) (simp_all add: screen_ok_def)

lemma escape_not_screen [simp]: "not_screen (escape e x y t) = not_screen t"
  by (simp add: escape_def)

lemma put_glyph_ok: "screen_ok t \<Longrightarrow> screen_ok (put_glyph e c t)"
  by (auto simp: put_glyph_def Let_def screen_ok_def)

lemma put_glyph_not_screen [simp]: "not_screen (put_glyph e c t) = not_screen t"
  by (simp add: put_glyph_def Let_def)

lemma beep_simps [simp]: "not_screen (beep e t) = not_screen t" "screen_ok (beep e t) = screen_ok t"
  by (simp_all add: beep_def)

lemma put_glyph_column: "tty_column (put_glyph e c t) = (if tty_column t < LINE_WIDTH then tty_column t + 1 else tty_column t)"
  by (simp add: put_glyph_def Let_def)

lemma tabs_returns:
  "screen_ok t \<Longrightarrow> \<exists>t'. tabs e t = Some t' \<and> screen_ok t' \<and> not_screen t' = not_screen t"
proof (induction "nat (LINE_WIDTH - tty_column t)" arbitrary: t rule: less_induct)
  case less
  let ?t1 = "put_glyph e SPACE t"
  have ok: "screen_ok ?t1" using less.prems by (rule put_glyph_ok)
  show ?case
  proof (cases "tty_column ?t1 mod 8 \<noteq> 0")
    case True
    then have "tty_column t < LINE_WIDTH"
      using less.prems by (cases "tty_column t = LINE_WIDTH") (auto simp: put_glyph_column screen_ok_def)
    then have "nat (LINE_WIDTH - tty_column ?t1) < nat (LINE_WIDTH - tty_column t)" by (simp add: put_glyph_column)
    from less.hyps [OF this ok] True show ?thesis by (subst tabs.simps) (simp add: Let_def)
  next
    case False
    then show ?thesis using ok by (subst tabs.simps) (simp add: Let_def)
  qed
qed

lemma line_feed_ok: "screen_ok t \<Longrightarrow> screen_ok (line_feed e t) \<and> not_screen (line_feed e t) = not_screen t"
proof -
  assume t: "screen_ok t"
  define t1 where "t1 = (if has_flag (tty_mode t) CRMOD then move_to e 0 (tty_row t) t else t)"
  have t1: "screen_ok t1" "not_screen t1 = not_screen t" using t by (auto simp: t1_def move_to_ok)
  define t2 where "t2 = (if tty_row t1 = 0 then scroll_screen e True t1 else t1\<lparr>tty_row := tty_row t1 - 1\<rparr>)"
  have "screen_ok t2" using t1(1) by (auto simp: t2_def scroll_screen_ok) (auto simp: screen_ok_def)
  moreover have "not_screen t2 = not_screen t" by (simp add: t2_def t1(2))
  ultimately show ?thesis by (simp add: line_feed_def Let_def t1_def [symmetric] t2_def [symmetric] move_to_ok)
qed

lemma out_char_returns:
  assumes "screen_ok t"
  shows "\<exists>t'. out_char e c t = Some t' \<and> screen_ok t' \<and> not_screen t' = not_screen t"
proof -
  have "screen_ok (t\<lparr>tty_echar := c, tty_esc_state := 2\<rparr>)"
    "screen_ok ((escape e (tty_echar t) c t)\<lparr>tty_esc_state := 0\<rparr>)" "screen_ok ((flush e t)\<lparr>tty_esc_state := 1\<rparr>)"
    using assms escape_ok [OF assms, of e "tty_echar t" c] by (simp_all add: screen_ok_def)
  then show ?thesis
    using assms tabs_returns [OF assms, of e]
    by (auto simp: out_char_def flush_ok move_to_ok line_feed_ok put_glyph_ok)
qed

lemma out_chars_returns:
  "screen_ok t \<Longrightarrow> \<exists>t'. out_chars e xs t = Some t' \<and> screen_ok t' \<and> not_screen t' = not_screen t"
proof (induction xs arbitrary: t)
  case (Cons c xs)
  obtain t1 where t1: "out_char e c t = Some t1" "screen_ok t1" "not_screen t1 = not_screen t"
    using out_char_returns [OF Cons.prems] by blast
  then show ?case using Cons.IH [OF t1(2)] by auto
qed simp

lemma echo_returns: "screen_ok t \<Longrightarrow> \<exists>t'. echo e c t = Some t' \<and> screen_ok t' \<and> not_screen t' = not_screen t"
  using out_char_returns [of t e c] by (auto simp: echo_def flush_ok)

section \<open>Text on the screen\<close>

definition printable :: "u8 \<Rightarrow> bool" where
  "printable c \<longleftrightarrow> c \<notin> {7, 8, 9, 10, 11, 12, 13, 14, 27}"

text \<open>The cell of a character: a signed character of the upper half sets every bit of the attribute byte.\<close>

definition glyph :: "tty \<Rightarrow> u8 \<Rightarrow> u16" where
  "glyph t c = (if bit c 7 then tty_attribute t OR (0xFF00 OR ucast c) else tty_attribute t OR ucast c)"

lemma scast_char: "(scast (c :: u8) :: u16) = (if bit c 7 then 0xFF00 OR ucast c else ucast c)"
proof (rule bit_word_eqI)
  fix n assume n: "n < LENGTH(16)"
  have h: "bit (0xFF00 :: u16) n \<longleftrightarrow> 8 \<le> n"
  proof -
    have e: "(0xFF00 :: u16) = push_bit 8 (mask 8)" by (simp add: mask_eq_exp_minus_1)
    show ?thesis unfolding e bit_push_bit_iff bit_mask_iff using n by auto
  qed
  have "bit (scast c :: u16) n \<longleftrightarrow> bit c (min n 7)" using n by (simp add: bit_signed_iff min_def)
  moreover have "bit (ucast c :: u16) n \<longleftrightarrow> n < 8 \<and> bit c n" using n by (auto simp: bit_unsigned_iff dest: bit_imp_le_length)
  ultimately show "bit (scast c :: u16) n \<longleftrightarrow> bit (if bit c 7 then 0xFF00 OR ucast c else ucast c :: u16) n"
    using h by (auto simp: bit_or_iff min_def)
qed

lemma glyph_code: "tty_attribute t OR scast c = glyph t c"
  by (simp add: glyph_def scast_char)

lemma out_char_printable:
  "printable c \<Longrightarrow> tty_esc_state t = 0 \<Longrightarrow> tty_column t < LINE_WIDTH \<Longrightarrow> tty_rwords t < TTY_RAM_WORDS \<Longrightarrow>
   out_char e c t = Some (t\<lparr>tty_ramqueue := (tty_ramqueue t)(tty_rwords t := glyph t c), tty_rwords := tty_rwords t + 1,
     tty_column := tty_column t + 1\<rparr>)"
  by (simp add: out_char_def put_glyph_def printable_def glyph_code Let_def)

lemma out_chars_printable:
  assumes "list_all printable xs" "tty_esc_state t = 0" "tty_column t + int (length xs) \<le> LINE_WIDTH"
    "tty_rwords t + length xs \<le> TTY_RAM_WORDS"
  shows "out_chars e xs t = Some (t\<lparr>
     tty_ramqueue := (\<lambda>i. if tty_rwords t \<le> i \<and> i < tty_rwords t + length xs then glyph t (xs ! (i - tty_rwords t)) else tty_ramqueue t i),
     tty_rwords := tty_rwords t + length xs, tty_column := tty_column t + int (length xs)\<rparr>)"
  using assms
proof (induction xs arbitrary: t)
  case (Cons c xs)
  let ?t1 = "t\<lparr>tty_ramqueue := (tty_ramqueue t)(tty_rwords t := glyph t c), tty_rwords := tty_rwords t + 1,
     tty_column := tty_column t + 1\<rparr>"
  have c: "out_char e c t = Some ?t1" using Cons.prems by (intro out_char_printable) auto
  have "glyph ?t1 x = glyph t x" for x by (simp add: glyph_def)
  then show ?case
    using Cons.prems by (simp add: c Cons.IH) (auto simp: fun_eq_iff nth_Cons' Suc_le_eq)
next
  case Nil
  have "(\<lambda>i. if tty_rwords t \<le> i \<and> i < tty_rwords t then glyph t ([] ! (i - tty_rwords t)) else tty_ramqueue t i) = tty_ramqueue t"
    by (auto simp: fun_eq_iff)
  then show ?case by simp
qed


text \<open>Two characters at the end of the video RAM, the second of them of the other half of the code: the attribute is lost.\<close>

definition demo_tty :: tty where
  "demo_tty = \<lparr>tty_inqueue = (\<lambda>i. 0), tty_inhead = 0, tty_intail = 0, tty_incount = 0, tty_lfct = 0, tty_ramqueue = (\<lambda>i. 0),
     tty_rwords = 0, tty_org = 0x3000, tty_vid = 0x3FFE, tty_esc_state = 0, tty_echar = 0, tty_attribute = 0x700,
     tty_mode = 0x18, tty_column = 7, tty_row = 3, tty_escaped = False, tty_inhibited = False, tty_makebreak = True,
     tty_waiting = False, tty_erase = 8, tty_kill = 64, tty_intr = 127, tty_quit = 28, tty_xon = 17, tty_xoff = 19,
     tty_eof = 4, tty_incaller = 1, tty_inproc = 3, tty_in_vir = 0, tty_inleft = 0, tty_otcaller = 1, tty_outproc = 3,
     tty_out_vir = 0, tty_phys = 0, tty_outleft = 0, tty_cum = 0, shift1 = False, shift2 = False, capslock = False,
     numlock = False, control = False, alt = False, olivetti = False, vram = (\<lambda>a. 0), port_outs = [], tty_sent = []\<rparr>"

definition demo_env :: tty_env where
  "demo_env = \<lparr>color = True, scan_code = 13, tty_buf_at = 0x100, driver_buf_at = 0x300, keybd_mess_at = 0x400, port_b = 0,
     p_dmp = (\<lambda>k. []), map_dmp = (\<lambda>k. [])\<rparr>"

theorem vid_copy_wraps_witness:
  "vid_copy demo_env (\<lambda>i. word_of_nat (i + 1)) 0x3FFE 2 (\<lambda>a. 0) 0 = 2"
  by (subst vid_copy_wraps) (simp_all add: screen_put_def vid_size_def demo_env_def)


section \<open>Reverse scrolling\<close>

definition cell_of :: "tty \<Rightarrow> int \<Rightarrow> int \<Rightarrow> u16" where
  "cell_of t x y = tty_org t + word_of_int (2 * (SCR_LINES - 1 - y) * LINE_WIDTH + 2 * x)"

lemma vid_mask_add: "((x AND vid_mask e) + y) AND vid_mask e = (x + y) AND vid_mask e"
proof (rule unsigned_word_eqI [where ?'a = nat], unfold unat_vid_mask)
  have d: "vid_size e dvd 65536" by (simp add: vid_size_def)
  show "unat ((x AND vid_mask e) + y) mod vid_size e = unat (x + y) mod vid_size e"
    by (simp add: unat_word_ariths unat_vid_mask mod_mod_cancel [OF d] mod_simps)
qed

text \<open>
  The comment at \<^verbatim>\<open>out_char\<close> promises for ESC ~ 1 a scroll by a line.  It moves the origin of the screen up
  by a line but leaves the cursor where it is in the video RAM and \<^verbatim>\<open>tty_row\<close> as it was, so the text that
  follows appears a line below \<^verbatim>\<open>tty_row\<close>: from the bottom row, below the screen.
\<close>

lemma reverse_scroll_displaces_cursor:
  assumes "tty_esc_state t = 0" "tty_rwords t = 0"
    "tty_vid t AND vid_mask e = cell_of t (tty_column t) (tty_row t) AND vid_mask e"
  shows "\<exists>t'. out_chars e [27, 126, 49] t = Some t' \<and> tty_row t' = tty_row t \<and> tty_column t' = tty_column t
    \<and> tty_vid t' AND vid_mask e = cell_of t' (tty_column t') (tty_row t' - 1) AND vid_mask e"
proof -
  define d where "d = (word_of_int (2 * (SCR_LINES - 1 - (tty_row t - 1)) * LINE_WIDTH + 2 * tty_column t) :: u16)"
  have "(word_of_int (2 * (SCR_LINES - 1 - tty_row t) * LINE_WIDTH + 2 * tty_column t) :: u16)
      = word_of_int (2 * (SCR_LINES - 1 - (tty_row t - 1)) * LINE_WIDTH + 2 * tty_column t + - 160)"
    by (simp add: algebra_simps)
  also have "\<dots> = d - 160" unfolding d_def of_int_add by simp
  finally have "cell_of t (tty_column t) (tty_row t) = (tty_org t - 160) + d" by (simp add: cell_of_def)
  then have "tty_vid t AND vid_mask e = (((tty_org t - 160) AND vid_mask e) + d) AND vid_mask e"
    by (simp add: assms(3) vid_mask_add)
  then show ?thesis
    using assms(1,2) by (simp add: out_char_def escape_def flush_def scroll_screen_def Let_def cell_of_def d_def)
qed

end
