(* ===== verification/KTtyEdit.thy ===== *)
theory KTtyEdit
  imports KTtyOut
begin

text \<open>
  Input to the terminal task: the circular queue \<^verbatim>\<open>tty_inqueue\<close> as a list, and the editing of typed lines
  in cooked mode against a specification over lists.
\<close>

section \<open>The input queue as a list\<close>

definition typed :: "tty \<Rightarrow> u8 list" where
  "typed t = map (\<lambda>i. tty_inqueue t ((tty_intail t + i) mod TTY_IN_BYTES)) [0..<nat (tty_incount t)]"

definition queue_ok :: "tty \<Rightarrow> bool" where
  "queue_ok t \<longleftrightarrow> tty_intail t < TTY_IN_BYTES \<and> 0 \<le> tty_incount t \<and> tty_incount t \<le> int TTY_IN_BYTES + 1
     \<and> tty_inhead t = (tty_intail t + nat (tty_incount t)) mod TTY_IN_BYTES"

definition line_end :: "u8 \<Rightarrow> bool" where
  "line_end c \<longleftrightarrow> c = LF \<or> c = CR"

text \<open>The unfinished line at the end of the queue, taken away.\<close>

definition kill_line :: "u8 list \<Rightarrow> u8 list" where
  "kill_line q = rev (dropWhile (\<lambda>c. \<not> line_end c) (rev q))"

definition erase_last :: "u8 list \<Rightarrow> u8 list" where
  "erase_last q = (if q = [] \<or> line_end (last q) then q else butlast q)"

lemma kill_line_snoc: "kill_line (q @ [c]) = (if line_end c then q @ [c] else kill_line q)"
  by (simp add: kill_line_def)

lemma kill_line_Nil [simp]: "kill_line [] = []"
  by (simp add: kill_line_def)

lemma length_kill_line: "length (kill_line q) \<le> length q"
  using length_dropWhile_le [of _ "rev q"] by (simp add: kill_line_def)

text \<open>What the line editor relies on in the queue that it fills.\<close>

locale input_queue =
  fixes put :: "u8 \<Rightarrow> 's \<Rightarrow> 's" and unput :: "'s \<Rightarrow> 's option" and unput_line :: "'s \<Rightarrow> 's option"
    and items :: "'s \<Rightarrow> u8 list" and good :: "'s \<Rightarrow> bool" and room :: nat
  assumes put_items: "good s \<Longrightarrow> length (items s) < room \<Longrightarrow> items (put c s) = items s @ [c] \<and> good (put c s)"
    and unput_none: "good s \<Longrightarrow> unput s = None \<longleftrightarrow> items s = [] \<or> line_end (last (items s))"
    and unput_some: "good s \<Longrightarrow> unput s = Some s1 \<Longrightarrow> items s1 = butlast (items s) \<and> good s1"
    and unput_line_rec: "unput_line s = (case unput s of None \<Rightarrow> Some s | Some s1 \<Rightarrow> unput_line s1)"
begin

lemma unput_erases: "good s \<Longrightarrow> items (case unput s of None \<Rightarrow> s | Some s1 \<Rightarrow> s1) = erase_last (items s)"
  using unput_none [of s] unput_some [of s] by (auto simp: erase_last_def split: option.splits)

lemma unput_line_kills: "good s \<Longrightarrow> \<exists>s1. unput_line s = Some s1 \<and> good s1 \<and> items s1 = kill_line (items s)"
proof (induction "length (items s)" arbitrary: s)
  case 0
  then show ?case using unput_none [of s] by (subst unput_line_rec) auto
next
  case (Suc n)
  then obtain q c where q: "items s = q @ [c]" by (cases "items s" rule: rev_cases) auto
  show ?case
  proof (cases "unput s")
    case None
    then show ?thesis using Suc.prems unput_none [of s] by (subst unput_line_rec) (simp add: q kill_line_snoc)
  next
    case (Some s1)
    then have s1: "items s1 = q" "good s1" "\<not> line_end c"
      using unput_some [OF Suc.prems Some] unput_none [OF Suc.prems] by (auto simp: q)
    then show ?thesis
      using Suc.hyps(1) [of s1] Suc.hyps(2) Some by (subst unput_line_rec) (simp add: q kill_line_snoc)
  qed
qed

end

lemma length_typed [simp]: "length (typed t) = nat (tty_incount t)"
  by (simp add: typed_def)

lemma next_in_mod: "i < TTY_IN_BYTES \<Longrightarrow> next_in i = (i + 1) mod TTY_IN_BYTES"
  by (auto simp: next_in_def)

lemma prev_in_mod: "prev_in ((a + Suc n) mod TTY_IN_BYTES) = (a + n) mod TTY_IN_BYTES"
proof -
  have "(a + Suc n) mod 200 = Suc ((a + n) mod 200) mod 200" by (simp add: mod_Suc_eq)
  then show ?thesis by (auto simp: prev_in_def mod_Suc)
qed

lemma mod_window: "i < n \<Longrightarrow> n \<le> 199 \<Longrightarrow> (a + i) mod 200 \<noteq> (a + n) mod (200::nat)"
proof -
  assume a: "i < n" "n \<le> 199"
  then have "\<not> 200 dvd (a + n) - (a + i)" by (simp add: nat_dvd_not_less)
  then have "(a + n) mod 200 \<noteq> (a + i) mod 200" using a by (subst mod_eq_dvd_iff_nat) auto
  then show ?thesis by simp
qed

lemma store_in_typed:
  assumes "queue_ok t" "tty_incount t < int TTY_IN_BYTES"
  shows "typed (store_in c t) = typed t @ [c] \<and> queue_ok (store_in c t)"
proof -
  obtain n where n: "tty_incount t = int n" "n < 200" using assms by (metis nonneg_int_cases of_nat_less_iff queue_ok_def)
  have h: "tty_inhead t = (tty_intail t + n) mod 200" using assms by (simp add: queue_ok_def n)
  have "(tty_intail t + i) mod 200 \<noteq> tty_inhead t" if "i < n" for i
    using mod_window [of i n "tty_intail t"] that n(2) by (simp add: h)
  then have "typed (store_in c t) = typed t @ [c]"
    by (simp add: typed_def store_in_def n h nat_add_distrib)
  moreover have "next_in (tty_inhead t) = (tty_intail t + (n + 1)) mod 200"
    by (simp add: h next_in_mod mod_Suc_eq)
  ultimately show ?thesis using assms n(2) by (simp add: queue_ok_def store_in_def n(1) nat_add_distrib)
qed

lemma chuck_none: "queue_ok t \<Longrightarrow> chuck t = None \<longleftrightarrow> typed t = [] \<or> line_end (last (typed t))"
proof -
  assume ok: "queue_ok t"
  then obtain n where n: "tty_incount t = int n" by (metis nonneg_int_cases queue_ok_def)
  show ?thesis
  proof (cases n)
    case 0
    then show ?thesis by (simp add: chuck_def n typed_def)
  next
    case (Suc m)
    have "last (typed t) = tty_inqueue t (prev_in (tty_inhead t))"
      using ok prev_in_mod [of "tty_intail t" m] by (simp add: queue_ok_def n Suc typed_def last_map nat_add_distrib)
    then show ?thesis by (simp add: chuck_def n Suc typed_def line_end_def)
  qed
qed

lemma chuck_some: "queue_ok t \<Longrightarrow> chuck t = Some t1 \<Longrightarrow> typed t1 = butlast (typed t) \<and> queue_ok t1"
proof -
  assume ok: "queue_ok t" and c: "chuck t = Some t1"
  have z: "tty_incount t \<noteq> 0" using c by (auto simp: chuck_def)
  obtain n where n: "tty_incount t = int n" using ok by (metis nonneg_int_cases queue_ok_def)
  obtain m where m: "tty_incount t = int (Suc m)" using z n by (cases n) auto
  have t1: "t1 = t\<lparr>tty_inhead := prev_in (tty_inhead t), tty_incount := tty_incount t - 1\<rparr>"
    using c by (auto simp: chuck_def split: if_splits)
  have p: "prev_in (tty_inhead t) = (tty_intail t + m) mod 200"
    using ok prev_in_mod [of "tty_intail t" m] by (simp add: queue_ok_def m nat_add_distrib)
  have c: "tty_incount t1 = int m" "tty_intail t1 = tty_intail t" "tty_inqueue t1 = tty_inqueue t"
    "tty_inhead t1 = prev_in (tty_inhead t)"
    by (simp_all add: t1 m)
  have "typed t = typed t1 @ [tty_inqueue t ((tty_intail t + m) mod TTY_IN_BYTES)]"
    unfolding typed_def c m nat_int by simp
  then have "typed t1 = butlast (typed t)" by simp
  moreover have "queue_ok t1" using ok unfolding queue_ok_def c p m by simp
  ultimately show ?thesis by simp
qed

interpretation tq: input_queue store_in chuck chuck_line typed queue_ok TTY_IN_BYTES
proof unfold_locales
  show "queue_ok s \<Longrightarrow> length (typed s) < 200 \<Longrightarrow> typed (store_in c s) = typed s @ [c] \<and> queue_ok (store_in c s)" for s c
    by (rule store_in_typed) (auto simp: queue_ok_def)
qed (simp_all add: chuck_none chuck_some chuck_line.simps)

section \<open>Output does not disturb the input\<close>

lemma off_screen:
  assumes "not_screen t' = not_screen t"
  shows "typed t' = typed t" "queue_ok t' = queue_ok t" "tty_escaped t' = tty_escaped t" "tty_mode t' = tty_mode t"
    "tty_erase t' = tty_erase t" "tty_kill t' = tty_kill t" "tty_eof t' = tty_eof t" "tty_intr t' = tty_intr t"
    "tty_quit t' = tty_quit t" "tty_xon t' = tty_xon t" "tty_xoff t' = tty_xoff t" "tty_incount t' = tty_incount t"
    "tty_lfct t' = tty_lfct t" "tty_inleft t' = tty_inleft t" "tty_sent t' = tty_sent t" "tty_inhibited t' = tty_inhibited t"
    "tty_outleft t' = tty_outleft t" "tty_inproc t' = tty_inproc t" "tty_in_vir t' = tty_in_vir t" "tty_waiting t' = tty_waiting t"
proof -
  have e: "not_screen t = t\<lparr>tty_ramqueue := (\<lambda>i. 0), tty_rwords := 0, tty_org := 0, tty_vid := 0, tty_esc_state := 0,
      tty_echar := 0, tty_attribute := 0, tty_column := 0, tty_row := 0, vram := (\<lambda>i. 0), port_outs := []\<rparr>" for t
    by (simp add: not_screen_def)
  have q: "typed (not_screen t) = typed t" "queue_ok (not_screen t) = queue_ok t" for t
    by (simp_all add: e typed_def queue_ok_def)
  show "typed t' = typed t" "queue_ok t' = queue_ok t" using assms q by metis+
  have s: "tty_escaped (not_screen t) = tty_escaped t" "tty_mode (not_screen t) = tty_mode t"
    "tty_erase (not_screen t) = tty_erase t" "tty_kill (not_screen t) = tty_kill t" "tty_eof (not_screen t) = tty_eof t"
    "tty_intr (not_screen t) = tty_intr t" "tty_quit (not_screen t) = tty_quit t" "tty_xon (not_screen t) = tty_xon t"
    "tty_xoff (not_screen t) = tty_xoff t" "tty_incount (not_screen t) = tty_incount t" "tty_lfct (not_screen t) = tty_lfct t"
    "tty_inleft (not_screen t) = tty_inleft t" "tty_sent (not_screen t) = tty_sent t"
    "tty_inhibited (not_screen t) = tty_inhibited t" "tty_outleft (not_screen t) = tty_outleft t"
    "tty_inproc (not_screen t) = tty_inproc t" "tty_in_vir (not_screen t) = tty_in_vir t" "tty_waiting (not_screen t) = tty_waiting t" for t
    by (simp_all add: e)
  show "tty_escaped t' = tty_escaped t" "tty_mode t' = tty_mode t"
    "tty_erase t' = tty_erase t" "tty_kill t' = tty_kill t" "tty_eof t' = tty_eof t" "tty_intr t' = tty_intr t"
    "tty_quit t' = tty_quit t" "tty_xon t' = tty_xon t" "tty_xoff t' = tty_xoff t" "tty_incount t' = tty_incount t"
    "tty_lfct t' = tty_lfct t" "tty_inleft t' = tty_inleft t" "tty_sent t' = tty_sent t" "tty_inhibited t' = tty_inhibited t"
    "tty_outleft t' = tty_outleft t" "tty_inproc t' = tty_inproc t" "tty_in_vir t' = tty_in_vir t" "tty_waiting t' = tty_waiting t"
    using assms s by metis+
qed

lemma typed_upd [simp]:
  "typed (t\<lparr>tty_escaped := b\<rparr>) = typed t" "queue_ok (t\<lparr>tty_escaped := b\<rparr>) = queue_ok t"
  "typed (t\<lparr>tty_lfct := n\<rparr>) = typed t" "queue_ok (t\<lparr>tty_lfct := n\<rparr>) = queue_ok t"
  "screen_ok (t\<lparr>tty_escaped := b\<rparr>) = screen_ok t" "screen_ok (t\<lparr>tty_lfct := n\<rparr>) = screen_ok t"
  by (simp_all add: typed_def queue_ok_def screen_ok_def)

lemma store_in_sel [simp]:
  "screen_ok (store_in c t) = screen_ok t" "tty_escaped (store_in c t) = tty_escaped t" "tty_mode (store_in c t) = tty_mode t"
  "tty_erase (store_in c t) = tty_erase t" "tty_kill (store_in c t) = tty_kill t" "tty_eof (store_in c t) = tty_eof t"
  "tty_intr (store_in c t) = tty_intr t" "tty_quit (store_in c t) = tty_quit t" "tty_xon (store_in c t) = tty_xon t"
  "tty_xoff (store_in c t) = tty_xoff t" "tty_incount (store_in c t) = tty_incount t + 1"
  "tty_lfct (store_in c t) = tty_lfct t"
  by (simp_all add: store_in_def screen_ok_def)

lemma chuck_sel:
  assumes "chuck t = Some t1"
  shows "screen_ok t1 = screen_ok t" "tty_escaped t1 = tty_escaped t" "tty_mode t1 = tty_mode t" "tty_kill t1 = tty_kill t"
  using assms by (auto simp: chuck_def screen_ok_def split: if_splits)

lemma chuck_line_sel:
  assumes "queue_ok t" "chuck_line t = Some t1"
  shows "screen_ok t1 = screen_ok t \<and> tty_escaped t1 = tty_escaped t \<and> tty_mode t1 = tty_mode t \<and> tty_kill t1 = tty_kill t"
  using assms
proof (induction "length (typed t)" arbitrary: t)
  case 0
  then have "typed t = []" by (simp del: length_typed)
  then have "chuck t = None" using chuck_none [OF 0(2)] by simp
  then show ?case using 0(3) by (simp add: chuck_line.simps)
next
  case (Suc n)
  show ?case
  proof (cases "chuck t")
    case None
    then show ?thesis using Suc.prems by (auto simp: chuck_line.simps)
  next
    case (Some t0)
    have t0: "typed t0 = butlast (typed t)" "queue_ok t0" using chuck_some [OF Suc.prems(1) Some] by auto
    have "chuck_line t0 = Some t1" using Suc.prems(2) Some by (subst (asm) chuck_line.simps) simp
    then show ?thesis using Suc.hyps(1) [of t0] Suc.hyps(2) t0 chuck_sel [OF Some] by (simp del: length_typed)
  qed
qed

section \<open>Editing a line\<close>

text \<open>The meaning of a typed character for the queue and the escape flag, in cooked mode.\<close>

definition newline :: "tty \<Rightarrow> u8 \<Rightarrow> u8" where
  "newline t c = (if c = CR \<and> has_flag (tty_mode t) CRMOD then LF else c)"

definition line_edit :: "tty \<Rightarrow> u8 \<Rightarrow> u8 list \<times> bool \<Rightarrow> u8 list \<times> bool" where
  "line_edit t ch = (\<lambda>(q, esc).
     if esc then (if ch \<in> {tty_erase t, tty_kill t, tty_eof t} then q @ [newline t ch] else q @ [BACKSLASH, newline t ch], False)
     else if ch = tty_erase t then (erase_last q, False)
     else if ch = tty_kill t then (kill_line q, False)
     else if ch = BACKSLASH then (q, True)
     else if ch = tty_eof t then (q @ [MARKER], False)
     else (q @ [newline t ch], False))"

definition no_signal :: "tty \<Rightarrow> u8 \<Rightarrow> bool" where
  "no_signal t c \<longleftrightarrow> c \<notin> {tty_intr t, tty_quit t, tty_xon t, tty_xoff t}"

text \<open>The character that a key stands for; 0 when it stands for none.\<close>

definition key_char :: "tty \<Rightarrow> u8 \<Rightarrow> (u8 \<times> tty) option" where
  "key_char t ch0 = (if tty_makebreak t then make_break ch0 t else Some (ch0 AND 127, t))"

lemma make_break_char: "make_break ch0 t = Some (ch, t1) \<Longrightarrow> ch \<noteq> 0 \<Longrightarrow> t1 = t"
  by (auto simp: make_break_def Let_def bind_eq_Some_conv split: if_splits)

lemma key_char_same: "key_char t ch0 = Some (ch, t1) \<Longrightarrow> ch \<noteq> 0 \<Longrightarrow> t1 = t"
  by (auto simp: key_char_def make_break_char split: if_splits)

lemma queue_char_typed:
  assumes "screen_ok t" "queue_ok t" "tty_incount t < int TTY_IN_BYTES"
  shows "\<exists>t'. queue_char e c t = Some t' \<and> screen_ok t' \<and> queue_ok t' \<and> typed t' = typed t @ [c] \<and> tty_escaped t' = tty_escaped t"
proof -
  define t0 where "t0 = (if c = LF \<or> c = MARKER then t\<lparr>tty_lfct := tty_lfct t + 1\<rparr> else t)"
  have t0: "screen_ok t0" "queue_ok t0" "tty_incount t0 < int TTY_IN_BYTES" "typed t0 = typed t" "tty_escaped t0 = tty_escaped t"
    using assms by (simp_all add: t0_def)
  have st: "typed (store_in c t0) = typed t @ [c]" "queue_ok (store_in c t0)" using store_in_typed [OF t0(2,3), of c] t0(4) by auto
  obtain t' where "echo e c (store_in c t0) = Some t'" "screen_ok t'" "not_screen t' = not_screen (store_in c t0)"
    using echo_returns [of "store_in c t0" e c] t0(1) by auto
  then show ?thesis using off_screen [of t' "store_in c t0"] st t0(5) by (auto simp: queue_char_def t0_def [symmetric])
qed

lemma special_char_typed:
  assumes "screen_ok t" "queue_ok t" "tty_incount t < int TTY_IN_BYTES" "no_signal t (newline t c)"
  shows "\<exists>t'. special_char e line c (t, k) = Some (t', k) \<and> screen_ok t' \<and> queue_ok t' \<and> typed t' = typed t @ [newline t c]
    \<and> tty_escaped t' = tty_escaped t"
  using queue_char_typed [OF assms(1-3), of e "newline t c"] assms(4)
  by (auto simp: special_char_def Let_def newline_def no_signal_def)

lemma edit_char_typed:
  assumes "screen_ok t" "queue_ok t" "tty_incount t + 1 < int TTY_IN_BYTES"
  shows "\<exists>r t'. edit_char e c t = Some (r, t') \<and> screen_ok t' \<and> queue_ok t'
    \<and> (case r of None \<Rightarrow> (typed t', tty_escaped t') = line_edit t c (typed t, tty_escaped t)
        | Some c' \<Rightarrow> \<not> tty_escaped t' \<and> tty_incount t' < int TTY_IN_BYTES \<and> c' \<in> {c, MARKER}
            \<and> (typed t' @ [newline t c'], False) = line_edit t c (typed t, tty_escaped t)
            \<and> newline t' = newline t \<and> no_signal t' = no_signal t)"
proof -
  consider (erase) "c = tty_erase t" "\<not> tty_escaped t" | (kill) "c = tty_kill t" "\<not> tty_escaped t" "c \<noteq> tty_erase t"
    | (slash) "c = BACKSLASH" "\<not> tty_escaped t" "c \<noteq> tty_erase t" "c \<noteq> tty_kill t"
    | (plain) "c \<noteq> BACKSLASH" "\<not> tty_escaped t" "c \<noteq> tty_erase t" "c \<noteq> tty_kill t" | (esc) "tty_escaped t" by blast
  then show ?thesis
  proof cases
    case erase
    define t0 where "t0 = (case chuck t of None \<Rightarrow> t | Some t0 \<Rightarrow> t0)"
    have t0: "typed t0 = erase_last (typed t)" "queue_ok t0" "screen_ok t0" "\<not> tty_escaped t0"
      using tq.unput_erases [OF assms(2)] chuck_some [OF assms(2)] chuck_sel assms(1,2) erase(2)
      by (auto simp: t0_def split: option.splits)
    obtain a1 where a1: "echo e BS t0 = Some a1" "screen_ok a1" "not_screen a1 = not_screen t0"
      using echo_returns [OF t0(3)] by blast
    obtain a2 where a2: "echo e SPACE a1 = Some a2" "screen_ok a2" "not_screen a2 = not_screen t0"
      using echo_returns [OF a1(2), of e SPACE] a1(3) by auto
    obtain a3 where a3: "echo e BS a2 = Some a3" "screen_ok a3" "not_screen a3 = not_screen t0"
      using echo_returns [OF a2(2), of e BS] a2(3) by auto
    have "edit_char e c t = Some (None, a3)"
      using erase by (simp add: edit_char_def t0_def [symmetric] a1(1) a2(1) a3(1))
    then show ?thesis
      using erase t0 a3(2) off_screen [OF a3(3)] by (simp add: line_edit_def)
  next
    case kill
    obtain t0 where t0: "chuck_line t = Some t0" "queue_ok t0" "typed t0 = kill_line (typed t)"
      using tq.unput_line_kills [OF assms(2)] by blast
    have s: "screen_ok t0" "\<not> tty_escaped t0" using chuck_line_sel [OF assms(2) t0(1)] assms(1) kill by auto
    obtain t1 where t1: "echo e (tty_kill t0) t0 = Some t1" "screen_ok t1" "not_screen t1 = not_screen t0"
      using echo_returns [OF s(1)] by blast
    obtain t2 where t2: "echo e LF t1 = Some t2" "screen_ok t2" "not_screen t2 = not_screen t0"
      using echo_returns [OF t1(2), of e LF] t1(3) by auto
    have "edit_char e c t = Some (None, t2)" using kill by (simp add: edit_char_def t0(1) t1(1) t2(1))
    then show ?thesis
      using kill t0 s(2) t2(2) off_screen [OF t2(3)] by (simp add: line_edit_def)
  next
    case slash
    have "screen_ok (t\<lparr>tty_escaped := True\<rparr>)" using assms(1) by simp
    from echo_returns [OF this, of e BACKSLASH] show ?thesis
      using slash assms off_screen [of _ "t\<lparr>tty_escaped := True\<rparr>"]
      by (auto simp: edit_char_def line_edit_def)
  next
    case plain
    then show ?thesis using assms by (auto simp: edit_char_def line_edit_def newline_def)
  next
    case esc
    let ?t1 = "t\<lparr>tty_escaped := False\<rparr>"
    have "typed (store_in BACKSLASH ?t1) = typed t @ [BACKSLASH]" "queue_ok (store_in BACKSLASH ?t1)"
      using store_in_typed [of ?t1 BACKSLASH] assms by auto
    then show ?thesis
      using esc assms by (auto simp: edit_char_def line_edit_def newline_def no_signal_def Let_def fun_eq_iff)
  qed
qed


text \<open>The erase key on a queue with an unfinished line.\<close>

definition demo_typed :: tty where
  "demo_typed = demo_tty\<lparr>tty_inqueue := (\<lambda>i. if i = 199 then 97 else if i = 0 then 10 else 98), tty_intail := 199,
     tty_inhead := 2, tty_incount := 3, tty_lfct := 1\<rparr>"


section \<open>Where editing fails\<close>

text \<open>
  The room in the queue is checked once per key, but a character after a backslash that escapes nothing
  stores two: on a queue of 199 the second goes into the place of the oldest character, and the count
  says 201.
\<close>

lemma backslash_overflows_queue:
  assumes "key_char t ch0 = Some (ch, t)" "ch \<noteq> 0" "ch0 < 59 \<or> 68 < ch0" "tty_mode t AND (RAW OR CBREAK) = 0"
    and "screen_ok t" "queue_ok t" "tty_incount t = 199" "tty_escaped t"
    and "ch \<notin> {tty_erase t, tty_kill t, tty_eof t}" "no_signal t (newline t ch)"
  shows "\<exists>t'. in_char e 0 ch0 (t, k) = Some (t', k) \<and> tty_incount t' = 201
    \<and> typed t' = newline t ch # tl (typed t) @ [BACKSLASH, newline t ch]"
proof -
  let ?t1 = "t\<lparr>tty_escaped := False\<rparr>" and ?c = "newline t ch"
  define t2 where "t2 = store_in BACKSLASH ?t1"
  have "tty_intail t2 = tty_intail t" by (simp add: t2_def store_in_def)
  then have t2: "typed t2 = typed t @ [BACKSLASH]" "queue_ok t2" "tty_incount t2 = 200" "screen_ok t2" "tty_intail t2 = tty_intail t"
    using store_in_typed [of ?t1 BACKSLASH] assms(5-7) by (simp_all add: t2_def)
  have key: "(if tty_makebreak t then make_break ch0 t
      else Some (if tty_mode t AND (RAW OR CBREAK) \<noteq> RAW then ch0 AND 127 else ch0, t)) = Some (ch, t)"
    using assms(1,4) by (simp add: key_char_def split: if_splits)
  have s: "newline t2 = newline t" "no_signal t2 = no_signal t"
    by (simp_all add: t2_def newline_def no_signal_def fun_eq_iff)
  have ed: "edit_char e ch t = Some (Some ch, t2)" using assms(8,9) by (simp add: edit_char_def t2_def)
  have ns: "special_char e 0 ch (t2, k) = do { t3 \<leftarrow> queue_char e ?c t2; Some (t3, k) }"
  proof -
    have c: "(if ch = CR \<and> has_flag (tty_mode t2) CRMOD then LF else ch) = ?c" by (simp add: newline_def t2_def)
    show ?thesis unfolding special_char_def prod.case c using assms(10) by (simp add: s [symmetric] no_signal_def [of t2])
  qed
  have nf: "\<not> (59 \<le> ch0 \<and> ch0 \<le> 68)" using assms(3) by auto
  have "in_char e 0 ch0 (t, k) = do { t3 \<leftarrow> queue_char e ?c t2; Some (t3, k) }"
    unfolding in_char_def prod.case Let_def key using assms(2,4,7) nf by (auto simp: ed ns)
  moreover define t3 where "t3 = store_in ?c (if ?c = LF \<or> ?c = MARKER then t2\<lparr>tty_lfct := tty_lfct t2 + 1\<rparr> else t2)"
  moreover have "screen_ok t3" using t2(4) by (simp add: t3_def)
  from echo_returns [OF this, of e ?c] obtain t' where t': "echo e ?c t3 = Some t'" "not_screen t' = not_screen t3"
    by blast
  ultimately have step: "in_char e 0 ch0 (t, k) = Some (t', k)" by (simp add: queue_char_def)
  have h: "tty_inhead t2 = tty_intail t" using t2(2,3,5) by (simp add: queue_ok_def)
  have c3: "tty_incount t3 = 201" "tty_intail t3 = tty_intail t" "tty_inqueue t3 = (tty_inqueue t2)(tty_intail t := ?c)"
    by (simp_all add: t3_def store_in_def h t2(3,5))
  define f where "f i = tty_inqueue t2 ((tty_intail t + i) mod 200)" for i
  have "tty_intail t < 200" using assms(6) by (simp add: queue_ok_def)
  then have f: "tty_inqueue t3 ((tty_intail t + i) mod 200) = (if i = 0 \<or> i = 200 then ?c else f i)" if "i \<le> 200" for i
    using mod_window [of 0 i "tty_intail t"] that by (cases "i = 0 \<or> i = 200") (auto simp: c3 f_def)
  have "typed t3 = map (\<lambda>i. if i = 0 \<or> i = 200 then ?c else f i) [0..<201]"
    unfolding typed_def c3(1,2) using f by (simp del: upt_rec_numeral)
  also have "[0..<201] = 0 # [1..<200] @ [200::nat]"
    using upt_conv_Cons [of 0 201] upt_Suc_append [of 1 200] by (simp del: upt_rec_numeral)
  also have "map (\<lambda>i. if i = 0 \<or> i = 200 then ?c else f i) (0 # [1..<200] @ [200]) = ?c # map f [1..<200] @ [?c]"
    by (simp del: upt_rec_numeral One_nat_def)
  also have "map f [1..<200] = tl (typed t2)"
    unfolding typed_def t2(3,5) f_def by (simp add: upt_conv_Cons [of 0] del: upt_rec_numeral)
  also have "\<dots> = tl (typed t) @ [BACKSLASH]"
  proof -
    have "typed t \<noteq> []" using assms(7) length_typed [of t] by (metis list.size(3) nat_numeral zero_neq_numeral)
    then show ?thesis by (simp add: t2(1))
  qed
  finally have "typed t3 = ?c # tl (typed t) @ [BACKSLASH, ?c]" by simp
  then show ?thesis using step off_screen [OF t'(2)] c3(1) by simp
qed

text \<open>
  A marker, which stands for an unescaped end-of-file character and counts as a line, can be erased, and
  the count of lines stays: a line is promised that is not there.
\<close>

lemma erased_eof_leaves_line_count:
  assumes "queue_ok t" "typed t = q @ [MARKER]"
  shows "\<exists>t1. chuck t = Some t1 \<and> typed t1 = q \<and> tty_lfct t1 = tty_lfct t"
proof -
  obtain t1 where t1: "chuck t = Some t1"
    using chuck_none [OF assms(1)] by (cases "chuck t") (auto simp: assms(2) line_end_def)
  then have "typed t1 = q" using chuck_some [OF assms(1) t1] assms(2) by simp
  then show ?thesis using t1 by (auto simp: chuck_def split: if_splits)
qed

text \<open>
  The key Num Lock with a shift key held or Caps Lock on is, by the table \<^verbatim>\<open>sh\<close>, the key Caps Lock.
\<close>

lemma shifted_numlock_is_capslock:
  assumes "capslock t" "\<not> olivetti t" "\<not> control t" "\<not> numlock t"
  shows "make_break 69 t = Some (0, t\<lparr>capslock := False\<rparr>)"
  using assms by (simp add: make_break_def key_code_def entry_def sh_def shift_key_def)

text \<open>
  When the queue is full a key is discarded before it is looked at, so the release of a shift key is
  lost and the shift stays on.
\<close>

lemma full_queue_loses_shift_release:
  assumes "tty_incount t \<ge> int TTY_IN_BYTES"
  shows "in_char e 0 (42 OR 128) (t, k) = Some (t, k)"
  using assms by (simp add: in_char_def)

end
