(* ===== verification/KTtyRead.thy ===== *)
theory KTtyRead
  imports KTtyEdit
begin

text \<open>
  Reading from the terminal: what \<^verbatim>\<open>rd_chars\<close> gives to the reader and takes from the queue, the well-formed
  states of the terminal under every message, and the parameters that IOCTL sets and returns.
\<close>

section \<open>The driver's buffer\<close>

fun buf_bytes :: "tty_env \<Rightarrow> nat \<Rightarrow> u8 list \<Rightarrow> kernel \<Rightarrow> kernel" where
  "buf_bytes e ct [] k = k"
| "buf_bytes e ct (c # xs) k = buf_bytes e (ct + 1) xs (poke (tty_buf_at e + word_of_nat ct) c k)"

lemma poke_sel [simp]: "procs (poke a b k) = procs k" "kernel_ds (poke a b k) = kernel_ds k"
  by (simp_all add: poke_def kernel_ds_def)

lemma buf_bytes_sel [simp]: "procs (buf_bytes e ct xs k) = procs k" "kernel_ds (buf_bytes e ct xs k) = kernel_ds k"
  by (induction xs arbitrary: ct k) simp_all

text \<open>\<open>buf_at e k b\<close>: the 256 bytes of \<^verbatim>\<open>tty_buf\<close> lie at physical address \<open>b\<close>, also by \<^verbatim>\<open>umap\<close>.\<close>

definition buf_at :: "tty_env \<Rightarrow> kernel \<Rightarrow> nat \<Rightarrow> bool" where
  "buf_at e k b \<longleftrightarrow> (\<forall>i<TTY_BUF_SIZE. phys_of (kernel_ds k) (tty_buf_at e + word_of_nat i) = b + i) \<and> b + TTY_BUF_SIZE \<le> 2 ^ 20
     \<and> umap (procs k TTY) SEG_D (tty_buf_at e) (word_of_nat TTY_BUF_SIZE) = word_of_nat b"

lemma buf_bytes_memory:
  assumes "\<forall>i<TTY_BUF_SIZE. phys_of (kernel_ds k) (tty_buf_at e + word_of_nat i) = b + i" "ct + length xs \<le> TTY_BUF_SIZE"
  shows "memory (buf_bytes e ct xs k) a = (if b + ct \<le> a \<and> a < b + ct + length xs then xs ! (a - (b + ct)) else memory k a)"
  using assms
proof (induction xs arbitrary: ct k)
  case (Cons c xs)
  have p: "phys_of (kernel_ds k) (tty_buf_at e + word_of_nat ct) = b + ct" using Cons.prems by simp
  show ?case
    using Cons.prems by (simp add: Cons.IH) (auto simp: poke_def p nth_Cons')
qed auto

section \<open>What a read takes\<close>

text \<open>The first line of the queue, with its end.\<close>

fun line_of :: "u8 list \<Rightarrow> u8 list" where
  "line_of [] = []"
| "line_of (c # xs) = (if c = LF \<or> c = MARKER then [c] else c # line_of xs)"

definition taken :: "bool \<Rightarrow> nat \<Rightarrow> u8 list \<Rightarrow> u8 list" where
  "taken cooked n q = (if cooked then line_of (take n q) else take n q)"

text \<open>What the reader gets of it: a marker is not handed on.\<close>

definition given :: "bool \<Rightarrow> u8 list \<Rightarrow> u8 list" where
  "given cooked xs = (if cooked \<and> xs \<noteq> [] \<and> last xs = MARKER then butlast xs else xs)"

definition line_marks :: "u8 list \<Rightarrow> nat" where
  "line_marks xs = length (filter (\<lambda>c. c = LF \<or> c = MARKER) xs)"

lemma line_of_prefix: "line_of q = take (length (line_of q)) q"
  by (induction q) auto

lemma length_line_of: "length (line_of q) \<le> length q"
  by (induction q) auto

lemma line_of_nonempty: "q \<noteq> [] \<Longrightarrow> line_of q \<noteq> []"
  by (cases q) auto

lemma line_of_all: "line_marks (line_of q) = 0 \<Longrightarrow> line_of q = q"
  by (induction q) (auto simp: line_marks_def split: if_splits)

lemma taken_prefix: "taken cooked n q = take (length (taken cooked n q)) q"
proof (cases cooked)
  case True
  then show ?thesis using line_of_prefix [of "take n q"] length_line_of [of "take n q"] by (simp add: taken_def)
next
  case False
  then show ?thesis by (cases "n \<le> length q") (simp_all add: taken_def)
qed

lemma length_taken: "length (taken cooked n q) \<le> n" "length (taken cooked n q) \<le> length q"
  using length_line_of [of "take n q"] by (auto simp: taken_def)

text \<open>The inner loop.\<close>

definition queued :: "tty \<Rightarrow> nat \<Rightarrow> u8 list" where
  "queued t n = map (\<lambda>i. tty_inqueue t ((tty_intail t + i) mod TTY_IN_BYTES)) [0..<n]"

lemma queued_Suc:
  assumes "tty_intail t < TTY_IN_BYTES"
  shows "queued t (Suc n) = tty_inqueue t (tty_intail t) # queued (t\<lparr>tty_intail := next_in (tty_intail t)\<rparr>) n"
proof -
  have "(next_in (tty_intail t) + i) mod 200 = (tty_intail t + Suc i) mod 200" for i
    by (simp add: next_in_mod [OF assms] mod_add_left_eq)
  then have "queued (t\<lparr>tty_intail := next_in (tty_intail t)\<rparr>) n = map (\<lambda>i. tty_inqueue t ((tty_intail t + i) mod 200)) (map Suc [0..<n])"
    by (simp add: queued_def)
  also have "map Suc [0..<n] = [1..<Suc n]" by (simp add: map_Suc_upt)
  finally show ?thesis using assms by (simp add: queued_def upt_conv_Cons del: upt_Suc)
qed

lemma next_in_less: "i < TTY_IN_BYTES \<Longrightarrow> next_in i < TTY_IN_BYTES"
  by (simp add: next_in_def)

lemma queued_lfct [simp]: "queued (t\<lparr>tty_lfct := l\<rparr>) n = queued t n"
  by (simp add: queued_def)

lemma fill_buf_takes:
  assumes "tty_intail t < TTY_IN_BYTES"
  shows "fill_buf e cooked n ct en (t, k)
    = (let xs = taken cooked n (queued t n)
       in (ct + length xs, cooked \<and> xs \<noteq> [] \<and> last xs = MARKER, en \<or> line_marks xs > 0,
           t\<lparr>tty_intail := (tty_intail t + length xs) mod TTY_IN_BYTES, tty_lfct := tty_lfct t - int (line_marks xs)\<rparr>,
           buf_bytes e ct xs k))"
  using assms
proof (induction n arbitrary: t ct en k)
  case 0
  then show ?case by (simp add: taken_def queued_def line_marks_def)
next
  case (Suc n)
  let ?c = "tty_inqueue t (tty_intail t)" and ?t1 = "t\<lparr>tty_intail := next_in (tty_intail t)\<rparr>"
  have tl: "tty_intail ?t1 < 200" using next_in_less [OF Suc.prems] by simp
  have tl2: "tty_intail (?t1\<lparr>tty_lfct := tty_lfct t - 1\<rparr>) < 200" using tl by simp
  have nx: "(next_in (tty_intail t) + m) mod 200 = (tty_intail t + Suc m) mod 200" for m
    by (simp add: next_in_mod [OF Suc.prems] mod_add_left_eq)
  have n0: "next_in (tty_intail t) = (tty_intail t + 1) mod 200" by (rule next_in_mod [OF Suc.prems])
  have tk: "taken cooked (Suc n) (queued t (Suc n))
      = (if cooked \<and> (?c = LF \<or> ?c = MARKER) then [?c] else ?c # taken cooked n (queued ?t1 n))"
    by (simp add: queued_Suc [OF Suc.prems] taken_def)
  let ?ys = "taken cooked n (queued ?t1 n)"
  have nil: "taken cooked n (queued (?t1\<lparr>tty_lfct := l\<rparr>) n) = ?ys" for l by simp
  consider (line) "cooked" "?c = LF \<or> ?c = MARKER" | (raw) "\<not> cooked" "?c = LF \<or> ?c = MARKER" | (other) "?c \<noteq> LF" "?c \<noteq> MARKER"
    by blast
  then show ?case
  proof cases
    case line
    then have "taken cooked (Suc n) (queued t (Suc n)) = [?c]" by (subst tk) auto
    then show ?thesis using line by (auto simp: Let_def line_marks_def n0)
  next
    case raw
    then have xs: "taken cooked (Suc n) (queued t (Suc n)) = ?c # ?ys" by (subst tk) auto
    have m: "line_marks (?c # ?ys) = line_marks ?ys + 1" using raw by (simp add: line_marks_def)
    show ?thesis
      unfolding xs fill_buf.simps Let_def m
      using raw Suc.IH [OF tl2, of "ct + 1" True "poke (tty_buf_at e + word_of_nat ct) ?c k"]
      by (simp add: nil Let_def nx)
  next
    case other
    then have xs: "taken cooked (Suc n) (queued t (Suc n)) = ?c # ?ys" by (subst tk) auto
    have m: "line_marks (?c # ?ys) = line_marks ?ys" using other by (simp add: line_marks_def)
    show ?thesis
      unfolding xs fill_buf.simps Let_def m
      using other Suc.IH [OF tl, of "ct + 1" en "poke (tty_buf_at e + word_of_nat ct) ?c k"]
      by (simp add: Let_def nx)
  qed
qed

section \<open>rd_chars\<close>

text \<open>The characters of one read.\<close>

definition cooked_mode :: "tty \<Rightarrow> bool" where
  "cooked_mode t \<longleftrightarrow> tty_mode t AND (RAW OR CBREAK) = 0"

definition read_taken :: "tty \<Rightarrow> u8 list" where
  "read_taken t = taken (cooked_mode t) (nat (tty_inleft t)) (typed t)"

definition read_given :: "tty \<Rightarrow> u8 list" where
  "read_given t = given (cooked_mode t) (read_taken t)"

lemma queued_typed:
  assumes "queue_ok t" "0 < tty_inleft t"
  shows "taken c (nat (min (min (tty_inleft t) (tty_incount t)) (int TTY_BUF_SIZE))) (queued t (nat (min (min (tty_inleft t) (tty_incount t)) (int TTY_BUF_SIZE))))
    = taken c (nat (tty_inleft t)) (typed t)"
proof -
  let ?n = "nat (min (min (tty_inleft t) (tty_incount t)) (int TTY_BUF_SIZE))"
  have n: "?n = min (nat (tty_inleft t)) (nat (tty_incount t))" using assms by (auto simp: queue_ok_def min_def)
  have "queued t ?n = take ?n (typed t)"
    using n by (simp add: queued_def typed_def take_map min_def)
  moreover have "take (nat (tty_inleft t)) (typed t) = take ?n (typed t)"
    unfolding n by (cases "nat (tty_inleft t) \<le> nat (tty_incount t)") (simp_all add: min_def)
  ultimately show ?thesis by (simp add: taken_def)
qed

lemma length_given: "length (given c xs) = (if c \<and> xs \<noteq> [] \<and> last xs = MARKER then length xs - 1 else length xs)"
  by (simp add: given_def)

text \<open>
  The loop comes round once: after one buffer the reader has all it wants, or a line, or the queue is empty.
\<close>

lemma rd_loop_once:
  fixes e :: tty_env and k :: kernel and b u :: u32
  assumes "queue_ok t" "0 < tty_inleft t" "0 < tty_incount t"
  defines "xs \<equiv> read_taken t"
  defines "k1 \<equiv> phys_copy b u (word_of_int (int (length (read_given t)))) (buf_bytes e 0 xs k)"
  shows "\<exists>t'. rd_loop e (cooked_mode t) b u 0 (t, k) = Some (int (length (read_given t)), t', k1)
    \<and> t'\<lparr>tty_inleft := 0\<rparr> = t\<lparr>tty_intail := (tty_intail t + length xs) mod TTY_IN_BYTES, tty_lfct := tty_lfct t - int (line_marks xs),
        tty_inleft := 0, tty_incount := tty_incount t - int (length xs)\<rparr>"
proof -
  let ?n = "nat (min (min (tty_inleft t) (tty_incount t)) (int TTY_BUF_SIZE))"
  have tl: "tty_intail t < 200" using assms(1) by (simp add: queue_ok_def)
  have xs: "taken (cooked_mode t) ?n (queued t ?n) = xs"
    unfolding xs_def read_taken_def by (rule queued_typed [OF assms(1,2)])
  let ?eot = "cooked_mode t \<and> xs \<noteq> [] \<and> last xs = MARKER"
  let ?t1 = "t\<lparr>tty_intail := (tty_intail t + length xs) mod 200, tty_lfct := tty_lfct t - int (line_marks xs)\<rparr>"
  have f: "fill_buf e (cooked_mode t) ?n 0 False (t, k) = (length xs, ?eot, 0 < line_marks xs, ?t1, buf_bytes e 0 xs k)"
    using fill_buf_takes [OF tl, of e "cooked_mode t" ?n 0 False k] unfolding xs Let_def by simp
  have uc: "(if ?eot then int (length xs) - 1 else int (length xs)) = int (length (read_given t))"
    by (auto simp: read_given_def xs_def [symmetric] length_given of_nat_diff Suc_le_eq)
  let ?t2 = "?t1\<lparr>tty_inleft := tty_inleft ?t1 - int (length xs), tty_incount := tty_incount ?t1 - int (length xs)\<rparr>"
  have le: "(tty_inleft t \<le> 0) = False" using assms(2) by simp
  have step: "rd_loop e (cooked_mode t) b u 0 (t, k)
      = (if tty_incount ?t2 = 0 \<or> 0 < line_marks xs then Some (int (length (read_given t)), ?t2, k1)
         else rd_loop e (cooked_mode t) b (u + word_of_int (int (length (read_given t)))) (int (length (read_given t))) (?t2, k1))"
    by (subst rd_loop.simps) (simp only: Let_def prod.case f le uc k1_def add_0 simp_thms if_False)
  have last: "tty_inleft ?t2 \<le> 0" if "line_marks xs = 0" "tty_incount ?t2 \<noteq> 0"
  proof -
    have "length xs = min (nat (tty_inleft t)) (nat (tty_incount t))"
      using that(1) line_of_all [of "take (nat (tty_inleft t)) (typed t)"]
      unfolding xs_def read_taken_def taken_def by (cases "cooked_mode t") simp_all
    then show ?thesis using that(2) assms(2,3) by (auto simp: min_def split: if_splits)
  qed
  have stop: "rd_loop e c b u' cum (t', k') = Some (cum, t', k')" if "tty_inleft t' \<le> 0" for c u' cum t' k'
    using that by (subst rd_loop.simps) simp
  have "rd_loop e (cooked_mode t) b u 0 (t, k) = Some (int (length (read_given t)), ?t2, k1)"
    using step last stop [of ?t2] by (cases "line_marks xs = 0"; cases "tty_incount ?t2 = 0") simp_all
  then show ?thesis by (intro exI [of _ ?t2]) simp
qed

lemma read_keeps_queue:
  assumes "queue_ok t"
  shows "queue_ok (t\<lparr>tty_intail := (tty_intail t + length (read_taken t)) mod TTY_IN_BYTES, tty_lfct := l,
    tty_inleft := 0, tty_incount := tty_incount t - int (length (read_taken t))\<rparr>)"
proof -
  obtain n where n: "tty_incount t = int n" using assms by (metis nonneg_int_cases queue_ok_def)
  have len: "length (read_taken t) \<le> n"
    using length_taken(2) [of "cooked_mode t" "nat (tty_inleft t)" "typed t"] by (simp add: read_taken_def n)
  then obtain m where m: "n = length (read_taken t) + m" by (auto simp: le_iff_add)
  then have "((tty_intail t + length (read_taken t)) mod 200 + (n - length (read_taken t))) mod 200 = (tty_intail t + n) mod 200"
    by (simp add: mod_simps add.assoc)
  moreover have "nat (int n - int (length (read_taken t))) = n - length (read_taken t)" by simp
  ultimately show ?thesis using assms len by (simp add: queue_ok_def n)
qed

text \<open>C16: A read that finds input takes from the queue the first line, with its end and at most as many
  characters as were asked for (in cbreak and raw mode, whatever is there), puts them in order into the
  reader's buffer, an end-of-file marker left out, changes no other byte of memory but its own buffer, and returns
  their number.\<close>

theorem read_takes_a_line:
  assumes "queue_ok t" "0 < tty_inleft t" "0 < tty_incount t" "cooked_mode t \<Longrightarrow> 0 < tty_lfct t"
    and "u = unat (umap (procs k (tty_inproc t)) SEG_D (tty_in_vir t) (word_of_int (tty_inleft t)))" "u \<noteq> 0"
    and "buf_at e k b" "apart b u TTY_BUF_SIZE"
  shows "\<exists>t' k'. rd_chars e (t, k) = Some (int (length (read_given t)), t', k')
    \<and> typed t' = drop (length (read_taken t)) (typed t) \<and> queue_ok t' \<and> tty_inleft t' = 0
    \<and> tty_lfct t' = tty_lfct t - int (line_marks (read_taken t))
    \<and> (\<forall>a. a < b \<or> b + TTY_BUF_SIZE \<le> a \<longrightarrow>
          memory k' a = (if u \<le> a \<and> a < u + length (read_given t) then read_given t ! (a - u) else memory k a))"
proof -
  let ?xs = "read_taken t" and ?ys = "read_given t"
  let ?um = "umap (procs k (tty_inproc t)) SEG_D (tty_in_vir t) (word_of_int (tty_inleft t))"
  have len: "length ?xs \<le> length (typed t)" "length ?xs \<le> 201"
    using length_taken(2) [of "cooked_mode t" "nat (tty_inleft t)" "typed t"] assms(1) by (auto simp: read_taken_def queue_ok_def)
  have ly: "length ?ys \<le> length ?xs" by (simp add: read_given_def length_given)
  have um: "(?um = 0) = False" using assms(5,6) by auto
  have c: "(tty_incount t = 0 \<or> cooked_mode t \<and> tty_lfct t = 0) = False" using assms(3,4) by auto
  have b: "umap (procs k TTY) SEG_D (tty_buf_at e) (word_of_nat TTY_BUF_SIZE) = word_of_nat b" "b + 256 \<le> 2 ^ 20"
    using assms(7) by (auto simp: buf_at_def)
  then have ub: "unat (word_of_nat b :: u32) = b" by (simp add: unat_of_nat)
  obtain t1 where t1: "rd_loop e (cooked_mode t) (word_of_nat b) ?um 0 (t, k) = Some (int (length ?ys), t1,
      phys_copy (word_of_nat b) ?um (word_of_int (int (length ?ys))) (buf_bytes e 0 ?xs k))"
    "t1\<lparr>tty_inleft := 0\<rparr> = t\<lparr>tty_intail := (tty_intail t + length ?xs) mod TTY_IN_BYTES, tty_lfct := tty_lfct t - int (line_marks ?xs),
        tty_inleft := 0, tty_incount := tty_incount t - int (length ?xs)\<rparr>"
    using rd_loop_once [OF assms(1-3)] by blast
  let ?t' = "t1\<lparr>tty_inleft := 0\<rparr>" and ?k1 = "buf_bytes e 0 ?xs k"
  let ?k' = "phys_copy (word_of_nat b) ?um (word_of_int (int (length ?ys))) ?k1"
  have r: "rd_chars e (t, k) = Some (int (length ?ys), ?t', ?k')"
    unfolding rd_chars_def prod.case Let_def cooked_mode_def [symmetric] b(1) c um if_False t1(1) by simp
  obtain n where n: "tty_incount t = int n" using assms(3) by (metis zero_le_imp_eq_int less_imp_le)
  have sub: "nat (int n - int (length ?xs)) = n - length ?xs" by simp
  have "typed ?t' = drop (length ?xs) (typed t)"
    unfolding t1(2) by (rule nth_equalityI) (auto simp: typed_def n sub mod_simps add.assoc)
  moreover have "queue_ok ?t'" unfolding t1(2) by (rule read_keeps_queue [OF assms(1)])
  moreover have "memory ?k' a = (if u \<le> a \<and> a < u + length ?ys then ?ys ! (a - u) else memory k a)"
    if "a < b \<or> b + 256 \<le> a" for a
  proof -
    have ul: "unat (word_of_int (int (length ?ys)) :: u32) = length ?ys"
      using len(2) ly by (simp add: unat_of_nat)
    have ap: "apart b u (length ?ys)" using assms(8) len(2) ly by (auto simp: apart_def)
    have m1: "memory ?k1 a = (if b \<le> a \<and> a < b + length ?xs then ?xs ! (a - b) else memory k a)" for a
      using buf_bytes_memory [of k e b 0 ?xs a] assms(7) len(2) by (simp add: buf_at_def)
    have "memory ?k' a = copied b u (length ?ys) (memory ?k1) a"
      using phys_copy_apart [of "word_of_nat b" ?um "word_of_int (int (length ?ys))" ?k1] ap by (simp only: ub ul assms(5) [symmetric])
    moreover have "?xs ! i = ?ys ! i" if "i < length ?ys" for i
      using that by (auto simp: read_given_def given_def nth_butlast)
    ultimately show ?thesis using that len(2) ly by (auto simp: copied_def m1)
  qed
  ultimately show ?thesis using r t1(2) by auto
qed

text \<open>A file system that reads five characters gets the line of two.\<close>

definition demo_reading :: tty where
  "demo_reading = demo_typed\<lparr>tty_inleft := 5, tty_inproc := 1, tty_in_vir := 16\<rparr>"

lemma demo_reading_takes: "read_taken demo_reading = [97, 10]" "read_given demo_reading = [97, 10]"
  by (simp_all add: read_given_def read_taken_def given_def taken_def typed_def cooked_mode_def demo_reading_def
      demo_typed_def demo_tty_def upt_rec)

lemma demo_buf_at: "buf_at demo_env (demo_kernel 0) 0x100"
proof -
  have "unat (0x100 + word_of_nat i :: u16) = 0x100 + i" if "i < 256" for i
    using that by (simp add: unat_word_ariths unat_of_nat)
  then show ?thesis
    by (simp add: buf_at_def demo_env_def kernel_ds_def phys_of_def umap_def last_click_def Let_def)
qed

theorem read_takes_a_line_witness:
  "\<exists>t' k'. rd_chars demo_env (demo_reading, demo_kernel 0) = Some (2, t', k') \<and> typed t' = [98]
    \<and> memory k' 0x20010 = 97 \<and> memory k' 0x20011 = 10 \<and> memory k' 0x20012 = 0x12"
proof -
  have u: "umap (procs (demo_kernel 0) 1) SEG_D 16 5 = 0x20010"
    by (simp add: umap_def last_click_def Let_def word_le_nat_alt)
  have q: "typed demo_reading = [97, 10, 98]"
    by (simp add: typed_def demo_reading_def demo_typed_def demo_tty_def upt_rec)
  have s: "tty_inleft demo_reading = 5" "tty_inproc demo_reading = 1" "tty_in_vir demo_reading = 16"
    "tty_incount demo_reading = 3" "tty_lfct demo_reading = 1" "queue_ok demo_reading"
    by (simp_all add: demo_reading_def demo_typed_def queue_ok_def)
  have "\<exists>t' k'. rd_chars demo_env (demo_reading, demo_kernel 0) = Some (int (length (read_given demo_reading)), t', k')
    \<and> typed t' = drop (length (read_taken demo_reading)) (typed demo_reading) \<and> queue_ok t' \<and> tty_inleft t' = 0
    \<and> tty_lfct t' = tty_lfct demo_reading - int (line_marks (read_taken demo_reading))
    \<and> (\<forall>a. a < 0x100 \<or> 0x100 + TTY_BUF_SIZE \<le> a \<longrightarrow>
          memory k' a = (if 0x20010 \<le> a \<and> a < 0x20010 + length (read_given demo_reading)
            then read_given demo_reading ! (a - 0x20010) else memory (demo_kernel 0) a))"
    by (rule read_takes_a_line [OF _ _ _ _ _ _ demo_buf_at]) (simp_all add: s u apart_def del: One_nat_def)
  then show ?thesis by (auto simp: demo_reading_takes q)
qed

section \<open>A bad buffer\<close>

text \<open>When characters are there and the reader's buffer is not in its memory, the reader gets
  \<^verbatim>\<open>E_BAD_ADDR\<close>, but its request stays behind: from then on every reader is told \<^verbatim>\<open>E_TRY_AGAIN\<close>, and the
  finished request is tried and revived again with the next line.\<close>

theorem bad_buffer_blocks_the_terminal:
  assumes "tty_inleft t = 0" "0 < tty_incount t" "cooked_mode t \<Longrightarrow> 0 < tty_lfct t" "0 < m2_i3 m"
    and "umap (procs k (schar (m2_i2 m))) SEG_D (m2_p1 m) (word_of_int (m2_i3 m)) = 0"
  shows "\<exists>t'. do_read_tty e m (t, k) = Some (t', k) \<and> typed t' = typed t
    \<and> last (tty_sent t') = \<lparr>rep_code = TASK_REPLY, rep_to = m_source m, rep_proc = schar (m2_i2 m), rep_status = E_BAD_ADDR,
        rep_flags = 0, rep_spek = 0\<rparr>
    \<and> (\<forall>m2. do_read_tty e m2 (t', k) = Some (tty_reply TASK_REPLY (m_source m2) (m2_i2 m2) E_TRY_AGAIN 0 0 t', k))
    \<and> (0 < tty_lfct t' \<longrightarrow>
         wake_reader e (t', k) = Some (tty_reply REVIVE (schar (m_source m)) (schar (m2_i2 m)) E_BAD_ADDR 0 0 t', k))"
proof -
  let ?t1 = "t\<lparr>tty_incaller := schar (m_source m), tty_inproc := schar (m2_i2 m), tty_in_vir := m2_p1 m, tty_inleft := m2_i3 m\<rparr>"
  define t' where "t' = tty_reply TASK_REPLY (m_source m) (schar (m2_i2 m)) E_BAD_ADDR 0 0 ?t1"
  have f: "tty_inleft t' = m2_i3 m" "tty_inproc t' = schar (m2_i2 m)" "tty_incaller t' = schar (m_source m)"
    "tty_in_vir t' = m2_p1 m" "tty_incount t' = tty_incount t" "tty_lfct t' = tty_lfct t" "tty_mode t' = tty_mode t"
    "typed t' = typed t"
    by (simp_all add: t'_def tty_reply_def typed_def)
  have rd: "rd_chars e (t1, k) = Some (E_BAD_ADDR, t1, k)"
    if "tty_inproc t1 = schar (m2_i2 m)" "tty_in_vir t1 = m2_p1 m" "tty_inleft t1 = m2_i3 m" "tty_incount t1 = tty_incount t"
      "tty_lfct t1 = tty_lfct t" "tty_mode t1 = tty_mode t" for t1
  proof -
    have c: "(tty_incount t1 = 0 \<or> (tty_mode t1 AND (RAW OR CBREAK) = 0) \<and> tty_lfct t1 = 0) = False"
      using assms(2,3) that by (auto simp: cooked_mode_def)
    show ?thesis unfolding rd_chars_def prod.case Let_def c that(1-3) assms(5) by simp
  qed
  have "do_read_tty e m (t, k) = Some (t', k)"
    unfolding do_read_tty_def prod.case using assms(1) rd [of ?t1] by (simp add: t'_def)
  moreover have "do_read_tty e m2 (t', k) = Some (tty_reply TASK_REPLY (m_source m2) (m2_i2 m2) E_TRY_AGAIN 0 0 t', k)" for m2
    using assms(4) f(1) by (simp add: do_read_tty_def)
  moreover have "wake_reader e (t', k) = Some (tty_reply REVIVE (schar (m_source m)) (schar (m2_i2 m)) E_BAD_ADDR 0 0 t', k)"
    if "0 < tty_lfct t'"
    using assms(4) f rd [of t'] that by (simp add: wake_reader_def)
  moreover have "last (tty_sent t') = \<lparr>rep_code = TASK_REPLY, rep_to = m_source m, rep_proc = schar (m2_i2 m),
      rep_status = E_BAD_ADDR, rep_flags = 0, rep_spek = 0\<rparr>"
    by (simp add: t'_def tty_reply_def)
  ultimately show ?thesis using f(8) by blast
qed

theorem bad_buffer_blocks_the_terminal_witness:
  "\<exists>t'. do_read_tty demo_env (blank_mess\<lparr>m_source := 1, m2_i2 := 3, m2_i3 := 0\<rparr>\<lparr>m2_p1 := 0xFFF0, m2_i3 := 4\<rparr>)
      (demo_typed, kn demo_users) = Some (t', kn demo_users)
    \<and> do_read_tty demo_env blank_mess (t', kn demo_users)
      = Some (tty_reply TASK_REPLY 0 0 E_TRY_AGAIN 0 0 t', kn demo_users)"
proof -
  let ?m = "blank_mess\<lparr>m_source := 1, m2_i2 := 3, m2_i3 := 0\<rparr>\<lparr>m2_p1 := 0xFFF0, m2_i3 := 4\<rparr>"
  have "schar 3 = 3" by (simp add: schar_def)
  then have u: "umap (procs (kn demo_users) (schar (m2_i2 ?m))) SEG_D (m2_p1 ?m) (word_of_int (m2_i3 ?m)) = 0"
    by (simp add: umap_def last_click_def demo_users_def two_segs_def Let_def)
  have "tty_inleft demo_typed = 0" "0 < tty_incount demo_typed" "cooked_mode demo_typed \<Longrightarrow> 0 < tty_lfct demo_typed" "0 < m2_i3 ?m"
    by (simp_all add: demo_typed_def demo_tty_def)
  from bad_buffer_blocks_the_terminal [OF this u, of demo_env] show ?thesis
    by (auto simp: blank_mess_def)
qed

section \<open>Parameters\<close>

lemma sint_low16: "sint (take_bit 16 (word_of_int x :: u32)) = x mod 65536"
proof -
  have u: "uint (take_bit 16 (word_of_int x :: u32)) = x mod 65536"
    unfolding unsigned_take_bit_eq unsigned_of_int by (simp add: take_bit_eq_mod mod_mod_cancel)
  have "sint (take_bit 16 (word_of_int x :: u32)) = signed_take_bit 31 (x mod 65536)"
    by (simp add: sint_uint u)
  also have "\<dots> = x mod 65536" by (rule signed_take_bit_int_eq_self) (auto intro: order_trans [OF _ pos_mod_sign] less_trans [OF pos_mod_bound])
  finally show ?thesis .
qed

lemma byte1: "uint (ucast (drop_bit 8 (word_of_int x :: u32)) :: u8) = x div 256 mod 256"
proof -
  have "uint (ucast (drop_bit 8 (word_of_int x :: u32)) :: u8) = take_bit 8 (drop_bit 8 (take_bit 32 x))"
    by (simp add: unsigned_ucast_eq unsigned_drop_bit_eq unsigned_of_int)
  also have "\<dots> = take_bit 8 (drop_bit 8 x)" by (rule bit_eqI) (auto simp: bit_simps)
  finally show ?thesis by (simp add: take_bit_eq_mod drop_bit_eq_div)
qed

lemma sint_byte_up: "sint (push_bit 8 (ucast (c :: u8)) :: u32) = 256 * uint c"
proof -
  have c: "uint c < 256" "0 \<le> uint c" using unsigned_less [of c] by simp_all
  have c': "- 8388608 \<le> uint c" using c(2) by linarith
  have "uint (push_bit 8 (ucast c) :: u32) = 256 * uint c"
    unfolding unsigned_push_bit_eq unsigned_ucast_eq using c by (simp add: push_bit_eq_mult take_bit_eq_mod)
  then have "sint (push_bit 8 (ucast c) :: u32) = signed_take_bit 31 (256 * uint c)" by (simp add: sint_uint)
  also have "\<dots> = 256 * uint c" by (rule signed_take_bit_int_eq_self) (use c c' in simp_all)
  finally show ?thesis .
qed

text \<open>What IOCTL sets, IOCTL returns: after TIOCSETP, TIOCGETP answers with the erase and kill characters and
  the mode that were sent, and after TIOCSETC, TIOCGETC with the five other characters.\<close>

theorem ioctl_returns_what_was_set:
  fixes m :: kmess
  shows "last (tty_sent (do_ioctl_tty (g\<lparr>m2_i3 := TIOCGETP\<rparr>) (do_ioctl_tty (m\<lparr>m2_i3 := TIOCSETP\<rparr>) t)))
      = \<lparr>rep_code = TASK_REPLY, rep_to = m_source g, rep_proc = m2_i2 g, rep_status = OK,
         rep_flags = int_of (m2_l2 m), rep_spek = m2_l1 m mod 65536\<rparr>
    \<and> last (tty_sent (do_ioctl_tty (g\<lparr>m2_i3 := TIOCGETC\<rparr>) (do_ioctl_tty (m\<lparr>m2_i3 := TIOCSETC\<rparr>) t)))
      = \<lparr>rep_code = TASK_REPLY, rep_to = m_source g, rep_proc = m2_i2 g, rep_status = OK,
         rep_flags = 256 * (m2_l2 m div 256 mod 256), rep_spek = long_of (m2_l1 m)\<rparr>"
proof -
  let ?w = "word_of_int (m2_l1 m) :: u32"
  have b1: "push_bit 8 (ucast (ucast (drop_bit 8 ?w) :: u8)) OR ucast (ucast ?w :: u8) = take_bit 16 ?w"
    by (rule bit_word_eqI) (auto simp: bit_simps)
  have b2: "push_bit 24 (ucast (ucast (drop_bit 24 ?w) :: u8)) OR push_bit 16 (ucast (ucast (drop_bit 16 ?w) :: u8))
      OR take_bit 16 ?w = ?w"
  proof (rule bit_word_eqI)
    fix n
    assume "n < LENGTH(32)"
    moreover have "n < 16 \<or> (16 \<le> n \<and> n < 24) \<or> 24 \<le> n" by linarith
    ultimately show "bit (push_bit 24 (ucast (ucast (drop_bit 24 ?w) :: u8)) OR push_bit 16 (ucast (ucast (drop_bit 16 ?w) :: u8))
      OR take_bit 16 ?w :: u32) n = bit ?w n"
      by (elim disjE conjE) (auto simp: bit_simps)
  qed
  show ?thesis
    by (simp add: do_ioctl_tty_def tty_reply_def Let_def b1 b2 sint_low16 sint_byte_up byte1 int_of_def long_of_def)
qed

end
