(* ===== verification/KTtyInv.thy ===== *)
theory KTtyInv
  imports KTtyRead
begin

text \<open>
  The terminal stays well formed: every message to the terminal task, whatever it asks for, leaves the cursor
  on the screen, the escape state in range, head and tail of the input queue inside the array, the head where
  the tail and the count say, and the count at most 201, which is one more than the queue has bytes
  (\<open>backslash_overflows_queue\<close> shows that it can be); the code for a request other than typed input returns.
\<close>

definition tty_ok :: "tty \<Rightarrow> bool" where
  "tty_ok t \<longleftrightarrow> screen_ok t \<and> queue_ok t"

lemma tty_ok_off_screen: "screen_ok t' \<Longrightarrow> not_screen t' = not_screen t \<Longrightarrow> tty_ok t \<Longrightarrow> tty_ok t'"
  using off_screen(2) [of t' t] by (simp add: tty_ok_def)

text \<open>Changes of fields that the invariant does not mention.\<close>

lemma tty_ok_upd [simp]:
  "tty_ok (t\<lparr>tty_escaped := b\<rparr>) = tty_ok t" "tty_ok (t\<lparr>tty_lfct := i\<rparr>) = tty_ok t" "tty_ok (t\<lparr>tty_inhibited := b\<rparr>) = tty_ok t"
  "tty_ok (t\<lparr>tty_waiting := b\<rparr>) = tty_ok t" "tty_ok (t\<lparr>tty_outleft := i\<rparr>) = tty_ok t" "tty_ok (t\<lparr>tty_sent := r\<rparr>) = tty_ok t"
  "tty_ok (t\<lparr>tty_phys := ph\<rparr>) = tty_ok t" "tty_ok (t\<lparr>tty_cum := i\<rparr>) = tty_ok t" "tty_ok (t\<lparr>tty_inleft := i\<rparr>) = tty_ok t"
  "tty_ok (t\<lparr>tty_incaller := i\<rparr>) = tty_ok t" "tty_ok (t\<lparr>tty_inproc := i\<rparr>) = tty_ok t" "tty_ok (t\<lparr>tty_in_vir := v\<rparr>) = tty_ok t"
  "tty_ok (t\<lparr>tty_otcaller := i\<rparr>) = tty_ok t" "tty_ok (t\<lparr>tty_outproc := i\<rparr>) = tty_ok t" "tty_ok (t\<lparr>tty_out_vir := v\<rparr>) = tty_ok t"
  "tty_ok (t\<lparr>shift1 := b\<rparr>) = tty_ok t" "tty_ok (t\<lparr>shift2 := b\<rparr>) = tty_ok t" "tty_ok (t\<lparr>control := b\<rparr>) = tty_ok t"
  "tty_ok (t\<lparr>alt := b\<rparr>) = tty_ok t" "tty_ok (t\<lparr>capslock := b\<rparr>) = tty_ok t" "tty_ok (t\<lparr>numlock := b\<rparr>) = tty_ok t"
  "tty_ok (t\<lparr>tty_erase := c\<rparr>) = tty_ok t" "tty_ok (t\<lparr>tty_kill := c\<rparr>) = tty_ok t" "tty_ok (t\<lparr>tty_mode := w\<rparr>) = tty_ok t"
  "tty_ok (t\<lparr>tty_intr := c\<rparr>) = tty_ok t" "tty_ok (t\<lparr>tty_quit := c\<rparr>) = tty_ok t" "tty_ok (t\<lparr>tty_xon := c\<rparr>) = tty_ok t"
  "tty_ok (t\<lparr>tty_xoff := c\<rparr>) = tty_ok t" "tty_ok (t\<lparr>tty_eof := c\<rparr>) = tty_ok t"
  by (simp_all add: tty_ok_def screen_ok_def queue_ok_def)

lemma tty_reply_ok [simp]: "tty_ok (tty_reply c r p s x y t) = tty_ok t"
  by (simp add: tty_reply_def)

lemma empty_queue_ok: "tty_ok t \<Longrightarrow> tty_ok (t\<lparr>tty_inhead := 0, tty_intail := 0, tty_incount := 0, tty_lfct := l\<rparr>)"
  by (simp add: tty_ok_def screen_ok_def queue_ok_def)

section \<open>Output\<close>

lemma out_chars_ok: "tty_ok t \<Longrightarrow> \<exists>t'. out_chars e xs t = Some t' \<and> tty_ok t'"
  using out_chars_returns [of t e xs] tty_ok_off_screen [of _ t] by (auto simp: tty_ok_def [of t])

lemma echo_ok: "tty_ok t \<Longrightarrow> \<exists>t'. echo e c t = Some t' \<and> tty_ok t'"
  using echo_returns [of t e c] tty_ok_off_screen [of _ t] by (auto simp: tty_ok_def [of t])

lemma finish_ok: "tty_ok t \<Longrightarrow> tty_ok (finish c t)"
proof -
  assume "tty_ok t"
  then have "tty_ok (t\<lparr>tty_rwords := 0, tty_outleft := 0\<rparr>)" by (simp add: tty_ok_def screen_ok_def queue_ok_def)
  then show ?thesis by (simp add: finish_def Let_def)
qed

lemma console_loop_ok:
  "tty_ok t \<Longrightarrow> \<exists>off' t'. console_loop e k sg n off t = Some (off', t') \<and> tty_ok t'"
proof (induction n arbitrary: off t)
  case (Suc n)
  obtain t1 where t1: "out_char e (get_byte sg off k) t = Some t1" "screen_ok t1" "not_screen t1 = not_screen t"
    using out_char_returns [of t e] Suc.prems by (auto simp: tty_ok_def)
  have "tty_ok (t1\<lparr>tty_outleft := tty_outleft t1 - 1\<rparr>)" using tty_ok_off_screen [OF t1(2,3) Suc.prems] by simp
  from Suc.IH [OF this] Suc.prems show ?case by (auto simp: t1(1))
qed simp

lemma console_ok: "tty_ok t \<Longrightarrow> \<exists>t'. console e k t = Some t' \<and> tty_ok t'"
proof -
  assume "tty_ok t"
  then obtain off' t1 where t1: "console_loop e k (ucast (drop_bit 4 (tty_phys t))) (nat (tty_outleft t)) (ucast (tty_phys t AND 15)) t
      = Some (off', t1)" "tty_ok t1"
    using console_loop_ok by blast
  have "tty_ok (flush e t1)" using t1(2) tty_ok_off_screen [of "flush e t1" t1] by (simp add: tty_ok_def [of t1] flush_ok)
  then show ?thesis by (simp add: console_def Let_def t1(1) finish_ok)
qed

lemma do_write_ok: "tty_ok t \<Longrightarrow> \<exists>t'. do_write_tty e m (t, k) = Some (t', k) \<and> tty_ok t'"
proof -
  assume t: "tty_ok t"
  define t1 where "t1 = t\<lparr>tty_otcaller := schar (m_source m), tty_outproc := schar (m2_i2 m), tty_out_vir := m2_p1 m,
                 tty_outleft := m2_i3 m, tty_waiting := True, tty_cum := 0\<rparr>"
  define t2 where "t2 = t1\<lparr>tty_phys := umap (procs k (tty_outproc t1)) SEG_D (tty_out_vir t1) (word_of_int (tty_outleft t1))\<rparr>"
  define t3 where "t3 = (if tty_phys t2 = 0 then t2\<lparr>tty_cum := E_BAD_ADDR, tty_outleft := 0\<rparr> else t2)"
  have "tty_ok t3" using t by (simp add: t3_def t2_def t1_def)
  then obtain t4 where t4: "console e k t3 = Some t4" "tty_ok t4" using console_ok by blast
  have "do_write_tty e m (t, k) = do { t4 \<leftarrow> console e k t3; Some (t4, k) }"
    by (simp add: do_write_tty_def Let_def t3_def t2_def t1_def)
  then show ?thesis using t4 by simp
qed

section \<open>Typed characters\<close>

lemma store_in_ok: "tty_ok t \<Longrightarrow> tty_incount t \<le> int TTY_IN_BYTES \<Longrightarrow> tty_ok (store_in c t)"
proof -
  assume t: "tty_ok t" and n: "tty_incount t \<le> int TTY_IN_BYTES"
  have h: "tty_inhead t < 200" "0 \<le> tty_incount t" "tty_inhead t = (tty_intail t + nat (tty_incount t)) mod 200"
    using t by (simp_all add: tty_ok_def queue_ok_def)
  have "next_in (tty_inhead t) = (tty_intail t + nat (tty_incount t + 1)) mod 200"
    unfolding next_in_mod [OF h(1)] unfolding h(3) using h(2) by (simp add: nat_add_distrib mod_Suc_eq)
  then show ?thesis using t n by (simp add: tty_ok_def queue_ok_def) (simp add: store_in_def)
qed

lemma queue_char_ok: "tty_ok t \<Longrightarrow> tty_incount t \<le> int TTY_IN_BYTES \<Longrightarrow> \<exists>t'. queue_char e c t = Some t' \<and> tty_ok t'"
  unfolding queue_char_def by (intro echo_ok store_in_ok) auto

lemma make_break_ok:
  assumes "make_break ch0 t = Some (ch, t1)" "tty_ok t"
  shows "tty_ok t1 \<and> tty_incount t1 = tty_incount t"
  using assms by (auto simp: make_break_def shift_key_def Let_def bind_eq_Some_conv split: if_splits)

lemma chuck_ok: "tty_ok t \<Longrightarrow> chuck t = Some t1 \<Longrightarrow> tty_ok t1"
  using chuck_some [of t t1] chuck_sel(1) [of t t1] by (simp add: tty_ok_def)

lemma chuck_line_ok: "tty_ok t \<Longrightarrow> \<exists>t1. chuck_line t = Some t1 \<and> tty_ok t1"
  using tq.unput_line_kills [of t] chuck_line_sel [of t] by (auto simp: tty_ok_def)

lemma edit_char_ok:
  assumes "tty_ok t" "tty_incount t < int TTY_IN_BYTES"
  shows "\<exists>r t'. edit_char e c t = Some (r, t') \<and> tty_ok t' \<and> (r \<noteq> None \<longrightarrow> tty_incount t' \<le> int TTY_IN_BYTES)"
proof -
  consider (erase) "c = tty_erase t" "\<not> tty_escaped t" | (kill) "c = tty_kill t" "\<not> tty_escaped t" "c \<noteq> tty_erase t"
    | (other) "c \<noteq> tty_erase t \<and> c \<noteq> tty_kill t \<or> tty_escaped t" by blast
  then show ?thesis
  proof cases
    case erase
    define t0 where "t0 = (case chuck t of None \<Rightarrow> t | Some t0 \<Rightarrow> t0)"
    have "tty_ok t0" using assms(1) chuck_ok by (auto simp: t0_def split: option.splits)
    then obtain a1 where a1: "echo e BS t0 = Some a1" "tty_ok a1" using echo_ok by blast
    obtain a2 where a2: "echo e SPACE a1 = Some a2" "tty_ok a2" using echo_ok [OF a1(2)] by blast
    obtain a3 where a3: "echo e BS a2 = Some a3" "tty_ok a3" using echo_ok [OF a2(2)] by blast
    then show ?thesis using erase by (simp add: edit_char_def t0_def [symmetric] a1(1) a2(1))
  next
    case kill
    obtain t0 where t0: "chuck_line t = Some t0" "tty_ok t0" using chuck_line_ok [OF assms(1)] by blast
    obtain a1 where a1: "echo e (tty_kill t0) t0 = Some a1" "tty_ok a1" using echo_ok [OF t0(2)] by blast
    obtain a2 where a2: "echo e LF a1 = Some a2" "tty_ok a2" using echo_ok [OF a1(2)] by blast
    then show ?thesis using kill by (simp add: edit_char_def t0(1) a1(1))
  next
    case other
    have "tty_ok (t\<lparr>tty_escaped := True\<rparr>)" using assms(1) by simp
    from echo_ok [OF this, of e BACKSLASH] other assms show ?thesis
      by (auto simp: edit_char_def Let_def intro!: store_in_ok)
  qed
qed

lemma special_char_ok:
  assumes "special_char e line c (t, k) = Some (t', k')" "tty_ok t" "tty_incount t \<le> int TTY_IN_BYTES"
  shows "tty_ok t'"
proof -
  let ?c = "if c = CR \<and> has_flag (tty_mode t) CRMOD then LF else c"
  have i: "tty_ok (t\<lparr>tty_inhibited := b\<rparr>)" for b using assms(2) by simp
  obtain t1 where "queue_char e ?c t = Some t1" "tty_ok t1" using queue_char_ok [OF assms(2,3)] by blast
  moreover obtain t2 where "console e k (t\<lparr>tty_inhibited := False\<rparr>) = Some t2" "tty_ok t2" using console_ok [OF i] by blast
  moreover note empty_queue_ok [OF finish_ok [OF i], of 0 "-4" False]
  ultimately show ?thesis
    using assms(1,2) unfolding special_char_def prod.case Let_def
    by (auto simp: bind_eq_Some_conv split: if_splits)
qed

lemma in_char_ok:
  assumes "in_char e line ch0 (t, k) = Some (t', k')" "tty_ok t"
  shows "tty_ok t'"
proof (cases "59 \<le> ch0 \<and> ch0 \<le> 68")
  case True
  then show ?thesis
    using assms out_chars_ok [OF assms(2)]
    by (auto simp: in_char_def func_key_def bind_eq_Some_conv split: if_splits) (metis option.inject)+
next
  case False
  show ?thesis
  proof (cases "line \<noteq> 0 \<or> int TTY_IN_BYTES \<le> tty_incount t")
    case True
    then show ?thesis using assms False by (auto simp: in_char_def split: if_splits)
  next
    case room: False
    let ?mode = "tty_mode t AND (RAW OR CBREAK)"
    obtain ch t1 where key: "(if tty_makebreak t then make_break ch0 t
        else Some (if ?mode \<noteq> RAW then ch0 AND 127 else ch0, t)) = Some (ch, t1)"
      using assms(1) False room by (auto simp: in_char_def Let_def bind_eq_Some_conv split: if_splits)
    have t1: "tty_ok t1" "tty_incount t1 < int TTY_IN_BYTES"
      using key make_break_ok [of ch0 t ch t1] assms(2) room by (auto split: if_splits)
    have step: "in_char e line ch0 (t, k) =
        (if ch = 0 then Some (t1, k)
         else if ?mode = COOKED \<or> ?mode = CBREAK
         then do {
            (r, t2) \<leftarrow> (if ?mode = COOKED then edit_char e ch t1 else Some (Some ch, t1));
            case r of None \<Rightarrow> Some (t2, k) | Some ch2 \<Rightarrow> special_char e line ch2 (t2, k)
         }
         else do { t2 \<leftarrow> queue_char e ch t1; Some (t2, k) })"
      using False room unfolding in_char_def prod.case Let_def key by auto
    obtain r t2 where r: "edit_char e ch t1 = Some (r, t2)" "tty_ok t2" "r \<noteq> None \<longrightarrow> tty_incount t2 \<le> int TTY_IN_BYTES"
      using edit_char_ok [OF t1] by blast
    obtain t3 where t3: "queue_char e ch t1 = Some t3" "tty_ok t3" using queue_char_ok [OF t1(1)] t1(2) by fastforce
    show ?thesis
      using assms(1) t1 r t3 special_char_ok [of e line _ t2 k t' k'] special_char_ok [of e line ch t1 k t' k']
      unfolding step by (auto split: if_splits option.splits)
  qed
qed

section \<open>Reading\<close>

lemma rd_chars_ok:
  assumes "tty_ok t"
  shows "\<exists>c t' k'. rd_chars e (t, k) = Some (c, t', k') \<and> tty_ok t'"
proof -
  let ?um = "umap (procs k (tty_inproc t)) SEG_D (tty_in_vir t) (word_of_int (tty_inleft t))"
  let ?bf = "umap (procs k TTY) SEG_D (tty_buf_at e) (word_of_nat TTY_BUF_SIZE)"
  have q: "queue_ok t" "screen_ok t" using assms by (simp_all add: tty_ok_def)
  consider (none) "tty_incount t = 0 \<or> cooked_mode t \<and> tty_lfct t = 0" | (bad) "\<not> (tty_incount t = 0 \<or> cooked_mode t \<and> tty_lfct t = 0)" "?um = 0"
    | (idle) "\<not> (tty_incount t = 0 \<or> cooked_mode t \<and> tty_lfct t = 0)" "?um \<noteq> 0" "tty_inleft t \<le> 0"
    | (go) "\<not> (tty_incount t = 0 \<or> cooked_mode t \<and> tty_lfct t = 0)" "?um \<noteq> 0" "0 < tty_inleft t" by linarith
  then show ?thesis
  proof cases
    case none
    then show ?thesis using assms unfolding rd_chars_def prod.case Let_def cooked_mode_def [symmetric] by simp
  next
    case bad
    then show ?thesis using assms unfolding rd_chars_def prod.case Let_def cooked_mode_def [symmetric] by simp
  next
    case idle
    have "rd_loop e (cooked_mode t) ?bf ?um 0 (t, k) = Some (0, t, k)" using idle(3) by (subst rd_loop.simps) simp
    then show ?thesis
      using assms idle unfolding rd_chars_def prod.case Let_def cooked_mode_def [symmetric] by simp
  next
    case go
    have n: "0 < tty_incount t" using go(1) q(1) by (auto simp: queue_ok_def)
    obtain t1 where t1: "rd_loop e (cooked_mode t) ?bf ?um 0 (t, k) = Some (int (length (read_given t)), t1,
        phys_copy ?bf ?um (word_of_int (int (length (read_given t)))) (buf_bytes e 0 (read_taken t) k))"
      "t1\<lparr>tty_inleft := 0\<rparr> = t\<lparr>tty_intail := (tty_intail t + length (read_taken t)) mod TTY_IN_BYTES,
        tty_lfct := tty_lfct t - int (line_marks (read_taken t)), tty_inleft := 0,
        tty_incount := tty_incount t - int (length (read_taken t))\<rparr>"
      using rd_loop_once [OF q(1) go(3) n] by blast
    have "tty_ok (t1\<lparr>tty_inleft := 0\<rparr>)"
      using read_keeps_queue [OF q(1)] q(2) unfolding t1(2) by (simp add: tty_ok_def screen_ok_def)
    moreover have c: "(tty_incount t = 0 \<or> cooked_mode t \<and> tty_lfct t = 0) = False" "(?um = 0) = False" using go by simp_all
    have "rd_chars e (t, k) = Some (int (length (read_given t)), t1\<lparr>tty_inleft := 0\<rparr>,
        phys_copy ?bf ?um (word_of_int (int (length (read_given t)))) (buf_bytes e 0 (read_taken t) k))"
      unfolding rd_chars_def prod.case Let_def cooked_mode_def [symmetric] c if_False t1(1) by simp
    ultimately show ?thesis by blast
  qed
qed

lemma do_read_ok: "tty_ok t \<Longrightarrow> \<exists>t' k'. do_read_tty e m (t, k) = Some (t', k') \<and> tty_ok t'"
proof -
  assume t: "tty_ok t"
  let ?t1 = "t\<lparr>tty_incaller := schar (m_source m), tty_inproc := schar (m2_i2 m), tty_in_vir := m2_p1 m, tty_inleft := m2_i3 m\<rparr>"
  have "tty_ok ?t1" using t by simp
  then obtain c t' k' where "rd_chars e (?t1, k) = Some (c, t', k')" "tty_ok t'" using rd_chars_ok by blast
  then show ?thesis using t by (auto simp: do_read_tty_def)
qed

lemma wake_reader_ok: "tty_ok t \<Longrightarrow> wake_reader e (t, k) = Some (t', k') \<Longrightarrow> tty_ok t'"
  using rd_chars_ok [of t e k] by (auto simp: wake_reader_def split: if_splits)

lemma charint_loop_ok: "charint_loop e xs (t, k) = Some (t', k') \<Longrightarrow> tty_ok t \<Longrightarrow> tty_ok t'"
proof (induction xs arbitrary: t k)
  case (Cons x xs)
  obtain ch n where x: "x = (ch, n)" by (cases x)
  from Cons.prems(1) obtain t1 k1 t2 k2 where
    "in_char e (sint n) ch (t, k) = Some (t1, k1)" "wake_reader e (t1, k1) = Some (t2, k2)" "charint_loop e xs (t2, k2) = Some (t', k')"
    unfolding x by (auto simp: bind_eq_Some_conv)
  then show ?case using Cons.IH Cons.prems(2) in_char_ok wake_reader_ok by blast
qed auto

section \<open>The task\<close>



section \<open>Stopped output\<close>

text \<open>
  A write to a terminal that CTRL-S has stopped is neither carried out nor answered: no reply of any kind
  goes to FS, which waits for one, until CTRL-Q or an interrupt character is typed.
\<close>

lemma stopped_write_is_not_answered:
  assumes "tty_inhibited t" "0 < m2_i3 m" "umap (procs k (schar (m2_i2 m))) SEG_D (m2_p1 m) (word_of_int (m2_i3 m)) \<noteq> 0"
  shows "\<exists>t'. do_write_tty e m (t, k) = Some (t', k) \<and> tty_sent t' = tty_sent t \<and> tty_waiting t' \<and> tty_outleft t' = m2_i3 m"
proof -
  have stop: "console_loop e k sg n off t1 = Some (off, t1)" if "tty_inhibited t1" for sg n off t1
    using that by (cases n) simp_all
  have "tty_sent (flush e t1) = tty_sent t1" "tty_outleft (flush e t1) = tty_outleft t1" "tty_waiting (flush e t1) = tty_waiting t1" for t1
    using off_screen [of "flush e t1" t1] by simp_all
  then show ?thesis using assms by (simp add: do_write_tty_def Let_def console_def stop)
qed

end
