(* ===== verification/KWini.thy ===== *)
theory KWini
  imports KMemory KTtyIn "HOL-Library.Signed_Division"
begin

text \<open>
  The hard disk driver, \<^verbatim>\<open>kernel/wini.c\<close>, with \<^verbatim>\<open>port_read\<close> and \<^verbatim>\<open>port_write\<close> of \<^verbatim>\<open>kernel/klib88.asm\<close>.

  The controller is a parameter: \<open>port_val\<close> is the value of the n-th \<^verbatim>\<open>port_in\<close> and \<open>sector_val\<close> the bytes of the
  n-th sector that the drive delivers.  What the driver does to it is the log \<open>w_log\<close>: port output, waiting
  for the interrupt, and sectors written.  Console output and the delay loops are left out.  \<^verbatim>\<open>buf\<close> is in the
  kernel's data segment, where \<^verbatim>\<open>umap\<close> finds it.
\<close>

section \<open>State\<close>

record win_env =
  port_val :: "nat \<Rightarrow> u16"
  sector_val :: "nat \<Rightarrow> nat \<Rightarrow> u8"
  vec_table :: "nat \<Rightarrow> u16"
  win_buf :: u16

datatype w_event = Port_out u16 u16 | Await | Sector_out "u8 list"

record wini =
  wn_opcode :: int
  wn_procnr :: int
  wn_drive :: int
  wn_cylinder :: int
  wn_sector :: int
  wn_head :: int
  wn_heads :: int
  wn_maxsec :: int
  wn_ctlbyte :: int
  wn_precomp :: int
  wn_low :: int
  wn_size :: int
  wn_count :: int
  wn_address :: u16

record win =
  wini_tab :: "nat \<Rightarrow> wini"
  w_need_reset :: bool
  nr_drives :: int
  command :: "nat \<Rightarrow> int"
  ins_read :: nat
  secs_read :: nat
  w_log :: "w_event list"

abbreviation (input) "SECTOR_SIZE \<equiv> (512::nat)"
abbreviation (input) "W_BLOCK \<equiv> (1024::int)"
abbreviation (input) "ERR \<equiv> (-1::int)"
abbreviation (input) "MAX_WIN_RETRY \<equiv> (10000::nat)"
abbreviation (input) "WINCHESTER \<equiv> (-6::int)"
abbreviation (input) "WIN_REG2 \<equiv> (0x1F1::u16)"
abbreviation (input) "WIN_REG9 \<equiv> (0x3F6::u16)"

definition w_out :: "u16 \<Rightarrow> int \<Rightarrow> win \<Rightarrow> win" where
  "w_out p v w = w\<lparr>w_log := w_log w @ [Port_out p (word_of_int v)]\<rparr>"

definition w_await :: "win \<Rightarrow> win" where
  "w_await w = w\<lparr>w_log := w_log w @ [Await]\<rparr>"

definition w_in :: "win_env \<Rightarrow> win \<Rightarrow> u16 \<times> win" where
  "w_in e w = (port_val e (ins_read w), w\<lparr>ins_read := ins_read w + 1\<rparr>)"

section \<open>The controller\<close>

text \<open>\<^verbatim>\<open>drive_busy\<close>: the loop reads the status until the busy bit is off, the result is the last value read.\<close>

fun busy_loop :: "win_env \<Rightarrow> nat \<Rightarrow> u16 \<Rightarrow> win \<Rightarrow> u16 \<times> win" where
  "busy_loop e 0 r w = (r, w)"
| "busy_loop e (Suc n) r w = (if r AND 0x80 \<noteq> 0 then (let (r1, w1) = w_in e w in busy_loop e n r1 w1) else (r, w))"

definition drive_busy :: "win_env \<Rightarrow> win \<Rightarrow> int \<times> win" where
  "drive_busy e w =
     (let (r, w1) = busy_loop e MAX_WIN_RETRY 255 w
      in if r AND 0x80 \<noteq> 0 \<or> r AND 0x40 = 0 \<or> r AND 0x10 = 0 then (ERR, w1\<lparr>w_need_reset := True\<rparr>) else (OK, w1))"

definition win_results :: "win_env \<Rightarrow> win \<Rightarrow> int \<times> win" where
  "win_results e w =
     (let (r, w1) = w_in e w
      in if r AND 0x80 \<noteq> 0 then (OK, w1)
         else if r AND 0x40 = 0 \<or> r AND 0x20 \<noteq> 0 \<or> r AND 0x10 = 0 \<or> r AND 1 \<noteq> 0
         then (ERR, if r AND 1 \<noteq> 0 then snd (w_in e w1) else w1)
         else (OK, w1))"

definition com_out :: "win_env \<Rightarrow> win \<Rightarrow> int \<times> win" where
  "com_out e w =
     (let (busy, w1) = drive_busy e w
      in if busy \<noteq> OK then (ERR, w1\<lparr>w_need_reset := True\<rparr>)
         else (OK, fold (\<lambda>i. w_out (WIN_REG2 + word_of_nat (i - 1)) (command w1 i)) [1..<8] (w_out WIN_REG9 (command w1 0) w1)))"

text \<open>A command followed by the interrupt and the look at its result, as \<^verbatim>\<open>win_init\<close> does it three times.\<close>

definition run_command :: "win_env \<Rightarrow> win \<Rightarrow> int \<times> win" where
  "run_command e w =
     (let (r, w1) = com_out e w
      in if r \<noteq> OK then (ERR, w1)
         else
           (let (r2, w2) = win_results e (w_await w1)
            in if r2 \<noteq> OK then (ERR, w2\<lparr>w_need_reset := True\<rparr>) else (OK, w2)))"

definition set_commands :: "(nat \<times> int) list \<Rightarrow> win \<Rightarrow> win" where
  "set_commands xs w = w\<lparr>command := fold (\<lambda>(i, v) c. c(i := v)) xs (command w)\<rparr>"

definition specify :: "wini \<Rightarrow> int \<Rightarrow> (nat \<times> int) list" where
  "specify d bits = [(0, wn_ctlbyte d), (1, wn_precomp d), (2, wn_maxsec d), (4, 0),
     (6, (wn_heads d - 1) OR bits), (7, 0x91)]"

text \<open>The last loop of \<^verbatim>\<open>win_init\<close>; a third drive would index the table beyond its end.\<close>

fun recalibrate_all :: "win_env \<Rightarrow> nat \<Rightarrow> nat \<Rightarrow> win \<Rightarrow> (int \<times> win) option" where
  "recalibrate_all e i 0 w = Some (OK, w)"
| "recalibrate_all e i (Suc n) w =
     (if 5 * i \<ge> 10 then None
      else
        (let (r, w1) = run_command e (set_commands [(0, wn_ctlbyte (wini_tab w (5 * i))), (6, push_bit 4 (int i) OR 0xA0), (7, 0x10)] w)
         in if r \<noteq> OK then Some (ERR, w1) else recalibrate_all e (i + 1) n w1))"

definition win_init :: "win_env \<Rightarrow> win \<Rightarrow> (int \<times> win) option" where
  "win_init e w =
     (let (r, w1) = run_command e (set_commands (specify (wini_tab w 0) 0xA0) w)
      in if r \<noteq> OK then Some (ERR, w1)
         else
           (let (r2, w2) = (if nr_drives w1 > 1 then run_command e (set_commands (specify (wini_tab w1 5) 0xB0) w1) else (OK, w1))
            in if r2 \<noteq> OK then Some (ERR, w2) else recalibrate_all e 0 (nat (nr_drives w2)) w2))"

fun wait_ready :: "win_env \<Rightarrow> nat \<Rightarrow> win \<Rightarrow> win" where
  "wait_ready e 0 w = w"
| "wait_ready e (Suc n) w = (let (busy, w1) = drive_busy e w in if busy \<noteq> OK then wait_ready e n w1 else w1)"

definition w_reset :: "win_env \<Rightarrow> win \<Rightarrow> (int \<times> win) option" where
  "w_reset e w =
     (let w1 = w_out WIN_REG9 (wn_ctlbyte (wini_tab w 0) AND 0x0F) (w_out WIN_REG9 4 w);
          (busy, w2) = drive_busy e (wait_ready e MAX_WIN_RETRY w1)
      in if busy \<noteq> OK then Some (ERR, w2)
         else
           (let (r, w3) = w_in e w2
            in if r \<noteq> 1 then Some (ERR, w3) else win_init e (w3\<lparr>w_need_reset := False\<rparr>)))"

section \<open>Transfers\<close>

definition put_bytes :: "nat \<Rightarrow> u8 list \<Rightarrow> kernel \<Rightarrow> kernel" where
  "put_bytes a xs k = k\<lparr>memory := fold (\<lambda>i m. m(in_mem (a + i) := xs ! i)) [0..<length xs] (memory k)\<rparr>"

definition port_read :: "win_env \<Rightarrow> u32 \<Rightarrow> win \<times> kernel \<Rightarrow> win \<times> kernel" where
  "port_read e dest = (\<lambda>(w, k).
     (w\<lparr>secs_read := secs_read w + 1\<rparr>, put_bytes (unat dest) (map (sector_val e (secs_read w)) [0..<SECTOR_SIZE]) k))"

definition port_write :: "u32 \<Rightarrow> win \<times> kernel \<Rightarrow> win \<times> kernel" where
  "port_write src = (\<lambda>(w, k).
     (w\<lparr>w_log := w_log w @ [Sector_out (map (\<lambda>i. memory k (in_mem (unat src + i))) [0..<SECTOR_SIZE])]\<rparr>, k))"

fun read_sectors :: "win_env \<Rightarrow> nat \<Rightarrow> u32 \<Rightarrow> win \<times> kernel \<Rightarrow> int \<times> win \<times> kernel" where
  "read_sectors e 0 usr_buf s = (OK, s)"
| "read_sectors e (Suc n) usr_buf (w, k) =
     (let (r, w1) = win_results e (w_await w)
      in if r \<noteq> OK then (ERR, w1\<lparr>w_need_reset := True\<rparr>, k)
         else read_sectors e n (usr_buf + 512) (port_read e usr_buf (w1, k)))"

fun write_sectors :: "win_env \<Rightarrow> nat \<Rightarrow> u32 \<Rightarrow> win \<times> kernel \<Rightarrow> int \<times> win \<times> kernel" where
  "write_sectors e 0 usr_buf s = (OK, s)"
| "write_sectors e (Suc n) usr_buf s =
     (let (w1, k) = port_write usr_buf s; (r, w2) = win_results e (w_await w1)
      in if r \<noteq> OK then (ERR, w2\<lparr>w_need_reset := True\<rparr>, k) else write_sectors e n (usr_buf + 512) (w2, k))"

text \<open>Before a write, waiting until the drive asks for data.\<close>

fun await_data :: "win_env \<Rightarrow> nat \<Rightarrow> u16 \<Rightarrow> win \<Rightarrow> u16 \<times> win" where
  "await_data e 0 r w = (r, w)"
| "await_data e (Suc n) r w = (if r AND 8 = 0 then (let (r1, w1) = w_in e w in await_data e n r1 w1) else (r, w))"

definition transfer_command :: "wini \<Rightarrow> (nat \<times> int) list" where
  "transfer_command wn = [(0, wn_ctlbyte wn), (1, wn_precomp wn), (2, 2), (3, wn_sector wn), (4, wn_cylinder wn AND 0xFF),
     (5, drop_bit 8 (wn_cylinder wn AND 0x300)), (6, push_bit 4 (wn_drive wn) OR wn_head wn OR 0xA0),
     (7, if wn_opcode wn = DISK_READ then 0x20 else 0x30)]"

definition w_transfer :: "win_env \<Rightarrow> nat \<Rightarrow> win \<times> kernel \<Rightarrow> int \<times> win \<times> kernel" where
  "w_transfer e dev = (\<lambda>(w, k).
     (let wn = wini_tab w dev; usr_buf = umap (procs k (wn_procnr wn)) SEG_D (wn_address wn) 1024
      in if usr_buf = 0 then (ERR, w, k)
         else
           (let (r, w1) = com_out e (set_commands (transfer_command wn) w)
            in if r \<noteq> OK then (ERR, w1, k)
               else if wn_opcode wn = DISK_READ then read_sectors e 2 usr_buf (w1, k)
               else
                 (let (q, w2) = await_data e MAX_WIN_RETRY 0 w1
                  in if q AND 8 = 0 then (ERR, w2\<lparr>w_need_reset := True\<rparr>, k) else write_sectors e 2 usr_buf (w2, k)))))"

text \<open>The loop of \<^verbatim>\<open>w_do_rdwt\<close>, with at most \<^verbatim>\<open>MAX_ERRORS\<close> trials.\<close>

fun win_tries :: "win_env \<Rightarrow> nat \<Rightarrow> nat \<Rightarrow> win \<times> kernel \<Rightarrow> (int \<times> win \<times> kernel) option" where
  "win_tries e dev 0 (w, k) = Some (EIO, w, k)"
| "win_tries e dev (Suc n) (w, k) = do {
     w1 \<leftarrow> (if w_need_reset w then map_option snd (w_reset e w) else Some w);
     let (r, w2, k2) = w_transfer e dev (w1, k);
     if r = OK then Some (W_BLOCK, w2, k2) else win_tries e dev n (w2, k2)
   }"

text \<open>\<open>place_sector\<close> is the cylinder, head and sector of a sector number; 16-bit products wrap around.\<close>

definition place_sector :: "int \<Rightarrow> wini \<Rightarrow> wini option" where
  "place_sector sector wn =
     (let per_cyl = int_of (wn_heads wn * wn_maxsec wn)
      in if per_cyl = 0 \<or> wn_maxsec wn = 0 then None
         else Some (wn\<lparr>wn_cylinder := int_of (sector sdiv per_cyl), wn_sector := int_of (sector smod wn_maxsec wn + 1),
                       wn_head := int_of ((sector smod per_cyl) sdiv wn_maxsec wn)\<rparr>))"

definition w_do_rdwt :: "win_env \<Rightarrow> kmess \<Rightarrow> win \<times> kernel \<Rightarrow> (int \<times> win \<times> kernel) option" where
  "w_do_rdwt e m = (\<lambda>(w, k).
     (let device = m2_i1 m; dev = nat device
      in if device < 0 \<or> device \<ge> 10 then Some (EIO, w, k)
         else if m2_i3 m \<noteq> W_BLOCK then Some (EINVAL, w, k)
         else
           (let w1 = w\<lparr>wini_tab := (wini_tab w)(dev := (wini_tab w dev)\<lparr>wn_drive := device div 5\<rparr>)\<rparr>
            in if device div 5 \<ge> nr_drives w then Some (EIO, w1, k)
               else
                 (let w2 = w1\<lparr>wini_tab := (wini_tab w1)(dev := (wini_tab w1 dev)\<lparr>wn_opcode := m_type m\<rparr>)\<rparr>;
                      sector = m2_l1 m div 512
                  in if m2_l1 m mod W_BLOCK \<noteq> 0 then Some (EINVAL, w2, k)
                     else if sector + 2 > wn_size (wini_tab w2 dev) then Some (EOF, w2, k)
                     else do {
                       wn \<leftarrow> place_sector (long_of (sector + wn_low (wini_tab w2 dev))) (wini_tab w2 dev);
                       win_tries e dev 4 (w2\<lparr>wini_tab := (wini_tab w2)(dev :=
                         wn\<lparr>wn_count := m2_i3 m, wn_address := m2_p1 m, wn_procnr := m2_i2 m\<rparr>)\<rparr>, k)
                     }))))"

section \<open>The task\<close>

text \<open>One message; the result is the reply, if there is one.\<close>

definition winchester_task :: "win_env \<Rightarrow> kmess \<Rightarrow> win \<times> kernel \<Rightarrow> (kmess option \<times> win \<times> kernel) option" where
  "winchester_task e m s =
     (if m_source m < 0 then Some (None, s)
      else do {
        (r, s1) \<leftarrow> (if m_type m = DISK_READ \<or> m_type m = DISK_WRITE then w_do_rdwt e m s else Some (EINVAL, s));
        Some (Some (m\<lparr>m_type := TASK_REPLY, m2_i1 := m2_i2 m, m2_i2 := r\<rparr>), s1)
      })"

section \<open>Parameters and partitions\<close>

definition int_at :: "kernel \<Rightarrow> u16 \<Rightarrow> int" where
  "int_at k a = sint (ucast (peek k a) + push_bit 8 (ucast (peek k (a + 1))) :: u16)"

definition long_at :: "kernel \<Rightarrow> u16 \<Rightarrow> int" where
  "long_at k a = sint (ucast (peek k a) + push_bit 8 (ucast (peek k (a + 1))) + push_bit 16 (ucast (peek k (a + 2)))
     + push_bit 24 (ucast (peek k (a + 3))) :: u32)"

definition copy_params :: "win_env \<Rightarrow> nat \<Rightarrow> win \<times> kernel \<Rightarrow> win" where
  "copy_params e dest = (\<lambda>(w, k).
     (let src = win_buf e;
          tab = fold (\<lambda>i t. t(dest + i := (t (dest + i))\<lparr>wn_heads := uint (peek k (src + 2)),
                  wn_precomp := drop_bit 2 (int_at k (src + 5)), wn_ctlbyte := uint (peek k (src + 8)),
                  wn_maxsec := uint (peek k (src + 14))\<rparr>)) [0..<5] (wini_tab w);
          d = tab dest
      in w\<lparr>wini_tab := tab(dest := d\<lparr>wn_size := long_of (int_at k src * wn_heads d * wn_maxsec d)\<rparr>)\<rparr>))"

text \<open>One entry of the partition table: an odd start is moved up to the next block.\<close>

definition partition :: "kernel \<Rightarrow> u16 \<Rightarrow> wini \<Rightarrow> wini" where
  "partition k a wn =
     (let low = long_at k a; low1 = (if low smod 2 \<noteq> 0 then long_of ((low sdiv 2 + 1) * 2) else low)
      in wn\<lparr>wn_low := low1, wn_size := long_of (long_at k (a + 4) - (low1 - low))\<rparr>)"

definition out_of_order :: "wini \<Rightarrow> wini \<Rightarrow> bool" where
  "out_of_order a b \<longleftrightarrow> wn_low a = 0 \<and> wn_low b \<noteq> 0 \<or> wn_low a > wn_low b \<and> wn_low b \<noteq> 0"

definition sort_step :: "nat \<Rightarrow> wini list \<Rightarrow> wini list" where
  "sort_step j wn = (if out_of_order (wn ! j) (wn ! (j + 1)) then wn[j := wn ! (j + 1), j + 1 := wn ! j] else wn)"

definition sort_wini :: "wini list \<Rightarrow> wini list" where
  "sort_wini wn = fold (\<lambda>i. fold sort_step [0..<3]) [0..<4::nat] wn"

definition copy_prt :: "win_env \<Rightarrow> nat \<Rightarrow> win \<times> kernel \<Rightarrow> win" where
  "copy_prt e drive = (\<lambda>(w, k).
     (let ps = map (\<lambda>i. partition k (win_buf e + 0x1C6 + 0x10 * word_of_nat i) (wini_tab w (i + drive + 1))) [0..<4];
          qs = sort_wini ps
      in w\<lparr>wini_tab := (\<lambda>n. if drive + 1 \<le> n \<and> n < drive + 5 then qs ! (n - (drive + 1)) else wini_tab w n)\<rparr>))"

text \<open>The start-up: drive parameters from the BIOS, a reset, and the partition tables.\<close>

definition bios_params :: "win_env \<Rightarrow> nat \<Rightarrow> nat \<Rightarrow> win \<times> kernel \<Rightarrow> win \<times> kernel" where
  "bios_params e vec dest = (\<lambda>(w, k).
     (let address = push_bit 4 (ucast (vec_table e (2 * vec + 1))) + ucast (vec_table e (2 * vec));
          k1 = phys_copy address (umap (procs k WINCHESTER) SEG_D (win_buf e) 16) 16 k
      in (copy_params e dest (w, k1), k1)))"

fun read_partitions :: "win_env \<Rightarrow> nat \<Rightarrow> nat \<Rightarrow> kmess \<Rightarrow> win \<times> kernel \<Rightarrow> (win \<times> kernel) option" where
  "read_partitions e i 0 m s = Some s"
| "read_partitions e i (Suc n) m s = do {
     let m1 = m\<lparr>m2_i1 := int i * 5, m2_l1 := 0, m2_i3 := W_BLOCK, m2_p1 := win_buf e, m2_i2 := WINCHESTER, m_type := DISK_READ\<rparr>;
     (r, w, k) \<leftarrow> w_do_rdwt e m1 s;
     read_partitions e (i + 1) n m
       (if r \<noteq> W_BLOCK \<or> peek k (win_buf e + 510) \<noteq> 0x55 \<or> peek k (win_buf e + 511) \<noteq> 0xAA then (w, k)
        else (copy_prt e (i * 5) (w, k), k))
   }"

definition init_params :: "win_env \<Rightarrow> kmess \<Rightarrow> win \<times> kernel \<Rightarrow> (win \<times> kernel) option" where
  "init_params e m s =
     (let (w1, k1) = bios_params e 0x46 5 (bios_params e 0x41 0 s);
          k2 = phys_copy 0x475 (umap (procs k1 WINCHESTER) SEG_D (win_buf e) 1) 1 k1;
          tab = wini_tab w1;
          w2 = w1\<lparr>nr_drives := uint (peek k2 (win_buf e)), wini_tab := tab(5 := (tab 5)\<lparr>wn_low := 0\<rparr>, 0 := (tab 0)\<lparr>wn_low := 0\<rparr>)\<rparr>
      in do {
        w3 \<leftarrow> (if nr_drives w2 > 0 then do { (r, w3) \<leftarrow> w_reset e w2; Some (if r \<noteq> OK then w3\<lparr>nr_drives := 0\<rparr> else w3) } else Some w2);
        read_partitions e 0 (nat (nr_drives w3)) m (w3, k2)
      })"

end
