(* ===== verification/KWiniProps.thy ===== *)
theory KWiniProps
  imports KWini "HOL-Library.Product_Lexorder" "HOL-Library.Multiset"
begin

text \<open>
  The hard disk driver: which sector a request addresses, what a read brings into memory and a write takes
  from it, and the order of the partitions.
\<close>

section \<open>Sectors\<close>

definition geometry_ok :: "wini \<Rightarrow> bool" where
  "geometry_ok wn \<longleftrightarrow> 0 < wn_heads wn \<and> 0 < wn_maxsec wn \<and> wn_heads wn * wn_maxsec wn < 32768"

definition sector_of :: "wini \<Rightarrow> int" where
  "sector_of wn = (wn_cylinder wn * wn_heads wn + wn_head wn) * wn_maxsec wn + wn_sector wn - 1"

lemma trunc_div:
  fixes a b :: int
  assumes "0 \<le> a" "0 < b"
  shows "a sdiv b = a div b" "a smod b = a mod b"
  using assms by (cases "a = 0"; simp add: signed_divide_int_def signed_modulo_int_def)+

lemma div_below:
  fixes a b c :: int
  assumes "0 < b" "a < c * b"
  shows "a div b < c"
proof (rule ccontr)
  assume "\<not> a div b < c"
  then have "c * b \<le> a div b * b" using assms(1) by (intro mult_right_mono) simp_all
  moreover have "a div b * b \<le> a" using pos_mod_sign [OF assms(1), of a] div_mult_mod_eq [of a b] by linarith
  ultimately show False using assms(2) by simp
qed

lemma place_sector_right:
  assumes "geometry_ok wn" "0 \<le> s" "s < wn_heads wn * wn_maxsec wn * 1024"
  shows "\<exists>wn'. place_sector s wn = Some wn' \<and> sector_of wn' = s \<and> 0 \<le> wn_cylinder wn' \<and> wn_cylinder wn' < 1024
    \<and> 0 \<le> wn_head wn' \<and> wn_head wn' < wn_heads wn \<and> 1 \<le> wn_sector wn' \<and> wn_sector wn' \<le> wn_maxsec wn
    \<and> wn' = wn\<lparr>wn_cylinder := wn_cylinder wn', wn_sector := wn_sector wn', wn_head := wn_head wn'\<rparr>"
proof -
  let ?h = "wn_heads wn" and ?m = "wn_maxsec wn"
  let ?p = "?h * ?m"
  have g: "0 < ?h" "0 < ?m" "?p < 32768" "0 < ?p" using assms(1) by (auto simp: geometry_ok_def)
  have m: "?m \<le> ?p" using g by simp
  have pc: "int_of ?p = ?p" using g by (intro int_of_small) linarith+
  have md: "0 \<le> s mod ?p" "s mod ?p < ?p" "0 \<le> s mod ?m" "s mod ?m < ?m" using g by simp_all
  have c: "0 \<le> s div ?p" "s div ?p < 1024"
  proof -
    show "0 \<le> s div ?p" using assms(2) g(4) by (simp add: pos_imp_zdiv_nonneg_iff)
    have "s < 1024 * ?p" using assms(3) by linarith
    then show "s div ?p < 1024" by (rule div_below [OF g(4)])
  qed
  have h: "0 \<le> s mod ?p div ?m" "s mod ?p div ?m < ?h"
    using md g by (simp_all add: pos_imp_zdiv_nonneg_iff div_below)
  have hh: "?h \<le> ?p" using g by simp
  have bm: "s mod ?m < 32767" "s mod ?p div ?m < 32768" using md(4) m g(3) h(2) hh by linarith+
  have "int_of (s div ?p) = s div ?p" "int_of (s mod ?m + 1) = s mod ?m + 1" "int_of (s mod ?p div ?m) = s mod ?p div ?m"
    using c h(1) md(3) bm by (simp_all add: int_of_small)
  then have b: "int_of (s sdiv ?p) = s div ?p" "int_of (s smod ?m + 1) = s mod ?m + 1" "int_of ((s smod ?p) sdiv ?m) = s mod ?p div ?m"
    by (simp_all add: trunc_div [OF assms(2) g(4)] trunc_div [OF assms(2) g(2)] trunc_div [OF md(1) g(2)])
  have "s mod ?p mod ?m = s mod ?m" by (simp add: mod_mod_cancel)
  then have "(s div ?p * ?h + s mod ?p div ?m) * ?m + s mod ?m = s"
    by (metis ab_semigroup_mult_class.mult_ac(1) distrib_right div_mult_mod_eq group_cancel.add1)
  then show ?thesis
    using g pc b c h md by (simp add: place_sector_def Let_def sector_of_def)
qed

section \<open>What the controller routines leave alone\<close>

text \<open>\<open>steady w w'\<close>: the tables are the same and the log has only grown.\<close>

definition steady :: "win \<Rightarrow> win \<Rightarrow> bool" where
  "steady w w' \<longleftrightarrow> wini_tab w' = wini_tab w \<and> nr_drives w' = nr_drives w \<and> (\<exists>es. w_log w' = w_log w @ es)"

lemma steady_refl [simp]: "steady w w"
  by (simp add: steady_def)

lemma steady_trans: "steady a b \<Longrightarrow> steady b c \<Longrightarrow> steady a c"
  by (auto simp: steady_def)

lemma steady_upd [simp]:
  "steady w (w'\<lparr>w_need_reset := b\<rparr>) = steady w w'" "steady w (w'\<lparr>command := c\<rparr>) = steady w w'"
  "steady w (w'\<lparr>ins_read := i\<rparr>) = steady w w'" "steady w (w'\<lparr>secs_read := i\<rparr>) = steady w w'"
  "steady w (set_commands xs w') = steady w w'"
  by (simp_all add: steady_def set_commands_def)

lemma steady_out: "steady w w' \<Longrightarrow> steady w (w_out p v w')" "steady w w' \<Longrightarrow> steady w (w_await w')"
  by (auto simp: steady_def w_out_def w_await_def)

text \<open>Reading a port changes nothing but its counter.\<close>

definition only_read :: "win \<Rightarrow> win \<Rightarrow> bool" where
  "only_read w w' \<longleftrightarrow> (\<exists>i. w' = w\<lparr>ins_read := i\<rparr>)"

lemma only_read_refl [simp]: "only_read w w"
  unfolding only_read_def by (rule exI [of _ "ins_read w"]) simp

lemma only_read_in [simp]: "only_read w (snd (w_in e w))"
  by (auto simp: only_read_def w_in_def)

lemma only_read_trans: "only_read a b \<Longrightarrow> only_read b c \<Longrightarrow> only_read a c"
  by (auto simp: only_read_def)

lemma only_read_steady: "only_read w w' \<Longrightarrow> steady w w'"
  by (auto simp: only_read_def)

lemma busy_loop_reads: "only_read w (snd (busy_loop e n r w))"
proof (induction n arbitrary: r w)
  case (Suc n)
  then show ?case
    using only_read_trans [OF only_read_in [of w e], of "snd (busy_loop e n (fst (w_in e w)) (snd (w_in e w)))"]
    by (simp add: split_beta)
qed simp

lemma await_data_reads: "only_read w (snd (await_data e n r w))"
proof (induction n arbitrary: r w)
  case (Suc n)
  then show ?case
    using only_read_trans [OF only_read_in [of w e], of "snd (await_data e n (fst (w_in e w)) (snd (w_in e w)))"]
    by (simp add: split_beta)
qed simp

lemma drive_busy_cases:
  "drive_busy e w = (r, w') \<Longrightarrow> (if r = OK then only_read w w' else r = ERR \<and> (\<exists>w1. only_read w w1 \<and> w' = w1\<lparr>w_need_reset := True\<rparr>))"
  using busy_loop_reads [of w e MAX_WIN_RETRY 255] by (auto simp: drive_busy_def split_beta Let_def split: if_splits)

lemma drive_busy_steady: "steady w (snd (drive_busy e w))"
  using drive_busy_cases [of e w "fst (drive_busy e w)" "snd (drive_busy e w)"] only_read_steady by (auto split: if_splits)

lemma win_results_cases: "win_results e w = (r, w') \<Longrightarrow> (r = OK \<or> r = ERR) \<and> only_read w w'"
  using only_read_trans [OF only_read_in [of w e] only_read_in [of "snd (w_in e w)" e]] only_read_in [of w e]
  by (auto simp: win_results_def split_beta Let_def split: if_splits)

definition command_log :: "(nat \<Rightarrow> int) \<Rightarrow> w_event list" where
  "command_log c = map (\<lambda>(p, i). Port_out p (word_of_int (c i)))
     [(0x3F6, 0), (0x1F1, 1), (0x1F2, 2), (0x1F3, 3), (0x1F4, 4), (0x1F5, 5), (0x1F6, 6), (0x1F7, 7)]"

lemma com_out_cases:
  assumes "com_out e w = (r, w')"
  shows "steady w w' \<and> command w' = command w \<and> secs_read w' = secs_read w
    \<and> (if r = OK then w_log w' = w_log w @ command_log (command w) else r = ERR \<and> w_need_reset w')"
proof -
  obtain b w1 where b: "drive_busy e w = (b, w1)" by (cases "drive_busy e w")
  have w1: "steady w w1" "command w1 = command w" "secs_read w1 = secs_read w" "b = OK \<Longrightarrow> w_log w1 = w_log w"
    using drive_busy_cases [OF b] only_read_steady by (auto simp: only_read_def split: if_splits)
  have log: "fold (\<lambda>i. w_out (WIN_REG2 + word_of_nat (i - 1)) (command w1 i)) [1..<8] (w_out WIN_REG9 (command w1 0) w1)
      = w1\<lparr>w_log := w_log w1 @ command_log (command w1)\<rparr>"
  proof -
    have "[1..<8] = [1, 2, 3, 4, 5, 6, 7::nat]" by (simp add: upt_conv_Cons)
    then show ?thesis by (simp add: w_out_def command_log_def)
  qed
  have "steady w (w1\<lparr>w_log := w_log w1 @ command_log (command w1)\<rparr>)" using w1(1) by (auto simp: steady_def)
  then show ?thesis
    using assms w1 unfolding com_out_def b Let_def prod.case log by (auto split: if_splits)
qed

lemma com_out_steady: "com_out e w = (r, w') \<Longrightarrow> steady w w'"
  using com_out_cases by blast

lemma run_command_steady: "run_command e w = (r, w') \<Longrightarrow> steady w w'"
proof -
  assume a: "run_command e w = (r, w')"
  obtain q w1 where c: "com_out e w = (q, w1)" by (cases "com_out e w")
  obtain q2 w2 where s: "win_results e (w_await w1) = (q2, w2)" by (cases "win_results e (w_await w1)")
  have "steady w w1" by (rule com_out_steady [OF c])
  moreover have "steady w w2"
    using steady_trans [OF steady_out(2) [OF \<open>steady w w1\<close>] only_read_steady] win_results_cases [OF s] by blast
  ultimately show ?thesis using a by (auto simp: run_command_def c s split: if_splits)
qed

lemma recalibrate_all_steady: "recalibrate_all e i n w = Some (r, w') \<Longrightarrow> steady w w'"
proof (induction n arbitrary: i w)
  case (Suc n)
  let ?c = "set_commands [(0, wn_ctlbyte (wini_tab w (5 * i))), (6, push_bit 4 (int i) OR 0xA0), (7, 0x10)] w"
  obtain q w1 where c: "run_command e ?c = (q, w1)" by (cases "run_command e ?c")
  have "steady w w1" using steady_trans [OF _ run_command_steady [OF c]] by simp
  then show ?case using Suc c by (auto split: if_splits intro: steady_trans)
qed simp

lemma win_init_steady: "win_init e w = Some (r, w') \<Longrightarrow> steady w w'"
proof -
  assume a: "win_init e w = Some (r, w')"
  let ?c = "set_commands (specify (wini_tab w 0) 0xA0) w"
  obtain q w1 where c: "run_command e ?c = (q, w1)" by (cases "run_command e ?c")
  have s1: "steady w w1" using steady_trans [OF _ run_command_steady [OF c]] by simp
  let ?d = "set_commands (specify (wini_tab w1 5) 0xB0) w1"
  obtain q2 w2 where d: "(if nr_drives w1 > 1 then run_command e ?d else (OK, w1)) = (q2, w2)"
    by (cases "if nr_drives w1 > 1 then run_command e ?d else (OK, w1)")
  have s2: "steady w w2"
    using s1 d steady_trans [OF s1, of w2] run_command_steady [of e ?d q2 w2] steady_trans [of w1 ?d w2] by (auto split: if_splits)
  show ?thesis
    using a s1 s2 steady_trans [OF s2 recalibrate_all_steady]
    unfolding win_init_def c Let_def prod.case d by (auto split: if_splits)
qed

lemma wait_ready_steady: "steady w (wait_ready e n w)"
proof (induction n arbitrary: w)
  case (Suc n)
  then show ?case using drive_busy_steady [of w e] by (auto simp: split_beta intro: steady_trans)
qed simp

lemma w_reset_steady: "w_reset e w = Some (r, w') \<Longrightarrow> steady w w'"
proof -
  assume a: "w_reset e w = Some (r, w')"
  define w1 where "w1 = wait_ready e MAX_WIN_RETRY (w_out WIN_REG9 (wn_ctlbyte (wini_tab w 0) AND 0x0F) (w_out WIN_REG9 4 w))"
  have s1: "steady w w1" unfolding w1_def by (rule steady_trans [OF _ wait_ready_steady]) (simp add: steady_out)
  obtain b w2 where b: "drive_busy e w1 = (b, w2)" by (cases "drive_busy e w1")
  have s2: "steady w w2" using steady_trans [OF s1 drive_busy_steady [of w1 e]] by (simp add: b)
  obtain q w3 where q: "w_in e w2 = (q, w3)" by (cases "w_in e w2")
  have s3: "steady w w3" using steady_trans [OF s2 only_read_steady [OF only_read_in [of w2 e]]] by (simp add: q)
  have "steady w w4" if "win_init e (w3\<lparr>w_need_reset := False\<rparr>) = Some (r, w4)" for r w4
    using steady_trans [OF _ win_init_steady [OF that]] s3 by simp
  then show ?thesis
    using a s2 s3 unfolding w_reset_def Let_def w1_def [symmetric] b prod.case q by (auto split: if_splits)
qed

section \<open>Transfers\<close>

lemma put_bytes_memory:
  assumes "a + length xs \<le> 2 ^ 20"
  shows "memory (put_bytes a xs k) b = (if a \<le> b \<and> b < a + length xs then xs ! (b - a) else memory k b)"
proof -
  have "fold (\<lambda>i m. m(in_mem (a + i) := xs ! i)) [0..<n] (memory k) b = (if a \<le> b \<and> b < a + n then xs ! (b - a) else memory k b)"
    if "n \<le> length xs" for n
    using that assms by (induction n) auto
  from this [of "length xs"] show ?thesis by (simp add: put_bytes_def)
qed

lemma put_bytes_procs [simp]: "procs (put_bytes a xs k) = procs k"
  by (simp add: put_bytes_def)

definition in_block :: "nat \<Rightarrow> nat \<Rightarrow> bool" where
  "in_block u a \<longleftrightarrow> u \<le> a \<and> a < u + 1024"

text \<open>What the two sectors read after the first \<open>n\<close> make of memory.\<close>

definition two_sectors :: "win_env \<Rightarrow> nat \<Rightarrow> nat \<Rightarrow> (nat \<Rightarrow> u8) \<Rightarrow> (nat \<Rightarrow> u8)" where
  "two_sectors e n u mem = (\<lambda>a. if in_block u a then sector_val e (n + (a - u) div 512) ((a - u) mod 512) else mem a)"

definition sector_bytes :: "kernel \<Rightarrow> nat \<Rightarrow> u8 list" where
  "sector_bytes k u = map (\<lambda>i. memory k (u + i)) [0..<512]"

lemma read_two:
  assumes "read_sectors e 2 u (w, k) = (r, w', k')" "unat u + 1024 \<le> 2 ^ 20"
  shows "steady w w' \<and> procs k' = procs k \<and> (r = OK \<or> r = ERR)
    \<and> (\<forall>a. \<not> in_block (unat u) a \<longrightarrow> memory k' a = memory k a)
    \<and> (r = OK \<longrightarrow> w_log w' = w_log w @ [Await, Await] \<and> secs_read w' = secs_read w + 2
        \<and> memory k' = two_sectors e (secs_read w) (unat u) (memory k))"
proof -
  obtain r1 w1 where r1: "win_results e (w_await w) = (r1, w1)" by (cases "win_results e (w_await w)")
  have o1: "r1 = OK \<or> r1 = ERR" "only_read (w_await w) w1" using win_results_cases [OF r1] by auto
  define w2 k2 where "w2 = w1\<lparr>secs_read := secs_read w1 + 1\<rparr>"
    and "k2 = put_bytes (unat u) (map (sector_val e (secs_read w1)) [0..<512]) k"
  have pr: "port_read e u (w1, k) = (w2, k2)" by (simp add: port_read_def w2_def k2_def)
  obtain r2 w3 where r2: "win_results e (w_await w2) = (r2, w3)" by (cases "win_results e (w_await w2)")
  have o2: "r2 = OK \<or> r2 = ERR" "only_read (w_await w2) w3" using win_results_cases [OF r2] by auto
  define k4 where "k4 = put_bytes (unat (u + 512)) (map (sector_val e (secs_read w3)) [0..<512]) k2"
  have pr2: "port_read e (u + 512) (w3, k2) = (w3\<lparr>secs_read := secs_read w3 + 1\<rparr>, k4)" by (simp add: port_read_def k4_def)
  have res: "(r, w', k') = (if r1 \<noteq> OK then (ERR, w1\<lparr>w_need_reset := True\<rparr>, k)
      else if r2 \<noteq> OK then (ERR, w3\<lparr>w_need_reset := True\<rparr>, k2) else (OK, w3\<lparr>secs_read := secs_read w3 + 1\<rparr>, k4))"
    unfolding assms(1) [symmetric] numeral_2_eq_2 read_sectors.simps r1 Let_def prod.case pr r2 pr2 by simp
  have l: "w_log w1 = w_log w @ [Await]" "secs_read w1 = secs_read w" "steady w w1"
    "w_log w3 = w_log w @ [Await, Await]" "secs_read w3 = secs_read w + 1" "steady w w3"
    using o1(2) o2(2) by (auto simp: only_read_def w_await_def w2_def steady_def)
  have u2: "unat (u + 512) = unat u + 512" using assms(2) by (simp add: unat_word_ariths)
  have m2: "memory k2 a = (if unat u \<le> a \<and> a < unat u + 512 then sector_val e (secs_read w) (a - unat u) else memory k a)" for a
    using put_bytes_memory [of "unat u" "map (sector_val e (secs_read w1)) [0..<512]" k a] assms(2) by (auto simp: k2_def l)
  have m4: "memory k4 a = (if unat u + 512 \<le> a \<and> a < unat u + 1024 then sector_val e (secs_read w + 1) (a - (unat u + 512)) else memory k2 a)" for a
    using put_bytes_memory [of "unat u + 512" "map (sector_val e (secs_read w3)) [0..<512]" k2 a] assms(2) by (auto simp: k4_def l u2)
  have two: "memory k4 = two_sectors e (secs_read w) (unat u) (memory k)"
  proof
    fix a
    have "(a - unat u) div 512 = 1 \<and> (a - unat u) mod 512 = a - (unat u + 512)" if "unat u + 512 \<le> a" "a < unat u + 1024"
    proof -
      define j where "j = a - (unat u + 512)"
      have j: "a - unat u = 512 + j" "j < 512" using that by (auto simp: j_def)
      then show ?thesis by (simp add: j_def [symmetric])
    qed
    then show "memory k4 a = two_sectors e (secs_read w) (unat u) (memory k) a"
      by (auto simp: m4 m2 two_sectors_def in_block_def)
  qed
  have "\<forall>a. \<not> in_block (unat u) a \<longrightarrow> memory k2 a = memory k a" by (auto simp: m2 in_block_def)
  moreover have "\<forall>a. \<not> in_block (unat u) a \<longrightarrow> memory k4 a = memory k a" by (simp add: two two_sectors_def)
  moreover have "procs k2 = procs k" "procs k4 = procs k" by (simp_all add: k2_def k4_def)
  ultimately show ?thesis using res l o1(1) o2(1) two by (auto split: if_splits)
qed

lemma port_write_bytes:
  "unat u + 512 \<le> 2 ^ 20 \<Longrightarrow> port_write u (w, k) = (w\<lparr>w_log := w_log w @ [Sector_out (sector_bytes k (unat u))]\<rparr>, k)"
  by (auto simp: port_write_def sector_bytes_def)

lemma write_two:
  assumes "write_sectors e 2 u (w, k) = (r, w', k')" "unat u + 1024 \<le> 2 ^ 20"
  shows "steady w w' \<and> k' = k \<and> (r = OK \<or> r = ERR)
    \<and> (r = OK \<longrightarrow> w_log w' = w_log w @ [Sector_out (sector_bytes k (unat u)), Await, Sector_out (sector_bytes k (unat u + 512)), Await])"
proof -
  let ?s1 = "Sector_out (sector_bytes k (unat u))" and ?s2 = "Sector_out (sector_bytes k (unat u + 512))"
  have u2: "unat (u + 512) = unat u + 512" using assms(2) by (simp add: unat_word_ariths)
  define w0 where "w0 = w\<lparr>w_log := w_log w @ [?s1]\<rparr>"
  have p1: "port_write u (w, k) = (w0, k)" using port_write_bytes [of u] assms(2) by (simp add: w0_def)
  obtain r1 w1 where r1: "win_results e (w_await w0) = (r1, w1)" by (cases "win_results e (w_await w0)")
  have o1: "r1 = OK \<or> r1 = ERR" "only_read (w_await w0) w1" using win_results_cases [OF r1] by auto
  define w2 where "w2 = w1\<lparr>w_log := w_log w1 @ [?s2]\<rparr>"
  have p2: "port_write (u + 512) (w1, k) = (w2, k)" using port_write_bytes [of "u + 512"] assms(2) by (simp add: w2_def u2)
  obtain r2 w3 where r2: "win_results e (w_await w2) = (r2, w3)" by (cases "win_results e (w_await w2)")
  have o2: "r2 = OK \<or> r2 = ERR" "only_read (w_await w2) w3" using win_results_cases [OF r2] by auto
  have res: "(r, w', k') = (if r1 \<noteq> OK then (ERR, w1\<lparr>w_need_reset := True\<rparr>, k)
      else if r2 \<noteq> OK then (ERR, w3\<lparr>w_need_reset := True\<rparr>, k) else (OK, w3, k))"
    unfolding assms(1) [symmetric] numeral_2_eq_2 write_sectors.simps p1 Let_def prod.case r1 p2 r2 by simp
  have l: "steady w w1" "w_log w1 = w_log w @ [?s1, Await]" "w_log w3 = w_log w @ [?s1, Await, ?s2, Await]" "steady w w3"
    using o1(2) o2(2) by (auto simp: only_read_def w_await_def w0_def w2_def steady_def)
  show ?thesis using res l o1(1) o2(1) by (auto split: if_splits)
qed

definition command_events :: "wini \<Rightarrow> w_event list" where
  "command_events wn = command_log (\<lambda>i. the (map_of (transfer_command wn) i))"

lemma command_events_set: "command_log (command (set_commands (transfer_command wn) w)) = command_events wn"
  by (simp add: command_events_def command_log_def set_commands_def transfer_command_def)

text \<open>What a transfer that succeeds leaves behind.\<close>

definition transferred :: "win_env \<Rightarrow> wini \<Rightarrow> nat \<Rightarrow> win \<Rightarrow> kernel \<Rightarrow> win \<Rightarrow> kernel \<Rightarrow> bool" where
  "transferred e wn u w k w' k' \<longleftrightarrow>
     (if wn_opcode wn = DISK_READ
      then w_log w' = w_log w @ command_events wn @ [Await, Await] \<and> memory k' = two_sectors e (secs_read w' - 2) u (memory k)
      else w_log w' = w_log w @ command_events wn @ [Sector_out (sector_bytes k u), Await, Sector_out (sector_bytes k (u + 512)), Await]
        \<and> memory k' = memory k)"

lemma w_transfer_cases:
  assumes "w_transfer e dev (w, k) = (r, w', k')" and wn: "wn = wini_tab w dev"
    and u: "u = unat (umap (procs k (wn_procnr wn)) SEG_D (wn_address wn) 1024)" "u + 1024 \<le> 2 ^ 20"
  shows "steady w w' \<and> procs k' = procs k \<and> (\<forall>a. \<not> (wn_opcode wn = DISK_READ \<and> in_block u a) \<longrightarrow> memory k' a = memory k a)
    \<and> (r = OK \<longrightarrow> transferred e wn u w k w' k')"
proof -
  let ?um = "umap (procs k (wn_procnr wn)) SEG_D (wn_address wn) 1024"
  obtain r1 w1 where c: "com_out e (set_commands (transfer_command wn) w) = (r1, w1)"
    by (cases "com_out e (set_commands (transfer_command wn) w)")
  have w1: "steady w w1" "r1 = OK \<Longrightarrow> w_log w1 = w_log w @ command_events wn"
    using com_out_cases [OF c] steady_trans [of w "set_commands (transfer_command wn) w" w1]
    unfolding command_events_set by (auto simp: set_commands_def split: if_splits)
  obtain q w2 where q: "await_data e MAX_WIN_RETRY 0 w1 = (q, w2)" by (cases "await_data e MAX_WIN_RETRY 0 w1")
  have o: "only_read w1 w2" using await_data_reads [of w1 e MAX_WIN_RETRY 0] by (simp add: q)
  then have w2: "steady w w2" "w_log w2 = w_log w1" using steady_trans [OF w1(1) only_read_steady [OF o]] by (auto simp: only_read_def)
  obtain rr wr kr where rs: "read_sectors e 2 ?um (w1, k) = (rr, wr, kr)" by (cases "read_sectors e 2 ?um (w1, k)")
  obtain rw ww kw where ws: "write_sectors e 2 ?um (w2, k) = (rw, ww, kw)" by (cases "write_sectors e 2 ?um (w2, k)")
  have bound: "unat ?um + 1024 \<le> 2 ^ 20" using u by simp
  note R = read_two [OF rs bound] and S = write_two [OF ws bound]
  have res: "(r, w', k') = (if ?um = 0 then (ERR, w, k) else if r1 \<noteq> OK then (ERR, w1, k)
      else if wn_opcode wn = DISK_READ then (rr, wr, kr)
      else if q AND 8 = 0 then (ERR, w2\<lparr>w_need_reset := True\<rparr>, k) else (rw, ww, kw))"
    unfolding assms(1) [symmetric] w_transfer_def prod.case Let_def wn [symmetric] c rs q ws by simp
  show ?thesis
    using res R S w1 w2 steady_trans [of w w1 wr] steady_trans [of w w2 ww]
    unfolding transferred_def u(1) by (auto split: if_splits)
qed

lemma win_tries_ok:
  assumes "win_tries e dev n (w, k) = Some (r, w', k')" and "wn = wini_tab w dev"
    and "u = unat (umap (procs k (wn_procnr wn)) SEG_D (wn_address wn) 1024)" "u + 1024 \<le> 2 ^ 20"
  shows "steady w w' \<and> (\<forall>a. \<not> (wn_opcode wn = DISK_READ \<and> in_block u a) \<longrightarrow> memory k' a = memory k a)
    \<and> (r = W_BLOCK \<longrightarrow> (\<exists>w1 k1. steady w w1 \<and> transferred e wn u w1 k1 w' k'
        \<and> (\<forall>a. \<not> (wn_opcode wn = DISK_READ \<and> in_block u a) \<longrightarrow> memory k1 a = memory k a)))"
  using assms
proof (induction n arbitrary: w k)
  case (Suc n)
  obtain w1 where w1: "(if w_need_reset w then map_option snd (w_reset e w) else Some w) = Some w1"
    using Suc.prems(1) by (auto simp: bind_eq_Some_conv simp del: map_option_eq_Some split: if_splits)
  have s1: "steady w w1" using w1 w_reset_steady by (auto split: if_splits)
  obtain q w2 k2 where t: "w_transfer e dev (w1, k) = (q, w2, k2)" by (cases "w_transfer e dev (w1, k)")
  have wn1: "wn = wini_tab w1 dev" using Suc.prems(2) s1 by (simp add: steady_def)
  note T = w_transfer_cases [OF t wn1 Suc.prems(3,4)]
  have s2: "steady w w2" using steady_trans [OF s1] T by blast
  show ?case
  proof (cases "q = OK")
    case True
    then have "w' = w2" "k' = k2" using Suc.prems(1) w1 t by auto
    then show ?thesis using s1 s2 T True by auto
  next
    case False
    then have n: "win_tries e dev n (w2, k2) = Some (r, w', k')" using Suc.prems(1) w1 t by simp
    have wn2: "wn = wini_tab w2 dev" using Suc.prems(2) s2 by (simp add: steady_def)
    have u2: "u = unat (umap (procs k2 (wn_procnr wn)) SEG_D (wn_address wn) 1024)" using T Suc.prems(3) by simp
    from Suc.IH [OF n wn2 u2 Suc.prems(4)] T s2 show ?thesis by (auto intro: steady_trans)
  qed
qed auto


text \<open>Block 17 of a disk with 4 heads and 17 sectors per track, which is always ready.\<close>

definition demo_win_env :: win_env where
  "demo_win_env = \<lparr>port_val = (\<lambda>i. 0x50), sector_val = (\<lambda>n i. word_of_nat (n + i)), vec_table = (\<lambda>i. 0), win_buf = 0\<rparr>"

definition demo_win :: win where
  "demo_win = \<lparr>wini_tab = (\<lambda>n. \<lparr>wn_opcode = 0, wn_procnr = 0, wn_drive = 0, wn_cylinder = 0, wn_sector = 0, wn_head = 0,
      wn_heads = 4, wn_maxsec = 17, wn_ctlbyte = 0, wn_precomp = 0, wn_low = 0, wn_size = 1000, wn_count = 0, wn_address = 0\<rparr>),
    w_need_reset = False, nr_drives = 1, command = (\<lambda>i. 0), ins_read = 0, secs_read = 0, w_log = []\<rparr>"

lemma demo_drive_ready: "drive_busy demo_win_env w = (OK, w\<lparr>ins_read := ins_read w + 1\<rparr>)"
proof -
  have "busy_loop demo_win_env (Suc (Suc n)) 255 w = (0x50, w\<lparr>ins_read := ins_read w + 1\<rparr>)" for n
    by (simp add: w_in_def demo_win_env_def)
  from this [of 9998] show ?thesis by (simp add: drive_busy_def)
qed

lemma demo_win_results: "win_results demo_win_env w = (OK, w\<lparr>ins_read := ins_read w + 1\<rparr>)"
  by (simp add: win_results_def w_in_def demo_win_env_def)


section \<open>The partition table\<close>

text \<open>\<^verbatim>\<open>sort\<close> orders by the first sector, entries that start at 0 come last.\<close>

definition wini_key :: "wini \<Rightarrow> bool \<times> int" where
  "wini_key a = (wn_low a = 0, wn_low a)"

lemma out_of_order_key: "out_of_order a b \<longleftrightarrow> wini_key b < wini_key a"
  by (auto simp: out_of_order_def wini_key_def less_prod_def)

definition sort_pass :: "wini list \<Rightarrow> wini list" where
  "sort_pass = fold sort_step [0..<3]"

lemma sort_pass_four:
  "sort_pass [a, b, c, d] =
     (let (a1, b1) = (if wini_key b < wini_key a then (b, a) else (a, b));
          (b2, c2) = (if wini_key c < wini_key b1 then (c, b1) else (b1, c));
          (c3, d3) = (if wini_key d < wini_key c2 then (d, c2) else (c2, d))
      in [a1, b2, c3, d3])"
  by (simp add: sort_pass_def sort_step_def out_of_order_key upt_rec)

lemma sort_pass_largest_last:
  assumes "sort_pass [a, b, c, d] = [a', b', c', d']"
  shows "{#a', b', c', d'#} = {#a, b, c, d#}" "wini_key a' \<le> wini_key d'" "wini_key b' \<le> wini_key d'" "wini_key c' \<le> wini_key d'"
    and "wini_key a \<le> wini_key d \<Longrightarrow> wini_key b \<le> wini_key d \<Longrightarrow> wini_key c \<le> wini_key d
      \<Longrightarrow> d' = d \<and> wini_key a' \<le> wini_key c' \<and> wini_key b' \<le> wini_key c'"
    and "wini_key a \<le> wini_key d \<Longrightarrow> wini_key b \<le> wini_key d \<Longrightarrow> wini_key c \<le> wini_key d
      \<Longrightarrow> wini_key a \<le> wini_key c \<Longrightarrow> wini_key b \<le> wini_key c \<Longrightarrow> c' = c \<and> wini_key a' \<le> wini_key b'"
  using assms unfolding sort_pass_four Let_def by (auto split: if_splits)

definition in_order :: "wini list \<Rightarrow> bool" where
  "in_order = sorted_wrt (\<lambda>a b. \<not> out_of_order a b)"

lemma sort_pass_length: "length (sort_pass xs) = length xs"
  by (simp add: sort_pass_def sort_step_def upt_rec)

lemma sort_wini_orders:
  assumes "length wn = 4"
  shows "mset (sort_wini wn) = mset wn" "in_order (sort_wini wn)"
proof -
  have four: "\<exists>a b c d. sort_pass xs = [a, b, c, d]" if "length xs = 4" for xs
    using that sort_pass_length [of xs] by (auto simp: eval_nat_numeral length_Suc_conv)
  obtain a b c d where w: "wn = [a, b, c, d]" using assms by (auto simp: eval_nat_numeral length_Suc_conv)
  obtain a1 b1 c1 d1 where 1: "sort_pass wn = [a1, b1, c1, d1]" using four assms by blast
  obtain a2 b2 c2 d2 where 2: "sort_pass [a1, b1, c1, d1] = [a2, b2, c2, d2]" using four [of "[a1, b1, c1, d1]"] by auto
  obtain a3 b3 c3 d3 where 3: "sort_pass [a2, b2, c2, d2] = [a3, b3, c3, d3]" using four [of "[a2, b2, c2, d2]"] by auto
  obtain a4 b4 c4 d4 where 4: "sort_pass [a3, b3, c3, d3] = [a4, b4, c4, d4]" using four [of "[a3, b3, c3, d3]"] by auto
  have "[0..<4::nat] = [0, 1, 2, 3]" by (simp add: upt_rec)
  then have s: "sort_wini wn = [a4, b4, c4, d4]"
    unfolding sort_wini_def sort_pass_def [symmetric] using 1 2 3 4 by simp
  note L1 = sort_pass_largest_last [OF 1 [unfolded w]] and L2 = sort_pass_largest_last [OF 2]
    and L3 = sort_pass_largest_last [OF 3] and L4 = sort_pass_largest_last [OF 4]
  show "mset (sort_wini wn) = mset wn"
    unfolding s unfolding w using L1(1) L2(1) L3(1) L4(1) by simp
  have d2: "d2 = d1" "wini_key a2 \<le> wini_key c2" "wini_key b2 \<le> wini_key c2" using L2(5) L1 by auto
  have c3: "d3 = d2" "c3 = c2" "wini_key a3 \<le> wini_key b3" using L3(5,6) L2(2-4) d2 by auto
  have k3: "wini_key a3 \<le> wini_key b3" "wini_key b3 \<le> wini_key c3" "wini_key c3 \<le> wini_key d3" "wini_key a3 \<le> wini_key c3"
    using L3 c3 L2(2-4) d2 by auto
  then have "[a4, b4, c4, d4] = [a3, b3, c3, d3]"
    using 4 unfolding sort_pass_four Let_def by (auto simp: not_less [symmetric] split: if_splits)
  then show "in_order (sort_wini wn)"
    unfolding s in_order_def out_of_order_key using k3 by auto
qed

lemma long_of_even: "even (long_of x) = even x"
proof -
  have "long_of x = signed_take_bit 31 x" by (simp add: long_of_def sint_sbintrunc')
  then show ?thesis by (simp add: even_signed_take_bit_iff)
qed

lemma partition_starts_on_a_block: "even (wn_low (partition k a wn))"
proof -
  have "even x" if "x smod 2 = 0" for x :: int
    using that mult_sdiv_smod_eq [of 2 x] by (metis add.right_neutral dvd_triv_left)
  then show ?thesis by (auto simp: partition_def Let_def long_of_even)
qed

text \<open>C37: The partitions of a drive are sorted by their first sector, the empty ones last, and none is lost or
  doubled; each starts at the beginning of a block; no other entry of the table changes.\<close>

theorem partitions_are_sorted:
  "\<exists>ps qs. ps = map (\<lambda>i. partition k (win_buf e + 0x1C6 + 0x10 * word_of_nat i) (wini_tab w (i + drive + 1))) [0..<4]
    \<and> qs = map (wini_tab (copy_prt e drive (w, k))) [drive + 1..<drive + 5]
    \<and> mset qs = mset ps \<and> in_order qs \<and> (\<forall>wn. wn \<in> set qs \<longrightarrow> even (wn_low wn))
    \<and> copy_prt e drive (w, k) = w\<lparr>wini_tab := wini_tab (copy_prt e drive (w, k))\<rparr>
    \<and> (\<forall>n. n \<notin> {drive + 1..<drive + 5} \<longrightarrow> wini_tab (copy_prt e drive (w, k)) n = wini_tab w n)"
proof -
  define ps where "ps = map (\<lambda>i. partition k (win_buf e + 0x1C6 + 0x10 * word_of_nat i) (wini_tab w (i + drive + 1))) [0..<4]"
  have l: "length ps = 4" by (simp add: ps_def)
  note S = sort_wini_orders [OF l]
  have "length (sort_wini ps) = 4" using S(1) l mset_eq_length by metis
  then obtain a b c d where q: "sort_wini ps = [a, b, c, d]" by (auto simp: eval_nat_numeral length_Suc_conv)
  have tab: "wini_tab (copy_prt e drive (w, k)) = (\<lambda>n. if drive + 1 \<le> n \<and> n < drive + 5 then sort_wini ps ! (n - (drive + 1)) else wini_tab w n)"
    unfolding copy_prt_def Let_def prod.case ps_def [symmetric] by simp
  have qs: "map (wini_tab (copy_prt e drive (w, k))) [drive + 1..<drive + 5] = sort_wini ps"
    unfolding tab q by (simp add: upt_rec)
  have "even (wn_low x)" if "x \<in> set (sort_wini ps)" for x
  proof -
    have "x \<in> set ps" using that S(1) by (metis mset_eq_setD)
    then show ?thesis using partition_starts_on_a_block by (auto simp: ps_def)
  qed
  then show ?thesis
    unfolding qs using S by (intro exI [of _ ps] exI [of _ "sort_wini ps"]) (auto simp: ps_def tab copy_prt_def Let_def)
qed

theorem partitions_are_sorted_witness:
  "even (wn_low (wini_tab (copy_prt demo_win_env 0 (demo_win, demo_kernel 0)) 1))
   \<and> in_order (map (wini_tab (copy_prt demo_win_env 0 (demo_win, demo_kernel 0))) [1..<5])
   \<and> wini_tab (copy_prt demo_win_env 0 (demo_win, demo_kernel 0)) 5 = wini_tab demo_win 5"
proof -
  obtain qs where q: "qs = map (wini_tab (copy_prt demo_win_env 0 (demo_win, demo_kernel 0))) [0 + 1..<0 + 5]" "in_order qs"
    "\<And>wn. wn \<in> set qs \<Longrightarrow> even (wn_low wn)"
    and o: "\<And>n. n \<notin> {0 + 1..<0 + 5} \<Longrightarrow> wini_tab (copy_prt demo_win_env 0 (demo_win, demo_kernel 0)) n = wini_tab demo_win n"
    using partitions_are_sorted [where e = demo_win_env and drive = 0 and w = demo_win and k = "demo_kernel 0"] by blast
  have "wini_tab (copy_prt demo_win_env 0 (demo_win, demo_kernel 0)) 1 \<in> set qs" by (simp add: q(1) upt_rec)
  then show ?thesis using q o [of 5] by auto
qed

end
