(* ===== verification/KFloppy.thy ===== *)
theory KFloppy
  imports KMemory
begin

text \<open>
  The diskette driver, \<^verbatim>\<open>kernel/floppy.c\<close>.

  The controller is a parameter: \<open>fdc_in\<close> is the value of the n-th \<^verbatim>\<open>port_in\<close>.  What the driver does is the
  log \<open>fd_log\<close>: port output, waiting, and requests to the clock task.  A wait is a \<^verbatim>\<open>receive\<close> from \<^verbatim>\<open>HARDWARE\<close> or
  \<^verbatim>\<open>CLOCK\<close>, or the \<^verbatim>\<open>sendrec\<close> of \<^verbatim>\<open>clock_mess\<close>; it records \<^verbatim>\<open>motor_goal\<close> and \<^verbatim>\<open>motor_status\<close>.  Whether it ever ends
  is the parameter \<open>wait_ends\<close>: when the interrupt does not come, the driver hangs, and the result is \<open>None\<close>.
  Whether the clock task calls \<^verbatim>\<open>stop_motor\<close> during the wait is the parameter \<open>timer_ends\<close>.  Both are
  indexed by the position of the wait in the log.  The data moves by DMA, between the diskette and the
  address that \<^verbatim>\<open>dma_setup\<close> gives to the chip.  A panic and an index before the beginning of a table are \<open>None\<close> too.
\<close>

section \<open>State\<close>

record floppy_env =
  fdc_in :: "nat \<Rightarrow> u8"
  pc_at :: bool
  wait_ends :: "nat \<Rightarrow> bool"
  timer_ends :: "nat \<Rightarrow> bool"

datatype watchdog = Send_mess | Stop_motor

datatype f_event = F_out u16 int | F_wait int int | F_alarm int watchdog

record floppy =
  fl_opcode :: int
  fl_curcyl :: int
  fl_procnr :: int
  fl_drive :: int
  fl_cylinder :: int
  fl_sector :: int
  fl_head :: int
  fl_count :: int
  fl_address :: u16
  fl_results :: "nat \<Rightarrow> int"
  fl_calibrated :: bool
  fl_density :: nat

record fd =
  fl :: "nat \<Rightarrow> floppy"
  fd_status :: int
  fd_goal :: int
  fd_prev :: int
  fd_need_reset :: bool
  fd_initialized :: bool
  fd_d :: nat
  fd_ins :: nat
  fd_log :: "f_event list"

abbreviation (input) "DOR \<equiv> (0x3F2::u16)"
abbreviation (input) "FDC_DATA \<equiv> (0x3F5::u16)"
abbreviation (input) "FDC_RATE \<equiv> (0x3F7::u16)"
abbreviation (input) "ENABLE_INT \<equiv> (0x0C::int)"
abbreviation (input) "MOTOR_MASK \<equiv> (0xF0::int)"
abbreviation (input) "ST0_BITS \<equiv> (0xF8::int)"
abbreviation (input) "SEEK_ST0 \<equiv> (0x20::int)"
abbreviation (input) "MAX_FDC_RETRY \<equiv> (100::nat)"
abbreviation (input) "ERR_SEEK \<equiv> (-1::int)"
abbreviation (input) "ERR_TRANSFER \<equiv> (-2::int)"
abbreviation (input) "ERR_STATUS \<equiv> (-3::int)"
abbreviation (input) "ERR_RECALIBRATE \<equiv> (-4::int)"
abbreviation (input) "ERR_WR_PROTECT \<equiv> (-5::int)"
abbreviation (input) "FD_BLOCK \<equiv> (1024::int)"

text \<open>The four combinations of diskette and drive.\<close>

definition fl_gap :: "int list" where "fl_gap = [0x2A, 0x2A, 0x23, 0x1B]"
definition fl_rate :: "int list" where "fl_rate = [2, 2, 1, 0]"
definition nr_sectors :: "int list" where "nr_sectors = [9, 9, 9, 15]"
definition nr_blocks :: "int list" where "nr_blocks = [720, 720, 720, 2400]"
definition steps_per_cyl :: "int list" where "steps_per_cyl = [1, 2, 2, 1]"
definition mtr_setup :: "int list" where "mtr_setup = [15, 15, 45, 45]"

definition f_out :: "u16 \<Rightarrow> int \<Rightarrow> fd \<Rightarrow> fd" where
  "f_out p v w = w\<lparr>fd_log := fd_log w @ [F_out p v]\<rparr>"

definition f_in :: "floppy_env \<Rightarrow> fd \<Rightarrow> int \<times> fd" where
  "f_in e w = (uint (fdc_in e (fd_ins w)), w\<lparr>fd_ins := fd_ins w + 1\<rparr>)"

definition stop_motor :: "fd \<Rightarrow> fd" where
  "stop_motor w =
     (if fd_goal w AND MOTOR_MASK \<noteq> fd_status w AND MOTOR_MASK
      then (f_out DOR (fd_goal w) w)\<lparr>fd_status := fd_goal w\<rparr> else w)"

definition f_wait :: "floppy_env \<Rightarrow> fd \<Rightarrow> fd option" where
  "f_wait e w =
     (let n = length (fd_log w); w1 = w\<lparr>fd_log := fd_log w @ [F_wait (fd_goal w) (fd_status w)]\<rparr>
      in if \<not> wait_ends e n then None else Some (if timer_ends e n then stop_motor w1 else w1))"

definition clock_mess :: "floppy_env \<Rightarrow> int \<Rightarrow> watchdog \<Rightarrow> fd \<Rightarrow> fd option" where
  "clock_mess e ticks func w = f_wait e (w\<lparr>fd_log := fd_log w @ [F_alarm ticks func]\<rparr>)"

definition set_fl :: "nat \<Rightarrow> (floppy \<Rightarrow> floppy) \<Rightarrow> fd \<Rightarrow> fd" where
  "set_fl i f w = w\<lparr>fl := (fl w)(i := f (fl w i))\<rparr>"

section \<open>The controller\<close>

fun out_tries :: "floppy_env \<Rightarrow> nat \<Rightarrow> int \<Rightarrow> fd \<Rightarrow> fd" where
  "out_tries e 0 v w = w\<lparr>fd_need_reset := True\<rparr>"
| "out_tries e (Suc n) v w =
     (let (r, w1) = f_in e w in if r AND 0xC0 \<noteq> 0x80 then out_tries e n v w1 else f_out FDC_DATA v w1)"

definition fdc_out :: "floppy_env \<Rightarrow> int \<Rightarrow> fd \<Rightarrow> fd" where
  "fdc_out e v w = (if fd_need_reset w then w else out_tries e MAX_FDC_RETRY v w)"

text \<open>The inner loop of \<^verbatim>\<open>fdc_results\<close> waits until the controller is the master, the outer one takes the bytes.\<close>

fun master_tries :: "floppy_env \<Rightarrow> nat \<Rightarrow> fd \<Rightarrow> int option \<times> fd" where
  "master_tries e 0 w = (None, w)"
| "master_tries e (Suc n) w =
     (let (st, w1) = f_in e w in if st AND 0x80 \<noteq> 0 then (Some st, w1) else master_tries e n w1)"

fun take_results :: "floppy_env \<Rightarrow> nat \<Rightarrow> nat \<Rightarrow> nat \<Rightarrow> fd \<Rightarrow> int \<times> fd" where
  "take_results e dev i 0 w = (ERR_STATUS, w\<lparr>fd_need_reset := True\<rparr>)"
| "take_results e dev i (Suc n) w =
     (case master_tries e MAX_FDC_RETRY w of
        (None, w1) \<Rightarrow> (ERR_STATUS, w1)
      | (Some st, w1) \<Rightarrow>
          if st AND 0x10 = 0 then (OK, w1)
          else if st AND 0x40 = 0 then (ERR_STATUS, w1)
          else
            (let (v, w2) = f_in e w1
             in take_results e dev (i + 1) n
                  (set_fl dev (\<lambda>f. f\<lparr>fl_results := (fl_results f)(i := sint (word_of_int v :: u8))\<rparr>) w2)))"

definition fdc_results :: "floppy_env \<Rightarrow> nat \<Rightarrow> fd \<Rightarrow> int \<times> fd" where
  "fdc_results e dev w = take_results e dev 0 8 w"

section \<open>Motors and the arm\<close>

definition start_motor :: "floppy_env \<Rightarrow> nat \<Rightarrow> fd \<Rightarrow> fd option" where
  "start_motor e dev w =
     (let motor_bit = push_bit (nat (fl_drive (fl w dev) + 4)) 1;
          goal = motor_bit OR ENABLE_INT OR fl_drive (fl w dev);
          goal1 = (if fd_status w AND fd_prev w \<noteq> 0 then goal OR fd_prev w else goal);
          running = fd_status w AND motor_bit;
          w1 = (f_out DOR goal1 (w\<lparr>fd_goal := goal1\<rparr>))\<lparr>fd_status := goal1, fd_prev := motor_bit\<rparr>
      in if running \<noteq> 0 then Some w1
         else do { w2 \<leftarrow> clock_mess e (mtr_setup ! fd_d w) Send_mess w1; f_wait e w2 })"

definition recalibrate :: "floppy_env \<Rightarrow> nat \<Rightarrow> fd \<Rightarrow> (int \<times> fd) option" where
  "recalibrate e dev w = do {
     w1 \<leftarrow> start_motor e dev w;
     let w2 = fdc_out e (fl_drive (fl w1 dev)) (fdc_out e 0x07 w1);
     (if fd_need_reset w2 then Some (ERR_SEEK, w2)
      else do {
        w2' \<leftarrow> f_wait e w2;
        let (r, w3) = fdc_results e dev (fdc_out e 0x08 w2');
        let w4 = set_fl dev (\<lambda>f. f\<lparr>fl_curcyl := - 1\<rparr>) w3;
        let res = fl_results (fl w4 dev);
        Some (if r \<noteq> OK \<or> res 0 AND ST0_BITS \<noteq> SEEK_ST0 \<or> res 1 \<noteq> 0
              then (ERR_RECALIBRATE, set_fl dev (\<lambda>f. f\<lparr>fl_calibrated := False\<rparr>) (w4\<lparr>fd_need_reset := True\<rparr>))
              else (OK, set_fl dev (\<lambda>f. f\<lparr>fl_calibrated := True\<rparr>) w4))
      })
   }"

definition arm_seek :: "floppy_env \<Rightarrow> nat \<Rightarrow> fd \<Rightarrow> (int \<times> fd) option" where
  "arm_seek e dev w = do {
     (c, w1) \<leftarrow> (if fl_calibrated (fl w dev) then Some (OK, w) else recalibrate e dev w);
     let f = fl w1 dev;
     let target = fl_cylinder f * steps_per_cyl ! fd_d w1;
     (if c \<noteq> OK then Some (ERR_SEEK, w1)
      else if fl_curcyl f = fl_cylinder f then Some (OK, w1)
      else do {
        let w2 = fdc_out e target (fdc_out e (push_bit 2 (fl_head f) OR fl_drive f) (fdc_out e 0x0F w1));
        (if fd_need_reset w2 then Some (ERR_SEEK, w2)
         else do {
           w2' \<leftarrow> f_wait e w2;
           let (r, w3) = fdc_results e dev (fdc_out e 0x08 w2');
           let res = fl_results (fl w3 dev);
           let r1 = (if res 0 AND ST0_BITS \<noteq> SEEK_ST0 then ERR_SEEK else r);
           let r2 = (if res 1 \<noteq> target then ERR_SEEK else r1);
           (if r2 \<noteq> OK
            then do { (c2, w4) \<leftarrow> recalibrate e dev w3; Some (if c2 \<noteq> OK then ERR_SEEK else r2, w4) }
            else Some (r2, w3))
         })
      })
   }"

section \<open>Transfers\<close>

definition transfer_bytes :: "floppy \<Rightarrow> nat \<Rightarrow> int list" where
  "transfer_bytes f d = [if fl_opcode f = DISK_READ then 0xE6 else 0xC5, push_bit 2 (fl_head f) OR fl_drive f,
     fl_cylinder f, fl_head f, fl_sector f, 2, nr_sectors ! d, fl_gap ! d, 0xFF]"

definition f_transfer :: "floppy_env \<Rightarrow> nat \<Rightarrow> fd \<Rightarrow> (int \<times> fd) option" where
  "f_transfer e dev w =
     (let f = fl w dev
      in if \<not> fl_calibrated f then Some (ERR_TRANSFER, w)
         else if drop_bit (nat (fl_drive f + 4)) (fd_status w) AND 1 = 0 then Some (ERR_TRANSFER, w)
         else
           (let w1 = (if pc_at e then f_out FDC_RATE (fl_rate ! fd_d w) w else w);
                w2 = fold (fdc_out e) (transfer_bytes f (fd_d w)) w1
            in if fd_need_reset w2 then Some (ERR_TRANSFER, w2)
               else do {
                 w2' \<leftarrow> f_wait e w2;
                 let (r, w3) = fdc_results e dev w2';
                 let res = fl_results (fl w3 dev);
                 let w4 = (if res 1 AND 0x05 \<noteq> 0 \<or> res 2 AND 0x1F \<noteq> 0
                           then set_fl dev (\<lambda>f. f\<lparr>fl_calibrated := False\<rparr>) w3 else w3);
                 let n = nr_sectors ! fd_d w;
                 let s = (res 3 - fl_cylinder f) * 2 * n + (res 4 - fl_head f) * n + (res 5 - fl_sector f);
                 Some (if r \<noteq> OK then (r, w3)
                       else if res 1 AND 0x02 \<noteq> 0 then (ERR_WR_PROTECT, w4)
                       else if res 0 AND ST0_BITS \<noteq> 0 then (ERR_TRANSFER, w4)
                       else if res 1 OR res 2 \<noteq> 0 then (ERR_TRANSFER, w4)
                       else if int_of (s * 512) \<noteq> fl_count f then (ERR_TRANSFER, w4)
                       else (OK, w4))
               }))"

text \<open>\<^verbatim>\<open>reset\<close> takes the slot of drive 0 for the result of the controller, which it then ignores.\<close>

definition f_reset :: "floppy_env \<Rightarrow> fd \<Rightarrow> fd option" where
  "f_reset e w = do {
     w1 \<leftarrow> f_wait e (f_out DOR ENABLE_INT (f_out DOR 0 (w\<lparr>fd_need_reset := False, fd_status := 0, fd_goal := 0\<rparr>)));
     let w2 = set_fl 0 (\<lambda>f. f\<lparr>fl_results := (fl_results f)(0 := 0)\<rparr>) w1;
     let (r, w3) = fdc_results e 0 (fdc_out e 0x08 w2);
     let w4 = fdc_out e 0x02 (fdc_out e 0xDF (fdc_out e 0x03 w3));
     Some (set_fl 1 (\<lambda>f. f\<lparr>fl_calibrated := False\<rparr>) (set_fl 0 (\<lambda>f. f\<lparr>fl_calibrated := False\<rparr>) w4))
   }"

definition dma_outputs :: "floppy \<Rightarrow> u32 \<Rightarrow> f_event list" where
  "dma_outputs f user_phys =
     (let mode = (if fl_opcode f = DISK_READ then 0x46 else 0x4A); ct1 = word_of_int (fl_count f) - 1 :: u16
      in [F_out 0x0C mode, F_out 0x0B mode,
          F_out 0x04 (uint user_phys AND 0xFF), F_out 0x04 (drop_bit 8 (uint user_phys) AND 0xFF),
          F_out 0x81 (drop_bit 16 (uint user_phys) AND 0xFF),
          F_out 0x05 (uint ct1 AND 0xFF), F_out 0x05 (drop_bit 8 (uint ct1) AND 0xFF), F_out 0x0A 2])"

definition dma_setup :: "kernel \<Rightarrow> nat \<Rightarrow> fd \<Rightarrow> fd option" where
  "dma_setup k dev w =
     (let f = fl w dev; ct = word_of_int (fl_count f) :: u16;
          user_phys = umap (procs k (fl_procnr f)) SEG_D (fl_address f) ct;
          top_end = drop_bit 16 (user_phys + ucast ct - 1) AND 0xFF
      in if user_phys = 0 \<or> top_end \<noteq> drop_bit 16 user_phys AND 0xFF then None
         else Some (w\<lparr>fd_log := fd_log w @ dma_outputs f user_phys\<rparr>))"

section \<open>Requests\<close>

text \<open>One trial of the loop of \<^verbatim>\<open>do_rdwt\<close>, after the choice of the density.\<close>

definition f_trial :: "floppy_env \<Rightarrow> kernel \<Rightarrow> nat \<Rightarrow> fd \<Rightarrow> (int \<times> fd) option" where
  "f_trial e k dev w = do {
     w0 \<leftarrow> (if fd_need_reset w then f_reset e w else Some w);
     w1 \<leftarrow> dma_setup k dev w0;
     w2 \<leftarrow> start_motor e dev w1;
     (r, w3) \<leftarrow> arm_seek e dev w2;
     (if r \<noteq> OK then Some (r, w3) else f_transfer e dev w3)
   }"

text \<open>The loop, with \<open>n\<close> trials left of 21 and the value of \<^verbatim>\<open>r\<close>, which at first has none.\<close>

fun f_tries :: "floppy_env \<Rightarrow> kernel \<Rightarrow> nat \<Rightarrow> int \<Rightarrow> nat \<Rightarrow> int option \<Rightarrow> fd \<Rightarrow> (int option \<times> fd) option" where
  "f_tries e k dev block 0 r w = Some (r, w)"
| "f_tries e k dev block (Suc n) r w =
     (let w1 = (if (21 - n) mod 5 = 0
                then set_fl dev (\<lambda>f. f\<lparr>fl_density := (fd_d w + 1) mod 4\<rparr>) (w\<lparr>fd_d := (fd_d w + 1) mod 4, fd_need_reset := True\<rparr>)
                else w)
      in if block \<ge> nr_blocks ! fd_d w1 then f_tries e k dev block n r w1
         else do {
           (q, w2) \<leftarrow> f_trial e k dev w1;
           if q = OK \<or> q = ERR_WR_PROTECT then Some (Some q, w2) else f_tries e k dev block n (Some q) w2
         })"

definition f_place :: "int \<Rightarrow> nat \<Rightarrow> floppy \<Rightarrow> floppy" where
  "f_place block d f = f\<lparr>fl_cylinder := int_of (block div (2 * nr_sectors ! d)), fl_sector := block mod nr_sectors ! d + 1,
     fl_head := block mod (2 * nr_sectors ! d) div nr_sectors ! d\<rparr>"

definition f_do_rdwt :: "floppy_env \<Rightarrow> kernel \<Rightarrow> kmess \<Rightarrow> fd \<Rightarrow> (int \<times> fd) option" where
  "f_do_rdwt e k m w =
     (let drive = m2_i1 m; dev = nat drive
      in if drive < 0 \<or> drive \<ge> 2 then Some (EIO, w)
         else
           (let w1 = set_fl dev (\<lambda>f. f\<lparr>fl_drive := drive, fl_opcode := m_type m\<rparr>) w; block = m2_l1 m div 512; d = fl_density (fl w dev)
            in if m2_l1 m mod FD_BLOCK \<noteq> 0 then Some (EINVAL, w1)
               else if block \<ge> 2400 then Some (EOF, w1)
               else if block < 0 then None
               else
                 (let w2 = set_fl dev (\<lambda>f. (f_place block d f)\<lparr>fl_count := m2_i3 m, fl_address := m2_p1 m, fl_procnr := m2_i2 m\<rparr>)
                        (w1\<lparr>fd_d := d\<rparr>)
                  in if m2_i3 m \<noteq> FD_BLOCK then Some (EINVAL, w2)
                     else do {
                       (q, w3) \<leftarrow> f_tries e k dev block 21 None w2;
                       r \<leftarrow> q;
                       w4 \<leftarrow> clock_mess e 180 Stop_motor (w3\<lparr>fd_goal := ENABLE_INT\<rparr>);
                       Some (if r = OK then FD_BLOCK else EIO,
                             if r = OK \<and> fl_cylinder (fl w4 dev) > 0 then w4\<lparr>fd_initialized := True\<rparr> else w4)
                     })))"

text \<open>One message: who gets the reply, for which process, with which status.\<close>

definition floppy_task :: "floppy_env \<Rightarrow> kernel \<Rightarrow> kmess \<Rightarrow> fd \<Rightarrow> ((int \<times> int \<times> int) \<times> fd) option" where
  "floppy_task e k m w =
     (if m_source m < 0 then None
      else do {
        (r, w1) \<leftarrow> (if m_type m = DISK_READ \<or> m_type m = DISK_WRITE then f_do_rdwt e k m w else Some (EINVAL, w));
        Some ((m_source m, m2_i2 m, r), w1)
      })"

end
