(* ===== verification/KFloppyProps.thy ===== *)
theory KFloppyProps
  imports KFloppy
begin

text \<open>
  The diskette driver: what a successful request has told the controller and the DMA chip, that every request is
  answered whatever the controller does, and that the motor runs while the driver waits and is stopped after.
\<close>

section \<open>What an operation keeps\<close>

definition request_of :: "floppy \<Rightarrow> int \<times> int \<times> int \<times> int \<times> int \<times> int \<times> int \<times> u16 \<times> nat" where
  "request_of f = (fl_opcode f, fl_procnr f, fl_drive f, fl_cylinder f, fl_sector f, fl_head f, fl_count f, fl_address f, fl_density f)"

text \<open>While the driver waits, \<^verbatim>\<open>motor_goal\<close> is the state of the motors: a timer that ends then stops nothing.\<close>

definition synced :: "fd \<Rightarrow> bool" where
  "synced w \<longleftrightarrow> fd_goal w = fd_status w"

text \<open>\<open>dor_after v xs\<close>: what the port that drives the motors holds after the events \<open>xs\<close>, having held \<open>v\<close>.\<close>

definition dor_after :: "int \<Rightarrow> f_event list \<Rightarrow> int" where
  "dor_after v xs = fold (\<lambda>x u. case x of F_out p y \<Rightarrow> if p = DOR then y else u | _ \<Rightarrow> u) xs v"

text \<open>\<open>quiet v xs\<close>: in each wait the motors are in fact as recorded, and the timer would change nothing.\<close>

fun quiet :: "int \<Rightarrow> f_event list \<Rightarrow> bool" where
  "quiet v [] = True"
| "quiet v (F_out p u # xs) = quiet (if p = DOR then u else v) xs"
| "quiet v (F_alarm t f # xs) = quiet v xs"
| "quiet v (F_wait g s # xs) = (g = s \<and> v AND MOTOR_MASK = s AND MOTOR_MASK \<and> quiet v xs)"

lemma dor_after_simps [simp]: "dor_after v [] = v" "dor_after v (F_out p u # xs) = dor_after (if p = DOR then u else v) xs"
  "dor_after v (F_alarm t f # xs) = dor_after v xs" "dor_after v (F_wait g s # xs) = dor_after v xs"
  "dor_after v (xs @ ys) = dor_after (dor_after v xs) ys"
  by (simp_all add: dor_after_def)

lemma quiet_append [simp]: "quiet v (xs @ ys) \<longleftrightarrow> quiet v xs \<and> quiet (dor_after v xs) ys"
  by (induction v xs rule: quiet.induct) auto

lemma quiet_wait: "quiet v (as @ F_wait g s # bs) \<Longrightarrow> g = s \<and> dor_after v as AND MOTOR_MASK = s AND MOTOR_MASK"
  by simp

lemma synced_timer: "synced w \<Longrightarrow> stop_motor w = w"
  by (simp add: synced_def stop_motor_def)

text \<open>\<open>in_step s xs s'\<close>: motors recorded as \<open>s\<close> before the events are quiet and end as recorded in \<open>s'\<close>.\<close>

definition in_step :: "int \<Rightarrow> f_event list \<Rightarrow> int \<Rightarrow> bool" where
  "in_step s xs s' \<longleftrightarrow> (\<forall>v. v AND MOTOR_MASK = s AND MOTOR_MASK \<longrightarrow> quiet v xs \<and> dor_after v xs AND MOTOR_MASK = s' AND MOTOR_MASK)"

lemma in_step_Nil [simp]: "in_step s [] s"
  by (simp add: in_step_def)

lemma in_step_append: "in_step s xs t \<Longrightarrow> in_step t ys u \<Longrightarrow> in_step s (xs @ ys) u"
  by (simp add: in_step_def)

lemma in_step_outputs [simp]:
  assumes "p \<noteq> DOR"
  shows "in_step s (map (F_out p) vs) s"
proof -
  have "quiet v (map (F_out p) vs) \<and> dor_after v (map (F_out p) vs) = v" for v using assms by (induction vs) simp_all
  then show ?thesis by (simp add: in_step_def)
qed

lemma in_step_dma [simp]: "in_step s (dma_outputs f u) s"
  by (simp add: in_step_def dma_outputs_def Let_def)

text \<open>How often the DMA chip has been set up.\<close>

definition dmas :: "f_event list \<Rightarrow> nat" where
  "dmas xs = length (filter (\<lambda>x. x = F_out 0x0A 2) xs)"

lemma dmas_simps [simp]: "dmas [] = 0" "dmas (xs @ ys) = dmas xs + dmas ys" "dmas (F_out p u # xs) = (if p = 0x0A \<and> u = 2 then Suc (dmas xs) else dmas xs)"
  "dmas (F_wait g s # xs) = dmas xs" "dmas (F_alarm n f # xs) = dmas xs"
  by (auto simp: dmas_def)

lemma dmas_outputs [simp]: "p \<noteq> 0x0A \<Longrightarrow> dmas (map (F_out p) vs) = 0" "dmas (dma_outputs f u) = 1"
  by (induction vs) (simp_all add: dma_outputs_def Let_def)

definition keeps :: "fd \<Rightarrow> fd \<Rightarrow> bool" where
  "keeps w w' \<longleftrightarrow> fd_d w' = fd_d w \<and> fd_initialized w' = fd_initialized w
     \<and> (\<forall>i. request_of (fl w' i) = request_of (fl w i) \<and> fl_curcyl (fl w' i) \<in> {fl_curcyl (fl w i), - 1})"

lemma keeps_trans: "keeps a b \<Longrightarrow> keeps b c \<Longrightarrow> keeps a c"
  unfolding keeps_def by (metis insert_iff)

text \<open>An operation that leaves the motors alone: input, output to the controller, results.\<close>

definition motors_alone :: "fd \<Rightarrow> fd \<Rightarrow> bool" where
  "motors_alone w w' \<longleftrightarrow> keeps w w' \<and> fd_goal w' = fd_goal w \<and> fd_status w' = fd_status w \<and> fd_prev w' = fd_prev w
     \<and> (\<forall>i. fl_calibrated (fl w' i) = fl_calibrated (fl w i) \<and> fl_curcyl (fl w' i) = fl_curcyl (fl w i))"

lemma motors_alone_refl [simp]: "motors_alone w w"
  by (simp add: motors_alone_def keeps_def)

lemma motors_alone_trans: "motors_alone a b \<Longrightarrow> motors_alone b c \<Longrightarrow> motors_alone a c"
  using keeps_trans [of a b c] unfolding motors_alone_def by auto

lemma f_in_alone: "motors_alone w (snd (f_in e w))" "fd_log (snd (f_in e w)) = fd_log w" "fd_need_reset (snd (f_in e w)) = fd_need_reset w"
  "fl (snd (f_in e w)) = fl w"
  by (simp_all add: f_in_def motors_alone_def keeps_def)

lemma out_tries_alone:
  "motors_alone w (out_tries e n v w)
   \<and> (\<exists>vs. fd_log (out_tries e n v w) = fd_log w @ map (F_out FDC_DATA) vs
       \<and> (\<not> fd_need_reset (out_tries e n v w) \<longrightarrow> vs = [v])) \<and> fl (out_tries e n v w) = fl w"
proof (induction n arbitrary: w)
  case 0
  then show ?case by (auto simp: motors_alone_def keeps_def)
next
  case (Suc n)
  note f = f_in_alone [where e = e and w = w]
  show ?case
  proof (cases "fst (f_in e w) AND 0xC0 \<noteq> 0x80")
    case True
    then have "out_tries e (Suc n) v w = out_tries e n v (snd (f_in e w))" by (simp add: case_prod_beta)
    then show ?thesis using Suc.IH [of "snd (f_in e w)"] f motors_alone_trans by metis
  next
    case False
    then have o: "out_tries e (Suc n) v w = f_out FDC_DATA v (snd (f_in e w))" by (simp add: case_prod_beta)
    show ?thesis
      unfolding o using f by (auto simp: f_out_def motors_alone_def keeps_def intro!: exI [of _ "[v]"])
  qed
qed

lemma fdc_out_alone:
  "motors_alone w (fdc_out e v w)"
  "\<exists>vs. fd_log (fdc_out e v w) = fd_log w @ map (F_out FDC_DATA) vs"
  "\<not> fd_need_reset (fdc_out e v w) \<Longrightarrow> fd_log (fdc_out e v w) = fd_log w @ [F_out FDC_DATA v] \<and> \<not> fd_need_reset w"
  "fl (fdc_out e v w) = fl w"
proof -
  obtain vs where o: "motors_alone w (out_tries e 100 v w)" "fl (out_tries e 100 v w) = fl w"
    "fd_log (out_tries e 100 v w) = fd_log w @ map (F_out FDC_DATA) vs" "\<not> fd_need_reset (out_tries e 100 v w) \<Longrightarrow> vs = [v]"
    using out_tries_alone [of w e 100 v] by auto
  show "\<exists>vs. fd_log (fdc_out e v w) = fd_log w @ map (F_out FDC_DATA) vs"
    by (cases "fd_need_reset w"; rule exI [of _ "if fd_need_reset w then [] else vs"]) (simp_all add: fdc_out_def o)
  show "\<not> fd_need_reset (fdc_out e v w) \<Longrightarrow> fd_log (fdc_out e v w) = fd_log w @ [F_out FDC_DATA v] \<and> \<not> fd_need_reset w"
    using o(3,4) unfolding fdc_out_def by (auto split: if_splits)
qed (use out_tries_alone [of w e 100 v] in \<open>simp_all add: fdc_out_def\<close>)

lemma fdc_outs:
  "motors_alone w (fold (fdc_out e) vs w)
   \<and> (\<exists>us. fd_log (fold (fdc_out e) vs w) = fd_log w @ map (F_out FDC_DATA) us)
   \<and> (\<not> fd_need_reset (fold (fdc_out e) vs w) \<longrightarrow> fd_log (fold (fdc_out e) vs w) = fd_log w @ map (F_out FDC_DATA) vs \<and> \<not> fd_need_reset w)
   \<and> fl (fold (fdc_out e) vs w) = fl w"
proof (induction vs arbitrary: w)
  case (Cons v vs)
  let ?w1 = "fdc_out e v w" and ?w2 = "fold (fdc_out e) vs (fdc_out e v w)"
  obtain us where us: "fd_log ?w1 = fd_log w @ map (F_out FDC_DATA) us" using fdc_out_alone(2) by blast
  obtain us2 where us2: "motors_alone ?w1 ?w2" "fd_log ?w2 = fd_log ?w1 @ map (F_out FDC_DATA) us2" "fl ?w2 = fl ?w1"
    "\<not> fd_need_reset ?w2 \<Longrightarrow> fd_log ?w2 = fd_log ?w1 @ map (F_out FDC_DATA) vs \<and> \<not> fd_need_reset ?w1"
    using Cons.IH by blast
  have "motors_alone w ?w2" using fdc_out_alone(1) us2(1) motors_alone_trans by blast
  moreover have "\<exists>us. fd_log ?w2 = fd_log w @ map (F_out FDC_DATA) us" using us us2(2) by (intro exI [of _ "us @ us2"]) simp
  moreover have "\<not> fd_need_reset ?w2 \<longrightarrow> fd_log ?w2 = fd_log w @ map (F_out FDC_DATA) (v # vs) \<and> \<not> fd_need_reset w"
    using us2(4) fdc_out_alone(3) [of e v w] by auto
  ultimately show ?case using us2(3) fdc_out_alone(4) by simp
qed (auto intro: exI [of _ "[]"])

lemma master_tries_alone:
  "motors_alone w (snd (master_tries e n w)) \<and> fd_log (snd (master_tries e n w)) = fd_log w"
proof (induction n arbitrary: w)
  case (Suc n)
  then show ?case using f_in_alone [where e = e and w = w] motors_alone_trans [of w "snd (f_in e w)"] by (auto simp: case_prod_beta)
qed simp

lemma take_results_alone:
  "motors_alone w (snd (take_results e dev i n w)) \<and> fd_log (snd (take_results e dev i n w)) = fd_log w"
proof (induction n arbitrary: i w)
  case 0
  then show ?case by (simp add: motors_alone_def keeps_def)
next
  case (Suc n)
  obtain q w1 where m: "master_tries e 100 w = (q, w1)" by (cases "master_tries e 100 w")
  have w1: "motors_alone w w1" "fd_log w1 = fd_log w" using master_tries_alone [of w e 100] m by auto
  obtain v w2 where v: "f_in e w1 = (v, w2)" by (cases "f_in e w1")
  have w2: "motors_alone w1 w2" "fd_log w2 = fd_log w1" using f_in_alone [where e = e and w = w1] v by auto
  let ?w3 = "set_fl dev (\<lambda>f. f\<lparr>fl_results := (fl_results f)(i := sint (word_of_int v :: u8))\<rparr>) w2"
  have "motors_alone w2 ?w3" "fd_log ?w3 = fd_log w2"
    by (auto simp: set_fl_def motors_alone_def keeps_def request_of_def)
  then have w3: "motors_alone w ?w3" "fd_log ?w3 = fd_log w" using w1 w2 by (auto intro: motors_alone_trans)
  show ?case
    using w1 w3 Suc.IH [of ?w3 "i + 1"] motors_alone_trans [OF w3(1)] by (auto simp: m v split: option.splits)
qed

lemma fdc_results_alone:
  "motors_alone w (snd (fdc_results e dev w))" "fd_log (snd (fdc_results e dev w)) = fd_log w"
  using take_results_alone by (simp_all add: fdc_results_def)


section \<open>The steps of a trial\<close>

text \<open>\<open>works n w w'\<close>: from \<open>w\<close> to \<open>w'\<close> the driver keeps the request, waits with the motors as they should be, and sets
  up the DMA chip \<open>n\<close> times.\<close>

definition works :: "nat \<Rightarrow> fd \<Rightarrow> fd \<Rightarrow> bool" where
  "works n w w' \<longleftrightarrow> keeps w w' \<and> (\<exists>xs. fd_log w' = fd_log w @ xs \<and> in_step (fd_status w) xs (fd_status w') \<and> dmas xs = n) \<and> synced w'"

lemma works_trans:
  assumes "works n a b" "works m b c"
  shows "works (n + m) a c"
proof -
  obtain xs ys where "fd_log b = fd_log a @ xs" "in_step (fd_status a) xs (fd_status b)" "dmas xs = n"
    "fd_log c = fd_log b @ ys" "in_step (fd_status b) ys (fd_status c)" "dmas ys = m"
    using assms by (auto simp: works_def)
  then have "\<exists>zs. fd_log c = fd_log a @ zs \<and> in_step (fd_status a) zs (fd_status c) \<and> dmas zs = n + m"
    by (intro exI [of _ "xs @ ys"]) (auto intro: in_step_append)
  then show ?thesis using assms keeps_trans unfolding works_def by blast
qed

lemmas works_then = works_trans [where n = 0 and m = 0, simplified]

lemma works_alone:
  assumes "motors_alone w w'" "fd_log w' = fd_log w @ map (F_out FDC_DATA) vs" "synced w"
  shows "works 0 w w'"
  using assms by (auto simp: works_def motors_alone_def synced_def)

lemma works_fdc_out: "synced w \<Longrightarrow> works 0 w (fdc_out e v w)"
  using fdc_out_alone(1,2) [where w = w and e = e and v = v] works_alone by blast

lemma works_results: "synced w \<Longrightarrow> works 0 w (snd (fdc_results e dev w))"
  using fdc_results_alone [where w = w] works_alone [where vs = "[]"] by auto

lemma works_refl: "synced w \<Longrightarrow> works 0 w w"
  using works_alone [where vs = "[]"] by auto

text \<open>A wait of a driver in step: the timer, should it end, does nothing.\<close>

lemma f_wait_synced:
  assumes "f_wait e w = Some w'" "synced w"
  shows "w' = w\<lparr>fd_log := fd_log w @ [F_wait (fd_status w) (fd_status w)]\<rparr>"
  using assms synced_timer [of "w\<lparr>fd_log := fd_log w @ [F_wait (fd_goal w) (fd_status w)]\<rparr>"]
  by (auto simp: f_wait_def Let_def synced_def split: if_splits)

lemma works_wait: "f_wait e w = Some w' \<Longrightarrow> synced w \<Longrightarrow> works 0 w w'"
  by (frule (1) f_wait_synced) (simp add: works_def keeps_def synced_def in_step_def)

lemma f_wait_returns: "(\<And>n. wait_ends e n) \<Longrightarrow> f_wait e w \<noteq> None"
  by (simp add: f_wait_def Let_def)

lemma works_set_fl:
  assumes "synced w" "request_of (g (fl w dev)) = request_of (fl w dev)" "fl_curcyl (g (fl w dev)) \<in> {fl_curcyl (fl w dev), - 1}"
  shows "works 0 w (set_fl dev g w)"
  using assms by (auto simp: works_def set_fl_def keeps_def synced_def)

lemma works_need_reset: "synced w \<Longrightarrow> works 0 w (w\<lparr>fd_need_reset := True\<rparr>)"
  by (simp add: works_def keeps_def synced_def)

lemma works_synced: "works n w w' \<Longrightarrow> synced w'"
  by (simp add: works_def)

lemmas works_steps = works_then [OF _ works_fdc_out] works_then [OF _ works_results] works_then [OF _ works_set_fl]
  works_then [OF _ works_need_reset]

lemma works_start_motor:
  assumes "start_motor e dev w = Some w'"
  shows "works 0 w w'"
proof -
  define motor_bit where "motor_bit = push_bit (nat (fl_drive (fl w dev) + 4)) (1::int)"
  define goal where "goal = (if fd_status w AND fd_prev w \<noteq> 0 then (motor_bit OR ENABLE_INT OR fl_drive (fl w dev)) OR fd_prev w
      else motor_bit OR ENABLE_INT OR fl_drive (fl w dev))"
  define w1 where "w1 = (f_out DOR goal (w\<lparr>fd_goal := goal\<rparr>))\<lparr>fd_status := goal, fd_prev := motor_bit\<rparr>"
  have 1: "works 0 w w1" by (simp add: w1_def works_def f_out_def keeps_def synced_def in_step_def)
  have s: "(if fd_status w AND motor_bit \<noteq> 0 then Some w1 else do { w2 \<leftarrow> clock_mess e (mtr_setup ! fd_d w) Send_mess w1; f_wait e w2 }) = Some w'"
    using assms unfolding start_motor_def Let_def w1_def goal_def motor_bit_def .
  show ?thesis
  proof (cases "fd_status w AND motor_bit \<noteq> 0")
    case False
    let ?w1 = "w1\<lparr>fd_log := fd_log w1 @ [F_alarm (mtr_setup ! fd_d w) Send_mess]\<rparr>"
    obtain w2 where w2: "f_wait e ?w1 = Some w2" "f_wait e w2 = Some w'" using s False by (auto simp: clock_mess_def bind_eq_Some_conv)
    have "works 0 w1 ?w1" using works_synced [OF 1] by (simp add: works_def keeps_def synced_def in_step_def)
    then have 2: "works 0 w ?w1" using 1 works_then by blast
    have 3: "works 0 w w2" using works_then [OF 2 works_wait [OF w2(1) works_synced [OF 2]]] .
    show ?thesis using works_then [OF 3 works_wait [OF w2(2) works_synced [OF 3]]] .
  qed (use s 1 in simp)
qed

lemma works_reset:
  assumes "f_reset e w = Some w'"
  shows "works 0 w w'"
proof -
  let ?w0 = "f_out DOR ENABLE_INT (f_out DOR 0 (w\<lparr>fd_need_reset := False, fd_status := 0, fd_goal := 0\<rparr>))"
  obtain w1 where w1: "f_wait e ?w0 = Some w1" using assms by (auto simp: f_reset_def bind_eq_Some_conv)
  let ?w2 = "set_fl 0 (\<lambda>f. f\<lparr>fl_results := (fl_results f)(0 := 0)\<rparr>) w1"
  let ?w3 = "snd (fdc_results e 0 (fdc_out e 0x08 ?w2))"
  let ?w4 = "fdc_out e 0x02 (fdc_out e 0xDF (fdc_out e 0x03 ?w3))"
  let ?w5 = "set_fl 0 (\<lambda>f. f\<lparr>fl_calibrated := False\<rparr>) ?w4"
  have 0: "works 0 w ?w0" by (simp add: works_def f_out_def keeps_def synced_def in_step_def)
  have 1: "works 0 w w1" using works_then [OF 0 works_wait [OF w1 works_synced [OF 0]]] .
  have 2: "works 0 w ?w2" by (intro works_steps 1 works_synced [OF 1]) (auto simp: request_of_def)
  have 3: "works 0 w ?w3" by (intro works_steps 2 works_synced [OF 2] works_synced [OF works_fdc_out])
  have 4: "works 0 w ?w4" by (intro works_steps 3 works_synced [OF 3] works_synced [OF works_fdc_out])
  have 5: "works 0 w ?w5" by (intro works_steps 4 works_synced [OF 4]) (auto simp: request_of_def)
  have "works 0 w (set_fl 1 (\<lambda>f. f\<lparr>fl_calibrated := False\<rparr>) ?w5)"
    by (intro works_steps 5 works_synced [OF 5]) (auto simp: request_of_def)
  then show ?thesis using assms w1 by (simp add: f_reset_def Let_def case_prod_beta)
qed

lemma works_recalibrate:
  assumes "recalibrate e dev w = Some (r, w')"
  shows "works 0 w w'"
proof -
  obtain w1 where w1: "start_motor e dev w = Some w1" using assms by (auto simp: recalibrate_def bind_eq_Some_conv)
  let ?w2 = "fdc_out e (fl_drive (fl w1 dev)) (fdc_out e 0x07 w1)"
  have 1: "works 0 w w1" by (rule works_start_motor [OF w1])
  have 2: "works 0 w ?w2" by (intro works_steps 1 works_synced [OF 1] works_synced [OF works_fdc_out])
  show ?thesis
  proof (cases "fd_need_reset ?w2")
    case True
    then show ?thesis using assms 2 by (simp add: recalibrate_def w1 Let_def)
  next
    case False
    then obtain w2 where w2: "f_wait e ?w2 = Some w2" using assms by (auto simp: recalibrate_def w1 Let_def bind_eq_Some_conv)
    let ?w3 = "snd (fdc_results e dev (fdc_out e 0x08 w2))"
    let ?w4 = "set_fl dev (\<lambda>f. f\<lparr>fl_curcyl := - 1\<rparr>) ?w3"
    have 2: "works 0 w w2" using works_then [OF 2 works_wait [OF w2 works_synced [OF 2]]] .
    have 3: "works 0 w ?w3" by (intro works_steps 2 works_synced [OF 2] works_synced [OF works_fdc_out])
    have 4: "works 0 w ?w4" by (intro works_steps 3 works_synced [OF 3]) (auto simp: request_of_def)
    have 5: "works 0 w (?w4\<lparr>fd_need_reset := True\<rparr>)" by (intro works_steps 4 works_synced [OF 4])
    have "works 0 w (set_fl dev (\<lambda>f. f\<lparr>fl_calibrated := False\<rparr>) (?w4\<lparr>fd_need_reset := True\<rparr>))"
      by (intro works_steps 5 works_synced [OF 5]) (auto simp: request_of_def)
    moreover have "works 0 w (set_fl dev (\<lambda>f. f\<lparr>fl_calibrated := True\<rparr>) ?w4)"
      by (intro works_steps 4 works_synced [OF 4]) (auto simp: request_of_def)
    moreover have "w' \<in> {set_fl dev (\<lambda>f. f\<lparr>fl_calibrated := False\<rparr>) (?w4\<lparr>fd_need_reset := True\<rparr>), set_fl dev (\<lambda>f. f\<lparr>fl_calibrated := True\<rparr>) ?w4}"
      using assms False unfolding recalibrate_def w1 Let_def case_prod_beta by (auto simp: w2 split: if_splits)
    ultimately show ?thesis by blast
  qed
qed

lemma works_arm_seek:
  assumes "arm_seek e dev w = Some (r, w')" "synced w"
  shows "works 0 w w'"
proof -
  obtain c w1 where w1: "(if fl_calibrated (fl w dev) then Some (OK, w) else recalibrate e dev w) = Some (c, w1)"
    using assms(1) by (auto simp: arm_seek_def bind_eq_Some_conv)
  let ?f = "fl w1 dev"
  let ?w2 = "fdc_out e (fl_cylinder ?f * steps_per_cyl ! fd_d w1) (fdc_out e (push_bit 2 (fl_head ?f) OR fl_drive ?f) (fdc_out e 0x0F w1))"
  have 1: "works 0 w w1" using w1 works_refl [OF assms(2)] works_recalibrate by (auto split: if_splits)
  have 2: "works 0 w ?w2" by (intro works_steps 1 works_synced [OF 1] works_synced [OF works_fdc_out])
  consider "w' = w1" | "w' = ?w2" | w2 where "f_wait e ?w2 = Some w2" "w' = snd (fdc_results e dev (fdc_out e 0x08 w2))"
    | w2 c2 where "f_wait e ?w2 = Some w2" "recalibrate e dev (snd (fdc_results e dev (fdc_out e 0x08 w2))) = Some (c2, w')"
    using assms(1) w1 unfolding arm_seek_def Let_def case_prod_beta
    by (auto simp: bind_eq_Some_conv split: if_splits)
  then show ?thesis
  proof cases
    case (3 w2)
    have w2: "works 0 w w2" using works_then [OF 2 works_wait [OF 3(1) works_synced [OF 2]]] .
    show ?thesis unfolding 3(2) by (intro works_steps w2 works_synced [OF w2] works_synced [OF works_fdc_out])
  next
    case (4 w2)
    have w2: "works 0 w w2" using works_then [OF 2 works_wait [OF 4(1) works_synced [OF 2]]] .
    have "works 0 w (snd (fdc_results e dev (fdc_out e 0x08 w2)))"
      by (intro works_steps w2 works_synced [OF w2] works_synced [OF works_fdc_out])
    then show ?thesis using works_recalibrate [OF 4(2)] works_then by blast
  qed (use 1 2 in auto)
qed

text \<open>When every wait ends, every step does.\<close>

lemma steps_return:
  assumes "\<And>n. wait_ends e n"
  shows "start_motor e dev w \<noteq> None" "f_reset e w \<noteq> None" "recalibrate e dev w \<noteq> None" "arm_seek e dev w \<noteq> None" "f_transfer e dev w \<noteq> None"
proof -
  have f: "\<exists>w'. f_wait e w = Some w'" for w using f_wait_returns [OF assms, of w] by blast
  have m: "\<exists>w'. start_motor e dev w = Some w'" for w
  proof -
    have "\<exists>w'. do { w2 \<leftarrow> clock_mess e n g v; f_wait e w2 } = Some w'" for n g v
      using f by (auto simp: clock_mess_def bind_eq_Some_conv) metis
    then show ?thesis by (simp add: start_motor_def Let_def)
  qed
  have r: "\<exists>c w'. recalibrate e dev w = Some (c, w')" for w
  proof -
    obtain w1 where w1: "start_motor e dev w = Some w1" using m by blast
    obtain w2 where "f_wait e (fdc_out e (fl_drive (fl w1 dev)) (fdc_out e 0x07 w1)) = Some w2" using f by blast
    then show ?thesis by (simp add: recalibrate_def w1 Let_def case_prod_beta)
  qed
  show "start_motor e dev w \<noteq> None" "recalibrate e dev w \<noteq> None" using m r by auto
  show "f_reset e w \<noteq> None"
    using f [of "f_out DOR ENABLE_INT (f_out DOR 0 (w\<lparr>fd_need_reset := False, fd_status := 0, fd_goal := 0\<rparr>))"]
    by (auto simp: f_reset_def Let_def case_prod_beta)
  show "f_transfer e dev w \<noteq> None"
  proof -
    define w1 where "w1 = (if pc_at e then f_out FDC_RATE (fl_rate ! fd_d w) w else w)"
    obtain w2 where "f_wait e (fold (fdc_out e) (transfer_bytes (fl w dev) (fd_d w)) w1) = Some w2" using f by blast
    then show ?thesis unfolding f_transfer_def Let_def w1_def [symmetric] case_prod_beta by simp
  qed
  show "arm_seek e dev w \<noteq> None"
  proof -
    obtain c w1 where w1: "(if fl_calibrated (fl w dev) then Some (OK, w) else recalibrate e dev w) = Some (c, w1)"
      using r [of w] by (cases "fl_calibrated (fl w dev)") auto
    let ?f = "fl w1 dev"
    obtain w2 where w2: "f_wait e (fdc_out e (fl_cylinder ?f * steps_per_cyl ! fd_d w1) (fdc_out e (push_bit 2 (fl_head ?f) OR fl_drive ?f) (fdc_out e 0x0F w1))) = Some w2"
      using f by blast
    obtain c2 w4 where "recalibrate e dev (snd (fdc_results e dev (fdc_out e 0x08 w2))) = Some (c2, w4)" using r by blast
    then show ?thesis unfolding arm_seek_def w1 bind.bind_lunit prod.case Let_def case_prod_beta
      by (simp add: w2 case_prod_beta)
  qed
qed

section \<open>Trials\<close>

definition buffer_of :: "kernel \<Rightarrow> floppy \<Rightarrow> u32" where
  "buffer_of k f = umap (procs k (fl_procnr f)) SEG_D (fl_address f) (word_of_int (fl_count f))"

text \<open>The DMA chip does not carry from bit 15 to bit 16 of an address.\<close>

definition dma_ok :: "kernel \<Rightarrow> floppy \<Rightarrow> bool" where
  "dma_ok k f \<longleftrightarrow> buffer_of k f \<noteq> 0
     \<and> drop_bit 16 (buffer_of k f + ucast (word_of_int (fl_count f) :: u16) - 1) AND 0xFF = drop_bit 16 (buffer_of k f) AND 0xFF"

definition transfer_events :: "floppy_env \<Rightarrow> floppy \<Rightarrow> nat \<Rightarrow> int \<Rightarrow> f_event list" where
  "transfer_events e f d g = (if pc_at e then [F_out FDC_RATE (fl_rate ! d)] else [])
     @ map (F_out FDC_DATA) (transfer_bytes f d) @ [F_wait g g]"

text \<open>The controller reports no error, and a distance of two sectors (as far as 16 bits tell).\<close>

definition reported :: "floppy \<Rightarrow> nat \<Rightarrow> bool" where
  "reported f d \<longleftrightarrow> fl_results f 0 AND ST0_BITS = 0 \<and> fl_results f 1 OR fl_results f 2 = 0
     \<and> int_of (((fl_results f 3 - fl_cylinder f) * 2 * nr_sectors ! d + (fl_results f 4 - fl_head f) * nr_sectors ! d
         + (fl_results f 5 - fl_sector f)) * 512) = fl_count f"

lemma works_transfer:
  assumes "synced w" "f_transfer e dev w = Some (r, w')"
  shows "works 0 w w'"
    and "r = OK \<Longrightarrow> fd_log w' = fd_log w @ transfer_events e (fl w dev) (fd_d w) (fd_goal w) \<and> reported (fl w' dev) (fd_d w)
      \<and> drop_bit (nat (fl_drive (fl w dev) + 4)) (fd_goal w) AND 1 \<noteq> 0"
proof -
  define w1 where "w1 = (if pc_at e then f_out FDC_RATE (fl_rate ! fd_d w) w else w)"
  define w2 where "w2 = fold (fdc_out e) (transfer_bytes (fl w dev) (fd_d w)) w1"
  have 1: "works 0 w w1" using assms(1) by (simp add: w1_def works_def f_out_def keeps_def synced_def in_step_def)
  obtain vs where vs: "fd_log w2 = fd_log w1 @ map (F_out FDC_DATA) vs"
    "\<not> fd_need_reset w2 \<Longrightarrow> vs = transfer_bytes (fl w dev) (fd_d w)"
    using fdc_outs [where w = w1 and e = e and vs = "transfer_bytes (fl w dev) (fd_d w)"] unfolding w2_def by auto
  have a2: "motors_alone w1 w2" "fl w2 = fl w1" using fdc_outs unfolding w2_def by auto
  have 2: "works 0 w w2" using works_then [OF 1 works_alone [OF a2(1) vs(1) works_synced [OF 1]]] .
  have "works 0 w w' \<and> (r = OK \<longrightarrow> fd_log w' = fd_log w @ transfer_events e (fl w dev) (fd_d w) (fd_goal w) \<and> reported (fl w' dev) (fd_d w)
      \<and> drop_bit (nat (fl_drive (fl w dev) + 4)) (fd_goal w) AND 1 \<noteq> 0)"
  proof (cases "\<not> fl_calibrated (fl w dev) \<or> drop_bit (nat (fl_drive (fl w dev) + 4)) (fd_status w) AND 1 = 0 \<or> fd_need_reset w2")
    case True
    then have "r \<noteq> OK \<and> (w' = w \<or> w' = w2)"
      using assms(2) unfolding f_transfer_def Let_def w1_def [symmetric] w2_def [symmetric] by (auto split: if_splits)
    then show ?thesis using 2 works_refl [OF assms(1)] by auto
  next
    case False
    then have c: "(\<not> fl_calibrated (fl w dev)) = False" "(drop_bit (nat (fl_drive (fl w dev) + 4)) (fd_status w) AND 1 = 0) = False"
      "fd_need_reset w2 = False" by auto
    note run = assms(2) [unfolded f_transfer_def Let_def w1_def [symmetric] w2_def [symmetric] c if_False]
    then obtain w2' where w2': "f_wait e w2 = Some w2'" by (cases "f_wait e w2") auto
    define r3 where "r3 = fst (fdc_results e dev w2')"
    define w3 where "w3 = snd (fdc_results e dev w2')"
    define w4 where "w4 = (if fl_results (fl w3 dev) 1 AND 0x05 \<noteq> 0 \<or> fl_results (fl w3 dev) 2 AND 0x1F \<noteq> 0
      then set_fl dev (\<lambda>f. f\<lparr>fl_calibrated := False\<rparr>) w3 else w3)"
    have 3: "works 0 w w2'" using works_then [OF 2 works_wait [OF w2' works_synced [OF 2]]] .
    then have 3: "works 0 w w3" using works_then [OF 3 works_results [OF works_synced [OF 3]]] by (simp add: w3_def)
    have 4: "works 0 w w4"
      using 3 works_then [OF 3 works_set_fl [OF works_synced [OF 3]]] by (auto simp: w4_def request_of_def)
    have rw: "fl_cylinder (fl w3 dev) = fl_cylinder (fl w dev)" "fl_head (fl w3 dev) = fl_head (fl w dev)"
      "fl_sector (fl w3 dev) = fl_sector (fl w dev)" "fl_count (fl w3 dev) = fl_count (fl w dev)"
      using 3 by (auto simp: works_def keeps_def request_of_def)
    have res: "(if r3 \<noteq> OK then (r3, w3)
      else if fl_results (fl w3 dev) 1 AND 0x02 \<noteq> 0 then (ERR_WR_PROTECT, w4)
      else if fl_results (fl w3 dev) 0 AND ST0_BITS \<noteq> 0 \<or> fl_results (fl w3 dev) 1 OR fl_results (fl w3 dev) 2 \<noteq> 0
        \<or> \<not> reported (fl w3 dev) (fd_d w) then (ERR_TRANSFER, w4) else (OK, w4)) = (r, w')"
      using run unfolding w2' bind.bind_lunit case_prod_beta r3_def [symmetric] w3_def [symmetric] w4_def [symmetric]
        reported_def rw option.inject by (simp split: if_splits)
    have "fd_log w4 = fd_log w2'" unfolding w4_def w3_def using fdc_results_alone(2) by (simp add: set_fl_def)
    moreover have "fd_log w2' = fd_log w2 @ [F_wait (fd_goal w) (fd_goal w)]"
      using f_wait_synced [OF w2' works_synced [OF 2]] a2(1) assms(1)
      by (auto simp: motors_alone_def w1_def f_out_def synced_def split: if_splits)
    ultimately have "fd_log w4 = fd_log w @ transfer_events e (fl w dev) (fd_d w) (fd_goal w)"
      using vs c by (auto simp: transfer_events_def w1_def f_out_def)
    moreover have "reported (fl w4 dev) (fd_d w)" if "r = OK" using res that by (auto simp: w4_def set_fl_def reported_def split: if_splits)
    moreover have "w' = w4" if "r = OK" using res that by (auto split: if_splits)
    moreover have "works 0 w w'" using res 3 4 by (auto split: if_splits)
    ultimately show ?thesis using c(2) assms(1) by (auto simp: synced_def)
  qed
  then show "works 0 w w'" "r = OK \<Longrightarrow> fd_log w' = fd_log w @ transfer_events e (fl w dev) (fd_d w) (fd_goal w) \<and> reported (fl w' dev) (fd_d w)
      \<and> drop_bit (nat (fl_drive (fl w dev) + 4)) (fd_goal w) AND 1 \<noteq> 0" by auto
qed

lemma request_cong:
  assumes "request_of f = request_of g"
  shows "dma_outputs f = dma_outputs g" "transfer_events e f = transfer_events e g" "buffer_of k f = buffer_of k g" "dma_ok k f = dma_ok k g"
    "fl_drive f = fl_drive g"
  using assms by (auto simp: request_of_def dma_outputs_def transfer_events_def transfer_bytes_def buffer_of_def dma_ok_def fun_eq_iff)

text \<open>What a trial that succeeds has done.\<close>

definition achieved :: "floppy_env \<Rightarrow> kernel \<Rightarrow> floppy \<Rightarrow> nat \<Rightarrow> fd \<Rightarrow> fd \<Rightarrow> bool" where
  "achieved e k f d w w' \<longleftrightarrow> (\<exists>xs ys g. fd_log w' = fd_log w @ xs @ dma_outputs f (buffer_of k f) @ ys @ transfer_events e f d g
     \<and> drop_bit (nat (fl_drive f + 4)) g AND 1 \<noteq> 0) \<and> dma_ok k f"

lemma achieved_later: "achieved e k f d w w' \<Longrightarrow> fd_log w = fd_log v @ zs \<Longrightarrow> achieved e k f d v w'"
  unfolding achieved_def by (metis append_assoc)

lemma works_trial:
  assumes "f_trial e k dev w = Some (r, w')"
  shows "works 1 w w'"
    and "r = OK \<Longrightarrow> achieved e k (fl w dev) (fd_d w) w w' \<and> reported (fl w' dev) (fd_d w)"
proof -
  obtain w0 where w0: "(if fd_need_reset w then f_reset e w else Some w) = Some w0" using assms by (auto simp: f_trial_def bind_eq_Some_conv)
  obtain w1 w2 where w1: "dma_setup k dev w0 = Some w1" and w2: "start_motor e dev w1 = Some w2"
    using assms by (auto simp: f_trial_def w0 bind_eq_Some_conv)
  obtain q w3 where s: "arm_seek e dev w2 = Some (q, w3)" using assms by (auto simp: f_trial_def w0 w1 w2 bind_eq_Some_conv)
  obtain us where k0: "keeps w w0" "fd_log w0 = fd_log w @ us" "in_step (fd_status w) us (fd_status w0)" "dmas us = 0"
    using works_reset [of e w w0] w0 that [of "[]"] by (fastforce simp: works_def keeps_def split: if_splits)
  have f0: "request_of (fl w0 dev) = request_of (fl w dev)" using k0(1) by (simp add: keeps_def)
  have w1s: "w1 = w0\<lparr>fd_log := fd_log w0 @ dma_outputs (fl w dev) (buffer_of k (fl w dev))\<rparr>"
    using w1 request_cong [OF f0] by (auto simp: dma_setup_def Let_def buffer_of_def split: if_splits)
  have dma: "dma_ok k (fl w dev)"
    using w1 request_cong(4) [OF f0] unfolding dma_setup_def Let_def dma_ok_def buffer_of_def by (simp split: if_splits)
  have "keeps w0 w1" by (simp add: w1s keeps_def)
  then have k1: "keeps w w1" using k0 keeps_trans by blast
  have wk2: "works 0 w1 w2" by (rule works_start_motor [OF w2])
  have wk3: "works 0 w1 w3" using works_then [OF wk2 works_arm_seek [OF s works_synced [OF wk2]]] .
  have up: "works 1 w x" if u: "works 0 w1 x" for x
  proof -
    obtain ys where ys: "fd_log x = fd_log w1 @ ys" "in_step (fd_status w1) ys (fd_status x)" "dmas ys = 0" using u by (auto simp: works_def)
    have "in_step (fd_status w) (us @ dma_outputs (fl w dev) (buffer_of k (fl w dev)) @ ys) (fd_status x)"
      using ys(2) by (intro in_step_append [OF k0(3)] in_step_append [OF in_step_dma]) (simp add: w1s)
    then have "\<exists>xs. fd_log x = fd_log w @ xs \<and> in_step (fd_status w) xs (fd_status x) \<and> dmas xs = 1"
      using ys k0(2,4) by (intro exI [of _ "us @ dma_outputs (fl w dev) (buffer_of k (fl w dev)) @ ys"]) (simp add: w1s)
    then show ?thesis using u k1 keeps_trans by (auto simp: works_def)
  qed
  have res: "(if q \<noteq> OK then Some (q, w3) else f_transfer e dev w3) = Some (r, w')"
    using assms by (simp add: f_trial_def w0 w1 w2 s)
  have "works 1 w w'"
  proof (cases "q = OK")
    case True
    then have "f_transfer e dev w3 = Some (r, w')" using res by simp
    then show ?thesis using up works_then [OF wk3 works_transfer(1) [OF works_synced [OF wk3]]] by blast
  qed (use res up wk3 in simp)
  then show "works 1 w w'" .
  assume ok: "r = OK"
  then have t: "f_transfer e dev w3 = Some (OK, w')" using res by (auto split: if_splits)
  have f3: "request_of (fl w3 dev) = request_of (fl w dev)" "fd_d w3 = fd_d w" using up [OF wk3] by (auto simp: works_def keeps_def)
  obtain ys where ys: "fd_log w3 = fd_log w1 @ ys" using wk3 by (auto simp: works_def)
  note T = works_transfer(2) [OF works_synced [OF wk3] t refl]
  have "fd_log w' = fd_log w @ us @ dma_outputs (fl w dev) (buffer_of k (fl w dev)) @ ys @ transfer_events e (fl w dev) (fd_d w) (fd_goal w3)"
    using T k0(2) ys request_cong(2) [OF f3(1)] f3(2) by (simp add: w1s)
  moreover have "drop_bit (nat (fl_drive (fl w dev) + 4)) (fd_goal w3) AND 1 \<noteq> 0" using T request_cong(5) [OF f3(1)] by simp
  ultimately show "achieved e k (fl w dev) (fd_d w) w w' \<and> reported (fl w' dev) (fd_d w)"
    using T f3(2) dma unfolding achieved_def by auto
qed

lemma trial_returns:
  assumes "dma_ok k (fl w dev)" "\<And>n. wait_ends e n"
  shows "f_trial e k dev w \<noteq> None"
proof -
  obtain w0 where w0: "(if fd_need_reset w then f_reset e w else Some w) = Some w0"
    using steps_return(2) [OF assms(2), of w] by (cases "fd_need_reset w") auto
  then have "request_of (fl w0 dev) = request_of (fl w dev)" using works_reset [of e w w0] by (auto simp: works_def keeps_def split: if_splits)
  from request_cong(4) [OF this] have "dma_ok k (fl w0 dev)" using assms(1) by simp
  then have "dma_setup k dev w0 \<noteq> None"
    unfolding dma_setup_def Let_def dma_ok_def buffer_of_def by (simp split: if_split)
  then obtain w1 where w1: "dma_setup k dev w0 = Some w1" by blast
  obtain w2 where w: "dma_setup k dev w0 = Some w1" "start_motor e dev w1 = Some w2"
    using w1 steps_return(1) [OF assms(2), of dev w1] by blast
  obtain q w3 where "arm_seek e dev w2 = Some (q, w3)" using steps_return(4) [OF assms(2), of dev w2] by fastforce
  then show ?thesis using steps_return(5) [OF assms(2), of dev w3] by (simp add: f_trial_def w0 w)
qed


section \<open>The loop\<close>

text \<open>The loop changes the density, but not the place that was computed with the old one.\<close>

definition loops :: "nat \<Rightarrow> nat \<Rightarrow> fd \<Rightarrow> fd \<Rightarrow> bool" where
  "loops n dev w w' \<longleftrightarrow> request_of ((fl w' dev)\<lparr>fl_density := 0\<rparr>) = request_of ((fl w dev)\<lparr>fl_density := 0\<rparr>)
     \<and> (\<forall>i. i \<noteq> dev \<longrightarrow> request_of (fl w' i) = request_of (fl w i))
     \<and> (\<forall>i. fl_curcyl (fl w' i) \<in> {fl_curcyl (fl w i), - 1}) \<and> fd_initialized w' = fd_initialized w
     \<and> (\<exists>xs. fd_log w' = fd_log w @ xs \<and> in_step (fd_status w) xs (fd_status w') \<and> dmas xs \<le> n)
     \<and> (fd_d w < 4 \<longrightarrow> fd_d w' < 4) \<and> (fl_density (fl w dev) = fd_d w \<longrightarrow> fl_density (fl w' dev) = fd_d w')"

lemma loops_refl [simp]: "loops 0 dev w w"
  by (simp add: loops_def)

lemma loops_trans:
  assumes "loops n dev a b" "loops m dev b c"
  shows "loops (n + m) dev a c"
proof -
  obtain xs ys where "fd_log b = fd_log a @ xs" "in_step (fd_status a) xs (fd_status b)" "dmas xs \<le> n"
    "fd_log c = fd_log b @ ys" "in_step (fd_status b) ys (fd_status c)" "dmas ys \<le> m"
    using assms by (auto simp: loops_def)
  then have l: "\<exists>zs. fd_log c = fd_log a @ zs \<and> in_step (fd_status a) zs (fd_status c) \<and> dmas zs \<le> n + m"
    by (intro exI [of _ "xs @ ys"]) (auto intro: in_step_append)
  have cc: "fl_curcyl (fl c i) \<in> {fl_curcyl (fl a i), - 1}" for i using assms unfolding loops_def by (metis insert_iff)
  show ?thesis unfolding loops_def
  proof (intro conjI allI)
    show "\<exists>zs. fd_log c = fd_log a @ zs \<and> in_step (fd_status a) zs (fd_status c) \<and> dmas zs \<le> n + m" by (rule l)
  qed (use assms cc in \<open>auto simp: loops_def\<close>)
qed

lemma loops_more: "loops n dev a b \<Longrightarrow> n \<le> m \<Longrightarrow> loops m dev a b"
  unfolding loops_def by (metis order_trans)

lemma works_loops: "works n w w' \<Longrightarrow> loops n dev w w'"
  unfolding works_def keeps_def loops_def request_of_def by auto

definition next_density :: "nat \<Rightarrow> nat \<Rightarrow> fd \<Rightarrow> fd" where
  "next_density dev n w = (if (21 - n) mod 5 = 0
     then set_fl dev (\<lambda>f. f\<lparr>fl_density := (fd_d w + 1) mod 4\<rparr>) (w\<lparr>fd_d := (fd_d w + 1) mod 4, fd_need_reset := True\<rparr>) else w)"

lemma next_density_loops: "loops 0 dev w (next_density dev n w)" "fd_log (next_density dev n w) = fd_log w"
  by (auto simp: next_density_def loops_def set_fl_def request_of_def)

lemma f_tries_Suc:
  "f_tries e k dev block (Suc n) r w =
     (let w1 = next_density dev n w
      in if block \<ge> nr_blocks ! fd_d w1 then f_tries e k dev block n r w1
         else do {
           (q, w2) \<leftarrow> f_trial e k dev w1;
           if q = OK \<or> q = ERR_WR_PROTECT then Some (Some q, w2) else f_tries e k dev block n (Some q) w2
         })"
  by (simp only: f_tries.simps next_density_def [symmetric])

lemma tries_ok:
  assumes "f_tries e k dev block n r w = Some (q, w')" "r \<noteq> Some OK"
  shows "loops n dev w w' \<and> (q = Some OK \<longrightarrow> block < nr_blocks ! fd_d w' \<and> reported (fl w' dev) (fd_d w')
      \<and> achieved e k (fl w' dev) (fd_d w') w w')"
  using assms
proof (induction n arbitrary: r w)
  case (Suc n)
  note t = Suc.prems(1) and r = Suc.prems(2)
  let ?w1 = "next_density dev n w"
  have l1: "loops 0 dev w ?w1" "fd_log ?w1 = fd_log w @ []" using next_density_loops by simp_all
  show ?case
  proof (cases "block \<ge> nr_blocks ! fd_d ?w1")
    case True
    then have "f_tries e k dev block n r ?w1 = Some (q, w')" using t by (simp only: f_tries_Suc Let_def if_True)
    from Suc.IH [OF this r] show ?thesis
      using loops_more [OF loops_trans [OF l1(1)], of n w' "Suc n"] achieved_later [OF _ l1(2)] by auto
  next
    case False
    then obtain q2 w2 where w2: "f_trial e k dev ?w1 = Some (q2, w2)"
      "(if q2 = OK \<or> q2 = ERR_WR_PROTECT then Some (Some q2, w2) else f_tries e k dev block n (Some q2) w2) = Some (q, w')"
      using t by (auto simp only: f_tries_Suc Let_def if_False bind_eq_Some_conv prod.case split_paired_all)
    have l2: "loops 1 dev w w2" using loops_trans [OF l1(1) works_loops [OF works_trial(1) [OF w2(1)]]] by simp
    show ?thesis
    proof (cases "q2 = OK \<or> q2 = ERR_WR_PROTECT")
      case True
      then have e: "q = Some q2" "w' = w2" using w2(2) by auto
      have rq: "request_of (fl w2 dev) = request_of (fl ?w1 dev)" "fd_d w2 = fd_d ?w1"
        using works_trial(1) [OF w2(1)] by (auto simp: works_def keeps_def)
      have ac: "achieved e k (fl w2 dev) = achieved e k (fl ?w1 dev)"
        by (simp add: achieved_def fun_eq_iff request_cong [OF rq(1)])
      show ?thesis
      proof (intro conjI impI)
        assume "q = Some OK"
        then have T: "reported (fl w2 dev) (fd_d ?w1)" "achieved e k (fl ?w1 dev) (fd_d ?w1) ?w1 w2"
          using works_trial(2) [OF w2(1)] e by auto
        show "achieved e k (fl w' dev) (fd_d w') w w'"
          using achieved_later [OF T(2) l1(2)] by (simp add: e ac rq(2))
        show "block < nr_blocks ! fd_d w'" using False by (simp add: e rq)
        show "reported (fl w' dev) (fd_d w')" using T(1) by (simp add: e rq)
      qed (use loops_more [OF l2, of "Suc n"] e in simp)
    next
      case F: False
      then have n: "f_tries e k dev block n (Some q2) w2 = Some (q, w')" using w2(2) by simp
      obtain us where us: "fd_log w2 = fd_log w @ us" using l2 by (auto simp: loops_def)
      from F have "Some q2 \<noteq> Some OK" by simp
      from Suc.IH [OF n this] show ?thesis using loops_trans [OF l2, of n w'] achieved_later [OF _ us] by auto
    qed
  qed
qed simp

text \<open>With a buffer that the chip can reach, and waits that end, the loop ends, and not before the controller has been
  asked.\<close>

lemma tries_return:
  assumes "dma_ok k (fl w dev)" "\<And>n. wait_ends e n"
  shows "f_tries e k dev block n r w \<noteq> None"
  using assms(1)
proof (induction n arbitrary: r w)
  case (Suc n)
  let ?w1 = "next_density dev n w"
  have ok: "dma_ok k (fl ?w1 dev)" using Suc.prems by (simp add: next_density_def set_fl_def dma_ok_def buffer_of_def)
  then obtain q w2 where w2: "f_trial e k dev ?w1 = Some (q, w2)" using trial_returns [OF ok assms(2)] by auto
  have "request_of (fl w2 dev) = request_of (fl ?w1 dev)" using works_trial(1) [OF w2] by (simp add: works_def keeps_def)
  from request_cong(4) [OF this] ok have "dma_ok k (fl w2 dev)" by simp
  then show ?case using Suc.IH ok by (simp add: f_tries_Suc Let_def w2 del: f_tries.simps)
qed simp

lemma tries_skip:
  assumes "f_tries e k dev block (Suc n) None w = Some (None, w')"
  shows "nr_blocks ! fd_d (next_density dev n w) \<le> block \<and> f_tries e k dev block n None (next_density dev n w) = Some (None, w')"
proof -
  have some: "f_tries e k dev block n (Some r) w \<noteq> Some (None, w')" for n r w
    by (induction n arbitrary: r w) (auto simp: bind_eq_Some_conv Let_def split: if_splits)
  show ?thesis
  proof (cases "nr_blocks ! fd_d (next_density dev n w) \<le> block")
    case True
    then show ?thesis using assms by (simp only: f_tries_Suc Let_def if_True)
  next
    case False
    then obtain r w2 where "(if r = OK \<or> r = ERR_WR_PROTECT then Some (Some r, w2) else f_tries e k dev block n (Some r) w2) = Some (None, w')"
      using assms by (auto simp only: f_tries_Suc Let_def if_False bind_eq_Some_conv prod.case split_paired_all)
    then show ?thesis using some [of n r w2] by (simp split: if_splits)
  qed
qed

lemma tries_decide:
  assumes "f_tries e k dev block 21 None w = Some (q, w')" "fd_d w < 4" "block < 2400"
  shows "q \<noteq> None"
proof
  assume "q = None"
  then have none: "f_tries e k dev block 21 None w = Some (None, w')" using assms(1) by simp
  have run: "\<exists>v. f_tries e k dev block (21 - j) None v = Some (None, w') \<and> fd_d v = (fd_d w + j div 5) mod 4
      \<and> (0 < j \<longrightarrow> nr_blocks ! fd_d v \<le> block)" if "j \<le> 20" for j
    using that
  proof (induction j)
    case 0
    then show ?case using none assms(2) by auto
  next
    case (Suc j)
    then obtain v where v: "f_tries e k dev block (21 - j) None v = Some (None, w')" "fd_d v = (fd_d w + j div 5) mod 4" by auto
    have j: "21 - j = Suc (20 - j)" using Suc.prems by simp
    have "(21 - (20 - j)) mod 5 = Suc j mod 5" using Suc.prems by (simp add: Suc_diff_le)
    then have "fd_d (next_density dev (20 - j) v) = (fd_d w + Suc j div 5) mod 4"
      using v(2) by (auto simp: next_density_def set_fl_def div_Suc mod_simps)
    then show ?case using tries_skip [OF v(1) [unfolded j]] Suc.prems by (intro exI [of _ "next_density dev (20 - j) v"]) simp
  qed
  define j where "j = (if fd_d w = 3 then 1 else 5 * (3 - fd_d w))"
  have j: "j \<le> 20" "0 < j" "(fd_d w + j div 5) mod 4 = 3" using assms(2) by (auto simp: j_def)
  from run [OF j(1)] j(2,3) have "nr_blocks ! 3 \<le> block" by auto
  then show False using assms(3) by (simp add: nr_blocks_def)
qed

section \<open>Requests\<close>

lemma place_arith:
  fixes b n :: int
  assumes "n = 9 \<or> n = 15" "0 \<le> b"
  shows "(b div (2 * n) * 2 + b mod (2 * n) div n) * n + (b mod n + 1) - 1 = b" "0 \<le> b mod (2 * n) div n" "b mod (2 * n) div n < 2"
    "1 \<le> b mod n + 1" "b mod n + 1 \<le> n" "0 \<le> b div (2 * n)"
proof -
  let ?q = "b div (2 * n)" and ?r = "b mod (2 * n)"
  have n: "0 < n" using assms(1) by auto
  have "?r mod n = b mod n" by (simp add: mod_mod_cancel)
  then have "(?q * 2 + ?r div n) * n + b mod n = ?q * (2 * n) + (?r div n * n + ?r mod n)" by (simp add: algebra_simps)
  then have "(?q * 2 + ?r div n) * n + b mod n = b" by (simp only: div_mult_mod_eq)
  then show "(?q * 2 + ?r div n) * n + (b mod n + 1) - 1 = b" by simp
  have r: "0 \<le> ?r" "?r < 2 * n" using n by simp_all
  show "0 \<le> ?r div n" using r n by (simp add: pos_imp_zdiv_nonneg_iff)
  have "?r div n * n \<le> ?r" using n by (simp add: minus_mod_eq_div_mult [symmetric])
  then have "?r div n * n < 2 * n" using r(2) by linarith
  then show "?r div n < 2" using n mult_less_cancel_right_pos by blast
  show "1 \<le> b mod n + 1" "b mod n + 1 \<le> n" using n pos_mod_bound [OF n, of b] pos_mod_sign [OF n, of b] by linarith+
  show "0 \<le> ?q" using n assms(2) by (simp add: pos_imp_zdiv_nonneg_iff)
qed

lemma place_right:
  assumes "0 \<le> block" "block < 2400" "d < 4" "g = f_place block d f"
  shows "(fl_cylinder g * 2 + fl_head g) * nr_sectors ! d + fl_sector g - 1 = block" "0 \<le> fl_head g" "fl_head g < 2"
    "1 \<le> fl_sector g" "fl_sector g \<le> nr_sectors ! d" "0 \<le> fl_cylinder g"
proof -
  let ?n = "nr_sectors ! d"
  have n: "?n = 9 \<or> ?n = 15" using assms(3) by (auto simp: nr_sectors_def less_Suc_eq numeral_eq_Suc)
  then have c: "int_of (block div (2 * ?n)) = block div (2 * ?n)" using assms(1,2) by (intro int_of_small) auto
  have g: "fl_cylinder g = block div (2 * ?n)" "fl_head g = block mod (2 * ?n) div ?n" "fl_sector g = block mod ?n + 1"
    unfolding assms(4) f_place_def by (simp_all add: c)
  show "(fl_cylinder g * 2 + fl_head g) * ?n + fl_sector g - 1 = block" "0 \<le> fl_head g" "fl_head g < 2"
    "1 \<le> fl_sector g" "fl_sector g \<le> ?n" "0 \<le> fl_cylinder g"
    unfolding g by (fact place_arith [OF n assms(1)])+
qed

text \<open>The wait of the last \<^verbatim>\<open>clock_mess\<close>: an old timer may end and stop the motors at once.\<close>

lemma last_wait:
  assumes "clock_mess e 180 Stop_motor (w\<lparr>fd_goal := ENABLE_INT\<rparr>) = Some w'"
  obtains us where "fd_log w' = fd_log w @ [F_alarm 180 Stop_motor, F_wait ENABLE_INT (fd_status w)] @ us" "fd_goal w' = ENABLE_INT"
    "us = [] \<and> fd_status w' = fd_status w \<or> us = [F_out DOR ENABLE_INT] \<and> fd_status w' = ENABLE_INT"
    "fl w' = fl w" "fd_d w' = fd_d w"
proof -
  let ?w = "w\<lparr>fd_goal := ENABLE_INT, fd_log := fd_log w @ [F_alarm 180 Stop_motor, F_wait ENABLE_INT (fd_status w)]\<rparr>"
  have w': "w' = ?w \<or> w' = stop_motor ?w" using assms by (auto simp: clock_mess_def f_wait_def Let_def split: if_splits)
  show thesis
  proof (cases "w' = ?w")
    case True
    then show thesis by (intro that [of "[]"]) simp_all
  next
    case False
    then have "w' = ?w\<lparr>fd_log := fd_log ?w @ [F_out DOR ENABLE_INT], fd_status := ENABLE_INT\<rparr>"
      using w' by (auto simp: stop_motor_def f_out_def split: if_splits)
    then show thesis by (intro that [of "[F_out DOR ENABLE_INT]"]) simp_all
  qed
qed

lemma rdwt_cases:
  assumes "f_do_rdwt e k m w = Some (r, w')" "dev = nat (m2_i1 m)"
  obtains (early) "r \<noteq> FD_BLOCK" "fd_log w' = fd_log w" "fd_status w' = fd_status w" "\<And>i. fl_curcyl (fl w' i) = fl_curcyl (fl w i)" "\<And>i. fl_density (fl w' i) = fl_density (fl w i)"
  | (tried) f d w2 q w3 us where "0 \<le> m2_i1 m" "m2_i1 m < 2" "0 \<le> m2_l1 m" "m2_l1 m mod FD_BLOCK = 0" "m2_l1 m div 512 < 2400"
      "m2_i3 m = FD_BLOCK" "d = fl_density (fl w dev)"
      "f = (f_place (m2_l1 m div 512) d ((fl w dev)\<lparr>fl_drive := m2_i1 m, fl_opcode := m_type m\<rparr>))\<lparr>fl_count := m2_i3 m, fl_address := m2_p1 m, fl_procnr := m2_i2 m\<rparr>"
      "w2 = w\<lparr>fl := (fl w)(dev := f), fd_d := d\<rparr>" "f_tries e k dev (m2_l1 m div 512) 21 None w2 = Some (Some q, w3)"
      "r = (if q = OK then FD_BLOCK else EIO)" "fl w' = fl w3" "fd_d w' = fd_d w3" "fd_goal w' = ENABLE_INT"
      "fd_log w' = fd_log w3 @ [F_alarm 180 Stop_motor, F_wait ENABLE_INT (fd_status w3)] @ us"
      "us = [] \<and> fd_status w' = fd_status w3 \<or> us = [F_out DOR ENABLE_INT] \<and> fd_status w' = ENABLE_INT"
proof -
  define d where "d = fl_density (fl w dev)"
  define f where "f = (f_place (m2_l1 m div 512) d ((fl w dev)\<lparr>fl_drive := m2_i1 m, fl_opcode := m_type m\<rparr>))\<lparr>fl_count := m2_i3 m, fl_address := m2_p1 m, fl_procnr := m2_i2 m\<rparr>"
  define w2 where "w2 = w\<lparr>fl := (fl w)(dev := f), fd_d := d\<rparr>"
  have w2': "set_fl dev (\<lambda>f. (f_place (m2_l1 m div 512) d f)\<lparr>fl_count := m2_i3 m, fl_address := m2_p1 m, fl_procnr := m2_i2 m\<rparr>)
      ((set_fl dev (\<lambda>f. f\<lparr>fl_drive := m2_i1 m, fl_opcode := m_type m\<rparr>) w)\<lparr>fd_d := d\<rparr>) = w2"
    by (simp add: w2_def f_def set_fl_def)
  note a = assms(1) [unfolded f_do_rdwt_def Let_def assms(2) [symmetric] d_def [symmetric] w2']
  show thesis
  proof (cases "0 \<le> m2_i1 m \<and> m2_i1 m < 2 \<and> 0 \<le> m2_l1 m \<and> m2_l1 m mod FD_BLOCK = 0 \<and> m2_l1 m div 512 < 2400 \<and> m2_i3 m = FD_BLOCK")
    case False
    have "f_place b d g = g\<lparr>fl_cylinder := fl_cylinder (f_place b d g), fl_sector := fl_sector (f_place b d g), fl_head := fl_head (f_place b d g)\<rparr>" for b g
      by (simp add: f_place_def)
    then have "fl_curcyl f = fl_curcyl (fl w dev)" "fl_density f = fl_density (fl w dev)"
      by (simp_all add: f_def f_place_def)
    then show thesis using early a False by (auto simp: set_fl_def w2_def split: if_splits)
  next
    case True
    then have c: "(m2_i1 m < 0 \<or> m2_i1 m \<ge> 2) = False" "(m2_l1 m mod FD_BLOCK \<noteq> 0) = False" "(m2_l1 m div 512 \<ge> 2400) = False"
      "(m2_l1 m div 512 < 0) = False" "(m2_i3 m \<noteq> FD_BLOCK) = False"
      using pos_imp_zdiv_neg_iff [of 512 "m2_l1 m"] by auto
    obtain q w3 w4 where t: "f_tries e k dev (m2_l1 m div 512) 21 None w2 = Some (Some q, w3)"
      "r = (if q = OK then FD_BLOCK else EIO)" "clock_mess e 180 Stop_motor (w3\<lparr>fd_goal := ENABLE_INT\<rparr>) = Some w4"
      "w' = (if q = OK \<and> fl_cylinder (fl w4 dev) > 0 then w4\<lparr>fd_initialized := True\<rparr> else w4)"
      using a [unfolded c if_False] by (auto simp only: bind_eq_Some_conv Let_def prod.case split_paired_all option.inject prod.inject)
    obtain us where us: "fd_log w4 = fd_log w3 @ [F_alarm 180 Stop_motor, F_wait ENABLE_INT (fd_status w3)] @ us" "fd_goal w4 = ENABLE_INT"
      "us = [] \<and> fd_status w4 = fd_status w3 \<or> us = [F_out DOR ENABLE_INT] \<and> fd_status w4 = ENABLE_INT"
      "fl w4 = fl w3" "fd_d w4 = fd_d w3" using last_wait [OF t(3)] by blast
    show thesis
      by (rule tried [of d f w2 q w3 us]) (use True t(1,2) us in \<open>auto simp: t(4) d_def f_def w2_def simp del: f_tries.simps\<close>)
  qed
qed

lemma and_byte: "x AND 0xFF = x mod 256" for x :: int
  using take_bit_eq_mask [of 8 x] by (simp add: take_bit_eq_mod mask_eq_exp_minus_1)

lemma two_sectors_apart:
  assumes "int_of (s * 512) = 1024"
  shows "s mod 128 = 2"
proof -
  have "sint (word_of_int (s * 512) :: u16) = sint (1024 :: u16)" using assms by (simp add: int_of_def)
  then have "(word_of_int (s * 512) :: u16) = 1024" by (simp only: signed_word_eqI)
  then have "uint (word_of_int (s * 512) :: u16) = 1024" by simp
  then have "(s * 512) mod (128 * 512) = 2 * 512" using uint_word_of_int [of "s * 512", where 'a = 16] by (simp only:) simp
  then show ?thesis using mult_mod_left [of s 128 512] by simp
qed

lemma bank_of_word: "uint (drop_bit 16 (word_of_int x :: u32) AND 0xFF) = x div 65536 mod 256"
proof -
  have "uint (drop_bit 16 (word_of_int x :: u32) AND 0xFF) = drop_bit 16 (take_bit 32 x) AND 0xFF"
    by (simp add: uint_and unsigned_drop_bit_eq unsigned_of_int)
  also have "\<dots> = take_bit 8 (take_bit 16 (drop_bit 16 x))"
    using take_bit_eq_mask [of 8 "drop_bit 16 (take_bit 32 x)"] drop_bit_take_bit [of 16 32 x] by (simp add: mask_eq_exp_minus_1)
  also have "\<dots> = take_bit 8 (drop_bit 16 x)" by simp
  finally show ?thesis by (simp add: take_bit_eq_mod drop_bit_eq_div)
qed




text \<open>The driver never notes where the arm is: \<^verbatim>\<open>fl_curcyl\<close> only ever becomes -1, and each request makes a seek.\<close>

lemma arm_position_is_never_learned:
  assumes "f_do_rdwt e k m w = Some (r, w')"
  shows "fl_curcyl (fl w' i) \<in> {fl_curcyl (fl w i), - 1}"
proof (rule rdwt_cases [OF assms refl])
  fix f d w2 q w3
  assume f: "f = (f_place (m2_l1 m div 512) d ((fl w (nat (m2_i1 m)))\<lparr>fl_drive := m2_i1 m, fl_opcode := m_type m\<rparr>))\<lparr>fl_count := m2_i3 m, fl_address := m2_p1 m, fl_procnr := m2_i2 m\<rparr>"
    and t: "w2 = w\<lparr>fl := (fl w)(nat (m2_i1 m) := f), fd_d := d\<rparr>" "f_tries e k (nat (m2_i1 m)) (m2_l1 m div 512) 21 None w2 = Some (Some q, w3)"
    "fl w' = fl w3"
  have "fl_curcyl (fl w2 i) = fl_curcyl (fl w i)" by (simp add: t(1) f f_place_def)
  moreover have "fl_curcyl (fl w3 i) \<in> {fl_curcyl (fl w2 i), - 1}" using tries_ok [OF t(2)] by (auto simp: loops_def)
  ultimately show ?thesis using t(3) by simp
qed simp

text \<open>Sector 40 is the place that the driver counts out for a 360K diskette, which on a 1.2M diskette is sector 64.\<close>

lemma place_depends_on_density:
  "g = f_place 40 0 f \<Longrightarrow> (fl_cylinder g * 2 + fl_head g) * nr_sectors ! 3 + fl_sector g - 1 = 64"
  by (simp add: f_place_def int_of_small nr_sectors_def)

section \<open>A concrete request\<close>

text \<open>The first block of a diskette in drive 0, whose motor is running, over cylinder 0; the controller
  listens at once and reports two sectors.\<close>

definition demo_fl :: fd where
  "demo_fl = \<lparr>fl = (\<lambda>n. \<lparr>fl_opcode = 0, fl_curcyl = 0, fl_procnr = 0, fl_drive = 0, fl_cylinder = 0, fl_sector = 0, fl_head = 0,
      fl_count = 0, fl_address = 0, fl_results = (\<lambda>i. 0), fl_calibrated = True, fl_density = 0\<rparr>),
    fd_status = 0x1C, fd_goal = 0x1C, fd_prev = 0x10, fd_need_reset = False, fd_initialized = False, fd_d = 0, fd_ins = 0, fd_log = []\<rparr>"

definition demo_fdc :: floppy_env where
  "demo_fdc = \<lparr>fdc_in = (\<lambda>n. if n < 9 then 0x80 else if n = 20 then 3 else if n > 20 then 0x80 else if odd n then 0xD0 else 0), pc_at = True,
     wait_ends = (\<lambda>n. True), timer_ends = (\<lambda>n. n > 20)\<rparr>"

definition demo_read :: kmess where
  "demo_read = blank_mess\<lparr>m_type := 3, m2_i1 := 0, m2_i2 := 1, m2_i3 := 1024, m2_l1 := 0, m2_p1 := 16\<rparr>"

lemma demo_umap: "umap (procs (demo_kernel 0) 1) SEG_D 16 1024 = 0x20010"
  by (simp add: umap_def last_click_def Let_def word_le_nat_alt)

lemma fdc_out_step:
  "\<not> fd_need_reset w \<Longrightarrow> uint (fdc_in e (fd_ins w)) AND 0xC0 = 0x80
   \<Longrightarrow> fdc_out e v w = w\<lparr>fd_ins := fd_ins w + 1, fd_log := fd_log w @ [F_out FDC_DATA v]\<rparr>"
  using out_tries.simps(2) [of e 99 v w] by (simp add: fdc_out_def f_in_def f_out_def)

lemma take_results_step:
  assumes "uint (fdc_in e (fd_ins w)) AND 0x80 \<noteq> 0"
  shows "take_results e dev i (Suc n) w =
     (let st = uint (fdc_in e (fd_ins w)); w1 = w\<lparr>fd_ins := fd_ins w + 1\<rparr>
      in if st AND 0x10 = 0 then (OK, w1) else if st AND 0x40 = 0 then (ERR_STATUS, w1)
         else take_results e dev (i + 1) n (set_fl dev (\<lambda>f. f\<lparr>fl_results := (fl_results f)(i := sint (fdc_in e (fd_ins w + 1)))\<rparr>)
                (w1\<lparr>fd_ins := fd_ins w + 2\<rparr>)))"
proof -
  have "master_tries e 100 w = (Some (uint (fdc_in e (fd_ins w))), w\<lparr>fd_ins := fd_ins w + 1\<rparr>)"
    using assms master_tries.simps(2) [of e 99 w] by (simp add: f_in_def)
  then show ?thesis by (simp add: f_in_def Let_def)
qed

lemma eight: "take_results e dev i 8 w = take_results e dev i (Suc (Suc (Suc (Suc (Suc (Suc (Suc (Suc 0)))))))) w"
  by (simp only: eval_nat_numeral BitM.simps)

lemma demo_reads: "\<exists>w'. f_do_rdwt demo_fdc (demo_kernel 0) demo_read demo_fl = Some (FD_BLOCK, w')"
proof -
  define f where "f = (f_place 0 0 ((fl demo_fl 0)\<lparr>fl_drive := 0, fl_opcode := 3\<rparr>))\<lparr>fl_count := 1024, fl_address := 16, fl_procnr := 1\<rparr>"
  define w where "w = demo_fl\<lparr>fl := (fl demo_fl)(0 := f), fd_d := 0\<rparr>"
  have f: "fl_drive f = 0" "fl_opcode f = 3" "fl_cylinder f = 0" "fl_sector f = 1" "fl_head f = 0" "fl_count f = 1024" "fl_address f = 16"
    "fl_procnr f = 1" "fl_curcyl f = 0" "fl_calibrated f"
    by (simp_all add: f_def f_place_def demo_fl_def nr_sectors_def int_of_small)
  have w: "fl w 0 = f" "fd_d w = 0" "fd_status w = 0x1C" "fd_prev w = 0x10" "\<not> fd_need_reset w" "fd_ins w = 0"
    by (simp_all add: w_def demo_fl_def)
  obtain w1 where w1: "dma_setup (demo_kernel 0) 0 w = Some w1" "w1 = w\<lparr>fd_log := fd_log w1\<rparr>"
    using demo_umap by (auto simp: dma_setup_def Let_def w f simp del: One_nat_def)
  have w1s: "fl w1 = fl w" "fd_d w1 = 0" "fd_status w1 = 0x1C" "fd_prev w1 = 0x10" "\<not> fd_need_reset w1" "fd_ins w1 = 0"
    by (subst w1(2), simp add: w)+
  obtain w2 where w2: "start_motor demo_fdc 0 w1 = Some w2" "w2 = (f_out DOR 0x1C (w1\<lparr>fd_goal := 0x1C\<rparr>))\<lparr>fd_status := 0x1C, fd_prev := 0x10\<rparr>"
    by (simp add: start_motor_def Let_def f_out_def w1s w f)
  have w2s: "fl w2 0 = f" "fd_d w2 = 0" "fd_status w2 = 0x1C" "\<not> fd_need_reset w2" "fd_ins w2 = 0"
    by (simp_all add: w2(2) f_out_def w1s w f)
  have s: "arm_seek demo_fdc 0 w2 = Some (OK, w2)" by (simp add: arm_seek_def w2s f)
  define v where "v = fold (fdc_out demo_fdc) (transfer_bytes f 0) (f_out FDC_RATE 2 w2)"
  have v: "\<not> fd_need_reset v" "fd_ins v = 9" "fl v = fl w2"
    by (simp_all add: v_def transfer_bytes_def fdc_out_step demo_fdc_def f_out_def w2s)
  obtain v' where v': "f_wait demo_fdc v = Some v'" "\<not> fd_need_reset v'" "fd_ins v' = 9" "fl v' = fl w2"
    using v by (auto simp: f_wait_def demo_fdc_def Let_def stop_motor_def f_out_def)
  have vi: "fd_ins v' = 9" "fl v' 0 = f" using v' w2s by simp_all
  have res: "fst (fdc_results demo_fdc 0 v') = OK"
    "fl_results (fl (snd (fdc_results demo_fdc 0 v')) 0) i = (if i < 5 then 0 else if i = 5 then 3 else fl_results f i)" for i
    by (auto simp: fdc_results_def eight take_results_step demo_fdc_def set_fl_def vi Let_def simp del: take_results.simps(2))
  have b: "transfer_bytes f 0 = transfer_bytes (fl w2 0) (fd_d w2)" "pc_at demo_fdc" by (simp_all add: w2s demo_fdc_def)
  have "\<exists>w3. f_transfer demo_fdc 0 w2 = Some (OK, w3)"
    using v(1) res by (simp add: f_transfer_def Let_def w2s f fl_rate_def b(2) v_def [symmetric] v'(1) case_prod_beta int_of_small nr_sectors_def)
  then obtain w3 where t: "f_trial demo_fdc (demo_kernel 0) 0 w = Some (OK, w3)"
    by (auto simp: f_trial_def w w1(1) w2(1) s)
  have n: "next_density 0 20 w = w" by (simp add: next_density_def)
  have tr: "f_tries demo_fdc (demo_kernel 0) 0 0 21 None w = Some (Some OK, w3)"
    using f_tries_Suc [of demo_fdc "demo_kernel 0" 0 0 20 None w] by (simp add: n t w nr_blocks_def del: f_tries.simps)
  have W: "set_fl 0 (\<lambda>f. (f_place 0 0 f)\<lparr>fl_count := 1024, fl_address := 16, fl_procnr := 1\<rparr>)
      ((set_fl 0 (\<lambda>f. f\<lparr>fl_drive := 0, fl_opcode := 3\<rparr>) demo_fl)\<lparr>fd_d := 0\<rparr>) = w"
    by (simp add: w_def f_def set_fl_def)
  obtain w4 where w4: "clock_mess demo_fdc 180 Stop_motor (w3\<lparr>fd_goal := ENABLE_INT\<rparr>) = Some w4"
    using f_wait_returns [of demo_fdc] by (auto simp: clock_mess_def demo_fdc_def)
  have d: "fl_density (fl demo_fl 0) = 0" by (simp add: demo_fl_def)
  show ?thesis unfolding f_do_rdwt_def Let_def by (simp add: demo_read_def d W tr w4 del: f_tries.simps)
qed




end
