(* ===== verification/MMAlloc.thy ===== *)
theory MMAlloc
  imports Prelude
begin

text \<open>
  \<^verbatim>\<open>mm/alloc.c\<close>: the hole table.  \<open>hole\<close> is the array, and \<open>hole_head\<close> and \<open>free_slots\<close>
  the heads of the two lists threaded through it by \<open>h_next\<close>; a \<^verbatim>\<open>struct hole *\<close> is an
  index into the array.  \<open>phys_clicks\<close> is a 16-bit unsigned, so the arithmetic is that of
  \<open>16 word\<close>.
\<close>

abbreviation (input) "NR_HOLES \<equiv> (128::nat)"
abbreviation (input) "NO_MEM \<equiv> (0::u16)"

record hole_slot =
  h_base :: u16
  h_len :: u16
  h_next :: "nat option"

record hole_table =
  hole :: "nat \<Rightarrow> hole_slot"
  hole_head :: "nat option"
  free_slots :: "nat option"

definition set_hole :: "nat \<Rightarrow> (hole_slot \<Rightarrow> hole_slot) \<Rightarrow> hole_table \<Rightarrow> hole_table" where
  "set_hole i f t = t\<lparr>hole := (hole t)(i := f (hole t i))\<rparr>"

lemma set_hole_sel [simp]:
  "hole (set_hole i f t) = (hole t)(i := f (hole t i))"
  "hole_head (set_hole i f t) = hole_head t" "free_slots (set_hole i f t) = free_slots t"
  by (simp_all add: set_hole_def)

abbreviation hnext :: "hole_table \<Rightarrow> nat \<Rightarrow> nat option" where
  "hnext t \<equiv> (\<lambda>i. h_next (hole t i))"

lemma hnext_upd [simp]:
  "(\<lambda>i. h_next (if i = a then x else g i)) = (\<lambda>i. h_next (g i))(a := h_next x)"
  by auto

section \<open>Operations\<close>

definition del_slot :: "nat option \<Rightarrow> nat \<Rightarrow> hole_table \<Rightarrow> hole_table" where
  "del_slot prev_ptr hp t =
     (let t1 = (if hole_head t = Some hp then t\<lparr>hole_head := hnext t hp\<rparr>
                else case prev_ptr of
                       Some pv \<Rightarrow> set_hole pv (\<lambda>h. h\<lparr>h_next := hnext t hp\<rparr>) t
                     | None \<Rightarrow> t)
      in (set_hole hp (\<lambda>h. h\<lparr>h_next := free_slots t1\<rparr>) t1)\<lparr>free_slots := Some hp\<rparr>)"

text \<open>The search loop of \<^verbatim>\<open>alloc_mem\<close>: the first hole that is big enough, and the one before.\<close>

partial_function (option) find_hole ::
  "(nat \<Rightarrow> hole_slot) \<Rightarrow> u16 \<Rightarrow> nat option \<Rightarrow> nat \<Rightarrow> (nat option \<times> nat) option option" where
  "find_hole hs clicks prev_ptr hp =
     (if h_len (hs hp) \<ge> clicks then Some (Some (prev_ptr, hp))
      else case h_next (hs hp) of
             None \<Rightarrow> Some None
           | Some nx \<Rightarrow> find_hole hs clicks (Some hp) nx)"

definition alloc_mem :: "u16 \<Rightarrow> hole_table \<Rightarrow> (u16 \<times> hole_table) option" where
  "alloc_mem clicks t = do {
     found \<leftarrow> (case hole_head t of
                 None \<Rightarrow> Some None
               | Some hp \<Rightarrow> find_hole (hole t) clicks None hp);
     (case found of
        None \<Rightarrow> Some (NO_MEM, t)
      | Some (prev_ptr, hp) \<Rightarrow>
          (let old_base = h_base (hole t hp);
               t1 = set_hole hp (\<lambda>h. h\<lparr>h_base := h_base h + clicks, h_len := h_len h - clicks\<rparr>) t
           in if h_len (hole t1 hp) \<noteq> 0 then Some (old_base, t1)
              else Some (old_base, del_slot prev_ptr hp t1)))
   }"

text \<open>
  \<^verbatim>\<open>merge\<close>: \<open>merge_next\<close> is the test and absorption that the body performs twice; it
  returns the slot the second round starts from.
\<close>

definition merge_next :: "nat \<Rightarrow> hole_table \<Rightarrow> nat option \<times> hole_table" where
  "merge_next hp t =
     (case hnext t hp of
        None \<Rightarrow> (None, t)
      | Some next_ptr \<Rightarrow>
          if h_base (hole t hp) + h_len (hole t hp) = h_base (hole t next_ptr)
          then (Some hp, del_slot (Some hp) next_ptr
                  (set_hole hp (\<lambda>h. h\<lparr>h_len := h_len h + h_len (hole t next_ptr)\<rparr>) t))
          else (Some next_ptr, t))"

definition merge :: "nat \<Rightarrow> hole_table \<Rightarrow> hole_table" where
  "merge hp t =
     (case merge_next hp t of
        (None, t1) \<Rightarrow> t1
      | (Some hp1, t1) \<Rightarrow> snd (merge_next hp1 t1))"

text \<open>The search of \<^verbatim>\<open>free_mem\<close>: the last hole whose base is below \<open>base\<close>.\<close>

partial_function (option) find_place ::
  "(nat \<Rightarrow> hole_slot) \<Rightarrow> u16 \<Rightarrow> nat \<Rightarrow> nat option" where
  "find_place hs base prev_ptr =
     (case h_next (hs prev_ptr) of
        None \<Rightarrow> Some prev_ptr
      | Some hp \<Rightarrow> if base > h_base (hs hp) then find_place hs base hp else Some prev_ptr)"

definition free_mem :: "u16 \<Rightarrow> u16 \<Rightarrow> hole_table \<Rightarrow> hole_table option" where
  "free_mem base clicks t =
     (case free_slots t of
        None \<Rightarrow> None \<comment> \<open>panic: hole table full\<close>
      | Some new_ptr \<Rightarrow>
          (let t1 = (set_hole new_ptr (\<lambda>h. h\<lparr>h_base := base, h_len := clicks\<rparr>) t)
                      \<lparr>free_slots := hnext t new_ptr\<rparr>
           in case hole_head t of
                None \<Rightarrow>
                  Some (merge new_ptr ((set_hole new_ptr (\<lambda>h. h\<lparr>h_next := None\<rparr>) t1)
                                         \<lparr>hole_head := Some new_ptr\<rparr>))
              | Some hp \<Rightarrow>
                  if base \<le> h_base (hole t1 hp)
                  then Some (merge new_ptr ((set_hole new_ptr (\<lambda>h. h\<lparr>h_next := Some hp\<rparr>) t1)
                                              \<lparr>hole_head := Some new_ptr\<rparr>))
                  else do {
                    prev_ptr \<leftarrow> find_place (hole t1) base hp;
                    let t2 = set_hole new_ptr (\<lambda>h. h\<lparr>h_next := hnext t1 prev_ptr\<rparr>) t1;
                    Some (merge prev_ptr (set_hole prev_ptr (\<lambda>h. h\<lparr>h_next := Some new_ptr\<rparr>) t2))
                  }))"

partial_function (option) max_loop :: "(nat \<Rightarrow> hole_slot) \<Rightarrow> u16 \<Rightarrow> nat \<Rightarrow> u16 option" where
  "max_loop hs mx hp =
     (let mx' = (if h_len (hs hp) > mx then h_len (hs hp) else mx)
      in case h_next (hs hp) of None \<Rightarrow> Some mx' | Some nx \<Rightarrow> max_loop hs mx' nx)"

definition max_hole :: "hole_table \<Rightarrow> u16 option" where
  "max_hole t = (case hole_head t of None \<Rightarrow> Some 0 | Some hp \<Rightarrow> max_loop (hole t) 0 hp)"

definition mem_init :: "u16 \<Rightarrow> hole_table \<Rightarrow> hole_table" where
  "mem_init clicks t =
     t\<lparr>hole := (\<lambda>i. if i < NR_HOLES
          then (hole t i)\<lparr>h_next := (if i = 0 \<or> i = NR_HOLES - 1 then None else Some (i + 1)),
                          h_base := (if i = 0 then 0 else h_base (hole t i)),
                          h_len := (if i = 0 then clicks else h_len (hole t i))\<rparr>
          else hole t i),
       hole_head := Some 0, free_slots := Some 1\<rparr>"

section \<open>Representation\<close>

text \<open>
  \<open>hrep t xs fs\<close>: the hole list of \<open>t\<close> visits the slots \<open>xs\<close>, the free-slot list the
  slots \<open>fs\<close>, and together they are the whole table.  \<open>regions\<close> are the holes as
  intervals of natural numbers, and \<open>gaps\<close> says that they are nonempty, ascending, inside
  the address space and never adjacent.
\<close>

definition hrep :: "hole_table \<Rightarrow> nat list \<Rightarrow> nat list \<Rightarrow> bool" where
  "hrep t xs fs \<longleftrightarrow> chain (hnext t) (hole_head t) xs \<and> chain (hnext t) (free_slots t) fs
     \<and> set xs \<inter> set fs = {} \<and> set xs \<union> set fs = {0..<NR_HOLES}"

type_synonym region = "nat \<times> nat"

definition region_of :: "hole_slot \<Rightarrow> region" where
  "region_of h = (unat (h_base h), unat (h_len h))"

definition regions :: "hole_table \<Rightarrow> nat list \<Rightarrow> region list" where
  "regions t xs = map (\<lambda>i. region_of (hole t i)) xs"

definition gaps :: "region list \<Rightarrow> bool" where
  "gaps rs \<longleftrightarrow> sorted_wrt (\<lambda>r s. fst r + snd r < fst s) rs
     \<and> (\<forall>r\<in>set rs. 0 < snd r \<and> fst r + snd r < 65536)"

definition clicks_of :: "region list \<Rightarrow> nat set" where
  "clicks_of rs = (\<Union>r\<in>set rs. {fst r..<fst r + snd r})"

definition hole_inv :: "hole_table \<Rightarrow> bool" where
  "hole_inv t \<longleftrightarrow> (\<exists>xs fs. hrep t xs fs \<and> gaps (regions t xs))"

text \<open>The clicks that belong to no process: what the holes cover.\<close>

definition free_clicks :: "hole_table \<Rightarrow> nat set" where
  "free_clicks t = {c. \<exists>xs fs. hrep t xs fs \<and> c \<in> clicks_of (regions t xs)}"

lemma free_clicks_eq:
  assumes "hrep t xs fs"
  shows "free_clicks t = clicks_of (regions t xs)"
proof -
  have "ys = xs" if "hrep t ys gs" for ys gs
    using assms that chain_unique unfolding hrep_def by blast
  then show ?thesis unfolding free_clicks_def using assms by blast
qed

section \<open>Lists of regions\<close>

lemma gaps_append: "gaps (us @ vs) \<longleftrightarrow> gaps us \<and> gaps vs \<and>
    (\<forall>u\<in>set us. \<forall>v\<in>set vs. fst u + snd u < fst v)"
  by (auto simp: gaps_def sorted_wrt_append)

lemma gaps_Cons: "gaps (r # vs) \<longleftrightarrow> 0 < snd r \<and> fst r + snd r < 65536 \<and> gaps vs \<and>
    (\<forall>v\<in>set vs. fst r + snd r < fst v)"
  by (auto simp: gaps_def)

lemma gaps_Nil [simp]: "gaps []"
  by (simp add: gaps_def)

lemma clicks_simps [simp]:
  "clicks_of [] = {}" "clicks_of (r # rs) = {fst r..<fst r + snd r} \<union> clicks_of rs"
  "clicks_of (rs @ ss) = clicks_of rs \<union> clicks_of ss"
  by (auto simp: clicks_of_def)

definition touch :: "region \<Rightarrow> region \<Rightarrow> bool" where
  "touch r s \<longleftrightarrow> fst r + snd r = fst s"

definition joined :: "region \<Rightarrow> region \<Rightarrow> region" where
  "joined r s = (fst r, snd r + snd s)"

fun a_next :: "region list \<Rightarrow> region list" where
  "a_next (r # s # rs) = (if touch r s then joined r s # rs else r # s # rs)"
| "a_next rs = rs"

fun a_merge :: "region list \<Rightarrow> region list" where
  "a_merge (r # s # rs) = (if touch r s then a_next (joined r s # rs) else r # a_next (s # rs))"
| "a_merge rs = rs"

lemma a_next_gaps: "gaps (r # vs) \<Longrightarrow> a_next (r # vs) = r # vs"
  by (cases vs) (auto simp: gaps_Cons touch_def)

lemma clicks_joined:
  "touch r s \<Longrightarrow> {fst (joined r s)..<fst (joined r s) + snd (joined r s)}
     = {fst r..<fst r + snd r} \<union> {fst s..<fst s + snd s}"
  by (auto simp: touch_def joined_def)

lemma clicks_a_next: "clicks_of (a_next rs) = clicks_of rs"
  by (induction rs rule: a_next.induct) (auto simp: clicks_joined)

lemma clicks_a_merge: "clicks_of (a_merge rs) = clicks_of rs"
  by (induction rs rule: a_merge.induct) (auto simp: clicks_joined clicks_a_next)

text \<open>Merging restores strict gaps around a freed region \<open>n\<close>.\<close>

lemma gaps_a_next:
  assumes "gaps vs" "0 < snd n" "fst n + snd n < 65536" "\<forall>v\<in>set vs. fst n + snd n \<le> fst v"
  shows "gaps (a_next (n # vs))"
proof (cases vs)
  case (Cons v ws)
  then show ?thesis using assms by (auto simp: gaps_Cons touch_def joined_def order.order_iff_strict)
qed (use assms in \<open>simp add: gaps_Cons\<close>)

lemma a_next_lower: "\<forall>v\<in>set (n # vs). a < fst v \<Longrightarrow> \<forall>v\<in>set (a_next (n # vs)). a < fst v"
  by (cases vs) (auto simp: joined_def)

lemma gaps_merge_front:
  assumes "gaps vs" "0 < snd n" "fst n + snd n < 65536" "\<forall>v\<in>set vs. fst n + snd n \<le> fst v"
  shows "gaps (a_merge (n # vs))"
proof (cases vs)
  case (Cons v ws)
  show ?thesis
  proof (cases "touch n v")
    case True
    have "gaps (joined n v # ws)"
      using assms Cons True by (auto simp: gaps_Cons touch_def joined_def)
    then show ?thesis using Cons True a_next_gaps by simp
  next
    case False
    have "gaps (n # v # ws)" using assms Cons False by (auto simp: gaps_Cons touch_def)
    moreover have "a_next (v # ws) = v # ws" using assms(1) Cons a_next_gaps by simp
    ultimately show ?thesis using Cons False by simp
  qed
qed (use assms in \<open>simp add: gaps_Cons\<close>)

lemma gaps_merge_mid:
  assumes "gaps (us @ [u])" "gaps vs" "0 < snd n" "fst n + snd n < 65536"
    and "fst u + snd u \<le> fst n" "\<forall>v\<in>set vs. fst n + snd n \<le> fst v"
  shows "gaps (us @ a_merge (u # n # vs))"
proof -
  have up: "\<forall>x\<in>set us. fst x + snd x < fst u" "gaps us" "0 < snd u"
    using assms(1) by (auto simp: gaps_append gaps_Cons)
  define rs where "rs = a_merge (u # n # vs)"
  have g: "gaps rs \<and> (\<forall>v\<in>set rs. fst u \<le> fst v)"
  proof (cases "touch u n")
    case True
    have "gaps (a_next (joined u n # vs))"
      by (rule gaps_a_next) (use assms True up in \<open>auto simp: touch_def joined_def\<close>)
    moreover have "\<forall>v\<in>set (a_next (joined u n # vs)). fst u \<le> fst v"
      using assms(5,6) by (cases vs) (auto simp: joined_def)
    ultimately show ?thesis using True by (simp add: rs_def)
  next
    case False
    have "gaps (a_next (n # vs))" by (rule gaps_a_next) (use assms in auto)
    moreover have lt: "fst u + snd u < fst n" using False assms(5) by (auto simp: touch_def)
    moreover have "\<forall>v\<in>set (a_next (n # vs)). fst u + snd u < fst v"
      by (rule a_next_lower) (use lt assms(6) in auto)
    ultimately show ?thesis using False up assms(4) by (auto simp: rs_def gaps_Cons)
  qed
  have "\<forall>x\<in>set us. \<forall>v\<in>set rs. fst x + snd x < fst v" using g up(1) by fastforce
  then show ?thesis using g up(2) by (simp add: gaps_append rs_def)
qed

end
