(* ===== verification/MMTypes.thy ===== *)
theory MMTypes
  imports KTypes MMAlloc
begin

text \<open>
  Data of the memory manager: the process table of \<^verbatim>\<open>mm/mproc.h\<close> and the globals of
  \<^verbatim>\<open>mm/glo.h\<close> as one state record \<open>mm\<close>, with the hole table of \<^verbatim>\<open>mm/alloc.c\<close> in it.

  What the manager asks of the kernel and the file system leaves the program: every such
  call is appended to the list \<open>calls\<close> of the state, and its answer comes from the
  environment \<open>mm_env\<close>, a parameter of the model whose fields are functions of the calls
  made so far.  A panic is \<open>None\<close>.

  \<^verbatim>\<open>uid\<close> is a 16-bit and \<^verbatim>\<open>gid\<close> an 8-bit integer; pids, slots and results are \<open>int\<close>.
\<close>

section \<open>Constants\<close>

abbreviation (input) "INIT_PROC_NR \<equiv> (2::int)"
abbreviation (input) "ABS \<equiv> (-999::int)"
abbreviation (input) "IN_USE \<equiv> (1::u16)"
abbreviation (input) "WAITING \<equiv> (2::u16)"
abbreviation (input) "HANGING \<equiv> (4::u16)"
abbreviation (input) "PAUSED \<equiv> (8::u16)"
abbreviation (input) "ALARM_ON \<equiv> (16::u16)"
abbreviation (input) "SEPARATE \<equiv> (32::u16)"

abbreviation (input) "EPERM \<equiv> (-1::int)"
abbreviation (input) "ENOENT \<equiv> (-2::int)"
abbreviation (input) "ESRCH \<equiv> (-3::int)"
abbreviation (input) "EINTR \<equiv> (-4::int)"
abbreviation (input) "ENOEXEC \<equiv> (-8::int)"
abbreviation (input) "ECHILD \<equiv> (-10::int)"
abbreviation (input) "EAGAIN \<equiv> (-11::int)"
abbreviation (input) "ENOMEM \<equiv> (-12::int)"
abbreviation (input) "EACCES \<equiv> (-13::int)"
abbreviation (input) "EINVAL \<equiv> (-22::int)"
abbreviation (input) "E_BAD_CALL \<equiv> (-102::int)"

abbreviation (input) "C_EXIT \<equiv> (1::int)"
abbreviation (input) "C_FORK \<equiv> (2::int)"
abbreviation (input) "C_CHDIR \<equiv> (12::int)"
abbreviation (input) "C_GETPID \<equiv> (20::int)"
abbreviation (input) "C_SETUID \<equiv> (23::int)"
abbreviation (input) "C_GETUID \<equiv> (24::int)"
abbreviation (input) "C_SETGID \<equiv> (46::int)"
abbreviation (input) "C_GETGID \<equiv> (47::int)"
abbreviation (input) "C_EXEC \<equiv> (59::int)"
abbreviation (input) "C_UNPAUSE \<equiv> (65::int)"
abbreviation (input) "NCALLS \<equiv> (69::int)"

abbreviation (input) "R_BIT \<equiv> (4::u16)"
abbreviation (input) "W_BIT \<equiv> (2::u16)"
abbreviation (input) "X_BIT \<equiv> (1::u16)"

section \<open>Records\<close>

record mproc =
  mp_seg :: "nat \<Rightarrow> mem_map"
  mp_exitstatus :: u8
  mp_sigstatus :: u8
  mp_pid :: int
  mp_parent :: int
  mp_procgrp :: int
  mp_realuid :: u16
  mp_effuid :: u16
  mp_realgid :: u8
  mp_effgid :: u8
  mp_ignore :: u16
  mp_catch :: u16
  mp_func :: u16
  mp_flags :: u16

text \<open>
  The fields of the incoming message that the handlers read.  \<^verbatim>\<open>m1_i1\<close> and \<^verbatim>\<open>m6_i1\<close> are the
  same word of the union, so one field stands for both.
\<close>

record mm_msg =
  m1_i1 :: int
  m1_i2 :: int
  m1_i3 :: int
  m1_p1 :: u16
  m1_p2 :: u16
  m6_f1 :: u16

text \<open>Calls that leave the memory manager.\<close>

datatype mm_call_out =
    Send int int int u16                     \<comment> \<open>reply message: process, result, res2, pointer\<close>
  | SysXit int int
  | SysGetsp int
  | SysSig int int u16
  | SysFork int int int
  | SysNewmap int "nat \<Rightarrow> mem_map"
  | SysExec int u16
  | SysCopy int nat int int nat int int      \<comment> \<open>source process, space, address; destination; bytes\<close>
  | PutStack "nat \<Rightarrow> u16" int int int        \<comment> \<open>SYS_COPY of a buffer of MM: words, process, address, bytes\<close>
  | SetAlarm int int int                     \<comment> \<open>words \<open>m6_i1\<close>, \<open>m2_i2\<close> and long \<open>m6_l1\<close> of \<open>m_sig\<close>\<close>
  | TellFs int int int int
  | OpenF "u8 list"
  | FstatF int
  | ReadF int int int                        \<comment> \<open>descriptor, buffer address, bytes\<close>
  | CreatF "u8 list"
  | WriteLong int int
  | WriteBuf int int
  | CloseF int

text \<open>The fields of \<^verbatim>\<open>struct stat\<close> that are read.\<close>

record file_stat =
  st_mode :: u16
  st_uid :: u16
  st_gid :: u16

record mm_env =
  e_buf :: int                             \<comment> \<open>address of the buffer of \<^verbatim>\<open>dump_core\<close> and \<^verbatim>\<open>new_mem\<close>\<close>
  e_send :: "mm_call_out list \<Rightarrow> int"
  e_getsp :: "mm_call_out list \<Rightarrow> u16"
  e_copy :: "mm_call_out list \<Rightarrow> int"
  e_alarm :: "mm_call_out list \<Rightarrow> int \<times> int"
  e_name :: "mm_call_out list \<Rightarrow> u8 list"
  e_stack :: "mm_call_out list \<Rightarrow> nat \<Rightarrow> u16"
  e_open :: "mm_call_out list \<Rightarrow> int"
  e_fstat :: "mm_call_out list \<Rightarrow> file_stat option"
  e_read :: "mm_call_out list \<Rightarrow> int"
  e_header :: "mm_call_out list \<Rightarrow> nat \<Rightarrow> u32"
  e_creat :: "mm_call_out list \<Rightarrow> int"
  e_write :: "mm_call_out list \<Rightarrow> int"

record mm =
  mproc :: "int \<Rightarrow> mproc"
  mp :: int
  dont_reply :: bool
  procs_in_use :: int
  mm_in :: mm_msg
  who :: int
  mm_call :: int
  result2 :: int
  res_ptr :: u16
  next_pid :: int
  tot_mem :: u16
  m_sig_i1 :: int
  holes :: hole_table
  calls :: "mm_call_out list"

definition emit :: "mm_call_out \<Rightarrow> mm \<Rightarrow> mm" where
  "emit c s = s\<lparr>calls := calls s @ [c]\<rparr>"

definition set_mp :: "int \<Rightarrow> (mproc \<Rightarrow> mproc) \<Rightarrow> mm \<Rightarrow> mm" where
  "set_mp i f s = s\<lparr>mproc := (mproc s)(i := f (mproc s i))\<rparr>"

lemma emit_sel [simp]:
  "mproc (emit c s) = mproc s" "mp (emit c s) = mp s" "dont_reply (emit c s) = dont_reply s"
  "procs_in_use (emit c s) = procs_in_use s" "mm_in (emit c s) = mm_in s" "who (emit c s) = who s"
  "mm_call (emit c s) = mm_call s" "result2 (emit c s) = result2 s" "res_ptr (emit c s) = res_ptr s"
  "next_pid (emit c s) = next_pid s" "m_sig_i1 (emit c s) = m_sig_i1 s" "tot_mem (emit c s) = tot_mem s" "holes (emit c s) = holes s"
  "calls (emit c s) = calls s @ [c]"
  by (simp_all add: emit_def)

lemma set_mp_sel [simp]:
  "mproc (set_mp i f s) = (mproc s)(i := f (mproc s i))" "mp (set_mp i f s) = mp s"
  "dont_reply (set_mp i f s) = dont_reply s" "procs_in_use (set_mp i f s) = procs_in_use s"
  "mm_in (set_mp i f s) = mm_in s" "who (set_mp i f s) = who s" "mm_call (set_mp i f s) = mm_call s"
  "result2 (set_mp i f s) = result2 s" "res_ptr (set_mp i f s) = res_ptr s"
  "next_pid (set_mp i f s) = next_pid s" "m_sig_i1 (set_mp i f s) = m_sig_i1 s" "tot_mem (set_mp i f s) = tot_mem s"
  "holes (set_mp i f s) = holes s" "calls (set_mp i f s) = calls s"
  by (simp_all add: set_mp_def)

definition add_flag :: "u16 \<Rightarrow> mproc \<Rightarrow> mproc" where
  "add_flag f p = p\<lparr>mp_flags := set_flag (mp_flags p) f\<rparr>"

definition del_flag :: "u16 \<Rightarrow> mproc \<Rightarrow> mproc" where
  "del_flag f p = p\<lparr>mp_flags := clr_flag (mp_flags p) f\<rparr>"

abbreviation mflag :: "mm \<Rightarrow> int \<Rightarrow> u16 \<Rightarrow> bool" where
  "mflag s i f \<equiv> has_flag (mp_flags (mproc s i)) f"

definition set_seg :: "nat \<Rightarrow> (mem_map \<Rightarrow> mem_map) \<Rightarrow> mproc \<Rightarrow> mproc" where
  "set_seg i f p = p\<lparr>mp_seg := (mp_seg p)(i := f (mp_seg p i))\<rparr>"

lemma mproc_upd_sel [simp]:
  "mp_seg (set_seg i f p) = (mp_seg p)(i := f (mp_seg p i))"
  "mp_flags (set_seg i f p) = mp_flags p" "mp_pid (set_seg i f p) = mp_pid p"
  "mp_parent (set_seg i f p) = mp_parent p"
  "mp_seg (add_flag g p) = mp_seg p" "mp_flags (add_flag g p) = set_flag (mp_flags p) g"
  "mp_pid (add_flag g p) = mp_pid p" "mp_parent (add_flag g p) = mp_parent p"
  "mp_seg (del_flag g p) = mp_seg p" "mp_flags (del_flag g p) = clr_flag (mp_flags p) g"
  "mp_pid (del_flag g p) = mp_pid p" "mp_parent (del_flag g p) = mp_parent p"
  by (simp_all add: set_seg_def add_flag_def del_flag_def)

text \<open>\<open>SEG_T\<close>, \<open>SEG_D\<close> and \<open>SEG_S\<close> of a process.\<close>

abbreviation tseg :: "mproc \<Rightarrow> mem_map" where "tseg p \<equiv> mp_seg p SEG_T"
abbreviation dseg :: "mproc \<Rightarrow> mem_map" where "dseg p \<equiv> mp_seg p SEG_D"
abbreviation sseg :: "mproc \<Rightarrow> mem_map" where "sseg p \<equiv> mp_seg p SEG_S"

section \<open>Replies, alarms and copies\<close>

text \<open>\<^verbatim>\<open>reply\<close> of \<^verbatim>\<open>mm/main.c\<close>.\<close>

definition reply :: "mm_env \<Rightarrow> int \<Rightarrow> int \<Rightarrow> int \<Rightarrow> u16 \<Rightarrow> mm \<Rightarrow> mm option" where
  "reply e proc_nr res res2 respt s =
     (if \<not> mflag s proc_nr IN_USE \<or> mflag s proc_nr HANGING then Some s
      else let s1 = emit (Send proc_nr res res2 respt) s
           in if e_send e (calls s1) \<noteq> OK then None else Some s1)"

text \<open>
  \<^verbatim>\<open>set_alarm\<close> of \<^verbatim>\<open>mm/signal.c\<close>.  It writes \<^verbatim>\<open>PROC_NR\<close>, which is the word \<open>m2_i2\<close> of \<^verbatim>\<open>m_sig\<close>, and
  \<^verbatim>\<open>DELTA_TICKS\<close>, the long \<open>m6_l1\<close>; the first word of \<^verbatim>\<open>m_sig\<close>, \<open>m_sig_i1\<close> here, keeps what
  the last reply of the clock task left in it.  \<open>HZ * sec\<close> is an \<open>unsigned\<close> product, so it is
  taken in 16 bits.  The answer \<open>e_alarm\<close> is the first word and the long of the reply.
\<close>

definition set_alarm :: "mm_env \<Rightarrow> int \<Rightarrow> u16 \<Rightarrow> mm \<Rightarrow> (int \<times> mm) option" where
  "set_alarm e proc_nr sec s =
     (let s1 = set_mp proc_nr (if sec \<noteq> 0 then add_flag ALARM_ON else del_flag ALARM_ON) s;
          s2 = emit (SetAlarm (m_sig_i1 s1) proc_nr (uint (60 * sec))) s1;
          (i1, remaining) = e_alarm e (calls s2)
      in if e_send e (calls s2) \<noteq> OK then None else Some (remaining, s2\<lparr>m_sig_i1 := i1\<rparr>))"

text \<open>\<^verbatim>\<open>mem_copy\<close> of \<^verbatim>\<open>mm/utility.c\<close>.\<close>

definition mem_copy :: "mm_env \<Rightarrow> int \<Rightarrow> nat \<Rightarrow> int \<Rightarrow> int \<Rightarrow> nat \<Rightarrow> int \<Rightarrow> int \<Rightarrow> mm \<Rightarrow> int \<times> mm" where
  "mem_copy e src_proc src_seg src_vir dst_proc dst_seg dst_vir bytes s =
     (if bytes = 0 then (OK, s)
      else let s1 = emit (SysCopy src_proc src_seg src_vir dst_proc dst_seg dst_vir bytes) s
           in (e_copy e (calls s1), s1))"

end
