(* ===== verification/MMBreak.thy ===== *)
theory MMBreak
  imports MMTypes
begin

text \<open>
  \<^verbatim>\<open>mm/break.c\<close>: the sizes of the data and stack segments of a process.  \<open>vir_clicks\<close> are
  16-bit unsigned integers and every sum, difference and shift on them wraps.
\<close>

abbreviation (input) "PAGE_SIZE \<equiv> (16::u16)"
abbreviation (input) "MAX_PAGES \<equiv> (4096::int)"

definition pages :: "u16 \<Rightarrow> int" where
  "pages c = uint ((push_bit CLICK_SHIFT c + PAGE_SIZE - 1) div PAGE_SIZE)"

definition size_ok :: "u16 \<Rightarrow> u16 \<Rightarrow> u16 \<Rightarrow> u16 \<Rightarrow> u16 \<Rightarrow> u16 \<Rightarrow> int" where
  "size_ok file_type tc dc sc dvir s_vir =
     (let pt = pages tc; pd = pages dc; ps = pages sc
      in if (if file_type = SEPARATE then pt > MAX_PAGES \<or> pd + ps > MAX_PAGES
             else pt + pd + ps > MAX_PAGES) then ENOMEM
         else if dvir + dc > s_vir then ENOMEM
         else OK)"

text \<open>
  \<^verbatim>\<open>adjust\<close>: \<open>delta\<close> and \<open>base_of_stack\<close> are longs, so they do not wrap.  \<open>grow_stack\<close> is the
  update of the stack segment, \<open>shrink_stack\<close> its reversal on the failure path.
\<close>

definition grow_stack :: "int \<Rightarrow> mem_map \<Rightarrow> mem_map" where
  "grow_stack delta m = m\<lparr>mem_vir := mem_vir m - word_of_int delta,
     mem_phys := mem_phys m - word_of_int delta, mem_len := mem_len m + word_of_int delta\<rparr>"

definition shrink_stack :: "int \<Rightarrow> mem_map \<Rightarrow> mem_map" where
  "shrink_stack delta m = m\<lparr>mem_vir := mem_vir m + word_of_int delta,
     mem_phys := mem_phys m + word_of_int delta, mem_len := mem_len m - word_of_int delta\<rparr>"

definition adjust :: "int \<Rightarrow> u16 \<Rightarrow> u16 \<Rightarrow> mm \<Rightarrow> int \<times> mm" where
  "adjust rmp data_clicks sp s =
     (let mem_dp = dseg (mproc s rmp); mem_sp = sseg (mproc s rmp);
          base_of_stack = uint (mem_vir mem_sp) + uint (mem_len mem_sp);
          sp_click = drop_bit CLICK_SHIFT sp;
          delta = uint (mem_vir mem_sp) - uint sp_click;
          lower = (if delta > 0 then sp_click else mem_vir mem_sp);
          gap_base = mem_vir mem_dp + data_clicks
      in if uint sp_click \<ge> base_of_stack then (ENOMEM, s)
         else if lower < gap_base then (ENOMEM, s)
         else
           (let old_clicks = mem_len mem_dp;
                data_changed = (data_clicks \<noteq> mem_len mem_dp); stack_changed = (delta > 0);
                s1 = (if data_changed
                      then set_mp rmp (set_seg SEG_D (\<lambda>m. m\<lparr>mem_len := data_clicks\<rparr>)) s else s);
                s2 = (if stack_changed then set_mp rmp (set_seg SEG_S (grow_stack delta)) s1 else s1);
                p = mproc s2 rmp;
                ft = (if has_flag (mp_flags p) SEPARATE then SEPARATE else 0);
                r = size_ok ft (mem_len (tseg p)) (mem_len (dseg p)) (mem_len (sseg p))
                      (mem_vir (dseg p)) (mem_vir (sseg p))
            in if r = OK
               then (OK, if data_changed \<or> stack_changed then emit (SysNewmap rmp (mp_seg p)) s2 else s2)
               else
                 (let s3 = (if data_changed
                            then set_mp rmp (set_seg SEG_D (\<lambda>m. m\<lparr>mem_len := old_clicks\<rparr>)) s2
                            else s2);
                      s4 = (if stack_changed
                            then set_mp rmp (set_seg SEG_S (shrink_stack delta)) s3 else s3)
                  in (ENOMEM, s4))))"

text \<open>\<^verbatim>\<open>sys_getsp\<close> of \<^verbatim>\<open>libsys/syslib.c\<close>: the kernel's answer is the stack pointer.\<close>

definition sys_getsp :: "mm_env \<Rightarrow> int \<Rightarrow> mm \<Rightarrow> u16 \<times> mm" where
  "sys_getsp e proc_nr s = (let s1 = emit (SysGetsp proc_nr) s in (e_getsp e (calls s1), s1))"

definition do_brk :: "mm_env \<Rightarrow> mm \<Rightarrow> int \<times> mm" where
  "do_brk e s =
     (let v = m1_p1 (mm_in s);
          new_clicks = word_of_int ((uint v + 16 - 1) div 2 ^ CLICK_SHIFT);
          (new_sp, s1) = sys_getsp e (who s) s;
          (r, s2) = adjust (mp s) new_clicks new_sp s1
      in (r, s2\<lparr>res_ptr := (if r = OK then v else - 1)\<rparr>))"

section \<open>Lemmas\<close>

text \<open>The stack segment as an interval: its upper end and its place in memory.\<close>

definition top_of :: "mem_map \<Rightarrow> u16" where
  "top_of m = mem_vir m + mem_len m"

lemma shrink_grow [simp]: "shrink_stack d (grow_stack d m) = m"
  by (simp add: shrink_stack_def grow_stack_def)

lemma pages_eq: "pages c = uint c mod 4096"
proof -
  have 1: "uint (push_bit 4 c) = (uint c * 16) mod 65536"
    by (simp add: push_bit_eq_mult uint_word_arith_bintrs take_bit_eq_mod)
  have 2: "uint c * 16 mod 65536 = (uint c mod 4096) * 16"
    using mult_mod_right [of 16 "uint c" 4096] by (simp add: mult.commute)
  have "uint (push_bit 4 c + 15) = uint (push_bit 4 c) + 15"
    using 1 2 by (subst uint_plus_if') auto
  moreover have "uint (PAGE_SIZE) = 16" by simp
  ultimately show ?thesis
    unfolding pages_def uint_div using 1 2 by (simp add: add.commute)
qed

lemma set_mp_restore:
  assumes "f (g (mproc s i)) = mproc s i"
  shows "set_mp i f (set_mp i g s) = s"
  using assms by (simp add: set_mp_def)

lemma seg_restore_D:
  "set_seg SEG_D (\<lambda>m. m\<lparr>mem_len := mem_len (dseg p)\<rparr>) (set_seg SEG_D (\<lambda>m. m\<lparr>mem_len := c\<rparr>) p) = p"
  by (simp add: set_seg_def)

lemma seg_restore_S: "set_seg SEG_S (shrink_stack d) (set_seg SEG_S (grow_stack d) p) = p"
  by (simp add: set_seg_def)

lemma seg_swap:
  assumes "i \<noteq> j"
  shows "set_seg i f (set_seg j g p) = set_seg j g (set_seg i f p)"
  using assms by (simp add: set_seg_def fun_upd_twist)

lemma set_mp_twice: "set_mp i f (set_mp i g s) = set_mp i (\<lambda>p. f (g p)) s"
  by (simp add: set_mp_def)

lemma set_mp_id:
  assumes "f (mproc s i) = mproc s i"
  shows "set_mp i f s = s"
  using assms by (simp add: set_mp_def)

text \<open>\<open>adjusted\<close>: the process after a successful \<^verbatim>\<open>adjust\<close>.\<close>

definition adjusted :: "u16 \<Rightarrow> int \<Rightarrow> mproc \<Rightarrow> mproc" where
  "adjusted d delta p =
     (let p1 = set_seg SEG_D (\<lambda>m. m\<lparr>mem_len := d\<rparr>) p
      in if delta > 0 then set_seg SEG_S (grow_stack delta) p1 else p1)"

lemma set_len_id: "set_seg SEG_D (\<lambda>m. m\<lparr>mem_len := mem_len (dseg p)\<rparr>) p = p"
  by (simp add: set_seg_def)

lemma adjust_updates:
  fixes d :: u16 and delta :: int and s :: mm and i :: int
  defines "s1 \<equiv> (if d \<noteq> mem_len (dseg (mproc s i))
                 then set_mp i (set_seg SEG_D (\<lambda>m. m\<lparr>mem_len := d\<rparr>)) s else s)"
  shows "(if delta > 0 then set_mp i (set_seg SEG_S (grow_stack delta)) s1 else s1)
    = set_mp i (adjusted d delta) s"
  by (auto simp: s1_def adjusted_def Let_def set_len_id set_mp_def simp del: One_nat_def)

lemma adjust_undo:
  fixes d :: u16 and delta :: int and s :: mm and i :: int
  defines "s2 \<equiv> set_mp i (adjusted d delta) s"
  defines "s3 \<equiv> (if d \<noteq> mem_len (dseg (mproc s i))
     then set_mp i (set_seg SEG_D (\<lambda>m. m\<lparr>mem_len := mem_len (dseg (mproc s i))\<rparr>)) s2 else s2)"
  shows "(if delta > 0 then set_mp i (set_seg SEG_S (shrink_stack delta)) s3 else s3) = s"
proof -
  have "set_seg SEG_D (\<lambda>m. m\<lparr>mem_len := mem_len (dseg p)\<rparr>) (adjusted d delta p)
      = (if delta > 0 then set_seg SEG_S (grow_stack delta) p else p)" for p
    by (simp add: adjusted_def seg_swap [of SEG_D SEG_S] seg_restore_D del: One_nat_def)
  moreover have "adjusted d delta (mproc s i)
      = (if delta > 0 then set_seg SEG_S (grow_stack delta) (mproc s i) else mproc s i)"
    if "d = mem_len (dseg (mproc s i))"
    using that by (simp add: adjusted_def set_len_id del: One_nat_def)
  ultimately show ?thesis
    by (auto simp: s3_def s2_def set_mp_def seg_restore_S simp del: One_nat_def)
qed

lemma adjust_cases:
  fixes s :: mm and i :: int and d sp :: u16
  defines "p \<equiv> mproc s i" and "c \<equiv> drop_bit 4 sp"
  defines "delta \<equiv> uint (mem_vir (sseg p)) - uint c"
  defines "q \<equiv> adjusted d delta p"
  shows "adjust i d sp s = (ENOMEM, s)
    \<or> (uint c < uint (mem_vir (sseg p)) + uint (mem_len (sseg p))
       \<and> mem_vir (dseg p) + d \<le> (if delta > 0 then c else mem_vir (sseg p))
       \<and> size_ok (if has_flag (mp_flags p) SEPARATE then SEPARATE else 0) (mem_len (tseg q))
           (mem_len (dseg q)) (mem_len (sseg q)) (mem_vir (dseg q)) (mem_vir (sseg q)) = OK
       \<and> adjust i d sp s = (OK, if d \<noteq> mem_len (dseg p) \<or> delta > 0
            then emit (SysNewmap i (mp_seg q)) (set_mp i (adjusted d delta) s)
            else set_mp i (adjusted d delta) s))"
proof -
  have f: "mp_flags (adjusted d delta p) = mp_flags p" by (simp add: adjusted_def Let_def)
  show ?thesis
    unfolding adjust_def Let_def p_def [symmetric] c_def [symmetric] delta_def [symmetric]
      adjust_updates [where d = d and s = s and i = i and delta = delta, folded p_def]
      adjust_undo [where d = d and s = s and i = i and delta = delta, folded p_def]
    using f by (auto simp: q_def p_def not_less not_le)
qed

end
