(* ===== verification/MMForkExit.thy ===== *)
theory MMForkExit
  imports MMBreak
begin

text \<open>
  \<^verbatim>\<open>mm/forkexit.c\<close>: FORK, EXIT and WAIT.  The loops over the process table are folds over
  the slot numbers \<open>slots\<close>.
\<close>

abbreviation slots :: "int list" where "slots \<equiv> [0..NR_PROCS - 1]"

section \<open>FORK\<close>

text \<open>The memory a process occupies, as \<^verbatim>\<open>do_fork\<close> computes it (with the gap).\<close>

definition fork_clicks :: "mproc \<Rightarrow> u16" where
  "fork_clicks p =
     mem_len (tseg p) + mem_len (dseg p) + mem_len (sseg p) + (mem_vir (sseg p) - mem_len (dseg p))"

text \<open>
  The search for a pid: \<open>pid_taken\<close> is the inner loop, \<open>pick_pid\<close> the outer one, which
  also stores each candidate in the child's slot.
\<close>

definition succ_pid :: "int \<Rightarrow> int" where
  "succ_pid n = (if n < 30000 then n + 1 else INIT_PROC_NR + 1)"

definition pid_taken :: "(int \<Rightarrow> mproc) \<Rightarrow> int \<Rightarrow> bool" where
  "pid_taken tab n = list_ex (\<lambda>i. mp_pid (tab i) = n) slots"

partial_function (option) pick_pid :: "int \<Rightarrow> (int \<Rightarrow> mproc) \<Rightarrow> int \<Rightarrow> (int \<times> (int \<Rightarrow> mproc)) option" where
  "pick_pid rmc tab np =
     (let np' = succ_pid np; tab' = tab(rmc := (tab rmc)\<lparr>mp_pid := np'\<rparr>)
      in if pid_taken tab np' then pick_pid rmc tab' np' else Some (np', tab'))"

definition fork_slot :: "int \<Rightarrow> u16 \<Rightarrow> mproc \<Rightarrow> mproc" where
  "fork_slot parent child_base p =
     (let dphys = child_base + mem_len (tseg p)
      in p\<lparr>mp_parent := parent,
           mp_seg := (mp_seg p)(SEG_T := (tseg p)\<lparr>mem_phys := child_base\<rparr>,
                                SEG_D := (dseg p)\<lparr>mem_phys := dphys\<rparr>,
                                SEG_S := (sseg p)\<lparr>mem_phys :=
                                   dphys + (mem_phys (sseg p) - mem_phys (dseg p))\<rparr>),
           mp_exitstatus := 0, mp_sigstatus := 0\<rparr>)"

definition do_fork :: "mm_env \<Rightarrow> mm \<Rightarrow> (int \<times> mm) option" where
  "do_fork e s =
     (let rmp = mproc s (mp s)
      in if procs_in_use s = NR_PROCS then Some (EAGAIN, s)
         else if procs_in_use s \<ge> NR_PROCS - 2 \<and> mp_effuid rmp \<noteq> 0 then Some (EAGAIN, s)
         else do {
           let prog_clicks = fork_clicks rmp;
           let prog_bytes = uint prog_clicks * 16;
           (child_base, h) \<leftarrow> alloc_mem prog_clicks (holes s);
           (if child_base = NO_MEM then Some (EAGAIN, s\<lparr>holes := h\<rparr>)
            else do {
              let (i, s1) = mem_copy e ABS 0 (uint (mem_phys (tseg rmp)) * 16)
                              ABS 0 (uint child_base * 16) prog_bytes (s\<lparr>holes := h\<rparr>);
              (if i < 0 then None \<comment> \<open>panic: do_fork can't copy\<close>
               else do {
                 child_nr \<leftarrow> List.find (\<lambda>j. \<not> mflag s1 j IN_USE) slots;
                 let s2 = s1\<lparr>procs_in_use := procs_in_use s1 + 1\<rparr>;
                 let s3 = set_mp child_nr (\<lambda>_. fork_slot (who s2) child_base (mproc s2 (mp s2))) s2;
                 (np, tab) \<leftarrow> pick_pid child_nr (mproc s3) (next_pid s3);
                 let s4 = s3\<lparr>next_pid := np, mproc := tab\<rparr>;
                 let s5 = emit (SysFork (who s4) child_nr (mp_pid (mproc s4 child_nr))) s4;
                 let s6 = emit (TellFs C_FORK (who s5) child_nr 0) s5;
                 let s7 = emit (SysNewmap child_nr (mp_seg (mproc s6 child_nr))) s6;
                 s8 \<leftarrow> reply e child_nr 0 0 0 s7;
                 Some (next_pid s8, s8)
               })
            })
         })"

section \<open>EXIT and WAIT\<close>

text \<open>The memory a process gives back, as \<^verbatim>\<open>cleanup\<close> and \<^verbatim>\<open>new_mem\<close> compute it.\<close>

definition image_clicks :: "mproc \<Rightarrow> u16" where
  "image_clicks p =
     (let c = mem_vir (sseg p) + mem_len (sseg p)
      in if has_flag (mp_flags p) SEPARATE then c + mem_len (tseg p) else c)"

text \<open>The word that WAIT returns: the signal number below, the exit status above.\<close>

definition wait_status :: "mproc \<Rightarrow> u16" where
  "wait_status p = (ucast (mp_sigstatus p) AND 255) OR push_bit 8 (ucast (mp_exitstatus p))"

text \<open>
  \<^verbatim>\<open>cleanup\<close> calls itself when INIT is waiting and inherits a hanging child.  The recursion
  is bounded by fuel; \<open>cleanup_fuel\<close> below shows that two levels are all there ever are.
  \<open>disinherit\<close> is the loop at its end.
\<close>

definition release_slot :: "int \<Rightarrow> int \<Rightarrow> hole_table \<Rightarrow> mm \<Rightarrow> mm" where
  "release_slot child parent h s =
     (let s1 = set_mp child (del_flag PAUSED) (set_mp child (del_flag HANGING) (s\<lparr>holes := h\<rparr>));
          s2 = set_mp child (del_flag IN_USE) (set_mp parent (del_flag WAITING) s1)
      in s2\<lparr>procs_in_use := procs_in_use s2 - 1\<rparr>)"

function cleanup :: "nat \<Rightarrow> mm_env \<Rightarrow> int \<Rightarrow> mm \<Rightarrow> mm option"
  and disinherit :: "nat \<Rightarrow> mm_env \<Rightarrow> int \<Rightarrow> bool \<Rightarrow> int list \<Rightarrow> mm \<Rightarrow> mm option" where
  "cleanup 0 e child s = None"
| "cleanup (Suc n) e child s = do {
     let parent = mp_parent (mproc s child);
     s1 \<leftarrow> reply e parent (mp_pid (mproc s child)) (sint (wait_status (mproc s child))) 0 s;
     h \<leftarrow> free_mem (mem_phys (tseg (mproc s1 child))) (image_clicks (mproc s1 child)) (holes s1);
     let s2 = release_slot child parent h s1;
     disinherit n e child (mflag s2 INIT_PROC_NR WAITING) slots s2
   }"
| "disinherit n e child_nr init_waiting [] s = Some s"
| "disinherit n e child_nr init_waiting (rp # rps) s =
     (if mp_parent (mproc s rp) = child_nr
      then (let s1 = set_mp rp (\<lambda>p. p\<lparr>mp_parent := INIT_PROC_NR\<rparr>) s
            in if init_waiting \<and> mflag s1 rp HANGING
               then do { s2 \<leftarrow> cleanup n e rp s1; disinherit n e child_nr False rps s2 }
               else disinherit n e child_nr init_waiting rps s1)
      else disinherit n e child_nr init_waiting rps s)"
  by pat_completeness auto

termination
  by (relation "measures
       [\<lambda>x. case x of Inl (n, _) \<Rightarrow> n | Inr (n, _) \<Rightarrow> n,
        \<lambda>x. case x of Inl _ \<Rightarrow> 0 | Inr (_, _, _, _, l, _) \<Rightarrow> Suc (length l)]") auto

abbreviation (input) "cleanup_depth \<equiv> (2::nat)"

definition mm_exit :: "mm_env \<Rightarrow> int \<Rightarrow> u8 \<Rightarrow> mm \<Rightarrow> mm option" where
  "mm_exit e rmp exit_status s = do {
     let s1 = set_mp rmp (\<lambda>p. p\<lparr>mp_exitstatus := exit_status\<rparr>) s;
     s2 \<leftarrow> (if mflag s1 (mp_parent (mproc s1 rmp)) WAITING then cleanup cleanup_depth e rmp s1
            else Some (set_mp rmp (add_flag HANGING) s1));
     s3 \<leftarrow> (if mflag s2 rmp ALARM_ON then do { (_, s3) \<leftarrow> set_alarm e rmp 0 s2; Some s3 } else Some s2);
     Some (emit (TellFs C_EXIT rmp 0 0) (emit (SysXit (mp_parent (mproc s3 rmp)) rmp) s3))
   }"

definition do_mm_exit :: "mm_env \<Rightarrow> mm \<Rightarrow> (int \<times> mm) option" where
  "do_mm_exit e s = do {
     s1 \<leftarrow> mm_exit e (mp s) (word_of_int (m1_i1 (mm_in s))) s;
     Some (OK, s1\<lparr>dont_reply := True\<rparr>)
   }"

text \<open>
  \<^verbatim>\<open>do_wait\<close>: the children of the caller in slot order; the loop stops at the first that
  has exited.
\<close>

definition do_wait :: "mm_env \<Rightarrow> mm \<Rightarrow> (int \<times> mm) option" where
  "do_wait e s =
     (let children = filter (\<lambda>i. mflag s i IN_USE \<and> mp_parent (mproc s i) = who s) slots
      in case List.find (\<lambda>i. mflag s i HANGING) children of
           Some rp \<Rightarrow> do { s1 \<leftarrow> cleanup cleanup_depth e rp s; Some (OK, s1\<lparr>dont_reply := True\<rparr>) }
         | None \<Rightarrow>
             if children \<noteq> [] then Some (OK, (set_mp (mp s) (add_flag WAITING) s)\<lparr>dont_reply := True\<rparr>)
             else Some (ECHILD, s))"

section \<open>The recursion of cleanup\<close>

lemma disinherit_quiet:
  "disinherit n e c False l s = disinherit m e c False l s"
  by (induction l arbitrary: s) (simp_all add: Let_def)

lemma reply_state:
  assumes "reply e p r r2 q s = Some s'"
  shows "s' = s \<or> s' = emit (Send p r r2 q) s"
  using assms by (auto simp: reply_def Let_def split: if_splits)

lemma reply_sel:
  assumes "reply e p r r2 q s = Some s'"
  shows "mproc s' = mproc s" "holes s' = holes s" "mp s' = mp s" "procs_in_use s' = procs_in_use s"
    "who s' = who s" "next_pid s' = next_pid s" "mm_in s' = mm_in s" "mm_call s' = mm_call s"
    "tot_mem s' = tot_mem s"
  using reply_state [OF assms] by auto

text \<open>
  A process whose parent is INIT is cleaned up without recursion: the reply to INIT clears
  its WAITING bit before the loop looks at it.
\<close>

lemma cleanup_init_child:
  assumes p: "mp_parent (mproc s c) = INIT_PROC_NR"
  shows "cleanup (Suc n) e c s = cleanup (Suc m) e c s"
proof -
  have "\<not> has_flag (clr_flag f WAITING) WAITING" for f by (simp add: flag_simps)
  moreover have "\<not> has_flag (clr_flag (clr_flag f WAITING) IN_USE) WAITING" for f
    by (simp add: flag_simps)
  ultimately show ?thesis
    using p by (auto simp: Let_def release_slot_def disinherit_quiet [of n _ _ _ _ m] split: Option.bind_splits)
qed

lemma cleanup_fuel_step:
  "disinherit (Suc n) e c w l s = disinherit (Suc m) e c w l s"
proof (induction l arbitrary: w s)
  case (Cons rp l)
  have "cleanup (Suc n) e rp (set_mp rp (\<lambda>p. p\<lparr>mp_parent := INIT_PROC_NR\<rparr>) s)
      = cleanup (Suc m) e rp (set_mp rp (\<lambda>p. p\<lparr>mp_parent := INIT_PROC_NR\<rparr>) s)"
    by (rule cleanup_init_child) simp
  moreover have "disinherit (Suc n) e c w' l = disinherit (Suc m) e c w' l" for w'
    by (rule ext) (rule Cons)
  ultimately show ?case by (simp add: Let_def del: cleanup.simps)
qed simp

lemma cleanup_fuel: "cleanup (Suc (Suc n)) e c s = cleanup cleanup_depth e c s"
  by (simp add: numeral_2_eq_2 cleanup_fuel_step [of n _ _ _ _ _ 0] Let_def)

end
