(* ===== verification/MMSignal.thy ===== *)
theory MMSignal
  imports MMForkExit
begin

text \<open>
  \<^verbatim>\<open>mm/signal.c\<close>, \<^verbatim>\<open>stack_fault\<close> of \<^verbatim>\<open>mm/break.c\<close> and \<^verbatim>\<open>allowed\<close> of \<^verbatim>\<open>mm/utility.c\<close>.
\<close>

abbreviation (input) "NR_SIGS \<equiv> (16::int)"
abbreviation (input) "SIGINT \<equiv> (2::int)"
abbreviation (input) "SIGQUIT \<equiv> (3::int)"
abbreviation (input) "SIGKILL \<equiv> (9::int)"
abbreviation (input) "SIGSEGV \<equiv> (11::int)"
abbreviation (input) "SIGALRM \<equiv> (14::int)"
abbreviation (input) "SIG_DFL \<equiv> (0::u16)"
abbreviation (input) "SIG_IGN \<equiv> (1::u16)"
abbreviation (input) "CORE_BITS \<equiv> (0x0EFC::u16)"
abbreviation (input) "DUMPED \<equiv> (128::u8)"
abbreviation (input) "I_TYPE \<equiv> (0xF000::u16)"
abbreviation (input) "I_REGULAR \<equiv> (0x8000::u16)"

definition sig_mask :: "int \<Rightarrow> u16" where
  "sig_mask sig = push_bit (nat (sig - 1)) 1"

section \<open>SIGNAL, ALARM and PAUSE\<close>

definition do_signal :: "mm \<Rightarrow> int \<times> mm" where
  "do_signal s =
     (let sig = m1_i1 (mm_in s); func = m6_f1 (mm_in s)
      in if sig < 1 \<or> sig > NR_SIGS then (EINVAL, s)
         else if sig = SIGKILL then (OK, s)
         else
           (let msk = sig_mask sig
            in (OK, set_mp (mp s) (\<lambda>p.
                 if func = SIG_IGN
                 then p\<lparr>mp_ignore := set_flag (mp_ignore p) msk, mp_catch := clr_flag (mp_catch p) msk\<rparr>
                 else if func = SIG_DFL
                 then p\<lparr>mp_ignore := clr_flag (mp_ignore p) msk, mp_catch := clr_flag (mp_catch p) msk\<rparr>
                 else p\<lparr>mp_ignore := clr_flag (mp_ignore p) msk, mp_catch := set_flag (mp_catch p) msk,
                        mp_func := func\<rparr>) s)))"

definition do_alarm :: "mm_env \<Rightarrow> mm \<Rightarrow> (int \<times> mm) option" where
  "do_alarm e s = set_alarm e (who s) (word_of_int (m1_i1 (mm_in s))) s"

definition do_pause :: "mm \<Rightarrow> int \<times> mm" where
  "do_pause s = (OK, (set_mp (mp s) (add_flag PAUSED) s)\<lparr>dont_reply := True\<rparr>)"

definition unpause :: "mm_env \<Rightarrow> int \<Rightarrow> mm \<Rightarrow> mm option" where
  "unpause e pro s =
     (if mflag s pro PAUSED \<and> \<not> mflag s pro HANGING
      then reply e pro EINTR 0 0 (set_mp pro (del_flag PAUSED) s)
      else if mflag s pro WAITING \<and> \<not> mflag s pro HANGING
      then reply e pro EINTR 0 0 (set_mp pro (del_flag WAITING) s)
      else Some (emit (TellFs C_UNPAUSE pro 0 0) s))"

section \<open>Core dumps\<close>

text \<open>
  \<^verbatim>\<open>allowed\<close>: the result is a descriptor or an error code, with the \<^verbatim>\<open>stat\<close> buffer when the
  file could be opened.
\<close>

definition allowed :: "mm_env \<Rightarrow> u8 list \<Rightarrow> u16 \<Rightarrow> mm \<Rightarrow> (int \<times> file_stat option \<times> mm) option" where
  "allowed e name msk s =
     (let s1 = emit (OpenF name) s; fd = e_open e (calls s1)
      in if fd < 0 then Some (fd, None, s1)
         else do {
           let s2 = emit (FstatF fd) s1;
           st \<leftarrow> e_fstat e (calls s2);
           let p = mproc s2 (mp s2);
           (if msk = X_BIT \<and> st_mode st AND I_TYPE \<noteq> I_REGULAR
            then Some (EACCES, Some st, emit (CloseF fd) s2)
            else if mp_effuid p = 0 \<and> msk = X_BIT \<and> has_flag (st_mode st) (64 OR 8 OR 1)
            then Some (fd, Some st, s2)
            else if mp_effuid p = 0 \<and> msk \<noteq> X_BIT then Some (fd, Some st, s2)
            else
              (let shift = (if mp_effuid p = st_uid st then 6 else if sint (mp_effgid p) = sint (st_gid st) then 3 else 0)
               in if has_flag (drop_bit shift (st_mode st)) msk then Some (fd, Some st, s2)
                  else Some (EACCES, Some st, emit (CloseF fd) s2)))
         })"

text \<open>
  The loops of \<^verbatim>\<open>dump_core\<close>: one long per segment length (the shift is done in 16 bits), then
  each segment in pieces of 256 bytes.  The flag is False when a write or copy failed.
\<close>

fun dump_lens :: "mm_env \<Rightarrow> int \<Rightarrow> int \<Rightarrow> nat list \<Rightarrow> mm \<Rightarrow> bool \<times> mm" where
  "dump_lens e fd slot [] s = (True, s)"
| "dump_lens e fd slot (i # is) s =
     (let s1 = emit (WriteLong fd (uint (push_bit CLICK_SHIFT (mem_len (mp_seg (mproc s slot) i))))) s
      in if e_write e (calls s1) < 0 then (False, s1) else dump_lens e fd slot is s1)"

function dump_bytes :: "mm_env \<Rightarrow> int \<Rightarrow> int \<Rightarrow> nat \<Rightarrow> int \<Rightarrow> nat \<Rightarrow> mm \<Rightarrow> bool \<times> mm" where
  "dump_bytes e fd slot i a c s =
     (if c = 0 then (True, s)
      else
        (let ct = min c 256;
             (er1, s1) = mem_copy e slot i a MM_PROC_NR SEG_D (e_buf e) (int ct) s;
             s2 = emit (WriteBuf fd (int ct)) s1
         in if er1 < 0 \<or> e_write e (calls s2) < 0 then (False, s2)
            else dump_bytes e fd slot i (a + int ct) (c - ct) s2))"
  by pat_completeness auto
termination by (relation "measure (\<lambda>(e, fd, slot, i, a, c, s). c)") auto

declare dump_bytes.simps [simp del]

fun dump_segs :: "mm_env \<Rightarrow> int \<Rightarrow> int \<Rightarrow> nat list \<Rightarrow> mm \<Rightarrow> bool \<times> mm" where
  "dump_segs e fd slot [] s = (True, s)"
| "dump_segs e fd slot (i # is) s =
     (let m = mp_seg (mproc s slot) i;
          (ok, s1) = dump_bytes e fd slot i (uint (mem_vir m) * 16) (unat (mem_len m) * 16) s
      in if ok then dump_segs e fd slot is s1 else (False, s1))"

definition close_if :: "int \<Rightarrow> mm \<Rightarrow> mm" where
  "close_if fd s = (if fd \<ge> 0 then emit (CloseF fd) s else s)"

definition write_core :: "mm_env \<Rightarrow> u8 list \<Rightarrow> int \<Rightarrow> mm \<Rightarrow> mm" where
  "write_core e core_name rmp s =
     (let s1 = emit (CreatF core_name) s; r = e_creat e (calls s1);
          s2 = emit (TellFs C_CHDIR 0 1 0) s1
      in if r < 0 then s2
         else
           (let s3 = set_mp rmp (\<lambda>q. q\<lparr>mp_sigstatus := mp_sigstatus q OR DUMPED\<rparr>) s2;
                (ok, s4) = dump_lens e r rmp [0, 1, 2] s3
            in if \<not> ok then emit (CloseF r) s4
               else (let (_, s5) = dump_segs e r rmp [0, 1, 2] s4 in emit (CloseF r) s5)))"

definition dump_core :: "mm_env \<Rightarrow> int \<Rightarrow> mm \<Rightarrow> mm option" where
  "dump_core e rmp s0 =
     (let s = emit (TellFs C_CHDIR rmp 0 0) s0; p = mproc s rmp
      in if mp_realuid p \<noteq> mp_effuid p then Some s
         else do {
           let xmp = mp s;
           let core_name = [99, 111, 114, 101];
           (r, _, s1) \<leftarrow> allowed e core_name W_BIT (s\<lparr>mp := rmp\<rparr>);
           (sd, _, s2) \<leftarrow> allowed e [46] W_BIT s1;
           let s3 = close_if sd (close_if r (s2\<lparr>mp := xmp\<rparr>));
           let r1 = (if mp_effuid p = 0 then 0 else r);
           Some (if sd \<ge> 0 \<and> (r1 \<ge> 0 \<or> r1 = ENOENT) then write_core e core_name rmp s3
                 else emit (CloseF r1) (emit (TellFs C_CHDIR 0 1 0) s3))
         })"

section \<open>Delivery of signals\<close>

definition sig_proc :: "mm_env \<Rightarrow> int \<Rightarrow> int \<Rightarrow> mm \<Rightarrow> mm option" where
  "sig_proc e rmp sig_nr s =
     (let msk = sig_mask sig_nr;
          die = (\<lambda>s. do {
            let s1 = set_mp rmp (\<lambda>p. p\<lparr>mp_sigstatus := word_of_int sig_nr\<rparr>) s;
            s2 \<leftarrow> (if has_flag CORE_BITS msk then dump_core e rmp s1 else Some s1);
            mm_exit e rmp 0 s2
          })
      in if \<not> mflag s rmp IN_USE then Some s
         else if has_flag (mp_catch (mproc s rmp)) msk
         then
           (let s1 = set_mp rmp (\<lambda>p. p\<lparr>mp_catch := clr_flag (mp_catch p) msk\<rparr>) s;
                (new_sp, s2) = sys_getsp e rmp s1;
                (r, s3) = adjust rmp (mem_len (dseg (mproc s2 rmp))) (new_sp - 8) s2
            in if r = OK then Some (emit (SysSig rmp sig_nr (mp_func (mproc s3 rmp))) s3)
               else die s3)
         else die s)"

text \<open>
  The loop of \<^verbatim>\<open>check_sig\<close> over the user slots, with the count of signals sent; each process
  is examined in the state its predecessors' deaths left.
\<close>

definition signal_ok :: "int \<Rightarrow> u16 \<Rightarrow> mm \<Rightarrow> int \<Rightarrow> bool" where
  "signal_ok proc_id send_uid s rmp =
     (let p = mproc s rmp in
        (send_uid = 0 \<and> proc_id = -1)
        \<or> (send_uid = mp_effuid p \<or> send_uid = 0)
          \<and> (proc_id > 0 \<longrightarrow> proc_id = mp_pid p)
          \<and> \<not> has_flag (mp_flags p) HANGING
          \<and> (proc_id = 0 \<longrightarrow> mp_procgrp (mproc s (mp s)) = mp_procgrp p))"

fun check_procs :: "mm_env \<Rightarrow> int \<Rightarrow> int \<Rightarrow> u16 \<Rightarrow> int list \<Rightarrow> int \<Rightarrow> mm \<Rightarrow> (int \<times> mm) option" where
  "check_procs e proc_id sig_nr send_uid [] count s = Some (count, s)"
| "check_procs e proc_id sig_nr send_uid (rmp # rest) count s =
     (let send_sig = signal_ok proc_id send_uid s rmp;
          s1 = (if sig_nr = SIGALRM then set_mp rmp (del_flag ALARM_ON) s else s)
      in if \<not> mflag s rmp IN_USE then check_procs e proc_id sig_nr send_uid rest count s
         else if sig_nr = SIGALRM \<and> \<not> mflag s rmp ALARM_ON
         then check_procs e proc_id sig_nr send_uid rest count s
         else if \<not> send_sig \<or> has_flag (mp_ignore (mproc s rmp)) (sig_mask sig_nr)
         then check_procs e proc_id sig_nr send_uid rest count s1
         else do {
           s2 \<leftarrow> sig_proc e rmp sig_nr s1;
           s3 \<leftarrow> unpause e rmp s2;
           if proc_id > 0 then Some (count + 1, s3)
           else check_procs e proc_id sig_nr send_uid rest (count + 1) s3
         })"

definition check_sig :: "mm_env \<Rightarrow> int \<Rightarrow> int \<Rightarrow> u16 \<Rightarrow> mm \<Rightarrow> (int \<times> mm) option" where
  "check_sig e proc_id sig_nr send_uid s =
     (if sig_nr < 1 \<or> sig_nr > NR_SIGS then Some (EINVAL, s)
      else do {
        (count, s1) \<leftarrow> check_procs e proc_id sig_nr send_uid [INIT_PROC_NR + 1..NR_PROCS - 1] 0 s;
        Some (if count > 0 then OK else ESRCH,
              if \<not> mflag s1 (mp s1) IN_USE \<or> mflag s1 (mp s1) HANGING
              then s1\<lparr>dont_reply := True\<rparr> else s1)
      })"

definition do_kill :: "mm_env \<Rightarrow> mm \<Rightarrow> (int \<times> mm) option" where
  "do_kill e s =
     check_sig e (m1_i1 (mm_in s)) (m1_i2 (mm_in s)) (mp_effuid (mproc s (mp s))) s"

definition stack_fault :: "mm_env \<Rightarrow> int \<Rightarrow> mm \<Rightarrow> mm option" where
  "stack_fault e proc_nr s =
     (let (new_sp, s1) = sys_getsp e proc_nr s;
          (r, s2) = adjust proc_nr (mem_len (dseg (mproc s1 proc_nr))) new_sp s1
      in if r = OK then Some s2
         else sig_proc e proc_nr SIGSEGV (set_mp proc_nr (\<lambda>p. p\<lparr>mp_catch := 0\<rparr>) s2))"

fun ksig_loop :: "mm_env \<Rightarrow> u16 \<Rightarrow> int \<Rightarrow> nat list \<Rightarrow> mm \<Rightarrow> mm option" where
  "ksig_loop e sig_map proc_id [] s = Some s"
| "ksig_loop e sig_map proc_id (i # is) s =
     (let sig = int i + 1; pid = (if sig = SIGINT \<or> sig = SIGQUIT then 0 else proc_id)
      in if bit sig_map i
         then do { (_, s1) \<leftarrow> check_sig e pid sig 0 s; ksig_loop e sig_map proc_id is s1 }
         else ksig_loop e sig_map proc_id is s)"

definition do_ksig :: "mm_env \<Rightarrow> mm \<Rightarrow> (int \<times> mm) option" where
  "do_ksig e s =
     (if who s \<noteq> HARDWARE \<and> who s \<noteq> FS_PROC_NR then Some (EPERM, s)
      else
        (let proc_nr = m1_i1 (mm_in s)
         in if \<not> mflag s proc_nr IN_USE \<or> mflag s proc_nr HANGING then Some (OK, s)
            else do {
              let proc_id = mp_pid (mproc s proc_nr);
              let sig_map = (word_of_int (m1_i2 (mm_in s)) :: u16);
              let s1 = s\<lparr>mp := 0\<rparr>;
              (if sig_map = push_bit 15 1
               then do { s2 \<leftarrow> stack_fault e proc_nr s1; Some (OK, s2) }
               else do {
                 s2 \<leftarrow> ksig_loop e sig_map proc_id [0..<16] s1;
                 Some (OK, s2\<lparr>dont_reply := True\<rparr>)
               })
            }))"

end
