(* ===== verification/MMExec.thy ===== *)
theory MMExec
  imports MMSignal
begin

text \<open>
  \<^verbatim>\<open>mm/exec.c\<close>.  The file name, the stack image of the caller and the file header are read
  from outside the manager, so their contents come from the environment.
\<close>

abbreviation (input) "MAX_ISTACK_BYTES \<equiv> (1024::u16)"
abbreviation (input) "MAX_PATH \<equiv> (128::int)"
abbreviation (input) "HDR_SIZE \<equiv> (32::int)"
abbreviation (input) "ZEROBUF_SIZE \<equiv> (1024::int)"
abbreviation (input) "MAGIC \<equiv> (0x04000301::u32)"
abbreviation (input) "SEP \<equiv> (0x00200000::u32)"

text \<open>Bytes to clicks, rounded up in 16 bits.\<close>

definition clicks_up :: "u16 \<Rightarrow> u16" where
  "clicks_up b = drop_bit CLICK_SHIFT (b + 16 - 1)"

definition long_clicks :: "u32 \<Rightarrow> u16" where
  "long_clicks b = ucast (drop_bit CLICK_SHIFT (b + 16 - 1))"

record exec_sizes =
  x_ft :: u16
  x_text :: u16
  x_data :: u16
  x_bss :: u16
  x_tot :: u32

text \<open>
  \<^verbatim>\<open>read_header\<close>: \<open>header_sizes\<close> extracts the sizes and \<open>header_check\<close> judges them; the rounding of
  \<^verbatim>\<open>tc\<close> and \<^verbatim>\<open>dc\<close> adds \<open>CLICK_SHIFT - 1\<close>, as in the source.
\<close>

definition header_sizes :: "(nat \<Rightarrow> u32) \<Rightarrow> exec_sizes" where
  "header_sizes buf =
     (let ft = (if buf 0 AND SEP \<noteq> 0 then SEPARATE else 0);
          text = ucast (buf 2); data = ucast (buf 3)
      in \<lparr>x_ft = ft,
          x_text = (if ft \<noteq> SEPARATE then 0 else text),
          x_data = (if ft \<noteq> SEPARATE then data + text else data),
          x_bss = ucast (buf 4), x_tot = buf 6\<rparr>)"

definition header_dc :: "exec_sizes \<Rightarrow> u16" where
  "header_dc x = drop_bit CLICK_SHIFT (x_data x + x_bss x + word_of_nat CLICK_SHIFT - 1)"

definition header_check :: "exec_sizes \<Rightarrow> u16 \<Rightarrow> int" where
  "header_check x sc =
     (let tc = drop_bit CLICK_SHIFT (x_text x + word_of_nat CLICK_SHIFT - 1);
          totc = long_clicks (x_tot x);
          dvir = (if x_ft x = SEPARATE then 0 else tc);
          s_vir = dvir + (totc - sc)
      in size_ok (x_ft x) tc (header_dc x) sc dvir s_vir)"

definition read_header :: "mm_env \<Rightarrow> int \<Rightarrow> u16 \<Rightarrow> mm \<Rightarrow> int \<times> exec_sizes \<times> mm" where
  "read_header e fd sc s =
     (let s1 = emit (ReadF fd (e_buf e) HDR_SIZE) s;
          buf = e_header e (calls s1);
          x = header_sizes buf;
          ct = uint (buf 1 AND 255)
      in if e_read e (calls s1) \<noteq> HDR_SIZE then (ENOEXEC, x, s1)
         else if buf 0 AND 0xFF0FFFFF \<noteq> MAGIC then (ENOEXEC, x, s1)
         else if x_tot x = 0 then (ENOEXEC, x, s1)
         else if header_dc x \<ge> long_clicks (x_tot x) then (ENOEXEC, x, s1)
         else (header_check x sc, x,
               if ct > HDR_SIZE then emit (ReadF fd (e_buf e) (ct - HDR_SIZE)) s1 else s1))"

section \<open>The new core image\<close>

text \<open>The zeroing loop of \<^verbatim>\<open>new_mem\<close>.\<close>

function zero_loop :: "mm_env \<Rightarrow> int \<Rightarrow> int \<Rightarrow> mm \<Rightarrow> mm option" where
  "zero_loop e base bytes s =
     (if bytes > 0
      then
        (let count = min bytes ZEROBUF_SIZE;
             (r, s1) = mem_copy e MM_PROC_NR SEG_D (e_buf e) ABS 0 base count s
         in if r \<noteq> OK then None else zero_loop e (base + count) (bytes - count) s1)
      else Some s)"
  by pat_completeness auto
termination by (relation "measure (\<lambda>(e, base, bytes, s). nat bytes)") auto

declare zero_loop.simps [simp del]

definition new_map :: "u16 \<Rightarrow> u16 \<Rightarrow> u16 \<Rightarrow> u16 \<Rightarrow> u16 \<Rightarrow> mproc \<Rightarrow> mproc" where
  "new_map new_base text_clicks data_clicks gap_clicks stack_clicks p =
     p\<lparr>mp_seg := (mp_seg p)(
         SEG_T := \<lparr>mem_vir = 0, mem_phys = new_base, mem_len = text_clicks\<rparr>,
         SEG_D := \<lparr>mem_vir = 0, mem_phys = new_base + text_clicks, mem_len = data_clicks\<rparr>,
         SEG_S := \<lparr>mem_vir = 0 + data_clicks + gap_clicks,
                   mem_phys = new_base + text_clicks + data_clicks + gap_clicks,
                   mem_len = stack_clicks\<rparr>)\<rparr>"

definition new_mem :: "mm_env \<Rightarrow> u16 \<Rightarrow> u16 \<Rightarrow> u16 \<Rightarrow> u16 \<Rightarrow> u32 \<Rightarrow> mm \<Rightarrow> (int \<times> mm) option" where
  "new_mem e text_bytes data_bytes bss_bytes stk_bytes tot_bytes s =
     (let text_clicks = clicks_up text_bytes;
          data_clicks = clicks_up (data_bytes + bss_bytes);
          stack_clicks = clicks_up stk_bytes;
          tot_clicks = long_clicks tot_bytes;
          gap_clicks = tot_clicks - data_clicks - stack_clicks
      in if sint gap_clicks < 0 then Some (ENOMEM, s)
         else do {
           mx \<leftarrow> max_hole (holes s);
           (if text_clicks + tot_clicks > mx then Some (EAGAIN, s)
            else do {
              let rmp = mproc s (mp s);
              h1 \<leftarrow> free_mem (mem_phys (tseg rmp)) (image_clicks rmp) (holes s);
              (new_base, h2) \<leftarrow> alloc_mem (text_clicks + tot_clicks) h1;
              (if new_base = NO_MEM then None \<comment> \<open>panic: MM hole list is inconsistent\<close>
               else do {
                 let s1 = set_mp (mp s) (new_map new_base text_clicks data_clicks gap_clicks stack_clicks)
                            (s\<lparr>holes := h2\<rparr>);
                 let p = mproc s1 (mp s1);
                 let s2 = emit (SysNewmap (who s1) (mp_seg p)) s1;
                 let bss_offset = uint (push_bit CLICK_SHIFT (drop_bit CLICK_SHIFT data_bytes));
                 let bytes = uint (data_clicks + gap_clicks + stack_clicks) * 16 - bss_offset;
                 let base = (uint (mem_phys (tseg p)) + uint (mem_len (tseg p))) * 16 + bss_offset;
                 s3 \<leftarrow> zero_loop e base bytes s2;
                 Some (OK, s3)
               })
            })
         })"

text \<open>
  \<^verbatim>\<open>patch_ptr\<close>: the stack image as an array of 512 words; \<open>ap\<close> is the index and \<open>flag\<close> the
  number of null pointers seen.
\<close>

function patch_ptr :: "u16 \<Rightarrow> nat \<Rightarrow> nat \<Rightarrow> (nat \<Rightarrow> u16) \<Rightarrow> (nat \<Rightarrow> u16)" where
  "patch_ptr base flag ap stack =
     (if flag < 2 \<and> ap < 512
      then (if stack ap \<noteq> 0
            then patch_ptr base flag (ap + 1) (stack(ap := stack ap + base))
            else patch_ptr base (flag + 1) (ap + 1) stack)
      else stack)"
  by pat_completeness auto
termination by (relation "measure (\<lambda>(base, flag, ap, stack). 512 - ap)") auto

declare patch_ptr.simps [simp del]

definition load_seg :: "int \<Rightarrow> nat \<Rightarrow> u16 \<Rightarrow> mm \<Rightarrow> mm" where
  "load_seg fd seg seg_bytes s =
     (if seg_bytes = 0 then s
      else emit (ReadF (sint (push_bit 8 (word_of_int (who s)) OR push_bit 6 (word_of_nat seg)
                                OR word_of_int fd :: u16))
                       (uint (push_bit CLICK_SHIFT (mem_vir (mp_seg (mproc s (mp s)) seg))))
                       (sint seg_bytes)) s)"

definition exec_ids :: "file_stat \<Rightarrow> mm \<Rightarrow> mm" where
  "exec_ids st s =
     (let rmp = mp s;
          s1 = (if has_flag (st_mode st) 0x800
                then (let s1 = set_mp rmp (\<lambda>p. p\<lparr>mp_effuid := st_uid st\<rparr>) s; p = mproc s1 rmp
                      in emit (TellFs C_SETUID (who s) (sint (mp_realuid p)) (sint (mp_effuid p))) s1)
                else s)
      in if has_flag (st_mode st) 0x400
         then (let s2 = set_mp rmp (\<lambda>p. p\<lparr>mp_effgid := ucast (st_gid st)\<rparr>) s1; p = mproc s2 rmp
               in emit (TellFs C_SETGID (who s) (sint (mp_realgid p)) (sint (mp_effgid p))) s2)
         else s1)"

text \<open>
  \<^verbatim>\<open>do_exec\<close> in two halves: \<open>exec_load\<close> is the part from \<^verbatim>\<open>new_mem\<close> on, when the old image is
  given up.
\<close>

definition exec_load ::
  "mm_env \<Rightarrow> int \<Rightarrow> file_stat option \<Rightarrow> exec_sizes \<Rightarrow> u16 \<Rightarrow> (nat \<Rightarrow> u16) \<Rightarrow> mm \<Rightarrow> (int \<times> mm) option" where
  "exec_load e fd st x stk_bytes mbuf s = do {
     (r, s7) \<leftarrow> new_mem e (x_text x) (x_data x) (x_bss x) stk_bytes (x_tot x) s;
     (if r \<noteq> OK then Some (r, emit (CloseF fd) s7)
      else do {
        let vsp = push_bit CLICK_SHIFT (mem_vir (sseg (mproc s7 (mp s7))));
        let s8 = (if stk_bytes = 0 then s7
                  else emit (PutStack (patch_ptr vsp 0 1 mbuf) (who s7) (uint vsp) (uint stk_bytes)) s7);
        (if stk_bytes \<noteq> 0 \<and> e_copy e (calls s8) \<noteq> OK then None \<comment> \<open>panic: do_exec stack copy err\<close>
         else do {
           let s9 = load_seg fd SEG_D (x_data x) (load_seg fd SEG_T (x_text x) s8);
           st' \<leftarrow> st;
           let s11 = exec_ids st' (emit (CloseF fd) s9);
           let s12 = set_mp (mp s11) (\<lambda>p. p\<lparr>mp_catch := 0,
                       mp_flags := set_flag (clr_flag (mp_flags p) SEPARATE) (x_ft x)\<rparr>) s11;
           Some (OK, emit (SysExec (who s12) vsp) s12)
         })
      })
   }"

definition do_exec :: "mm_env \<Rightarrow> mm \<Rightarrow> (int \<times> mm) option" where
  "do_exec e s =
     (let stk_bytes = word_of_int (m1_i2 (mm_in s)); exec_len = m1_i1 (mm_in s)
      in if stk_bytes > MAX_ISTACK_BYTES then Some (ENOMEM, s)
         else if exec_len \<le> 0 \<or> exec_len > MAX_PATH then Some (EINVAL, s)
         else
           (let (r, s1) = mem_copy e (who s) SEG_D (uint (m1_p1 (mm_in s))) MM_PROC_NR SEG_D (e_buf e)
                            exec_len s
            in if r \<noteq> OK then Some (r, s1)
               else do {
                 let s2 = emit (TellFs C_CHDIR (who s) 0 0) s1;
                 (fd, st, s3) \<leftarrow> allowed e (e_name e (calls s2)) X_BIT s2;
                 let s4 = emit (TellFs C_CHDIR 0 1 0) s3;
                 (if fd < 0 then Some (fd, s4)
                  else
                    (let (m, x, s5) = read_header e fd (clicks_up stk_bytes) s4
                     in if m < 0 then Some (ENOEXEC, emit (CloseF fd) s5)
                        else
                          (let (r, s6) = mem_copy e (who s) SEG_D (uint (m1_p2 (mm_in s))) MM_PROC_NR
                                           SEG_D (e_buf e) (uint stk_bytes) s5
                           in if r \<noteq> OK then Some (EACCES, emit (CloseF fd) s6)
                              else exec_load e fd st x stk_bytes (e_stack e (calls s6)) s6)))
               }))"

end
