(* ===== verification/MMMain.thy ===== *)
theory MMMain
  imports MMExec
begin

text \<open>
  \<^verbatim>\<open>mm/main.c\<close>, \<^verbatim>\<open>mm/getset.c\<close>, the table \<^verbatim>\<open>call_vec\<close> of \<^verbatim>\<open>mm/table.c\<close> and \<^verbatim>\<open>no_sys\<close> of
  \<^verbatim>\<open>mm/utility.c\<close>.  \<open>mm_step\<close> is one turn of the main loop.
\<close>

definition no_sys :: "mm \<Rightarrow> int \<times> mm" where
  "no_sys s = (EINVAL, s)"

definition do_getset :: "mm \<Rightarrow> int \<times> mm" where
  "do_getset s =
     (let rmp = mproc s (mp s); usr = (word_of_int (m1_i1 (mm_in s)) :: u16);
          grp = (word_of_int (m1_i1 (mm_in s)) :: u8)
      in if mm_call s = C_GETUID
         then (sint (mp_realuid rmp), s\<lparr>result2 := sint (mp_effuid rmp)\<rparr>)
         else if mm_call s = C_GETGID
         then (sint (mp_realgid rmp), s\<lparr>result2 := sint (mp_effgid rmp)\<rparr>)
         else if mm_call s = C_GETPID
         then (mp_pid (mproc s (who s)), s\<lparr>result2 := mp_pid (mproc s (mp_parent rmp))\<rparr>)
         else if mm_call s = C_SETUID
         then (if mp_realuid rmp \<noteq> usr \<and> mp_effuid rmp \<noteq> 0 then (EPERM, s)
               else (OK, emit (TellFs C_SETUID (who s) (sint usr) (sint usr))
                      (set_mp (mp s) (\<lambda>p. p\<lparr>mp_realuid := usr, mp_effuid := usr\<rparr>) s)))
         else
           (if mp_realgid rmp \<noteq> grp \<and> mp_effuid rmp \<noteq> 0 then (EPERM, s)
            else (OK, emit (TellFs C_SETGID (who s) (sint grp) (sint grp))
                   (set_mp (mp s) (\<lambda>p. p\<lparr>mp_realgid := grp, mp_effgid := grp\<rparr>) s))))"

text \<open>
  \<^verbatim>\<open>do_brk2\<close>: the console output is left out; \<open>None\<close> is the abort when less than 32K would be
  left.
\<close>

definition do_brk2 :: "mm \<Rightarrow> (int \<times> mm) option" where
  "do_brk2 s =
     (if who s \<noteq> FS_PROC_NR then Some (EPERM, s)
      else do {
        let init_text_clicks = (word_of_int (m1_i1 (mm_in s)) :: u16);
        let init_data_clicks = (word_of_int (m1_i2 (mm_in s)) :: u16);
        let tot_clicks = (word_of_int (m1_i3 (mm_in s)) :: u16);
        let init_org = m1_p1 (mm_in s);
        let init_clicks = init_text_clicks + init_data_clicks;
        let ram_base = init_org + init_clicks;
        let ram_clicks = tot_clicks - ram_base;
        (_, h) \<leftarrow> alloc_mem tot_clicks (holes s);
        let mem1 = uint (tot_mem s) div 64;
        let mem2 = uint (ram_base + 32) div 64;
        let mem3 = uint ram_clicks div 64;
        (if mem1 - mem2 - mem3 < 32 then None
         else
           (let s1 = set_mp INIT_PROC_NR (\<lambda>p.
              (if init_text_clicks \<noteq> 0 then add_flag SEPARATE else id)
              (set_seg SEG_S (\<lambda>m. m\<lparr>mem_vir := init_clicks, mem_phys := init_org + init_clicks\<rparr>)
              (set_seg SEG_D (\<lambda>m. m\<lparr>mem_phys := init_org + init_text_clicks, mem_len := init_data_clicks\<rparr>)
              (set_seg SEG_T (\<lambda>m. m\<lparr>mem_phys := init_org, mem_len := init_text_clicks\<rparr>) p)))) (s\<lparr>holes := h\<rparr>)
            in Some (OK, s1)))
      })"

definition set_map :: "int \<Rightarrow> u16 \<Rightarrow> u16 \<Rightarrow> mm \<Rightarrow> mm" where
  "set_map proc_nr base clicks s =
     (let s1 = set_mp proc_nr (\<lambda>p. p\<lparr>mp_seg := (mp_seg p)(
                  SEG_T := \<lparr>mem_vir = 0, mem_phys = base, mem_len = 0\<rparr>,
                  SEG_D := \<lparr>mem_vir = 0, mem_phys = base, mem_len = clicks\<rparr>,
                  SEG_S := \<lparr>mem_vir = clicks, mem_phys = base + clicks, mem_len = 0\<rparr>)\<rparr>) s
      in emit (SysNewmap proc_nr (mp_seg (mproc s1 proc_nr))) s1)"

definition mm_init :: "u16 \<Rightarrow> mm \<Rightarrow> mm" where
  "mm_init tot s =
     (let s1 = s\<lparr>tot_mem := tot, holes := mem_init tot (holes s)\<rparr>
      in (set_mp INIT_PROC_NR (add_flag IN_USE) (set_mp FS_PROC_NR (add_flag IN_USE)
           (set_mp MM_PROC_NR (add_flag IN_USE) s1)))\<lparr>procs_in_use := 3\<rparr>)"

definition pure_call :: "(mm \<Rightarrow> int \<times> mm) \<Rightarrow> mm \<Rightarrow> (int \<times> mm) option" where
  "pure_call f s = Some (f s)"

definition call_vec :: "mm_env \<Rightarrow> int \<Rightarrow> mm \<Rightarrow> (int \<times> mm) option" where
  "call_vec e n =
     (if n = 1 then do_mm_exit e else if n = 2 then do_fork e else if n = 7 then do_wait e
      else if n = 17 then pure_call (do_brk e)
      else if n = 20 \<or> n = 23 \<or> n = 24 \<or> n = 46 \<or> n = 47 then pure_call do_getset
      else if n = 27 then do_alarm e else if n = 29 then pure_call do_pause
      else if n = 37 then do_kill e else if n = 48 then pure_call do_signal
      else if n = 59 then do_exec e else if n = 64 then do_ksig e else if n = 66 then do_brk2
      else pure_call no_sys)"

text \<open>
  One turn of the main loop on a message from \<open>source\<close> with call number \<open>call\<close>:
  \<^verbatim>\<open>get_work\<close>, the call, and the reply.
\<close>

definition get_work :: "int \<Rightarrow> int \<Rightarrow> mm_msg \<Rightarrow> mm \<Rightarrow> mm option" where
  "get_work source call msg s =
     (if source < HARDWARE \<or> source \<ge> NR_PROCS then None
      else Some (s\<lparr>mm_in := msg, who := source, mm_call := call\<rparr>))"

definition mm_step :: "mm_env \<Rightarrow> int \<Rightarrow> int \<Rightarrow> mm_msg \<Rightarrow> mm \<Rightarrow> mm option" where
  "mm_step e source call msg s = do {
     s1 \<leftarrow> get_work source call msg s;
     let s2 = s1\<lparr>mp := who s1, dont_reply := False\<rparr>;
     (error, s3) \<leftarrow> (if mm_call s2 < 0 \<or> mm_call s2 \<ge> NCALLS then Some (E_BAD_CALL, s2)
                     else call_vec e (mm_call s2) s2);
     if dont_reply s3 then Some s3
     else if mm_call s3 = C_EXEC \<and> error = OK then Some s3
     else reply e (who s3) error (result2 s3) (res_ptr s3) s3
   }"

end
