(* ===== verification/MMAllocProps.thy ===== *)
theory MMAllocProps
  imports MMAlloc
begin

text \<open>
  \<^verbatim>\<open>mm/alloc.c\<close> refined: the pointer operations on the hole table do to the list of
  regions what the list operations of \<open>MMAlloc\<close> do, they return, and they keep
  \<open>hole_inv\<close>; the allocator interface and its interpretation; the properties.
\<close>

section \<open>The searches\<close>

lemma find_hole_hit:
  assumes "chain (\<lambda>i. h_next (hs i)) (Some hp) (us @ h # vs)"
    and "\<forall>u\<in>set us. \<not> h_len (hs u) \<ge> c" and "h_len (hs h) \<ge> c"
  shows "find_hole hs c pv hp = Some (Some (if us = [] then pv else Some (last us), h))"
  using assms
proof (induction us arbitrary: hp pv)
  case Nil
  then show ?case by (simp add: find_hole.simps)
next
  case (Cons u us)
  then obtain y where y: "h_next (hs u) = Some y" "hp = u"
    "chain (\<lambda>i. h_next (hs i)) (Some y) (us @ h # vs)"
    by (cases us) auto
  have "find_hole hs c (Some u) y = Some (Some (if us = [] then Some u else Some (last us), h))"
    using Cons.IH [OF y(3)] Cons.prems by simp
  then show ?case using y Cons.prems(2) by (simp add: find_hole.simps [of hs c pv u])
qed

lemma find_hole_miss:
  assumes "chain (\<lambda>i. h_next (hs i)) (Some hp) xs" "\<forall>u\<in>set xs. \<not> h_len (hs u) \<ge> c"
  shows "find_hole hs c pv hp = Some None"
  using assms
proof (induction xs arbitrary: hp pv)
  case (Cons u us)
  then show ?case by (cases us) (auto simp: find_hole.simps [of hs c _ u])
qed simp

lemma find_place_hit:
  assumes "chain (\<lambda>i. h_next (hs i)) (Some p) (us @ q # vs)"
    and "\<forall>u\<in>set (tl (us @ [q])). base > h_base (hs u)"
    and "vs \<noteq> [] \<Longrightarrow> \<not> base > h_base (hs (hd vs))"
  shows "find_place hs base p = Some q"
  using assms
proof (induction us arbitrary: p)
  case Nil
  then show ?case by (cases vs) (auto simp: find_place.simps [of hs base q])
next
  case (Cons u us)
  then obtain y where y: "h_next (hs u) = Some y" "p = u" "y = hd (us @ [q])"
    "chain (\<lambda>i. h_next (hs i)) (Some y) (us @ q # vs)"
    by (cases us) auto
  have "\<forall>x\<in>set (us @ [q]). base > h_base (hs x)" using Cons.prems(2) by simp
  then have "base > h_base (hs y)" "\<forall>x\<in>set (tl (us @ [q])). base > h_base (hs x)"
    using y(3) by (cases us; simp)+
  then show ?case
    using Cons.IH [OF y(4)] Cons.prems(3) y by (simp add: find_place.simps [of hs base u])
qed

section \<open>List surgery on the table\<close>

lemma regions_simps [simp]:
  "regions t [] = []" "regions t (h # vs) = region_of (hole t h) # regions t vs"
  "regions t (us @ vs) = regions t us @ regions t vs"
  by (simp_all add: regions_def)

lemma hrepD:
  assumes "hrep t xs fs"
  shows "chain (hnext t) (hole_head t) xs" "chain (hnext t) (free_slots t) fs"
    "set xs \<inter> set fs = {}" "set xs \<union> set fs = {0..<NR_HOLES}" "distinct xs" "distinct fs"
  using assms chain_distinct by (auto simp: hrep_def)

lemma hrep_cong:
  assumes "\<And>i. h_next (hole t' i) = h_next (hole t i)" "hole_head t' = hole_head t"
    "free_slots t' = free_slots t"
  shows "hrep t' xs fs = hrep t xs fs"
  using assms by (simp add: hrep_def)

lemma del_slot_hrep:
  assumes r: "hrep t (us @ h # vs) fs"
    and p: "prev = (if us = [] then None else Some (last us)) \<or> us \<noteq> [] \<and> prev = Some (last us)"
  shows "hrep (del_slot prev h t) (us @ vs) (h # fs)"
    and "\<And>i. region_of (hole (del_slot prev h t) i) = region_of (hole t i)"
proof -
  have d: "distinct (us @ h # vs)" using hrepD(5) [OF r] .
  have c: "chain (hnext t) (hole_head t) (us @ h # vs)" and cf: "chain (hnext t) (free_slots t) fs"
    using r by (simp_all add: hrep_def)
  have disj: "set (us @ h # vs) \<inter> set fs = {}" using hrepD(3) [OF r] .
  have hd: "hole_head t = Some h \<longleftrightarrow> us = []" using c d by (cases us) auto
  show "region_of (hole (del_slot prev h t) i) = region_of (hole t i)" for i
    by (simp add: del_slot_def Let_def region_of_def split: option.split)
  show "hrep (del_slot prev h t) (us @ vs) (h # fs)"
  proof (cases "us = []")
    case True
    have n: "hnext (del_slot prev h t) = (hnext t)(h := free_slots t)"
      "hole_head (del_slot prev h t) = hnext t h" "free_slots (del_slot prev h t) = Some h"
      using True hd by (simp_all add: del_slot_def Let_def)
    show ?thesis
      unfolding hrep_def n using c cf d disj True hrepD(4) [OF r] by (auto simp: chain_simps)
  next
    case False
    let ?a = "last us"
    have pa: "prev = Some ?a" using p False by auto
    have b: "us = butlast us @ [?a]" using False by simp
    have n: "hnext (del_slot prev h t) = ((hnext t)(?a := hnext t h))(h := free_slots t)"
      "hole_head (del_slot prev h t) = hole_head t" "free_slots (del_slot prev h t) = Some h"
      using False hd pa by (auto simp: del_slot_def Let_def fun_eq_iff)
    have "butlast us @ [?a, h] @ vs = us @ h # vs" "butlast us @ [?a] @ vs = us @ vs"
      by (metis append_Cons append_Nil append_assoc b)+
    then have "chain ((hnext t)(?a := hnext t h)) (hole_head t) (us @ vs)"
      using chain_unlink [of "hnext t" "hole_head t" "butlast us" ?a h vs] c by metis
    moreover have "h \<notin> set (us @ vs)" using d by auto
    ultimately have 1: "chain (hnext (del_slot prev h t)) (hole_head t) (us @ vs)"
      unfolding n by (simp add: chain_simps del: lseg_append)
    have "?a \<notin> set fs" "h \<notin> set fs" using disj last_in_set [OF False] by auto
    then have "chain (hnext (del_slot prev h t)) (free_slots t) fs"
      unfolding n using cf by (simp add: chain_simps)
    then show ?thesis unfolding hrep_def n(2,3) using 1 n(1) disj d hrepD(4) [OF r] by auto
  qed
qed

lemma unat_sum: "unat (b::u16) + unat l < 65536 \<Longrightarrow> unat (b + l) = unat b + unat l"
  by (subst unat_add_lem [THEN iffD1]) auto

lemma merge_next_refines:
  assumes r: "hrep t (us @ h # vs) fs"
    and fit: "\<forall>i\<in>set (h # vs). fst (region_of (hole t i)) + snd (region_of (hole t i)) < 65536"
  shows "\<exists>nx t' vs' fs'. merge_next h t = (nx, t') \<and> hrep t' (us @ h # vs') fs'
    \<and> regions t' (us @ h # vs') = regions t us @ a_next (regions t (h # vs))
    \<and> (case vs of [] \<Rightarrow> nx = None \<and> t' = t \<and> vs' = vs
       | v # ws \<Rightarrow> if touch (region_of (hole t h)) (region_of (hole t v))
                   then nx = Some h \<and> vs' = ws else nx = Some v \<and> t' = t \<and> vs' = vs)"
proof (cases vs)
  case Nil
  then have "hnext t h = None" using r by (auto simp: hrep_def)
  then show ?thesis using r Nil by (auto simp: merge_next_def regions_def)
next
  case (Cons v ws)
  then have nv: "hnext t h = Some v" using r by (auto simp: hrep_def)
  have eq: "h_base (hole t h) + h_len (hole t h) = h_base (hole t v)
      \<longleftrightarrow> touch (region_of (hole t h)) (region_of (hole t v))"
    using fit unat_sum [of "h_base (hole t h)" "h_len (hole t h)"]
    by (auto simp: touch_def region_of_def word_unat_eq_iff)
  show ?thesis
  proof (cases "touch (region_of (hole t h)) (region_of (hole t v))")
    case False
    then show ?thesis using r nv Cons eq by (auto simp: merge_next_def regions_def)
  next
    case True
    define t1 where "t1 = set_hole h (\<lambda>x. x\<lparr>h_len := h_len x + h_len (hole t v)\<rparr>) t"
    have r1: "hrep t1 ((us @ [h]) @ v # ws) fs"
      using r Cons hrep_cong [of t1 t] by (simp add: t1_def)
    define t2 where "t2 = del_slot (Some h) v t1"
    note D = del_slot_hrep [OF r1, of "Some h"]
    have rep: "hrep t2 (us @ h # ws) (v # fs)" using D(1) by (simp add: t2_def)
    have d: "distinct (us @ h # v # ws)" using hrepD(5) [OF r] Cons by simp
    have len: "unat (h_len (hole t h) + h_len (hole t v)) = unat (h_len (hole t h)) + unat (h_len (hole t v))"
      by (rule unat_sum) (use fit Cons True in \<open>auto simp: touch_def region_of_def\<close>)
    have reg: "region_of (hole t2 i) = (if i = h then joined (region_of (hole t h)) (region_of (hole t v))
        else region_of (hole t i))" for i
      unfolding t2_def using D(2) len by (simp add: t1_def region_of_def joined_def)
    have "regions t2 (us @ h # ws) = regions t us @ a_next (regions t (h # vs))"
      using True Cons d by (auto simp: regions_def reg)
    moreover have "merge_next h t = (Some h, t2)"
      using nv eq True by (simp add: merge_next_def t2_def t1_def)
    ultimately show ?thesis using rep True Cons by auto
  qed
qed

lemma merge_refines:
  assumes r: "hrep t (us @ h # vs) fs"
    and fit: "\<forall>i\<in>set (h # vs). fst (region_of (hole t i)) + snd (region_of (hole t i)) < 65536"
  shows "\<exists>xs' fs'. hrep (merge h t) xs' fs'
    \<and> regions (merge h t) xs' = regions t us @ a_merge (regions t (h # vs))"
proof -
  from merge_next_refines [OF r fit] obtain nx t1 vs1 fs1 where
    n: "merge_next h t = (nx, t1)" "hrep t1 (us @ h # vs1) fs1"
      "regions t1 (us @ h # vs1) = regions t us @ a_next (regions t (h # vs))"
      "case vs of [] \<Rightarrow> nx = None \<and> t1 = t \<and> vs1 = vs
       | v # ws \<Rightarrow> if touch (region_of (hole t h)) (region_of (hole t v))
                   then nx = Some h \<and> vs1 = ws else nx = Some v \<and> t1 = t \<and> vs1 = vs"
    by blast
  show ?thesis
  proof (cases vs)
    case Nil
    then show ?thesis using n by (auto simp: merge_def regions_def)
  next
    case (Cons v ws)
    show ?thesis
    proof (cases "touch (region_of (hole t h)) (region_of (hole t v))")
      case True
      then have nx: "nx = Some h" "vs1 = ws" using n(4) Cons by auto
      have rg: "regions t1 us = regions t us" "regions t1 (h # ws)
          = joined (region_of (hole t h)) (region_of (hole t v)) # regions t ws"
        using n(3) nx Cons True by (auto simp: regions_def)
      have "\<forall>x\<in>set (regions t1 (h # ws)). fst x + snd x < 65536"
        unfolding rg using fit Cons True by (auto simp: regions_def touch_def joined_def)
      then have "\<forall>i\<in>set (h # ws). fst (region_of (hole t1 i)) + snd (region_of (hole t1 i)) < 65536"
        by (simp add: regions_def)
      from merge_next_refines [OF n(2) [unfolded nx] this] obtain nx2 t2 vs2 fs2 where
        m: "merge_next h t1 = (nx2, t2)" "hrep t2 (us @ h # vs2) fs2"
          "regions t2 (us @ h # vs2) = regions t1 us @ a_next (regions t1 (h # ws))" by blast
      have "regions t2 (us @ h # vs2) = regions t us @ a_merge (regions t (h # vs))"
        unfolding m(3) rg using Cons True by simp
      moreover have "merge h t = t2" using n(1) nx m(1) by (simp add: merge_def)
      ultimately show ?thesis using m(2) by blast
    next
      case False
      then have nx: "nx = Some v" "t1 = t" using n(4) Cons by auto
      have "hrep t ((us @ [h]) @ v # ws) fs" using r Cons by simp
      moreover have "\<forall>i\<in>set (v # ws). fst (region_of (hole t i)) + snd (region_of (hole t i)) < 65536"
        using fit Cons by simp
      ultimately obtain nx2 t2 vs2 fs2 where
        m: "merge_next v t = (nx2, t2)" "hrep t2 ((us @ [h]) @ v # vs2) fs2"
          "regions t2 ((us @ [h]) @ v # vs2) = regions t (us @ [h]) @ a_next (regions t (v # ws))"
        using merge_next_refines by blast
      have "regions t2 ((us @ [h]) @ v # vs2) = regions t us @ a_merge (regions t (h # vs))"
        unfolding m(3) using Cons False by simp
      moreover have "merge h t = t2" using n(1) nx m(1) by (simp add: merge_def)
      ultimately show ?thesis using m(2) by blast
    qed
  qed
qed

section \<open>alloc_mem\<close>

lemma set_len_regions:
  assumes "h \<notin> set us"
  shows "regions (set_hole h f t) us = regions t us"
  using assms by (auto simp: regions_def)

lemma alloc_mem_some:
  assumes r: "hrep t (us @ h # vs) fs" and g: "gaps (regions t (us @ h # vs))"
    and small: "\<forall>u\<in>set us. unat (h_len (hole t u)) < unat c" and big: "unat c \<le> unat (h_len (hole t h))"
  shows "\<exists>t' xs' fs'. alloc_mem c t = Some (h_base (hole t h), t') \<and> hrep t' xs' fs'
    \<and> gaps (regions t' xs')
    \<and> clicks_of (regions t' xs') = clicks_of (regions t (us @ h # vs))
        - {unat (h_base (hole t h))..<unat (h_base (hole t h)) + unat c}"
proof -
  have ch: "chain (hnext t) (hole_head t) (us @ h # vs)" using r by (simp add: hrep_def)
  then obtain p where p: "hole_head t = Some p" by (cases us) auto
  define pv where "pv = (if us = [] then None else Some (last us))"
  have fh: "find_hole (hole t) c None p = Some (Some (pv, h))"
    unfolding pv_def
    by (rule find_hole_hit [where vs = vs]) (use ch p small big in \<open>auto simp: word_le_nat_alt\<close>)
  have d: "distinct (us @ h # vs)" by (rule hrepD(5) [OF r])
  define R where "R = regions t us"
  define V where "V = regions t vs"
  define b l where "b = unat (h_base (hole t h))" and "l = unat (h_len (hole t h))"
  have split: "regions t (us @ h # vs) = R @ (b, l) # V"
    by (simp add: R_def V_def b_def l_def regions_def region_of_def)
  have gg: "gaps R" "gaps V" "0 < l" "b + l < 65536" "\<forall>u\<in>set R. fst u + snd u < b"
      "\<forall>v\<in>set V. b + l < fst v" "\<forall>u\<in>set R. \<forall>v\<in>set V. fst u + snd u < fst v"
    using g unfolding split by (auto simp: gaps_append gaps_Cons)
  define t1 where "t1 = set_hole h (\<lambda>x. x\<lparr>h_base := h_base x + c, h_len := h_len x - c\<rparr>) t"
  have r1: "hrep t1 (us @ h # vs) fs" using r hrep_cong [of t1 t] by (simp add: t1_def)
  have cl: "unat c \<le> l" using big by (simp add: l_def)
  have ub: "unat (h_base (hole t h) + c) = b + unat c"
    using unat_sum [of "h_base (hole t h)" c] gg(4) cl by (simp add: b_def)
  have ul: "unat (h_len (hole t h) - c) = l - unat c"
    using big by (simp add: l_def unat_sub word_le_nat_alt)
  have rg1: "regions t1 us = R" "regions t1 vs = V" "region_of (hole t1 h) = (b + unat c, l - unat c)"
    using d ub ul by (auto simp: t1_def R_def V_def regions_def region_of_def)
  have cut: "clicks_of R \<union> {b + unat c..<b + l} \<union> clicks_of V
      = clicks_of (R @ (b, l) # V) - {b..<b + unat c}"
  proof -
    have "\<forall>x\<in>clicks_of R. x < b" using gg(5) by (fastforce simp: clicks_of_def)
    moreover have "\<forall>x\<in>clicks_of V. b + l \<le> x" using gg(6) by (fastforce simp: clicks_of_def)
    ultimately show ?thesis using cl by auto
  qed
  have am: "alloc_mem c t = Some (h_base (hole t h),
      if h_len (hole t1 h) \<noteq> 0 then t1 else del_slot pv h t1)"
    by (simp add: alloc_mem_def p fh t1_def Let_def)
  show ?thesis
  proof (cases "l = unat c")
    case True
    then have z: "h_len (hole t1 h) = 0" using ul by (simp add: t1_def unat_eq_0)
    have q: "pv = (if us = [] then None else Some (last us)) \<or> us \<noteq> [] \<and> pv = Some (last us)"
      by (simp add: pv_def)
    note D = del_slot_hrep [OF r1 q]
    have rg: "regions (del_slot pv h t1) (us @ vs) = R @ V"
      using D(2) rg1(1,2) by (simp add: regions_def)
    have "gaps (R @ V)" using gg by (simp add: gaps_append)
    moreover have "clicks_of (regions (del_slot pv h t1) (us @ vs)) = clicks_of (regions t (us @ h # vs))
        - {unat (h_base (hole t h))..<unat (h_base (hole t h)) + unat c}"
      unfolding rg split b_def [symmetric] using cut True by simp
    moreover have "alloc_mem c t = Some (h_base (hole t h), del_slot pv h t1)" using am z by simp
    ultimately show ?thesis using D(1) rg by metis
  next
    case False
    then have z: "h_len (hole t1 h) \<noteq> 0" using ul cl by (simp add: t1_def word_unat_eq_iff)
    have rg: "regions t1 (us @ h # vs) = R @ (b + unat c, l - unat c) # V"
      using rg1 by (simp add: regions_def)
    have "gaps (R @ (b + unat c, l - unat c) # V)"
      unfolding gaps_append gaps_Cons using gg cl False by auto
    moreover have "clicks_of (regions t1 (us @ h # vs)) = clicks_of (regions t (us @ h # vs))
        - {unat (h_base (hole t h))..<unat (h_base (hole t h)) + unat c}"
      unfolding rg split b_def [symmetric] cut [symmetric] using cl by auto
    moreover have "alloc_mem c t = Some (h_base (hole t h), t1)" using am z by simp
    ultimately show ?thesis using r1 rg by metis
  qed
qed

lemma alloc_mem_none:
  assumes "hrep t xs fs" and "\<forall>u\<in>set xs. unat (h_len (hole t u)) < unat c"
  shows "alloc_mem c t = Some (NO_MEM, t)"
proof (cases "hole_head t")
  case None
  then show ?thesis by (simp add: alloc_mem_def)
next
  case (Some p)
  have "find_hole (hole t) c None p = Some None"
    by (rule find_hole_miss) (use assms Some in \<open>auto simp: hrep_def word_le_nat_alt\<close>)
  then show ?thesis using Some by (simp add: alloc_mem_def)
qed

section \<open>free_mem\<close>

definition region_fits :: "u16 \<Rightarrow> u16 \<Rightarrow> bool" where
  "region_fits base clicks \<longleftrightarrow> 0 < unat clicks \<and> unat base + unat clicks < 65536"

lemma disjoint_above:
  assumes "gaps (r # rs)" "{b..<b + l} \<inter> clicks_of (r # rs) = {}" "0 < l" "b \<le> fst r"
  shows "\<forall>v\<in>set (r # rs). b + l \<le> fst v"
proof -
  have "fst r \<notin> {b..<b + l}" using assms by (auto simp: gaps_Cons)
  then have "b + l \<le> fst r" using assms(4) by auto
  then show ?thesis using assms(1) by (fastforce simp: gaps_Cons)
qed

lemma free_mem_ok:
  assumes r: "hrep t xs (f # fs)" and g: "gaps (regions t xs)" and fit: "region_fits base clicks"
    and disj: "{unat base..<unat base + unat clicks} \<inter> clicks_of (regions t xs) = {}"
  shows "\<exists>t' xs' fs'. free_mem base clicks t = Some t' \<and> hrep t' xs' fs' \<and> gaps (regions t' xs')
    \<and> clicks_of (regions t' xs') =
        clicks_of (regions t xs) \<union> {unat base..<unat base + unat clicks}"
proof -
  let ?b = "unat base" and ?l = "unat clicks"
  let ?n = "(?b, ?l)"
  have bl: "0 < ?l" "?b + ?l < 65536" using fit by (auto simp: region_fits_def)
  have ch: "chain (hnext t) (hole_head t) xs" and cf: "free_slots t = Some f" "chain (hnext t) (hnext t f) fs"
    and fx: "f \<notin> set xs" "f \<notin> set fs" and dj: "set xs \<inter> set fs = {}"
    and un: "insert f (set xs \<union> set fs) = {0..<NR_HOLES}"
    using r hrepD(6) [OF r] by (auto simp: hrep_def)
  define t1 where "t1 = (set_hole f (\<lambda>h. h\<lparr>h_base := base, h_len := clicks\<rparr>) t)\<lparr>free_slots := hnext t f\<rparr>"
  have t1: "\<And>i. i \<noteq> f \<Longrightarrow> hole t1 i = hole t i" "hnext t1 = hnext t" "free_slots t1 = hnext t f"
    "hole_head t1 = hole_head t" "region_of (hole t1 f) = ?n"
    by (auto simp: t1_def region_of_def fun_eq_iff)
  define us vs where "us = takeWhile (\<lambda>i. unat (h_base (hole t i)) < ?b) xs"
    and "vs = dropWhile (\<lambda>i. unat (h_base (hole t i)) < ?b) xs"
  have xs: "xs = us @ vs" by (simp add: us_def vs_def)
  have low: "\<forall>u\<in>set us. unat (h_base (hole t u)) < ?b" by (auto simp: us_def dest: set_takeWhileD)
  have high: "vs \<noteq> [] \<Longrightarrow> ?b \<le> unat (h_base (hole t (hd vs)))"
    using hd_dropWhile [of "\<lambda>i. unat (h_base (hole t i)) < ?b" xs] by (auto simp: vs_def)
  have gs: "gaps (regions t us)" "gaps (regions t vs)"
    using g xs by (auto simp: regions_def gaps_append)
  have above: "\<forall>v\<in>set (regions t vs). ?b + ?l \<le> fst v"
  proof (cases vs)
    case (Cons v ws)
    have "\<forall>x\<in>set (region_of (hole t v) # regions t ws). ?b + ?l \<le> fst x"
      by (rule disjoint_above)
        (use gs(2) disj bl high xs Cons in \<open>auto simp: regions_def region_of_def\<close>)
    then show ?thesis using Cons by (simp add: regions_def)
  qed (simp add: regions_def)
  have fitall: "\<forall>i\<in>set xs. fst (region_of (hole t i)) + snd (region_of (hole t i)) < 65536"
    using g by (auto simp: gaps_def regions_def)
  have goal: ?thesis if
    h: "free_mem base clicks t = Some (merge h t2)" "hrep t2 (ps @ h # qs) fs"
      "regions t2 ps @ regions t2 (h # qs) = regions t us @ ?n # regions t vs"
      "gaps (regions t2 ps @ a_merge (regions t2 (h # qs)))"
      "\<forall>i\<in>set (h # qs). fst (region_of (hole t2 i)) + snd (region_of (hole t2 i)) < 65536"
    for h t2 ps qs
  proof -
    from merge_refines [OF h(2,5)] obtain xs' fs' where
      m: "hrep (merge h t2) xs' fs'"
        "regions (merge h t2) xs' = regions t2 ps @ a_merge (regions t2 (h # qs))" by blast
    have "clicks_of (regions (merge h t2) xs') = clicks_of (regions t us @ ?n # regions t vs)"
      unfolding m(2) using h(3) [symmetric] by (simp add: clicks_a_merge)
    also have "\<dots> = clicks_of (regions t xs) \<union> {?b..<?b + ?l}" using xs by (auto simp: regions_def)
    finally show ?thesis using h(1,4) m by auto
  qed
  show ?thesis
  proof (cases "us = []")
    case True
    define t2 where "t2 = (set_hole f (\<lambda>h. h\<lparr>h_next := hole_head t\<rparr>) t1)\<lparr>hole_head := Some f\<rparr>"
    have fm: "free_mem base clicks t = Some (merge f t2)"
    proof (cases vs)
      case Nil
      then have "hole_head t = None" using ch xs True by simp
      then show ?thesis by (simp add: free_mem_def cf t1_def [symmetric] t2_def t1)
    next
      case (Cons v ws)
      then have hd: "hole_head t = Some v" using ch xs True by simp
      have "v \<noteq> f" using fx xs Cons by auto
      then have "base \<le> h_base (hole t1 v)" using high Cons by (simp add: word_le_nat_alt t1)
      then show ?thesis using hd by (simp add: free_mem_def cf t1_def [symmetric] t2_def t1)
    qed
    have n2: "hnext t2 = (hnext t)(f := hole_head t)" "hole_head t2 = Some f" "free_slots t2 = hnext t f"
      using t1 by (auto simp: t2_def fun_eq_iff)
    have rep: "hrep t2 ([] @ f # vs) fs"
      unfolding hrep_def n2 using ch cf fx dj un xs True by (auto simp: chain_simps)
    have reg: "region_of (hole t2 i) = (if i = f then ?n else region_of (hole t i))" for i
      using t1 by (auto simp: t2_def region_of_def)
    have rvs: "regions t2 vs = regions t vs" using fx xs by (auto simp: regions_def reg)
    show ?thesis
    proof (rule goal [OF fm rep])
      show "gaps (regions t2 [] @ a_merge (regions t2 (f # vs)))"
        using gaps_merge_front [OF gs(2), of ?n] bl above rvs by (simp add: reg)
      show "regions t2 [] @ regions t2 (f # vs) = regions t us @ ?n # regions t vs"
        using rvs True by (simp add: reg)
    qed (use fitall xs bl in \<open>auto simp: reg\<close>)
  next
    case False
    define u where "u = last us"
    have us: "us = butlast us @ [u]" using False by (simp add: u_def)
    have uf: "u \<noteq> f" "u \<in> set us" using fx xs False by (auto simp: u_def)
    obtain p where p: "hole_head t = Some p" "p = hd us" using ch xs False by (cases us) auto
    have pu: "p \<in> set us" "p \<noteq> f" using p False fx xs by auto
    define t2 where "t2 = set_hole u (\<lambda>h. h\<lparr>h_next := Some f\<rparr>)
        (set_hole f (\<lambda>h. h\<lparr>h_next := hnext t1 u\<rparr>) t1)"
    have lw: "\<forall>x\<in>set us. base > h_base (hole t1 x)"
    proof
      fix x assume x: "x \<in> set us"
      then have "x \<noteq> f" using fx xs by auto
      then show "base > h_base (hole t1 x)" using low x by (simp add: word_less_nat_alt t1(1))
    qed
    have bu: "butlast us @ [u] = us" using us by simp
    have bx: "butlast us @ u # vs = xs" using arg_cong [OF bu, of "\<lambda>z. z @ vs"] xs by simp
    have chain1: "chain (hnext t1) (Some p) (butlast us @ u # vs)"
      unfolding bx t1(2) using ch p(1) by simp
    have fp: "find_place (hole t1) base p = Some u"
    proof (rule find_place_hit [OF chain1])
      show "\<forall>x\<in>set (tl (butlast us @ [u])). base > h_base (hole t1 x)"
        unfolding bu using lw list.set_sel(2) [OF False] by blast
      show "\<not> base > h_base (hole t1 (hd vs))" if "vs \<noteq> []"
      proof -
        have "hd vs \<noteq> f" using that fx xs by auto
        then show ?thesis using high [OF that] by (simp add: word_less_nat_alt t1(1))
      qed
    qed
    have "\<not> base \<le> h_base (hole t1 p)" using lw pu by (simp add: not_le)
    then have fm: "free_mem base clicks t = Some (merge u t2)"
      using p fp by (simp add: free_mem_def cf t1_def [symmetric] t2_def t1 Let_def)
    have n2: "hnext t2 = ((hnext t)(f := hnext t u))(u := Some f)" "hole_head t2 = hole_head t"
      "free_slots t2 = hnext t f"
      using t1 uf by (auto simp: t2_def fun_eq_iff)
    have d: "distinct (butlast us @ u # vs)" unfolding bx by (rule hrepD(5) [OF r])
    have seg: "lseg (hnext t) (hole_head t) (butlast us) (Some u)" "chain (hnext t) (hnext t u) vs"
      using chain1 p t1(2) by auto
    have fb: "f \<notin> set (butlast us)" "f \<notin> set vs" "u \<notin> set fs"
      using fx xs dj uf(2) by (auto dest: in_set_butlastD)
    have su: "set xs = insert u (set (butlast us) \<union> set vs)"
      using xs arg_cong [OF us, of set] by auto
    have rep: "hrep t2 (butlast us @ u # (f # vs)) fs"
      unfolding hrep_def n2
    proof (intro conjI)
      show "chain (((hnext t)(f := hnext t u))(u := Some f)) (hole_head t) (butlast us @ u # f # vs)"
        using seg d fb uf by (auto simp: chain_simps)
      show "chain (((hnext t)(f := hnext t u))(u := Some f)) (hnext t f) fs"
        using cf fb fx by (simp add: chain_simps)
      show "set (butlast us @ u # f # vs) \<inter> set fs = {}" using su dj fx by auto
      show "set (butlast us @ u # f # vs) \<union> set fs = {0..<NR_HOLES}" using su un by auto
    qed
    have reg: "region_of (hole t2 i) = (if i = f then ?n else region_of (hole t i))" for i
      using t1 uf by (auto simp: t2_def region_of_def)
    have rr: "regions t2 vs = regions t vs" "regions t2 (butlast us) = regions t (butlast us)"
      using fb by (auto simp: regions_def reg)
    have rus: "regions t us = regions t (butlast us) @ [region_of (hole t u)]"
      using us by (metis list.simps(8,9) map_append regions_def)
    have touchu: "fst (region_of (hole t u)) + snd (region_of (hole t u)) \<le> ?b"
    proof -
      have "?b \<in> {?b..<?b + ?l}" using bl by simp
      moreover have "clicks_of (regions t us) \<subseteq> clicks_of (regions t xs)" using xs by simp
      ultimately have "?b \<notin> clicks_of (regions t us)" using disj by blast
      then have "?b \<notin> {fst (region_of (hole t u))..<fst (region_of (hole t u)) + snd (region_of (hole t u))}"
        unfolding rus by simp
      then show ?thesis using low uf(2) by (auto simp: region_of_def)
    qed
    show ?thesis
    proof (rule goal [OF fm rep])
      show "gaps (regions t2 (butlast us) @ a_merge (regions t2 (u # f # vs)))"
        using gaps_merge_mid [of "regions t (butlast us)" "region_of (hole t u)" "regions t vs" ?n]
          gs bl above touchu rr uf rus by (simp add: reg)
      show "regions t2 (butlast us) @ regions t2 (u # f # vs) = regions t us @ ?n # regions t vs"
        using rr rus uf by (simp add: reg)
    qed (use fitall xs bl uf in \<open>auto simp: reg\<close>)
  qed
qed

section \<open>max_hole and mem_init\<close>

lemma max_loop_eq:
  assumes "chain (\<lambda>i. h_next (hs i)) (Some hp) xs"
  shows "\<exists>m. max_loop hs mx hp = Some m
    \<and> unat m = Max (insert (unat mx) ((\<lambda>i. unat (h_len (hs i))) ` set xs))"
  using assms
proof (induction xs arbitrary: hp mx)
  case (Cons x xs)
  define m1 where "m1 = (if h_len (hs x) > mx then h_len (hs x) else mx)"
  have m1: "unat m1 = max (unat mx) (unat (h_len (hs x)))"
    by (auto simp: m1_def word_less_nat_alt max_def)
  have hp: "hp = x" using Cons.prems by simp
  show ?case
  proof (cases xs)
    case Nil
    then have "h_next (hs x) = None" using Cons.prems by simp
    then show ?thesis using hp m1 Nil
      by (simp add: max_loop.simps [of hs mx x] Let_def m1_def [symmetric] max.commute)
  next
    case (Cons y ys)
    then have y: "h_next (hs x) = Some y" "chain (\<lambda>i. h_next (hs i)) (Some y) xs"
      using Cons.prems by auto
    then obtain m where "max_loop hs m1 y = Some m"
      "unat m = Max (insert (unat m1) ((\<lambda>i. unat (h_len (hs i))) ` set xs))"
      using Cons.IH by blast
    moreover have "xs \<noteq> []" using Cons by simp
    ultimately show ?thesis using hp y(1) m1
      by (simp add: max_loop.simps [of hs mx x] Let_def m1_def [symmetric] max.assoc)
  qed
qed simp

lemma max_hole_eq:
  assumes "hrep t xs fs"
  shows "\<exists>m. max_hole t = Some m \<and> unat m = Max (insert 0 (snd ` set (regions t xs)))"
proof (cases "hole_head t")
  case None
  then show ?thesis using assms by (auto simp: max_hole_def hrep_def)
next
  case (Some hp)
  then have "chain (hnext t) (Some hp) xs" using assms by (simp add: hrep_def)
  from max_loop_eq [OF this, of 0] show ?thesis
    using Some by (simp add: max_hole_def regions_def region_of_def image_image)
qed

lemma upt_chain:
  "i \<le> n \<Longrightarrow> n \<le> 127 \<Longrightarrow> lseg (hnext (mem_init c t)) (Some i) [i..<n] (Some n) \<or> i = 0"
proof (induction n rule: dec_induct)
  case (step n)
  then show ?case by (cases "i = 0") (auto simp: mem_init_def)
qed simp

lemma mem_init_hrep: "hrep (mem_init c t) [0] [1..<128]"
proof -
  have "[1..<128::nat] = [1..<127] @ [127]" using upt_Suc_append [of 1 127] by simp
  moreover have "lseg (hnext (mem_init c t)) (Some 1) [1..<127] (Some 127)"
    using upt_chain [of 1 127 c t] by simp
  ultimately have "chain (hnext (mem_init c t)) (Some 1) [1..<128]"
    by (simp add: mem_init_def)
  then show ?thesis by (auto simp: hrep_def mem_init_def)
qed

section \<open>The allocator interface\<close>

text \<open>
  What the process-memory code relies on: \<open>alloc\<close> hands out clicks that were free and makes
  them not free; \<open>release\<close> makes clicks free again.
\<close>

locale allocator =
  fixes inv :: "'s \<Rightarrow> bool"
    and free :: "'s \<Rightarrow> nat set"
    and alloc :: "u16 \<Rightarrow> 's \<Rightarrow> (u16 \<times> 's) option"
    and release :: "u16 \<Rightarrow> u16 \<Rightarrow> 's \<Rightarrow> 's option"
  assumes alloc_ok: "inv s \<Longrightarrow> 0 < unat c \<Longrightarrow>
      \<exists>b s'. alloc c s = Some (b, s') \<and> inv s' \<and>
        (s' = s \<and> b = 0 \<or> unat b + unat c < 65536 \<and> {unat b..<unat b + unat c} \<subseteq> free s
          \<and> free s' = free s - {unat b..<unat b + unat c})"
    and release_ok: "inv s \<Longrightarrow> release b c s = Some s' \<Longrightarrow> region_fits b c \<Longrightarrow>
        {unat b..<unat b + unat c} \<inter> free s = {} \<Longrightarrow>
        inv s' \<and> free s' = free s \<union> {unat b..<unat b + unat c}"
begin

lemma alloc_distinct:
  assumes "inv s" "0 < unat c" "0 < unat d" "alloc c s = Some (b, s1)" "s1 \<noteq> s"
    and "alloc d s1 = Some (b', s2)" "s2 \<noteq> s1"
  shows "{unat b..<unat b + unat c} \<inter> {unat b'..<unat b' + unat d} = {}"
proof -
  have 1: "inv s1" "free s1 = free s - {unat b..<unat b + unat c}"
    using alloc_ok [OF assms(1,2)] assms(4,5) by auto
  have "{unat b'..<unat b' + unat d} \<subseteq> free s1"
    using alloc_ok [OF 1(1) assms(3)] assms(6,7) by auto
  then show ?thesis using 1(2) by blast
qed

lemma alloc_release:
  assumes "inv s" "0 < unat c" "alloc c s = Some (b, s1)" "s1 \<noteq> s" "release b c s1 = Some s2"
  shows "inv s2 \<and> free s2 = free s"
proof -
  have 1: "inv s1" "unat b + unat c < 65536" "{unat b..<unat b + unat c} \<subseteq> free s"
      "free s1 = free s - {unat b..<unat b + unat c}"
    using alloc_ok [OF assms(1,2)] assms(3,4) by auto
  have "inv s2 \<and> free s2 = free s1 \<union> {unat b..<unat b + unat c}"
    by (rule release_ok [OF 1(1) assms(5)]) (use 1 assms(2) in \<open>auto simp: region_fits_def\<close>)
  then show ?thesis using 1(3,4) by auto
qed

end

lemma alloc_mem_first_fit:
  assumes r: "hrep t xs fs" and g: "gaps (regions t xs)"
  shows "\<exists>b t'. alloc_mem c t = Some (b, t') \<and> hole_inv t' \<and>
    (case List.find (\<lambda>i. unat c \<le> unat (h_len (hole t i))) xs of
       None \<Rightarrow> b = NO_MEM \<and> t' = t
     | Some h \<Rightarrow> b = h_base (hole t h) \<and> unat b + unat c < 65536
         \<and> {unat b..<unat b + unat c} \<subseteq> free_clicks t
         \<and> free_clicks t' = free_clicks t - {unat b..<unat b + unat c})"
proof (cases "List.find (\<lambda>i. unat c \<le> unat (h_len (hole t i))) xs")
  case None
  then have "\<forall>u\<in>set xs. unat (h_len (hole t u)) < unat c" by (auto simp: find_None_iff not_le)
  from alloc_mem_none [OF r this] show ?thesis using r g None by (auto simp: hole_inv_def)
next
  case (Some h)
  have "\<exists>us vs. xs = us @ h # vs \<and> (\<forall>u\<in>set us. unat (h_len (hole t u)) < unat c)
      \<and> unat c \<le> unat (h_len (hole t h))"
    using Some unfolding find_Some_iff2 [symmetric]
  proof (induction xs)
    case (Cons x xs)
    then show ?case
    proof (cases "unat c \<le> unat (h_len (hole t x))")
      case True
      with Cons.prems show ?thesis by (intro exI [of _ "[]"] exI [of _ xs]) simp
    next
      case False
      with Cons obtain us vs where "xs = us @ h # vs" "\<forall>u\<in>set us. unat (h_len (hole t u)) < unat c"
        "unat c \<le> unat (h_len (hole t h))" by auto
      with False show ?thesis by (intro exI [of _ "x # us"] exI [of _ vs]) simp
    qed
  qed simp
  then obtain us vs where xs: "xs = us @ h # vs" "\<forall>u\<in>set us. unat (h_len (hole t u)) < unat c"
    "unat c \<le> unat (h_len (hole t h))" by blast
  obtain t' xs' fs' where t': "alloc_mem c t = Some (h_base (hole t h), t')" "hrep t' xs' fs'"
    "gaps (regions t' xs')" "clicks_of (regions t' xs') = clicks_of (regions t xs)
        - {unat (h_base (hole t h))..<unat (h_base (hole t h)) + unat c}"
    using alloc_mem_some [of t us h vs fs c] r g xs by auto
  have "unat (h_base (hole t h)) + unat (h_len (hole t h)) < 65536"
    using g xs(1) by (simp add: gaps_append gaps_Cons region_of_def)
  moreover have "{unat (h_base (hole t h))..<unat (h_base (hole t h)) + unat c} \<subseteq> free_clicks t"
    using xs by (auto simp: free_clicks_eq [OF r] region_of_def)
  ultimately show ?thesis
    using Some t' xs(3) free_clicks_eq [OF r] free_clicks_eq [OF t'(2)] by (auto simp: hole_inv_def)
qed

lemma free_mem_result:
  assumes i: "hole_inv t" and f: "free_mem b c t = Some t'" and fit: "region_fits b c"
    and dj: "{unat b..<unat b + unat c} \<inter> free_clicks t = {}"
  shows "hole_inv t' \<and> free_clicks t' = free_clicks t \<union> {unat b..<unat b + unat c}"
proof -
  obtain xs fs where r: "hrep t xs fs" "gaps (regions t xs)" using i by (auto simp: hole_inv_def)
  obtain g gs where fs: "fs = g # gs"
  proof (cases fs)
    case Nil
    then have "free_slots t = None" using r by (simp add: hrep_def)
    then show ?thesis using f by (simp add: free_mem_def)
  qed
  obtain t2 xs' fs' where t2: "free_mem b c t = Some t2" "hrep t2 xs' fs'" "gaps (regions t2 xs')"
    "clicks_of (regions t2 xs') = clicks_of (regions t xs) \<union> {unat b..<unat b + unat c}"
    using free_mem_ok [OF r(1) [unfolded fs] r(2) fit] dj free_clicks_eq [OF r(1)] by auto
  then show ?thesis using f free_clicks_eq [OF r(1)] free_clicks_eq [OF t2(2)] by (auto simp: hole_inv_def)
qed

interpretation mem: allocator hole_inv free_clicks alloc_mem free_mem
proof
  fix t c
  assume "hole_inv t" and "0 < unat (c :: u16)"
  then obtain xs fs where r: "hrep t xs fs" "gaps (regions t xs)" by (auto simp: hole_inv_def)
  show "\<exists>b s'. alloc_mem c t = Some (b, s') \<and> hole_inv s' \<and>
      (s' = t \<and> b = 0 \<or> unat b + unat c < 65536 \<and> {unat b..<unat b + unat c} \<subseteq> free_clicks t
        \<and> free_clicks s' = free_clicks t - {unat b..<unat b + unat c})"
    using alloc_mem_first_fit [OF r, of c]
    by (cases "List.find (\<lambda>i. unat c \<le> unat (h_len (hole t i))) xs") auto
qed (rule free_mem_result)

section \<open>Properties\<close>

lemma init_inv:
  assumes "0 < unat c"
  shows "hole_inv (mem_init c t)" and "free_clicks (mem_init c t) = {0..<unat c}"
proof -
  have r: "regions (mem_init c t) [0] = [(0, unat c)]"
    by (simp add: regions_def region_of_def mem_init_def)
  then show "hole_inv (mem_init c t)"
    using mem_init_hrep [of c t] assms unat_u16_less [of c]
    unfolding hole_inv_def by (metis gaps_Cons gaps_Nil empty_iff empty_set fst_conv snd_conv add_0)
  show "free_clicks (mem_init c t) = {0..<unat c}"
    using free_clicks_eq [OF mem_init_hrep] r by simp
qed

definition blank_table :: hole_table where
  "blank_table = \<lparr>hole = (\<lambda>_. \<lparr>h_base = 0, h_len = 0, h_next = None\<rparr>), hole_head = None, free_slots = None\<rparr>"

text \<open>C5: First fit. On a well-formed hole table \<^verbatim>\<open>alloc_mem\<close> returns; it takes the clicks from
  the first hole in address order that is long enough, at that hole's base, and exactly
  these clicks stop being free; if no hole is long enough it returns NO_MEM and changes
  nothing. The table stays well formed (sorted, nonempty, never adjacent, every slot on
  exactly one list).\<close>

theorem alloc_mem_is_first_fit:
  assumes "hrep t xs fs" and "gaps (regions t xs)"
  shows "\<exists>b t'. alloc_mem c t = Some (b, t') \<and> hole_inv t' \<and>
    (case List.find (\<lambda>i. unat c \<le> unat (h_len (hole t i))) xs of
       None \<Rightarrow> b = NO_MEM \<and> t' = t
     | Some h \<Rightarrow> b = h_base (hole t h) \<and> unat b + unat c < 65536
         \<and> {unat b..<unat b + unat c} \<subseteq> free_clicks t
         \<and> free_clicks t' = free_clicks t - {unat b..<unat b + unat c})"
  by (rule alloc_mem_first_fit [OF assms])

theorem alloc_mem_is_first_fit_witness:
  "\<exists>t'. alloc_mem 10 (mem_init 1000 blank_table) = Some (0, t') \<and> free_clicks t' = {0..<1000} - {0..<10}"
proof -
  have g: "gaps (regions (mem_init 1000 blank_table) [0])"
    by (simp add: region_of_def mem_init_def gaps_Cons)
  have "free_clicks (mem_init 1000 blank_table) = {0..<1000}" using init_inv(2) [of 1000] by simp
  moreover have "hole (mem_init 1000 blank_table) 0 = \<lparr>h_base = 0, h_len = 1000, h_next = None\<rparr>"
    by (simp add: mem_init_def blank_table_def)
  ultimately show ?thesis using alloc_mem_is_first_fit [OF mem_init_hrep g, of 10] by auto
qed

text \<open>\<^verbatim>\<open>free_mem\<close> on a nonempty block that overlaps no hole panics exactly when all 128
  table slots are in use, and otherwise returns with exactly the block's clicks added to the
  free ones and the table well formed again, merged with its neighbours on either side.\<close>

theorem free_mem_adds_block:
  assumes "hole_inv t" and "region_fits base clicks"
    and "{unat base..<unat base + unat clicks} \<inter> free_clicks t = {}"
  shows "case free_mem base clicks t of
      None \<Rightarrow> free_slots t = None
    | Some t' \<Rightarrow> free_slots t \<noteq> None \<and> hole_inv t'
        \<and> free_clicks t' = free_clicks t \<union> {unat base..<unat base + unat clicks}"
proof (cases "free_mem base clicks t")
  case (Some t')
  then show ?thesis using free_mem_result [OF assms(1) Some assms(2,3)] by (auto simp: free_mem_def split: option.splits)
next
  case None
  obtain xs fs where r: "hrep t xs fs" "gaps (regions t xs)" using assms(1) by (auto simp: hole_inv_def)
  have "fs = []"
  proof (rule ccontr)
    assume "fs \<noteq> []"
    then obtain g gs where "fs = g # gs" by (cases fs) auto
    then show False
      using free_mem_ok [of t xs g gs, OF _ r(2) assms(2)] r(1) assms(3) None free_clicks_eq [OF r(1)] by auto
  qed
  then show ?thesis using None r(1) by (simp add: hrep_def)
qed

theorem free_mem_adds_block_witness:
  "\<exists>t t'. alloc_mem 10 (mem_init 1000 blank_table) = Some (0, t) \<and> free_mem 0 4 t = Some t'
    \<and> free_clicks t' = {10..<1000} \<union> {0..<4}"
proof -
  let ?t0 = "mem_init 1000 blank_table"
  define t where "t = set_hole 0 (\<lambda>h. h\<lparr>h_base := h_base h + 10, h_len := h_len h - 10\<rparr>) ?t0"
  have a: "alloc_mem 10 ?t0 = Some (0, t)"
    by (simp add: alloc_mem_def mem_init_def find_hole.simps t_def word_le_nat_alt word_unat_eq_iff)
  have "hole_inv t \<and> free_clicks t = {0..<1000} - {0..<10}"
    using mem.alloc_ok [of ?t0 10] init_inv [of 1000 blank_table] a
    by (auto simp: t_def mem_init_def dest!: arg_cong [where f = "\<lambda>t. h_len (hole t 0)"])
  moreover have "free_slots t = Some 1" by (simp add: t_def mem_init_def)
  moreover have "{0..<1000} - {0..<10} = {10..<1000::nat}" by auto
  ultimately have "hole_inv t" "free_clicks t = {10..<1000}" "free_slots t = Some 1" by simp_all
  then show ?thesis
    using free_mem_adds_block [of t 0 4] a by (fastforce simp: region_fits_def split: option.splits)
qed

text \<open>C7: Blocks in use never overlap: two allocations in a row return disjoint blocks, and
  freeing an allocated block gives back exactly the clicks that were free before.\<close>

theorem alloc_free_roundtrip:
  assumes "hole_inv t" and "0 < unat c" and "alloc_mem c t = Some (b, t1)" and "t1 \<noteq> t"
  shows "(\<forall>d b' t2. 0 < unat d \<longrightarrow> alloc_mem d t1 = Some (b', t2) \<longrightarrow> t2 \<noteq> t1 \<longrightarrow>
            {unat b..<unat b + unat c} \<inter> {unat b'..<unat b' + unat d} = {})
    \<and> (\<forall>t2. free_mem b c t1 = Some t2 \<longrightarrow> hole_inv t2 \<and> free_clicks t2 = free_clicks t)"
  using mem.alloc_distinct [OF assms(1,2) _ assms(3,4)] mem.alloc_release [OF assms] by blast

theorem alloc_free_roundtrip_witness:
  "\<exists>t. alloc_mem 10 (mem_init 1000 blank_table) = Some (0, t) \<and>
    (\<forall>t2. free_mem 0 10 t = Some t2 \<longrightarrow> free_clicks t2 = {0..<1000})"
proof -
  let ?t0 = "mem_init 1000 blank_table"
  define t where "t = set_hole 0 (\<lambda>h. h\<lparr>h_base := h_base h + 10, h_len := h_len h - 10\<rparr>) ?t0"
  have a: "alloc_mem 10 ?t0 = Some (0, t)"
    by (simp add: alloc_mem_def mem_init_def find_hole.simps t_def word_le_nat_alt word_unat_eq_iff)
  have "h_len (hole t 0) \<noteq> h_len (hole ?t0 0)" by (simp add: t_def mem_init_def)
  then have "t \<noteq> ?t0" by auto
  then show ?thesis
    using alloc_free_roundtrip [of ?t0 10 0 t] init_inv [of 1000 blank_table] a by auto
qed

text \<open>\<^verbatim>\<open>max_hole\<close> returns the length of the longest hole, so that \<^verbatim>\<open>alloc_mem\<close> of a nonzero
  number of clicks changes the table exactly when the request is at most \<^verbatim>\<open>max_hole\<close>.\<close>

theorem max_hole_decides_alloc:
  assumes "hole_inv t" and "0 < unat c"
  shows "\<exists>m b t'. max_hole t = Some m \<and> alloc_mem c t = Some (b, t') \<and> (t' \<noteq> t \<longleftrightarrow> unat c \<le> unat m)"
proof -
  obtain xs fs where r: "hrep t xs fs" "gaps (regions t xs)" using assms(1) by (auto simp: hole_inv_def)
  obtain m where m: "max_hole t = Some m" "unat m = Max (insert 0 (snd ` set (regions t xs)))"
    using max_hole_eq [OF r(1)] by blast
  have sn: "snd ` set (regions t xs) = (\<lambda>i. unat (h_len (hole t i))) ` set xs"
    by (auto simp: regions_def region_of_def image_image)
  have fit: "unat c \<le> unat m \<longleftrightarrow> (\<exists>i\<in>set xs. unat c \<le> unat (h_len (hole t i)))"
    unfolding m(2) sn using assms(2) by (subst Max_ge_iff) auto
  obtain b t' where a: "alloc_mem c t = Some (b, t')"
    "case List.find (\<lambda>i. unat c \<le> unat (h_len (hole t i))) xs of
       None \<Rightarrow> b = NO_MEM \<and> t' = t
     | Some h \<Rightarrow> b = h_base (hole t h) \<and> unat b + unat c < 65536
         \<and> {unat b..<unat b + unat c} \<subseteq> free_clicks t
         \<and> free_clicks t' = free_clicks t - {unat b..<unat b + unat c}"
    using alloc_mem_first_fit [OF r, of c] by blast
  have "t' \<noteq> t \<longleftrightarrow> List.find (\<lambda>i. unat c \<le> unat (h_len (hole t i))) xs \<noteq> None"
  proof (cases "List.find (\<lambda>i. unat c \<le> unat (h_len (hole t i))) xs")
    case (Some h)
    then have "unat b \<in> free_clicks t" "unat b \<notin> free_clicks t'" using a(2) assms(2) by auto
    then show ?thesis using Some by auto
  qed (use a(2) in simp)
  then have "t' \<noteq> t \<longleftrightarrow> unat c \<le> unat m" using fit by (auto simp: find_None_iff)
  then show ?thesis using m(1) a(1) by blast
qed

theorem max_hole_decides_alloc_witness:
  "\<exists>m b t'. max_hole (mem_init 1000 blank_table) = Some m
    \<and> alloc_mem 1000 (mem_init 1000 blank_table) = Some (b, t')
    \<and> (t' \<noteq> mem_init 1000 blank_table \<longleftrightarrow> 1000 \<le> unat m)"
  using max_hole_decides_alloc [OF init_inv(1) [of 1000], of 1000] by simp

end
