(* ===== verification/MMInv.thy ===== *)
theory MMInv
  imports MMMain MMAllocProps
begin

text \<open>
  The memory invariant of the manager: the images of the processes in use and the holes are
  pairwise disjoint, the process count is right, and only processes in use hang.  Every
  operation keeps it.
\<close>

section \<open>The invariant\<close>

text \<open>The clicks of a process image, and the conditions under which its size does not wrap.\<close>

definition image :: "mproc \<Rightarrow> nat set" where
  "image p = {unat (mem_phys (tseg p))..<unat (mem_phys (tseg p)) + unat (image_clicks p)}"

definition image_ok :: "mproc \<Rightarrow> bool" where
  "image_ok p \<longleftrightarrow>
     0 < unat (mem_phys (tseg p))
     \<and> unat (mem_phys (tseg p)) + unat (mem_len (tseg p)) + unat (mem_vir (sseg p))
       + unat (mem_len (sseg p)) < 65536
     \<and> 0 < unat (mem_vir (sseg p)) + unat (mem_len (sseg p))
     \<and> (has_flag (mp_flags p) SEPARATE \<or> mem_len (tseg p) = 0)"

definition owns :: "mm \<Rightarrow> int \<Rightarrow> bool" where
  "owns s p \<longleftrightarrow> 2 \<le> p \<and> p \<le> 15 \<and> mflag s p IN_USE"

definition mem_inv :: "mm \<Rightarrow> bool" where
  "mem_inv s \<longleftrightarrow>
     hole_inv (holes s) \<and> 0 \<notin> free_clicks (holes s)
     \<and> (\<forall>p. owns s p \<longrightarrow> image_ok (mproc s p) \<and> image (mproc s p) \<inter> free_clicks (holes s) = {})
     \<and> (\<forall>p q. owns s p \<longrightarrow> owns s q \<longrightarrow> p \<noteq> q \<longrightarrow> image (mproc s p) \<inter> image (mproc s q) = {})"

definition slot_inv :: "mm \<Rightarrow> bool" where
  "slot_inv s \<longleftrightarrow>
     procs_in_use s = int (card {p. 0 \<le> p \<and> p \<le> 15 \<and> mflag s p IN_USE})
     \<and> (\<forall>p. 0 \<le> p \<and> p \<le> 15 \<and> mflag s p HANGING \<longrightarrow> mflag s p IN_USE)
     \<and> (\<forall>p. 0 \<le> p \<and> p \<le> 1 \<longrightarrow>
          mflag s p IN_USE \<and> \<not> mflag s p WAITING \<and> mp_parent (mproc s p) = 0)"

definition minv :: "mm \<Rightarrow> bool" where
  "minv s \<longleftrightarrow> mem_inv s \<and> slot_inv s"

text \<open>Steps that the invariant does not see.\<close>

definition alike :: "mproc \<Rightarrow> mproc \<Rightarrow> bool" where
  "alike p q \<longleftrightarrow> mp_seg q = mp_seg p
     \<and> has_flag (mp_flags q) IN_USE = has_flag (mp_flags p) IN_USE
     \<and> has_flag (mp_flags q) HANGING = has_flag (mp_flags p) HANGING
     \<and> has_flag (mp_flags q) SEPARATE = has_flag (mp_flags p) SEPARATE"

definition same_images :: "mm \<Rightarrow> mm \<Rightarrow> bool" where
  "same_images s s' \<longleftrightarrow> holes s' = holes s \<and> procs_in_use s' = procs_in_use s
     \<and> (\<forall>p. alike (mproc s p) (mproc s' p))
     \<and> (\<forall>p. p \<le> 1 \<longrightarrow> mp_parent (mproc s' p) = mp_parent (mproc s p)
          \<and> (mflag s' p WAITING \<longrightarrow> mflag s p WAITING))"

lemma alike_image:
  "alike p q \<Longrightarrow> image q = image p \<and> image_ok q = image_ok p"
  by (simp add: alike_def image_def image_ok_def image_clicks_def Let_def)

lemma same_images_refl [simp, intro]: "same_images s s"
  by (simp add: same_images_def alike_def)

lemma same_images_trans [trans]:
  "same_images s t \<Longrightarrow> same_images t u \<Longrightarrow> same_images s u"
  by (auto simp: same_images_def alike_def)

lemma same_images_at:
  assumes "same_images s s'"
  shows "mflag s' p IN_USE \<longleftrightarrow> mflag s p IN_USE" "mflag s' p HANGING \<longleftrightarrow> mflag s p HANGING"
    "mp_seg (mproc s' p) = mp_seg (mproc s p)" "mflag s' p SEPARATE \<longleftrightarrow> mflag s p SEPARATE"
    "holes s' = holes s" "procs_in_use s' = procs_in_use s"
proof -
  have al: "alike (mproc s p) (mproc s' p)" using assms by (simp add: same_images_def)
  show "mflag s' p IN_USE \<longleftrightarrow> mflag s p IN_USE" "mflag s' p HANGING \<longleftrightarrow> mflag s p HANGING"
    "mp_seg (mproc s' p) = mp_seg (mproc s p)" "mflag s' p SEPARATE \<longleftrightarrow> mflag s p SEPARATE"
    using al by (simp_all add: alike_def)
qed (use assms in \<open>simp_all add: same_images_def\<close>)

lemma minv_same:
  assumes i: "minv s" and r: "same_images s s'"
  shows "minv s'"
proof -
  have al: "alike (mproc s p) (mproc s' p)" for p using r by (simp add: same_images_def)
  have a: "image (mproc s' p) = image (mproc s p)" "image_ok (mproc s' p) = image_ok (mproc s p)"
    "mflag s' p IN_USE = mflag s p IN_USE" "mflag s' p HANGING = mflag s p HANGING" for p
    using alike_image [OF al] al [of p] by (simp_all add: alike_def)
  have h: "holes s' = holes s" "procs_in_use s' = procs_in_use s" using r by (auto simp: same_images_def)
  have w: "mp_parent (mproc s' p) = mp_parent (mproc s p) \<and> (mflag s' p WAITING \<longrightarrow> mflag s p WAITING)" if "p \<le> 1" for p
    using r that by (auto simp: same_images_def)
  have "mem_inv s'" using i unfolding minv_def mem_inv_def owns_def a h by blast
  moreover have "slot_inv s'" using i w unfolding minv_def slot_inv_def a h by metis
  ultimately show ?thesis by (simp add: minv_def)
qed

lemma same_emit [simp]: "same_images s (emit c s)"
  by (simp add: same_images_def alike_def)

lemma same_reply: "reply e p r r2 q s = Some s' \<Longrightarrow> same_images s s'"
  using reply_state [of e p r r2 q s s'] by auto

text \<open>An update of one slot, or of the fields outside the table.\<close>

lemma same_set_mp:
  assumes "alike (mproc s i) (f (mproc s i))"
    and "i \<le> 1 \<Longrightarrow> mp_parent (f (mproc s i)) = mp_parent (mproc s i)"
    and "i \<le> 1 \<Longrightarrow> has_flag (mp_flags (f (mproc s i))) WAITING \<Longrightarrow> mflag s i WAITING"
  shows "same_images s (set_mp i f s)"
  using assms by (auto simp: same_images_def alike_def)

lemma same_fields [simp]:
  "same_images s (s\<lparr>mp := i\<rparr>) " "same_images s (s\<lparr>dont_reply := b\<rparr>)" "same_images s (s\<lparr>who := i\<rparr>)"
  "same_images s (s\<lparr>m_sig_i1 := i\<rparr>)" "same_images s (s\<lparr>res_ptr := q\<rparr>)" "same_images s (s\<lparr>result2 := i\<rparr>)"
  "same_images s (s\<lparr>next_pid := i\<rparr>)" "same_images s (s\<lparr>mm_in := m, who := i, mm_call := j\<rparr>)"
  by (simp_all add: same_images_def alike_def)

lemma alike_flags [simp]:
  "alike p (add_flag ALARM_ON p)" "alike p (del_flag ALARM_ON p)" "alike p (add_flag PAUSED p)"
  "alike p (del_flag PAUSED p)" "alike p (add_flag WAITING p)" "alike p (del_flag WAITING p)"
  by (simp_all add: alike_def flag_simps)

lemma same_set_alarm:
  assumes "set_alarm e i sec s = Some (r, s')"
  shows "same_images s s'"
proof -
  have "same_images s (set_mp i (if sec \<noteq> 0 then add_flag ALARM_ON else del_flag ALARM_ON) s)"
    by (rule same_set_mp) (simp_all add: flag_simps split: if_splits)
  moreover obtain j where
    "s' = (emit (SetAlarm (m_sig_i1 s) i (uint (60 * sec)))
       (set_mp i (if sec \<noteq> 0 then add_flag ALARM_ON else del_flag ALARM_ON) s))\<lparr>m_sig_i1 := j\<rparr>"
    using assms by (auto simp: set_alarm_def Let_def split: prod.splits if_splits)
  ultimately show ?thesis
    using same_images_trans [OF same_images_trans [OF _ same_emit] same_fields(4)] by simp
qed

lemma same_unpause:
  assumes "unpause e i s = Some s'"
  shows "same_images s s'"
proof -
  have 1: "same_images s (set_mp i (del_flag PAUSED) s)" "same_images s (set_mp i (del_flag WAITING) s)"
    by (rule same_set_mp, simp_all add: flag_simps)+
  have 2: "same_images s s'" if "reply e i r 0 0 (set_mp i (del_flag f) s) = Some s'"
    "same_images s (set_mp i (del_flag f) s)" for r f
    by (rule same_images_trans [OF that(2) same_reply [OF that(1)]])
  show ?thesis
  proof (cases "(mflag s i PAUSED \<or> mflag s i WAITING) \<and> \<not> mflag s i HANGING")
    case True
    then show ?thesis using assms 1 2 [of EINTR PAUSED] 2 [of EINTR WAITING]
      by (cases "mflag s i PAUSED") (simp_all add: unpause_def)
  next
    case False
    then have "s' = emit (TellFs C_UNPAUSE i 0 0) s"
      using assms by (cases "mflag s i HANGING") (simp_all add: unpause_def)
    then show ?thesis by simp
  qed
qed

lemma same_mem_copy:
  "mem_copy e a b c d f g h s = (r, s') \<Longrightarrow> same_images s s'"
  by (auto simp: mem_copy_def Let_def split: if_splits)

lemma same_getsp: "sys_getsp e i s = (r, s') \<Longrightarrow> same_images s s'"
  by (auto simp: sys_getsp_def Let_def)

lemma same_emits: "same_images s s' \<Longrightarrow> same_images s (emit c s')"
  using same_emit same_images_trans by blast

lemma same_allowed:
  assumes "allowed e n m s = Some (r, st, s')"
  shows "same_images s s'"
  using assms by (auto simp: allowed_def Let_def intro!: same_emits split: if_splits Option.bind_splits)

section \<open>Changing one image\<close>

lemma minv_image:
  assumes "minv s" "owns s p"
  shows "image_ok (mproc s p)" "image (mproc s p) \<inter> free_clicks (holes s) = {}"
    "hole_inv (holes s)" "0 \<notin> free_clicks (holes s)"
  using assms by (auto simp: minv_def mem_inv_def)

lemma image_size:
  assumes "image_ok p"
  shows "unat (image_clicks p) = unat (mem_vir (sseg p)) + unat (mem_len (sseg p)) + unat (mem_len (tseg p))"
    "fork_clicks p = image_clicks p"
    "region_fits (mem_phys (tseg p)) (image_clicks p)"
proof -
  let ?v = "mem_vir (sseg p)" and ?l = "mem_len (sseg p)" and ?t = "mem_len (tseg p)"
  have 1: "unat (?v + ?l) = unat ?v + unat ?l" "unat (?v + ?l + ?t) = unat ?v + unat ?l + unat ?t"
    using assms by (auto simp: image_ok_def unat_word_ariths)
  then show u: "unat (image_clicks p) = unat ?v + unat ?l + unat ?t"
    using assms by (auto simp: image_clicks_def image_ok_def Let_def)
  show "fork_clicks p = image_clicks p"
    using assms by (auto simp: image_clicks_def image_ok_def Let_def fork_clicks_def)
  show "region_fits (mem_phys (tseg p)) (image_clicks p)"
    using assms u by (auto simp: region_fits_def image_ok_def)
qed

text \<open>A slot gives its image back.\<close>

lemma minv_drop:
  assumes i: "minv s" and c: "owns s c"
    and h: "hole_inv h" "free_clicks h = free_clicks (holes s) \<union> image (mproc s c)"
    and s': "holes s' = h" "procs_in_use s' = procs_in_use s - 1"
      "\<And>p. p \<noteq> c \<Longrightarrow> alike (mproc s p) (mproc s' p)"
      "\<not> mflag s' c IN_USE" "\<not> mflag s' c HANGING"
      "\<And>p. p \<le> 1 \<Longrightarrow> mp_parent (mproc s' p) = mp_parent (mproc s p)
          \<and> (mflag s' p WAITING \<longrightarrow> mflag s p WAITING)"
  shows "minv s'"
proof -
  have c2: "2 \<le> c" "c \<le> 15" "mflag s c IN_USE" using c by (auto simp: owns_def)
  have a: "image (mproc s' p) = image (mproc s p)" "image_ok (mproc s' p) = image_ok (mproc s p)"
    "mflag s' p IN_USE = mflag s p IN_USE" "mflag s' p HANGING = mflag s p HANGING" if "p \<noteq> c" for p
    using alike_image [OF s'(3) [OF that]] s'(3) [OF that] by (simp_all add: alike_def)
  have u: "mflag s' p IN_USE \<longleftrightarrow> mflag s p IN_USE \<and> p \<noteq> c" for p
    using a(3) [of p] s'(4) by (cases "p = c") auto
  then have o: "owns s' p \<longleftrightarrow> owns s p \<and> p \<noteq> c" for p by (auto simp: owns_def)
  have z: "0 \<notin> image (mproc s c)" using minv_image(1) [OF i c] by (auto simp: image_ok_def image_def)
  have m: "mem_inv s" and sl: "slot_inv s" using i by (auto simp: minv_def)
  have "mem_inv s'"
    unfolding mem_inv_def o s'(1) h(2)
  proof (intro conjI allI impI)
    show "hole_inv h" by (rule h(1))
    show "0 \<notin> free_clicks (holes s) \<union> image (mproc s c)" using z minv_image(4) [OF i c] by simp
  next
    fix p assume p: "owns s p \<and> p \<noteq> c"
    then show "image_ok (mproc s' p)" using m a(2) by (simp add: mem_inv_def)
    have "image (mproc s p) \<inter> image (mproc s c) = {}" "image (mproc s p) \<inter> free_clicks (holes s) = {}"
      using p c m unfolding mem_inv_def by blast+
    then show "image (mproc s' p) \<inter> (free_clicks (holes s) \<union> image (mproc s c)) = {}"
      using p a(1) by (simp add: Int_Un_distrib)
  next
    fix p q assume "owns s p \<and> p \<noteq> c" "owns s q \<and> q \<noteq> c" "p \<noteq> q"
    then show "image (mproc s' p) \<inter> image (mproc s' q) = {}" using m a(1) by (simp add: mem_inv_def)
  qed
  moreover have "slot_inv s'"
    unfolding slot_inv_def
  proof (intro conjI allI impI)
    have "{p. 0 \<le> p \<and> p \<le> 15 \<and> mflag s' p IN_USE} = {p. 0 \<le> p \<and> p \<le> 15 \<and> mflag s p IN_USE} - {c}"
      using u by auto
    moreover have f: "finite {p::int. 0 \<le> p \<and> p \<le> 15 \<and> mflag s p IN_USE}"
      by (rule finite_subset [of _ "{0..15}"]) auto
    moreover have "c \<in> {p. 0 \<le> p \<and> p \<le> 15 \<and> mflag s p IN_USE}" using c2 by simp
    ultimately have "int (card {p. 0 \<le> p \<and> p \<le> 15 \<and> mflag s' p IN_USE})
        = int (card {p. 0 \<le> p \<and> p \<le> 15 \<and> mflag s p IN_USE}) - 1"
      using card_Suc_Diff1 [OF f, of c] by simp
    then show "procs_in_use s' = int (card {p. 0 \<le> p \<and> p \<le> 15 \<and> mflag s' p IN_USE})"
      using s'(2) sl by (simp add: slot_inv_def)
  next
    fix p :: int assume p: "0 \<le> p \<and> p \<le> 15 \<and> mflag s' p HANGING"
    then have "p \<noteq> c" using s'(5) by auto
    then show "mflag s' p IN_USE" using p a(3,4) sl by (simp add: slot_inv_def)
  next
    fix p :: int assume p: "0 \<le> p \<and> p \<le> 1"
    then have "p \<noteq> c" using c2 by auto
    then show "mflag s' p IN_USE" "mp_parent (mproc s' p) = 0" "\<not> mflag s' p WAITING"
      using p a(3) sl s'(6) by (auto simp: slot_inv_def)
  qed
  ultimately show ?thesis by (simp add: minv_def)
qed

section \<open>EXIT and WAIT\<close>

lemma minv_slot:
  assumes "minv s"
  shows "0 \<le> p \<Longrightarrow> p \<le> 15 \<Longrightarrow> mflag s p HANGING \<Longrightarrow> mflag s p IN_USE"
    and "0 \<le> p \<Longrightarrow> p \<le> 1 \<Longrightarrow> mflag s p IN_USE \<and> \<not> mflag s p WAITING \<and> mp_parent (mproc s p) = 0"
  using assms by (auto simp: minv_def slot_inv_def)

lemma same_parent:
  assumes "2 \<le> i"
  shows "same_images s (set_mp i (\<lambda>p. p\<lparr>mp_parent := q\<rparr>) s)"
  using assms by (intro same_set_mp) (auto simp: alike_def)

lemma disinherit_minv:
  assumes "\<And>c s s'. cleanup n e c s = Some s' \<Longrightarrow> minv s \<Longrightarrow> owns s c \<Longrightarrow> minv s'"
    and "disinherit n e c w l s = Some s'" "minv s" "2 \<le> c" "set l \<subseteq> {0..15}"
  shows "minv s'"
  using assms(2-5)
proof (induction l arbitrary: s w)
  case (Cons rp l)
  show ?case
  proof (cases "mp_parent (mproc s rp) = c")
    case True
    let ?s1 = "set_mp rp (\<lambda>p. p\<lparr>mp_parent := INIT_PROC_NR\<rparr>) s"
    have rp: "2 \<le> rp" "rp \<le> 15" using True Cons.prems minv_slot(2) [of s rp] by force+
    have i1: "minv ?s1" using minv_same [OF Cons.prems(2) same_parent [OF rp(1)]] .
    show ?thesis
    proof (cases "w \<and> mflag ?s1 rp HANGING")
      case w: True
      then obtain s2 where s2: "cleanup n e rp ?s1 = Some s2" "disinherit n e c False l s2 = Some s'"
        using True Cons.prems(1) by (auto simp: Let_def split: Option.bind_splits)
      have "owns ?s1 rp" using minv_slot(1) [OF i1, of rp] w rp by (auto simp: owns_def)
      from assms(1) [OF s2(1) i1 this] have "minv s2" .
      then show ?thesis using Cons.IH [OF s2(2)] Cons.prems by simp
    next
      case w: False
      then have "disinherit n e c w l ?s1 = Some s'" using True Cons.prems(1) by (auto simp: Let_def)
      then show ?thesis using Cons.IH i1 Cons.prems by simp
    qed
  next
    case False
    then show ?thesis using Cons.IH Cons.prems by simp
  qed
qed simp

lemma cleanup_minv:
  assumes "cleanup n e c s = Some s'" "minv s" "owns s c"
  shows "minv s'"
  using assms
proof (induction n arbitrary: c s s')
  case (Suc n)
  define par where "par = mp_parent (mproc s c)"
  obtain s1 h where r: "reply e par (mp_pid (mproc s c)) (sint (wait_status (mproc s c))) 0 s = Some s1"
    and h: "free_mem (mem_phys (tseg (mproc s1 c))) (image_clicks (mproc s1 c)) (holes s1) = Some h"
    and d: "disinherit n e c (mflag (release_slot c par h s1) INIT_PROC_NR WAITING) slots
       (release_slot c par h s1) = Some s'"
    using Suc.prems(1) by (auto simp: Let_def par_def split: Option.bind_splits)
  note m = reply_sel [OF r]
  have i1: "minv s1" using minv_same [OF Suc.prems(2) same_reply [OF r]] .
  have o1: "owns s1 c" using Suc.prems(3) m by (simp add: owns_def)
  note im = minv_image [OF i1 o1]
  have "hole_inv h \<and> free_clicks h = free_clicks (holes s1) \<union> image (mproc s1 c)"
    using mem.release_ok [OF im(3) h image_size(3) [OF im(1)]] im(2) by (simp add: image_def)
  then have "minv (release_slot c par h s1)"
    by (intro minv_drop [OF i1 o1, of h]) (auto simp: release_slot_def Let_def alike_def flag_simps)
  moreover have "2 \<le> c" using Suc.prems(3) by (simp add: owns_def)
  ultimately show ?case using disinherit_minv [OF Suc.IH d] by simp
qed simp

section \<open>One slot changed in place\<close>

lemma minv_update:
  assumes i: "minv s" and h: "holes s' = holes s" "procs_in_use s' = procs_in_use s"
    and o: "\<And>p. p \<noteq> i \<Longrightarrow> alike (mproc s p) (mproc s' p)"
    and f: "mflag s' i IN_USE = mflag s i IN_USE" "0 \<le> i \<Longrightarrow> i \<le> 15 \<Longrightarrow> mflag s' i HANGING \<Longrightarrow> mflag s i IN_USE"
    and m: "owns s i \<Longrightarrow> image_ok (mproc s' i) \<and> image (mproc s' i) = image (mproc s i)"
    and w: "\<And>p. p \<le> 1 \<Longrightarrow> mp_parent (mproc s' p) = mp_parent (mproc s p)
          \<and> (mflag s' p WAITING \<longrightarrow> mflag s p WAITING)"
  shows "minv s'"
proof -
  have u: "mflag s' p IN_USE = mflag s p IN_USE" for p
    using f(1) o [of p] by (cases "p = i") (auto simp: alike_def)
  then have ow: "owns s' p = owns s p" for p by (simp add: owns_def)
  have im: "image (mproc s' p) = image (mproc s p)" if "owns s p" for p
    using m alike_image [OF o [of p]] that by (cases "p = i") auto
  have ok: "image_ok (mproc s' p)" if "owns s p" for p
    using m alike_image [OF o [of p]] that i by (cases "p = i") (auto simp: minv_def mem_inv_def)
  have hg: "mflag s' p IN_USE" if "mflag s' p HANGING" "0 \<le> p" "p \<le> 15" for p
    using f o [of p] that i by (cases "p = i") (auto simp: alike_def minv_def slot_inv_def)
  have "mem_inv s'" using i im ok unfolding minv_def mem_inv_def ow h by (simp add: im)
  moreover have "slot_inv s'" using i hg w unfolding minv_def slot_inv_def u h by metis
  ultimately show ?thesis by (simp add: minv_def)
qed

lemma grow_stack_size:
  fixes c v l :: u16
  assumes "unat c < unat v" "unat v + unat l < 65536"
  shows "unat (v - word_of_int (uint v - uint c)) + unat (l + word_of_int (uint v - uint c)) = unat v + unat (l :: u16)"
proof -
  have w: "word_of_int (uint v - uint c) = v - c" by simp
  have 1: "unat (v - c) = unat v - unat c" using assms(1) by (simp add: unat_sub word_le_nat_alt)
  have "unat (l + (v - c)) = unat l + (unat v - unat c)"
    using assms unfolding 1 [symmetric] by (subst unat_add_lem [THEN iffD1]) (auto simp: 1)
  then show ?thesis using assms(1) unfolding w by simp
qed

lemma adjusted_image:
  fixes p :: mproc and c d :: u16
  defines "delta \<equiv> uint (mem_vir (sseg p)) - uint c"
  assumes ok: "image_ok p"
  shows "image_ok (adjusted d delta p) \<and> image (adjusted d delta p) = image p"
proof (cases "delta > 0")
  case True
  then have "unat c < unat (mem_vir (sseg p))" unfolding delta_def
    by (metis diff_gt_0_iff_gt uint_nat of_nat_less_iff)
  moreover have "unat (mem_vir (sseg p)) + unat (mem_len (sseg p)) < 65536"
    using ok by (simp add: image_ok_def)
  ultimately have g: "unat (mem_vir (sseg p) - word_of_int delta) + unat (mem_len (sseg p) + word_of_int delta)
      = unat (mem_vir (sseg p)) + unat (mem_len (sseg p))"
    unfolding delta_def by (rule grow_stack_size)
  have "mem_vir (sseg p) - word_of_int delta + (mem_len (sseg p) + word_of_int delta)
      = mem_vir (sseg p) + mem_len (sseg p)" by simp
  then show ?thesis
    using ok g True by (simp add: adjusted_def image_ok_def image_def image_clicks_def grow_stack_def Let_def)
next
  case False
  then show ?thesis using ok by (simp add: adjusted_def image_ok_def image_def image_clicks_def Let_def)
qed

lemma adjust_minv:
  assumes "adjust i d sp s = (r, s')" "minv s"
  shows "minv s'"
proof -
  define delta where "delta = uint (mem_vir (sseg (mproc s i))) - uint (drop_bit 4 sp)"
  have "s' = s \<or> s' = set_mp i (adjusted d delta) s
      \<or> s' = emit (SysNewmap i (mp_seg (adjusted d delta (mproc s i)))) (set_mp i (adjusted d delta) s)"
    using assms(1) adjust_cases [of i d sp s] unfolding delta_def [symmetric] by (auto split: if_splits)
  moreover have fl: "mp_flags (adjusted d delta p) = mp_flags p" "mp_parent (adjusted d delta p) = mp_parent p" for p
    by (simp_all add: adjusted_def Let_def)
  moreover have "minv (set_mp i (adjusted d delta) s)"
  proof (rule minv_update [OF assms(2), where i = i])
    assume "owns s i"
    then show "image_ok (mproc (set_mp i (adjusted d delta) s) i)
        \<and> image (mproc (set_mp i (adjusted d delta) s) i) = image (mproc s i)"
      using adjusted_image [of "mproc s i"] minv_image(1) [OF assms(2)] by (simp add: delta_def)
  qed (use minv_slot(1) [OF assms(2)] in \<open>auto simp: fl alike_def\<close>)
  ultimately show ?thesis using assms(2) minv_same [OF _ same_emit] by metis
qed

section \<open>Death of a process\<close>

lemma image_cong:
  assumes "mp_seg q = mp_seg p" "has_flag (mp_flags q) SEPARATE = has_flag (mp_flags p) SEPARATE"
  shows "image q = image p" "image_ok q = image_ok p"
  using assms by (simp_all add: image_def image_ok_def image_clicks_def Let_def)

lemma minv_hang:
  assumes "minv s" "mflag s i IN_USE"
  shows "minv (set_mp i (add_flag HANGING) s)"
proof (rule minv_update [OF assms(1), where i = i])
  assume "owns s i"
  then show "image_ok (mproc (set_mp i (add_flag HANGING) s) i)
      \<and> image (mproc (set_mp i (add_flag HANGING) s) i) = image (mproc s i)"
    using image_cong [of "add_flag HANGING (mproc s i)" "mproc s i"] minv_image(1) [OF assms(1)]
    by (simp add: flag_simps)
qed (use assms(2) in \<open>auto simp: alike_def flag_simps\<close>)

lemma mm_exit_minv:
  assumes e: "mm_exit e p st s = Some s'" and i: "minv s" and p: "0 \<le> p" "p \<le> 15" "mflag s p IN_USE"
  shows "minv s'"
proof -
  define s1 where "s1 = set_mp p (\<lambda>q. q\<lparr>mp_exitstatus := st\<rparr>) s"
  have i1: "minv s1" unfolding s1_def by (rule minv_same [OF i same_set_mp]) (auto simp: alike_def)
  have u: "mflag s1 p IN_USE" using p(3) by (simp add: s1_def)
  obtain s2 s3 where c: "(if mflag s1 (mp_parent (mproc s1 p)) WAITING then cleanup cleanup_depth e p s1
            else Some (set_mp p (add_flag HANGING) s1)) = Some s2"
    and a: "(if mflag s2 p ALARM_ON then do { (_, s3) \<leftarrow> set_alarm e p 0 s2; Some s3 } else Some s2) = Some s3"
    and r: "s' = emit (TellFs C_EXIT p 0 0) (emit (SysXit (mp_parent (mproc s3 p)) p) s3)"
    using e unfolding mm_exit_def Let_def s1_def [symmetric]
    by (simp only: bind_eq_Some_conv option.inject) blast
  have "minv s2"
  proof (cases "mflag s1 (mp_parent (mproc s1 p)) WAITING")
    case True
    then have "\<not> p \<le> 1" using minv_slot(2) [OF i1, of p] minv_slot(2) [OF i1, of 0] p(1) by auto
    then have "owns s1 p" using p u by (simp add: owns_def)
    moreover have "cleanup cleanup_depth e p s1 = Some s2" using c unfolding if_P [OF True] .
    ultimately show ?thesis using cleanup_minv [OF _ i1] by blast
  next
    case False
    have "s2 = set_mp p (add_flag HANGING) s1" using c unfolding if_not_P [OF False] by simp
    then show ?thesis using minv_hang [OF i1 u] by simp
  qed
  moreover have "same_images s2 s3"
    using a by (auto split: if_splits Option.bind_splits prod.splits intro: same_set_alarm)
  ultimately have "minv s3" using minv_same by blast
  then show ?thesis unfolding r by (intro minv_same [OF _ same_emits [OF same_emit]])
qed

lemma do_wait_minv:
  assumes "do_wait e s = Some (r, s')" "minv s" "2 \<le> who s" "mp s = who s"
  shows "minv s'"
proof -
  define ch where "ch = filter (\<lambda>i. mflag s i IN_USE \<and> mp_parent (mproc s i) = who s) slots"
  have ch: "owns s i" if "i \<in> set ch" for i
  proof -
    have "mflag s i IN_USE" "mp_parent (mproc s i) = who s" "0 \<le> i" "i \<le> 15" using that by (auto simp: ch_def)
    moreover have "\<not> i \<le> 1" using calculation minv_slot(2) [OF assms(2), of i] assms(3) by auto
    ultimately show ?thesis by (simp add: owns_def)
  qed
  show ?thesis
  proof (cases "List.find (\<lambda>i. mflag s i HANGING) ch")
    case (Some rp)
    then have "owns s rp" using ch by (auto simp: find_Some_iff)
    moreover obtain s1 where "cleanup cleanup_depth e rp s = Some s1" "s' = s1\<lparr>dont_reply := True\<rparr>"
      using assms(1) Some unfolding do_wait_def Let_def ch_def [symmetric] by (auto split: Option.bind_splits)
    ultimately show ?thesis using cleanup_minv [OF _ assms(2)] minv_same [OF _ same_fields(2)] by blast
  next
    case None
    have "same_images s (set_mp (mp s) (add_flag WAITING) s)"
      by (rule same_set_mp) (use assms(3,4) in auto)
    moreover have "s' = s \<or> s' = (set_mp (mp s) (add_flag WAITING) s)\<lparr>dont_reply := True\<rparr>"
      using assms(1) None unfolding do_wait_def Let_def ch_def [symmetric] by (auto split: if_splits)
    ultimately show ?thesis
      using assms(2) minv_same same_images_trans [OF _ same_fields(2)] by metis
  qed
qed

section \<open>Signals\<close>

lemma same_dump_lens: "dump_lens e fd i l s = (b, s') \<Longrightarrow> same_images s s'"
proof (induction l arbitrary: s)
  case (Cons j l)
  let ?s1 = "emit (WriteLong fd (uint (push_bit CLICK_SHIFT (mem_len (mp_seg (mproc s i) j))))) s"
  have "s' = ?s1 \<or> dump_lens e fd i l ?s1 = (b, s')"
    using Cons.prems by (auto simp: Let_def split: if_splits)
  then show ?case using Cons.IH same_images_trans [OF same_emit] by auto
qed simp

lemma same_dump_bytes: "dump_bytes e fd i j a c s = (b, s') \<Longrightarrow> same_images s s'"
proof (induction e fd i j a c s rule: dump_bytes.induct)
  case (1 e fd slot i a c s)
  show ?case
  proof (cases "c = 0")
    case True
    then show ?thesis using "1.prems" by (simp add: dump_bytes.simps)
  next
    case False
    obtain er1 s1 where m: "mem_copy e slot i a MM_PROC_NR SEG_D (e_buf e) (int (min c 256)) s = (er1, s1)"
      by fastforce
    let ?s2 = "emit (WriteBuf fd (int (min c 256))) s1"
    have "same_images s ?s2" by (rule same_emits [OF same_mem_copy [OF m]])
    moreover have "s' = ?s2 \<or> same_images ?s2 s'"
      using "1.prems" "1.IH" [OF False refl m [symmetric] refl refl] False m
      by (subst (asm) dump_bytes.simps) (auto simp: Let_def split: if_splits)
    ultimately show ?thesis using same_images_trans by blast
  qed
qed

lemma same_dump_segs: "dump_segs e fd i l s = (b, s') \<Longrightarrow> same_images s s'"
proof (induction l arbitrary: s)
  case (Cons j l)
  obtain ok s1 where d: "dump_bytes e fd i j (uint (mem_vir (mp_seg (mproc s i) j)) * 16)
      (unat (mem_len (mp_seg (mproc s i) j)) * 16) s = (ok, s1)" by fastforce
  then have "s' = s1 \<or> dump_segs e fd i l s1 = (b, s')"
    using Cons.prems by (auto simp: Let_def split: if_splits)
  then show ?case using Cons.IH same_images_trans [OF same_dump_bytes [OF d]] same_dump_bytes [OF d] by auto
qed simp

lemma same_sigstatus: "same_images s (set_mp i (\<lambda>q. q\<lparr>mp_sigstatus := f q\<rparr>) s)"
  by (rule same_set_mp) (auto simp: alike_def)

lemma same_close_if: "same_images s s' \<Longrightarrow> same_images s (close_if fd s')"
  by (simp add: close_if_def same_emits)

lemma same_write_core: "same_images s (write_core e n i s)"
proof -
  define fd s2 where "fd = e_creat e (calls (emit (CreatF n) s))"
    and "s2 = emit (TellFs C_CHDIR 0 1 0) (emit (CreatF n) s)"
  have s2: "same_images s s2" unfolding s2_def by (intro same_emits) simp
  define s3 where "s3 = set_mp i (\<lambda>q. q\<lparr>mp_sigstatus := mp_sigstatus q OR DUMPED\<rparr>) s2"
  have s3: "same_images s s3" unfolding s3_def by (rule same_images_trans [OF s2 same_sigstatus])
  obtain ok s4 where d: "dump_lens e fd i [0, 1, 2] s3 = (ok, s4)" by fastforce
  obtain ok' s5 where d': "dump_segs e fd i [0, 1, 2] s4 = (ok', s5)" by fastforce
  have s4: "same_images s s4" by (rule same_images_trans [OF s3 same_dump_lens [OF d]])
  have s5: "same_images s s5" by (rule same_images_trans [OF s4 same_dump_segs [OF d']])
  have "write_core e n i s = (if fd < 0 then s2 else emit (CloseF fd) (if ok then s5 else s4))"
    unfolding write_core_def Let_def fd_def [symmetric] s2_def [symmetric] s3_def [symmetric] d
    by (simp add: d' del: dump_segs.simps dump_lens.simps One_nat_def)
  then show ?thesis using s2 s4 s5 by (simp add: same_emits)
qed

lemma same_dump_core:
  assumes "dump_core e i s = Some s'"
  shows "same_images s s'"
proof (cases "mp_realuid (mproc s i) = mp_effuid (mproc s i)")
  case False
  then show ?thesis using assms by (auto simp: dump_core_def)
next
  case True
  define s0 where "s0 = emit (TellFs C_CHDIR i 0 0) s"
  obtain r x s1 sd y s2 where a: "allowed e [99, 111, 114, 101] W_BIT (s0\<lparr>mp := i\<rparr>) = Some (r, x, s1)"
      "allowed e [46] W_BIT s1 = Some (sd, y, s2)"
      "s' = write_core e [99, 111, 114, 101] i (close_if sd (close_if r (s2\<lparr>mp := mp s0\<rparr>)))
       \<or> (\<exists>r1. s' = emit (CloseF r1) (emit (TellFs C_CHDIR 0 1 0) (close_if sd (close_if r (s2\<lparr>mp := mp s0\<rparr>)))))"
    using assms True unfolding dump_core_def Let_def s0_def [symmetric]
    by (auto simp: s0_def split: Option.bind_splits prod.splits if_splits)
  have "same_images s s0" by (simp add: s0_def)
  also have "same_images s0 (s0\<lparr>mp := i\<rparr>)" by simp
  also have "same_images \<dots> s1" by (rule same_allowed [OF a(1)])
  also have "same_images \<dots> s2" by (rule same_allowed [OF a(2)])
  also have "same_images \<dots> (s2\<lparr>mp := mp s0\<rparr>)" by simp
  finally have "same_images s (close_if sd (close_if r (s2\<lparr>mp := mp s0\<rparr>)))" by (intro same_close_if)
  then show ?thesis using a(3) same_images_trans [OF _ same_write_core] same_emits by blast
qed

lemma sig_proc_minv:
  assumes e: "sig_proc e i sig s = Some s'" and m: "minv s" and i: "0 \<le> i" "i \<le> 15"
  shows "minv s'"
proof (cases "mflag s i IN_USE")
  case False
  then show ?thesis using e m by (simp add: sig_proc_def)
next
  case u: True
  define die where "die = (\<lambda>s. do {
            let s1 = set_mp i (\<lambda>p. p\<lparr>mp_sigstatus := word_of_int sig\<rparr>) s;
            s2 \<leftarrow> (if has_flag CORE_BITS (sig_mask sig) then dump_core e i s1 else Some s1);
            mm_exit e i 0 s2
          })"
  have die: "minv t'" if d: "die t = Some t'" and t: "minv t" "mflag t i IN_USE" for t t'
  proof -
    let ?t1 = "set_mp i (\<lambda>p. p\<lparr>mp_sigstatus := word_of_int sig\<rparr>) t"
    obtain t2 where t2: "(if has_flag CORE_BITS (sig_mask sig) then dump_core e i ?t1 else Some ?t1) = Some t2"
      "mm_exit e i 0 t2 = Some t'"
      using d unfolding die_def Let_def by (simp only: bind_eq_Some_conv) blast
    have "same_images ?t1 t2"
    proof (cases "has_flag CORE_BITS (sig_mask sig)")
      case True
      show ?thesis by (rule same_dump_core) (use t2(1) True in \<open>simp only: if_True\<close>)
    next
      case False
      then show ?thesis using t2(1) by simp
    qed
    then have st: "same_images t t2" by (rule same_images_trans [OF same_sigstatus])
    show ?thesis
      by (rule mm_exit_minv [OF t2(2) minv_same [OF t(1) st] i]) (use t(2) same_images_at(1) [OF st] in simp)
  qed
  show ?thesis
  proof (cases "has_flag (mp_catch (mproc s i)) (sig_mask sig)")
    case True
    define s1 where "s1 = set_mp i (\<lambda>p. p\<lparr>mp_catch := clr_flag (mp_catch p) (sig_mask sig)\<rparr>) s"
    obtain sp s2 where g: "sys_getsp e i s1 = (sp, s2)" by fastforce
    obtain r s3 where a: "adjust i (mem_len (dseg (mproc s2 i))) (sp - 8) s2 = (r, s3)" by fastforce
    have "same_images s s1" unfolding s1_def by (rule same_set_mp) (auto simp: alike_def)
    then have s2: "same_images s s2" using same_images_trans same_getsp [OF g] by blast
    then have m3: "minv s3" using adjust_minv [OF a] minv_same [OF m] by blast
    have "mflag s2 i IN_USE" using u s2 same_images_at(1) by blast
    then have u3: "mflag s3 i IN_USE"
      using a adjust_cases [of i "mem_len (dseg (mproc s2 i))" "sp - 8" s2]
      by (auto simp: adjusted_def Let_def split: if_splits)
    have "s' = emit (SysSig i sig (mp_func (mproc s3 i))) s3 \<or> die s3 = Some s'"
      using e u True g a unfolding sig_proc_def Let_def s1_def [symmetric] die_def by (auto split: if_splits)
    then show ?thesis using die [OF _ m3 u3] minv_same [OF m3 same_emit] by blast
  next
    case False
    then have "die s = Some s'" using e u unfolding sig_proc_def Let_def die_def by simp
    then show ?thesis using die m u by blast
  qed
qed

lemma check_procs_minv:
  "check_procs e pid sig uid l n s = Some (n', s') \<Longrightarrow> minv s \<Longrightarrow> set l \<subseteq> {0..15} \<Longrightarrow> minv s'"
proof (induction l arbitrary: n s)
  case (Cons i l)
  define s1 where "s1 = (if sig = SIGALRM then set_mp i (del_flag ALARM_ON) s else s)"
  have "same_images s (set_mp i (del_flag ALARM_ON) s)"
    by (rule same_set_mp) (simp_all add: flag_simps)
  then have i1: "minv s1" using Cons.prems(2) minv_same by (auto simp: s1_def)
  have l: "set l \<subseteq> {0..15}" "0 \<le> i" "i \<le> 15" using Cons.prems(3) by auto
  consider t where "t = s \<or> t = s1" "check_procs e pid sig uid l n t = Some (n', s')"
    | s2 s3 where "sig_proc e i sig s1 = Some s2" "unpause e i s2 = Some s3"
        "s' = s3 \<or> check_procs e pid sig uid l (n + 1) s3 = Some (n', s')"
    using Cons.prems(1) unfolding check_procs.simps Let_def s1_def [symmetric]
    by (simp split: if_splits Option.bind_splits) blast+
  then show ?case
  proof cases
    case 1
    then show ?thesis using Cons.IH [of n t] i1 Cons.prems(2) l by blast
  next
    case 2
    then have "minv s3" using minv_same [OF sig_proc_minv [OF 2(1) i1 l(2,3)] same_unpause] by blast
    then show ?thesis using 2(3) Cons.IH [of "n + 1" s3] l by blast
  qed
qed simp

lemma check_sig_minv:
  assumes "check_sig e pid sig uid s = Some (r, s')" "minv s"
  shows "minv s'"
proof (cases "sig < 1 \<or> sig > NR_SIGS")
  case True
  then show ?thesis using assms by (auto simp: check_sig_def)
next
  case False
  then obtain n s1 where c: "check_procs e pid sig uid [INIT_PROC_NR + 1..NR_PROCS - 1] 0 s = Some (n, s1)"
    "s' = (if \<not> mflag s1 (mp s1) IN_USE \<or> mflag s1 (mp s1) HANGING then s1\<lparr>dont_reply := True\<rparr> else s1)"
    using assms(1) unfolding check_sig_def
    by (auto simp del: check_procs.simps split: Option.bind_splits)
  have "minv s1" by (rule check_procs_minv [OF c(1) assms(2)]) auto
  then show ?thesis using c(2) minv_same [OF _ same_fields(2)] by auto
qed

lemma ksig_loop_minv:
  "ksig_loop e m pid l s = Some s' \<Longrightarrow> minv s \<Longrightarrow> minv s'"
proof (induction l arbitrary: s)
  case (Cons i l)
  then show ?case using check_sig_minv by (fastforce simp: Let_def split: if_splits Option.bind_splits)
qed simp

lemma stack_fault_minv:
  assumes "stack_fault e i s = Some s'" "minv s" "0 \<le> i" "i \<le> 15"
  shows "minv s'"
proof -
  obtain sp s1 where g: "sys_getsp e i s = (sp, s1)" by fastforce
  obtain r s2 where a: "adjust i (mem_len (dseg (mproc s1 i))) sp s1 = (r, s2)" by fastforce
  have m: "minv s2" using adjust_minv [OF a] minv_same [OF assms(2) same_getsp [OF g]] by blast
  have "same_images s2 (set_mp i (\<lambda>p. p\<lparr>mp_catch := 0\<rparr>) s2)"
    by (rule same_set_mp) (auto simp: alike_def)
  then have "minv (set_mp i (\<lambda>p. p\<lparr>mp_catch := 0\<rparr>) s2)" by (rule minv_same [OF m])
  then show ?thesis
    using assms(1) g a m sig_proc_minv [OF _ _ assms(3,4)] by (auto simp: stack_fault_def split: if_splits)
qed

lemma do_ksig_minv:
  assumes "do_ksig e s = Some (r, s')" "minv s" "0 \<le> m1_i1 (mm_in s)" "m1_i1 (mm_in s) \<le> 15"
  shows "minv s'"
proof -
  have m: "minv (s\<lparr>mp := 0\<rparr>)" by (rule minv_same [OF assms(2) same_fields(1)])
  have "s' = s \<or> stack_fault e (m1_i1 (mm_in s)) (s\<lparr>mp := 0\<rparr>) = Some s'
    \<or> (\<exists>s2. ksig_loop e (word_of_int (m1_i2 (mm_in s))) (mp_pid (mproc s (m1_i1 (mm_in s)))) [0..<16]
          (s\<lparr>mp := 0\<rparr>) = Some s2 \<and> s' = s2\<lparr>dont_reply := True\<rparr>)"
    using assms(1) unfolding do_ksig_def Let_def
    by (auto simp del: ksig_loop.simps upt_rec_numeral split: if_splits Option.bind_splits)
  then show ?thesis
    using assms(2) stack_fault_minv [OF _ m assms(3,4)] ksig_loop_minv [OF _ m]
      minv_same [OF _ same_fields(2)] by blast
qed

end
