(* ===== verification/MMInvMem.thy ===== *)
theory MMInvMem
  imports MMInv
begin

text \<open>
  FORK and EXEC keep the memory invariant, and so does every turn of the main loop.
\<close>

section \<open>A slot gets a new image\<close>

lemma minv_swap:
  assumes i: "minv s" and c: "2 \<le> c" "c \<le> 15"
    and F: "F = free_clicks (holes s) \<union> (if mflag s c IN_USE then image (mproc s c) else {})"
    and h: "hole_inv h" "free_clicks h = F - I" "I \<subseteq> F"
    and s': "holes s' = h" "procs_in_use s' = procs_in_use s + (if mflag s c IN_USE then 0 else 1)"
      "\<And>p. p \<noteq> c \<Longrightarrow> alike (mproc s p) (mproc s' p)"
      "mflag s' c IN_USE" "image_ok (mproc s' c)" "image (mproc s' c) = I"
      "\<And>p. p \<le> 1 \<Longrightarrow> mp_parent (mproc s' p) = mp_parent (mproc s p)
          \<and> (mflag s' p WAITING \<longrightarrow> mflag s p WAITING)"
  shows "minv s'"
proof -
  have a: "image (mproc s' p) = image (mproc s p)" "image_ok (mproc s' p) = image_ok (mproc s p)"
    "mflag s' p IN_USE = mflag s p IN_USE" "mflag s' p HANGING = mflag s p HANGING" if "p \<noteq> c" for p
    using alike_image [OF s'(3) [OF that]] s'(3) [OF that] by (simp_all add: alike_def)
  have o: "owns s' p \<longleftrightarrow> owns s p \<or> p = c" for p
    using a(3) [of p] s'(4) c by (cases "p = c") (auto simp: owns_def)
  have m: "mem_inv s" and sl: "slot_inv s" using i by (auto simp: minv_def)
  have oc: "owns s c \<longleftrightarrow> mflag s c IN_USE" using c by (simp add: owns_def)
  have disj: "image (mproc s p) \<inter> F = {}" if "owns s p" "p \<noteq> c" for p
  proof -
    have "image (mproc s p) \<inter> free_clicks (holes s) = {}" using that m by (simp add: mem_inv_def)
    moreover have "image (mproc s p) \<inter> image (mproc s c) = {}" if "owns s c"
      using that \<open>owns s p\<close> \<open>p \<noteq> c\<close> m unfolding mem_inv_def by blast
    ultimately show ?thesis unfolding F oc [symmetric] by auto
  qed
  have "0 \<notin> F"
    using m minv_image(1) [OF i, of c] unfolding mem_inv_def F oc [symmetric]
    by (auto simp: image_def image_ok_def)
  have "mem_inv s'"
    unfolding mem_inv_def s'(1) h(2)
  proof (intro conjI allI impI)
    show "hole_inv h" by (rule h(1))
    show "0 \<notin> F - I" using \<open>0 \<notin> F\<close> by simp
  next
    fix p assume p: "owns s' p"
    show "image_ok (mproc s' p)" using p o a(2) s'(5) m by (cases "p = c") (auto simp: mem_inv_def)
    show "image (mproc s' p) \<inter> (F - I) = {}"
    proof (cases "p = c")
      case False
      then have "image (mproc s p) \<inter> F = {}" using p o disj by simp
      then show ?thesis using a(1) [OF False] by auto
    qed (use s'(6) in auto)
  next
    fix p q assume p: "owns s' p" "owns s' q" "p \<noteq> q"
    consider "p = c" | "q = c" | "p \<noteq> c" "q \<noteq> c" by blast
    then show "image (mproc s' p) \<inter> image (mproc s' q) = {}"
    proof cases
      case 1
      then show ?thesis using p o [of q] a(1) [of q] s'(6) disj [of q] h(3) by auto
    next
      case 2
      then show ?thesis using p o [of p] a(1) [of p] s'(6) disj [of p] h(3) by auto
    next
      case 3
      then show ?thesis using p o a(1) m by (simp add: mem_inv_def)
    qed
  qed
  moreover have "slot_inv s'"
    unfolding slot_inv_def
  proof (intro conjI allI impI)
    have e: "{p. 0 \<le> p \<and> p \<le> 15 \<and> mflag s' p IN_USE}
        = insert c {p. 0 \<le> p \<and> p \<le> 15 \<and> mflag s p IN_USE}"
    proof (rule set_eqI)
      fix p
      show "p \<in> {p. 0 \<le> p \<and> p \<le> 15 \<and> mflag s' p IN_USE}
          \<longleftrightarrow> p \<in> insert c {p. 0 \<le> p \<and> p \<le> 15 \<and> mflag s p IN_USE}"
        using a(3) [of p] s'(4) c by (cases "p = c") auto
    qed
    have f: "finite {p::int. 0 \<le> p \<and> p \<le> 15 \<and> mflag s p IN_USE}"
      by (rule finite_subset [of _ "{0..15}"]) auto
    show "procs_in_use s' = int (card {p. 0 \<le> p \<and> p \<le> 15 \<and> mflag s' p IN_USE})"
      using s'(2) sl c unfolding e card_insert_if [OF f] by (auto simp: slot_inv_def)
  next
    fix p :: int assume p: "0 \<le> p \<and> p \<le> 15 \<and> mflag s' p HANGING"
    then show "mflag s' p IN_USE" using a(3,4) s'(4) sl by (cases "p = c") (auto simp: slot_inv_def)
  next
    fix p :: int assume p: "0 \<le> p \<and> p \<le> 1"
    then have "p \<noteq> c" using c by auto
    then show "mflag s' p IN_USE" "mp_parent (mproc s' p) = 0" "\<not> mflag s' p WAITING"
      using p a(3) sl s'(7) by (auto simp: slot_inv_def)
  qed
  ultimately show ?thesis by (simp add: minv_def)
qed

section \<open>FORK\<close>

text \<open>The pid search changes nothing but the child's pid, and returns one that no slot has.\<close>

lemma pick_pid_aux:
  assumes "pick_pid c tab np = Some y"
  shows "snd y = tab(c := (tab c)\<lparr>mp_pid := fst y\<rparr>)
     \<and> (\<forall>i. 0 \<le> i \<and> i \<le> 15 \<and> i \<noteq> c \<longrightarrow> mp_pid (tab i) \<noteq> fst y)"
proof (rule pick_pid.raw_induct [OF _ assms])
  fix pick rmc tab np y
  assume ih: "\<And>c tab np y. pick c tab np = Some y \<Longrightarrow> snd y = tab(c := (tab c)\<lparr>mp_pid := fst y\<rparr>)
     \<and> (\<forall>i. 0 \<le> i \<and> i \<le> 15 \<and> i \<noteq> c \<longrightarrow> mp_pid (tab i) \<noteq> fst y)"
    and step: "(let np' = succ_pid np; tab' = tab(rmc := (tab rmc)\<lparr>mp_pid := np'\<rparr>)
      in if pid_taken tab np' then pick rmc tab' np' else Some (np', tab')) = Some y"
  define np' where "np' = succ_pid np"
  define t where "t = tab(rmc := (tab rmc)\<lparr>mp_pid := np'\<rparr>)"
  show "snd y = tab(rmc := (tab rmc)\<lparr>mp_pid := fst y\<rparr>)
     \<and> (\<forall>i. 0 \<le> i \<and> i \<le> 15 \<and> i \<noteq> rmc \<longrightarrow> mp_pid (tab i) \<noteq> fst y)"
  proof (cases "pid_taken tab np'")
    case True
    then have "pick rmc t np' = Some y"
      using step by (simp add: np'_def [symmetric] t_def Let_def)
    from ih [OF this] show ?thesis by (simp add: t_def)
  next
    case False
    then have "y = (np', t)" using step by (simp add: np'_def [symmetric] t_def [symmetric] Let_def)
    then show ?thesis using False by (auto simp: t_def pid_taken_def list_ex_iff)
  qed
qed

lemma pick_pid_result:
  "pick_pid c tab np = Some (n, tab') \<Longrightarrow>
     tab' = tab(c := (tab c)\<lparr>mp_pid := n\<rparr>) \<and> (\<forall>i. 0 \<le> i \<and> i \<le> 15 \<and> i \<noteq> c \<longrightarrow> mp_pid (tab i) \<noteq> n)"
  using pick_pid_aux [of c tab np "(n, tab')"] by simp

lemma alloc_base:
  assumes i: "minv s" and c: "0 < unat c" and a: "alloc_mem c (holes s) = Some (b, h)"
  shows "b = NO_MEM \<and> h = holes s \<or> 0 < unat b \<and> hole_inv h \<and> unat b + unat c < 65536
    \<and> {unat b..<unat b + unat c} \<subseteq> free_clicks (holes s)
    \<and> free_clicks h = free_clicks (holes s) - {unat b..<unat b + unat c}"
proof -
  have m: "hole_inv (holes s)" "0 \<notin> free_clicks (holes s)" using i by (auto simp: minv_def mem_inv_def)
  from mem.alloc_ok [OF m(1) c] a consider "h = holes s" "b = 0"
    | "hole_inv h" "unat b + unat c < 65536" "{unat b..<unat b + unat c} \<subseteq> free_clicks (holes s)"
      "free_clicks h = free_clicks (holes s) - {unat b..<unat b + unat c}" by auto
  then show ?thesis
  proof cases
    case 2
    have "unat b \<in> {unat b..<unat b + unat c}" using c by simp
    then have "unat b \<noteq> 0" using 2(3) m(2) by (metis subsetD)
    then show ?thesis using 2 by simp
  qed simp
qed

lemma fork_slot_image:
  assumes ok: "image_ok p" and b: "0 < unat b" "unat b + unat (image_clicks p) < 65536"
  shows "image_ok (fork_slot w b p)" "image (fork_slot w b p) = {unat b..<unat b + unat (image_clicks p)}"
  using ok b image_size(1) [OF ok]
  by (auto simp: image_ok_def fork_slot_def image_def image_clicks_def Let_def)

lemma do_fork_cases:
  assumes f: "do_fork e s = Some (r, s')" and i: "minv s" and o: "owns s (mp s)"
  shows "(r = EAGAIN \<and> s' = s) \<or>
    (\<exists>b h s1 c n s3 s7. b \<noteq> NO_MEM \<and> alloc_mem (image_clicks (mproc s (mp s))) (holes s) = Some (b, h)
      \<and> same_images (s\<lparr>holes := h\<rparr>) s1 \<and> mproc s1 = mproc s \<and> who s1 = who s \<and> mp s1 = mp s
      \<and> calls s1 = calls s @ [SysCopy ABS 0 (uint (mem_phys (tseg (mproc s (mp s)))) * 16) ABS 0 (uint b * 16)
          (uint (image_clicks (mproc s (mp s))) * 16)]
      \<and> List.find (\<lambda>j. \<not> mflag s j IN_USE) slots = Some c
      \<and> s3 = s1\<lparr>procs_in_use := procs_in_use s + 1, next_pid := n,
          mproc := (mproc s)(c := (fork_slot (who s) b (mproc s (mp s)))\<lparr>mp_pid := n\<rparr>)\<rparr>
      \<and> (\<forall>j. 0 \<le> j \<and> j \<le> 15 \<and> j \<noteq> c \<longrightarrow> mp_pid (mproc s j) \<noteq> n)
      \<and> s7 = emit (SysNewmap c (mp_seg (mproc s3 c))) (emit (TellFs C_FORK (who s) c 0)
               (emit (SysFork (who s) c n) s3))
      \<and> reply e c 0 0 0 s7 = Some s' \<and> r = n)"
proof (cases "procs_in_use s = NR_PROCS \<or> procs_in_use s \<ge> NR_PROCS - 2 \<and> mp_effuid (mproc s (mp s)) \<noteq> 0")
  case True
  then show ?thesis using f by (auto simp: do_fork_def Let_def split: if_splits)
next
  case False
  define p where "p = mproc s (mp s)"
  have ok: "image_ok p" using minv_image(1) [OF i o] by (simp add: p_def)
  then have fc: "fork_clicks p = image_clicks p" "0 < unat (image_clicks p)"
    using image_size(2) image_size(1) by (auto simp: image_ok_def)
  obtain b h where a: "alloc_mem (image_clicks p) (holes s) = Some (b, h)"
    using f False fc(1) unfolding do_fork_def Let_def p_def [symmetric]
    by (auto split: Option.bind_splits if_splits)
  show ?thesis
  proof (cases "b = NO_MEM")
    case True
    then have "h = holes s" using alloc_base [OF i fc(2) a] by auto
    then show ?thesis using f False a True fc(1) unfolding do_fork_def Let_def p_def [symmetric] by auto
  next
    case nb: False
    obtain q s1 where c: "mem_copy e ABS 0 (uint (mem_phys (tseg p)) * 16) ABS 0 (uint b * 16)
        (uint (image_clicks p) * 16) (s\<lparr>holes := h\<rparr>) = (q, s1)" by fastforce
    have s1: "same_images (s\<lparr>holes := h\<rparr>) s1" by (rule same_mem_copy [OF c])
    have s1': "mproc s1 = mproc s" "who s1 = who s" "mp s1 = mp s" "procs_in_use s1 = procs_in_use s"
      "next_pid s1 = next_pid s"
      using c by (auto simp: mem_copy_def Let_def split: if_splits)
    have "uint (image_clicks p) * 16 \<noteq> 0" using fc(2) by (metis mult_eq_0_iff uint_0_iff unsigned_0 neq0_conv zero_neq_numeral)
    then have cl: "calls s1 = calls s @ [SysCopy ABS 0 (uint (mem_phys (tseg p)) * 16) ABS 0 (uint b * 16) (uint (image_clicks p) * 16)]"
      using c by (auto simp: mem_copy_def Let_def)
    define s2 where "s2 = s1\<lparr>procs_in_use := procs_in_use s1 + 1\<rparr>"
    obtain cn n tab where cn: "List.find (\<lambda>j. \<not> mflag s j IN_USE) slots = Some cn"
      and pp: "pick_pid cn (mproc (set_mp cn (\<lambda>_. fork_slot (who s) b p) s2)) (next_pid s) = Some (n, tab)"
      and rest: "reply e cn 0 0 0 (emit (SysNewmap cn (mp_seg (tab cn))) (emit (TellFs C_FORK (who s) cn 0)
             (emit (SysFork (who s) cn (mp_pid (tab cn)))
               ((set_mp cn (\<lambda>_. fork_slot (who s) b p) s2)\<lparr>next_pid := n, mproc := tab\<rparr>)))) = Some s'"
      and rr: "r = next_pid s'"
      using f False a nb c fc(1) s1'
      unfolding do_fork_def Let_def p_def [symmetric] s2_def [symmetric]
      by (auto simp: s2_def p_def split: Option.bind_splits if_splits)
    note tab = pick_pid_result [OF pp]
    have tab': "tab = (mproc s)(cn := (fork_slot (who s) b p)\<lparr>mp_pid := n\<rparr>)"
      using tab by (simp add: s2_def s1')
    have rn: "r = n" using reply_sel(6) [OF rest] rr by simp
    define s3 where "s3 = s1\<lparr>procs_in_use := procs_in_use s + 1, next_pid := n, mproc := tab\<rparr>"
    have e3: "(set_mp cn (\<lambda>_. fork_slot (who s) b p) s2)\<lparr>next_pid := n, mproc := tab\<rparr> = s3"
      by (simp add: s3_def s2_def set_mp_def s1')
    have pid: "mp_pid (tab cn) = n" "mproc s3 = tab" by (simp_all add: tab' s3_def)
    have free: "\<forall>j. 0 \<le> j \<and> j \<le> 15 \<and> j \<noteq> cn \<longrightarrow> mp_pid (mproc s j) \<noteq> n"
      using tab by (auto simp: s2_def s1')
    let ?s7 = "emit (SysNewmap cn (mp_seg (mproc s3 cn))) (emit (TellFs C_FORK (who s) cn 0)
               (emit (SysFork (who s) cn n) s3))"
    have 7: "reply e cn 0 0 0 ?s7 = Some s'" using rest unfolding e3 pid .
    show ?thesis
      unfolding p_def [symmetric]
      by (rule disjI2, rule exI [of _ b], rule exI [of _ h], rule exI [of _ s1], rule exI [of _ cn],
          rule exI [of _ n], rule exI [of _ s3], rule exI [of _ ?s7])
        (intro conjI nb a s1 s1' cl cn s3_def [unfolded tab'] free refl 7 rn)
  qed
qed

lemma do_fork_minv:
  assumes f: "do_fork e s = Some (r, s')" and i: "minv s" and o: "owns s (mp s)"
  shows "minv s'"
proof -
  define p where "p = mproc s (mp s)"
  have ok: "image_ok p" using minv_image(1) [OF i o] by (simp add: p_def)
  have sz: "0 < unat (image_clicks p)" using image_size(1) [OF ok] ok by (auto simp: image_ok_def)
  from do_fork_cases [OF f i o] consider "s' = s"
    | b h s1 c n s3 where "b \<noteq> NO_MEM" "alloc_mem (image_clicks p) (holes s) = Some (b, h)"
      "same_images (s\<lparr>holes := h\<rparr>) s1" "List.find (\<lambda>j. \<not> mflag s j IN_USE) slots = Some c"
      "s3 = s1\<lparr>procs_in_use := procs_in_use s + 1, next_pid := n,
          mproc := (mproc s)(c := (fork_slot (who s) b p)\<lparr>mp_pid := n\<rparr>)\<rparr>"
      "reply e c 0 0 0 (emit (SysNewmap c (mp_seg (mproc s3 c))) (emit (TellFs C_FORK (who s) c 0)
               (emit (SysFork (who s) c n) s3))) = Some s'"
    unfolding p_def by blast
  then show ?thesis
  proof cases
    case 2
    from alloc_base [OF i sz 2(2)] 2(1) have al: "0 < unat b" "hole_inv h"
      "unat b + unat (image_clicks p) < 65536"
      "{unat b..<unat b + unat (image_clicks p)} \<subseteq> free_clicks (holes s)"
      "free_clicks h = free_clicks (holes s) - {unat b..<unat b + unat (image_clicks p)}" by auto
    have c: "\<not> mflag s c IN_USE" "0 \<le> c" "c \<le> 15" using 2(4) by (auto simp: find_Some_iff nth_upto)
    then have "\<not> c \<le> 1" using minv_slot(2) [OF i, of c] by auto
    then have c2: "2 \<le> c" by simp
    have im: "image_ok (mproc s3 c)" "image (mproc s3 c) = {unat b..<unat b + unat (image_clicks p)}"
      using image_cong [of "(fork_slot (who s) b p)\<lparr>mp_pid := n\<rparr>" "fork_slot (who s) b p"]
        fork_slot_image [OF ok al(1,3)] by (simp_all add: 2(5))
    have "has_flag (mp_flags p) IN_USE" using o by (simp add: owns_def p_def)
    then have "minv s3"
      using c al im c2 same_images_at(5) [OF 2(3)]
      by (intro minv_swap [OF i c2 c(3) refl al(2)]) (auto simp: 2(5) alike_def fork_slot_def Let_def)
    then show ?thesis
      by (intro minv_same [OF minv_same [OF _ same_emits [OF same_emits [OF same_emit]]] same_reply [OF 2(6)]])
  qed (use i in simp)
qed

section \<open>EXEC\<close>

lemma gap_sizes:
  fixes tot dc sc :: u16
  defines "g \<equiv> tot - dc - sc"
  assumes "\<not> sint g < 0" "unat dc \<le> 4095" "unat sc \<le> 4095"
  shows "unat tot = unat dc + unat g + unat sc" "unat g < 32768" "unat (dc + g) = unat dc + unat g"
    "unat (dc + g + sc) = unat dc + unat g + unat sc"
proof -
  have t: "tot = dc + g + sc" by (simp add: g_def)
  show g: "unat g < 32768" by (rule sint_nonneg_u16 [OF assms(2)])
  show 1: "unat (dc + g) = unat dc + unat g"
    by (subst unat_add_lem [THEN iffD1]) (use g assms(3) in auto)
  show 2: "unat (dc + g + sc) = unat dc + unat g + unat sc"
    unfolding 1 [symmetric] by (subst unat_add_lem [THEN iffD1]) (use 1 g assms(3,4) in auto)
  then show "unat tot = unat dc + unat g + unat sc" using t by simp
qed
lemma clicks_up_le: "unat (clicks_up b) \<le> 4095"
proof -
  have "unat (b + 16 - 1) div 16 \<le> 65535 div 16"
    using unat_u16_less [of "b + 16 - 1"] by (intro div_le_mono) linarith
  then show ?thesis by (simp add: clicks_up_def drop_bit_eq_div unat_div)
qed

lemma zero_loop_same:
  "zero_loop e base n s = Some s' \<Longrightarrow> same_images s s' \<and> mp s' = mp s \<and> who s' = who s"
proof (induction e base n s rule: zero_loop.induct)
  case (1 e base bytes s)
  show ?case
  proof (cases "bytes > 0")
    case True
    obtain r s1 where m: "mem_copy e MM_PROC_NR SEG_D (e_buf e) ABS 0 base (min bytes ZEROBUF_SIZE) s = (r, s1)"
      by fastforce
    have s1: "same_images s s1" "mp s1 = mp s" "who s1 = who s"
      using same_mem_copy [OF m] m by (auto simp: mem_copy_def Let_def split: if_splits)
    have r: "r = OK" "zero_loop e (base + min bytes ZEROBUF_SIZE) (bytes - min bytes ZEROBUF_SIZE) s1 = Some s'"
      using "1.prems" True m by (subst (asm) zero_loop.simps, simp add: Let_def split: if_splits)+
    from "1.IH" [OF True refl m [symmetric] refl] r s1 show ?thesis using same_images_trans by auto
  next
    case False
    then show ?thesis using "1.prems" by (simp add: zero_loop.simps)
  qed
qed

lemma new_map_image:
  assumes g: "g = tot - dc - sc" "\<not> sint g < 0" and le: "unat tc \<le> 4095" "unat dc \<le> 4095" "unat sc \<le> 4095"
    and b: "0 < unat b" "unat b + unat (tc + tot) < 65536" and t: "0 < unat tot"
    and p: "mp_seg p = mp_seg (new_map b tc dc g sc q)" "has_flag (mp_flags p) SEPARATE \<or> tc = 0"
  shows "image_ok p" "image p = {unat b..<unat b + unat (tc + tot)}"
proof -
  note z = gap_sizes [OF g(2) [unfolded g(1)] le(2,3), folded g(1)]
  have 1: "unat (tc + tot) = unat tc + unat tot"
    by (subst unat_add_lem [THEN iffD1]) (use z le in auto)
  have ok: "image_ok p"
    using b t p z 1 by (auto simp: image_ok_def new_map_def)
  have "unat (image_clicks p) = unat (tc + tot)"
    using image_size(1) [OF ok] 1 z p(1) by (simp add: new_map_def)
  then show "image p = {unat b..<unat b + unat (tc + tot)}"
    using p(1) by (simp add: image_def new_map_def)
  show "image_ok p" by (rule ok)
qed

lemma new_mem_cases:
  assumes n: "new_mem e tb db bb stkb totb s = Some (r, s')" and i: "minv s" and o: "owns s (mp s)"
    and t: "0 < unat (long_clicks totb)"
  defines "tc \<equiv> clicks_up tb" and "dc \<equiv> clicks_up (db + bb)" and "sc \<equiv> clicks_up stkb"
    and "tot \<equiv> long_clicks totb"
  defines "g \<equiv> tot - dc - sc" and "F \<equiv> free_clicks (holes s) \<union> image (mproc s (mp s))"
  shows "(r \<noteq> OK \<and> s' = s) \<or>
    (r = OK \<and> \<not> sint g < 0 \<and> (\<exists>b h. 0 < unat b \<and> hole_inv h \<and> unat b + unat (tc + tot) < 65536
      \<and> {unat b..<unat b + unat (tc + tot)} \<subseteq> F \<and> free_clicks h = F - {unat b..<unat b + unat (tc + tot)}
      \<and> same_images (set_mp (mp s) (new_map b tc dc g sc) (s\<lparr>holes := h\<rparr>)) s' \<and> mp s' = mp s))"
proof (cases "sint g < 0")
  case True
  then show ?thesis using n unfolding new_mem_def Let_def g_def tc_def dc_def sc_def tot_def by auto
next
  case False
  obtain mx where mx: "max_hole (holes s) = Some mx"
    using n False unfolding new_mem_def Let_def g_def tc_def dc_def sc_def tot_def
    by (auto split: Option.bind_splits)
  show ?thesis
  proof (cases "tc + tot > mx")
    case True
    then show ?thesis using n False mx unfolding new_mem_def Let_def g_def tc_def dc_def sc_def tot_def by auto
  next
    case nmx: False
    define q where "q = mproc s (mp s)"
    obtain h1 b h2 where f: "free_mem (mem_phys (tseg q)) (image_clicks q) (holes s) = Some h1"
      and a: "alloc_mem (tc + tot) h1 = Some (b, h2)" and nb: "b \<noteq> NO_MEM"
      and z: "zero_loop e
          ((uint (mem_phys (tseg (new_map b tc dc g sc q))) + uint (mem_len (tseg (new_map b tc dc g sc q)))) * 16
             + uint (push_bit CLICK_SHIFT (drop_bit CLICK_SHIFT db)))
          (uint (dc + g + sc) * 16 - uint (push_bit CLICK_SHIFT (drop_bit CLICK_SHIFT db)))
          (emit (SysNewmap (who s) (mp_seg (new_map b tc dc g sc q)))
             (set_mp (mp s) (new_map b tc dc g sc) (s\<lparr>holes := h2\<rparr>))) = Some s'" and r: "r = OK"
      using n False mx nmx
      unfolding new_mem_def Let_def tc_def [symmetric] dc_def [symmetric] sc_def [symmetric]
        tot_def [symmetric] g_def [symmetric] q_def [symmetric]
      by (auto simp: q_def split: Option.bind_splits if_splits)
    note im = minv_image [OF i o, folded q_def]
    have h1: "hole_inv h1" "free_clicks h1 = F"
      using mem.release_ok [OF im(3) f image_size(3) [OF im(1)]] im(2)
      by (simp_all add: F_def q_def [symmetric] image_def)
    have F0: "0 \<notin> F" using im(1,4) by (auto simp: F_def q_def [symmetric] image_def image_ok_def)
    note zz = gap_sizes [OF False [unfolded g_def], folded g_def, unfolded dc_def sc_def, OF clicks_up_le clicks_up_le,
        folded dc_def sc_def]
    have u: "unat (tc + tot) = unat tc + unat tot"
      using clicks_up_le [of tb] clicks_up_le [of "db + bb"] clicks_up_le [of stkb]
      by (subst unat_add_lem [THEN iffD1]) (use zz in \<open>auto simp: tc_def dc_def sc_def\<close>)
    then have pos: "0 < unat (tc + tot)" using t by (simp add: tot_def)
    from mem.alloc_ok [OF h1(1) pos] a have al: "hole_inv h2" "h2 = h1 \<and> b = 0 \<or>
        unat b + unat (tc + tot) < 65536 \<and> {unat b..<unat b + unat (tc + tot)} \<subseteq> F
        \<and> free_clicks h2 = F - {unat b..<unat b + unat (tc + tot)}" by (auto simp: h1(2))
    have b0: "0 < unat b" using nb by (simp add: unat_gt_0)
    have "same_images (set_mp (mp s) (new_map b tc dc g sc) (s\<lparr>holes := h2\<rparr>)) s'" "mp s' = mp s"
      using zero_loop_same [OF z] same_images_trans [OF same_emit] by auto
    then show ?thesis using r False b0 al nb by auto
  qed
qed

lemma same_load_seg: "same_images s (load_seg fd seg n s) \<and> mp (load_seg fd seg n s) = mp s"
  by (simp add: load_seg_def)

lemma same_exec_ids: "same_images s (exec_ids st s) \<and> mp (exec_ids st s) = mp s"
proof -
  have 1: "same_images s (set_mp (mp s) (\<lambda>p. p\<lparr>mp_effuid := u\<rparr>) s)" for u s
    by (rule same_set_mp) (auto simp: alike_def)
  have 2: "same_images s (set_mp (mp s) (\<lambda>p. p\<lparr>mp_effgid := u\<rparr>) s)" for u s
    by (rule same_set_mp) (auto simp: alike_def)
  define s1 where "s1 = (if has_flag (st_mode st) 0x800
      then (let s1 = set_mp (mp s) (\<lambda>p. p\<lparr>mp_effuid := st_uid st\<rparr>) s; p = mproc s1 (mp s)
            in emit (TellFs C_SETUID (who s) (sint (mp_realuid p)) (sint (mp_effuid p))) s1) else s)"
  have s1: "same_images s s1" "mp s1 = mp s" by (auto simp: s1_def Let_def intro: same_emits 1)
  have 3: "same_images s (set_mp (mp s) (\<lambda>p. p\<lparr>mp_effgid := ucast (st_gid st)\<rparr>) s1)"
    using same_images_trans [OF s1(1) 2 [of s1]] s1(2) by simp
  show ?thesis
    unfolding exec_ids_def Let_def s1_def [symmetric, unfolded Let_def]
    using s1 same_emits [OF 3] by simp
qed

lemma exec_load_minv:
  assumes e: "exec_load e fd st x stkb mbuf s = Some (r, s')" and i: "minv s" and o: "owns s (mp s)"
    and t: "0 < unat (long_clicks (x_tot x))"
    and ft: "x_ft x = SEPARATE \<or> x_ft x = 0 \<and> x_text x = 0"
  shows "minv s'"
proof -
  obtain r1 s7 where n: "new_mem e (x_text x) (x_data x) (x_bss x) stkb (x_tot x) s = Some (r1, s7)"
    using e unfolding exec_load_def by (auto split: Option.bind_splits)
  show ?thesis
  proof (cases "r1 = OK")
    case False
    then have "s7 = s" using new_mem_cases [OF n i o t] by auto
    then show ?thesis using e n False i minv_same [OF _ same_emit] unfolding exec_load_def by auto
  next
    case True
    define tc dc sc tot where d: "tc = clicks_up (x_text x)" "dc = clicks_up (x_data x + x_bss x)"
      "sc = clicks_up stkb" "tot = long_clicks (x_tot x)"
    define g F where d2: "g = tot - dc - sc" "F = free_clicks (holes s) \<union> image (mproc s (mp s))"
    obtain b h where bh: "\<not> sint g < 0" "0 < unat b" "hole_inv h" "unat b + unat (tc + tot) < 65536"
      "{unat b..<unat b + unat (tc + tot)} \<subseteq> F" "free_clicks h = F - {unat b..<unat b + unat (tc + tot)}"
      "same_images (set_mp (mp s) (new_map b tc dc g sc) (s\<lparr>holes := h\<rparr>)) s7" "mp s7 = mp s"
      using new_mem_cases [OF n i o t] True unfolding d2 d by auto
    obtain s11 st' where s': "s' = emit (SysExec (who (set_mp (mp s11) (\<lambda>p. p\<lparr>mp_catch := 0,
          mp_flags := set_flag (clr_flag (mp_flags p) SEPARATE) (x_ft x)\<rparr>) s11))
          (push_bit CLICK_SHIFT (mem_vir (sseg (mproc s7 (mp s7))))))
        (set_mp (mp s11) (\<lambda>p. p\<lparr>mp_catch := 0, mp_flags := set_flag (clr_flag (mp_flags p) SEPARATE) (x_ft x)\<rparr>) s11)"
      and s11: "\<exists>c. s11 = exec_ids st' (emit (CloseF fd) (load_seg fd SEG_D (x_data x)
            (load_seg fd SEG_T (x_text x) (if stkb = 0 then s7 else emit c s7))))"
      using e n True unfolding exec_load_def Let_def
      by (auto split: Option.bind_splits if_splits)
    define s12 where "s12 = set_mp (mp s11) (\<lambda>p. p\<lparr>mp_catch := 0,
        mp_flags := set_flag (clr_flag (mp_flags p) SEPARATE) (x_ft x)\<rparr>) s11"
    obtain c where c: "s11 = exec_ids st' (emit (CloseF fd) (load_seg fd SEG_D (x_data x)
            (load_seg fd SEG_T (x_text x) (if stkb = 0 then s7 else emit c s7))))" using s11 by blast
    have a: "same_images s7 (if stkb = 0 then s7 else emit c s7)" by simp
    have a: "same_images s7 (load_seg fd SEG_T (x_text x) (if stkb = 0 then s7 else emit c s7))"
      by (rule same_images_trans [OF a]) (simp only: same_load_seg)
    have a: "same_images s7 (load_seg fd SEG_D (x_data x) (load_seg fd SEG_T (x_text x)
        (if stkb = 0 then s7 else emit c s7)))"
      by (rule same_images_trans [OF a]) (simp only: same_load_seg)
    have a: "same_images s7 s11"
      unfolding c by (rule same_images_trans [OF same_emits [OF a, of "CloseF fd"] conjunct1 [OF same_exec_ids]])
    have m11: "mp s11 = mp s" unfolding c using bh(8) by (simp add: same_exec_ids same_load_seg)
    define t where "t = set_mp (mp s) (new_map b tc dc g sc) (s\<lparr>holes := h\<rparr>)"
    have ts: "same_images t s11" using same_images_trans [OF bh(7) a] by (simp add: t_def)
    note at = same_images_at [OF ts]
    have c2: "2 \<le> mp s" "mp s \<le> 15" "mflag s (mp s) IN_USE" using o by (auto simp: owns_def)
    have seg: "mp_seg (mproc s12 (mp s)) = mp_seg (new_map b tc dc g sc (mproc s (mp s)))"
      using at(3) [of "mp s"] by (simp add: s12_def m11 t_def)
    have sep: "mflag s12 (mp s) SEPARATE \<or> tc = 0"
    proof (cases "x_ft x = SEPARATE")
      case True
      then show ?thesis by (simp add: s12_def m11 flag_simps)
    next
      case False
      then have "x_text x = 0" using ft by simp
      then show ?thesis by (simp add: d clicks_up_def)
    qed
    have t0: "0 < unat tot" using t by (simp add: d)
    note im = new_map_image [where p = "mproc s12 (mp s)", OF d2(1) bh(1) clicks_up_le [of "x_text x", folded d]
      clicks_up_le [of "x_data x + x_bss x", folded d] clicks_up_le [of stkb, folded d] bh(2,4) t0 seg sep]
    have "minv s12"
    proof (rule minv_swap [OF i c2(1,2) _ bh(3,6,5)])
      show "F = free_clicks (holes s) \<union> (if mflag s (mp s) IN_USE then image (mproc s (mp s)) else {})"
        using c2(3) by (simp add: d2)
      show "holes s12 = h" using at(5) by (simp add: s12_def t_def)
      show "procs_in_use s12 = procs_in_use s + (if mflag s (mp s) IN_USE then 0 else 1)"
        using at(6) c2(3) by (simp add: s12_def t_def)
      show "alike (mproc s p) (mproc s12 p)" if "p \<noteq> mp s" for p
        using at(1-4) [of p] that by (simp add: s12_def m11 t_def alike_def)
      have "mflag s11 (mp s) IN_USE" using at(1) [of "mp s"] c2(3) by (simp add: t_def new_map_def)
      then show "mflag s12 (mp s) IN_USE"
        using ft by (auto simp: s12_def m11 flag_simps set_flag_def [of _ 0])
      show "image_ok (mproc s12 (mp s))" "image (mproc s12 (mp s)) = {unat b..<unat b + unat (tc + tot)}"
        by (rule im)+
      show "mp_parent (mproc s12 p) = mp_parent (mproc s p) \<and> (mflag s12 p WAITING \<longrightarrow> mflag s p WAITING)"
        if "p \<le> 1" for p
        using ts that c2(1) by (auto simp: same_images_def s12_def m11 t_def)
    qed
    then show ?thesis unfolding s' s12_def [symmetric] by (rule minv_same [OF _ same_emit])
  qed
qed

lemma read_header_result:
  assumes "read_header e fd sc s = (m, x, s')" "\<not> m < 0"
  shows "same_images s s'" "0 < unat (long_clicks (x_tot x))" "mp s' = mp s"
    "x_ft x = SEPARATE \<or> x_ft x = 0 \<and> x_text x = 0"
proof -
  have *: "x = header_sizes (e_header e (calls (emit (ReadF fd (e_buf e) HDR_SIZE) s)))"
    "header_dc x < long_clicks (x_tot x)"
    using assms unfolding read_header_def Let_def by (auto split: if_splits)
  from *(2) show "0 < unat (long_clicks (x_tot x))" by (simp add: word_less_nat_alt)
  show "x_ft x = SEPARATE \<or> x_ft x = 0 \<and> x_text x = 0" by (simp add: *(1) header_sizes_def Let_def)
  show "same_images s s'" "mp s' = mp s"
    using assms unfolding read_header_def Let_def by (auto split: if_splits intro: same_emits)
qed

lemma mem_copy_sel:
  assumes "mem_copy e a b c d f g h s = (r, s')"
  shows "mp s' = mp s" "mproc s' = mproc s" "who s' = who s"
  using assms by (auto simp: mem_copy_def Let_def split: if_splits)

lemma allowed_sel:
  assumes "allowed e n m s = Some (r, st, s')"
  shows "mp s' = mp s" "mproc s' = mproc s"
  using assms by (auto simp: allowed_def Let_def split: if_splits Option.bind_splits)

lemma do_exec_minv:
  assumes x: "do_exec e s = Some (r, s')" and i: "minv s" and o: "owns s (mp s)"
  shows "minv s'"
proof -
  define stkb :: u16 where "stkb = word_of_int (m1_i2 (mm_in s))"
  define len where "len = m1_i1 (mm_in s)"
  show ?thesis
  proof (cases "stkb > MAX_ISTACK_BYTES \<or> len \<le> 0 \<or> len > MAX_PATH")
    case True
    then have "s' = s" using x unfolding do_exec_def Let_def stkb_def [symmetric] len_def [symmetric]
      by (auto split: if_splits)
    then show ?thesis using i by simp
  next
    case g1: False
    obtain r1 s1 where m1: "mem_copy e (who s) SEG_D (uint (m1_p1 (mm_in s))) MM_PROC_NR SEG_D (e_buf e) len s
        = (r1, s1)" by fastforce
    have s1: "same_images s s1" "mp s1 = mp s" using same_mem_copy [OF m1] mem_copy_sel [OF m1] by auto
    show ?thesis
    proof (cases "r1 = OK")
      case False
      then have "s' = s1" using x g1 m1 unfolding do_exec_def Let_def stkb_def [symmetric] len_def [symmetric] by auto
      then show ?thesis using minv_same [OF i s1(1)] by simp
    next
      case r1: True
      define s2 where "s2 = emit (TellFs C_CHDIR (who s) 0 0) s1"
      obtain fd st s3 where a: "allowed e (e_name e (calls s2)) X_BIT s2 = Some (fd, st, s3)"
        using x g1 m1 r1 unfolding do_exec_def Let_def stkb_def [symmetric] len_def [symmetric]
        by (auto simp: s2_def split: Option.bind_splits)
      define s4 where "s4 = emit (TellFs C_CHDIR 0 1 0) s3"
      have "same_images s s2" unfolding s2_def by (rule same_emits [OF s1(1)])
      then have s4: "same_images s s4" "mp s4 = mp s"
        unfolding s4_def using same_emits [OF same_images_trans [OF _ same_allowed [OF a]]] allowed_sel [OF a] s1(2)
        by (auto simp: s2_def)
      obtain m y s5 where h: "read_header e fd (clicks_up stkb) s4 = (m, y, s5)" by (metis prod_cases3)
      have s5: "same_images s s5" "mp s5 = mp s"
        using h s4 same_emits [OF s4(1)] same_emits [OF same_emits [OF s4(1)]]
        unfolding read_header_def Let_def by (auto split: if_splits)
      obtain r2 s6 where m2: "mem_copy e (who s) SEG_D (uint (m1_p2 (mm_in s))) MM_PROC_NR SEG_D (e_buf e)
          (uint stkb) s5 = (r2, s6)" by fastforce
      have s6: "same_images s s6" "mp s6 = mp s"
        using same_images_trans [OF s5(1) same_mem_copy [OF m2]] mem_copy_sel [OF m2] s5(2) by auto
      have "s' \<in> {s4, emit (CloseF fd) s5, emit (CloseF fd) s6} \<or>
          \<not> m < 0 \<and> exec_load e fd st y stkb (e_stack e (calls s6)) s6 = Some (r, s')"
        using x g1 m1 r1 a h m2 unfolding do_exec_def Let_def stkb_def [symmetric] len_def [symmetric]
        by (auto simp: s2_def [symmetric] s4_def [symmetric] simp del: emit_sel split: if_splits)
      then consider "s' \<in> {s4, emit (CloseF fd) s5, emit (CloseF fd) s6}"
        | "\<not> m < 0" "exec_load e fd st y stkb (e_stack e (calls s6)) s6 = Some (r, s')" by blast
      then show ?thesis
      proof cases
        case 1
        then show ?thesis using minv_same [OF i] s4 same_emits [OF s5(1)] same_emits [OF s6(1)] by auto
      next
        case 2
        have "owns s6 (mp s6)" using o s6 same_images_at(1) [OF s6(1)] by (simp add: owns_def)
        then show ?thesis
          using exec_load_minv [OF 2(2) minv_same [OF i s6(1)]] read_header_result [OF h 2(1)] by blast
      qed
    qed
  qed
qed

section \<open>The main loop\<close>

lemma do_getset_same: "do_getset s = (r, s') \<Longrightarrow> same_images s s'"
proof -
  have 1: "same_images s (set_mp (mp s) (\<lambda>p. p\<lparr>mp_realuid := u, mp_effuid := u\<rparr>) s)" for u
    by (rule same_set_mp) (auto simp: alike_def)
  have 2: "same_images s (set_mp (mp s) (\<lambda>p. p\<lparr>mp_realgid := u, mp_effgid := u\<rparr>) s)" for u
    by (rule same_set_mp) (auto simp: alike_def)
  assume "do_getset s = (r, s')"
  then show ?thesis
    by (auto simp: do_getset_def Let_def intro: same_emits 1 2 split: if_splits)
qed

lemma do_signal_same: "do_signal s = (r, s') \<Longrightarrow> same_images s s'"
  by (auto simp: do_signal_def Let_def alike_def split: if_splits intro!: same_set_mp)

lemma do_pause_same: "do_pause s = (r, s') \<Longrightarrow> same_images s s'"
proof -
  assume a: "do_pause s = (r, s')"
  have "same_images s (set_mp (mp s) (add_flag PAUSED) s)" by (rule same_set_mp) (simp_all add: flag_simps)
  then show ?thesis using a same_images_trans [OF _ same_fields(2)] by (auto simp: do_pause_def)
qed

lemma do_brk_minv:
  assumes "do_brk e s = (r, s')" "minv s"
  shows "minv s'"
proof -
  obtain sp s1 where g: "sys_getsp e (who s) s = (sp, s1)" by fastforce
  obtain r2 s2 where a: "adjust (mp s) (word_of_int ((uint (m1_p1 (mm_in s)) + 16 - 1) div 2 ^ CLICK_SHIFT)) sp s1
      = (r2, s2)" by fastforce
  have "minv s2" using adjust_minv [OF a] minv_same [OF assms(2) same_getsp [OF g]] by blast
  moreover have "s' = s2\<lparr>res_ptr := (if r2 = OK then m1_p1 (mm_in s) else - 1)\<rparr>"
    using assms(1) g a unfolding do_brk_def Let_def by auto
  ultimately show ?thesis using minv_same [OF _ same_fields(5)] by simp
qed

text \<open>Who may send what: user processes that are alive, and the signals of kernel and FS.\<close>

definition may_send :: "mm \<Rightarrow> int \<Rightarrow> int \<Rightarrow> mm_msg \<Rightarrow> bool" where
  "may_send s source call msg \<longleftrightarrow>
     owns s source \<or> (source = HARDWARE \<or> source = FS_PROC_NR) \<and> call = 64
        \<and> 0 \<le> m1_i1 msg \<and> m1_i1 msg \<le> 15"

lemma call_minv:
  assumes c: "call_vec e (mm_call s) s = Some (r, s')" and i: "minv s" and m: "mp s = who s"
    and o: "owns s (who s) \<or> mm_call s = 64 \<and> (0 \<le> m1_i1 (mm_in s) \<and> m1_i1 (mm_in s) \<le> 15)"
  shows "minv s'"
proof -
  have user: "2 \<le> who s" "who s \<le> 15" "mflag s (who s) IN_USE" if "mm_call s \<noteq> 64"
    using o that by (auto simp: owns_def)
  consider "mm_call s = 1" | "mm_call s = 2" | "mm_call s = 7" | "mm_call s = 17"
    | "mm_call s \<in> {20, 23, 24, 46, 47}" | "mm_call s = 27" | "mm_call s = 29" | "mm_call s = 37"
    | "mm_call s = 48" | "mm_call s = 59" | "mm_call s = 64" | "mm_call s = 66"
    | "mm_call s \<notin> {1, 2, 7, 17, 20, 23, 24, 46, 47, 27, 29, 37, 48, 59, 64, 66}" by blast
  then show ?thesis
  proof cases
    case 1
    then obtain s1 where "mm_exit e (mp s) (word_of_int (m1_i1 (mm_in s))) s = Some s1" "s' = s1\<lparr>dont_reply := True\<rparr>"
      using c by (auto simp: call_vec_def do_mm_exit_def split: Option.bind_splits)
    then show ?thesis using mm_exit_minv [OF _ i] user 1 m minv_same [OF _ same_fields(2)] by simp
  next
    case 2
    then show ?thesis using c do_fork_minv [OF _ i] o m by (simp add: call_vec_def)
  next
    case 3
    then show ?thesis using c do_wait_minv [OF _ i] user m by (simp add: call_vec_def)
  next
    case 4
    then show ?thesis using c do_brk_minv [OF _ i] by (simp add: call_vec_def pure_call_def)
  next
    case 5
    then have "do_getset s = (r, s')" using c by (auto simp: call_vec_def pure_call_def)
    then show ?thesis using minv_same [OF i] do_getset_same by blast
  next
    case 6
    then have "same_images s s'" using c by (auto simp: call_vec_def do_alarm_def intro: same_set_alarm)
    then show ?thesis by (rule minv_same [OF i])
  next
    case 7
    then show ?thesis using c minv_same [OF i do_pause_same] by (simp add: call_vec_def pure_call_def)
  next
    case 8
    then show ?thesis using c check_sig_minv [OF _ i] by (simp add: call_vec_def do_kill_def)
  next
    case 9
    then show ?thesis using c minv_same [OF i do_signal_same] by (simp add: call_vec_def pure_call_def)
  next
    case 10
    then show ?thesis using c do_exec_minv [OF _ i] o m by (simp add: call_vec_def)
  next
    case 11
    show ?thesis
    proof (cases "who s = HARDWARE \<or> who s = FS_PROC_NR")
      case True
      then have "\<not> owns s (who s)" by (auto simp: owns_def)
      then show ?thesis using c 11 o do_ksig_minv [OF _ i] by (simp add: call_vec_def)
    next
      case False
      then show ?thesis using c 11 i by (simp add: call_vec_def do_ksig_def)
    qed
  next
    case 12
    then have "who s \<noteq> FS_PROC_NR" using user by simp
    then show ?thesis using c 12 i by (simp add: call_vec_def do_brk2_def)
  next
    case 13
    then show ?thesis using c i by (simp add: call_vec_def pure_call_def no_sys_def)
  qed
qed

lemma mm_step_minv:
  assumes s: "mm_step e source call msg s = Some s'" and i: "minv s" and o: "may_send s source call msg"
  shows "minv s'"
proof -
  define s2 where "s2 = s\<lparr>mm_in := msg, who := source, mm_call := call, mp := source, dont_reply := False\<rparr>"
  have s2: "same_images s s2" by (simp add: s2_def same_images_def alike_def)
  have i2: "minv s2" by (rule minv_same [OF i s2])
  have own: "owns s2 p = owns s p" for p by (simp add: s2_def owns_def)
  have st: "\<not> (source < HARDWARE \<or> source \<ge> NR_PROCS)"
    using s by (auto simp: mm_step_def get_work_def split: Option.bind_splits if_splits)
  then have step: "(do { (er, s3) \<leftarrow> (if call < 0 \<or> call \<ge> NCALLS then Some (E_BAD_CALL, s2) else call_vec e call s2);
      if dont_reply s3 then Some s3
      else if mm_call s3 = C_EXEC \<and> er = OK then Some s3
      else reply e (who s3) er (result2 s3) (res_ptr s3) s3 }) = Some s'"
    using s by (auto simp: mm_step_def get_work_def s2_def Let_def split: if_splits)
  obtain er s3 where c: "(if call < 0 \<or> call \<ge> NCALLS then Some (E_BAD_CALL, s2) else call_vec e call s2) = Some (er, s3)"
    using step by (cases "if call < 0 \<or> call \<ge> NCALLS then Some (E_BAD_CALL, s2) else call_vec e call s2") auto
  have r: "s' = s3 \<or> reply e (who s3) er (result2 s3) (res_ptr s3) s3 = Some s'"
    using step unfolding c by (auto split: if_splits)
  have "minv s3"
  proof (cases "call < 0 \<or> call \<ge> NCALLS")
    case True
    then show ?thesis using c i2 by auto
  next
    case False
    then have "call_vec e (mm_call s2) s2 = Some (er, s3)" using c by (simp add: s2_def)
    then show ?thesis
      by (rule call_minv [OF _ i2]) (use o own in \<open>auto simp: s2_def may_send_def\<close>)
  qed
  then show ?thesis using r minv_same same_reply by blast
qed

end
