(* ===== verification/MMProps.thy ===== *)
theory MMProps
  imports MMInvMem
begin

text \<open>
  Properties of the memory manager: the memory invariant over all reachable states, FORK,
  EXIT and WAIT, segment growth, the size check and the pid search.
\<close>

section \<open>The manager as a transition system\<close>

definition zero_mproc :: mproc where
  "zero_mproc = \<lparr>mp_seg = (\<lambda>_. \<lparr>mem_vir = 0, mem_phys = 0, mem_len = 0\<rparr>), mp_exitstatus = 0,
     mp_sigstatus = 0, mp_pid = 0, mp_parent = 0, mp_procgrp = 0, mp_realuid = 0, mp_effuid = 0,
     mp_realgid = 0, mp_effgid = 0, mp_ignore = 0, mp_catch = 0, mp_func = 0, mp_flags = 0\<rparr>"

definition zero_mm :: mm where
  "zero_mm = \<lparr>mproc = (\<lambda>_. zero_mproc), mp = 0, dont_reply = False, procs_in_use = 0,
     mm_in = \<lparr>m1_i1 = 0, m1_i2 = 0, m1_i3 = 0, m1_p1 = 0, m1_p2 = 0, m6_f1 = 0\<rparr>, who = 0, mm_call = 0,
     result2 = 0, res_ptr = 0, next_pid = INIT_PROC_NR + 1, tot_mem = 0, m_sig_i1 = 0,
     holes = blank_table, calls = []\<rparr>"

text \<open>
  Boot: \<^verbatim>\<open>mm_init\<close>, then the \<^verbatim>\<open>BRK2\<close> message of the file system.  \<open>brk2_ok\<close> says that INIT lies
  inside the memory that the message takes away from the holes.
\<close>

definition brk2_ok :: "u16 \<Rightarrow> mm_msg \<Rightarrow> bool" where
  "brk2_ok tot m \<longleftrightarrow>
     (let t = unat (word_of_int (m1_i1 m) :: u16); d = unat (word_of_int (m1_i2 m) :: u16);
          all_clicks = unat (word_of_int (m1_i3 m) :: u16)
      in 0 < unat (m1_p1 m) \<and> 0 < t + d \<and> unat (m1_p1 m) + 2 * t + d \<le> all_clicks \<and> all_clicks < unat tot)"

definition mm_boot :: "mm_env \<Rightarrow> u16 \<Rightarrow> mm_msg \<Rightarrow> mm option" where
  "mm_boot e tot m = mm_step e FS_PROC_NR 66 m (mm_init tot zero_mm)"

inductive mm_reach :: "mm_env \<Rightarrow> mm \<Rightarrow> bool" for e where
  boot: "brk2_ok tot m \<Longrightarrow> mm_boot e tot m = Some s \<Longrightarrow> mm_reach e s"
| step: "mm_reach e s \<Longrightarrow> may_send s source call m \<Longrightarrow> mm_step e source call m s = Some s' \<Longrightarrow> mm_reach e s'"

lemma boot_slots:
  "mflag (mm_init tot zero_mm) p IN_USE \<longleftrightarrow> p = 0 \<or> p = 1 \<or> p = 2"
  "\<not> mflag (mm_init tot zero_mm) p HANGING" "\<not> mflag (mm_init tot zero_mm) p WAITING"
  "\<not> mflag (mm_init tot zero_mm) p SEPARATE"
  "mp_parent (mproc (mm_init tot zero_mm) p) = 0"
  "mp_seg (mproc (mm_init tot zero_mm) p) = (\<lambda>_. \<lparr>mem_vir = 0, mem_phys = 0, mem_len = 0\<rparr>)"
  "procs_in_use (mm_init tot zero_mm) = 3" "holes (mm_init tot zero_mm) = mem_init tot blank_table"
  "tot_mem (mm_init tot zero_mm) = tot"
  by (auto simp: mm_init_def zero_mm_def zero_mproc_def flag_simps Let_def)

lemma boot_alloc:
  assumes "0 < unat c" "unat c < unat tot"
  shows "\<exists>h. alloc_mem c (mem_init tot blank_table) = Some (0, h) \<and> hole_inv h \<and> free_clicks h = {unat c..<unat tot}"
proof -
  have t: "0 < unat tot" using assms by simp
  have g: "gaps (regions (mem_init tot blank_table) [0])"
    using t by (simp add: region_of_def mem_init_def gaps_Cons)
  have h0: "hole (mem_init tot blank_table) 0 = \<lparr>h_base = 0, h_len = tot, h_next = None\<rparr>"
    by (simp add: mem_init_def blank_table_def)
  have "{0..<unat tot} - {0..<unat c} = {unat c..<unat tot}" by auto
  then show ?thesis
    using alloc_mem_first_fit [OF mem_init_hrep g, of c] assms h0 init_inv(2) [OF t, of blank_table] by auto
qed

lemma boot_minv:
  assumes b: "brk2_ok tot m" and s: "mm_boot e tot m = Some s"
  shows "minv s"
proof -
  define td where "td = (word_of_int (m1_i1 m) :: u16)"
  define dd where "dd = (word_of_int (m1_i2 m) :: u16)"
  define all_clicks where "all_clicks = (word_of_int (m1_i3 m) :: u16)"
  define org where "org = m1_p1 m"
  have ok: "0 < unat org" "0 < unat td + unat dd" "unat org + 2 * unat td + unat dd \<le> unat all_clicks"
    "unat all_clicks < unat tot"
    using b by (simp_all add: brk2_ok_def td_def dd_def all_clicks_def org_def Let_def)
  define s0 where "s0 = mm_init tot zero_mm"
  define s2 where "s2 = s0\<lparr>mm_in := m, who := FS_PROC_NR, mm_call := 66, mp := FS_PROC_NR, dont_reply := False\<rparr>"
  obtain h where h: "alloc_mem all_clicks (mem_init tot blank_table) = Some (0, h)" "hole_inv h"
    "free_clicks h = {unat all_clicks..<unat tot}"
    using boot_alloc [of all_clicks tot] ok by auto
  define f where "f = (\<lambda>p. (if td \<noteq> 0 then add_flag SEPARATE else id)
      (set_seg SEG_S (\<lambda>q. q\<lparr>mem_vir := td + dd, mem_phys := org + (td + dd)\<rparr>)
      (set_seg SEG_D (\<lambda>q. q\<lparr>mem_phys := org + td, mem_len := dd\<rparr>)
      (set_seg SEG_T (\<lambda>q. q\<lparr>mem_phys := org, mem_len := td\<rparr>) p))))"
  define s3 where "s3 = set_mp INIT_PROC_NR f (s2\<lparr>holes := h\<rparr>)"
  have e3: "s = s3 \<or> (\<exists>w a b c. reply e w a b c s3 = Some s)"
  proof -
    have "call_vec e 66 s2 = do_brk2 s2" by (simp add: call_vec_def)
    moreover have "do_brk2 s2 = None \<or> do_brk2 s2 = Some (OK, s3)"
      using h(1) by (auto simp: do_brk2_def Let_def s2_def s0_def boot_slots s3_def f_def
          td_def dd_def all_clicks_def org_def split: if_splits)
    ultimately show ?thesis
      using s by (auto simp: mm_boot_def mm_step_def get_work_def s2_def s0_def Let_def split: if_splits)
  qed
  have fl: "mflag s3 p IN_USE \<longleftrightarrow> p = 0 \<or> p = 1 \<or> p = 2" "\<not> mflag s3 p HANGING" "\<not> mflag s3 p WAITING"
    "mp_parent (mproc s3 p) = 0" for p
    using boot_slots(1-5) [of tot]
    by (auto simp: s3_def f_def s2_def s0_def flag_simps)
  have u: "unat (td + dd) = unat td + unat dd" "unat (td + dd + td) = 2 * unat td + unat dd"
  proof -
    have lt: "2 * unat td + unat dd < 65536" using ok(3) unat_u16_less [of all_clicks] by linarith
    then show 1: "unat (td + dd) = unat td + unat dd" by (subst unat_add_lem [THEN iffD1]) auto
    show "unat (td + dd + td) = 2 * unat td + unat dd"
      by (subst unat_add_lem [THEN iffD1]) (use lt 1 in auto)
  qed
  have seg: "mem_phys (tseg (mproc s3 2)) = org" "mem_len (tseg (mproc s3 2)) = td"
    "mem_vir (sseg (mproc s3 2)) = td + dd" "mem_len (sseg (mproc s3 2)) = 0"
    using boot_slots(6) [of tot 2] by (simp_all add: s3_def f_def s2_def s0_def)
  have sep: "mflag s3 2 SEPARATE \<longleftrightarrow> td \<noteq> 0"
    using boot_slots(4) [of tot 2] by (auto simp: s3_def f_def s2_def s0_def flag_simps)
  have iok: "image_ok (mproc s3 2)"
  proof -
    have "unat org + 2 * unat td + unat dd < 65536" using ok(3) unat_u16_less [of all_clicks] by linarith
    then show ?thesis using ok(1,2) u sep unfolding image_ok_def seg by auto
  qed
  have "image (mproc s3 2) \<subseteq> {0..<unat all_clicks}"
    using image_size(1) [OF iok] ok u seg by (auto simp: image_def)
  then have dj: "image (mproc s3 2) \<inter> free_clicks h = {}" using h(3) by auto
  have ow: "owns s3 p \<longleftrightarrow> p = 2" for p using fl by (auto simp: owns_def)
  have "mem_inv s3"
    using h(2,3) ok(1,3) iok dj unfolding mem_inv_def ow by (auto simp: s3_def)
  moreover have "slot_inv s3"
  proof -
    have "{p::int. 0 \<le> p \<and> p \<le> 15 \<and> (p = 0 \<or> p = 1 \<or> p = 2)} = {0, 1, 2}" by auto
    moreover have "procs_in_use s3 = 3" by (simp add: s3_def s2_def s0_def boot_slots(7))
    moreover have "p = 0 \<or> p = 1 \<or> p = 2" if "0 \<le> p \<and> p \<le> 1" for p :: int using that by linarith
    ultimately show ?thesis unfolding slot_inv_def fl by (simp add: fl(2,3))
  qed
  ultimately have "minv s3" by (simp add: minv_def)
  then show ?thesis using e3 minv_same same_reply by blast
qed

lemma mm_reach_minv: "mm_reach e s \<Longrightarrow> minv s"
  by (induction rule: mm_reach.induct) (auto intro: boot_minv mm_step_minv)

text \<open>A machine with 4000 clicks, INIT of 60 clicks at 600, and everything below 1000 taken.\<close>

definition demo_env :: mm_env where
  "demo_env = \<lparr>e_buf = 0, e_send = (\<lambda>_. 0), e_getsp = (\<lambda>_. 0), e_copy = (\<lambda>_. 0), e_alarm = (\<lambda>_. (0, 0)),
     e_name = (\<lambda>_. []), e_stack = (\<lambda>_ _. 0), e_open = (\<lambda>_. 3),
     e_fstat = (\<lambda>_. Some \<lparr>st_mode = 0x81ED, st_uid = 0, st_gid = 0\<rparr>), e_read = (\<lambda>_. 32),
     e_header = (\<lambda>_ _. 0), e_creat = (\<lambda>_. 3), e_write = (\<lambda>_. 0)\<rparr>"

definition demo_brk2 :: mm_msg where
  "demo_brk2 = \<lparr>m1_i1 = 0, m1_i2 = 60, m1_i3 = 1000, m1_p1 = 600, m1_p2 = 0, m6_f1 = 0\<rparr>"

lemma mm_demo_boots: "brk2_ok 4000 demo_brk2" "\<exists>s. mm_boot demo_env 4000 demo_brk2 = Some s"
proof -
  show "brk2_ok 4000 demo_brk2" by (simp add: brk2_ok_def demo_brk2_def)
  obtain h where "alloc_mem 1000 (mem_init 4000 blank_table) = Some (0, h)"
    using boot_alloc [of 1000 4000] by auto
  then show "\<exists>s. mm_boot demo_env 4000 demo_brk2 = Some s"
    by (simp add: mm_boot_def mm_step_def get_work_def call_vec_def do_brk2_def boot_slots demo_brk2_def
        reply_def demo_env_def Let_def)
qed

text \<open>C20: In every state the memory manager can reach from boot, through any calls of living
  processes and signals of kernel and file system, the memory images of the processes in
  use overlap neither each other nor a hole, the hole list is well formed, and
  \<^verbatim>\<open>procs_in_use\<close> counts the slots in use.\<close>

theorem mm_memory_disjoint:
  assumes "mm_reach e s"
  shows "(\<forall>p q. owns s p \<longrightarrow> owns s q \<longrightarrow> p \<noteq> q \<longrightarrow> image (mproc s p) \<inter> image (mproc s q) = {})
    \<and> (\<forall>p. owns s p \<longrightarrow> image (mproc s p) \<inter> free_clicks (holes s) = {})
    \<and> hole_inv (holes s)
    \<and> procs_in_use s = int (card {p. 0 \<le> p \<and> p \<le> 15 \<and> mflag s p IN_USE})"
  using mm_reach_minv [OF assms] by (auto simp: minv_def mem_inv_def slot_inv_def)

theorem mm_memory_disjoint_witness:
  "\<exists>s. mm_boot demo_env 4000 demo_brk2 = Some s \<and> hole_inv (holes s)
    \<and> (\<forall>p. owns s p \<longrightarrow> image (mproc s p) \<inter> free_clicks (holes s) = {})"
proof -
  obtain s where s: "mm_boot demo_env 4000 demo_brk2 = Some s" using mm_demo_boots(2) by blast
  from mm_memory_disjoint [OF mm_reach.boot [OF mm_demo_boots(1) s]] s show ?thesis by blast
qed

section \<open>FORK\<close>

text \<open>The outer loop of the pid search always ends: the candidates cycle through 29998 numbers.\<close>

definition pid_at :: "int \<Rightarrow> nat \<Rightarrow> int" where
  "pid_at np k = (if np + int k \<le> 30000 then np + int k else np + int k - 29998)"

lemma pid_at_Suc:
  assumes "2 \<le> np" "np \<le> 30000" "Suc k \<le> 17"
  shows "pid_at (succ_pid np) k = pid_at np (Suc k)"
  using assms by (auto simp: pid_at_def succ_pid_def)

lemma pick_pid_ends:
  "k < n \<Longrightarrow> n \<le> 17 \<Longrightarrow> pid_at np (Suc k) \<notin> Q \<Longrightarrow> 2 \<le> np \<Longrightarrow> np \<le> 30000 \<Longrightarrow>
   (\<forall>i. 0 \<le> i \<and> i \<le> 15 \<longrightarrow> mp_pid (tab i) \<in> Q) \<Longrightarrow> pick_pid c tab np \<noteq> None"
proof (induction n arbitrary: k np tab)
  case (Suc n)
  show ?case
  proof (cases "pid_taken tab (succ_pid np)")
    case False
    then show ?thesis by (subst pick_pid.simps) (simp add: Let_def)
  next
    case True
    then have q: "succ_pid np \<in> Q" using Suc.prems(6) by (auto simp: pid_taken_def list_ex_iff)
    have "pid_at np (Suc 0) = succ_pid np" using Suc.prems(4,5) by (auto simp: pid_at_def succ_pid_def)
    then obtain k' where k: "k = Suc k'" using q Suc.prems(3) by (cases k) auto
    let ?t = "tab(c := (tab c)\<lparr>mp_pid := succ_pid np\<rparr>)"
    have b: "2 \<le> succ_pid np" "succ_pid np \<le> 30000" using Suc.prems(4,5) by (auto simp: succ_pid_def)
    have f: "pid_at (succ_pid np) (Suc k') \<notin> Q"
      using Suc.prems(1-5) k pid_at_Suc [of np "Suc k'"] by simp
    have t: "\<forall>i. 0 \<le> i \<and> i \<le> 15 \<longrightarrow> mp_pid (?t i) \<in> Q" using Suc.prems(6) q by auto
    have "pick_pid c ?t (succ_pid np) \<noteq> None"
      by (rule Suc.IH [OF _ _ f b t]) (use Suc.prems(1,2) k in auto)
    then show ?thesis using True by (subst pick_pid.simps) (simp add: Let_def)
  qed
qed simp

lemma pid_at_fresh:
  assumes "2 \<le> np" "np \<le> 30000"
  shows "\<exists>k<17. pid_at np (Suc k) \<notin> (\<lambda>i. mp_pid (tab i)) ` {0..15::int}"
proof (rule ccontr)
  assume "\<not> ?thesis"
  then have sub: "(\<lambda>k. pid_at np (Suc k)) ` {..<17} \<subseteq> (\<lambda>i. mp_pid (tab i)) ` {0..15::int}" by auto
  have "inj_on (\<lambda>k. pid_at np (Suc k)) {..<17}"
    using assms by (auto simp: inj_on_def pid_at_def split: if_splits)
  then have "card ((\<lambda>k. pid_at np (Suc k)) ` {..<17::nat}) = 17" by (simp add: card_image)
  moreover have "card ((\<lambda>i. mp_pid (tab i)) ` {0..15::int}) \<le> 16"
    using card_image_le [of "{0..15::int}" "\<lambda>i. mp_pid (tab i)"] by simp
  ultimately show False using card_mono [OF _ sub] by simp
qed

lemma pick_pid_defined:
  assumes "2 \<le> np" and "np \<le> 30000"
  shows "pick_pid c tab np \<noteq> None"
proof -
  obtain k where k: "k < 17" "pid_at np (Suc k) \<notin> (\<lambda>i. mp_pid (tab i)) ` {0..15::int}"
    using pid_at_fresh [OF assms] by blast
  show ?thesis by (rule pick_pid_ends [OF k(1) order.refl k(2) assms]) auto
qed

text \<open>C22: The pid search of \<^verbatim>\<open>do_fork\<close> always ends, whatever the table holds: it returns a pid
  that no other slot has, and changes only the child's pid.\<close>

theorem pick_pid_total:
  assumes "2 \<le> np" and "np \<le> 30000"
  shows "\<exists>n. pick_pid c tab np = Some (n, tab(c := (tab c)\<lparr>mp_pid := n\<rparr>))
    \<and> (\<forall>i. 0 \<le> i \<and> i \<le> 15 \<and> i \<noteq> c \<longrightarrow> mp_pid (tab i) \<noteq> n)"
proof -
  have "pick_pid c tab np \<noteq> None" by (rule pick_pid_defined [OF assms])
  then obtain n tab' where "pick_pid c tab np = Some (n, tab')" by auto
  then show ?thesis using pick_pid_result by blast
qed

theorem pick_pid_total_witness:
  "\<exists>n. pick_pid 5 (\<lambda>i. zero_mproc\<lparr>mp_pid := 29990 + i\<rparr>) 29998
      = Some (n, (\<lambda>i. zero_mproc\<lparr>mp_pid := 29990 + i\<rparr>)(5 := zero_mproc\<lparr>mp_pid := n\<rparr>))"
  using pick_pid_total [of 29998 5 "\<lambda>i. zero_mproc\<lparr>mp_pid := 29990 + i\<rparr>"] by auto

text \<open>C21: FORK. When \<^verbatim>\<open>do_fork\<close> succeeds, the child sits in a slot that was free, with a pid no
  slot had; its image is a fresh block taken from the holes, as long as the parent's, filled with one copy from
  the parent's image and laid out the same way: text at its base, data behind the text, the stack as far from
  the data as the parent's.  The slot is else a copy of the parent's, and kernel, FS and child are told, in this
  order; no other slot changes.  When it fails it returns EAGAIN and nothing changes.\<close>

theorem do_fork_makes_child:
  assumes f: "do_fork e s = Some (r, s')" and i: "minv s" and o: "owns s (mp s)" and w: "who s = mp s"
  shows "(r = EAGAIN \<and> s' = s) \<or>
    (\<exists>c b p l. 2 \<le> c \<and> c \<le> 15 \<and> \<not> mflag s c IN_USE \<and> owns s' c \<and> p = mproc s (mp s)
      \<and> mproc s' c = p\<lparr>mp_parent := who s, mp_pid := r, mp_exitstatus := 0, mp_sigstatus := 0,
          mp_seg := (mp_seg p)(SEG_T := (mp_seg p SEG_T)\<lparr>mem_phys := b\<rparr>,
            SEG_D := (mp_seg p SEG_D)\<lparr>mem_phys := b + mem_len (mp_seg p SEG_T)\<rparr>,
            SEG_S := (mp_seg p SEG_S)\<lparr>mem_phys :=
              b + mem_len (mp_seg p SEG_T) + (mem_phys (mp_seg p SEG_S) - mem_phys (mp_seg p SEG_D))\<rparr>)\<rparr>
      \<and> (\<forall>j. 0 \<le> j \<and> j \<le> 15 \<and> j \<noteq> c \<longrightarrow> mp_pid (mproc s j) \<noteq> r \<and> mproc s' j = mproc s j)
      \<and> image (mproc s' c) = {unat b..<unat b + card (image p)}
      \<and> image (mproc s' c) \<subseteq> free_clicks (holes s) \<and> free_clicks (holes s') = free_clicks (holes s) - image (mproc s' c)
      \<and> calls s' = calls s @ [SysCopy ABS 0 (uint (mem_phys (mp_seg p SEG_T)) * 16) ABS 0 (uint b * 16) (int (card (image p)) * 16),
          SysFork (who s) c r, TellFs C_FORK (who s) c 0, SysNewmap c (mp_seg (mproc s' c))] @ l
      \<and> l = (if has_flag (mp_flags p) HANGING then [] else [Send c 0 0 0]))"
proof -
  define p where "p = mproc s (mp s)"
  have ok: "image_ok p" using minv_image(1) [OF i o] by (simp add: p_def)
  have sz: "0 < unat (image_clicks p)" using image_size(1) [OF ok] ok by (auto simp: image_ok_def)
  from do_fork_cases [OF f i o] consider "r = EAGAIN \<and> s' = s"
    | b h s1 c s3 where "b \<noteq> NO_MEM" "alloc_mem (image_clicks p) (holes s) = Some (b, h)"
      "List.find (\<lambda>j. \<not> mflag s j IN_USE) slots = Some c"
      "s3 = s1\<lparr>procs_in_use := procs_in_use s + 1, next_pid := r,
          mproc := (mproc s)(c := (fork_slot (who s) b p)\<lparr>mp_pid := r\<rparr>)\<rparr>"
      "\<forall>j. 0 \<le> j \<and> j \<le> 15 \<and> j \<noteq> c \<longrightarrow> mp_pid (mproc s j) \<noteq> r"
      "reply e c 0 0 0 (emit (SysNewmap c (mp_seg (mproc s3 c))) (emit (TellFs C_FORK (who s) c 0)
               (emit (SysFork (who s) c r) s3))) = Some s'"
      "calls s1 = calls s @ [SysCopy ABS 0 (uint (mem_phys (tseg p)) * 16) ABS 0 (uint b * 16) (uint (image_clicks p) * 16)]"
      "same_images (s\<lparr>holes := h\<rparr>) s1"
    unfolding p_def by blast
  then show ?thesis
  proof cases
    case 2
    have al: "0 < unat b" "unat b + unat (image_clicks p) < 65536"
      "{unat b..<unat b + unat (image_clicks p)} \<subseteq> free_clicks (holes s)"
      "free_clicks h = free_clicks (holes s) - {unat b..<unat b + unat (image_clicks p)}"
      using alloc_base [OF i sz 2(2)] 2(1) by auto
    have c: "\<not> mflag s c IN_USE" "0 \<le> c" "c \<le> 15" using 2(3) by (auto simp: find_Some_iff nth_upto)
    then have "\<not> c \<le> 1" using minv_slot(2) [OF i, of c] by auto
    then have c2: "2 \<le> c" by simp
    have m: "mproc s' = (mproc s)(c := (fork_slot (who s) b p)\<lparr>mp_pid := r\<rparr>)"
      using reply_sel(1) [OF 2(6)] by (simp add: 2(4))
    have ho: "holes s' = h" using reply_sel(2) [OF 2(6)] 2(8) by (simp add: 2(4) same_images_def)
    have im: "image (mproc s' c) = {unat b..<unat b + unat (image_clicks p)}"
      using image_cong [of "(fork_slot (who s) b p)\<lparr>mp_pid := r\<rparr>" "fork_slot (who s) b p"]
        fork_slot_image(2) [OF ok al(1,2)] by (simp add: m)
    have ca: "card (image p) = unat (image_clicks p)" by (simp add: image_def)
    have use: "has_flag (mp_flags p) IN_USE" using o by (simp add: owns_def p_def)
    then have ow: "owns s' c" using c c2 by (simp add: owns_def m fork_slot_def Let_def)
    have oth: "\<forall>j. 0 \<le> j \<and> j \<le> 15 \<and> j \<noteq> c \<longrightarrow> mp_pid (mproc s j) \<noteq> r \<and> mproc s' j = mproc s j"
      using 2(5) by (simp add: m)
    have slot: "mproc s' c = p\<lparr>mp_parent := who s, mp_pid := r, mp_exitstatus := 0, mp_sigstatus := 0,
          mp_seg := (mp_seg p)(SEG_T := (mp_seg p SEG_T)\<lparr>mem_phys := b\<rparr>,
            SEG_D := (mp_seg p SEG_D)\<lparr>mem_phys := b + mem_len (mp_seg p SEG_T)\<rparr>,
            SEG_S := (mp_seg p SEG_S)\<lparr>mem_phys :=
              b + mem_len (mp_seg p SEG_T) + (mem_phys (mp_seg p SEG_S) - mem_phys (mp_seg p SEG_D))\<rparr>)\<rparr>"
      by (simp add: m fork_slot_def Let_def)
    define s7 where "s7 = emit (SysNewmap c (mp_seg (mproc s3 c))) (emit (TellFs C_FORK (who s) c 0) (emit (SysFork (who s) c r) s3))"
    have m7: "mproc s7 c = mproc s' c" by (simp add: s7_def 2(4) m)
    have n7: "calls s7 = calls s @ [SysCopy ABS 0 (uint (mem_phys (tseg p)) * 16) ABS 0 (uint b * 16) (int (card (image p)) * 16),
          SysFork (who s) c r, TellFs C_FORK (who s) c 0, SysNewmap c (mp_seg (mproc s' c))]"
      by (simp add: s7_def 2(4) 2(7) m ca)
    have r7: "reply e c 0 0 0 s7 = Some s'" using 2(6) by (simp add: s7_def)
    have fl: "mflag s7 c f = has_flag (mp_flags p) f" for f unfolding m7 slot by simp
    define l where "l = (if has_flag (mp_flags p) HANGING then [] else [Send c 0 0 0])"
    have "calls s' = calls s7 @ l"
      using r7 use unfolding reply_def Let_def fl l_def by (auto split: if_splits)
    then have cs: "calls s' = calls s @ [SysCopy ABS 0 (uint (mem_phys (tseg p)) * 16) ABS 0 (uint b * 16) (int (card (image p)) * 16),
          SysFork (who s) c r, TellFs C_FORK (who s) c 0, SysNewmap c (mp_seg (mproc s' c))] @ l"
      unfolding n7 by (simp only: append_assoc)
    have ms: "image (mproc s' c) = {unat b..<unat b + card (image p)}" "image (mproc s' c) \<subseteq> free_clicks (holes s)"
      "free_clicks (holes s') = free_clicks (holes s) - image (mproc s' c)"
      unfolding ho al(4) im ca by (rule refl al(3))+
    show ?thesis
      unfolding p_def [symmetric]
      by (intro disjI2 exI [of _ c] exI [of _ b] exI [of _ p] exI [of _ l] conjI) (rule refl c c2 ow slot oth cs l_def ms)+
  qed simp
qed

definition demo_holes :: hole_table where
  "demo_holes = set_hole 0 (\<lambda>h. h\<lparr>h_base := 1000, h_len := 3000\<rparr>) (mem_init 4000 blank_table)"

lemma demo_state:
  assumes "mm_boot demo_env 4000 demo_brk2 = Some s"
  shows "mproc s = mproc (set_mp INIT_PROC_NR (\<lambda>p. id (set_seg SEG_S (\<lambda>m. m\<lparr>mem_vir := 60, mem_phys := 660\<rparr>)
       (set_seg SEG_D (\<lambda>m. m\<lparr>mem_phys := 600, mem_len := 60\<rparr>)
       (set_seg SEG_T (\<lambda>m. m\<lparr>mem_phys := 600, mem_len := 0\<rparr>) p)))) (mm_init 4000 zero_mm))"
    "procs_in_use s = 3" "holes s = demo_holes" "next_pid s = 3"
proof -
  have h: "alloc_mem 1000 (mem_init 4000 blank_table) = Some (0, demo_holes)"
    by (simp add: alloc_mem_def mem_init_def find_hole.simps demo_holes_def set_hole_def blank_table_def
        word_le_nat_alt word_unat_eq_iff)
  have n: "next_pid (mm_init 4000 zero_mm) = 3" by (simp add: mm_init_def zero_mm_def Let_def)
  show "mproc s = mproc (set_mp INIT_PROC_NR (\<lambda>p. id (set_seg SEG_S (\<lambda>m. m\<lparr>mem_vir := 60, mem_phys := 660\<rparr>)
       (set_seg SEG_D (\<lambda>m. m\<lparr>mem_phys := 600, mem_len := 60\<rparr>)
       (set_seg SEG_T (\<lambda>m. m\<lparr>mem_phys := 600, mem_len := 0\<rparr>) p)))) (mm_init 4000 zero_mm))"
    "procs_in_use s = 3" "holes s = demo_holes" "next_pid s = 3"
    using assms h n
    by (auto simp: mm_boot_def mm_step_def get_work_def call_vec_def do_brk2_def boot_slots demo_brk2_def
        reply_def demo_env_def Let_def)
qed

lemma demo_owns:
  assumes "mm_boot demo_env 4000 demo_brk2 = Some s"
  shows "owns s 2" "procs_in_use s = 3" "mp_effuid (mproc s 2) = 0" "\<not> mflag s j WAITING" "\<not> mflag s j HANGING"
  using demo_state [OF assms]
  by (auto simp: owns_def mm_init_def zero_mm_def zero_mproc_def set_seg_def add_flag_def flag_simps Let_def)

lemma demo_fork_state:
  assumes "mm_boot demo_env 4000 demo_brk2 = Some s"
  shows "\<exists>t. alloc_mem 60 (holes s) = Some (1000, t) \<and> free_mem 1000 60 t \<noteq> None"
    "fork_clicks (mproc s 2) = 60" "\<not> mflag s 3 IN_USE" "image_clicks (mproc s 2) = 60"
  using demo_state [OF assms]
  by (simp_all add: demo_holes_def alloc_mem_def free_mem_def mem_init_def blank_table_def find_hole.simps word_le_nat_alt
      word_unat_eq_iff fork_clicks_def image_clicks_def mm_init_def zero_mm_def zero_mproc_def set_seg_def add_flag_def
      flag_simps Let_def)

lemma demo_forks:
  assumes "mm_boot demo_env 4000 demo_brk2 = Some s"
  shows "\<exists>r s'. do_fork demo_env (s\<lparr>mp := 2, who := 2\<rparr>) = Some (r, s') \<and> procs_in_use s' = 4"
proof -
  obtain h where h: "alloc_mem 60 (holes s) = Some (1000, h)" using demo_fork_state(1) [OF assms] by blast
  let ?s = "s\<lparr>mp := 2, who := 2\<rparr>"
  obtain i s1 where m: "mem_copy demo_env ABS 0 (uint (mem_phys (tseg (mproc s 2))) * 16) ABS 0 (1000 * 16) (60 * 16) (?s\<lparr>holes := h\<rparr>) = (i, s1)"
    by fastforce
  have s1: "i = 0" "mproc s1 = mproc s" "procs_in_use s1 = 3" "mp s1 = 2" "who s1 = 2" "next_pid s1 = 3"
    using m demo_owns(2) [OF assms] demo_state(4) [OF assms] by (auto simp: mem_copy_def demo_env_def Let_def)
  obtain c where c: "List.find (\<lambda>j. \<not> mflag s j IN_USE) [0..15] = Some c"
    using demo_fork_state(3) [OF assms] by (cases "List.find (\<lambda>j. \<not> mflag s j IN_USE) [0..15]") (auto simp: find_None_iff)
  obtain np tab where p: "pick_pid c ((mproc s)(c := fork_slot 2 1000 (mproc s 2))) 3 = Some (np, tab)"
    using pick_pid_defined [of 3 c "(mproc s)(c := fork_slot 2 1000 (mproc s 2))"] by fastforce
  have rp: "reply demo_env c 0 0 0 x = Some (if \<not> mflag x c IN_USE \<or> mflag x c HANGING then x else emit (Send c 0 0 0) x)" for x
    by (simp add: reply_def demo_env_def Let_def)
  note step = demo_owns(2,3) [OF assms] demo_fork_state(2) [OF assms] h m [simplified] c s1 p
  show ?thesis
    by (simp add: do_fork_def Let_def step rp del: upto_rec_numeral)
qed

theorem do_fork_makes_child_witness:
  "\<exists>s r s' c. mm_boot demo_env 4000 demo_brk2 = Some s \<and> do_fork demo_env (s\<lparr>mp := 2, who := 2\<rparr>) = Some (r, s')
    \<and> procs_in_use s' = 4 \<and> \<not> mflag s c IN_USE \<and> owns s' c \<and> mp_pid (mproc s' c) = r \<and> mem_len (mp_seg (mproc s' c) SEG_D) = mem_len (mp_seg (mproc s 2) SEG_D)"
proof -
  obtain s where s: "mm_boot demo_env 4000 demo_brk2 = Some s" using mm_demo_boots(2) by blast
  have "minv s" by (rule boot_minv [OF mm_demo_boots(1) s])
  then have i: "minv (s\<lparr>mp := 2, who := 2\<rparr>)"
    by (rule minv_same) (simp add: same_images_def alike_def)
  have o: "owns (s\<lparr>mp := 2, who := 2\<rparr>) (mp (s\<lparr>mp := 2, who := 2\<rparr>))"
    using demo_owns(1) [OF s] by (simp add: owns_def)
  have w: "who (s\<lparr>mp := 2, who := 2\<rparr>) = mp (s\<lparr>mp := 2, who := 2\<rparr>)" by simp
  obtain r s' where f: "do_fork demo_env (s\<lparr>mp := 2, who := 2\<rparr>) = Some (r, s')" "procs_in_use s' = 4"
    using demo_forks [OF s] by blast
  have "s' \<noteq> s\<lparr>mp := 2, who := 2\<rparr>" using f(2) demo_owns(2) [OF s] by auto
  with do_fork_makes_child [OF f(1) i o w] obtain c where "\<not> mflag s c IN_USE" "owns s' c" "mp_pid (mproc s' c) = r"
    "mem_len (mp_seg (mproc s' c) SEG_D) = mem_len (mp_seg (mproc s 2) SEG_D)" by auto
  then show ?thesis using s f by blast
qed

end
