(* ===== verification/MMProps2.thy ===== *)
theory MMProps2
  imports MMProps
begin

text \<open>
  Properties of single operations of the memory manager: segment growth, the size check,
  EXIT and WAIT, the permission check of KILL, the relocation of the stack image at EXEC,
  and the places where the code does not do what its comments say.
\<close>

section \<open>Segment growth\<close>

text \<open>C24: \<^verbatim>\<open>adjust\<close> is all or nothing. It either returns ENOMEM and restores the process to what it
  was, or returns OK: the data segment gets the size asked for, the stack segment contains
  the stack pointer, data ends at or below the stack, and the upper end of the stack, the
  text and the place in memory are unchanged.\<close>

theorem adjust_all_or_nothing:
  assumes a: "adjust i d sp s = (r, s')" and ok: "image_ok (mproc s i)"
    and v: "mem_vir (dseg (mproc s i)) = 0"
  shows "(r = ENOMEM \<and> s' = s) \<or>
    (r = OK \<and> mem_len (dseg (mproc s' i)) = d \<and> tseg (mproc s' i) = tseg (mproc s i)
      \<and> unat d \<le> unat (mem_vir (sseg (mproc s' i)))
      \<and> unat (mem_vir (sseg (mproc s' i))) \<le> unat sp div 16
      \<and> unat sp div 16 < unat (mem_vir (sseg (mproc s' i))) + unat (mem_len (sseg (mproc s' i)))
      \<and> unat (mem_vir (sseg (mproc s' i))) + unat (mem_len (sseg (mproc s' i)))
          = unat (mem_vir (sseg (mproc s i))) + unat (mem_len (sseg (mproc s i)))
      \<and> mem_phys (sseg (mproc s' i)) - mem_vir (sseg (mproc s' i))
          = mem_phys (sseg (mproc s i)) - mem_vir (sseg (mproc s i)))"
proof -
  define p where "p = mproc s i"
  define c :: u16 where "c = drop_bit 4 sp"
  define delta where "delta = uint (mem_vir (sseg p)) - uint c"
  define q where "q = adjusted d delta p"
  have uc: "unat c = unat sp div 16" by (simp add: c_def drop_bit_eq_div unat_div)
  consider "r = ENOMEM \<and> s' = s"
    | "r = OK" "mproc s' i = q" "uint c < uint (mem_vir (sseg p)) + uint (mem_len (sseg p))"
      "mem_vir (dseg p) + d \<le> (if delta > 0 then c else mem_vir (sseg p))"
    using a adjust_cases [of i d sp s]
    unfolding p_def [symmetric] c_def [symmetric] delta_def [symmetric] q_def [symmetric]
    by (auto simp: q_def p_def split: if_splits)
  then show ?thesis
  proof cases
    case 2
    have lim: "unat c < unat (mem_vir (sseg p)) + unat (mem_len (sseg p))"
      using 2(3) unfolding uint_nat by linarith
    have nw: "unat (mem_vir (sseg p)) + unat (mem_len (sseg p)) < 65536"
      using ok by (simp add: image_ok_def p_def)
    have dv: "d \<le> (if delta > 0 then c else mem_vir (sseg p))" using 2(4) v by (simp add: p_def)
    show ?thesis
    proof (cases "delta > 0")
      case True
      then have lt: "unat c < unat (mem_vir (sseg p))" unfolding delta_def uint_nat by linarith
      have v': "mem_vir (sseg p) - word_of_int delta = c" by (simp add: delta_def)
      have g: "unat c + unat (mem_len (sseg p) + word_of_int delta)
          = unat (mem_vir (sseg p)) + unat (mem_len (sseg p))"
        using grow_stack_size [OF lt nw] v' unfolding delta_def by simp
      have q: "sseg q = \<lparr>mem_vir = c, mem_phys = mem_phys (sseg p) - word_of_int delta,
          mem_len = mem_len (sseg p) + word_of_int delta\<rparr>" "mem_len (dseg q) = d" "tseg q = tseg p"
        using True v' by (simp_all add: q_def adjusted_def grow_stack_def)
      have "mem_phys (sseg p) - word_of_int delta - c = mem_phys (sseg p) - mem_vir (sseg p)"
        unfolding v' [symmetric] by simp
      moreover have "unat d \<le> unat c" using dv True by (simp add: word_le_nat_alt)
      ultimately show ?thesis
        using 2(1) g lim lt unfolding 2(2) p_def [symmetric] q uc [symmetric] by simp
    next
      case False
      then have "unat (mem_vir (sseg p)) \<le> unat c" unfolding delta_def uint_nat by linarith
      moreover have "sseg q = sseg p" "mem_len (dseg q) = d" "tseg q = tseg p"
        using False by (simp_all add: q_def adjusted_def)
      ultimately show ?thesis
        using 2(1,2) dv False lim uc by (simp add: p_def [symmetric] word_le_nat_alt)
    qed
  qed simp
qed

definition small_proc :: mproc where
  "small_proc = zero_mproc\<lparr>mp_flags := 1, mp_seg := (\<lambda>g. if g = SEG_S then \<lparr>mem_vir = 100, mem_phys = 700, mem_len = 10\<rparr>
     else \<lparr>mem_vir = 0, mem_phys = 600, mem_len = (if g = SEG_D then 40 else 0)\<rparr>)\<rparr>"

theorem adjust_all_or_nothing_witness:
  "let s = zero_mm\<lparr>mproc := (\<lambda>_. small_proc)\<rparr>; (r, s') = adjust 3 50 1280 s
   in r = OK \<and> mem_len (dseg (mproc s' 3)) = 50 \<and> unat (mem_vir (sseg (mproc s' 3))) \<le> 80"
proof -
  define s where "s = zero_mm\<lparr>mproc := (\<lambda>_. small_proc)\<rparr>"
  obtain r s' where a: "adjust 3 50 1280 s = (r, s')" by fastforce
  have p: "mproc s 3 = small_proc" by (simp add: s_def)
  have "image_ok (mproc s 3)" "mem_vir (dseg (mproc s 3)) = 0"
    by (simp_all add: p small_proc_def image_ok_def has_flag_def)
  from adjust_all_or_nothing [OF a this] have
    "(r = ENOMEM \<and> s' = s) \<or> (r = OK \<and> mem_len (dseg (mproc s' 3)) = 50 \<and> unat (mem_vir (sseg (mproc s' 3))) \<le> 80)"
    by auto
  moreover have "r = OK"
  proof -
    have "drop_bit 4 (1280::u16) = 80" by (simp add: drop_bit_eq_div word_unat_eq_iff unat_div)
    then show ?thesis
      using a by (auto simp: adjust_def p small_proc_def size_ok_def pages_eq Let_def has_flag_def zero_mproc_def
          set_seg_def grow_stack_def word_le_nat_alt split: if_splits)
  qed
  ultimately have "r = OK \<and> mem_len (dseg (mproc s' 3)) = 50 \<and> unat (mem_vir (sseg (mproc s' 3))) \<le> 80" by auto
  then show ?thesis using a by (simp add: s_def [symmetric])
qed

text \<open>\<^verbatim>\<open>size_ok\<close> computes page counts as 16-bit shifts, so it sees segment sizes only modulo
  4096 clicks: a text segment is never found too big, and 5000 clicks (80000 bytes) of data
  with 100 of stack are accepted although data and stack may not exceed 4096 clicks.\<close>

theorem size_ok_wraps:
  "size_ok ft (tc + 4096) dc sc dvir s_vir = size_ok ft tc dc sc dvir s_vir
   \<and> pages tc \<le> MAX_PAGES
   \<and> size_ok SEPARATE 0 5000 100 0 6000 = OK"
proof -
  have "uint (tc + 4096) mod 4096 = uint tc mod 4096"
    by (simp add: uint_word_arith_bintrs take_bit_eq_mod mod_mod_cancel)
  then have "pages (tc + 4096) = pages tc" by (simp add: pages_eq)
  then show ?thesis by (simp add: size_ok_def Let_def pages_eq)
qed

section \<open>The stack image at EXEC\<close>

definition shifted :: "u16 \<Rightarrow> nat \<Rightarrow> nat \<Rightarrow> (nat \<Rightarrow> u16) \<Rightarrow> (nat \<Rightarrow> u16)" where
  "shifted base a b st = (\<lambda>i. if a \<le> i \<and> i < b then st i + base else st i)"

lemma patch_run:
  assumes "flag < 2" "ap + n \<le> 512" "\<forall>i. ap \<le> i \<and> i < ap + n \<longrightarrow> st i \<noteq> 0"
  shows "patch_ptr base flag ap st = patch_ptr base flag (ap + n) (shifted base ap (ap + n) st)"
  using assms(2,3)
proof (induction n)
  case 0
  have "shifted base ap (ap + 0) st = st" by (auto simp: shifted_def fun_eq_iff)
  then show ?case by simp
next
  case (Suc n)
  have nz: "shifted base ap (ap + n) st (ap + n) \<noteq> 0" using Suc.prems(2) by (simp add: shifted_def)
  have upd: "(shifted base ap (ap + n) st)(ap + n := shifted base ap (ap + n) st (ap + n) + base)
      = shifted base ap (ap + Suc n) st" by (auto simp: shifted_def fun_eq_iff)
  have "patch_ptr base flag ap st = patch_ptr base flag (ap + n) (shifted base ap (ap + n) st)"
    using Suc by simp
  also have "\<dots> = patch_ptr base flag (Suc (ap + n)) (shifted base ap (ap + Suc n) st)"
    using nz assms(1) Suc.prems(1) by (subst patch_ptr.simps) (simp add: upd)
  finally show ?case by simp
qed

text \<open>C25: \<^verbatim>\<open>patch_ptr\<close> relocates exactly the argument and environment pointers: in an image with \<open>n\<close>
  argument pointers from word 1, a null word, \<open>m\<close> environment pointers and a null word, those
  \<open>n + m\<close> words are increased by the stack base and every other word is unchanged.\<close>

theorem patch_ptr_relocates:
  assumes "n + m + 2 < 512" and "\<forall>i. 1 \<le> i \<and> i \<le> n \<longrightarrow> st i \<noteq> 0" and "st (n + 1) = 0"
    and "\<forall>i. n + 2 \<le> i \<and> i \<le> n + m + 1 \<longrightarrow> st i \<noteq> 0" and "st (n + m + 2) = 0"
  shows "patch_ptr base 0 1 st
    = (\<lambda>i. if 1 \<le> i \<and> i \<le> n \<or> n + 2 \<le> i \<and> i \<le> n + m + 1 then st i + base else st i)"
proof -
  let ?s1 = "shifted base 1 (1 + n) st"
  let ?s2 = "shifted base (n + 2) (n + 2 + m) ?s1"
  have "patch_ptr base 0 1 st = patch_ptr base 0 (1 + n) ?s1"
    by (rule patch_run) (use assms(1,2) in auto)
  also have "\<dots> = patch_ptr base 1 (n + 2) ?s1"
    using assms(1,3) by (subst patch_ptr.simps) (simp add: shifted_def)
  also have "\<dots> = patch_ptr base 1 (n + 2 + m) ?s2"
    by (rule patch_run) (use assms(1,4) in \<open>auto simp: shifted_def\<close>)
  also have "\<dots> = patch_ptr base 2 (n + m + 3) ?s2"
    using assms(1,5) by (subst patch_ptr.simps) (simp add: shifted_def add.commute add.left_commute numeral_2_eq_2 numeral_3_eq_3)
  also have "\<dots> = ?s2" by (subst patch_ptr.simps) simp
  finally show ?thesis by (auto simp: shifted_def fun_eq_iff)
qed

theorem patch_ptr_relocates_witness:
  "patch_ptr 1000 0 1 ((\<lambda>_. 0)(0 := 2, 1 := 10, 2 := 14, 4 := 20)) 2 = 1014
   \<and> patch_ptr 1000 0 1 ((\<lambda>_. 0)(0 := 2, 1 := 10, 2 := 14, 4 := 20)) 4 = 1020
   \<and> patch_ptr 1000 0 1 ((\<lambda>_. 0)(0 := 2, 1 := 10, 2 := 14, 4 := 20)) 0 = 2"
proof -
  let ?st = "((\<lambda>_. 0)(0 := 2, 1 := 10, 2 := 14, 4 := 20)) :: nat \<Rightarrow> u16"
  have "patch_ptr 1000 0 1 ?st
    = (\<lambda>i. if 1 \<le> i \<and> i \<le> 2 \<or> 2 + 2 \<le> i \<and> i \<le> 2 + 1 + 1 then ?st i + 1000 else ?st i)"
    by (rule patch_ptr_relocates) auto
  then show ?thesis by simp
qed

section \<open>Where the code departs from its comments\<close>

definition grows :: "mm \<Rightarrow> mm \<Rightarrow> bool" where
  "grows s s' \<longleftrightarrow> (\<exists>l. calls s' = calls s @ l)"

lemma grows_refl [simp, intro]: "grows s s"
  by (simp add: grows_def)

lemma grows_trans: "grows s t \<Longrightarrow> grows t u \<Longrightarrow> grows s u"
  by (auto simp: grows_def)

lemma grows_emit [simp]: "grows s (emit c s)"
  by (simp add: grows_def)

lemma grows_emits: "grows s t \<Longrightarrow> grows s (emit c t)"
  using grows_trans grows_emit by blast

lemma grows_member: "grows s t \<Longrightarrow> c \<in> set (drop n (calls s)) \<Longrightarrow> c \<in> set (drop n (calls t))"
  by (auto simp: grows_def)

lemma grows_mem_copy: "mem_copy e a b c d f g h s = (r, s') \<Longrightarrow> grows s s'"
  by (auto simp: mem_copy_def Let_def split: if_splits)

lemma grows_dump_lens: "dump_lens e fd i l s = (b, s') \<Longrightarrow> grows s s'"
proof (induction l arbitrary: s)
  case (Cons j l)
  let ?s1 = "emit (WriteLong fd (uint (push_bit CLICK_SHIFT (mem_len (mp_seg (mproc s i) j))))) s"
  have "s' = ?s1 \<or> dump_lens e fd i l ?s1 = (b, s')"
    using Cons.prems by (auto simp: Let_def split: if_splits)
  then show ?case using Cons.IH grows_trans [OF grows_emit] by auto
qed simp

lemma grows_dump_bytes: "dump_bytes e fd i j a c s = (b, s') \<Longrightarrow> grows s s'"
proof (induction e fd i j a c s rule: dump_bytes.induct)
  case (1 e fd slot i a c s)
  show ?case
  proof (cases "c = 0")
    case True
    then show ?thesis using "1.prems" by (simp add: dump_bytes.simps)
  next
    case False
    obtain er1 s1 where m: "mem_copy e slot i a MM_PROC_NR SEG_D (e_buf e) (int (min c 256)) s = (er1, s1)"
      by fastforce
    let ?s2 = "emit (WriteBuf fd (int (min c 256))) s1"
    have "grows s ?s2" by (rule grows_emits [OF grows_mem_copy [OF m]])
    moreover have "s' = ?s2 \<or> grows ?s2 s'"
      using "1.prems" "1.IH" [OF False refl m [symmetric] refl refl] False m
      by (subst (asm) dump_bytes.simps) (auto simp: Let_def split: if_splits)
    ultimately show ?thesis using grows_trans by blast
  qed
qed

lemma grows_dump_segs: "dump_segs e fd i l s = (b, s') \<Longrightarrow> grows s s'"
proof (induction l arbitrary: s)
  case (Cons j l)
  obtain ok s1 where d: "dump_bytes e fd i j (uint (mem_vir (mp_seg (mproc s i) j)) * 16)
      (unat (mem_len (mp_seg (mproc s i) j)) * 16) s = (ok, s1)" by fastforce
  then have "s' = s1 \<or> dump_segs e fd i l s1 = (b, s')"
    using Cons.prems by (auto simp: Let_def split: if_splits)
  then show ?case using Cons.IH grows_trans [OF grows_dump_bytes [OF d]] grows_dump_bytes [OF d] by auto
qed simp

lemma write_core_returns_home:
  assumes "grows s0 s"
  shows "TellFs C_CHDIR 0 1 0 \<in> set (drop (length (calls s0)) (calls (write_core e n i s)))"
proof -
  define fd s2 where "fd = e_creat e (calls (emit (CreatF n) s))"
    and "s2 = emit (TellFs C_CHDIR 0 1 0) (emit (CreatF n) s)"
  have s2: "TellFs C_CHDIR 0 1 0 \<in> set (drop (length (calls s0)) (calls s2))"
    using assms by (auto simp: s2_def grows_def)
  define s3 where "s3 = set_mp i (\<lambda>q. q\<lparr>mp_sigstatus := mp_sigstatus q OR DUMPED\<rparr>) s2"
  have s3: "grows s2 s3" by (simp add: s3_def grows_def)
  obtain ok s4 where d: "dump_lens e fd i [0, 1, 2] s3 = (ok, s4)" by fastforce
  obtain ok' s5 where d': "dump_segs e fd i [0, 1, 2] s4 = (ok', s5)" by fastforce
  have s4: "grows s2 s4" by (rule grows_trans [OF s3 grows_dump_lens [OF d]])
  have s5: "grows s2 s5" by (rule grows_trans [OF s4 grows_dump_segs [OF d']])
  have "write_core e n i s = (if fd < 0 then s2 else emit (CloseF fd) (if ok then s5 else s4))"
    unfolding write_core_def Let_def fd_def [symmetric] s2_def [symmetric] s3_def [symmetric] d
    by (simp add: d' del: dump_segs.simps dump_lens.simps One_nat_def)
  then have "grows s2 (write_core e n i s)" using s4 s5 by (simp add: grows_emits)
  then show ?thesis by (rule grows_member [OF _ s2])
qed

text \<open>\<^verbatim>\<open>dump_core\<close> first moves to the working directory of the dying process and must come back
  to MM's own.  It does so on every path but one: for a process whose real and effective uid
  differ it returns at once, and the file system keeps resolving MM's names in the user's
  directory.\<close>

theorem dump_core_directory:
  assumes d: "dump_core e i s = Some s'"
  shows "calls s' = calls s @ [TellFs C_CHDIR i 0 0] \<and> mp_realuid (mproc s i) \<noteq> mp_effuid (mproc s i)
    \<or> TellFs C_CHDIR 0 1 0 \<in> set (drop (length (calls s)) (calls s')) \<and> mp_realuid (mproc s i) = mp_effuid (mproc s i)"
proof (cases "mp_realuid (mproc s i) = mp_effuid (mproc s i)")
  case False
  then show ?thesis using d by (auto simp: dump_core_def)
next
  case True
  define s0 where "s0 = emit (TellFs C_CHDIR i 0 0) s"
  obtain r x s1 sd y s2 where a: "allowed e [99, 111, 114, 101] W_BIT (s0\<lparr>mp := i\<rparr>) = Some (r, x, s1)"
      "allowed e [46] W_BIT s1 = Some (sd, y, s2)"
      "s' = write_core e [99, 111, 114, 101] i (close_if sd (close_if r (s2\<lparr>mp := mp s0\<rparr>)))
       \<or> (\<exists>r1. s' = emit (CloseF r1) (emit (TellFs C_CHDIR 0 1 0) (close_if sd (close_if r (s2\<lparr>mp := mp s0\<rparr>)))))"
    using d True unfolding dump_core_def Let_def s0_def [symmetric]
    by (auto simp: s0_def split: Option.bind_splits prod.splits if_splits)
  have al: "grows s s'" if "allowed e n m s = Some (r, st, s')" for n m s r st s'
    using that by (auto simp: allowed_def Let_def intro!: grows_emits split: if_splits Option.bind_splits)
  have "grows s s2"
    using al [OF a(1)] al [OF a(2)] by (auto simp: grows_def s0_def)
  then have "grows s (close_if sd (close_if r (s2\<lparr>mp := mp s0\<rparr>)))"
    by (auto simp: close_if_def grows_def)
  then show ?thesis
    using a(3) True write_core_returns_home by (auto simp: grows_def)
qed

theorem dump_core_directory_witness:
  "let s = zero_mm\<lparr>mproc := (\<lambda>_. zero_mproc\<lparr>mp_realuid := 7\<rparr>)\<rparr>
   in \<exists>s'. dump_core demo_env 5 s = Some s' \<and> calls s' = [TellFs C_CHDIR 5 0 0]"
proof -
  let ?s = "zero_mm\<lparr>mproc := (\<lambda>_. zero_mproc\<lparr>mp_realuid := 7\<rparr>)\<rparr>"
  have "dump_core demo_env 5 ?s = Some (emit (TellFs C_CHDIR 5 0 0) ?s)"
    by (simp add: dump_core_def zero_mproc_def)
  from dump_core_directory [OF this] show ?thesis
    by (simp add: dump_core_def zero_mm_def zero_mproc_def)
qed

text \<open>\<^verbatim>\<open>do_ksig\<close> returns before it inhibits the reply when the signalled process is gone (and
  after a stack fault), so the main loop replies to the kernel: \<^verbatim>\<open>reply\<close> looks at the flags of
  slot -1, outside \<^verbatim>\<open>mproc\<close>.  A signal for a living process gets no reply.\<close>

theorem ksig_replies_to_kernel:
  fixes s :: mm
  assumes c: "m1_i1 m = p"
  defines "s2 \<equiv> s\<lparr>mm_in := m, who := HARDWARE, mm_call := 64, mp := HARDWARE, dont_reply := False\<rparr>"
  shows "(\<not> mflag s p IN_USE \<or> mflag s p HANGING \<longrightarrow>
      mm_step e HARDWARE 64 m s = reply e HARDWARE OK (result2 s) (res_ptr s) s2)
    \<and> (mflag s p IN_USE \<and> \<not> mflag s p HANGING \<and> (word_of_int (m1_i2 m) :: u16) \<noteq> push_bit 15 1 \<longrightarrow>
      mm_step e HARDWARE 64 m s = map_option (\<lambda>t. t\<lparr>dont_reply := True\<rparr>)
        (ksig_loop e (word_of_int (m1_i2 m)) (mp_pid (mproc s p)) [0..<16] (s2\<lparr>mp := 0\<rparr>)))"
  using c
  by (auto simp: mm_step_def get_work_def call_vec_def do_ksig_def Let_def s2_def map_option_case
      simp del: ksig_loop.simps upt_rec_numeral split: option.splits Option.bind_splits)

theorem ksig_replies_to_kernel_witness:
  "\<exists>s'. mm_step demo_env HARDWARE 64 \<lparr>m1_i1 = 9, m1_i2 = 4, m1_i3 = 0, m1_p1 = 0, m1_p2 = 0, m6_f1 = 0\<rparr>
      (zero_mm\<lparr>mproc := (\<lambda>_. zero_mproc)(-1 := small_proc)\<rparr>) = Some s' \<and> calls s' = [Send HARDWARE 0 0 0]"
proof -
  let ?m = "\<lparr>m1_i1 = 9, m1_i2 = 4, m1_i3 = 0, m1_p1 = 0, m1_p2 = 0, m6_f1 = 0\<rparr>"
  let ?s = "zero_mm\<lparr>mproc := (\<lambda>_. zero_mproc)(-1 := small_proc)\<rparr>"
  have "\<not> mflag ?s 9 IN_USE" by (simp add: zero_mproc_def)
  then have "mm_step demo_env HARDWARE 64 ?m ?s = reply demo_env HARDWARE OK 0 0
      (?s\<lparr>mm_in := ?m, who := HARDWARE, mm_call := 64, mp := HARDWARE, dont_reply := False\<rparr>)"
    using ksig_replies_to_kernel [of ?m 9 ?s demo_env] by (simp add: zero_mm_def)
  then show ?thesis
    by (simp add: reply_def Let_def small_proc_def zero_mproc_def has_flag_def demo_env_def zero_mm_def)
qed

section \<open>EXIT and WAIT\<close>

text \<open>What the death of a process can do to the others: flags go off, memory becomes free.\<close>

definition shed :: "mm \<Rightarrow> mm \<Rightarrow> bool" where
  "shed s s' \<longleftrightarrow> grows s s' \<and> free_clicks (holes s) \<subseteq> free_clicks (holes s')
     \<and> (\<forall>p. (mflag s' p IN_USE \<longrightarrow> mflag s p IN_USE) \<and> (mflag s' p WAITING \<longrightarrow> mflag s p WAITING))"

lemma shed_refl [simp]: "shed s s"
  by (simp add: shed_def)

lemma shed_trans: "shed s t \<Longrightarrow> shed t u \<Longrightarrow> shed s u"
  unfolding shed_def by (meson grows_trans subset_trans)

lemma shed_parent: "shed s (set_mp i (\<lambda>p. p\<lparr>mp_parent := q\<rparr>) s)"
  by (simp add: shed_def grows_def)

lemma shed_disinherit:
  assumes "\<And>c s s'. cleanup n e c s = Some s' \<Longrightarrow> minv s \<Longrightarrow> owns s c \<Longrightarrow> shed s s'"
    and "disinherit n e c w l s = Some s'" "minv s" "2 \<le> c" "set l \<subseteq> {0..15}"
  shows "shed s s'"
  using assms(2-5)
proof (induction l arbitrary: s w)
  case (Cons rp l)
  show ?case
  proof (cases "mp_parent (mproc s rp) = c")
    case True
    let ?s1 = "set_mp rp (\<lambda>p. p\<lparr>mp_parent := INIT_PROC_NR\<rparr>) s"
    have rp: "2 \<le> rp" "rp \<le> 15" using True Cons.prems minv_slot(2) [of s rp] by force+
    have i1: "minv ?s1" using minv_same [OF Cons.prems(2) same_parent [OF rp(1)]] .
    show ?thesis
    proof (cases "w \<and> mflag ?s1 rp HANGING")
      case w: True
      then obtain s2 where s2: "cleanup n e rp ?s1 = Some s2" "disinherit n e c False l s2 = Some s'"
        using True Cons.prems(1) by (auto simp: Let_def split: Option.bind_splits)
      have o: "owns ?s1 rp" using minv_slot(1) [OF i1, of rp] w rp by (auto simp: owns_def)
      have "shed s2 s'" using Cons.IH [OF s2(2) cleanup_minv [OF s2(1) i1 o]] Cons.prems by simp
      then show ?thesis using shed_trans [OF shed_parent shed_trans [OF assms(1) [OF s2(1) i1 o]]] by blast
    next
      case w: False
      then have "disinherit n e c w l ?s1 = Some s'" using True Cons.prems(1) by (auto simp: Let_def)
      then have "shed ?s1 s'" using Cons.IH i1 Cons.prems by simp
      then show ?thesis by (rule shed_trans [OF shed_parent])
    qed
  next
    case False
    then show ?thesis using Cons.IH Cons.prems by simp
  qed
qed simp

lemma shed_cleanup_full:
  assumes "cleanup n e c s = Some s'" "minv s" "owns s c"
  defines "q \<equiv> mp_parent (mproc s c)"
  shows "shed s s' \<and> \<not> mflag s' c IN_USE \<and> \<not> mflag s' q WAITING \<and> image (mproc s c) \<subseteq> free_clicks (holes s')
    \<and> (mflag s q IN_USE \<and> \<not> mflag s q HANGING \<longrightarrow>
        (\<exists>l. calls s' = calls s @ Send q (mp_pid (mproc s c)) (sint (wait_status (mproc s c))) 0 # l))"
  using assms(1-3) unfolding q_def
proof (induction n arbitrary: c s s')
  case (Suc n)
  define par where "par = mp_parent (mproc s c)"
  obtain s1 h where r: "reply e par (mp_pid (mproc s c)) (sint (wait_status (mproc s c))) 0 s = Some s1"
    and h: "free_mem (mem_phys (tseg (mproc s1 c))) (image_clicks (mproc s1 c)) (holes s1) = Some h"
    and d: "disinherit n e c (mflag (release_slot c par h s1) INIT_PROC_NR WAITING) slots
       (release_slot c par h s1) = Some s'"
    using Suc.prems(1) by (auto simp: Let_def par_def split: Option.bind_splits)
  define s2 where "s2 = release_slot c par h s1"
  note m = reply_sel [OF r]
  have i1: "minv s1" using minv_same [OF Suc.prems(2) same_reply [OF r]] .
  have o1: "owns s1 c" using Suc.prems(3) m by (simp add: owns_def)
  note im = minv_image [OF i1 o1]
  have fr: "hole_inv h \<and> free_clicks h = free_clicks (holes s1) \<union> image (mproc s1 c)"
    using mem.release_ok [OF im(3) h image_size(3) [OF im(1)]] im(2) by (simp add: image_def)
  have i2: "minv s2" unfolding s2_def using fr
    by (intro minv_drop [OF i1 o1, of h]) (auto simp: release_slot_def Let_def alike_def flag_simps)
  have c2: "2 \<le> c" using Suc.prems(3) by (simp add: owns_def)
  have g1: "grows s s1" using reply_state [OF r] by auto
  have "(mflag s2 p IN_USE \<longrightarrow> mflag s1 p IN_USE) \<and> (mflag s2 p WAITING \<longrightarrow> mflag s1 p WAITING)" for p
    by (auto simp: s2_def release_slot_def Let_def flag_simps)
  then have "shed s s2" using g1 fr m by (auto simp: shed_def grows_def s2_def release_slot_def Let_def)
  moreover have s2': "shed s2 s'"
    by (rule shed_disinherit [OF _ d [folded s2_def] i2 c2]) (use Suc.IH in auto)
  ultimately have sh: "shed s s'" by (rule shed_trans)
  have "\<not> mflag s2 c IN_USE" "\<not> mflag s2 par WAITING" "image (mproc s c) \<subseteq> free_clicks (holes s2)"
    using fr m by (auto simp: s2_def release_slot_def Let_def flag_simps)
  moreover have "\<exists>l. calls s' = calls s @ Send par (mp_pid (mproc s c)) (sint (wait_status (mproc s c))) 0 # l"
    if "mflag s par IN_USE \<and> \<not> mflag s par HANGING"
  proof -
    have "s1 = emit (Send par (mp_pid (mproc s c)) (sint (wait_status (mproc s c))) 0) s"
      using r that by (auto simp: reply_def Let_def split: if_splits)
    then have "calls s2 = calls s @ [Send par (mp_pid (mproc s c)) (sint (wait_status (mproc s c))) 0]"
      by (simp add: s2_def release_slot_def Let_def)
    then show ?thesis using s2' by (auto simp: shed_def grows_def)
  qed
  ultimately show ?case using sh s2' unfolding par_def [symmetric] shed_def by blast
qed simp

text \<open>What EXIT does alone: with a waiting parent the process is cleaned up at once, else it hangs.\<close>

lemma exit_outcome:
  assumes x: "mm_exit e p st s = Some s'" and i: "minv s" and o: "owns s p"
  defines "q \<equiv> mp_parent (mproc s p)"
  shows "(mflag s q WAITING \<longrightarrow> \<not> mflag s' p IN_USE \<and> \<not> mflag s' q WAITING
        \<and> image (mproc s p) \<subseteq> free_clicks (holes s')
        \<and> (mflag s q IN_USE \<and> \<not> mflag s q HANGING \<longrightarrow>
            (\<exists>l. calls s' = calls s @ Send q (mp_pid (mproc s p))
                   (sint ((ucast (mp_sigstatus (mproc s p)) AND 255 OR push_bit 8 (ucast st)) :: u16)) 0 # l)))
    \<and> (\<not> mflag s q WAITING \<longrightarrow> mflag s' p IN_USE \<and> mflag s' p HANGING \<and> holes s' = holes s
        \<and> mp_exitstatus (mproc s' p) = st)"
proof -
  define s1 where "s1 = set_mp p (\<lambda>q. q\<lparr>mp_exitstatus := st\<rparr>) s"
  have i1: "minv s1" unfolding s1_def by (rule minv_same [OF i same_set_mp]) (auto simp: alike_def)
  have fl: "mflag s1 j f = mflag s j f" for j f by (simp add: s1_def)
  have o1: "owns s1 p" using o by (simp add: owns_def fl)
  have q1: "mp_parent (mproc s1 p) = q" "image (mproc s1 p) = image (mproc s p)" "mp_pid (mproc s1 p) = mp_pid (mproc s p)"
    "calls s1 = calls s" "holes s1 = holes s"
    by (simp_all add: s1_def q_def image_def image_clicks_def Let_def)
  have ws: "wait_status (mproc s1 p) = (ucast (mp_sigstatus (mproc s p)) AND 255) OR push_bit 8 (ucast st)"
    by (simp add: s1_def wait_status_def)
  obtain s2 s3 where c: "(if mflag s1 q WAITING then cleanup cleanup_depth e p s1
            else Some (set_mp p (add_flag HANGING) s1)) = Some s2"
    and a: "(if mflag s2 p ALARM_ON then do { (_, s3) \<leftarrow> set_alarm e p 0 s2; Some s3 } else Some s2) = Some s3"
    and r: "s' = emit (TellFs C_EXIT p 0 0) (emit (SysXit (mp_parent (mproc s3 p)) p) s3)"
    using x unfolding mm_exit_def Let_def s1_def [symmetric] q1(1)
    by (simp only: bind_eq_Some_conv option.inject) blast
  have s3: "mproc s3 = mproc s2 \<or> (\<exists>f. mproc s3 = (mproc s2)(p := del_flag ALARM_ON (mproc s2 p)))"
    "holes s3 = holes s2" "grows s2 s3"
    using a by (auto simp: set_alarm_def Let_def grows_def split: if_splits prod.splits)
  have fl3: "mflag s' j f = mflag s2 j f" if "f \<in> {IN_USE, WAITING, HANGING}" for j f
    using s3(1) that by (cases "j = p") (auto simp: r flag_simps)
  have ex3: "mp_exitstatus (mproc s' p) = mp_exitstatus (mproc s2 p)"
    using s3(1) by (auto simp: r del_flag_def)
  show ?thesis
  proof (cases "mflag s q WAITING")
    case True
    have "cleanup cleanup_depth e p s1 = Some s2" using c True fl by simp
    from shed_cleanup_full [OF this i1 o1] show ?thesis
      unfolding q1 ws fl using True s3 fl3 by (auto simp: r grows_def)
  next
    case False
    have s2: "s2 = set_mp p (add_flag HANGING) s1" using c False fl by simp
    have "mflag s2 p IN_USE" using o by (simp add: s2 fl owns_def flag_simps)
    moreover have "mflag s2 p HANGING" by (simp add: s2 flag_simps)
    moreover have "mp_exitstatus (mproc s2 p) = st" by (simp add: s2 s1_def add_flag_def)
    ultimately show ?thesis using False s3(2) fl3 ex3 by (simp add: r s2 q1)
  qed
qed

lemma exit_hangs:
  assumes x: "mm_exit e p st s = Some s'" and n: "\<not> mflag s (mp_parent (mproc s p)) WAITING"
  shows "\<exists>m. mproc s' = (mproc s)(p := m) \<and> mp_parent m = mp_parent (mproc s p) \<and> mp_pid m = mp_pid (mproc s p)
    \<and> mp_seg m = mp_seg (mproc s p) \<and> image m = image (mproc s p) \<and> image_clicks m = image_clicks (mproc s p)
    \<and> wait_status m = (ucast (mp_sigstatus (mproc s p)) AND 255) OR push_bit 8 (ucast st)
    \<and> mp_exitstatus m = st \<and> has_flag (mp_flags m) HANGING \<and> (\<forall>f. f \<in> {IN_USE, WAITING} \<longrightarrow> has_flag (mp_flags m) f = mflag s p f)
    \<and> holes s' = holes s \<and> grows s s'"
proof -
  define s1 where "s1 = set_mp p (add_flag HANGING) (set_mp p (\<lambda>q. q\<lparr>mp_exitstatus := st\<rparr>) s)"
  have fl: "mflag (set_mp p (\<lambda>q. q\<lparr>mp_exitstatus := st\<rparr>) s) j f = mflag s j f" for j f by simp
  have pp: "mp_parent (mproc (set_mp p (\<lambda>q. q\<lparr>mp_exitstatus := st\<rparr>) s) p) = mp_parent (mproc s p)" by simp
  obtain s3 where a: "(if mflag s1 p ALARM_ON then do { (_, s3) \<leftarrow> set_alarm e p 0 s1; Some s3 } else Some s1) = Some s3"
    and r: "s' = emit (TellFs C_EXIT p 0 0) (emit (SysXit (mp_parent (mproc s3 p)) p) s3)"
    using x n unfolding mm_exit_def Let_def fl pp s1_def [symmetric]
    by (simp only: if_False bind_eq_Some_conv option.inject) blast
  have s3: "mproc s3 = mproc s1 \<or> mproc s3 = (mproc s1)(p := del_flag ALARM_ON (mproc s1 p))" "holes s3 = holes s1" "grows s1 s3"
    using a by (auto simp: set_alarm_def Let_def grows_def split: if_splits prod.splits)
  define m where "m = mproc s3 p"
  have m: "m = add_flag HANGING ((mproc s p)\<lparr>mp_exitstatus := st\<rparr>) \<or> m = del_flag ALARM_ON (add_flag HANGING ((mproc s p)\<lparr>mp_exitstatus := st\<rparr>))"
    using s3(1) by (auto simp: m_def s1_def)
  have im: "image m = image (mproc s p)" "image_clicks m = image_clicks (mproc s p)" "mp_seg m = mp_seg (mproc s p)"
    using m by (auto simp: image_def image_clicks_def flag_simps Let_def)
  have "mproc s' = (mproc s)(p := m)" using s3(1) by (auto simp: r m_def s1_def fun_eq_iff)
  moreover have "grows s s'" using s3(3) by (auto simp: grows_def r s1_def)
  moreover have "holes s' = holes s" using s3(2) by (simp add: r s1_def)
  moreover have "mp_parent m = mp_parent (mproc s p)" "mp_pid m = mp_pid (mproc s p)" "mp_exitstatus m = st"
    "wait_status m = (ucast (mp_sigstatus (mproc s p)) AND 255) OR push_bit 8 (ucast st)"
    "has_flag (mp_flags m) HANGING" "\<forall>f. f \<in> {IN_USE, WAITING} \<longrightarrow> has_flag (mp_flags m) f = mflag s p f"
    using m by (auto simp: wait_status_def flag_simps add_flag_def del_flag_def)
  ultimately show ?thesis using im by blast
qed

text \<open>The end of a child \<open>p\<close> of \<open>q\<close>: slot and image are free, and \<open>q\<close> has been answered with pid and status.\<close>

definition collected :: "mm \<Rightarrow> mm \<Rightarrow> int \<Rightarrow> int \<Rightarrow> u8 \<Rightarrow> bool" where
  "collected s s' p q st \<longleftrightarrow> \<not> mflag s' p IN_USE \<and> \<not> mflag s' q WAITING \<and> image (mproc s p) \<subseteq> free_clicks (holes s')
     \<and> (\<exists>l1 l2. calls s' = calls s @ l1 @ Send q (mp_pid (mproc s p))
          (sint ((ucast (mp_sigstatus (mproc s p)) AND 255 OR push_bit 8 (ucast st)) :: u16)) 0 # l2)"

lemma wait_finds:
  assumes "0 \<le> p" "p \<le> 15" "mflag s p IN_USE" "mp_parent (mproc s p) = who s" "mflag s p HANGING"
    and "\<And>j. 0 \<le> j \<Longrightarrow> j \<le> 15 \<Longrightarrow> mflag s j IN_USE \<Longrightarrow> mp_parent (mproc s j) = who s \<Longrightarrow> mflag s j HANGING \<Longrightarrow> j = p"
  shows "List.find (\<lambda>i. mflag s i HANGING) (filter (\<lambda>i. mflag s i IN_USE \<and> mp_parent (mproc s i) = who s) slots) = Some p"
proof (cases "List.find (\<lambda>i. mflag s i HANGING) (filter (\<lambda>i. mflag s i IN_USE \<and> mp_parent (mproc s i) = who s) slots)")
  case None
  then show ?thesis using assms(1-5) by (auto simp: find_None_iff)
next
  case (Some j)
  then have "j \<in> set (filter (\<lambda>i. mflag s i IN_USE \<and> mp_parent (mproc s i) = who s) slots)" "mflag s j HANGING"
    unfolding find_Some_iff by (metis nth_mem)+
  then show ?thesis using Some assms(6) [of j] by auto
qed

lemma wait_collects:
  assumes "List.find (\<lambda>i. mflag s i HANGING) (filter (\<lambda>i. mflag s i IN_USE \<and> mp_parent (mproc s i) = who s) slots) = Some p"
    and "cleanup cleanup_depth e p s = Some s'"
  shows "do_wait e s = Some (OK, s'\<lparr>dont_reply := True\<rparr>)"
  unfolding do_wait_def Let_def assms(1) by (simp only: option.case assms(2) bind.bind_lunit)

lemma wait_blocks:
  assumes "0 \<le> p" "p \<le> 15" "mflag s p IN_USE" "mp_parent (mproc s p) = who s"
    and "\<And>j. 0 \<le> j \<Longrightarrow> j \<le> 15 \<Longrightarrow> mflag s j IN_USE \<Longrightarrow> mp_parent (mproc s j) = who s \<Longrightarrow> \<not> mflag s j HANGING"
  shows "do_wait e s = Some (OK, (set_mp (mp s) (add_flag WAITING) s)\<lparr>dont_reply := True\<rparr>)"
proof -
  have "List.find (\<lambda>i. mflag s i HANGING) (filter (\<lambda>i. mflag s i IN_USE \<and> mp_parent (mproc s i) = who s) slots) = None"
    using assms(5) by (auto simp: find_None_iff)
  moreover have "filter (\<lambda>i. mflag s i IN_USE \<and> mp_parent (mproc s i) = who s) slots \<noteq> []"
    using assms(1-4) by (auto simp: filter_empty_conv)
  ultimately show ?thesis unfolding do_wait_def Let_def by (simp only: option.case if_True not_False_eq_True)
qed

text \<open>C23: EXIT and WAIT meet in either order.  For a process \<open>p\<close> and its parent \<open>q\<close>, which is not waiting and has no
  child that hangs: if \<open>q\<close> waits first, it gets no reply until \<open>p\<close> exits; if \<open>p\<close> exits first, it hangs and
  keeps slot and image until \<open>q\<close> waits.  Either way the second call releases slot and image of \<open>p\<close>, ends the
  waiting, and answers \<open>q\<close> with the pid of \<open>p\<close> and a word with the signal below and the exit status above.\<close>

theorem exit_meets_wait:
  assumes i: "minv s" and p: "owns s p" "\<not> mflag s p HANGING" and q: "q = mp_parent (mproc s p)" "owns s q" "q \<noteq> p"
    "\<not> mflag s q WAITING" "\<not> mflag s q HANGING"
    and none: "\<forall>j. 0 \<le> j \<and> j \<le> 15 \<and> mflag s j IN_USE \<and> mp_parent (mproc s j) = q \<longrightarrow> \<not> mflag s j HANGING"
  shows "(\<exists>s1. do_wait e (s\<lparr>mp := q, who := q\<rparr>) = Some (OK, s1) \<and> dont_reply s1 \<and> mflag s1 q WAITING \<and> calls s1 = calls s
        \<and> (\<forall>s2. mm_exit e p st s1 = Some s2 \<longrightarrow> collected s s2 p q st))
    \<and> (\<forall>s1. mm_exit e p st s = Some s1 \<longrightarrow>
        mflag s1 p IN_USE \<and> mflag s1 p HANGING \<and> holes s1 = holes s \<and> \<not> mflag s1 q WAITING
        \<and> (\<forall>r s2. do_wait e (s1\<lparr>mp := q, who := q\<rparr>) = Some (r, s2) \<longrightarrow> r = OK \<and> dont_reply s2 \<and> collected s s2 p q st))"
proof (intro conjI allI impI)
  have p15: "0 \<le> p" "p \<le> 15" "2 \<le> p" "mflag s p IN_USE" using p(1) by (auto simp: owns_def)
  have q15: "2 \<le> q" "mflag s q IN_USE" using q(2) by (auto simp: owns_def)
  let ?s0 = "s\<lparr>mp := q, who := q\<rparr>"
  define sw where "sw = (set_mp q (add_flag WAITING) ?s0)\<lparr>dont_reply := True\<rparr>"
  have dw: "do_wait e ?s0 = Some (OK, sw)"
    unfolding sw_def using wait_blocks [of p ?s0 e] p15 q(1) none by simp
  have wf: "mproc sw = (mproc s)(q := add_flag WAITING (mproc s q))" "calls sw = calls s" "dont_reply sw" "holes sw = holes s"
    by (simp_all add: sw_def)
  have wi: "minv sw" unfolding sw_def
  proof (rule minv_same [OF i], rule same_images_trans [OF _ same_images_trans [OF same_set_mp same_fields(2)]])
    show "same_images s ?s0" by (simp add: same_images_def alike_def)
  qed (use q15 in \<open>auto simp: alike_def flag_simps\<close>)
  have "collected s s2 p q st" if x: "mm_exit e p st sw = Some s2" for s2
  proof -
    have o: "owns sw p" "mp_parent (mproc sw p) = q" "mflag sw q WAITING" "mflag sw q IN_USE" "\<not> mflag sw q HANGING"
      "image (mproc sw p) = image (mproc s p)"
      using p15 q q15 by (auto simp: owns_def wf flag_simps)
    show ?thesis
      using exit_outcome [OF x wi o(1)] o(3-5) q(3) unfolding collected_def o(2,6) by (simp add: wf) (metis append_Nil)
  qed
  then show "\<exists>s1. do_wait e ?s0 = Some (OK, s1) \<and> dont_reply s1 \<and> mflag s1 q WAITING \<and> calls s1 = calls s
        \<and> (\<forall>s2. mm_exit e p st s1 = Some s2 \<longrightarrow> collected s s2 p q st)"
    using dw wf by (auto simp: flag_simps)
next
  fix s1 assume x: "mm_exit e p st s = Some s1"
  have p15: "0 \<le> p" "p \<le> 15" "2 \<le> p" "mflag s p IN_USE" using p(1) by (auto simp: owns_def)
  have q15: "2 \<le> q" "mflag s q IN_USE" using q(2) by (auto simp: owns_def)
  from exit_hangs [OF x] q(1,4) obtain m where m: "mproc s1 = (mproc s)(p := m)" "mp_parent m = q"
    "mp_pid m = mp_pid (mproc s p)" "image m = image (mproc s p)"
    "wait_status m = (ucast (mp_sigstatus (mproc s p)) AND 255) OR push_bit 8 (ucast st)"
    "has_flag (mp_flags m) HANGING" "has_flag (mp_flags m) IN_USE" "holes s1 = holes s" "grows s s1"
    using p15(4) by auto
  show "mflag s1 p IN_USE" "mflag s1 p HANGING" "holes s1 = holes s" "\<not> mflag s1 q WAITING"
    using m q(3,4) by simp_all
  fix r s2 assume w: "do_wait e (s1\<lparr>mp := q, who := q\<rparr>) = Some (r, s2)"
  let ?s0 = "s1\<lparr>mp := q, who := q\<rparr>"
  have f: "List.find (\<lambda>i. mflag ?s0 i HANGING) (filter (\<lambda>i. mflag ?s0 i IN_USE \<and> mp_parent (mproc ?s0 i) = who ?s0) slots) = Some p"
  proof (rule wait_finds)
    fix j :: int
    assume "0 \<le> j" "j \<le> 15" "mflag ?s0 j IN_USE" "mp_parent (mproc ?s0 j) = who ?s0" "mflag ?s0 j HANGING"
    then show "j = p" using none by (cases "j = p") (auto simp: m(1))
  qed (use p15 m in simp_all)
  obtain s3 where c: "cleanup cleanup_depth e p ?s0 = Some s3" "s2 = s3\<lparr>dont_reply := True\<rparr>" "r = OK"
    using w unfolding do_wait_def Let_def f by (auto simp del: cleanup.simps split: Option.bind_splits)
  have i1: "minv ?s0"
    using mm_exit_minv [OF x i p15(1,2,4)] by (rule minv_same) (simp add: same_images_def alike_def)
  have o1: "owns ?s0 p" using p15 m by (simp add: owns_def)
  have e1: "mp_parent (mproc ?s0 p) = q" "mproc ?s0 p = m" "calls ?s0 = calls s1" "mflag ?s0 q IN_USE" "\<not> mflag ?s0 q HANGING"
    using m q q15 by simp_all
  obtain l1 where l1: "calls s1 = calls s @ l1" using m(9) by (auto simp: grows_def)
  have "collected s s3 p q st"
    using shed_cleanup_full [OF c(1) i1 o1] e1(4,5) unfolding collected_def e1(1-3) m(2-5) l1 by auto
  then show "r = OK" "dont_reply s2" "collected s s2 p q st" using c by (simp_all add: collected_def)
qed

text \<open>EXIT of a child of INIT returns when the hole table has room and the replies can be sent.\<close>

lemma disinherit_calm: "\<exists>s'. disinherit n e c False l s = Some s'"
  by (induction l arbitrary: s) (simp_all add: Let_def)

lemma cleanup_returns:
  assumes "mp_parent (mproc s c) = INIT_PROC_NR" "\<And>l. e_send e l = OK"
    "free_mem (mem_phys (tseg (mproc s c))) (image_clicks (mproc s c)) (holes s) \<noteq> None"
  shows "\<exists>s'. cleanup (Suc n) e c s = Some s'"
proof -
  have "reply e INIT_PROC_NR (mp_pid (mproc s c)) (sint (wait_status (mproc s c))) 0 s \<noteq> None"
    using assms(2) by (auto simp: reply_def Let_def)
  then obtain s1 where r: "reply e INIT_PROC_NR (mp_pid (mproc s c)) (sint (wait_status (mproc s c))) 0 s = Some s1"
    by blast
  note m = reply_sel [OF r]
  obtain h where h: "free_mem (mem_phys (tseg (mproc s1 c))) (image_clicks (mproc s1 c)) (holes s1) = Some h"
    using assms(3) m by auto
  have "\<not> mflag (release_slot c INIT_PROC_NR h s1) INIT_PROC_NR WAITING"
    by (auto simp: release_slot_def Let_def flag_simps)
  then show ?thesis using assms(1) r h disinherit_calm by (simp add: Let_def)
qed

lemma exit_returns:
  assumes "mp_parent (mproc s p) = INIT_PROC_NR" "\<And>l. e_send e l = OK"
    "free_mem (mem_phys (tseg (mproc s p))) (image_clicks (mproc s p)) (holes s) \<noteq> None"
  shows "\<exists>s'. mm_exit e p st s = Some s'"
proof -
  define s1 where "s1 = set_mp p (\<lambda>q. q\<lparr>mp_exitstatus := st\<rparr>) s"
  have s1: "mp_parent (mproc s1 p) = INIT_PROC_NR"
    "free_mem (mem_phys (tseg (mproc s1 p))) (image_clicks (mproc s1 p)) (holes s1) \<noteq> None"
    using assms(1,3) by (auto simp: s1_def image_clicks_def Let_def)
  have "\<exists>s2. (if mflag s1 INIT_PROC_NR WAITING then cleanup cleanup_depth e p s1
            else Some (set_mp p (add_flag HANGING) s1)) = Some s2"
    using cleanup_returns [OF s1(1) assms(2) s1(2), of "Suc 0"] by (simp add: numeral_2_eq_2 del: cleanup.simps)
  then obtain s2 where s2: "(if mflag s1 INIT_PROC_NR WAITING then cleanup cleanup_depth e p s1
            else Some (set_mp p (add_flag HANGING) s1)) = Some s2" by blast
  have "\<exists>s3. (if mflag s2 p ALARM_ON then do { (_, s3) \<leftarrow> set_alarm e p 0 s2; Some s3 } else Some s2) = Some s3"
    using assms(2) by (auto simp: set_alarm_def Let_def split: prod.splits)
  then obtain s3 where s3: "(if mflag s2 p ALARM_ON then do { (_, s3) \<leftarrow> set_alarm e p 0 s2; Some s3 } else Some s2) = Some s3"
    by blast
  show ?thesis unfolding mm_exit_def Let_def s1_def [symmetric] s1(1) s2 by (simp only: bind.bind_lunit s3) blast
qed

text \<open>INIT of the small machine forks a child that gets the 60 clicks from 1000 on.\<close>

lemma demo_child:
  assumes b: "mm_boot demo_env 4000 demo_brk2 = Some s0"
  shows "\<exists>s p. minv s \<and> owns s 2 \<and> owns s p \<and> p \<noteq> 2 \<and> mp_parent (mproc s p) = 2 \<and> (\<forall>j. \<not> mflag s j HANGING)
    \<and> \<not> mflag s 2 WAITING \<and> card (image (mproc s p)) = 60
    \<and> free_mem (mem_phys (tseg (mproc s p))) (image_clicks (mproc s p)) (holes s) \<noteq> None"
proof -
  have i0: "minv s0" by (rule boot_minv [OF mm_demo_boots(1) b])
  let ?b = "s0\<lparr>mp := 2, who := 2\<rparr>"
  have i: "minv ?b" by (rule minv_same [OF i0]) (simp add: same_images_def alike_def)
  have o: "owns ?b (mp ?b)" using demo_owns(1) [OF b] by (simp add: owns_def)
  obtain r s where f: "do_fork demo_env ?b = Some (r, s)" "procs_in_use s = 4" using demo_forks [OF b] by blast
  have ne: "s \<noteq> ?b" using f(2) demo_owns(2) [OF b] by auto
  obtain h where h: "alloc_mem 60 (holes s0) = Some (1000, h)" "free_mem 1000 60 h \<noteq> None"
    using demo_fork_state(1) [OF b] by blast
  from do_fork_cases [OF f(1) i o] ne obtain h' b' s1 c n s3 s7 where
    F: "alloc_mem (image_clicks (mproc s0 2)) (holes s0) = Some (b', h')" "same_images (?b\<lparr>holes := h'\<rparr>) s1"
    "List.find (\<lambda>j. \<not> mflag s0 j IN_USE) slots = Some c"
    "s3 = s1\<lparr>procs_in_use := procs_in_use ?b + 1, next_pid := n,
          mproc := (mproc s0)(c := (fork_slot 2 b' (mproc s0 2))\<lparr>mp_pid := n\<rparr>)\<rparr>"
    "s7 = emit (SysNewmap c (mp_seg (mproc s3 c))) (emit (TellFs C_FORK 2 c 0) (emit (SysFork 2 c n) s3))"
    "reply demo_env c 0 0 0 s7 = Some s" by auto
  have bh: "b' = 1000" "h' = h" using F(1) h(1) demo_fork_state(4) [OF b] by simp_all
  have m: "mproc s = (mproc s0)(c := (fork_slot 2 1000 (mproc s0 2))\<lparr>mp_pid := n\<rparr>)" "holes s = h"
    using reply_sel [OF F(6)] F(2) bh by (simp_all add: F(4,5) same_images_def)
  have c: "\<not> mflag s0 c IN_USE" "0 \<le> c" "c \<le> 15" using F(3) by (auto simp: find_Some_iff nth_upto)
  have "\<not> c \<le> 1" using minv_slot(2) [OF i0, of c] c by auto
  have u2: "mflag s0 2 IN_USE" using demo_owns(1) [OF b] by (simp add: owns_def)
  then have c2: "c \<noteq> 2" using c(1) by auto
  have ic: "image_clicks (mproc s c) = 60" using demo_fork_state(4) [OF b] by (auto simp: m fork_slot_def image_clicks_def Let_def)
  have fl: "mflag s j g = mflag s0 (if j = c then 2 else j) g" for j g by (simp add: m fork_slot_def Let_def)
  have "minv s" by (rule do_fork_minv [OF f(1) i o])
  moreover have "owns s 2" "owns s c" using c2 c u2 \<open>\<not> c \<le> 1\<close> by (simp_all add: owns_def fl)
  moreover have "mp_parent (mproc s c) = 2" "mem_phys (tseg (mproc s c)) = 1000" by (simp_all add: m fork_slot_def Let_def)
  ultimately show ?thesis
    using c2 h(2) m(2) ic demo_owns(4,5) [OF b] by (intro exI [of _ s] exI [of _ c]) (simp add: fl image_def)
qed

theorem exit_meets_wait_witness:
  "\<exists>s p s1 s2 r t1 t2. minv s \<and> card (image (mproc s p)) = 60
    \<and> do_wait demo_env (s\<lparr>mp := 2, who := 2\<rparr>) = Some (OK, s1) \<and> mm_exit demo_env p 7 s1 = Some s2 \<and> collected s s2 p 2 7
    \<and> mm_exit demo_env p 7 s = Some t1 \<and> mflag t1 p HANGING
    \<and> do_wait demo_env (t1\<lparr>mp := 2, who := 2\<rparr>) = Some (r, t2) \<and> collected s t2 p 2 7"
proof -
  obtain s0 where "mm_boot demo_env 4000 demo_brk2 = Some s0" using mm_demo_boots(2) by blast
  from demo_child [OF this] obtain s p where s: "minv s" "owns s p" "\<not> mflag s p HANGING" "2 = mp_parent (mproc s p)"
    "owns s 2" "2 \<noteq> p" "\<not> mflag s 2 WAITING" "\<not> mflag s 2 HANGING"
    "\<forall>j. 0 \<le> j \<and> j \<le> 15 \<and> mflag s j IN_USE \<and> mp_parent (mproc s j) = 2 \<longrightarrow> \<not> mflag s j HANGING"
    and f: "free_mem (mem_phys (tseg (mproc s p))) (image_clicks (mproc s p)) (holes s) \<noteq> None"
    and a: "card (image (mproc s p)) = 60" "\<forall>j. \<not> mflag s j HANGING" by metis
  note meet = exit_meets_wait [OF s, of demo_env 7]
  have p15: "0 \<le> p" "p \<le> 15" "mflag s p IN_USE" using s(2) by (auto simp: owns_def)
  have e: "e_send demo_env l = OK" for l by (simp add: demo_env_def)
  have w: "do_wait demo_env (s\<lparr>mp := 2, who := 2\<rparr>) = Some (OK, (set_mp 2 (add_flag WAITING) (s\<lparr>mp := 2, who := 2\<rparr>))\<lparr>dont_reply := True\<rparr>)"
    (is "_ = Some (OK, ?s1)") using wait_blocks [of p "s\<lparr>mp := 2, who := 2\<rparr>" demo_env] p15 s(4) a(2) by simp
  obtain s2 where s2: "mm_exit demo_env p 7 ?s1 = Some s2"
    using exit_returns [of ?s1 p demo_env 7] e f s(4,6) by auto
  obtain t1 where t1: "mm_exit demo_env p 7 s = Some t1" using exit_returns [of s p demo_env 7] e f s(4) by auto
  obtain m where m: "mproc t1 = (mproc s)(p := m)" "mp_parent m = 2" "has_flag (mp_flags m) HANGING"
    "has_flag (mp_flags m) IN_USE" "holes t1 = holes s" "mp_seg m = mp_seg (mproc s p)" "image_clicks m = image_clicks (mproc s p)"
    using exit_hangs [OF t1] s(4,7) p15(3) by auto
  let ?w = "t1\<lparr>mp := 2, who := 2\<rparr>"
  obtain t3 where t3: "cleanup cleanup_depth demo_env p ?w = Some t3"
    using cleanup_returns [of ?w p demo_env "Suc 0"] e f m by (auto simp: numeral_2_eq_2 simp del: cleanup.simps)
  have "List.find (\<lambda>i. mflag ?w i HANGING) (filter (\<lambda>i. mflag ?w i IN_USE \<and> mp_parent (mproc ?w i) = who ?w) slots) = Some p"
  proof (rule wait_finds)
    fix j :: int
    assume "mflag ?w j HANGING"
    then show "j = p" using a(2) by (cases "j = p") (auto simp: m(1))
  qed (use p15 m(1-4) in simp_all)
  from wait_collects [OF this t3] obtain r t2 where t2: "do_wait demo_env ?w = Some (r, t2)" by blast
  have "collected s s2 p 2 7" using conjunct1 [OF meet] w s2 by auto
  moreover have "mflag t1 p HANGING" "collected s t2 p 2 7" using conjunct2 [OF meet] t1 t2 by blast+
  ultimately show ?thesis using w s2 t1 t2 s(1) a(1) by blast
qed

end
