(* ===== verification/FSTypes.thy ===== *)
theory FSTypes
  imports KTypes "HOL-Library.Signed_Division"
begin

text \<open>
  Data of the file system: constants of \<^verbatim>\<open>fs/const.h\<close> and \<^verbatim>\<open>h/*.h\<close>, byte access to blocks, and
  the tables of \<^verbatim>\<open>buf.h\<close>, \<^verbatim>\<open>super.h\<close>, \<^verbatim>\<open>inode.h\<close>, \<^verbatim>\<open>file.h\<close> and \<^verbatim>\<open>fproc.h\<close> as records.

  The state has three layers, and each function works on the lowest that holds what it touches:
  \<open>cache\<close> (buffers and disks), \<open>vol\<close> (the cache, the super blocks and the inode table) and
  \<open>fs\<close> (a \<open>vol\<close>, file descriptors, processes and the current request).
  A pointer into a table is an index (\<open>None\<close> for nil); a panic, a nil dereference, an access
  outside an array and an endless loop are the value \<open>None\<close> of the operation.

  What the system asks others for is answered by \<open>fs_env\<close>: the n-th block request, clock
  request, copy request and device request find their answers at index n.
\<close>

section \<open>Constants\<close>

abbreviation (input) "NO_DEV \<equiv> (0xFFFF::u16)"
abbreviation (input) "ROOT_DEV \<equiv> (0x301::u16)"
abbreviation (input) "NO_BLOCK \<equiv> (0::u16)"
abbreviation (input) "NO_ZONE \<equiv> (0::u16)"
abbreviation (input) "NO_BIT \<equiv> (0::u16)"
abbreviation (input) "SUPER_BLOCK \<equiv> (1::u16)"
abbreviation (input) "ROOT_INODE \<equiv> (1::u16)"
abbreviation (input) "SUPER_MAGIC \<equiv> (0x137F::u16)"
abbreviation (input) "BLOCK_SIZE \<equiv> (1024::int)"
abbreviation (input) "NR_BUFS \<equiv> (20::nat)"
abbreviation (input) "NR_SUPERS \<equiv> (5::nat)"
abbreviation (input) "NR_INODES \<equiv> (32::nat)"
abbreviation (input) "NR_FILPS \<equiv> (64::nat)"
abbreviation (input) "NR_FDS \<equiv> (20::nat)"
abbreviation (input) "NR_DZONE_NUM \<equiv> (7::nat)"
abbreviation (input) "NR_INDIRECTS \<equiv> (512::nat)"
abbreviation (input) "NAME_SIZE \<equiv> (14::nat)"
abbreviation (input) "PATH_MAX \<equiv> (128::nat)"
abbreviation (input) "PIPE_SIZE \<equiv> (7168::int)"

abbreviation (input) "WRITE_IMMED \<equiv> (0x40::u16)"
abbreviation (input) "ONE_SHOT \<equiv> (0x80::u16)"
abbreviation (input) "INODE_BLOCK \<equiv> (0x40::u16)"
abbreviation (input) "DIRECTORY_BLOCK \<equiv> (0x41::u16)"
abbreviation (input) "INDIRECT_BLOCK \<equiv> (0x42::u16)"
abbreviation (input) "I_MAP_BLOCK \<equiv> (0xC3::u16)"
abbreviation (input) "ZMAP_BLOCK \<equiv> (0xC4::u16)"
abbreviation (input) "ZUPER_BLOCK \<equiv> (0xC5::u16)"
abbreviation (input) "FULL_DATA_BLOCK \<equiv> (6::u16)"
abbreviation (input) "PARTIAL_DATA_BLOCK \<equiv> (7::u16)"

abbreviation (input) "I_TYPE \<equiv> (0xF000::u16)"
abbreviation (input) "I_REGULAR \<equiv> (0x8000::u16)"
abbreviation (input) "I_BLOCK_SPECIAL \<equiv> (0x6000::u16)"
abbreviation (input) "I_DIRECTORY \<equiv> (0x4000::u16)"
abbreviation (input) "I_CHAR_SPECIAL \<equiv> (0x2000::u16)"
abbreviation (input) "ALL_MODES \<equiv> (0xDFF::u16)"
abbreviation (input) "RWX_MODES \<equiv> (0x1FF::u16)"
abbreviation (input) "R_BIT \<equiv> (4::u16)"
abbreviation (input) "W_BIT \<equiv> (2::u16)"
abbreviation (input) "X_BIT \<equiv> (1::u16)"

abbreviation (input) "ERROR \<equiv> (-1::int)"
abbreviation (input) "EPERM \<equiv> (-1::int)"
abbreviation (input) "ENOENT \<equiv> (-2::int)"
abbreviation (input) "EINTR \<equiv> (-4::int)"
abbreviation (input) "EBADF \<equiv> (-9::int)"
abbreviation (input) "EACCES \<equiv> (-13::int)"
abbreviation (input) "ENOTBLK \<equiv> (-15::int)"
abbreviation (input) "EBUSY \<equiv> (-16::int)"
abbreviation (input) "EEXIST \<equiv> (-17::int)"
abbreviation (input) "EXDEV \<equiv> (-18::int)"
abbreviation (input) "ENOTDIR \<equiv> (-20::int)"
abbreviation (input) "EISDIR \<equiv> (-21::int)"
abbreviation (input) "EINVAL \<equiv> (-22::int)"
abbreviation (input) "ENFILE \<equiv> (-23::int)"
abbreviation (input) "EMFILE \<equiv> (-24::int)"
abbreviation (input) "ENOTTY \<equiv> (-25::int)"
abbreviation (input) "EFBIG \<equiv> (-27::int)"
abbreviation (input) "ENOSPC \<equiv> (-28::int)"
abbreviation (input) "ESPIPE \<equiv> (-29::int)"
abbreviation (input) "EROFS \<equiv> (-30::int)"
abbreviation (input) "EMLINK \<equiv> (-31::int)"
abbreviation (input) "EPIPE \<equiv> (-32::int)"
abbreviation (input) "E_BAD_CALL \<equiv> (-102::int)"
abbreviation (input) "E_LONG_STRING \<equiv> (-103::int)"
abbreviation (input) "EOF \<equiv> (-104::int)"
abbreviation (input) "SUSPEND \<equiv> (-998::int)"

section \<open>Bytes and longs\<close>

type_synonym block = "nat \<Rightarrow> u8"

definition rd16 :: "block \<Rightarrow> nat \<Rightarrow> u16" where
  "rd16 d i = ucast (d i) OR push_bit 8 (ucast (d (i + 1)))"

definition wr16 :: "nat \<Rightarrow> u16 \<Rightarrow> block \<Rightarrow> block" where
  "wr16 i v d = d(i := ucast v, i + 1 := ucast (drop_bit 8 v))"

definition rd32 :: "block \<Rightarrow> nat \<Rightarrow> u32" where
  "rd32 d i = ucast (rd16 d i) OR push_bit 16 (ucast (rd16 d (i + 2)))"

definition wr32 :: "nat \<Rightarrow> u32 \<Rightarrow> block \<Rightarrow> block" where
  "wr32 i v d = wr16 (i + 2) (ucast (drop_bit 16 v)) (wr16 i (ucast v) d)"

text \<open>Loops whose body may fail.\<close>

fun each :: "('a \<Rightarrow> 's \<Rightarrow> 's option) \<Rightarrow> 'a list \<Rightarrow> 's \<Rightarrow> 's option" where
  "each f [] s = Some s"
| "each f (x # xs) s = do { s1 \<leftarrow> f x s; each f xs s1 }"

section \<open>The environment\<close>

text \<open>
  \<open>v_io\<close>: status of a block transfer. \<open>v_clock\<close>: status and time from the clock task.
  \<open>v_copy\<close>: status of a copy by the system task. \<open>v_task\<close>: the messages a device task sends
  until it answers the request, each the process it is for, the status and two longs.
  \<open>v_bufptr\<close> and \<open>v_inoptr\<close> are the addresses of the table slots and \<open>v_bufof\<close>, \<open>v_inoof\<close> the
  way back, since \<^verbatim>\<open>rw_super\<close> also transfers the pointers of a super block.
\<close>

record task_reply =
  rep_type :: int
  rep_proc_nr :: int
  rep_status :: int
  rep_spek :: int
  rep_flags :: int

record fs_env =
  v_io :: "nat \<Rightarrow> int"
  v_clock :: "nat \<Rightarrow> int \<times> int"
  v_copy :: "nat \<Rightarrow> int"
  v_task :: "nat \<Rightarrow> task_reply list"
  v_times :: "nat \<Rightarrow> int"
  v_bufptr :: "nat option \<Rightarrow> u16"
  v_inoptr :: "nat option \<Rightarrow> u16"
  v_bufof :: "u16 \<Rightarrow> nat option"
  v_inoof :: "u16 \<Rightarrow> nat option"

section \<open>The buffer cache\<close>

record buf =
  b_data :: block
  b_next :: "nat option"
  b_prev :: "nat option"
  b_hash :: "nat option"
  b_blocknr :: u16
  b_dev :: u16
  b_dirt :: bool
  b_count :: int

text \<open>\<open>disk\<close> is what the block devices hold and \<open>ios\<close> counts the block requests made so far.\<close>

record cache =
  bufs :: "nat \<Rightarrow> buf"
  buf_hash :: "nat \<Rightarrow> nat option"
  front :: "nat option"
  rear :: "nat option"
  bufs_in_use :: int
  rdwt_err :: int
  disk :: "u16 \<Rightarrow> u16 \<Rightarrow> block"
  ios :: nat

definition set_buf :: "nat \<Rightarrow> (buf \<Rightarrow> buf) \<Rightarrow> cache \<Rightarrow> cache" where
  "set_buf i f c = c\<lparr>bufs := (bufs c)(i := f (bufs c i))\<rparr>"

lemma set_buf_sel [simp]:
  "bufs (set_buf i f c) j = (if j = i then f (bufs c i) else bufs c j)"
  "buf_hash (set_buf i f c) = buf_hash c" "front (set_buf i f c) = front c"
  "rear (set_buf i f c) = rear c" "bufs_in_use (set_buf i f c) = bufs_in_use c"
  "rdwt_err (set_buf i f c) = rdwt_err c" "disk (set_buf i f c) = disk c" "ios (set_buf i f c) = ios c"
  by (simp_all add: set_buf_def)

section \<open>Super blocks and inodes\<close>

record super =
  s_ninodes :: u16
  s_nzones :: u16
  s_imap_blocks :: u16
  s_zmap_blocks :: u16
  s_firstdatazone :: u16
  s_log_zone_size :: int
  s_max_size :: int
  s_magic :: u16
  s_imap :: "nat \<Rightarrow> nat option"
  s_zmap :: "nat \<Rightarrow> nat option"
  s_dev :: u16
  s_isup :: "nat option"
  s_imount :: "nat option"
  s_time :: int
  s_rd_only :: u8
  s_dirt :: u8

record inode =
  i_mode :: u16
  i_uid :: u16
  i_size :: int
  i_modtime :: int
  i_gid :: u8
  i_nlinks :: u8
  i_zone :: "nat \<Rightarrow> u16"
  i_dev :: u16
  i_num :: u16
  i_count :: int
  i_dirt :: bool
  i_pipe :: bool
  i_mount :: bool
  i_seek :: bool

record vol =
  cch :: cache
  super_block :: "nat \<Rightarrow> super"
  inodes :: "nat \<Rightarrow> inode"
  err_code :: int
  clks :: nat

definition set_ino :: "nat \<Rightarrow> (inode \<Rightarrow> inode) \<Rightarrow> vol \<Rightarrow> vol" where
  "set_ino i f v = v\<lparr>inodes := (inodes v)(i := f (inodes v i))\<rparr>"

definition set_super :: "nat \<Rightarrow> (super \<Rightarrow> super) \<Rightarrow> vol \<Rightarrow> vol" where
  "set_super i f v = v\<lparr>super_block := (super_block v)(i := f (super_block v i))\<rparr>"

lemma set_ino_sel [simp]:
  "inodes (set_ino i f v) j = (if j = i then f (inodes v i) else inodes v j)"
  "cch (set_ino i f v) = cch v" "super_block (set_ino i f v) = super_block v"
  "err_code (set_ino i f v) = err_code v" "clks (set_ino i f v) = clks v"
  by (simp_all add: set_ino_def)

lemma set_super_sel [simp]:
  "super_block (set_super i f v) j = (if j = i then f (super_block v i) else super_block v j)"
  "cch (set_super i f v) = cch v" "inodes (set_super i f v) = inodes v"
  "err_code (set_super i f v) = err_code v" "clks (set_super i f v) = clks v"
  by (simp_all add: set_super_def)

text \<open>Who asks: the identity that the protection code finds in \<^verbatim>\<open>fp\<close> and \<^verbatim>\<open>super_user\<close>.\<close>

record cred =
  c_realuid :: u16
  c_effuid :: u16
  c_realgid :: u8
  c_effgid :: u8
  c_su :: bool

end
