(* ===== verification/FSCache.thy ===== *)
theory FSCache
  imports FSTypes
begin

text \<open>
  The buffer cache of \<^verbatim>\<open>fs/cache.c\<close> and \<^verbatim>\<open>buf_pool\<close> of \<^verbatim>\<open>fs/main.c\<close>: buffers on one LRU chain
  (doubly linked) and on hash chains (singly linked).
\<close>

definition hash_of :: "u16 \<Rightarrow> nat" where
  "hash_of blk = unat (blk AND 31)"

section \<open>Disk transfers\<close>

text \<open>\<^verbatim>\<open>find_dev\<close> of \<^verbatim>\<open>fs/device.c\<close> panics on a major number outside the device table.\<close>

definition dev_major :: "u16 \<Rightarrow> nat" where
  "dev_major dev = unat (drop_bit 8 dev AND 255)"

definition dev_minor :: "u16 \<Rightarrow> int" where
  "dev_minor dev = uint (dev AND 255)"

definition known_dev :: "u16 \<Rightarrow> bool" where
  "known_dev dev \<longleftrightarrow> dev_major dev \<noteq> 0 \<and> dev_major dev < 7"

text \<open>
  \<^verbatim>\<open>rw_block\<close>, with the block devices behind \<^verbatim>\<open>dev_io\<close> as \<open>disk\<close>: a transfer either succeeds and
  moves the whole block, or answers a negative status and moves nothing.
\<close>

definition rw_block :: "fs_env \<Rightarrow> nat \<Rightarrow> bool \<Rightarrow> cache \<Rightarrow> cache option" where
  "rw_block e bp writing c =
     (let b = bufs c bp; r = v_io e (ios c); c1 = c\<lparr>ios := ios c + 1\<rparr>
      in if b_dev b = NO_DEV then Some (set_buf bp (\<lambda>b. b\<lparr>b_dirt := False\<rparr>) c)
         else if \<not> known_dev (b_dev b) then None
         else if r < 0
         then Some (set_buf bp (\<lambda>b. b\<lparr>b_dev := (if r = EOF then NO_DEV else b_dev b), b_dirt := False\<rparr>)
                     (c1\<lparr>rdwt_err := r\<rparr>))
         else if writing
         then Some (set_buf bp (\<lambda>b. b\<lparr>b_dirt := False\<rparr>)
                     (c1\<lparr>disk := (disk c)(b_dev b := (disk c (b_dev b))(b_blocknr b := b_data b))\<rparr>))
         else Some (set_buf bp (\<lambda>b'. b'\<lparr>b_data := disk c (b_dev b) (b_blocknr b), b_dirt := False\<rparr>) c1))"

section \<open>Acquiring a block\<close>

text \<open>The walks over a hash chain and over the LRU chain.\<close>

partial_function (option) hash_find :: "(nat \<Rightarrow> buf) \<Rightarrow> u16 \<Rightarrow> u16 \<Rightarrow> nat option \<Rightarrow> nat option option" where
  "hash_find t dev blk p =
     (if p = None then Some None
      else if b_blocknr (t (the p)) = blk \<and> b_dev (t (the p)) = dev then Some p
      else hash_find t dev blk (b_hash (t (the p))))"

partial_function (option) lru_find :: "(nat \<Rightarrow> buf) \<Rightarrow> nat \<Rightarrow> nat option" where
  "lru_find t i =
     (if b_count (t i) > 0
      then (case b_next (t i) of None \<Rightarrow> Some i | Some j \<Rightarrow> lru_find t j)
      else Some i)"

partial_function (option) hash_pred :: "(nat \<Rightarrow> buf) \<Rightarrow> nat \<Rightarrow> nat \<Rightarrow> nat option option" where
  "hash_pred t x i =
     (case b_hash (t i) of None \<Rightarrow> Some None
      | Some j \<Rightarrow> if j = x then Some (Some i) else hash_pred t x j)"

definition hash_remove :: "nat \<Rightarrow> cache \<Rightarrow> cache option" where
  "hash_remove bp c =
     (let h = hash_of (b_blocknr (bufs c bp)); nx = b_hash (bufs c bp)
      in if buf_hash c h = Some bp then Some (c\<lparr>buf_hash := (buf_hash c)(h := nx)\<rparr>)
         else do {
           i \<leftarrow> buf_hash c h;
           r \<leftarrow> hash_pred (bufs c) bp i;
           (case r of None \<Rightarrow> Some c | Some p \<Rightarrow> Some (set_buf p (\<lambda>b. b\<lparr>b_hash := nx\<rparr>) c))
         })"

definition hash_insert :: "nat \<Rightarrow> u16 \<Rightarrow> u16 \<Rightarrow> cache \<Rightarrow> cache" where
  "hash_insert bp dev blk c =
     (let c1 = set_buf bp (\<lambda>b. b\<lparr>b_dev := dev, b_blocknr := blk, b_count := b_count b + 1,
                 b_hash := buf_hash c (hash_of blk)\<rparr>) c
      in c1\<lparr>buf_hash := (buf_hash c1)(hash_of blk := Some bp)\<rparr>)"

text \<open>The second half of \<^verbatim>\<open>get_block\<close>: the block is not cached, take the oldest free buffer.\<close>

definition take_buffer :: "fs_env \<Rightarrow> u16 \<Rightarrow> u16 \<Rightarrow> bool \<Rightarrow> cache \<Rightarrow> (nat \<times> cache) option" where
  "take_buffer e dev blk no_read c =
     (if bufs_in_use c = int NR_BUFS then None \<comment> \<open>panic: All buffers in use\<close>
      else do {
        f \<leftarrow> front c;
        bp \<leftarrow> lru_find (bufs c) f;
        (if b_count (bufs c bp) > 0 then None \<comment> \<open>panic: No free buffer\<close>
         else do {
           c1 \<leftarrow> hash_remove bp (c\<lparr>bufs_in_use := bufs_in_use c + 1\<rparr>);
           c2 \<leftarrow> (if b_dirt (bufs c1 bp) \<and> b_dev (bufs c1 bp) \<noteq> NO_DEV then rw_block e bp True c1 else Some c1);
           let c3 = hash_insert bp dev blk c2;
           c4 \<leftarrow> (if dev \<noteq> NO_DEV \<and> \<not> no_read then rw_block e bp False c3 else Some c3);
           Some (bp, c4)
         })
      })"

definition get_block :: "fs_env \<Rightarrow> u16 \<Rightarrow> u16 \<Rightarrow> bool \<Rightarrow> cache \<Rightarrow> (nat \<times> cache) option" where
  "get_block e dev blk no_read c = do {
     r \<leftarrow> (if dev \<noteq> NO_DEV then hash_find (bufs c) dev blk (buf_hash c (hash_of blk)) else Some None);
     (case r of
        Some bp \<Rightarrow>
          Some (bp, set_buf bp (\<lambda>b. b\<lparr>b_count := b_count b + 1\<rparr>)
                 (if b_count (bufs c bp) = 0 then c\<lparr>bufs_in_use := bufs_in_use c + 1\<rparr> else c))
      | None \<Rightarrow> take_buffer e dev blk no_read c)
   }"

section \<open>Releasing a block\<close>

definition lru_remove :: "nat \<Rightarrow> cache \<Rightarrow> cache" where
  "lru_remove bp c =
     (let nx = b_next (bufs c bp); pv = b_prev (bufs c bp);
          c1 = (case pv of Some p \<Rightarrow> set_buf p (\<lambda>b. b\<lparr>b_next := nx\<rparr>) c | None \<Rightarrow> c\<lparr>front := nx\<rparr>)
      in (case nx of Some n \<Rightarrow> set_buf n (\<lambda>b. b\<lparr>b_prev := pv\<rparr>) c1 | None \<Rightarrow> c1\<lparr>rear := pv\<rparr>))"

definition lru_front :: "nat \<Rightarrow> cache \<Rightarrow> cache" where
  "lru_front bp c =
     (let c1 = set_buf bp (\<lambda>b. b\<lparr>b_prev := None, b_next := front c\<rparr>) c;
          c2 = (case front c of None \<Rightarrow> c1\<lparr>rear := Some bp\<rparr>
                | Some f \<Rightarrow> set_buf f (\<lambda>b. b\<lparr>b_prev := Some bp\<rparr>) c1)
      in c2\<lparr>front := Some bp\<rparr>)"

definition lru_rear :: "nat \<Rightarrow> cache \<Rightarrow> cache" where
  "lru_rear bp c =
     (let c1 = set_buf bp (\<lambda>b. b\<lparr>b_prev := rear c, b_next := None\<rparr>) c;
          c2 = (case rear c of None \<Rightarrow> c1\<lparr>front := Some bp\<rparr>
                | Some r \<Rightarrow> set_buf r (\<lambda>b. b\<lparr>b_next := Some bp\<rparr>) c1)
      in c2\<lparr>rear := Some bp\<rparr>)"

definition put_block :: "fs_env \<Rightarrow> nat option \<Rightarrow> u16 \<Rightarrow> cache \<Rightarrow> cache option" where
  "put_block e p block_type c =
     (case p of None \<Rightarrow> Some c
      | Some bp \<Rightarrow>
          (let c1 = set_buf bp (\<lambda>b. b\<lparr>b_count := b_count b - 1\<rparr>) c
           in if b_count (bufs c1 bp) > 0 then Some c1
              else do {
                let c2 = lru_remove bp (c1\<lparr>bufs_in_use := bufs_in_use c1 - 1\<rparr>);
                let c3 = (if has_flag block_type ONE_SHOT then lru_front bp c2 else lru_rear bp c2);
                c4 \<leftarrow> (if has_flag block_type WRITE_IMMED \<and> b_dirt (bufs c3 bp) \<and> b_dev (bufs c3 bp) \<noteq> NO_DEV
                      then rw_block e bp True c3 else Some c3);
                Some (if block_type = ZUPER_BLOCK then set_buf bp (\<lambda>b. b\<lparr>b_dev := NO_DEV\<rparr>) c4 else c4)
              }))"

definition invalidate :: "u16 \<Rightarrow> cache \<Rightarrow> cache" where
  "invalidate device c =
     c\<lparr>bufs := (\<lambda>i. if i < NR_BUFS \<and> b_dev (bufs c i) = device then (bufs c i)\<lparr>b_dev := NO_DEV\<rparr> else bufs c i)\<rparr>"

text \<open>\<^verbatim>\<open>zero_block\<close> of \<^verbatim>\<open>fs/write.c\<close> clears the 512 integers of a buffer.\<close>

definition zero_block :: "nat \<Rightarrow> cache \<Rightarrow> cache" where
  "zero_block bp c = set_buf bp (\<lambda>b. b\<lparr>b_data := (\<lambda>i. if i < 1024 then 0 else b_data b i), b_dirt := True\<rparr>) c"

section \<open>The pool at start-up\<close>

text \<open>
  \<^verbatim>\<open>buf_pool\<close>.  \<open>crosses i\<close> says that buffer \<open>i\<close> lies across a 64K boundary, which depends on where
  the file system is loaded; such a buffer is taken off the LRU chain.
\<close>

definition pool_link :: "nat \<Rightarrow> buf \<Rightarrow> buf" where
  "pool_link i b = b\<lparr>b_blocknr := NO_BLOCK, b_dev := NO_DEV,
     b_next := (if i = NR_BUFS - 1 then None else Some (i + 1)),
     b_prev := (if i = 0 then None else Some (i - 1))\<rparr>"

definition drop_crossing :: "nat \<Rightarrow> cache \<Rightarrow> cache option" where
  "drop_crossing i c =
     (if i = 0 then Some (set_buf 1 (\<lambda>b. b\<lparr>b_prev := None\<rparr>) (c\<lparr>front := Some 1\<rparr>))
      else if i = NR_BUFS - 1
      then Some (set_buf (NR_BUFS - 2) (\<lambda>b. b\<lparr>b_next := None\<rparr>) (c\<lparr>rear := Some (NR_BUFS - 2)\<rparr>))
      else do {
        p \<leftarrow> b_prev (bufs c i);
        let c1 = set_buf p (\<lambda>b. b\<lparr>b_next := Some (i + 1)\<rparr>) c;
        n \<leftarrow> b_next (bufs c1 i);
        Some (set_buf n (\<lambda>b. b\<lparr>b_prev := Some (i - 1)\<rparr>) c1)
      })"

definition buf_pool :: "(nat \<Rightarrow> bool) \<Rightarrow> cache \<Rightarrow> cache option" where
  "buf_pool crosses c = do {
     let c1 = c\<lparr>bufs_in_use := 0, front := Some 0, rear := Some (NR_BUFS - 1),
                bufs := (\<lambda>i. if i < NR_BUFS then pool_link i (bufs c i) else bufs c i)\<rparr>;
     c2 \<leftarrow> each (\<lambda>i s. if crosses i then drop_crossing i s else Some s) [0..<NR_BUFS] c1;
     Some (c2\<lparr>bufs := (\<lambda>i. if i < NR_BUFS then (bufs c2 i)\<lparr>b_hash := b_next (bufs c2 i)\<rparr> else bufs c2 i),
              buf_hash := (buf_hash c2)(0 := front c2)\<rparr>)
   }"

end
