(* ===== verification/FSCacheInv.thy ===== *)
theory FSCacheInv
  imports FSCache
begin

text \<open>
  The invariant of the buffer cache and what \<^verbatim>\<open>get_block\<close>, \<^verbatim>\<open>put_block\<close> and their helpers do to the
  contents of the disk as seen through the cache.
\<close>

section \<open>Doubly linked lists\<close>

definition dlist :: "('a \<Rightarrow> 'a option) \<Rightarrow> ('a \<Rightarrow> 'a option) \<Rightarrow> 'a option \<Rightarrow> 'a option \<Rightarrow> 'a list \<Rightarrow> bool" where
  "dlist nx pv f r L \<longleftrightarrow> chain nx f L \<and> chain pv r (rev L)"

lemma dlist_distinct: "dlist nx pv f r L \<Longrightarrow> distinct L"
  using chain_distinct [of nx f L] by (simp add: dlist_def)

lemma dlist_ends:
  assumes "dlist nx pv f r L"
  shows "f = (case L of [] \<Rightarrow> None | x # _ \<Rightarrow> Some x)" "r = (if L = [] then None else Some (last L))"
proof -
  show "f = (case L of [] \<Rightarrow> None | x # _ \<Rightarrow> Some x)" using assms by (cases L) (auto simp: dlist_def)
  show "r = (if L = [] then None else Some (last L))"
    using assms by (cases L rule: rev_cases) (auto simp: dlist_def)
qed

lemma dlist_links:
  assumes "dlist nx pv f r (us @ x # vs)"
  shows "nx x = (case vs of [] \<Rightarrow> None | y # _ \<Rightarrow> Some y)" "pv x = (if us = [] then None else Some (last us))"
proof -
  have n: "chain nx (nx x) vs" and p: "chain pv (pv x) (rev us)" using assms by (auto simp: dlist_def)
  show "nx x = (case vs of [] \<Rightarrow> None | y # _ \<Rightarrow> Some y)" using n by (cases vs) auto
  show "pv x = (if us = [] then None else Some (last us))" using p by (cases us rule: rev_cases) auto
qed

text \<open>Taking an element out: its neighbours, or the ends, are joined.\<close>

lemma dlist_remove:
  assumes "dlist nx pv f r (us @ x # vs)"
  shows "dlist (case pv x of Some p \<Rightarrow> nx(p := nx x) | None \<Rightarrow> nx)
               (case nx x of Some n \<Rightarrow> pv(n := pv x) | None \<Rightarrow> pv)
               (case pv x of Some p \<Rightarrow> f | None \<Rightarrow> nx x) (case nx x of Some n \<Rightarrow> r | None \<Rightarrow> pv x) (us @ vs)"
proof -
  have n: "chain nx f (us @ x # vs)" and p: "chain pv r (rev vs @ x # rev us)" using assms by (auto simp: dlist_def)
  note l = dlist_links [OF assms]
  have 1: "chain (case pv x of Some p \<Rightarrow> nx(p := nx x) | None \<Rightarrow> nx) (case pv x of Some p \<Rightarrow> f | None \<Rightarrow> nx x) (us @ vs)"
  proof (cases us rule: rev_cases)
    case Nil
    then show ?thesis using n l(2) by auto
  next
    case (snoc us' a)
    then show ?thesis using chain_unlink [of nx f us' a x vs] n l(2) by simp
  qed
  have 2: "chain (case nx x of Some n \<Rightarrow> pv(n := pv x) | None \<Rightarrow> pv) (case nx x of Some n \<Rightarrow> r | None \<Rightarrow> pv x) (rev vs @ rev us)"
  proof (cases vs)
    case Nil
    then show ?thesis using p l(1) by auto
  next
    case (Cons b vs')
    then show ?thesis using chain_unlink [of pv r "rev vs'" b x "rev us"] p l(1) by simp
  qed
  show ?thesis using 1 2 by (simp add: dlist_def)
qed

lemma dlist_push_front:
  assumes "dlist nx pv f r L" "x \<notin> set L"
  shows "dlist (nx(x := f)) (case f of Some y \<Rightarrow> (pv(x := None))(y := Some x) | None \<Rightarrow> pv(x := None))
           (Some x) (case f of None \<Rightarrow> Some x | Some y \<Rightarrow> r) (x # L)"
proof -
  have n: "chain (nx(x := f)) f L" using assms by (simp add: dlist_def chain_simps)
  have p: "chain (case f of Some y \<Rightarrow> (pv(x := None))(y := Some x) | None \<Rightarrow> pv(x := None))
      (case f of None \<Rightarrow> Some x | Some y \<Rightarrow> r) (rev L @ [x])"
  proof (cases L)
    case Nil
    then show ?thesis using assms(1) by (simp add: dlist_def)
  next
    case (Cons y L')
    have c: "chain pv r (rev L)" using assms(1) by (simp add: dlist_def)
    have f: "f = Some y" using assms(1) Cons by (simp add: dlist_def)
    have "chain (pv(y := Some x, x := None)) r (rev L @ [x])"
      using chain_snoc [OF c, of x] assms(2) Cons by (simp add: last_rev)
    moreover have "pv(y := Some x, x := None) = (pv(x := None))(y := Some x)"
      using assms(2) Cons by (auto simp: fun_eq_iff)
    ultimately show ?thesis by (simp add: f)
  qed
  show ?thesis using n p by (simp add: dlist_def)
qed

lemma dlist_push_rear:
  assumes "dlist nx pv f r L" "x \<notin> set L"
  shows "dlist (case r of Some y \<Rightarrow> (nx(x := None))(y := Some x) | None \<Rightarrow> nx(x := None)) (pv(x := r))
           (case r of None \<Rightarrow> Some x | Some y \<Rightarrow> f) (Some x) (L @ [x])"
  using dlist_push_front [of pv nx r f "rev L" x] assms by (simp add: dlist_def)

section \<open>The links of a cache\<close>

definition nexts :: "cache \<Rightarrow> nat \<Rightarrow> nat option" where "nexts c i = b_next (bufs c i)"
definition prevs :: "cache \<Rightarrow> nat \<Rightarrow> nat option" where "prevs c i = b_prev (bufs c i)"
definition hashs :: "cache \<Rightarrow> nat \<Rightarrow> nat option" where "hashs c i = b_hash (bufs c i)"

lemma links_set_buf:
  "nexts (set_buf i f c) = (nexts c)(i := b_next (f (bufs c i)))"
  "prevs (set_buf i f c) = (prevs c)(i := b_prev (f (bufs c i)))"
  "hashs (set_buf i f c) = (hashs c)(i := b_hash (f (bufs c i)))"
  by (auto simp: nexts_def prevs_def hashs_def fun_eq_iff)

lemma links_at: "b_next (bufs c i) = nexts c i" "b_prev (bufs c i) = prevs c i" "b_hash (bufs c i) = hashs c i"
  by (simp_all add: nexts_def prevs_def hashs_def)

lemma links_narrow:
  "nexts (set_buf i (b_next_update g) c) = (nexts c)(i := g (nexts c i))"
  "prevs (set_buf i (b_next_update g) c) = prevs c"
  "nexts (set_buf i (b_prev_update g) c) = nexts c"
  "prevs (set_buf i (b_prev_update g) c) = (prevs c)(i := g (prevs c i))"
  "nexts (set_buf i (\<lambda>b. b\<lparr>b_prev := x, b_next := y\<rparr>) c) = (nexts c)(i := y)"
  "prevs (set_buf i (\<lambda>b. b\<lparr>b_prev := x, b_next := y\<rparr>) c) = (prevs c)(i := x)"
  by (auto simp: nexts_def prevs_def fun_eq_iff)

lemma links_fields [simp]:
  "nexts (c\<lparr>front := x\<rparr>) = nexts c" "nexts (c\<lparr>rear := x\<rparr>) = nexts c" "nexts (c\<lparr>bufs_in_use := n\<rparr>) = nexts c"
  "prevs (c\<lparr>front := x\<rparr>) = prevs c" "prevs (c\<lparr>rear := x\<rparr>) = prevs c" "prevs (c\<lparr>bufs_in_use := n\<rparr>) = prevs c"
  "hashs (c\<lparr>front := x\<rparr>) = hashs c" "hashs (c\<lparr>rear := x\<rparr>) = hashs c" "hashs (c\<lparr>bufs_in_use := n\<rparr>) = hashs c"
  "nexts (c\<lparr>buf_hash := g\<rparr>) = nexts c" "prevs (c\<lparr>buf_hash := g\<rparr>) = prevs c" "hashs (c\<lparr>buf_hash := g\<rparr>) = hashs c"
  "nexts (c\<lparr>ios := m\<rparr>) = nexts c" "prevs (c\<lparr>ios := m\<rparr>) = prevs c" "hashs (c\<lparr>ios := m\<rparr>) = hashs c"
  "nexts (c\<lparr>disk := d\<rparr>) = nexts c" "prevs (c\<lparr>disk := d\<rparr>) = prevs c" "hashs (c\<lparr>disk := d\<rparr>) = hashs c"
  "nexts (c\<lparr>rdwt_err := k\<rparr>) = nexts c" "prevs (c\<lparr>rdwt_err := k\<rparr>) = prevs c" "hashs (c\<lparr>rdwt_err := k\<rparr>) = hashs c"
  by (auto simp: nexts_def prevs_def hashs_def fun_eq_iff)

definition lru :: "cache \<Rightarrow> nat list \<Rightarrow> bool" where
  "lru c L \<longleftrightarrow> dlist (nexts c) (prevs c) (front c) (rear c) L"

definition hashed :: "cache \<Rightarrow> nat set \<Rightarrow> bool" where
  "hashed c A \<longleftrightarrow> (\<forall>h. \<exists>H. chain (hashs c) (buf_hash c h) H \<and> set H = {i \<in> A. hash_of (b_blocknr (bufs c i)) = h})"

text \<open>The parts of a buffer that neither list uses.\<close>

definition same_data :: "cache \<Rightarrow> cache \<Rightarrow> bool" where
  "same_data c c' \<longleftrightarrow> (\<forall>i. b_data (bufs c' i) = b_data (bufs c i) \<and> b_dev (bufs c' i) = b_dev (bufs c i)
     \<and> b_blocknr (bufs c' i) = b_blocknr (bufs c i) \<and> b_dirt (bufs c' i) = b_dirt (bufs c i)
     \<and> b_count (bufs c' i) = b_count (bufs c i)) \<and> disk c' = disk c \<and> ios c' = ios c
     \<and> bufs_in_use c' = bufs_in_use c"

lemma same_data_refl [simp]: "same_data c c"
  by (simp add: same_data_def)

lemma same_data_trans: "same_data a b \<Longrightarrow> same_data b c \<Longrightarrow> same_data a c"
  by (simp add: same_data_def)

section \<open>The walks\<close>

lemma hash_find_chain:
  assumes "chain (\<lambda>i. b_hash (t i)) p H"
  shows "hash_find t d k p = Some (List.find (\<lambda>i. b_blocknr (t i) = k \<and> b_dev (t i) = d) H)"
  using assms
proof (induction H arbitrary: p)
  case Nil
  then show ?case by (simp add: hash_find.simps)
next
  case (Cons x H)
  then show ?case by (subst hash_find.simps) simp
qed

lemma lru_find_chain:
  assumes "chain (\<lambda>i. b_next (t i)) (Some x) L"
  shows "\<exists>i \<in> set L. lru_find t x = Some i \<and> (b_count (t i) \<le> 0 \<or> (\<forall>j \<in> set L. b_count (t j) > 0))"
  using assms
proof (induction L arbitrary: x)
  case (Cons y L)
  then have y: "y = x" by simp
  show ?case
  proof (cases "b_count (t x) > 0")
    case True
    show ?thesis
    proof (cases L)
      case Nil
      then show ?thesis using Cons.prems True y by (subst lru_find.simps) auto
    next
      case (Cons z L')
      then have "chain (\<lambda>i. b_next (t i)) (Some z) L" "b_next (t x) = Some z" using Cons.prems y by auto
      then show ?thesis using Cons.IH [of z] True y by (subst lru_find.simps) auto
    qed
  qed (auto simp: y lru_find.simps [of t x])
qed simp

lemma hash_pred_chain:
  assumes "chain (\<lambda>i. b_hash (t i)) (Some a) (a # H)" "x \<noteq> a"
  shows "hash_pred t x a = Some (if x \<in> set H then Some (last (a # takeWhile (\<lambda>i. i \<noteq> x) H)) else None)"
  using assms
proof (induction H arbitrary: a)
  case Nil
  then show ?case by (subst hash_pred.simps) simp
next
  case (Cons b H)
  then have b: "b_hash (t a) = Some b" by simp
  show ?case
  proof (cases "b = x")
    case True
    then show ?thesis using b by (subst hash_pred.simps) simp
  next
    case False
    then show ?thesis using b Cons by (subst hash_pred.simps) auto
  qed
qed

section \<open>What the helpers keep\<close>

definition same_links :: "cache \<Rightarrow> cache \<Rightarrow> bool" where
  "same_links c c' \<longleftrightarrow> nexts c' = nexts c \<and> prevs c' = prevs c \<and> hashs c' = hashs c \<and> front c' = front c
     \<and> rear c' = rear c \<and> buf_hash c' = buf_hash c \<and> (\<forall>i. b_blocknr (bufs c' i) = b_blocknr (bufs c i))
     \<and> (\<forall>i. b_count (bufs c' i) = b_count (bufs c i)) \<and> bufs_in_use c' = bufs_in_use c"

lemma same_links_lists:
  assumes "same_links c c'"
  shows "lru c' L \<longleftrightarrow> lru c L" "hashed c' A \<longleftrightarrow> hashed c A"
  using assms by (simp_all add: same_links_def lru_def hashed_def)

lemma rw_block_links: "rw_block e bp wr c = Some c' \<Longrightarrow> same_links c c'"
  by (auto simp: rw_block_def same_links_def links_set_buf links_at Let_def split: if_splits)

lemma rw_block_others:
  "rw_block e bp wr c = Some c' \<Longrightarrow> i \<noteq> bp \<Longrightarrow> bufs c' i = bufs c i"
  by (auto simp: rw_block_def Let_def split: if_splits)

lemma rw_block_write:
  assumes "rw_block e bp True c = Some c'" "b_dev (bufs c bp) \<noteq> NO_DEV" "0 \<le> v_io e (ios c)"
  shows "bufs c' bp = (bufs c bp)\<lparr>b_dirt := False\<rparr>"
    "disk c' = (disk c)(b_dev (bufs c bp) := (disk c (b_dev (bufs c bp)))(b_blocknr (bufs c bp) := b_data (bufs c bp)))"
  using assms by (auto simp: rw_block_def Let_def not_less split: if_splits)

lemma rw_block_read:
  assumes "rw_block e bp False c = Some c'" "b_dev (bufs c bp) \<noteq> NO_DEV" "0 \<le> v_io e (ios c)"
  shows "bufs c' bp = (bufs c bp)\<lparr>b_data := disk c (b_dev (bufs c bp)) (b_blocknr (bufs c bp)), b_dirt := False\<rparr>"
    "disk c' = disk c"
  using assms by (auto simp: rw_block_def Let_def not_less split: if_splits)

lemma hashed_chain:
  assumes "hashed c A"
  obtains H where "chain (hashs c) (buf_hash c h) H" "set H = {i \<in> A. hash_of (b_blocknr (bufs c i)) = h}"
  using assms unfolding hashed_def by blast

text \<open>Only the hash fields move, and in one bucket.\<close>

definition rehashed :: "cache \<Rightarrow> cache \<Rightarrow> bool" where
  "rehashed c c' \<longleftrightarrow> same_data c c' \<and> nexts c' = nexts c \<and> prevs c' = prevs c \<and> front c' = front c \<and> rear c' = rear c"

lemma hash_remove_ok:
  assumes "hashed c A" "bp \<in> A"
  shows "\<exists>c'. hash_remove bp c = Some c' \<and> hashed c' (A - {bp}) \<and> rehashed c c'"
proof -
  define h where "h = hash_of (b_blocknr (bufs c bp))"
  obtain H where H: "chain (hashs c) (buf_hash c h) H" "set H = {i \<in> A. hash_of (b_blocknr (bufs c i)) = h}"
    using hashed_chain [OF assms(1)] by blast
  have "bp \<in> set H" using H(2) assms(2) by (simp add: h_def)
  then obtain us vs where uv: "H = us @ bp # vs" by (meson split_list)
  have d: "distinct H" by (rule chain_distinct [OF H(1)])
  have ps: "set (us @ vs) = {i \<in> A - {bp}. hash_of (b_blocknr (bufs c i)) = h}" using H(2) d uv by auto
  show ?thesis
  proof (cases us rule: rev_cases)
    case Nil
    then have hd: "buf_hash c h = Some bp" using H(1) uv by simp
    define c' where "c' = c\<lparr>buf_hash := (buf_hash c)(h := hashs c bp)\<rparr>"
    have r: "hash_remove bp c = Some c'" using hd by (simp add: hash_remove_def Let_def h_def c'_def links_at)
    have "hashed c' (A - {bp})" unfolding hashed_def
    proof
      fix h'
      show "\<exists>H. chain (hashs c') (buf_hash c' h') H \<and> set H = {i \<in> A - {bp}. hash_of (b_blocknr (bufs c' i)) = h'}"
      proof (cases "h' = h")
        case True
        have "chain (hashs c') (buf_hash c' h') vs" using H(1) uv Nil True by (simp add: c'_def)
        then show ?thesis using ps Nil True by (auto simp: c'_def)
      next
        case False
        obtain H' where H': "chain (hashs c) (buf_hash c h') H'" "set H' = {i \<in> A. hash_of (b_blocknr (bufs c i)) = h'}"
          using hashed_chain [OF assms(1)] by blast
        then have "chain (hashs c') (buf_hash c' h') H'" using False by (simp add: c'_def)
        moreover have "set H' = {i \<in> A - {bp}. hash_of (b_blocknr (bufs c' i)) = h'}"
          using H'(2) False by (auto simp: c'_def h_def)
        ultimately show ?thesis by blast
      qed
    qed
    moreover have "rehashed c c'" by (simp add: rehashed_def same_data_def c'_def)
    ultimately show ?thesis using r by blast
  next
    case (snoc us' p)
    have Hd: "H = us' @ [p, bp] @ vs" using uv snoc by simp
    obtain a T where aT: "H = a # T" "buf_hash c h = Some a" using H(1) Hd by (cases us') auto
    have na: "bp \<noteq> a" and bT: "bp \<in> set T" using aT(1) Hd d by (cases us'; auto)+
    have tw: "takeWhile (\<lambda>i. i \<noteq> bp) T @ [bp] @ vs = T"
      using aT(1) Hd d by (cases us') (auto simp: takeWhile_append takeWhile_eq_all_conv)
    have lastp: "last (a # takeWhile (\<lambda>i. i \<noteq> bp) T) = p"
    proof -
      have "(a # takeWhile (\<lambda>i. i \<noteq> bp) T) @ [bp] @ vs = (us' @ [p]) @ [bp] @ vs" using tw aT(1) Hd by simp
      then have "a # takeWhile (\<lambda>i. i \<noteq> bp) T = us' @ [p]" by simp
      then show ?thesis by (metis last_snoc)
    qed
    have ch: "chain (\<lambda>i. b_hash (bufs c i)) (Some a) (a # T)" using H(1) aT by (simp add: hashs_def [abs_def])
    define c' where "c' = set_buf p (\<lambda>b. b\<lparr>b_hash := hashs c bp\<rparr>) c"
    have r: "hash_remove bp c = Some c'"
      using hash_pred_chain [OF ch na] aT(2) na bT lastp
      by (simp add: hash_remove_def Let_def h_def [symmetric] c'_def links_at)
    have hs: "hashs c' = (hashs c)(p := hashs c bp)" by (simp add: c'_def links_set_buf)
    have bh: "buf_hash c' = buf_hash c" by (simp add: c'_def)
    have pH: "hash_of (b_blocknr (bufs c p)) = h" using H(2) Hd by auto
    have "hashed c' (A - {bp})" unfolding hashed_def
    proof
      fix h'
      have bn: "b_blocknr (bufs c' i) = b_blocknr (bufs c i)" for i by (simp add: c'_def)
      show "\<exists>H. chain (hashs c') (buf_hash c' h') H \<and> set H = {i \<in> A - {bp}. hash_of (b_blocknr (bufs c' i)) = h'}"
      proof (cases "h' = h")
        case True
        have "chain (hashs c') (buf_hash c' h') (us' @ [p] @ vs)"
          using chain_unlink [of "hashs c" "buf_hash c h" us' p bp vs] H(1) Hd True by (simp add: hs bh)
        moreover have "set (us' @ [p] @ vs) = {i \<in> A - {bp}. hash_of (b_blocknr (bufs c' i)) = h'}"
          using ps snoc True by (simp add: bn)
        ultimately show ?thesis by blast
      next
        case False
        obtain H' where H': "chain (hashs c) (buf_hash c h') H'" "set H' = {i \<in> A. hash_of (b_blocknr (bufs c i)) = h'}"
          using hashed_chain [OF assms(1)] by blast
        have "p \<notin> set H'" using H'(2) pH False by auto
        then have "chain (hashs c') (buf_hash c' h') H'" using H'(1) by (simp add: hs bh chain_simps)
        moreover have "set H' = {i \<in> A - {bp}. hash_of (b_blocknr (bufs c' i)) = h'}"
          using H'(2) False bn by (auto simp: h_def)
        ultimately show ?thesis by blast
      qed
    qed
    moreover have "rehashed c c'" by (auto simp: rehashed_def same_data_def c'_def links_set_buf links_at)
    ultimately show ?thesis using r by blast
  qed
qed

lemma hash_insert_ok:
  assumes "hashed c A" "bp \<notin> A"
  shows "hashed (hash_insert bp d k c) (insert bp A)"
  unfolding hashed_def
proof
  fix h
  let ?c = "hash_insert bp d k c"
  have hs: "hashs ?c = (hashs c)(bp := buf_hash c (hash_of k))" "buf_hash ?c = (buf_hash c)(hash_of k := Some bp)"
    by (simp_all add: hash_insert_def Let_def links_set_buf)
  have bn: "b_blocknr (bufs ?c i) = (if i = bp then k else b_blocknr (bufs c i))" for i
    by (simp add: hash_insert_def Let_def)
  obtain H where H: "chain (hashs c) (buf_hash c h) H" "set H = {i \<in> A. hash_of (b_blocknr (bufs c i)) = h}"
    using hashed_chain [OF assms(1)] by blast
  have n: "bp \<notin> set H" using H(2) assms(2) by simp
  show "\<exists>H. chain (hashs ?c) (buf_hash ?c h) H \<and> set H = {i \<in> insert bp A. hash_of (b_blocknr (bufs ?c i)) = h}"
  proof (cases "h = hash_of k")
    case True
    have "chain (hashs ?c) (buf_hash ?c h) (bp # H)" using H(1) n True by (simp add: hs chain_simps)
    moreover have "set (bp # H) = {i \<in> insert bp A. hash_of (b_blocknr (bufs ?c i)) = h}"
      using H(2) True assms(2) by (auto simp: bn)
    ultimately show ?thesis by blast
  next
    case False
    have "chain (hashs ?c) (buf_hash ?c h) H" using H(1) n False by (simp add: hs chain_simps)
    moreover have "set H = {i \<in> insert bp A. hash_of (b_blocknr (bufs ?c i)) = h}"
      using H(2) False assms(2) by (auto simp: bn)
    ultimately show ?thesis by blast
  qed
qed

section \<open>The LRU chain\<close>

lemma lru_remove_ok:
  assumes "lru c (us @ bp # vs)"
  shows "lru (lru_remove bp c) (us @ vs)"
  using dlist_remove [OF assms [unfolded lru_def]]
  by (cases "prevs c bp"; cases "nexts c bp")
    (simp_all add: lru_def lru_remove_def Let_def links_narrow links_at)

lemma lru_front_ok:
  assumes "lru c L" "bp \<notin> set L"
  shows "lru (lru_front bp c) (bp # L)"
  using dlist_push_front [OF assms(1) [unfolded lru_def] assms(2)]
  by (cases "front c") (simp_all add: lru_def lru_front_def Let_def links_narrow links_at)

lemma lru_rear_ok:
  assumes "lru c L" "bp \<notin> set L"
  shows "lru (lru_rear bp c) (L @ [bp])"
  using dlist_push_rear [OF assms(1) [unfolded lru_def] assms(2)]
  by (cases "rear c") (simp_all add: lru_def lru_rear_def Let_def links_narrow links_at)

lemma lru_moves_data:
  "same_data c (lru_remove bp c)" "same_data c (lru_front bp c)" "same_data c (lru_rear bp c)"
  by (auto simp: same_data_def lru_remove_def lru_front_def lru_rear_def Let_def split: option.splits)

lemma lru_moves_hash:
  "hashs (lru_remove bp c) = hashs c" "buf_hash (lru_remove bp c) = buf_hash c"
  "hashs (lru_front bp c) = hashs c" "buf_hash (lru_front bp c) = buf_hash c"
  "hashs (lru_rear bp c) = hashs c" "buf_hash (lru_rear bp c) = buf_hash c"
  by (auto simp: lru_remove_def lru_front_def lru_rear_def Let_def hashs_def fun_eq_iff split: option.splits)

lemma hashed_cong:
  assumes "hashs c' = hashs c" "buf_hash c' = buf_hash c" "\<And>i. b_blocknr (bufs c' i) = b_blocknr (bufs c i)"
  shows "hashed c' A \<longleftrightarrow> hashed c A"
  using assms by (simp add: hashed_def)

lemma lru_cong:
  assumes "nexts c' = nexts c" "prevs c' = prevs c" "front c' = front c" "rear c' = rear c"
  shows "lru c' L \<longleftrightarrow> lru c L"
  using assms by (simp add: lru_def)

section \<open>The invariant\<close>

text \<open>
  \<open>linked\<close>: the LRU chain holds exactly the buffers in use by the pool and every one of them is on
  the hash chain of its block number.  \<open>coherent\<close>: no block is cached twice, devices are in the
  device table, and a clean buffer that nobody holds agrees with the disk.
\<close>

definition linked :: "cache \<Rightarrow> bool" where
  "linked c \<longleftrightarrow> (\<exists>L. lru c L \<and> set L \<subseteq> {..<NR_BUFS} \<and> hashed c (set L)
     \<and> (\<forall>i<NR_BUFS. i \<notin> set L \<longrightarrow> b_dev (bufs c i) = NO_DEV \<and> b_count (bufs c i) = 0))"

definition synced :: "cache \<Rightarrow> nat \<Rightarrow> bool" where
  "synced c i \<longleftrightarrow> b_dirt (bufs c i) \<or> b_data (bufs c i) = disk c (b_dev (bufs c i)) (b_blocknr (bufs c i))"

definition keyed :: "cache \<Rightarrow> u16 \<Rightarrow> u16 \<Rightarrow> nat \<Rightarrow> bool" where
  "keyed c d k i \<longleftrightarrow> b_dev (bufs c i) = d \<and> b_blocknr (bufs c i) = k"

definition coherent :: "cache \<Rightarrow> bool" where
  "coherent c \<longleftrightarrow> (\<forall>i<NR_BUFS. b_count (bufs c i) \<ge> 0
     \<and> (b_dev (bufs c i) \<noteq> NO_DEV \<longrightarrow> known_dev (b_dev (bufs c i))
         \<and> (b_count (bufs c i) = 0 \<longrightarrow> synced c i)
         \<and> (\<forall>j<NR_BUFS. keyed c (b_dev (bufs c i)) (b_blocknr (bufs c i)) j \<longrightarrow> j = i)))"

definition cinv :: "cache \<Rightarrow> bool" where
  "cinv c \<longleftrightarrow> linked c \<and> coherent c"

text \<open>What a block holds: the buffer that has it, else the disk.\<close>

definition contents :: "cache \<Rightarrow> u16 \<Rightarrow> u16 \<Rightarrow> block" where
  "contents c d k = (case List.find (keyed c d k) [0..<NR_BUFS] of Some i \<Rightarrow> b_data (bufs c i) | None \<Rightarrow> disk c d k)"

lemma known_dev_valid [simp]: "known_dev d \<Longrightarrow> d \<noteq> NO_DEV"
  by (auto simp: known_dev_def dev_major_def)

lemma contents_cached:
  assumes "coherent c" "i < NR_BUFS" "keyed c d k i" "d \<noteq> NO_DEV"
  shows "contents c d k = b_data (bufs c i)"
proof (cases "List.find (keyed c d k) [0..<NR_BUFS]")
  case None
  then show ?thesis using assms by (auto simp: find_None_iff)
next
  case (Some j)
  then have "j < NR_BUFS" "keyed c d k j" by (auto simp: find_Some_iff)
  then have "j = i" using assms unfolding coherent_def keyed_def by metis
  then show ?thesis using Some by (simp add: contents_def)
qed

lemma contents_uncached:
  assumes "\<forall>i<NR_BUFS. \<not> keyed c d k i"
  shows "contents c d k = disk c d k"
proof -
  have "List.find (keyed c d k) [0..<NR_BUFS] = None" using assms by (auto simp: find_None_iff)
  then show ?thesis by (simp add: contents_def)
qed

lemma contents_cong:
  assumes "keyed c' = keyed c" "\<And>i. b_data (bufs c' i) = b_data (bufs c i)" "disk c' = disk c"
  shows "contents c' = contents c"
proof (intro ext)
  fix d m x
  show "contents c' d m x = contents c d m x"
    unfolding contents_def assms(1) using assms(2,3) by (cases "List.find (keyed c d m) [0..<NR_BUFS]") simp_all
qed

lemma same_data_simps:
  assumes "same_data c c'"
  shows "coherent c' \<longleftrightarrow> coherent c" "contents c' = contents c" "keyed c' = keyed c"
proof -
  show k: "keyed c' = keyed c" using assms by (auto simp: same_data_def keyed_def fun_eq_iff)
  show "coherent c' \<longleftrightarrow> coherent c" using assms k by (simp add: same_data_def coherent_def synced_def)
  show "contents c' = contents c" by (rule contents_cong) (use assms k in \<open>simp_all add: same_data_def\<close>)
qed

definition same_at :: "cache \<Rightarrow> cache \<Rightarrow> nat \<Rightarrow> bool" where
  "same_at c c' i \<longleftrightarrow> b_data (bufs c' i) = b_data (bufs c i) \<and> b_dev (bufs c' i) = b_dev (bufs c i)
     \<and> b_blocknr (bufs c' i) = b_blocknr (bufs c i) \<and> b_dirt (bufs c' i) = b_dirt (bufs c i)
     \<and> b_count (bufs c' i) = b_count (bufs c i)"

text \<open>
  A buffer that nobody holds may change its block: what it held goes back to the disk first.
\<close>

definition reuse :: "cache \<Rightarrow> cache \<Rightarrow> nat \<Rightarrow> u16 \<Rightarrow> u16 \<Rightarrow> bool \<Rightarrow> bool" where
  "reuse c c' bp d k full \<longleftrightarrow>
     coherent c \<and> bp < NR_BUFS \<and> b_count (bufs c bp) = 0 \<and> known_dev d \<and> (\<forall>j < NR_BUFS. \<not> keyed c d k j)
     \<and> (\<forall>i. i \<noteq> bp \<longrightarrow> same_at c c' i)
     \<and> disk c' = (if b_dirt (bufs c bp) \<and> b_dev (bufs c bp) \<noteq> NO_DEV
                 then (disk c)(b_dev (bufs c bp) := (disk c (b_dev (bufs c bp)))(b_blocknr (bufs c bp) := b_data (bufs c bp)))
                 else disk c)
     \<and> b_dev (bufs c' bp) = d \<and> b_blocknr (bufs c' bp) = k \<and> b_count (bufs c' bp) = 1
     \<and> (full \<longrightarrow> b_data (bufs c' bp) = disk c' d k)"

lemma reuse_old:
  assumes "reuse c c' bp d k full"
  shows "coherent c" "bp < NR_BUFS" "b_count (bufs c bp) = 0" "known_dev d" "j < NR_BUFS \<Longrightarrow> \<not> keyed c d k j"
    "i \<noteq> bp \<Longrightarrow> same_at c c' i"
  using assms by (simp_all add: reuse_def)

lemma reuse_new:
  assumes "reuse c c' bp d k full"
  shows "b_dev (bufs c' bp) = d" "b_blocknr (bufs c' bp) = k" "b_count (bufs c' bp) = 1"
    "full \<Longrightarrow> b_data (bufs c' bp) = disk c' d k"
  using assms by (simp_all add: reuse_def)

lemma reuse_wback:
  assumes "reuse c c' bp d k full"
  shows "disk c' = (if b_dirt (bufs c bp) \<and> b_dev (bufs c bp) \<noteq> NO_DEV
                 then (disk c)(b_dev (bufs c bp) := (disk c (b_dev (bufs c bp)))(b_blocknr (bufs c bp) := b_data (bufs c bp)))
                 else disk c)"
  using assms by (simp add: reuse_def)

lemma reuse_keyed:
  assumes "reuse c c' bp d k full"
  shows "i \<noteq> bp \<Longrightarrow> keyed c' d2 k2 i \<longleftrightarrow> keyed c d2 k2 i" "keyed c' d2 k2 bp \<longleftrightarrow> d2 = d \<and> k2 = k"
  using reuse_old(6) [OF assms, of i] reuse_new [OF assms] by (auto simp: keyed_def same_at_def)

lemma coherent_uniq:
  assumes "coherent c"
  shows "i < NR_BUFS \<Longrightarrow> j < NR_BUFS \<Longrightarrow> keyed c d2 k2 i \<Longrightarrow> keyed c d2 k2 j \<Longrightarrow> d2 \<noteq> NO_DEV \<Longrightarrow> j = i"
  using assms unfolding coherent_def keyed_def by metis

lemma reuse_disk_other: "reuse c c' bp d k full \<Longrightarrow> \<not> keyed c d2 k2 bp \<Longrightarrow> disk c' d2 k2 = disk c d2 k2"
  by (auto simp: reuse_wback keyed_def)

lemma reuse_disk_old:
  assumes r: "reuse c c' bp d k full" and "keyed c d2 k2 bp" "d2 \<noteq> NO_DEV"
  shows "disk c' d2 k2 = b_data (bufs c bp)"
proof -
  have "synced c bp" using reuse_old(1-3) [OF r] assms(2,3) unfolding coherent_def keyed_def by metis
  then show ?thesis using assms(2,3) by (auto simp: reuse_wback [OF r] keyed_def synced_def)
qed

lemma reuse_coherent:
  assumes r: "reuse c c' bp d k full"
  shows "coherent c'"
  unfolding coherent_def
proof (intro allI impI)
  note coh = reuse_old(1) [OF r] note bp = reuse_old(2) [OF r] note dev = reuse_old(4) [OF r] note miss = reuse_old(5) [OF r]
  note others = reuse_old(6) [OF r] note keyed_others = reuse_keyed(1) [OF r] note keyed_bp = reuse_keyed(2) [OF r]
  note uniq = coherent_uniq [OF coh] note disk_other = reuse_disk_other [OF r]
  note key = reuse_new(1-3) [OF r]
  fix i assume i: "i < NR_BUFS"
  show "b_count (bufs c' i) \<ge> 0 \<and> (b_dev (bufs c' i) \<noteq> NO_DEV \<longrightarrow> known_dev (b_dev (bufs c' i))
         \<and> (b_count (bufs c' i) = 0 \<longrightarrow> synced c' i)
         \<and> (\<forall>j<NR_BUFS. keyed c' (b_dev (bufs c' i)) (b_blocknr (bufs c' i)) j \<longrightarrow> j = i))"
  proof (cases "i = bp")
    case True
    have "j = bp" if "j < NR_BUFS" "keyed c' d k j" for j using that miss keyed_others by blast
    then show ?thesis using True key dev by simp
  next
    case False
    note o = others [OF False, unfolded same_at_def]
    have old: "b_count (bufs c i) \<ge> 0 \<and> (b_dev (bufs c i) \<noteq> NO_DEV \<longrightarrow> known_dev (b_dev (bufs c i))
         \<and> (b_count (bufs c i) = 0 \<longrightarrow> synced c i))" using coh i by (simp add: coherent_def)
    {
      assume nd: "b_dev (bufs c i) \<noteq> NO_DEV"
      have ki: "keyed c (b_dev (bufs c i)) (b_blocknr (bufs c i)) i" by (simp add: keyed_def)
      have "\<not> keyed c (b_dev (bufs c i)) (b_blocknr (bufs c i)) bp"
        using uniq [OF i bp ki _ nd] False by auto
      then have "disk c' (b_dev (bufs c i)) (b_blocknr (bufs c i)) = disk c (b_dev (bufs c i)) (b_blocknr (bufs c i))"
        by (rule disk_other)
      then have "synced c i \<longrightarrow> synced c' i" using o by (simp add: synced_def)
      moreover have "j = i" if "j < NR_BUFS" "keyed c' (b_dev (bufs c i)) (b_blocknr (bufs c i)) j" for j
      proof (cases "j = bp")
        case True
        then have "keyed c d k i" using that keyed_bp ki by metis
        then show ?thesis using miss i by blast
      next
        case False
        then show ?thesis using that uniq [OF i _ ki _ nd] keyed_others by blast
      qed
      ultimately have "(synced c i \<longrightarrow> synced c' i) \<and> (\<forall>j<NR_BUFS. keyed c' (b_dev (bufs c i)) (b_blocknr (bufs c i)) j \<longrightarrow> j = i)"
        by blast
    }
    then show ?thesis using old o by auto
  qed
qed

lemma reuse_contents:
  assumes r: "reuse c c' bp d k full" and "known_dev d2" "(d2, k2) \<noteq> (d, k) \<or> full"
  shows "contents c' d2 k2 = contents c d2 k2"
proof -
  note coh = reuse_old(1) [OF r] note bp = reuse_old(2) [OF r] note dev = reuse_old(4) [OF r] note miss = reuse_old(5) [OF r]
  note others = reuse_old(6) [OF r] note keyed_others = reuse_keyed(1) [OF r] note keyed_bp = reuse_keyed(2) [OF r]
  note uniq = coherent_uniq [OF coh] note disk_other = reuse_disk_other [OF r]
  note filled = reuse_new(4) [OF r] note coherent' = reuse_coherent [OF r] note disk_old = reuse_disk_old [OF r]
  have nd: "d2 \<noteq> NO_DEV" using assms(2) by simp
  show ?thesis
  proof (cases "(d2, k2) = (d, k)")
    case True
    have "contents c d k = disk c d k" by (rule contents_uncached) (use miss in blast)
    moreover have "contents c' d k = b_data (bufs c' bp)"
      by (rule contents_cached [OF coherent' bp]) (use dev in \<open>simp_all add: keyed_bp\<close>)
    ultimately show ?thesis using True assms(3) filled disk_other [of d k] miss [OF bp] by simp
  next
    case ne: False
    show ?thesis
    proof (cases "\<exists>j<NR_BUFS. keyed c d2 k2 j")
      case True
      then obtain j where j: "j < NR_BUFS" "keyed c d2 k2 j" by blast
      have c: "contents c d2 k2 = b_data (bufs c j)" by (rule contents_cached [OF coh j nd])
      show ?thesis
      proof (cases "j = bp")
        case True
        have kb: "\<not> keyed c' d2 k2 bp" using keyed_bp ne by simp
        have "\<not> keyed c' d2 k2 i" if i: "i < NR_BUFS" for i
        proof
          assume k: "keyed c' d2 k2 i"
          then have "i \<noteq> bp" using kb by metis
          then show False using uniq [OF j(1) i j(2) _ nd] True keyed_others k by metis
        qed
        then have "contents c' d2 k2 = disk c' d2 k2" by (intro contents_uncached) blast
        then show ?thesis using c True disk_old [of d2 k2] j(2) nd by simp
      next
        case False
        have "contents c' d2 k2 = b_data (bufs c' j)"
          by (rule contents_cached [OF coherent' j(1) _ nd]) (use False j keyed_others in blast)
        then show ?thesis using c others [OF False] by (simp add: same_at_def)
      qed
    next
      case False
      then have none: "\<not> keyed c d2 k2 i" if "i < NR_BUFS" for i using that by blast
      have kb: "\<not> keyed c' d2 k2 bp" using keyed_bp ne by simp
      have "\<not> keyed c' d2 k2 i" if "i < NR_BUFS" for i
      proof (cases "i = bp")
        case True
        then show ?thesis using kb by blast
      next
        case False
        then show ?thesis using keyed_others [OF False] none [OF that] by blast
      qed
      then have "contents c' d2 k2 = disk c' d2 k2" by (intro contents_uncached) blast
      moreover have "contents c d2 k2 = disk c d2 k2" by (rule contents_uncached) (use none in blast)
      ultimately show ?thesis by (simp only: disk_other [OF none [OF bp]])
    qed
  qed
qed

section \<open>Acquiring a block\<close>

lemma rw_block_some: "known_dev (b_dev (bufs c bp)) \<Longrightarrow> \<exists>c'. rw_block e bp wr c = Some c'"
  by (simp add: rw_block_def Let_def)

lemma same_links_pool:
  assumes "same_links c c'"
  shows "nexts c' = nexts c" "prevs c' = prevs c" "front c' = front c" "rear c' = rear c"
  using assms by (simp_all add: same_links_def)

lemma hash_insert_lists:
  "nexts (hash_insert bp d k c) = nexts c" "prevs (hash_insert bp d k c) = prevs c"
  "front (hash_insert bp d k c) = front c" "rear (hash_insert bp d k c) = rear c"
  "disk (hash_insert bp d k c) = disk c"
  "i \<noteq> bp \<Longrightarrow> bufs (hash_insert bp d k c) i = bufs c i" "bufs_in_use (hash_insert bp d k c) = bufs_in_use c"
  by (auto simp: hash_insert_def Let_def nexts_def prevs_def fun_eq_iff)

lemma hash_insert_at:
  "b_dev (bufs (hash_insert bp d k c) bp) = d" "b_blocknr (bufs (hash_insert bp d k c) bp) = k"
  "b_count (bufs (hash_insert bp d k c) bp) = b_count (bufs c bp) + 1"
  "b_data (bufs (hash_insert bp d k c) bp) = b_data (bufs c bp)"
  by (simp_all add: hash_insert_def Let_def)

text \<open>The write-back of the old block, if it is needed, and the transfer of the new one.\<close>

lemma write_back:
  assumes "b_dev (bufs c bp) \<noteq> NO_DEV \<Longrightarrow> known_dev (b_dev (bufs c bp))" "\<forall>n. 0 \<le> v_io e n"
  shows "\<exists>c'. (if b_dirt (bufs c bp) \<and> b_dev (bufs c bp) \<noteq> NO_DEV then rw_block e bp True c else Some c) = Some c'
    \<and> same_links c c' \<and> (\<forall>i. i \<noteq> bp \<longrightarrow> bufs c' i = bufs c i)
    \<and> disk c' = (if b_dirt (bufs c bp) \<and> b_dev (bufs c bp) \<noteq> NO_DEV
                 then (disk c)(b_dev (bufs c bp) := (disk c (b_dev (bufs c bp)))(b_blocknr (bufs c bp) := b_data (bufs c bp)))
                 else disk c)
    \<and> b_dev (bufs c' bp) = b_dev (bufs c bp) \<and> b_data (bufs c' bp) = b_data (bufs c bp)
    \<and> b_dirt (bufs c' bp) = (b_dirt (bufs c bp) \<and> b_dev (bufs c bp) = NO_DEV)"
proof (cases "b_dirt (bufs c bp) \<and> b_dev (bufs c bp) \<noteq> NO_DEV")
  case True
  then obtain c' where c': "rw_block e bp True c = Some c'" using rw_block_some assms(1) by blast
  note w = rw_block_write [OF c' conjunct2 [OF True] assms(2) [rule_format]]
  show ?thesis using True c' rw_block_links [OF c'] rw_block_others [OF c'] w by auto
next
  case False
  then show ?thesis by (auto simp: same_links_def)
qed

lemma fill_buffer:
  assumes "known_dev (b_dev (bufs c bp))" "\<forall>n. 0 \<le> v_io e n"
  shows "\<exists>c'. (if b_dev (bufs c bp) \<noteq> NO_DEV \<and> \<not> nr then rw_block e bp False c else Some c) = Some c'
    \<and> same_links c c' \<and> (\<forall>i. i \<noteq> bp \<longrightarrow> bufs c' i = bufs c i) \<and> disk c' = disk c
    \<and> b_dev (bufs c' bp) = b_dev (bufs c bp)
    \<and> (\<not> nr \<longrightarrow> b_data (bufs c' bp) = disk c (b_dev (bufs c bp)) (b_blocknr (bufs c bp)))"
proof (cases nr)
  case False
  obtain c' where c': "rw_block e bp False c = Some c'" using rw_block_some assms(1) by blast
  have nd: "b_dev (bufs c bp) \<noteq> NO_DEV" using assms(1) by simp
  note w = rw_block_read [OF c' nd assms(2) [rule_format]]
  show ?thesis using False nd c' rw_block_links [OF c'] rw_block_others [OF c'] w by auto
next
  case True
  then show ?thesis by (auto simp: same_links_def)
qed

definition pool :: "cache \<Rightarrow> nat set" where
  "pool c = {i. \<exists>L. lru c L \<and> i \<in> set L}"

definition free_buf :: "cache \<Rightarrow> bool" where
  "free_buf c \<longleftrightarrow> bufs_in_use c \<noteq> int NR_BUFS \<and> (\<exists>i \<in> pool c. b_count (bufs c i) = 0)"

lemma lru_unique: "lru c L \<Longrightarrow> lru c M \<Longrightarrow> L = M"
  by (auto simp: lru_def dlist_def dest: chain_unique)

lemma pool_lru: "lru c L \<Longrightarrow> pool c = set L"
  using lru_unique by (auto simp: pool_def)

lemma pool_in_use [simp]: "pool (c\<lparr>bufs_in_use := n\<rparr>) = pool c"
  by (simp add: pool_def lru_def)

text \<open>One user more, or fewer, of the buffer \<open>bp\<close>.\<close>

definition counted :: "int \<Rightarrow> nat \<Rightarrow> cache \<Rightarrow> cache \<Rightarrow> bool" where
  "counted n bp c c' \<longleftrightarrow> pool c' = pool c \<and> (\<forall>j. j \<noteq> bp \<longrightarrow> same_at c c' j)
     \<and> b_count (bufs c' bp) = b_count (bufs c bp) + n
     \<and> bufs_in_use c' = bufs_in_use c + (if b_count (bufs c' bp) = 0 \<or> b_count (bufs c bp) = 0 then n else 0)
     \<and> (b_count (bufs c bp) > 0 \<and> b_count (bufs c' bp) > 0 \<longrightarrow> b_data (bufs c' bp) = b_data (bufs c bp)
          \<and> b_dev (bufs c' bp) = b_dev (bufs c bp) \<and> b_blocknr (bufs c' bp) = b_blocknr (bufs c bp)
          \<and> b_dirt (bufs c' bp) = b_dirt (bufs c bp))"

lemma take_buffer_ok:
  assumes "cinv c" "known_dev d" "\<And>j. j < NR_BUFS \<Longrightarrow> \<not> keyed c d k j" "\<forall>n. 0 \<le> v_io e n" "free_buf c"
  shows "\<exists>bp c'. take_buffer e d k nr c = Some (bp, c') \<and> linked c' \<and> reuse c c' bp d k (\<not> nr) \<and> counted 1 bp c c'"
proof -
  obtain L where L: "lru c L" "set L \<subseteq> {..<NR_BUFS}" "hashed c (set L)"
    "\<And>i. i < NR_BUFS \<Longrightarrow> i \<notin> set L \<Longrightarrow> b_dev (bufs c i) = NO_DEV \<and> b_count (bufs c i) = 0"
    using assms(1) by (auto simp: cinv_def linked_def)
  have coh: "coherent c" using assms(1) by (simp add: cinv_def)
  have fr: "bufs_in_use c \<noteq> int NR_BUFS" "\<exists>i \<in> set L. b_count (bufs c i) = 0"
    using assms(5) pool_lru [OF L(1)] by (auto simp: free_buf_def)
  obtain x where x: "front c = Some x" using L(1) fr(2) by (cases L) (auto simp: lru_def dlist_def)
  have "chain (\<lambda>i. b_next (bufs c i)) (Some x) L" using L(1) x by (simp add: lru_def dlist_def nexts_def [abs_def])
  from lru_find_chain [OF this] obtain bp where bp: "bp \<in> set L" "lru_find (bufs c) x = Some bp" "b_count (bufs c bp) \<le> 0"
    using fr(2) by force
  have b: "bp < NR_BUFS" using bp(1) L(2) by auto
  have cnt: "b_count (bufs c bp) = 0" using coh b bp(3) unfolding coherent_def by force
  have kd: "b_dev (bufs c bp) \<noteq> NO_DEV \<Longrightarrow> known_dev (b_dev (bufs c bp))" using coh b by (simp add: coherent_def)
  define c0 where "c0 = c\<lparr>bufs_in_use := bufs_in_use c + 1\<rparr>"
  have c0: "bufs c0 = bufs c" "disk c0 = disk c" "nexts c0 = nexts c" "prevs c0 = prevs c" "front c0 = front c" "rear c0 = rear c"
    "hashed c0 (set L)" using L(3) by (simp_all add: c0_def hashed_def)
  obtain c1 where c1: "hash_remove bp c0 = Some c1" "hashed c1 (set L - {bp})" "rehashed c0 c1"
    using hash_remove_ok [OF c0(7) bp(1)] by blast
  have sd: "same_data c0 c1" using c1(3) by (simp add: rehashed_def)
  have at1: "same_at c c1 i" for i using sd by (simp add: same_at_def same_data_def c0)
  note a1 = at1 [of bp, unfolded same_at_def]
  have kd1: "b_dev (bufs c1 bp) \<noteq> NO_DEV \<Longrightarrow> known_dev (b_dev (bufs c1 bp))" using kd a1 by simp
  obtain c2 where c2: "(if b_dirt (bufs c1 bp) \<and> b_dev (bufs c1 bp) \<noteq> NO_DEV then rw_block e bp True c1 else Some c1) = Some c2"
    "same_links c1 c2" "\<And>i. i \<noteq> bp \<Longrightarrow> bufs c2 i = bufs c1 i"
    "disk c2 = (if b_dirt (bufs c1 bp) \<and> b_dev (bufs c1 bp) \<noteq> NO_DEV
       then (disk c1)(b_dev (bufs c1 bp) := (disk c1 (b_dev (bufs c1 bp)))(b_blocknr (bufs c1 bp) := b_data (bufs c1 bp)))
       else disk c1)"
    using write_back [OF kd1 assms(4)] by blast
  define c3 where "c3 = hash_insert bp d k c2"
  have dev3: "b_dev (bufs c3 bp) = d" "b_blocknr (bufs c3 bp) = k" by (simp_all add: c3_def hash_insert_at)
  have kd3: "known_dev (b_dev (bufs c3 bp))" using assms(2) dev3 by simp
  obtain c4 where c4: "(if d \<noteq> NO_DEV \<and> \<not> nr then rw_block e bp False c3 else Some c3) = Some c4"
    "same_links c3 c4" "\<And>i. i \<noteq> bp \<Longrightarrow> bufs c4 i = bufs c3 i" "disk c4 = disk c3" "b_dev (bufs c4 bp) = d"
    "\<not> nr \<Longrightarrow> b_data (bufs c4 bp) = disk c3 d k"
    using fill_buffer [OF kd3 assms(4), of nr] unfolding dev3 by blast
  have res: "take_buffer e d k nr c = Some (bp, c4)"
    using fr(1) x bp(2) cnt c1(1) c2(1) c4(1)
    by (cases "d \<noteq> NO_DEV \<and> \<not> nr") (auto simp add: take_buffer_def Let_def c0_def [symmetric] c3_def [symmetric])
  have cnt2: "b_count (bufs c2 bp) = 0" using c2(2) a1 cnt by (simp add: same_links_def)
  have h2: "hashed c2 (set L - {bp})" using c1(2) same_links_lists(2) [OF c2(2)] by simp
  have h3: "hashed c3 (set L)"
    using hash_insert_ok [OF h2, of bp d k] bp(1) by (simp add: c3_def insert_absorb)
  have h4: "hashed c4 (set L)" using h3 same_links_lists(2) [OF c4(2)] by simp
  have l1: "lru c1 L" using L(1) c1(3) by (simp add: lru_def rehashed_def c0)
  have l2: "lru c2 L" using l1 same_links_lists(1) [OF c2(2)] by simp
  have l3: "lru c3 L" using l2 by (simp add: lru_def c3_def hash_insert_lists)
  have l4: "lru c4 L" using l3 same_links_lists(1) [OF c4(2)] by simp
  have oth: "same_at c c4 i" if "i \<noteq> bp" for i
    using at1 [of i] c2(3) [OF that] c4(3) [OF that] hash_insert_lists(6) [OF that, of d k c2]
    by (simp add: same_at_def c3_def)
  have "b_dev (bufs c4 i) = NO_DEV \<and> b_count (bufs c4 i) = 0" if "i < NR_BUFS" "i \<notin> set L" for i
  proof -
    have "i \<noteq> bp" using that bp(1) by blast
    then show ?thesis using oth [of i] L(4) [OF that] by (simp add: same_at_def)
  qed
  then have "linked c4" unfolding linked_def using l4 h4 L(2) by blast
  moreover have "counted 1 bp c c4"
  proof -
    have "bufs_in_use c4 = bufs_in_use c + 1"
      using c4(2) c2(2) sd by (simp add: same_links_def c3_def hash_insert_lists same_data_def c0_def)
    moreover have "b_count (bufs c4 bp) = 1" using c4(2) cnt2 by (simp add: same_links_def c3_def hash_insert_at)
    ultimately show ?thesis using oth pool_lru [OF l4] pool_lru [OF L(1)] cnt by (simp add: counted_def)
  qed
  moreover have "reuse c c4 bp d k (\<not> nr)"
    unfolding reuse_def
  proof (intro conjI)
    show "b_blocknr (bufs c4 bp) = k" using c4(2) dev3(2) by (simp add: same_links_def)
    show "b_count (bufs c4 bp) = 1" using c4(2) cnt2 by (simp add: same_links_def c3_def hash_insert_at)
    show "disk c4 = (if b_dirt (bufs c bp) \<and> b_dev (bufs c bp) \<noteq> NO_DEV
                 then (disk c)(b_dev (bufs c bp) := (disk c (b_dev (bufs c bp)))(b_blocknr (bufs c bp) := b_data (bufs c bp)))
                 else disk c)"
      using c4(4) c2(4) a1 sd by (simp add: c3_def hash_insert_lists same_data_def c0)
    show "\<not> nr \<longrightarrow> b_data (bufs c4 bp) = disk c4 d k" using c4(4,6) by simp
  qed (use coh b cnt assms(2,3) oth c4(5) in auto)
  ultimately show ?thesis using res by blast
qed

lemma find_in_pool:
  assumes "linked c" "d \<noteq> NO_DEV"
  shows "\<exists>r. hash_find (bufs c) d k (buf_hash c (hash_of k)) = Some r
    \<and> (case r of Some i \<Rightarrow> i < NR_BUFS \<and> keyed c d k i | None \<Rightarrow> \<forall>j<NR_BUFS. \<not> keyed c d k j)"
proof -
  obtain L where L: "set L \<subseteq> {..<NR_BUFS}" "hashed c (set L)"
    "\<And>i. i < NR_BUFS \<Longrightarrow> i \<notin> set L \<Longrightarrow> b_dev (bufs c i) = NO_DEV"
    using assms(1) unfolding linked_def by blast
  obtain H where H: "chain (hashs c) (buf_hash c (hash_of k)) H"
    "set H = {i \<in> set L. hash_of (b_blocknr (bufs c i)) = hash_of k}" using hashed_chain [OF L(2)] by blast
  let ?P = "\<lambda>i. b_blocknr (bufs c i) = k \<and> b_dev (bufs c i) = d"
  have f: "hash_find (bufs c) d k (buf_hash c (hash_of k)) = Some (List.find ?P H)"
    using H(1) by (intro hash_find_chain) (simp add: hashs_def [abs_def])
  show ?thesis
  proof (cases "List.find ?P H")
    case None
    have "\<not> keyed c d k j" if "j < NR_BUFS" for j
    proof
      assume k: "keyed c d k j"
      then have "j \<in> set L" using L(3) [OF that] assms(2) by (auto simp: keyed_def)
      then have "j \<in> set H" using H(2) k by (simp add: keyed_def)
      then show False using None k by (auto simp: find_None_iff keyed_def)
    qed
    then show ?thesis using f None by simp
  next
    case (Some i)
    then have "i \<in> set H" "?P i" by (auto simp: find_Some_iff)
    then show ?thesis using f Some H(2) L(1) by (auto simp: keyed_def)
  qed
qed

text \<open>Changes of one buffer that leave its links and its block alone.\<close>

lemma set_buf_links:
  assumes "b_next (f (bufs c i)) = b_next (bufs c i)" "b_prev (f (bufs c i)) = b_prev (bufs c i)"
    "b_hash (f (bufs c i)) = b_hash (bufs c i)"
  shows "nexts (set_buf i f c) = nexts c" "prevs (set_buf i f c) = prevs c" "hashs (set_buf i f c) = hashs c"
  using assms by (auto simp: links_set_buf nexts_def prevs_def hashs_def fun_eq_iff)

lemma pool_set_buf:
  assumes "b_next (f (bufs c i)) = b_next (bufs c i)" "b_prev (f (bufs c i)) = b_prev (bufs c i)"
  shows "pool (set_buf i f c) = pool c"
proof -
  have "nexts (set_buf i f c) = nexts c" "prevs (set_buf i f c) = prevs c"
    using assms by (auto simp: links_set_buf nexts_def prevs_def fun_eq_iff)
  then show ?thesis by (simp add: pool_def lru_def)
qed

lemma pool_same_links: "same_links c c' \<Longrightarrow> pool c' = pool c"
  by (simp add: pool_def same_links_lists)

lemma linked_set_buf:
  assumes "linked c" "b_next (f (bufs c i)) = b_next (bufs c i)" "b_prev (f (bufs c i)) = b_prev (bufs c i)"
    "b_hash (f (bufs c i)) = b_hash (bufs c i)" "b_blocknr (f (bufs c i)) = b_blocknr (bufs c i)"
    "b_dev (bufs c i) = NO_DEV \<and> b_count (bufs c i) = 0 \<Longrightarrow> b_dev (f (bufs c i)) = NO_DEV \<and> b_count (f (bufs c i)) = 0"
  shows "linked (set_buf i f c)"
proof -
  note s = set_buf_links [of f c i, OF assms(2-4)]
  have "hashed (set_buf i f c) A \<longleftrightarrow> hashed c A" for A
    by (rule hashed_cong) (use s assms(5) in simp_all)
  moreover have "lru (set_buf i f c) L \<longleftrightarrow> lru c L" for L using s by (simp add: lru_def)
  ultimately show ?thesis using assms(1,6) unfolding linked_def by (smt (verit) set_buf_sel(1))
qed

lemma linked_in_use [simp]: "linked (c\<lparr>bufs_in_use := n\<rparr>) \<longleftrightarrow> linked c"
  by (simp add: linked_def lru_def hashed_def)

lemma keyed_set_buf:
  "b_dev (f (bufs c i)) = b_dev (bufs c i) \<Longrightarrow> b_blocknr (f (bufs c i)) = b_blocknr (bufs c i)
   \<Longrightarrow> keyed (set_buf i f c) = keyed c"
  by (auto simp: keyed_def fun_eq_iff)

text \<open>Someone holds the buffer and may have changed its data, but then marked it dirty.\<close>

lemma coherent_set_buf:
  assumes "coherent c" "b_dev (f (bufs c i)) = b_dev (bufs c i)" "b_blocknr (f (bufs c i)) = b_blocknr (bufs c i)"
    "b_count (f (bufs c i)) \<ge> 0"
    "b_count (f (bufs c i)) = 0 \<Longrightarrow> b_dev (bufs c i) \<noteq> NO_DEV \<Longrightarrow> b_dirt (f (bufs c i))
        \<or> b_data (f (bufs c i)) = disk c (b_dev (bufs c i)) (b_blocknr (bufs c i))"
  shows "coherent (set_buf i f c)"
  unfolding coherent_def keyed_set_buf [of f c i, OF assms(2,3)]
proof (intro allI impI)
  fix j assume j: "j < NR_BUFS"
  show "0 \<le> b_count (bufs (set_buf i f c) j) \<and> (b_dev (bufs (set_buf i f c) j) \<noteq> NO_DEV \<longrightarrow>
      known_dev (b_dev (bufs (set_buf i f c) j)) \<and> (b_count (bufs (set_buf i f c) j) = 0 \<longrightarrow> synced (set_buf i f c) j)
      \<and> (\<forall>ja<NR_BUFS. keyed c (b_dev (bufs (set_buf i f c) j)) (b_blocknr (bufs (set_buf i f c) j)) ja \<longrightarrow> ja = j))"
    using assms(1) [unfolded coherent_def, rule_format, OF j] assms(2-5)
    by (cases "j = i") (simp_all add: synced_def)
qed

lemma contents_set_buf:
  assumes "coherent c" "i < NR_BUFS" "b_dev (f (bufs c i)) = b_dev (bufs c i)" "b_blocknr (f (bufs c i)) = b_blocknr (bufs c i)"
    "d \<noteq> NO_DEV"
  shows "contents (set_buf i f c) d k = (if keyed c d k i then b_data (f (bufs c i)) else contents c d k)"
proof (cases "List.find (keyed c d k) [0..<NR_BUFS]")
  case None
  then have "\<not> keyed c d k i" using assms(2) by (auto simp: find_None_iff)
  then show ?thesis using None by (simp add: contents_def keyed_set_buf [of f c i, OF assms(3,4)])
next
  case (Some j)
  then have j: "j < NR_BUFS" "keyed c d k j" by (auto simp: find_Some_iff)
  have "keyed c d k i \<Longrightarrow> j = i" using assms(1,2,5) j unfolding coherent_def keyed_def by metis
  then show ?thesis using Some j by (auto simp: contents_def keyed_set_buf [of f c i, OF assms(3,4)])
qed

lemma in_use_fields [simp]:
  "coherent (c\<lparr>bufs_in_use := n\<rparr>) \<longleftrightarrow> coherent c" "keyed (c\<lparr>bufs_in_use := n\<rparr>) = keyed c"
  "contents (c\<lparr>bufs_in_use := n\<rparr>) = contents c"
proof -
  show k: "keyed (c\<lparr>bufs_in_use := n\<rparr>) = keyed c" by (simp add: keyed_def fun_eq_iff)
  show "coherent (c\<lparr>bufs_in_use := n\<rparr>) \<longleftrightarrow> coherent c" by (simp add: coherent_def synced_def k)
  show "contents (c\<lparr>bufs_in_use := n\<rparr>) = contents c" by (rule contents_cong) (simp_all add: k)
qed

lemma get_block_total:
  assumes "cinv c" "known_dev d" "\<forall>n. 0 \<le> v_io e n" "free_buf c"
  shows "\<exists>bp c'. get_block e d k nr c = Some (bp, c') \<and> cinv c' \<and> bp < NR_BUFS \<and> keyed c' d k bp
    \<and> b_count (bufs c' bp) > 0 \<and> counted 1 bp c c' \<and> (\<not> nr \<and> b_count (bufs c' bp) = 1 \<longrightarrow> synced c' bp) \<and> (\<not> nr \<longrightarrow> b_data (bufs c' bp) = contents c d k)
    \<and> (\<forall>d2 k2. known_dev d2 \<and> ((d2, k2) \<noteq> (d, k) \<or> \<not> nr) \<longrightarrow> contents c' d2 k2 = contents c d2 k2)"
proof -
  have nd: "d \<noteq> NO_DEV" using assms(2) by simp
  have lk: "linked c" and coh: "coherent c" using assms(1) by (simp_all add: cinv_def)
  obtain r where r: "hash_find (bufs c) d k (buf_hash c (hash_of k)) = Some r"
    "case r of Some i \<Rightarrow> i < NR_BUFS \<and> keyed c d k i | None \<Rightarrow> \<forall>j<NR_BUFS. \<not> keyed c d k j"
    using find_in_pool [OF lk nd] by blast
  show ?thesis
  proof (cases r)
    case None
    then obtain bp c' where t: "take_buffer e d k nr c = Some (bp, c')" "linked c'" "reuse c c' bp d k (\<not> nr)" "counted 1 bp c c'"
    proof -
      have m: "\<And>j. j < NR_BUFS \<Longrightarrow> \<not> keyed c d k j" using r(2) None by simp
      show ?thesis using take_buffer_ok [OF assms(1,2) m assms(3,4)] that by blast
    qed
    note u = reuse_coherent [OF t(3)] reuse_contents [OF t(3)] reuse_keyed(2) [OF t(3)]
      reuse_old(2) [OF t(3)] reuse_new(3) [OF t(3)]
    have data: "b_data (bufs c' bp) = contents c d k" if "\<not> nr"
      using contents_cached [OF u(1) u(4), of d k] u(2) [OF assms(2), of k] u(3) nd that by simp
    have "synced c' bp" if "\<not> nr"
      using reuse_new(4) [OF t(3) that] reuse_new(1,2) [OF t(3)] by (simp add: synced_def)
    then show ?thesis using t(1,2,4) u data nd r(1) None by (simp add: get_block_def cinv_def)
  next
    case (Some i)
    then have i: "i < NR_BUFS" "keyed c d k i" using r(2) by auto
    define f where "f = (\<lambda>b::buf. b\<lparr>b_count := b_count b + 1\<rparr>)"
    define c0 where "c0 = (if b_count (bufs c i) = 0 then c\<lparr>bufs_in_use := bufs_in_use c + 1\<rparr> else c)"
    have c0: "linked c0" "coherent c0" "contents c0 = contents c" "keyed c0 = keyed c" "bufs c0 = bufs c"
      using lk coh by (simp_all add: c0_def)
    have g: "get_block e d k nr c = Some (i, set_buf i f c0)"
      using r(1) Some nd by (simp add: get_block_def f_def c0_def)
    have cnt: "b_count (bufs c i) \<ge> 0" using coh i(1) by (simp add: coherent_def)
    have l: "linked (set_buf i f c0)"
      using linked_set_buf [OF c0(1), of f i] i(2) nd c0(5) by (auto simp: f_def keyed_def)
    have co: "coherent (set_buf i f c0)"
      using coherent_set_buf [OF c0(2), of f i] cnt c0(5) by (auto simp: f_def)
    have ct: "contents (set_buf i f c0) d2 k2 = contents c d2 k2" if "known_dev d2" for d2 k2
    proof -
      have n2: "d2 \<noteq> NO_DEV" using that by simp
      have "contents (set_buf i f c0) d2 k2 = (if keyed c0 d2 k2 i then b_data (f (bufs c0 i)) else contents c0 d2 k2)"
        using contents_set_buf [OF c0(2) i(1) _ _ n2] by (simp add: f_def)
      then show ?thesis using contents_cached [OF coh i(1) _ n2, of k2] c0 by (simp add: f_def)
    qed
    have dat: "b_data (bufs (set_buf i f c0) i) = contents c d k"
      using contents_cached [OF coh i nd] c0(5) by (simp add: f_def)
    have "keyed (set_buf i f c0) d k i" using i(2) c0(5) by (simp add: keyed_def f_def)
    moreover have "counted 1 i c (set_buf i f c0)"
    proof -
      have "lru (set_buf i f c0) L \<longleftrightarrow> lru c L" for L
        using set_buf_links [of f c0 i] by (simp add: lru_def f_def c0_def)
      then have "pool (set_buf i f c0) = pool c" by (simp add: pool_def)
      then show ?thesis using c0(5) cnt by (auto simp: counted_def same_at_def f_def c0_def)
    qed
    moreover have "synced (set_buf i f c0) i" if "b_count (bufs (set_buf i f c0) i) = 1"
    proof -
      have "b_count (bufs c i) = 0" using that c0(5) by (simp add: f_def)
      then have "synced c i" using coh i nd unfolding coherent_def keyed_def by metis
      then show ?thesis using c0(5) by (simp add: synced_def f_def c0_def)
    qed
    ultimately show ?thesis using g l co ct dat i(1) cnt c0(5) by (simp add: cinv_def f_def)
  qed
qed

section \<open>Releasing a block\<close>

text \<open>A dirty buffer is written to its block: nothing changes but the disk under it.\<close>

lemma write_out:
  assumes "rw_block e i True c = Some c'" "cinv c" "i < NR_BUFS" "b_dev (bufs c i) \<noteq> NO_DEV" "b_dirt (bufs c i)"
    "0 \<le> v_io e (ios c)"
  shows "cinv c'" "known_dev d \<Longrightarrow> contents c' d k = contents c d k" "\<not> b_dirt (bufs c' i)"
    "b_count (bufs c' i) = b_count (bufs c i)" "b_dev (bufs c' i) = b_dev (bufs c i)" "synced c' i"
proof -
  note l = rw_block_links [OF assms(1)] and o = rw_block_others [OF assms(1)]
  note w = rw_block_write [OF assms(1) assms(4) assms(6)]
  have coh: "coherent c" using assms(2) by (simp add: cinv_def)
  have k: "keyed c' = keyed c"
  proof (intro ext)
    fix d m j show "keyed c' d m j = keyed c d m j" using o [of j] w(1) by (cases "j = i") (simp_all add: keyed_def)
  qed
  have other: "disk c' d2 k2 = disk c d2 k2" if "\<not> keyed c d2 k2 i" for d2 k2 using that w(2) by (auto simp: keyed_def)
  show "synced c' i" using w by (simp add: synced_def)
  have ki: "keyed c (b_dev (bufs c i)) (b_blocknr (bufs c i)) i" by (simp add: keyed_def)
  have "coherent c'" unfolding coherent_def k
  proof (intro allI impI)
    fix j assume j: "j < NR_BUFS"
    note old = coh [unfolded coherent_def, rule_format, OF j]
    show "0 \<le> b_count (bufs c' j) \<and> (b_dev (bufs c' j) \<noteq> NO_DEV \<longrightarrow>
        known_dev (b_dev (bufs c' j)) \<and> (b_count (bufs c' j) = 0 \<longrightarrow> synced c' j)
        \<and> (\<forall>ja<NR_BUFS. keyed c (b_dev (bufs c' j)) (b_blocknr (bufs c' j)) ja \<longrightarrow> ja = j))"
    proof (cases "j = i")
      case True
      then show ?thesis using old w \<open>synced c' i\<close> by simp
    next
      case False
      have oj: "bufs c' j = bufs c j" using False by (rule o)
      have "synced c j \<longrightarrow> synced c' j" if "b_dev (bufs c j) \<noteq> NO_DEV"
      proof -
        have "\<not> keyed c (b_dev (bufs c j)) (b_blocknr (bufs c j)) i" using old that False assms(3) by blast
        then show ?thesis using other oj by (simp add: synced_def)
      qed
      then show ?thesis using old oj by auto
    qed
  qed
  moreover have "linked c'"
  proof -
    have "lru c' L \<longleftrightarrow> lru c L" "hashed c' A \<longleftrightarrow> hashed c A" for L A using same_links_lists [OF l] by auto
    moreover have "b_dev (bufs c' j) = b_dev (bufs c j) \<and> b_count (bufs c' j) = b_count (bufs c j)" for j
      using o [of j] w(1) by (cases "j = i") simp_all
    ultimately show ?thesis using assms(2) unfolding cinv_def linked_def by simp
  qed
  ultimately show "cinv c'" by (simp add: cinv_def)
  show "contents c' d k = contents c d k" if "known_dev d"
  proof (cases "List.find (keyed c d k) [0..<NR_BUFS]")
    case None
    then have "\<not> keyed c d k i" using assms(3) by (auto simp: find_None_iff)
    then show ?thesis using None other by (simp add: contents_def \<open>keyed c' = keyed c\<close>)
  next
    case (Some j)
    then show ?thesis using o [of j] w(1) by (cases "j = i") (simp_all add: contents_def \<open>keyed c' = keyed c\<close>)
  qed
  show "\<not> b_dirt (bufs c' i)" "b_count (bufs c' i) = b_count (bufs c i)" "b_dev (bufs c' i) = b_dev (bufs c i)"
    using w(1) by simp_all
qed

text \<open>A buffer that agrees with the disk may be forgotten.\<close>

lemma forget:
  assumes "cinv c" "i < NR_BUFS" "b_count (bufs c i) = 0" "\<not> b_dirt (bufs c i)" "synced c i"
  defines "c' \<equiv> set_buf i (\<lambda>b. b\<lparr>b_dev := NO_DEV\<rparr>) c"
  shows "cinv c'" "known_dev d \<Longrightarrow> contents c' d k = contents c d k"
proof -
  have coh: "coherent c" using assms(1) by (simp add: cinv_def)
  have kd: "keyed c' d2 k2 j \<longleftrightarrow> keyed c d2 k2 j \<and> j \<noteq> i" if "d2 \<noteq> NO_DEV" for d2 k2 j
    using that by (auto simp: keyed_def c'_def)
  have lk: "linked c'" unfolding c'_def by (rule linked_set_buf) (use assms(1,3) in \<open>simp_all add: cinv_def\<close>)
  have "coherent c'" unfolding coherent_def
  proof (intro allI impI)
    fix j assume j: "j < NR_BUFS"
    note old = coh [unfolded coherent_def, rule_format, OF j]
    have "\<forall>ja<NR_BUFS. keyed c' (b_dev (bufs c j)) (b_blocknr (bufs c j)) ja \<longrightarrow> ja = j" if "b_dev (bufs c j) \<noteq> NO_DEV"
      using old kd [OF that] that by blast
    then show "0 \<le> b_count (bufs c' j) \<and> (b_dev (bufs c' j) \<noteq> NO_DEV \<longrightarrow>
        known_dev (b_dev (bufs c' j)) \<and> (b_count (bufs c' j) = 0 \<longrightarrow> synced c' j)
        \<and> (\<forall>ja<NR_BUFS. keyed c' (b_dev (bufs c' j)) (b_blocknr (bufs c' j)) ja \<longrightarrow> ja = j))"
      using old by (cases "j = i") (simp_all add: c'_def synced_def)
  qed
  then show "cinv c'" using lk by (simp add: cinv_def)
  show "contents c' d k = contents c d k" if "known_dev d"
  proof -
    have nd: "d \<noteq> NO_DEV" using that by simp
    have dk: "disk c' = disk c" by (simp add: c'_def)
    show ?thesis
    proof (cases "\<exists>j<NR_BUFS. keyed c d k j")
      case True
      then obtain j where j: "j < NR_BUFS" "keyed c d k j" by blast
      note cj = contents_cached [OF coh j nd]
      show ?thesis
      proof (cases "j = i")
        case True
        have "\<not> keyed c' d k ja" if "ja < NR_BUFS" for ja
          using coh j that kd [OF nd] nd True unfolding coherent_def keyed_def by metis
        then have "contents c' d k = disk c d k" using contents_uncached dk by metis
        then show ?thesis using cj True j(2) assms(4,5) by (simp add: synced_def keyed_def)
      next
        case False
        then show ?thesis
          using contents_cached [OF \<open>coherent c'\<close> j(1) _ nd] kd [OF nd] j cj by (simp add: c'_def)
      qed
    next
      case False
      then show ?thesis using contents_uncached [of c d k] contents_uncached [of c' d k] kd [OF nd] dk by metis
    qed
  qed
qed

lemma lru_move:
  assumes "cinv c" "i < NR_BUFS" "b_dev (bufs c i) \<noteq> NO_DEV"
  defines "c1 \<equiv> lru_remove i c"
  shows "cinv (lru_front i c1)" "pool (lru_front i c1) = pool c" "cinv (lru_rear i c1)" "pool (lru_rear i c1) = pool c"
proof -
  have lk: "linked c" and coh: "coherent c" using assms(1) by (simp_all add: cinv_def)
  obtain L where L: "lru c L" "set L \<subseteq> {..<NR_BUFS}" "hashed c (set L)"
    "\<And>i. i < NR_BUFS \<Longrightarrow> i \<notin> set L \<Longrightarrow> b_dev (bufs c i) = NO_DEV \<and> b_count (bufs c i) = 0"
    using lk unfolding linked_def by blast
  have "i \<in> set L" using L(4) assms(2,3) by blast
  then obtain us vs where uv: "L = us @ i # vs" by (meson split_list)
  have dl: "distinct L" using L(1) dlist_distinct by (auto simp: lru_def)
  have l1: "lru c1 (us @ vs)" unfolding c1_def by (rule lru_remove_ok) (use L(1) uv in simp)
  have ni: "i \<notin> set (us @ vs)" using dl uv by simp
  have s1: "same_data c c1" by (simp add: c1_def lru_moves_data)
  have fin: "cinv c'" if s: "same_data c c'" and h: "hashs c' = hashs c" "buf_hash c' = buf_hash c"
    and l: "lru c' M" "set M = set L" for c' M
  proof -
    have "hashed c' A \<longleftrightarrow> hashed c A" for A
      by (rule hashed_cong [OF h]) (use s in \<open>simp add: same_data_def\<close>)
    then have "linked c'" unfolding linked_def using L(2-4) l s by (intro exI [of _ M]) (simp add: same_data_def)
    then show ?thesis using coh same_data_simps(1) [OF s] by (simp add: cinv_def)
  qed
  show "pool (lru_front i c1) = pool c" "pool (lru_rear i c1) = pool c"
    using pool_lru [OF lru_front_ok [OF l1 ni]] pool_lru [OF lru_rear_ok [OF l1 ni]] pool_lru [OF L(1)] uv by auto
  show "cinv (lru_front i c1)"
    by (rule fin [OF same_data_trans [OF s1 lru_moves_data(2)] _ _ lru_front_ok [OF l1 ni]])
      (use uv in \<open>auto simp: lru_moves_hash c1_def\<close>)
  show "cinv (lru_rear i c1)"
    by (rule fin [OF same_data_trans [OF s1 lru_moves_data(3)] _ _ lru_rear_ok [OF l1 ni]])
      (use uv in \<open>auto simp: lru_moves_hash c1_def\<close>)
qed

lemma put_block_total:
  assumes "cinv c" "i < NR_BUFS" "known_dev (b_dev (bufs c i))" "b_count (bufs c i) > 0" "\<forall>n. 0 \<le> v_io e n"
    "b_count (bufs c i) = 1 \<Longrightarrow> synced c i"
  shows "\<exists>c'. put_block e (Some i) ty c = Some c' \<and> cinv c' \<and> counted (- 1) i c c'
    \<and> (\<forall>d k. known_dev d \<longrightarrow> contents c' d k = contents c d k)"
proof -
  have lk: "linked c" and coh: "coherent c" using assms(1) by (simp_all add: cinv_def)
  have nd: "b_dev (bufs c i) \<noteq> NO_DEV" using assms(3) by simp
  define f where "f = (\<lambda>b::buf. b\<lparr>b_count := b_count b - 1\<rparr>)"
  define c1 where "c1 = set_buf i f c"
  have one: "b_count (bufs c i) = 1" if "b_count (f (bufs c i)) = 0" using that by (simp add: f_def)
  have l1: "linked c1" unfolding c1_def by (rule linked_set_buf) (use lk nd in \<open>simp_all add: f_def\<close>)
  have p1: "pool c1 = pool c" unfolding c1_def by (rule pool_set_buf) (simp_all add: f_def)
  have co1: "coherent c1" unfolding c1_def
    by (rule coherent_set_buf) (use coh assms(4,6) one in \<open>auto simp: f_def synced_def\<close>)
  have ct1: "contents c1 d k = contents c d k" if "known_dev d" for d k
  proof -
    have n2: "d \<noteq> NO_DEV" using that by simp
    have "contents c1 d k = (if keyed c d k i then b_data (f (bufs c i)) else contents c d k)"
      unfolding c1_def using contents_set_buf [OF coh assms(2) _ _ n2] by (simp add: f_def)
    then show ?thesis using contents_cached [OF coh assms(2) _ n2, of k] by (simp add: f_def)
  qed
  show ?thesis
  proof (cases "b_count (bufs c i) > 1")
    case True
    then have "put_block e (Some i) ty c = Some c1" by (simp add: put_block_def c1_def f_def)
    moreover have "counted (- 1) i c c1" using p1 True by (simp add: counted_def same_at_def) (simp add: c1_def f_def)
    ultimately show ?thesis using l1 co1 ct1 by (simp add: cinv_def)
  next
    case False
    then have b1: "b_count (bufs c i) = 1" using assms(4) by simp
    define c2 where "c2 = c1\<lparr>bufs_in_use := bufs_in_use c1 - 1\<rparr>"
    have i2: "cinv c2" "contents c2 = contents c1" "bufs c2 = bufs c1" using l1 co1 by (simp_all add: c2_def cinv_def)
    have nd2: "b_dev (bufs c2 i) \<noteq> NO_DEV" using nd i2(3) by (simp add: c1_def f_def)
    define c3 where "c3 = (if has_flag ty ONE_SHOT then lru_front i (lru_remove i c2) else lru_rear i (lru_remove i c2))"
    have i3: "cinv c3" using lru_move [OF i2(1) assms(2) nd2] by (simp add: c3_def)
    have s3: "same_data c2 c3"
      using same_data_trans [OF lru_moves_data(1) lru_moves_data(2)] same_data_trans [OF lru_moves_data(1) lru_moves_data(3)]
      by (simp add: c3_def)
    have ct3: "contents c3 = contents c1" using same_data_simps(2) [OF s3] i2(2) by simp
    have at3: "b_dev (bufs c3 i) = b_dev (bufs c i)" "b_count (bufs c3 i) = 0" "b_dirt (bufs c3 i) = b_dirt (bufs c i)"
      "b_data (bufs c3 i) = b_data (bufs c i)" "b_blocknr (bufs c3 i) = b_blocknr (bufs c i)" "disk c3 = disk c"
      using s3 i2(3) b1 by (auto simp: same_data_def c1_def f_def c2_def)
    have sy3: "synced c3 i" using assms(6) [OF b1] at3 by (simp add: synced_def)
    define g where "g = (has_flag ty WRITE_IMMED \<and> b_dirt (bufs c3 i) \<and> b_dev (bufs c3 i) \<noteq> NO_DEV)"
    have "\<exists>c4. (if g then rw_block e i True c3 else Some c3) = Some c4 \<and> cinv c4 \<and> b_count (bufs c4 i) = 0
      \<and> (\<forall>d k. known_dev d \<longrightarrow> contents c4 d k = contents c3 d k) \<and> synced c4 i
      \<and> (has_flag ty WRITE_IMMED \<longrightarrow> \<not> b_dirt (bufs c4 i))
      \<and> pool c4 = pool c3 \<and> (\<forall>j. j \<noteq> i \<longrightarrow> bufs c4 j = bufs c3 j) \<and> bufs_in_use c4 = bufs_in_use c3"
    proof (cases g)
      case True
      then have t: "b_dirt (bufs c3 i)" "b_dev (bufs c3 i) \<noteq> NO_DEV" by (simp_all add: g_def)
      obtain c4 where c4: "rw_block e i True c3 = Some c4" using rw_block_some assms(3) at3(1) by metis
      note w = write_out [OF c4 i3 assms(2) t(2) t(1) assms(5) [rule_format]]
      note l = rw_block_links [OF c4]
      show ?thesis using True c4 w at3(2) rw_block_others [OF c4] pool_same_links [OF l] l
        by (simp add: same_links_def)
    next
      case False
      then show ?thesis using i3 at3 nd sy3 by (auto simp: g_def)
    qed
    then obtain c4 where c4: "(if g then rw_block e i True c3 else Some c3) = Some c4" "cinv c4" "b_count (bufs c4 i) = 0"
      "\<And>d k. known_dev d \<Longrightarrow> contents c4 d k = contents c3 d k" "synced c4 i" "has_flag ty WRITE_IMMED \<Longrightarrow> \<not> b_dirt (bufs c4 i)"
      "pool c4 = pool c3" "\<And>j. j \<noteq> i \<Longrightarrow> bufs c4 j = bufs c3 j" "bufs_in_use c4 = bufs_in_use c3"
      by blast
    have o4: "same_at c c4 j" if "j \<noteq> i" for j
      using c4(8) [OF that] s3 i2(3) that by (simp add: same_at_def same_data_def c1_def)
    have u4: "bufs_in_use c4 = bufs_in_use c - 1" using c4(9) s3 by (simp add: same_data_def c2_def c1_def)
    have p3: "pool c3 = pool c" using lru_move(2,4) [OF i2(1) assms(2) nd2] p1 by (simp add: c3_def c2_def)
    have k4: "counted (- 1) i c (set_buf i (b_dev_update g) c4)" "counted (- 1) i c c4" for g
      using c4(3,7) o4 u4 p3 b1 pool_set_buf [of "b_dev_update g" c4 i] by (simp_all add: counted_def same_at_def)
    have cnt1: "(b_count (bufs c1 i) > 0) = False" using b1 by (simp add: c1_def f_def)
    have "put_block e (Some i) ty c = (if g then rw_block e i True c3 else Some c3)
        \<bind> (\<lambda>c4. Some (if ty = ZUPER_BLOCK then set_buf i (\<lambda>b. b\<lparr>b_dev := NO_DEV\<rparr>) c4 else c4))"
      using cnt1 unfolding g_def c3_def c2_def c1_def f_def by (simp only: put_block_def Let_def option.case if_False)
    then have p: "put_block e (Some i) ty c = Some (if ty = ZUPER_BLOCK then set_buf i (\<lambda>b. b\<lparr>b_dev := NO_DEV\<rparr>) c4 else c4)"
      by (simp only: c4(1) Option.bind.simps)
    show ?thesis
    proof (cases "ty = ZUPER_BLOCK")
      case True
      then have "\<not> b_dirt (bufs c4 i)" using c4(6) by (simp add: has_flag_def)
      note fo = forget [OF c4(2) assms(2) c4(3) this c4(5)]
      show ?thesis using p True fo c4(4) ct3 ct1 k4(1) by simp
    next
      case False
      then show ?thesis using p c4(2,4) ct3 ct1 k4(2) by simp
    qed
  qed
qed

section \<open>The pool at start-up\<close>

lemma chain_upto:
  assumes "\<And>i. i < n \<Longrightarrow> nx i = (if i = n - 1 then None else Some (i + 1))" "m < n"
  shows "chain nx (Some m) [m..<n]"
  using assms(2)
proof (induction "n - m" arbitrary: m rule: less_induct)
  case less
  show ?case
  proof (cases "m = n - 1")
    case True
    then show ?thesis using assms(1) [of m] less.prems by (simp add: upt_conv_Cons)
  next
    case False
    then have "chain nx (Some (m + 1)) [m + 1..<n]" using less by (intro less.hyps) auto
    then show ?thesis using assms(1) [of m] less.prems False by (simp add: upt_conv_Cons)
  qed
qed

lemma chain_downto:
  assumes "\<And>i. i \<le> m \<Longrightarrow> pv i = (if i = 0 then None else Some (i - 1))"
  shows "chain pv (Some m) (rev [0..<Suc m])"
  using assms by (induction m) auto

definition fresh_pool :: "cache \<Rightarrow> cache" where
  "fresh_pool c = c\<lparr>bufs_in_use := 0, front := Some 0, rear := Some (NR_BUFS - 1),
     bufs := (\<lambda>i. if i < NR_BUFS then (pool_link i (bufs c i))\<lparr>b_hash := (if i = NR_BUFS - 1 then None else Some (i + 1))\<rparr>
                  else bufs c i),
     buf_hash := (buf_hash c)(0 := Some 0)\<rparr>"

lemma each_skip: "each (\<lambda>i s. Some s) xs s = Some s"
  by (induction xs) auto

lemma buf_pool_fresh: "buf_pool (\<lambda>i. False) c = Some (fresh_pool c)"
  by (auto simp: buf_pool_def each_skip fresh_pool_def pool_link_def Let_def intro!: cache.equality ext)

lemma fresh_pool_bufs:
  assumes "i < NR_BUFS"
  shows "b_next (bufs (fresh_pool c) i) = (if i = NR_BUFS - 1 then None else Some (i + 1))"
    "b_prev (bufs (fresh_pool c) i) = (if i = 0 then None else Some (i - 1))"
    "b_hash (bufs (fresh_pool c) i) = (if i = NR_BUFS - 1 then None else Some (i + 1))"
    "b_blocknr (bufs (fresh_pool c) i) = NO_BLOCK" "b_dev (bufs (fresh_pool c) i) = NO_DEV"
    "b_count (bufs (fresh_pool c) i) = b_count (bufs c i)"
  using assms by (simp_all add: fresh_pool_def pool_link_def)

lemma fresh_pool_cinv:
  assumes "\<And>h. buf_hash c h = None" "\<And>i. i < NR_BUFS \<Longrightarrow> b_count (bufs c i) = 0"
  shows "cinv (fresh_pool c)" "free_buf (fresh_pool c)"
proof -
  let ?c = "fresh_pool c" and ?L = "[0..<NR_BUFS]"
  have n: "chain (nexts ?c) (Some 0) ?L"
    by (rule chain_upto) (simp_all add: nexts_def fresh_pool_bufs del: upt_rec_numeral)
  have h: "chain (hashs ?c) (Some 0) ?L"
    by (rule chain_upto) (simp_all add: hashs_def fresh_pool_bufs del: upt_rec_numeral)
  have p: "chain (prevs ?c) (Some (NR_BUFS - 1)) (rev [0..<Suc (NR_BUFS - 1)])"
    by (rule chain_downto) (simp add: prevs_def fresh_pool_bufs)
  have l: "lru ?c ?L" using n p by (simp add: lru_def dlist_def fresh_pool_def del: upt_rec_numeral)
  have "hashed ?c (set ?L)" unfolding hashed_def
  proof
    fix h0
    show "\<exists>H. chain (hashs ?c) (buf_hash ?c h0) H \<and> set H = {i \<in> set ?L. hash_of (b_blocknr (bufs ?c i)) = h0}"
    proof (cases "h0 = 0")
      case True
      have "set ?L = {i \<in> set ?L. hash_of (b_blocknr (bufs ?c i)) = h0}"
        using True by (auto simp: fresh_pool_bufs hash_of_def)
      then show ?thesis using h True by (intro exI [of _ ?L]) (simp add: fresh_pool_def del: upt_rec_numeral)
    next
      case False
      then have "buf_hash ?c h0 = None" using assms(1) by (simp add: fresh_pool_def)
      moreover have "{i \<in> set ?L. hash_of (b_blocknr (bufs ?c i)) = h0} = {}"
        using False by (auto simp: fresh_pool_bufs hash_of_def)
      ultimately show ?thesis by (intro exI [of _ "[]"]) simp
    qed
  qed
  then have "linked ?c" unfolding linked_def using l by (intro exI [of _ ?L]) (simp add: atLeast0LessThan del: upt_rec_numeral)
  moreover have "coherent ?c" using assms(2) by (simp add: coherent_def fresh_pool_bufs)
  ultimately show "cinv ?c" by (simp add: cinv_def)
  show "free_buf ?c" unfolding free_buf_def
    using pool_lru [OF l] assms(2) by (intro conjI bexI [of _ 0]) (auto simp: fresh_pool_def pool_link_def)
qed

end
