(* ===== verification/FSSuper.thy ===== *)
theory FSSuper
  imports FSCache
begin

text \<open>
  Super blocks and bit maps (\<^verbatim>\<open>fs/super.c\<close>), zones (\<^verbatim>\<open>alloc_zone\<close> and \<^verbatim>\<open>free_zone\<close> of \<^verbatim>\<open>fs/cache.c\<close>)
  and the clock (\<^verbatim>\<open>clock_time\<close> of \<^verbatim>\<open>fs/utility.c\<close>).
\<close>

section \<open>Bit maps\<close>

text \<open>
  The search of \<^verbatim>\<open>alloc_bit\<close> in the words \<open>ws\<close> of one block: the first word that is not all ones,
  its first zero bit \<open>i\<close> and the bit number \<open>a\<close>.  A number beyond the map ends the search in
  this block.
\<close>

fun scan_words :: "u16 \<Rightarrow> nat \<Rightarrow> block \<Rightarrow> nat list \<Rightarrow> (nat \<times> nat \<times> u16) option" where
  "scan_words map_bits b d [] = None"
| "scan_words map_bits b d (w # ws) =
     (let k = rd16 d (2 * w)
      in if k = NOT 0 then scan_words map_bits b d ws
         else (case List.find (\<lambda>i. \<not> bit k i) [0..<16] of
                 None \<Rightarrow> scan_words map_bits b d ws
               | Some i \<Rightarrow>
                   (let a = word_of_nat (i + w * 16 + b * 8192)
                    in if a \<ge> map_bits then None else Some (w, i, a))))"

fun alloc_blocks :: "(nat \<Rightarrow> nat option) \<Rightarrow> u16 \<Rightarrow> nat \<Rightarrow> nat \<Rightarrow> nat \<Rightarrow> nat \<Rightarrow> cache \<Rightarrow> (u16 \<times> cache) option" where
  "alloc_blocks map_ptr map_bits bit_blocks 0 b w c = Some (NO_BIT, c)"
| "alloc_blocks map_ptr map_bits bit_blocks (Suc block_count) b w c = do {
     bp \<leftarrow> map_ptr b;
     (case scan_words map_bits b (b_data (bufs c bp)) [w..<512] of
        Some (w', i, a) \<Rightarrow>
          Some (a, set_buf bp (\<lambda>b. b\<lparr>b_data := wr16 (2 * w') (rd16 (b_data b) (2 * w') OR push_bit i 1) (b_data b),
                                    b_dirt := True\<rparr>) c)
      | None \<Rightarrow> alloc_blocks map_ptr map_bits bit_blocks block_count
                  (if b + 1 = bit_blocks then 0 else b + 1) 0 c)
   }"

definition alloc_bit :: "(nat \<Rightarrow> nat option) \<Rightarrow> u16 \<Rightarrow> u16 \<Rightarrow> u16 \<Rightarrow> cache \<Rightarrow> (u16 \<times> cache) option" where
  "alloc_bit map_ptr map_bits bit_blocks origin c =
     (let org = unat (if origin \<ge> map_bits then 0 else origin);
          b = org div 8192; w = (org - b * 8192) div 16
      in alloc_blocks map_ptr map_bits (unat bit_blocks)
           (if w = 0 then unat bit_blocks else unat bit_blocks + 1) b w c)"

definition free_bit :: "(nat \<Rightarrow> nat option) \<Rightarrow> u16 \<Rightarrow> cache \<Rightarrow> cache option" where
  "free_bit map_ptr bit_returned c =
     (let b = unat bit_returned div 8192; r = unat bit_returned - b * 8192; w = r div 16; i = r mod 16
      in case map_ptr b of None \<Rightarrow> Some c
         | Some bp \<Rightarrow>
             if \<not> bit (rd16 (b_data (bufs c bp)) (2 * w)) i then None \<comment> \<open>panic: freeing unused block or inode\<close>
             else Some (set_buf bp (\<lambda>b. b\<lparr>b_data := wr16 (2 * w) (rd16 (b_data b) (2 * w) AND NOT (push_bit i 1)) (b_data b),
                                        b_dirt := True\<rparr>) c))"

section \<open>The super block table\<close>

definition get_super :: "u16 \<Rightarrow> vol \<Rightarrow> nat option" where
  "get_super dev v = List.find (\<lambda>i. s_dev (super_block v i) = dev) [0..<NR_SUPERS]"

definition mounted :: "nat \<Rightarrow> vol \<Rightarrow> bool" where
  "mounted rip v =
     (let dev = i_zone (inodes v rip) 0
      in dev = ROOT_DEV \<or> list_ex (\<lambda>i. s_dev (super_block v i) = dev) [0..<NR_SUPERS])"

definition scale_factor :: "nat \<Rightarrow> vol \<Rightarrow> nat option" where
  "scale_factor ip v = do { sp \<leftarrow> get_super (i_dev (inodes v ip)) v; Some (nat (s_log_zone_size (super_block v sp))) }"

text \<open>
  \<^verbatim>\<open>rw_super\<close> copies all 50 bytes of the structure, the fields after \<^verbatim>\<open>s_magic\<close> included, which
  have a meaning in memory only.
\<close>

definition super_of_bytes :: "fs_env \<Rightarrow> block \<Rightarrow> super" where
  "super_of_bytes e d =
     \<lparr>s_ninodes = rd16 d 0, s_nzones = rd16 d 2, s_imap_blocks = rd16 d 4, s_zmap_blocks = rd16 d 6,
      s_firstdatazone = rd16 d 8, s_log_zone_size = sint (rd16 d 10), s_max_size = sint (rd32 d 12),
      s_magic = rd16 d 16, s_imap = (\<lambda>i. v_bufof e (rd16 d (18 + 2 * i))),
      s_zmap = (\<lambda>i. v_bufof e (rd16 d (26 + 2 * i))), s_dev = rd16 d 38,
      s_isup = v_inoof e (rd16 d 40), s_imount = v_inoof e (rd16 d 42), s_time = sint (rd32 d 44),
      s_rd_only = d 48, s_dirt = d 49\<rparr>"

definition super_to_bytes :: "fs_env \<Rightarrow> super \<Rightarrow> block \<Rightarrow> block" where
  "super_to_bytes e sp d =
     (let d1 = wr16 8 (s_firstdatazone sp) (wr16 6 (s_zmap_blocks sp) (wr16 4 (s_imap_blocks sp)
                 (wr16 2 (s_nzones sp) (wr16 0 (s_ninodes sp) d))));
          d2 = wr16 16 (s_magic sp) (wr32 12 (word_of_int (s_max_size sp))
                 (wr16 10 (word_of_int (s_log_zone_size sp)) d1));
          d3 = fold (\<lambda>i. wr16 (18 + 2 * i) (v_bufptr e (s_imap sp i))) [0..<4] d2;
          d4 = fold (\<lambda>i. wr16 (26 + 2 * i) (v_bufptr e (s_zmap sp i))) [0..<6] d3;
          d5 = wr16 42 (v_inoptr e (s_imount sp)) (wr16 40 (v_inoptr e (s_isup sp)) (wr16 38 (s_dev sp) d4))
      in (wr32 44 (word_of_int (s_time sp)) d5)(48 := s_rd_only sp, 49 := s_dirt sp))"

definition rw_super :: "fs_env \<Rightarrow> nat \<Rightarrow> bool \<Rightarrow> vol \<Rightarrow> vol option" where
  "rw_super e sp writing v =
     (let dev = s_dev (super_block v sp)
      in if \<not> writing
         then do {
           (bp, c) \<leftarrow> get_block e dev SUPER_BLOCK False (cch v);
           c1 \<leftarrow> put_block e (Some bp) ZUPER_BLOCK c;
           Some (set_super sp (\<lambda>_. (super_of_bytes e (b_data (bufs c bp)))\<lparr>s_dev := dev, s_dirt := 0\<rparr>)
                   (v\<lparr>cch := c1\<rparr>))
         }
         else do {
           (bp, c) \<leftarrow> get_block e dev SUPER_BLOCK True (cch v);
           let c1 = set_buf bp (\<lambda>b. b\<lparr>b_data := super_to_bytes e (super_block v sp) (b_data b), b_dirt := True\<rparr>) c;
           c2 \<leftarrow> put_block e (Some bp) ZUPER_BLOCK c1;
           Some (set_super sp (\<lambda>s. s\<lparr>s_dirt := 0\<rparr>) (v\<lparr>cch := c2\<rparr>))
         })"

section \<open>Loading and unloading the bit maps\<close>

definition load_maps :: "fs_env \<Rightarrow> nat \<Rightarrow> u16 \<Rightarrow> u16 \<Rightarrow> ((nat \<Rightarrow> nat option) \<Rightarrow> super \<Rightarrow> super) \<Rightarrow> (super \<Rightarrow> nat \<Rightarrow> nat option)
    \<Rightarrow> nat \<Rightarrow> vol \<Rightarrow> vol option" where
  "load_maps e sp dev base put get n v =
     each (\<lambda>i v. do {
        (bp, c) \<leftarrow> get_block e dev (base + word_of_nat i) False (cch v);
        Some (set_super sp (\<lambda>s. put ((get s)(i := Some bp)) s) (v\<lparr>cch := c\<rparr>))
      }) [0..<n] v"

definition or_word0 :: "nat \<Rightarrow> u16 \<Rightarrow> cache \<Rightarrow> cache" where
  "or_word0 bp m c = set_buf bp (\<lambda>b. b\<lparr>b_data := wr16 0 (rd16 (b_data b) 0 OR m) (b_data b)\<rparr>) c"

definition load_bit_maps :: "fs_env \<Rightarrow> u16 \<Rightarrow> vol \<Rightarrow> (int \<times> vol) option" where
  "load_bit_maps e dev v = do {
     sp \<leftarrow> get_super dev v;
     let im = s_imap_blocks (super_block v sp);
     let zm = s_zmap_blocks (super_block v sp);
     (if bufs_in_use (cch v) + uint im + uint zm \<ge> int NR_BUFS - 3 then Some (ERROR, v)
      else if im > 4 \<or> zm > 6 then None \<comment> \<open>panic: too many map blocks\<close>
      else do {
        v1 \<leftarrow> load_maps e sp dev (SUPER_BLOCK + 1) (\<lambda>m s. s\<lparr>s_imap := m\<rparr>) s_imap (unat im) v;
        v2 \<leftarrow> load_maps e sp dev (SUPER_BLOCK + 1 + im) (\<lambda>m s. s\<lparr>s_zmap := m\<rparr>) s_zmap (unat zm) v1;
        ib \<leftarrow> s_imap (super_block v2 sp) 0;
        zb \<leftarrow> s_zmap (super_block v2 sp) 0;
        let c = or_word0 zb 1 (or_word0 ib 3 (cch v2));
        Some (OK, v2\<lparr>cch := c\<lparr>bufs_in_use := bufs_in_use c + uint im + uint zm\<rparr>\<rparr>)
      })
   }"

definition unload_bit_maps :: "fs_env \<Rightarrow> u16 \<Rightarrow> vol \<Rightarrow> vol option" where
  "unload_bit_maps e dev v = do {
     sp \<leftarrow> get_super dev v;
     let s = super_block v sp;
     let c0 = (cch v)\<lparr>bufs_in_use := bufs_in_use (cch v) - (uint (s_imap_blocks s) + uint (s_zmap_blocks s))\<rparr>;
     c1 \<leftarrow> each (\<lambda>i c. put_block e (s_imap s i) I_MAP_BLOCK c) [0..<unat (s_imap_blocks s)] c0;
     c2 \<leftarrow> each (\<lambda>i c. put_block e (s_zmap s i) ZMAP_BLOCK c) [0..<unat (s_zmap_blocks s)] c1;
     Some (v\<lparr>cch := c2\<rparr>)
   }"

section \<open>Zones\<close>

definition alloc_zone :: "u16 \<Rightarrow> u16 \<Rightarrow> vol \<Rightarrow> (u16 \<times> vol) option" where
  "alloc_zone dev z v = do {
     sp \<leftarrow> get_super dev v;
     let s = super_block v sp;
     (b, c) \<leftarrow> alloc_bit (s_zmap s) (s_nzones s - s_firstdatazone s + 1) (s_zmap_blocks s)
                 (z - (s_firstdatazone s - 1)) (cch v);
     (if b = NO_BIT then Some (NO_ZONE, v\<lparr>cch := c, err_code := ENOSPC\<rparr>)
      else Some (s_firstdatazone s - 1 + b, v\<lparr>cch := c\<rparr>))
   }"

definition free_zone :: "u16 \<Rightarrow> u16 \<Rightarrow> vol \<Rightarrow> vol option" where
  "free_zone dev numb v =
     (if numb = NO_ZONE then Some v
      else do {
        sp \<leftarrow> get_super dev v;
        let s = super_block v sp;
        c \<leftarrow> free_bit (s_zmap s) (numb - (s_firstdatazone s - 1)) (cch v);
        Some (v\<lparr>cch := c\<rparr>)
      })"

section \<open>The clock\<close>

definition clock_time :: "fs_env \<Rightarrow> vol \<Rightarrow> (int \<times> vol) option" where
  "clock_time e v =
     (let (k, t) = v_clock e (clks v); v1 = v\<lparr>clks := clks v + 1\<rparr>
      in if k \<noteq> OK then None \<comment> \<open>panic: clock_time err\<close>
         else do {
           sp \<leftarrow> get_super ROOT_DEV v1;
           Some (t, set_super sp (\<lambda>s. s\<lparr>s_time := t, s_dirt := (if s_rd_only s = 0 then 1 else s_dirt s)\<rparr>) v1)
         })"

end
