(* ===== verification/FSInode.thy ===== *)
theory FSInode
  imports FSSuper
begin

text \<open>
  The inode table (\<^verbatim>\<open>fs/inode.c\<close>), the zone map of a file (\<^verbatim>\<open>read_map\<close> of \<^verbatim>\<open>fs/read.c\<close>) and
  \<^verbatim>\<open>truncate\<close> of \<^verbatim>\<open>fs/link.c\<close>, which \<^verbatim>\<open>put_inode\<close> needs, and the permission check of \<^verbatim>\<open>fs/protect.c\<close>.
\<close>

section \<open>The zone map of a file\<close>

text \<open>\<open>ind_entry\<close> fetches entry \<open>k\<close> of the indirect block in zone \<open>z\<close>.\<close>

definition ind_entry :: "fs_env \<Rightarrow> u16 \<Rightarrow> u16 \<Rightarrow> nat \<Rightarrow> nat \<Rightarrow> vol \<Rightarrow> (u16 \<times> vol) option" where
  "ind_entry e dev z scale k v =
     (if k \<ge> NR_INDIRECTS then None \<comment> \<open>beyond the block\<close>
      else do {
        (bp, c) \<leftarrow> get_block e dev (push_bit scale z) False (cch v);
        let z' = rd16 (b_data (bufs c bp)) (2 * k);
        c1 \<leftarrow> put_block e (Some bp) INDIRECT_BLOCK c;
        Some (z', v\<lparr>cch := c1\<rparr>)
      })"

definition read_map :: "fs_env \<Rightarrow> nat \<Rightarrow> int \<Rightarrow> vol \<Rightarrow> (u16 \<times> vol) option" where
  "read_map e rip position v = do {
     scale \<leftarrow> scale_factor rip v;
     let ip = inodes v rip;
     let block_pos = position sdiv BLOCK_SIZE;
     let zone = drop_bit scale block_pos;
     let boff = block_pos - push_bit scale zone;
     (if zone < 0 then None \<comment> \<open>before the zone array\<close>
      else if nat zone < NR_DZONE_NUM
      then (let z = i_zone ip (nat zone)
            in Some (if z = NO_ZONE then NO_BLOCK else push_bit scale z + word_of_int boff, v))
      else do {
        let excess = nat zone - NR_DZONE_NUM;
        (z, k, v1) \<leftarrow>
          (if excess < NR_INDIRECTS then Some (i_zone ip NR_DZONE_NUM, excess, v)
           else (let dz = i_zone ip (NR_DZONE_NUM + 1); ex = excess - NR_INDIRECTS
                 in if dz = NO_ZONE then Some (NO_ZONE, 0, v)
                    else do {
                      (z, v1) \<leftarrow> ind_entry e (i_dev ip) dz scale (ex div NR_INDIRECTS) v;
                      Some (z, ex mod NR_INDIRECTS, v1)
                    }));
        (if z = NO_ZONE then Some (NO_BLOCK, v1)
         else do {
           (z', v2) \<leftarrow> ind_entry e (i_dev ip) z scale k v1;
           Some (if z' = NO_ZONE then NO_BLOCK else push_bit scale z' + word_of_int boff, v2)
         })
      })
   }"

section \<open>Inodes on the disk\<close>

definition inode_of_bytes :: "block \<Rightarrow> nat \<Rightarrow> inode \<Rightarrow> inode" where
  "inode_of_bytes d o1 ip =
     ip\<lparr>i_mode := rd16 d o1, i_uid := rd16 d (o1 + 2), i_size := sint (rd32 d (o1 + 4)),
        i_modtime := sint (rd32 d (o1 + 8)), i_gid := d (o1 + 12), i_nlinks := d (o1 + 13),
        i_zone := (\<lambda>k. if k < 9 then rd16 d (o1 + 14 + 2 * k) else i_zone ip k)\<rparr>"

definition inode_to_bytes :: "inode \<Rightarrow> nat \<Rightarrow> block \<Rightarrow> block" where
  "inode_to_bytes ip o1 d =
     (let d1 = wr32 (o1 + 8) (word_of_int (i_modtime ip)) (wr32 (o1 + 4) (word_of_int (i_size ip))
                 (wr16 (o1 + 2) (i_uid ip) (wr16 o1 (i_mode ip) d)));
          d2 = d1(o1 + 12 := i_gid ip, o1 + 13 := i_nlinks ip)
      in fold (\<lambda>k. wr16 (o1 + 14 + 2 * k) (i_zone ip k)) [0..<9] d2)"

definition inode_block :: "inode \<Rightarrow> super \<Rightarrow> u16" where
  "inode_block ip sp = (i_num ip - 1) div 32 + s_imap_blocks sp + s_zmap_blocks sp + 2"

definition inode_off :: "inode \<Rightarrow> nat" where
  "inode_off ip = 32 * unat ((i_num ip - 1) mod 32)"

definition rw_inode :: "fs_env \<Rightarrow> nat \<Rightarrow> bool \<Rightarrow> vol \<Rightarrow> vol option" where
  "rw_inode e rip writing v = do {
     let ip = inodes v rip;
     sp \<leftarrow> get_super (i_dev ip) v;
     (bp, c) \<leftarrow> get_block e (i_dev ip) (inode_block ip (super_block v sp)) False (cch v);
     let c1 = (if writing
               then set_buf bp (\<lambda>b. b\<lparr>b_data := inode_to_bytes ip (inode_off ip) (b_data b), b_dirt := True\<rparr>) c
               else c);
     c2 \<leftarrow> put_block e (Some bp) INODE_BLOCK c1;
     Some (set_ino rip (\<lambda>p. (if writing then p else inode_of_bytes (b_data (bufs c bp)) (inode_off ip) p)
                              \<lparr>i_dirt := False\<rparr>) (v\<lparr>cch := c2\<rparr>))
   }"

section \<open>The inode table\<close>

definition find_inode :: "u16 \<Rightarrow> u16 \<Rightarrow> vol \<Rightarrow> nat option" where
  "find_inode dev numb v =
     List.find (\<lambda>i. i_count (inodes v i) > 0 \<and> i_dev (inodes v i) = dev \<and> i_num (inodes v i) = numb) [0..<NR_INODES]"

text \<open>The loop of \<^verbatim>\<open>get_inode\<close> remembers the last free slot it has passed.\<close>

definition free_slot :: "vol \<Rightarrow> nat option" where
  "free_slot v = List.find (\<lambda>i. \<not> i_count (inodes v i) > 0) (rev [0..<NR_INODES])"

definition get_inode :: "fs_env \<Rightarrow> u16 \<Rightarrow> u16 \<Rightarrow> vol \<Rightarrow> (nat option \<times> vol) option" where
  "get_inode e dev numb v =
     (case find_inode dev numb v of
        Some i \<Rightarrow> Some (Some i, set_ino i (\<lambda>p. p\<lparr>i_count := i_count p + 1\<rparr>) v)
      | None \<Rightarrow>
          (case free_slot v of
             None \<Rightarrow> Some (None, v\<lparr>err_code := ENFILE\<rparr>)
           | Some i \<Rightarrow> do {
               let v1 = set_ino i (\<lambda>p. p\<lparr>i_dev := dev, i_num := numb, i_count := 1\<rparr>) v;
               v2 \<leftarrow> (if dev \<noteq> NO_DEV then rw_inode e i False v1 else Some v1);
               Some (Some i, v2)
             }))"

definition dup_inode :: "nat \<Rightarrow> vol \<Rightarrow> vol" where
  "dup_inode ip = set_ino ip (\<lambda>p. p\<lparr>i_count := i_count p + 1\<rparr>)"

definition free_inode :: "u16 \<Rightarrow> u16 \<Rightarrow> vol \<Rightarrow> vol option" where
  "free_inode dev numb v = do {
     sp \<leftarrow> get_super dev v;
     c \<leftarrow> free_bit (s_imap (super_block v sp)) numb (cch v);
     Some (v\<lparr>cch := c\<rparr>)
   }"

definition wipe_inode :: "fs_env \<Rightarrow> nat \<Rightarrow> vol \<Rightarrow> vol option" where
  "wipe_inode e rip v = do {
     (t, v1) \<leftarrow> clock_time e (set_ino rip (\<lambda>p. p\<lparr>i_size := 0\<rparr>) v);
     Some (set_ino rip (\<lambda>p. p\<lparr>i_modtime := t, i_dirt := True,
             i_zone := (\<lambda>k. if k < 9 then NO_ZONE else i_zone p k)\<rparr>) v1)
   }"

text \<open>The positions that the loop of \<^verbatim>\<open>truncate\<close> visits: every zone below the size.\<close>

definition steps :: "int \<Rightarrow> int \<Rightarrow> int list" where
  "steps sz unit = map (\<lambda>k. int k * unit) [0..<nat ((sz + unit - 1) div unit)]"

definition truncate_file :: "fs_env \<Rightarrow> nat \<Rightarrow> vol \<Rightarrow> vol option" where
  "truncate_file e rip v0 = do {
     let dev = i_dev (inodes v0 rip);
     scale \<leftarrow> scale_factor rip v0;
     let v = set_ino rip (\<lambda>p. if i_pipe p then p\<lparr>i_size := PIPE_SIZE\<rparr> else p) v0;
     v1 \<leftarrow> each (\<lambda>position v. do {
             (b, v1) \<leftarrow> read_map e rip position v;
             (if b \<noteq> NO_BLOCK then free_zone dev (drop_bit scale b) v1 else Some v1)
           }) (steps (i_size (inodes v rip)) (push_bit scale BLOCK_SIZE)) v;
     v2 \<leftarrow> free_zone dev (i_zone (inodes v1 rip) NR_DZONE_NUM) v1;
     let z = i_zone (inodes v2 rip) (NR_DZONE_NUM + 1);
     v3 \<leftarrow> (if z = NO_ZONE then Some v2
            else do {
              (bp, c) \<leftarrow> get_block e dev (push_bit scale z) False (cch v2);
              v3 \<leftarrow> each (\<lambda>k v. free_zone dev (rd16 (b_data (bufs (cch v) bp)) (2 * k)) v)
                      [0..<NR_INDIRECTS] (v2\<lparr>cch := c\<rparr>);
              c1 \<leftarrow> put_block e (Some bp) INDIRECT_BLOCK (cch v3);
              free_zone dev z (v3\<lparr>cch := c1\<rparr>)
            });
     wipe_inode e rip v3
   }"

definition put_inode :: "fs_env \<Rightarrow> nat option \<Rightarrow> vol \<Rightarrow> vol option" where
  "put_inode e p v =
     (case p of None \<Rightarrow> Some v
      | Some rip \<Rightarrow>
          (let v1 = set_ino rip (\<lambda>p. p\<lparr>i_count := i_count p - 1\<rparr>) v
           in if i_count (inodes v1 rip) \<noteq> 0 then Some v1
              else do {
                v2 \<leftarrow> (if i_nlinks (inodes v1 rip) \<noteq> 0 then Some v1
                       else do {
                         v2 \<leftarrow> truncate_file e rip v1;
                         let v3 = set_ino rip (\<lambda>p. p\<lparr>i_mode := 0, i_pipe := False\<rparr>) v2;
                         free_inode (i_dev (inodes v3 rip)) (i_num (inodes v3 rip)) v3
                       });
                (if i_dirt (inodes v2 rip) then rw_inode e rip True v2 else Some v2)
              }))"

definition alloc_inode :: "fs_env \<Rightarrow> cred \<Rightarrow> u16 \<Rightarrow> u16 \<Rightarrow> vol \<Rightarrow> (nat option \<times> vol) option" where
  "alloc_inode e who dev bits v = do {
     sp \<leftarrow> get_super dev v;
     let s = super_block v sp;
     (b, c) \<leftarrow> alloc_bit (s_imap s) (s_ninodes s + 1) (s_imap_blocks s) 0 (cch v);
     (if b = NO_BIT then Some (None, v\<lparr>cch := c, err_code := ENFILE\<rparr>)
      else do {
        (r, v1) \<leftarrow> get_inode e NO_DEV b (v\<lparr>cch := c\<rparr>);
        (case r of
           None \<Rightarrow> do {
             c1 \<leftarrow> free_bit (s_imap (super_block v1 sp)) b (cch v1);
             Some (None, v1\<lparr>cch := c1\<rparr>)
           }
         | Some rip \<Rightarrow> do {
             v2 \<leftarrow> wipe_inode e rip
                     (set_ino rip (\<lambda>p. p\<lparr>i_mode := bits, i_nlinks := 0, i_uid := c_effuid who,
                                         i_gid := c_effgid who, i_dev := dev\<rparr>) v1);
             Some (Some rip, v2)
           })
      })
   }"

section \<open>Protection\<close>

definition read_only :: "nat \<Rightarrow> vol \<Rightarrow> int option" where
  "read_only ip v = do {
     sp \<leftarrow> get_super (i_dev (inodes v ip)) v;
     Some (if s_rd_only (super_block v sp) \<noteq> 0 then EROFS else OK)
   }"

definition perm_bits :: "cred \<Rightarrow> bool \<Rightarrow> inode \<Rightarrow> u16" where
  "perm_bits who real ip =
     (let test_uid = (if real then c_realuid who else c_effuid who);
          test_gid = (if real then c_realgid who else c_effgid who)
      in if c_su who then 7
         else drop_bit (if test_uid = i_uid ip then 6 else if test_gid = i_gid ip then 3 else 0) (i_mode ip) AND 7)"

definition forbidden :: "cred \<Rightarrow> nat \<Rightarrow> u16 \<Rightarrow> bool \<Rightarrow> vol \<Rightarrow> int option" where
  "forbidden who rip access_desired real v =
     (let ip = inodes v rip; perm = perm_bits who real ip;
          r = (if perm OR access_desired \<noteq> perm then EACCES else OK);
          r1 = (if has_flag access_desired X_BIT \<and> i_mode ip AND 0x49 = 0 then EACCES else r)
      in if r1 = OK \<and> has_flag access_desired W_BIT then read_only rip v else Some r1)"

end
