(* ===== verification/FSBits.thy ===== *)
theory FSBits
  imports FSInode
begin

text \<open>
  Byte access to blocks and the allocation of bits: \<^verbatim>\<open>alloc_bit\<close> and \<^verbatim>\<open>free_bit\<close> against the set of
  bits that are on, and the interface \<open>id_pool\<close> that zones and inodes use.
\<close>

section \<open>Reading what was written\<close>

lemma rd16_wr16 [simp]: "rd16 (wr16 i v d) i = v"
  by (rule bit_word_eqI) (auto simp: rd16_def wr16_def bit_simps)

lemma rd16_wr16_other [simp]:
  assumes "i + 2 \<le> j \<or> j + 2 \<le> i"
  shows "rd16 (wr16 i v d) j = rd16 d j"
  using assms by (auto simp: rd16_def wr16_def)

lemma wr16_byte_other [simp]: "j \<noteq> i \<Longrightarrow> j \<noteq> i + 1 \<Longrightarrow> wr16 i v d j = d j"
  by (simp add: wr16_def)

lemma rd32_wr32 [simp]: "rd32 (wr32 i v d) i = v"
  by (rule bit_word_eqI) (auto simp: rd32_def wr32_def bit_simps)

lemma rd32_wr16_other [simp]:
  assumes "i + 2 \<le> j \<or> j + 4 \<le> i"
  shows "rd32 (wr16 i v d) j = rd32 d j"
  using assms by (auto simp: rd32_def)

lemma rd16_wr32_other [simp]:
  assumes "i + 4 \<le> j \<or> j + 2 \<le> i"
  shows "rd16 (wr32 i v d) j = rd16 d j"
  using assms by (auto simp: wr32_def)

lemma rd32_wr32_other [simp]:
  assumes "i + 4 \<le> j \<or> j + 4 \<le> i"
  shows "rd32 (wr32 i v d) j = rd32 d j"
  using assms by (auto simp: rd32_def)

lemma wr32_byte_other [simp]: "j < i \<or> i + 4 \<le> j \<Longrightarrow> wr32 i v d j = d j"
  by (auto simp: wr32_def)

lemma bit_set_one: "bit (k OR push_bit i 1 :: u16) j \<longleftrightarrow> bit k j \<or> (j = i \<and> i < 16)"
  by (auto simp: bit_simps)

lemma bit_clr_one: "bit (k AND NOT (push_bit i 1) :: u16) j \<longleftrightarrow> bit k j \<and> j \<noteq> i"
  using bit_imp_le_length [of k j] by (auto simp: bit_simps)

section \<open>The bits of a map\<close>

definition map_bit :: "(nat \<Rightarrow> nat option) \<Rightarrow> cache \<Rightarrow> nat \<Rightarrow> bool" where
  "map_bit mp c n =
     (case mp (n div 8192) of None \<Rightarrow> True
      | Some bp \<Rightarrow> bit (rd16 (b_data (bufs c bp)) (2 * (n mod 8192 div 16))) (n mod 16))"

text \<open>The map has \<open>blocks\<close> blocks in buffers of their own, and room for its \<open>bits\<close>.\<close>

definition wf_map :: "(nat \<Rightarrow> nat option) \<Rightarrow> u16 \<Rightarrow> u16 \<Rightarrow> bool" where
  "wf_map mp bits blocks \<longleftrightarrow>
     (\<forall>b < unat blocks. mp b \<noteq> None) \<and> inj_on mp {..< unat blocks} \<and> 0 < unat blocks
     \<and> unat blocks \<le> 8 \<and> unat bits \<le> 8192 * unat blocks"

abbreviation bit_nr :: "nat \<Rightarrow> nat \<Rightarrow> nat \<Rightarrow> nat" where
  "bit_nr b w i \<equiv> i + w * 16 + b * 8192"

lemma bit_nr_parts:
  assumes "w < 512" "i < 16"
  shows "bit_nr b w i div 8192 = b" "bit_nr b w i mod 8192 div 16 = w" "bit_nr b w i mod 16 = i"
proof -
  have l: "i + w * 16 < 8192" using assms by simp
  have "(i + w * 16) mod 16 = i" using assms(2) by simp
  moreover have "bit_nr b w i mod 16 = (i + w * 16) mod 16"
  proof -
    have "b * 8192 = 16 * (b * 512)" by simp
    then show ?thesis by (metis mod_mult_self2)
  qed
  ultimately show "bit_nr b w i mod 16 = i" by simp
  show "bit_nr b w i div 8192 = b" using l by simp
  have "bit_nr b w i mod 8192 = i + w * 16" using l by simp
  then show "bit_nr b w i mod 8192 div 16 = w" using assms(2) by simp
qed

lemma bit_nr_split: "n = bit_nr (n div 8192) (n mod 8192 div 16) (n mod 16)"
proof -
  have "n mod 8192 mod 16 = n mod 16" by (simp add: mod_mod_cancel)
  then have "n mod 8192 = n mod 16 + (n mod 8192 div 16) * 16"
    using div_mult_mod_eq [of "n mod 8192" 16] by linarith
  then show ?thesis using div_mult_mod_eq [of n 8192] by linarith
qed

lemma unat_bit_nr: "w < 512 \<Longrightarrow> i < 16 \<Longrightarrow> b < 8 \<Longrightarrow> unat (word_of_nat (bit_nr b w i) :: u16) = bit_nr b w i"
  by (rule unat_of_nat_u16) simp

section \<open>The search\<close>

abbreviation first_zero :: "u16 \<Rightarrow> nat option" where
  "first_zero k \<equiv> List.find (\<lambda>i. \<not> bit k i) [0..<16]"

lemma scan_skip:
  "rd16 d (2 * x) = NOT 0 \<or> first_zero (rd16 d (2 * x)) = None \<Longrightarrow>
   scan_words bits b d (x # xs) = scan_words bits b d xs"
  by (cases "rd16 d (2 * x) = NOT 0") (simp_all add: Let_def)

lemma scan_stop:
  "rd16 d (2 * x) \<noteq> NOT 0 \<Longrightarrow> first_zero (rd16 d (2 * x)) = Some i \<Longrightarrow>
   scan_words bits b d (x # xs) =
     (if bits \<le> word_of_nat (bit_nr b x i) then None else Some (x, i, word_of_nat (bit_nr b x i)))"
  by (simp add: Let_def)

declare scan_words.simps(2) [simp del]

lemma scan_words_hit:
  assumes "scan_words bits b d ws = Some (w, i, a)" "\<forall>w \<in> set ws. w < 512" "b < 8"
  shows "w \<in> set ws \<and> i < 16 \<and> \<not> bit (rd16 d (2 * w)) i \<and> unat a = bit_nr b w i \<and> unat a < unat bits"
  using assms
proof (induction ws)
  case (Cons x xs)
  show ?case
  proof (cases "rd16 d (2 * x) = NOT 0 \<or> first_zero (rd16 d (2 * x)) = None")
    case True
    from Cons.IH show ?thesis using Cons.prems unfolding scan_skip [OF True] by simp
  next
    case False
    then obtain j where j: "first_zero (rd16 d (2 * x)) = Some j" by auto
    then have l: "j < 16" "\<not> bit (rd16 d (2 * x)) j" by (auto simp: find_Some_iff)
    have "\<not> bits \<le> word_of_nat (bit_nr b x j)" "w = x" "i = j" "a = word_of_nat (bit_nr b x j)"
      using Cons.prems(1) False scan_stop [of d x j bits b xs] j by (auto split: if_splits)
    then show ?thesis using l Cons.prems(2,3) unat_bit_nr [of x j b]
      by (simp add: word_le_nat_alt not_le)
  qed
qed simp

lemma all_ones_bit: "i < 16 \<Longrightarrow> bit (NOT 0 :: u16) i"
  by (simp add: bit_simps)

lemma find_none_bits:
  assumes "first_zero k = None" "i < 16"
  shows "bit (k :: u16) i"
  using assms by (auto simp: find_None_iff)

lemma scan_words_miss:
  assumes "scan_words bits b d ws = None" "\<forall>w \<in> set ws. w < 512" "b < 8" "sorted_wrt (<) ws"
    "w \<in> set ws" "i < 16" "\<not> bit (rd16 d (2 * w)) i"
  shows "unat bits \<le> bit_nr b w i"
  using assms
proof (induction ws)
  case (Cons x xs)
  show ?case
  proof (cases "rd16 d (2 * x) = NOT 0 \<or> first_zero (rd16 d (2 * x)) = None")
    case True
    then have "w \<noteq> x"
      using find_none_bits [of "rd16 d (2 * x)" i] all_ones_bit [of i] Cons.prems(6,7) by metis
    then show ?thesis using Cons.IH Cons.prems unfolding scan_skip [OF True] by simp
  next
    case False
    then obtain j where j: "first_zero (rd16 d (2 * x)) = Some j" by auto
    then have l: "j < 16" "\<forall>k < j. bit (rd16 d (2 * x)) k" by (auto simp: find_Some_iff)
    have "bits \<le> word_of_nat (bit_nr b x j)"
      using Cons.prems(1) False scan_stop [of d x j bits b xs] j by (auto split: if_splits)
    then have "unat bits \<le> bit_nr b x j"
      using Cons.prems(2,3) l(1) unat_bit_nr [of x j b] by (simp add: word_le_nat_alt)
    moreover have "bit_nr b x j \<le> bit_nr b w i"
    proof (cases "w = x")
      case True
      then have "\<not> i < j" using l(2) Cons.prems(7) by auto
      then show ?thesis using True by simp
    next
      case False
      then have "x < w" using Cons.prems(4,5) by auto
      then show ?thesis using l(1) by simp
    qed
    ultimately show ?thesis by simp
  qed
qed simp

definition full_block :: "u16 \<Rightarrow> nat \<Rightarrow> block \<Rightarrow> bool" where
  "full_block bits b d \<longleftrightarrow>
     (\<forall>w < 512. \<forall>i < 16. \<not> bit (rd16 d (2 * w)) i \<longrightarrow> unat bits \<le> bit_nr b w i)"

lemma scan_full:
  assumes "scan_words bits b d [0..<512] = None" "b < 8"
  shows "full_block bits b d"
  unfolding full_block_def
  using scan_words_miss [OF assms(1) _ assms(2)] by (simp add: sorted_wrt_upt)

definition take_bit_at :: "(nat \<Rightarrow> nat option) \<Rightarrow> nat \<Rightarrow> cache \<Rightarrow> cache \<Rightarrow> bool" where
  "take_bit_at mp n c c' \<longleftrightarrow> (\<exists>bp. mp (n div 8192) = Some bp \<and>
     c' = set_buf bp (\<lambda>b. b\<lparr>b_data := wr16 (2 * (n mod 8192 div 16))
            (rd16 (b_data b) (2 * (n mod 8192 div 16)) OR push_bit (n mod 16) 1) (b_data b), b_dirt := True\<rparr>) c)"

lemma alloc_blocks_hit:
  assumes "alloc_blocks mp bits (unat blocks) k b w c = Some (a, c')" "wf_map mp bits blocks" "b < unat blocks"
  shows "(a = 0 \<and> c' = c) \<or>
    (unat a < unat bits \<and> \<not> map_bit mp c (unat a) \<and> take_bit_at mp (unat a) c c')"
  using assms(1,3)
proof (induction k arbitrary: b w)
  case (Suc k)
  have b8: "b < 8" using Suc.prems(2) assms(2) by (auto simp: wf_map_def)
  obtain bp where bp: "mp b = Some bp" using Suc.prems(2) assms(2) by (auto simp: wf_map_def)
  show ?case
  proof (cases "scan_words bits b (b_data (bufs c bp)) [w..<512]")
    case None
    then show ?thesis using Suc bp by (auto split: if_splits)
  next
    case (Some p)
    obtain w' i a' where p: "p = (w', i, a')" by (cases p)
    from scan_words_hit [OF Some [unfolded p] _ b8] have h: "w' < 512" "i < 16"
      "\<not> bit (rd16 (b_data (bufs c bp)) (2 * w')) i" "unat a' = bit_nr b w' i" "unat a' < unat bits" by auto
    have "a = a'" "c' = set_buf bp (\<lambda>b. b\<lparr>b_data := wr16 (2 * w') (rd16 (b_data b) (2 * w') OR push_bit i 1) (b_data b),
                                    b_dirt := True\<rparr>) c"
      using Suc.prems(1) bp Some p by auto
    then show ?thesis
      using h bp bit_nr_parts [OF h(1,2), of b] by (auto simp: map_bit_def take_bit_at_def)
  qed
qed simp

lemma alloc_blocks_total:
  assumes "wf_map mp bits blocks" "b < unat blocks"
  shows "alloc_blocks mp bits (unat blocks) k b w c \<noteq> None"
  using assms(2)
proof (induction k arbitrary: b w)
  case (Suc k)
  obtain bp where bp: "mp b = Some bp" using Suc.prems assms(1) by (auto simp: wf_map_def)
  have "(if b + 1 = unat blocks then 0 else b + 1) < unat blocks" using Suc.prems by auto
  then show ?case using Suc.IH bp by (auto split: option.splits)
qed simp

text \<open>Without a free bit, the walk sees block after block, cyclically.\<close>

lemma alloc_blocks_none:
  assumes "alloc_blocks mp bits (unat blocks) k b 0 c = Some (0, c)" "wf_map mp bits blocks" "b < unat blocks"
    "map_bit mp c 0" "j < k" "j < unat blocks"
  shows "full_block bits ((b + j) mod unat blocks) (b_data (bufs c (the (mp ((b + j) mod unat blocks)))))"
  using assms(1,3,5,6)
proof (induction k arbitrary: b j)
  case (Suc k)
  let ?b' = "if b + 1 = unat blocks then 0 else b + 1"
  have b8: "b < 8" using Suc.prems(2) assms(2) by (auto simp: wf_map_def)
  obtain bp where bp: "mp b = Some bp" using Suc.prems(2) assms(2) by (auto simp: wf_map_def)
  have none: "scan_words bits b (b_data (bufs c bp)) [0..<512] = None"
  proof (rule ccontr)
    assume "\<not> ?thesis"
    then obtain w i a where s: "scan_words bits b (b_data (bufs c bp)) [0..<512] = Some (w, i, a)" by auto
    from scan_words_hit [OF s _ b8] have h: "w < 512" "i < 16"
      "\<not> bit (rd16 (b_data (bufs c bp)) (2 * w)) i" "unat a = bit_nr b w i" by auto
    have "a = 0" using Suc.prems(1) bp s by simp
    then have "b = 0" "w = 0" "i = 0" using h(4) by auto
    then show False using h(3) assms(4) bp by (simp add: map_bit_def)
  qed
  then have rec: "alloc_blocks mp bits (unat blocks) k ?b' 0 c = Some (0, c)"
    using Suc.prems(1) bp by simp
  show ?case
  proof (cases j)
    case 0
    then show ?thesis using scan_full [OF none b8] bp Suc.prems(2) by simp
  next
    case (Suc j')
    have e: "(?b' + j') mod unat blocks = (b + j) mod unat blocks"
    proof (cases "b + 1 = unat blocks")
      case True
      then have "b + j = unat blocks + j'" using Suc by simp
      then show ?thesis using True by simp
    qed (simp add: Suc)
    have "?b' < unat blocks" using Suc.prems(2) by auto
    from Suc.IH [OF rec this, of j'] show ?thesis using Suc Suc.prems(3,4) unfolding e by simp
  qed
qed simp

lemma all_full:
  assumes "\<forall>b < unat blocks. full_block bits b (b_data (bufs c (the (mp b))))" "wf_map mp bits blocks" "n < unat bits"
  shows "map_bit mp c n"
proof -
  have b: "n div 8192 < unat blocks" using assms(2,3) by (auto simp: wf_map_def less_mult_imp_div_less)
  then obtain bp where bp: "mp (n div 8192) = Some bp" using assms(2) by (auto simp: wf_map_def)
  have f: "full_block bits (n div 8192) (b_data (bufs c bp))" using assms(1) b bp by force
  have w: "n mod 8192 div 16 < 512" "n mod 16 < 16" by (simp_all add: less_mult_imp_div_less)
  have "\<not> unat bits \<le> bit_nr (n div 8192) (n mod 8192 div 16) (n mod 16)"
    using assms(3) bit_nr_split [of n] by simp
  then have "bit (rd16 (b_data (bufs c bp)) (2 * (n mod 8192 div 16))) (n mod 16)"
    using f w unfolding full_block_def by blast
  then show ?thesis using bp by (simp add: map_bit_def)
qed

lemma cyclic_index:
  assumes "b < B" "x < (B :: nat)"
  shows "\<exists>j < B. (b + j) mod B = x"
proof (cases "b \<le> x")
  case True
  then show ?thesis using assms by (intro exI [of _ "x - b"]) simp
next
  case False
  then show ?thesis using assms by (intro exI [of _ "B + x - b"]) auto
qed

lemma alloc_blocks_round:
  assumes "alloc_blocks mp bits (unat blocks) (unat blocks) b 0 c = Some (0, c)" "wf_map mp bits blocks"
    "b < unat blocks" "map_bit mp c 0" "n < unat bits"
  shows "map_bit mp c n"
proof (rule all_full [OF _ assms(2,5)], intro allI impI)
  fix x assume "x < unat blocks"
  then obtain j where "j < unat blocks" "(b + j) mod unat blocks = x" using cyclic_index [OF assms(3)] by blast
  then show "full_block bits x (b_data (bufs c (the (mp x))))"
    using alloc_blocks_none [OF assms(1-4), of j] by simp
qed

lemma alloc_bit_result:
  assumes a: "alloc_bit mp bits blocks origin c = Some (a, c')" and w: "wf_map mp bits blocks" and z: "map_bit mp c 0"
  shows "(a \<noteq> 0 \<and> unat a < unat bits \<and> \<not> map_bit mp c (unat a) \<and> take_bit_at mp (unat a) c c')
    \<or> (a = 0 \<and> c' = c \<and> (\<forall>n < unat bits. map_bit mp c n))"
proof -
  define org where "org = unat (if bits \<le> origin then 0 else origin)"
  define b where "b = org div 8192"
  define w0 where "w0 = (org - b * 8192) div 16"
  have "org < unat bits \<or> org = 0" by (simp add: org_def word_less_nat_alt not_le)
  then have b: "b < unat blocks" using w by (auto simp: b_def wf_map_def less_mult_imp_div_less)
  have eq: "alloc_blocks mp bits (unat blocks) (if w0 = 0 then unat blocks else unat blocks + 1) b w0 c = Some (a, c')"
    using a by (simp add: alloc_bit_def Let_def org_def b_def w0_def)
  from alloc_blocks_hit [OF eq w b] z have hit:
    "(a = 0 \<and> c' = c) \<or> (a \<noteq> 0 \<and> unat a < unat bits \<and> \<not> map_bit mp c (unat a) \<and> take_bit_at mp (unat a) c c')"
    by auto
  have "map_bit mp c n" if a0: "a = 0" and n: "n < unat bits" for n
  proof (cases "w0 = 0")
    case True
    then show ?thesis using eq a0 hit alloc_blocks_round [OF _ w b z n] by simp
  next
    case False
    obtain bp where bp: "mp b = Some bp" using b w by (auto simp: wf_map_def)
    have e: "alloc_blocks mp bits (unat blocks) (Suc (unat blocks)) b w0 c = Some (0, c)"
      using eq a0 hit False by simp
    have "scan_words bits b (b_data (bufs c bp)) [w0..<512] = None"
    proof (rule ccontr)
      assume "\<not> ?thesis"
      then obtain x i a' where s: "scan_words bits b (b_data (bufs c bp)) [w0..<512] = Some (x, i, a')" by auto
      have "b < 8" using b w by (auto simp: wf_map_def)
      from scan_words_hit [OF s _ this] have h: "x < 512" "i < 16" "\<not> bit (rd16 (b_data (bufs c bp)) (2 * x)) i"
        "unat a' = bit_nr b x i" by auto
      have "a' = 0" using e bp s by simp
      then have "b = 0" "x = 0" "i = 0" using h(4) by auto
      then show False using h(3) z bp by (simp add: map_bit_def)
    qed
    then have "alloc_blocks mp bits (unat blocks) (unat blocks) (if b + 1 = unat blocks then 0 else b + 1) 0 c = Some (0, c)"
      using e bp by simp
    moreover have "(if b + 1 = unat blocks then 0 else b + 1) < unat blocks" using b by auto
    ultimately show ?thesis by (rule alloc_blocks_round [OF _ w _ z n])
  qed
  then show ?thesis using hit by auto
qed

lemma alloc_bit_total:
  assumes "wf_map mp bits blocks"
  shows "\<exists>a c'. alloc_bit mp bits blocks origin c = Some (a, c')"
proof -
  have "unat (if bits \<le> origin then 0 else origin) div 8192 < unat blocks"
  proof -
    have "unat (if bits \<le> origin then 0 else origin) < unat bits \<or> unat (if bits \<le> origin then 0 else origin) = 0"
      by (simp add: word_less_nat_alt not_le)
    then show ?thesis using assms by (auto simp: wf_map_def less_mult_imp_div_less)
  qed
  from alloc_blocks_total [OF assms this] show ?thesis
    by (metis alloc_bit_def not_None_eq prod.exhaust)
qed

section \<open>Changing one word\<close>

lemma word_index: "x div 8192 = x div 16 div 512" "x mod 8192 div 16 = x div 16 mod (512 :: nat)"
proof -
  show "x div 8192 = x div 16 div 512" by (simp add: div_mult2_eq [symmetric])
  show "x mod 8192 div 16 = x div 16 mod 512" using mod_mult2_eq [of x 16 512] by simp
qed

lemma map_bit_upd:
  assumes "wf_map mp bits blocks" "n < 8192 * unat blocks" "m < 8192 * unat blocks" "mp (m div 8192) = Some bp"
  shows "map_bit mp (set_buf bp (\<lambda>b. b\<lparr>b_data := wr16 (2 * (m mod 8192 div 16)) (f b) (b_data b), b_dirt := True\<rparr>) c) n
    = (if n div 16 = m div 16 then bit (f (bufs c bp)) (n mod 16) else map_bit mp c n)"
proof -
  have same: "n div 16 = m div 16 \<longleftrightarrow> n div 8192 = m div 8192 \<and> n mod 8192 div 16 = m mod 8192 div 16"
    unfolding word_index by (metis div_mult_mod_eq)
  have lt: "n div 8192 < unat blocks" "m div 8192 < unat blocks" using assms(2,3) by (auto simp: less_mult_imp_div_less)
  obtain q where q: "mp (n div 8192) = Some q" using assms(1) lt by (auto simp: wf_map_def)
  have "q = bp \<longleftrightarrow> n div 8192 = m div 8192"
    using assms(1,4) lt q unfolding wf_map_def inj_on_def by (metis lessThan_iff option.inject)
  moreover have "2 * (m mod 8192 div 16) + 2 \<le> 2 * (n mod 8192 div 16) \<or> 2 * (n mod 8192 div 16) + 2 \<le> 2 * (m mod 8192 div 16)"
    if "n mod 8192 div 16 \<noteq> m mod 8192 div 16" using that by linarith
  ultimately show ?thesis using q same by (auto simp: map_bit_def)
qed

lemma same_word_bit: "n div 16 = m div 16 \<Longrightarrow> n mod 16 = m mod 16 \<longleftrightarrow> n = (m::nat)"
  by (metis div_mult_mod_eq)

lemma map_bit_same_word:
  assumes "n div 16 = m div 16" "mp (m div 8192) = Some bp"
  shows "bit (rd16 (b_data (bufs c bp)) (2 * (m mod 8192 div 16))) (n mod 16) = map_bit mp c n"
proof -
  show ?thesis using assms by (simp add: map_bit_def word_index)
qed

lemma take_bit_at_bits:
  assumes "take_bit_at mp m c c'" "wf_map mp bits blocks" "m < 8192 * unat blocks" "n < 8192 * unat blocks"
  shows "map_bit mp c' n \<longleftrightarrow> n = m \<or> map_bit mp c n"
proof -
  obtain bp where bp: "mp (m div 8192) = Some bp"
    "c' = set_buf bp (\<lambda>b. b\<lparr>b_data := wr16 (2 * (m mod 8192 div 16))
            (rd16 (b_data b) (2 * (m mod 8192 div 16)) OR push_bit (m mod 16) 1) (b_data b), b_dirt := True\<rparr>) c"
    using assms(1) by (auto simp: take_bit_at_def)
  show ?thesis
    unfolding bp(2) map_bit_upd [OF assms(2,4,3) bp(1)] bit_set_one
    using map_bit_same_word [of n m mp bp c] bp(1) same_word_bit [of n m] by auto
qed

lemma free_bit_bits:
  assumes "wf_map mp bits blocks" "unat a < 8192 * unat blocks" "map_bit mp c (unat a)"
  shows "\<exists>c'. free_bit mp a c = Some c' \<and> (\<forall>n < 8192 * unat blocks. map_bit mp c' n \<longleftrightarrow> n \<noteq> unat a \<and> map_bit mp c n)"
proof -
  let ?m = "unat a"
  have lt: "?m div 8192 < unat blocks" using assms(2) by (auto simp: less_mult_imp_div_less)
  then obtain bp where bp: "mp (?m div 8192) = Some bp" using assms(1) by (auto simp: wf_map_def)
  have r: "?m - ?m div 8192 * 8192 = ?m mod 8192" by (simp add: minus_div_mult_eq_mod)
  have r2: "?m mod 8192 mod 16 = ?m mod 16" by (simp add: mod_mod_cancel)
  have "free_bit mp a c = Some (set_buf bp (\<lambda>b. b\<lparr>b_data := wr16 (2 * (?m mod 8192 div 16))
            (rd16 (b_data b) (2 * (?m mod 8192 div 16)) AND NOT (push_bit (?m mod 16) 1)) (b_data b), b_dirt := True\<rparr>) c)"
    using assms(3) bp by (simp add: free_bit_def map_bit_def Let_def r r2)
  moreover have "map_bit mp (set_buf bp (\<lambda>b. b\<lparr>b_data := wr16 (2 * (?m mod 8192 div 16))
            (rd16 (b_data b) (2 * (?m mod 8192 div 16)) AND NOT (push_bit (?m mod 16) 1)) (b_data b), b_dirt := True\<rparr>) c) n
       \<longleftrightarrow> n \<noteq> ?m \<and> map_bit mp c n" if "n < 8192 * unat blocks" for n
    unfolding map_bit_upd [OF assms(1) that assms(2) bp] bit_clr_one
    using map_bit_same_word [of n ?m mp bp c] bp same_word_bit [of n ?m] by auto
  ultimately show ?thesis by blast
qed

lemma free_bit_twice:
  assumes "\<not> map_bit mp c (unat a)"
  shows "free_bit mp a c = None"
proof -
  let ?m = "unat a"
  have r: "?m - ?m div 8192 * 8192 = ?m mod 8192" by (simp add: minus_div_mult_eq_mod)
  have r2: "?m mod 8192 mod 16 = ?m mod 16" by (simp add: mod_mod_cancel)
  show ?thesis using assms by (auto simp: free_bit_def map_bit_def Let_def r r2 split: option.splits)
qed

section \<open>The interface of a pool of numbers\<close>

text \<open>
  What zones and inodes expect of their bit maps: \<open>used\<close> is the set of numbers taken, 0 is the
  answer when there is none left.
\<close>

locale id_pool =
  fixes alloc :: "'s \<Rightarrow> (u16 \<times> 's) option"
    and free :: "u16 \<Rightarrow> 's \<Rightarrow> 's option"
    and used :: "'s \<Rightarrow> nat \<Rightarrow> bool"
    and limit :: nat
    and ok :: "'s \<Rightarrow> bool"
  assumes alloc_total: "ok s \<Longrightarrow> \<exists>a s'. alloc s = Some (a, s')"
    and alloc_hit: "ok s \<Longrightarrow> alloc s = Some (a, s') \<Longrightarrow> a \<noteq> 0 \<Longrightarrow>
      unat a < limit \<and> \<not> used s (unat a) \<and> ok s' \<and> (\<forall>n < limit. used s' n \<longleftrightarrow> n = unat a \<or> used s n)"
    and alloc_none: "ok s \<Longrightarrow> alloc s = Some (0, s') \<Longrightarrow> s' = s \<and> (\<forall>n < limit. used s n)"
    and free_used: "ok s \<Longrightarrow> a \<noteq> 0 \<Longrightarrow> unat a < limit \<Longrightarrow> used s (unat a) \<Longrightarrow>
      \<exists>s'. free a s = Some s' \<and> ok s' \<and> (\<forall>n < limit. used s' n \<longleftrightarrow> n \<noteq> unat a \<and> used s n)"
begin

lemma alloc_twice:
  assumes "ok s" "alloc s = Some (a, s1)" "alloc s1 = Some (b, s2)" "a \<noteq> 0" "b \<noteq> 0"
  shows "a \<noteq> b"
  using alloc_hit [OF assms(1,2,4)] alloc_hit [of s1 b s2] assms(3,5) by auto

lemma alloc_free:
  assumes "ok s" "alloc s = Some (a, s1)" "a \<noteq> 0"
  shows "\<exists>s2. free a s1 = Some s2 \<and> ok s2 \<and> (\<forall>n < limit. used s2 n \<longleftrightarrow> used s n)"
proof -
  have h: "unat a < limit" "\<not> used s (unat a)" "ok s1" "\<forall>n < limit. used s1 n \<longleftrightarrow> n = unat a \<or> used s n"
    using alloc_hit [OF assms] by auto
  obtain s2 where "free a s1 = Some s2" "ok s2" "\<forall>n < limit. used s2 n \<longleftrightarrow> n \<noteq> unat a \<and> used s1 n"
    using free_used [OF h(3) assms(3) h(1)] h(1,4) by auto
  then show ?thesis using h by auto
qed

lemma free_then_alloc:
  assumes "ok s" "a \<noteq> 0" "unat a < limit" "used s (unat a)"
  shows "\<exists>s1 b s2. free a s = Some s1 \<and> alloc s1 = Some (b, s2) \<and> b \<noteq> 0"
proof -
  obtain s1 where s1: "free a s = Some s1" "ok s1" "\<not> used s1 (unat a)" using free_used [OF assms] assms(3) by blast
  obtain b s2 where "alloc s1 = Some (b, s2)" using alloc_total [OF s1(2)] by auto
  moreover have "b \<noteq> 0" using alloc_none [OF s1(2)] calculation s1(3) assms(3) by auto
  ultimately show ?thesis using s1(1) by blast
qed

end

interpretation bitmap: id_pool "alloc_bit mp bits blocks origin" "free_bit mp" "map_bit mp" "unat bits"
  "\<lambda>c. wf_map mp bits blocks \<and> map_bit mp c 0" for mp bits blocks origin
proof unfold_locales
  fix c c' and a :: u16
  assume c: "wf_map mp bits blocks \<and> map_bit mp c 0"
  then have w: "wf_map mp bits blocks" and z: "map_bit mp c 0" by auto
  have lim: "unat bits \<le> 8192 * unat blocks" "0 < 8192 * unat blocks" using w by (auto simp: wf_map_def)
  show "\<exists>a c'. alloc_bit mp bits blocks origin c = Some (a, c')" by (rule alloc_bit_total [OF w])
  { assume r: "alloc_bit mp bits blocks origin c = Some (a, c')" and "a \<noteq> 0"
    with alloc_bit_result [OF r w z] have h: "unat a < unat bits" "\<not> map_bit mp c (unat a)" "take_bit_at mp (unat a) c c'"
      by auto
    have "map_bit mp c' n \<longleftrightarrow> n = unat a \<or> map_bit mp c n" if "n < 8192 * unat blocks" for n
      using take_bit_at_bits [OF h(3) w _ that] h(1) lim by simp
    then show "unat a < unat bits \<and> \<not> map_bit mp c (unat a) \<and> (wf_map mp bits blocks \<and> map_bit mp c' 0)
        \<and> (\<forall>n < unat bits. map_bit mp c' n \<longleftrightarrow> n = unat a \<or> map_bit mp c n)"
      using h w z lim by auto }
  { assume "alloc_bit mp bits blocks origin c = Some (0, c')"
    from alloc_bit_result [OF this w z] show "c' = c \<and> (\<forall>n < unat bits. map_bit mp c n)" by auto }
  { assume a: "a \<noteq> 0" "unat a < unat bits" "map_bit mp c (unat a)"
    obtain c'' where "free_bit mp a c = Some c''"
      "\<forall>n < 8192 * unat blocks. map_bit mp c'' n \<longleftrightarrow> n \<noteq> unat a \<and> map_bit mp c n"
      using free_bit_bits [OF w _ a(3)] a(2) lim by auto
    moreover have "unat a \<noteq> 0" using a(1) by (simp add: unat_eq_0)
    ultimately show "\<exists>c'. free_bit mp a c = Some c' \<and> (wf_map mp bits blocks \<and> map_bit mp c' 0)
        \<and> (\<forall>n < unat bits. map_bit mp c' n \<longleftrightarrow> n \<noteq> unat a \<and> map_bit mp c n)"
      using w z lim by auto }
qed

end
