(* ===== verification/FSMap.thy ===== *)
theory FSMap
  imports FSCacheInv FSBits
begin

text \<open>
  Reading and writing whole blocks through the cache, and \<^verbatim>\<open>read_map\<close> against the zone map of an
  inode as a function of what the disk blocks hold.
\<close>

section \<open>Visits to a block\<close>

text \<open>After a visit everyone's buffers are as they were, and the pool has as much room.\<close>

definition visited :: "cache \<Rightarrow> cache \<Rightarrow> bool" where
  "visited c c' \<longleftrightarrow> cinv c' \<and> free_buf c' \<and> (\<forall>j. b_count (bufs c' j) = b_count (bufs c j))
     \<and> (\<forall>j. b_count (bufs c j) > 0 \<longrightarrow> same_at c c' j) \<and> bufs_in_use c' = bufs_in_use c \<and> pool c' = pool c"

definition io_ok :: "fs_env \<Rightarrow> bool" where
  "io_ok e \<longleftrightarrow> (\<forall>n. 0 \<le> v_io e n)"

definition same_contents :: "cache \<Rightarrow> cache \<Rightarrow> bool" where
  "same_contents c c' \<longleftrightarrow> (\<forall>d k. known_dev d \<longrightarrow> contents c' d k = contents c d k)"

lemma visited_trans: "visited a b \<Longrightarrow> visited b c \<Longrightarrow> visited a c"
  by (auto simp: visited_def same_at_def)

lemma same_contents_trans: "same_contents a b \<Longrightarrow> same_contents b c \<Longrightarrow> same_contents a c"
  by (simp add: same_contents_def)

lemma counted_free:
  assumes "counted 1 bp c c1" "counted (- 1) bp c1 c2" "free_buf c" "cinv c"
  shows "free_buf c2" "b_count (bufs c2 j) = b_count (bufs c j)" "bufs_in_use c2 = bufs_in_use c" "pool c2 = pool c"
proof -
  show cnt: "b_count (bufs c2 j) = b_count (bufs c j)" for j
    using assms(1,2) by (cases "j = bp") (simp_all add: counted_def same_at_def)
  show p: "pool c2 = pool c" using assms(1,2) by (simp add: counted_def)
  show u: "bufs_in_use c2 = bufs_in_use c" using assms(1,2) by (auto simp: counted_def)
  show "free_buf c2" using assms(3) by (simp add: free_buf_def p u cnt)
qed

lemma read_visit:
  assumes "cinv c" "known_dev d" "io_ok e" "free_buf c"
  shows "\<exists>bp c1 c2. get_block e d k False c = Some (bp, c1) \<and> b_data (bufs c1 bp) = contents c d k
    \<and> put_block e (Some bp) ty c1 = Some c2 \<and> visited c c2 \<and> same_contents c c2"
proof -
  have io: "\<forall>n. 0 \<le> v_io e n" using assms(3) by (simp add: io_ok_def)
  obtain bp c1 where g: "get_block e d k False c = Some (bp, c1)" "cinv c1" "bp < NR_BUFS" "keyed c1 d k bp"
    "b_count (bufs c1 bp) > 0" "counted 1 bp c c1" "b_count (bufs c1 bp) = 1 \<longrightarrow> synced c1 bp"
    "b_data (bufs c1 bp) = contents c d k" "\<And>d2 k2. known_dev d2 \<Longrightarrow> contents c1 d2 k2 = contents c d2 k2"
    using get_block_total [OF assms(1,2) io assms(4), of k False] by simp blast
  have kd: "known_dev (b_dev (bufs c1 bp))" using g(4) assms(2) by (simp add: keyed_def)
  obtain c2 where p: "put_block e (Some bp) ty c1 = Some c2" "cinv c2" "counted (- 1) bp c1 c2"
    "\<And>d2 k2. known_dev d2 \<Longrightarrow> contents c2 d2 k2 = contents c1 d2 k2"
    using put_block_total [OF g(2,3) kd g(5) io] g(7) by blast
  note f = counted_free [OF g(6) p(3) assms(4) assms(1)]
  have "same_at c c2 j" if "b_count (bufs c j) > 0" for j
    using that g(6) p(3) by (cases "j = bp") (auto simp: counted_def same_at_def)
  then have "visited c c2" using p(2) f by (simp add: visited_def)
  moreover have "same_contents c c2" using p(4) g(9) by (simp add: same_contents_def)
  ultimately show ?thesis using g(1,8) p(1) by blast
qed

text \<open>A visit that changes the block.\<close>

lemma write_visit:
  assumes "cinv c" "known_dev d" "io_ok e" "free_buf c"
  shows "\<exists>bp c1 c2. get_block e d k nr c = Some (bp, c1) \<and> (\<not> nr \<longrightarrow> b_data (bufs c1 bp) = contents c d k)
    \<and> put_block e (Some bp) ty (set_buf bp (\<lambda>b. b\<lparr>b_data := f (b_data b), b_dirt := True\<rparr>) c1) = Some c2
    \<and> cinv c2 \<and> free_buf c2 \<and> contents c2 d k = f (b_data (bufs c1 bp))
    \<and> (\<forall>d2 k2. known_dev d2 \<and> (d2, k2) \<noteq> (d, k) \<longrightarrow> contents c2 d2 k2 = contents c d2 k2)"
proof -
  have io: "\<forall>n. 0 \<le> v_io e n" using assms(3) by (simp add: io_ok_def)
  have nd: "d \<noteq> NO_DEV" using assms(2) by simp
  obtain bp c1 where g: "get_block e d k nr c = Some (bp, c1)" "cinv c1" "bp < NR_BUFS" "keyed c1 d k bp"
    "b_count (bufs c1 bp) > 0" "counted 1 bp c c1" "\<not> nr \<longrightarrow> b_data (bufs c1 bp) = contents c d k"
    "\<And>d2 k2. known_dev d2 \<Longrightarrow> (d2, k2) \<noteq> (d, k) \<Longrightarrow> contents c1 d2 k2 = contents c d2 k2"
    using get_block_total [OF assms(1,2) io assms(4), where nr = nr] by blast
  define h where "h = (\<lambda>b::buf. b\<lparr>b_data := f (b_data b), b_dirt := True\<rparr>)"
  let ?c = "set_buf bp h c1"
  have coh1: "coherent c1" using g(2) by (simp add: cinv_def)
  have c: "cinv ?c" unfolding cinv_def
  proof
    show "linked ?c" by (rule linked_set_buf) (use g(2,5) in \<open>simp_all add: cinv_def h_def\<close>)
    show "coherent ?c" by (rule coherent_set_buf) (use coh1 g(5) in \<open>simp_all add: h_def\<close>)
  qed
  have ct: "contents ?c d2 k2 = (if keyed c1 d2 k2 bp then f (b_data (bufs c1 bp)) else contents c1 d2 k2)"
    if "d2 \<noteq> NO_DEV" for d2 k2
    using contents_set_buf [OF coh1 g(3) _ _ that, of h] by (simp add: h_def)
  have kd: "known_dev (b_dev (bufs ?c bp))" using g(4) assms(2) by (simp add: keyed_def h_def)
  have cnt: "b_count (bufs ?c bp) > 0" using g(5) by (simp add: h_def)
  have sy: "synced ?c bp" by (simp add: synced_def h_def)
  obtain c2 where p: "put_block e (Some bp) ty ?c = Some c2" "cinv c2" "counted (- 1) bp ?c c2"
    "\<And>d2 k2. known_dev d2 \<Longrightarrow> contents c2 d2 k2 = contents ?c d2 k2"
    using put_block_total [OF c g(3) kd cnt io] sy by blast
  have cn: "b_count (bufs c2 j) = b_count (bufs c j)" for j
    using g(6) p(3) by (cases "j = bp") (simp_all add: counted_def same_at_def h_def)
  have ps: "pool ?c = pool c1" by (rule pool_set_buf) (simp_all add: h_def)
  have fr: "free_buf c2"
  proof -
    have "pool c2 = pool c" using g(6) p(3) ps by (simp add: counted_def)
    moreover have "bufs_in_use c2 = bufs_in_use c" using g(6) p(3) by (auto simp: counted_def h_def)
    ultimately show ?thesis using assms(4) cn by (simp add: free_buf_def)
  qed
  have 1: "contents c2 d k = f (b_data (bufs c1 bp))" using p(4) [OF assms(2)] ct [OF nd] g(4) by simp
  have 2: "contents c2 d2 k2 = contents c d2 k2" if "known_dev d2" "(d2, k2) \<noteq> (d, k)" for d2 k2
    using p(4) [OF that(1)] ct [of d2 k2] g(4) g(8) [OF that] that by (auto simp: keyed_def)
  show ?thesis
    using g(1,7) p(1,2) fr 1 2 unfolding h_def by blast
qed

section \<open>The zone map\<close>

text \<open>What an inode maps its zones to, when block \<open>k\<close> of the device holds \<open>D k\<close>.\<close>

definition entry_of :: "(u16 \<Rightarrow> block) \<Rightarrow> nat \<Rightarrow> u16 \<Rightarrow> nat \<Rightarrow> u16" where
  "entry_of D scale z k = (if z = NO_ZONE then NO_ZONE else rd16 (D (push_bit scale z)) (2 * k))"

definition file_zone :: "(u16 \<Rightarrow> block) \<Rightarrow> nat \<Rightarrow> inode \<Rightarrow> nat \<Rightarrow> u16" where
  "file_zone D scale ip n =
     (if n < 7 then i_zone ip n
      else if n < 519 then entry_of D scale (i_zone ip 7) (n - 7)
      else entry_of D scale (entry_of D scale (i_zone ip 8) ((n - 519) div 512)) ((n - 519) mod 512))"

definition file_block :: "(u16 \<Rightarrow> block) \<Rightarrow> nat \<Rightarrow> inode \<Rightarrow> nat \<Rightarrow> u16" where
  "file_block D scale ip b =
     (let z = file_zone D scale ip (b div 2 ^ scale)
      in if z = NO_ZONE then NO_BLOCK else push_bit scale z + word_of_nat (b mod 2 ^ scale))"

lemma ind_entry_reads:
  assumes "cinv (cch v)" "known_dev d" "io_ok e" "free_buf (cch v)" "k < 512"
  shows "\<exists>c. ind_entry e d z scale k v = Some (rd16 (contents (cch v) d (push_bit scale z)) (2 * k), v\<lparr>cch := c\<rparr>)
    \<and> visited (cch v) c \<and> same_contents (cch v) c"
proof -
  obtain bp c1 c2 where r: "get_block e d (push_bit scale z) False (cch v) = Some (bp, c1)"
    "b_data (bufs c1 bp) = contents (cch v) d (push_bit scale z)"
    "put_block e (Some bp) INDIRECT_BLOCK c1 = Some c2" "visited (cch v) c2" "same_contents (cch v) c2"
    using read_visit [OF assms(1-4)] by blast
  then show ?thesis using assms(5) by (intro exI [of _ c2]) (simp add: ind_entry_def)
qed

lemma sdiv_nonneg: "0 \<le> x \<Longrightarrow> 0 < y \<Longrightarrow> x sdiv y = x div (y :: int)"
  by (simp add: signed_divide_int_def sgn_if)

lemma int_shift:
  assumes "0 \<le> x"
  shows "nat (drop_bit s x) = nat x div 2 ^ s" "drop_bit s x \<ge> 0"
    "x - push_bit s (drop_bit s x) = int (nat x mod 2 ^ s)"
proof -
  show "drop_bit s x \<ge> 0" using assms by simp
  show "nat (drop_bit s x) = nat x div 2 ^ s" using assms by (simp add: drop_bit_eq_div nat_div_distrib nat_power_eq)
  have "x - push_bit s (drop_bit s x) = x mod 2 ^ s"
    by (simp add: push_bit_eq_mult drop_bit_eq_div minus_div_mult_eq_mod)
  then show "x - push_bit s (drop_bit s x) = int (nat x mod 2 ^ s)"
    using assms by (simp add: zmod_int)
qed

lemma entry_of_cong:
  "same_contents c c' \<Longrightarrow> known_dev d \<Longrightarrow> entry_of (contents c' d) scale z k = entry_of (contents c d) scale z k"
  by (simp add: entry_of_def same_contents_def)

lemma read_map_total:
  assumes "cinv (cch v)" "known_dev (i_dev (inodes v rip))" "io_ok e" "free_buf (cch v)"
    "scale_factor rip v = Some scale" "0 \<le> pos" "nat (pos div 1024) div 2 ^ scale < 262663"
  shows "\<exists>c. read_map e rip pos v
       = Some (file_block (contents (cch v) (i_dev (inodes v rip))) scale (inodes v rip) (nat (pos div 1024)), v\<lparr>cch := c\<rparr>)
    \<and> cinv c \<and> free_buf c \<and> same_contents (cch v) c"
proof -
  let ?ip = "inodes v rip" let ?d = "i_dev ?ip" let ?D = "contents (cch v) ?d"
  define x where "x = pos div 1024"
  define n where "n = nat x div 2 ^ scale"
  have x: "pos sdiv BLOCK_SIZE = x" "0 \<le> x" using assms(6) by (simp_all add: sdiv_nonneg x_def)
  note sh = int_shift [OF x(2), of scale, folded n_def]
  define res where "res z = (if z = NO_ZONE then NO_BLOCK else push_bit scale z + word_of_int (x - push_bit scale (drop_bit scale x)))" for z :: u16
  have res: "res (file_zone ?D scale ?ip n) = file_block ?D scale ?ip (nat x)"
    using sh(3) by (simp add: res_def file_block_def Let_def n_def)
  have n: "n < 262663" using assms(7) by (simp add: n_def x_def)
  have same: "same_contents (cch v) (cch v)" by (simp add: same_contents_def)
  show ?thesis
  proof (cases "n < 7")
    case True
    then have "read_map e rip pos v = Some (res (file_zone ?D scale ?ip n), v)"
      using sh x assms(5) by (simp add: read_map_def Let_def res_def file_zone_def)
    then show ?thesis using assms(1,4) res same unfolding x_def by (intro exI [of _ "cch v"]) simp
  next
    case ge: False
    have last: "\<exists>c2. (if z = NO_ZONE then Some (NO_BLOCK, w)
         else do {
           (z', v2) \<leftarrow> ind_entry e ?d z scale k w;
           Some (if z' = NO_ZONE then NO_BLOCK else push_bit scale z' + word_of_int (x - push_bit scale (drop_bit scale x)), v2)
         }) = Some (res (entry_of (contents (cch w) ?d) scale z k), w\<lparr>cch := c2\<rparr>)
       \<and> cinv c2 \<and> free_buf c2 \<and> same_contents (cch w) c2"
      if w: "cinv (cch w)" "free_buf (cch w)" "k < 512" for z k w
    proof (cases "z = NO_ZONE")
      case True
      then show ?thesis using w by (intro exI [of _ "cch w"]) (simp add: entry_of_def res_def same_contents_def)
    next
      case False
      from ind_entry_reads [OF w(1) assms(2,3) w(2,3), of z scale] False
      show ?thesis by (auto simp: entry_of_def res_def visited_def)
    qed
    show ?thesis
    proof (cases "n < 519")
      case True
      have e: "file_zone ?D scale ?ip n = entry_of ?D scale (i_zone ?ip 7) (n - 7)"
        using True ge by (simp add: file_zone_def)
      have l: "n - 7 < 512" using True ge by simp
      from last [OF assms(1,4) l, of "i_zone ?ip 7"] True ge l
      show ?thesis using sh x assms(5) by (simp add: read_map_def Let_def res [symmetric] e x_def [symmetric])
    next
      case False
      let ?ex = "n - 519"
      have nl: "\<not> n - 7 < 512" "n - 7 - 512 = ?ex" using False by simp_all
      have k: "?ex div 512 < 512" "?ex mod 512 < 512" using n by (simp_all add: less_mult_imp_div_less)
      have e: "file_zone ?D scale ?ip n
          = entry_of ?D scale (entry_of ?D scale (i_zone ?ip 8) (?ex div 512)) (?ex mod 512)"
        using False by (simp add: file_zone_def)
      show ?thesis
      proof (cases "i_zone ?ip 8 = NO_ZONE")
        case True
        then have "read_map e rip pos v = Some (NO_BLOCK, v)"
          using sh x assms(5) False nl by (simp add: read_map_def Let_def)
        moreover have "res (file_zone ?D scale ?ip n) = NO_BLOCK" using True by (simp add: e entry_of_def res_def)
        ultimately show ?thesis using assms(1,4) res same unfolding x_def by (intro exI [of _ "cch v"]) simp
      next
        case z8: False
        obtain c1 where c1: "ind_entry e ?d (i_zone ?ip 8) scale (?ex div 512) v
             = Some (entry_of ?D scale (i_zone ?ip 8) (?ex div 512), v\<lparr>cch := c1\<rparr>)"
          "cinv c1" "free_buf c1" "same_contents (cch v) c1"
          using ind_entry_reads [OF assms(1-4) k(1), of "i_zone ?ip 8" scale] z8 by (auto simp: entry_of_def visited_def)
        let ?z = "entry_of ?D scale (i_zone ?ip 8) (?ex div 512)"
        have w: "cinv (cch (v\<lparr>cch := c1\<rparr>))" "free_buf (cch (v\<lparr>cch := c1\<rparr>))" using c1 by simp_all
        from last [OF w k(2), of ?z] obtain c2 where
          "read_map e rip pos v = Some (res (entry_of (contents c1 ?d) scale ?z (?ex mod 512)), v\<lparr>cch := c2\<rparr>)"
          "cinv c2" "free_buf c2" "same_contents c1 c2"
          using sh x assms(5) False ge z8 c1(1) nl by (simp add: read_map_def Let_def) blast
        then show ?thesis
          using entry_of_cong [OF c1(4) assms(2)] res e same_contents_trans [OF c1(4)] unfolding x_def
          by (intro exI [of _ c2]) simp
      qed
    qed
  qed
qed

section \<open>Inodes in their blocks\<close>

lemma rd16_upd_other [simp]: "i + 1 < j \<or> j < i \<Longrightarrow> rd16 (d(j := x)) i = rd16 d i"
  by (auto simp: rd16_def)

lemma rd32_upd_other [simp]: "i + 3 < j \<or> j < i \<Longrightarrow> rd32 (d(j := x)) i = rd32 d i"
  by (auto simp: rd32_def)

definition disk_part :: "inode \<Rightarrow> inode \<Rightarrow> inode" where
  "disk_part ip p = p\<lparr>i_mode := i_mode ip, i_uid := i_uid ip, i_size := i_size ip, i_modtime := i_modtime ip,
     i_gid := i_gid ip, i_nlinks := i_nlinks ip, i_zone := (\<lambda>k. if k < 9 then i_zone ip k else i_zone p k)\<rparr>"

definition fits32 :: "int \<Rightarrow> bool" where
  "fits32 x \<longleftrightarrow> - (2 ^ 31) \<le> x \<and> x < 2 ^ 31"

lemma sint_of_int_u32: "fits32 x \<Longrightarrow> sint (word_of_int x :: u32) = x"
  by (simp add: fits32_def sint_sbintrunc' signed_take_bit_int_eq_self)

lemma fold_zones:
  "fold (\<lambda>k. wr16 (o1 + 14 + 2 * k) (z k)) [0..<9] d =
     wr16 (o1 + 30) (z 8) (wr16 (o1 + 28) (z 7) (wr16 (o1 + 26) (z 6) (wr16 (o1 + 24) (z 5) (wr16 (o1 + 22) (z 4)
       (wr16 (o1 + 20) (z 3) (wr16 (o1 + 18) (z 2) (wr16 (o1 + 16) (z 1) (wr16 (o1 + 14) (z 0) d))))))))"
proof -
  have u: "[0..<9] = [0, 1, 2, 3, 4, 5, 6, 7, 8]" by (simp add: upt_rec)
  show ?thesis unfolding u by (simp add: add.commute)
qed

lemma less_nine: "k < 9 \<longleftrightarrow> k = 0 \<or> k = 1 \<or> k = 2 \<or> k = 3 \<or> k = 4 \<or> k = 5 \<or> k = 6 \<or> k = 7 \<or> k = (8 :: nat)"
  by auto

lemma rd16_wr16_eq: "j = i \<Longrightarrow> rd16 (wr16 i v d) j = v"
  by simp

lemma inode_bytes:
  assumes "fits32 (i_size ip)" "fits32 (i_modtime ip)"
  shows "inode_of_bytes (inode_to_bytes ip o1 d) o1 p = disk_part ip p"
proof -
  let ?d = "inode_to_bytes ip o1 d"
  have z: "rd16 ?d (o1 + 14 + 2 * k) = i_zone ip k" if "k < 9" for k
    using that unfolding less_nine by (elim disjE) (simp_all add: inode_to_bytes_def Let_def fold_zones rd16_wr16_eq)
  have "rd16 ?d o1 = i_mode ip" "rd16 ?d (o1 + 2) = i_uid ip" "rd32 ?d (o1 + 4) = word_of_int (i_size ip)"
    "rd32 ?d (o1 + 8) = word_of_int (i_modtime ip)" "?d (o1 + 12) = i_gid ip" "?d (o1 + 13) = i_nlinks ip"
    by (simp_all add: inode_to_bytes_def Let_def fold_zones)
  then show ?thesis
    using z assms by (simp add: inode_of_bytes_def disk_part_def sint_of_int_u32 cong: if_cong)
qed

lemma inode_to_bytes_other:
  assumes "j < o1 \<or> o1 + 32 \<le> j"
  shows "inode_to_bytes ip o1 d j = d j"
  using assms by (auto simp: inode_to_bytes_def Let_def fold_zones)

lemma inode_of_bytes_cong:
  assumes "\<And>j. o1 \<le> j \<Longrightarrow> j < o1 + 32 \<Longrightarrow> d' j = d j"
  shows "inode_of_bytes d' o1 p = inode_of_bytes d o1 p"
proof -
  have r: "rd16 d' i = rd16 d i" if "o1 \<le> i" "i + 1 < o1 + 32" for i using that assms by (simp add: rd16_def)
  have "rd32 d' i = rd32 d i" if "o1 \<le> i" "i + 3 < o1 + 32" for i using that r by (simp add: rd32_def)
  then show ?thesis using r assms by (simp add: inode_of_bytes_def cong: if_cong)
qed

text \<open>Where the inode \<open>n\<close> of a file system with the super block \<open>s\<close> lies: its block and offset.\<close>

definition inode_at :: "super \<Rightarrow> u16 \<Rightarrow> u16 \<times> nat" where
  "inode_at s n = ((n - 1) div 32 + s_imap_blocks s + s_zmap_blocks s + 2, 32 * unat ((n - 1) mod 32))"

lemma inode_at_eq: "inode_block ip s = fst (inode_at s (i_num ip))" "inode_off ip = snd (inode_at s (i_num ip))"
  by (simp_all add: inode_block_def inode_off_def inode_at_def)

lemma inode_apart:
  assumes "m \<noteq> n" "fst (inode_at s m) = fst (inode_at s n)"
  shows "snd (inode_at s m) + 32 \<le> snd (inode_at s n) \<or> snd (inode_at s n) + 32 \<le> snd (inode_at s m)"
proof -
  have "(m - 1) div 32 = (n - 1) div 32" using assms(2) by (simp add: inode_at_def)
  then have "(m - 1) mod 32 \<noteq> (n - 1) mod 32" using assms(1) by (metis div_mult_mod_eq diff_add_cancel)
  then have "unat ((m - 1) mod 32) \<noteq> unat ((n - 1) mod 32)" by (simp add: word_unat_eq_iff)
  then show ?thesis unfolding inode_at_def snd_conv by linarith
qed

definition stored_inode :: "vol \<Rightarrow> u16 \<Rightarrow> nat \<Rightarrow> u16 \<Rightarrow> inode \<Rightarrow> inode" where
  "stored_inode v dev sp n p =
     (let (k, o1) = inode_at (super_block v sp) n in inode_of_bytes (contents (cch v) dev k) o1 p)"

lemma rw_inode_write:
  assumes "cinv (cch v)" "free_buf (cch v)" "io_ok e" "known_dev (i_dev (inodes v r))" "get_super (i_dev (inodes v r)) v = Some sp"
    "fits32 (i_size (inodes v r))" "fits32 (i_modtime (inodes v r))"
  shows "\<exists>c. rw_inode e r True v = Some (set_ino r (\<lambda>p. p\<lparr>i_dirt := False\<rparr>) (v\<lparr>cch := c\<rparr>)) \<and> cinv c \<and> free_buf c
    \<and> (\<forall>n p. stored_inode (v\<lparr>cch := c\<rparr>) (i_dev (inodes v r)) sp n p
         = (if n = i_num (inodes v r) then disk_part (inodes v r) p else stored_inode v (i_dev (inodes v r)) sp n p))"
proof -
  let ?ip = "inodes v r" and ?s = "super_block v sp"
  obtain k o1 where a: "inode_at ?s (i_num ?ip) = (k, o1)" by force
  have ko: "inode_block ?ip ?s = k" "inode_off ?ip = o1" using a inode_at_eq [of ?ip ?s] by simp_all
  obtain bp c1 c2 where w: "get_block e (i_dev ?ip) k False (cch v) = Some (bp, c1)"
    "b_data (bufs c1 bp) = contents (cch v) (i_dev ?ip) k"
    "put_block e (Some bp) INODE_BLOCK (set_buf bp (\<lambda>b. b\<lparr>b_data := inode_to_bytes ?ip o1 (b_data b), b_dirt := True\<rparr>) c1) = Some c2"
    "cinv c2" "free_buf c2" "contents c2 (i_dev ?ip) k = inode_to_bytes ?ip o1 (b_data (bufs c1 bp))"
    "\<And>d2 k2. known_dev d2 \<Longrightarrow> (d2, k2) \<noteq> (i_dev ?ip, k) \<Longrightarrow> contents c2 d2 k2 = contents (cch v) d2 k2"
    using write_visit [OF assms(1,4,3,2), of k False INODE_BLOCK "inode_to_bytes ?ip o1"] by auto
  have r: "rw_inode e r True v = Some (set_ino r (\<lambda>p. p\<lparr>i_dirt := False\<rparr>) (v\<lparr>cch := c2\<rparr>))"
    using assms(5) w(1,3) ko by (simp add: rw_inode_def Let_def)
  have "stored_inode (v\<lparr>cch := c2\<rparr>) (i_dev ?ip) sp n p
         = (if n = i_num ?ip then disk_part ?ip p else stored_inode v (i_dev ?ip) sp n p)" for n p
  proof (cases "n = i_num ?ip")
    case True
    then show ?thesis using w(6) a inode_bytes [OF assms(6,7)] by (simp add: stored_inode_def)
  next
    case False
    obtain k2 o2 where a2: "inode_at ?s n = (k2, o2)" by force
    have "inode_of_bytes (contents c2 (i_dev ?ip) k2) o2 p = inode_of_bytes (contents (cch v) (i_dev ?ip) k2) o2 p"
    proof (cases "k2 = k")
      case True
      then have "o1 + 32 \<le> o2 \<or> o2 + 32 \<le> o1" using inode_apart [OF False, of ?s] a a2 by auto
      then show ?thesis unfolding True w(6,2)
        by (intro inode_of_bytes_cong inode_to_bytes_other) auto
    next
      case False
      then show ?thesis using w(7) [OF assms(4)] by simp
    qed
    then show ?thesis using a2 False by (simp add: stored_inode_def)
  qed
  then show ?thesis using r w(4,5) by blast
qed

lemma rw_inode_read:
  assumes "cinv (cch v)" "free_buf (cch v)" "io_ok e" "known_dev (i_dev (inodes v r))" "get_super (i_dev (inodes v r)) v = Some sp"
  shows "\<exists>c. rw_inode e r False v
      = Some (set_ino r (\<lambda>p. (stored_inode v (i_dev (inodes v r)) sp (i_num (inodes v r)) p)\<lparr>i_dirt := False\<rparr>) (v\<lparr>cch := c\<rparr>))
    \<and> cinv c \<and> free_buf c \<and> same_contents (cch v) c"
proof -
  let ?ip = "inodes v r" and ?s = "super_block v sp"
  obtain k o1 where a: "inode_at ?s (i_num ?ip) = (k, o1)" by force
  have ko: "inode_block ?ip ?s = k" "inode_off ?ip = o1" using a inode_at_eq [of ?ip ?s] by simp_all
  obtain bp c1 c2 where "get_block e (i_dev ?ip) k False (cch v) = Some (bp, c1)"
    "b_data (bufs c1 bp) = contents (cch v) (i_dev ?ip) k" "put_block e (Some bp) INODE_BLOCK c1 = Some c2"
    "visited (cch v) c2" "same_contents (cch v) c2"
    using read_visit [OF assms(1,4,3,2)] by blast
  then show ?thesis using assms(5) ko a
    by (intro exI [of _ c2]) (simp add: rw_inode_def Let_def stored_inode_def visited_def)
qed

end
