(* ===== verification/FSWrite.thy ===== *)
theory FSWrite
  imports FSInode
begin

text \<open>
  Growing a file: \<^verbatim>\<open>write_map\<close>, \<^verbatim>\<open>clear_zone\<close> and \<^verbatim>\<open>new_block\<close> of \<^verbatim>\<open>fs/write.c\<close>.
\<close>

text \<open>
  \<open>zp\<close> of \<^verbatim>\<open>write_map\<close> points into the inode or into the double indirect block: the slot is read
  with \<open>zp_get\<close> and written with \<open>zp_set\<close>.
\<close>

datatype zptr = InInode nat | InBlock nat nat

definition zp_get :: "nat \<Rightarrow> zptr \<Rightarrow> vol \<Rightarrow> u16" where
  "zp_get rip zp v =
     (case zp of InInode k \<Rightarrow> i_zone (inodes v rip) k | InBlock bp k \<Rightarrow> rd16 (b_data (bufs (cch v) bp)) (2 * k))"

definition zp_set :: "nat \<Rightarrow> zptr \<Rightarrow> u16 \<Rightarrow> vol \<Rightarrow> vol" where
  "zp_set rip zp z v =
     (case zp of
        InInode k \<Rightarrow> set_ino rip (\<lambda>p. p\<lparr>i_zone := (i_zone p)(k := z)\<rparr>) v
      | InBlock bp k \<Rightarrow> v\<lparr>cch := set_buf bp (\<lambda>b. b\<lparr>b_data := wr16 (2 * k) z (b_data b)\<rparr>) (cch v)\<rparr>)"

definition zp_buf :: "zptr \<Rightarrow> nat option" where
  "zp_buf zp = (case zp of InInode k \<Rightarrow> None | InBlock bp k \<Rightarrow> Some bp)"

definition mark_dirty :: "nat option \<Rightarrow> vol \<Rightarrow> vol" where
  "mark_dirty p v =
     (case p of None \<Rightarrow> v | Some bp \<Rightarrow> v\<lparr>cch := set_buf bp (\<lambda>b. b\<lparr>b_dirt := True\<rparr>) (cch v)\<rparr>)"

definition vput :: "fs_env \<Rightarrow> nat option \<Rightarrow> u16 \<Rightarrow> vol \<Rightarrow> vol option" where
  "vput e p t v = do { c \<leftarrow> put_block e p t (cch v); Some (v\<lparr>cch := c\<rparr>) }"

definition vget :: "fs_env \<Rightarrow> u16 \<Rightarrow> u16 \<Rightarrow> bool \<Rightarrow> vol \<Rightarrow> (nat \<times> vol) option" where
  "vget e dev b no_read v = do { (bp, c) \<leftarrow> get_block e dev b no_read (cch v); Some (bp, v\<lparr>cch := c\<rparr>) }"

definition vzero :: "bool \<Rightarrow> nat \<Rightarrow> vol \<Rightarrow> vol" where
  "vzero yes bp v = (if yes then v\<lparr>cch := zero_block bp (cch v)\<rparr> else v)"

text \<open>The last part of \<^verbatim>\<open>write_map\<close>: enter the zone in the single indirect block.\<close>

definition write_ind :: "fs_env \<Rightarrow> nat \<Rightarrow> u16 \<Rightarrow> nat \<Rightarrow> bool \<Rightarrow> nat \<Rightarrow> u16 \<Rightarrow> vol \<Rightarrow> (int \<times> vol) option" where
  "write_ind e rip z scale new_ind excess new_zone v = do {
     (bp, v1) \<leftarrow> vget e (i_dev (inodes v rip)) (push_bit scale z) new_ind v;
     let v2 = vzero new_ind bp v1;
     let v3 = v2\<lparr>cch := set_buf bp (\<lambda>b. b\<lparr>b_data := wr16 (2 * excess) new_zone (b_data b)\<rparr>) (cch v2)\<rparr>;
     (t, v4) \<leftarrow> clock_time e v3;
     v5 \<leftarrow> vput e (Some bp) INDIRECT_BLOCK
             (mark_dirty (Some bp) (set_ino rip (\<lambda>p. p\<lparr>i_modtime := t\<rparr>) v4));
     Some (OK, v5)
   }"

text \<open>
  The middle part: \<open>zp\<close> is the place for the number of the single indirect block, allocated
  if there is none.
\<close>

definition write_single :: "fs_env \<Rightarrow> nat \<Rightarrow> zptr \<Rightarrow> nat \<Rightarrow> nat \<Rightarrow> u16 \<Rightarrow> vol \<Rightarrow> (int \<times> vol) option" where
  "write_single e rip zp scale excess new_zone v = do {
     let new_ind = (zp_get rip zp v = NO_ZONE);
     (full, v1) \<leftarrow>
       (if new_ind
        then do {
          (z, v1) \<leftarrow> alloc_zone (i_dev (inodes v rip)) (i_zone (inodes v rip) 0) v;
          Some (z = NO_ZONE, mark_dirty (zp_buf zp) (zp_set rip zp z v1))
        }
        else Some (False, v));
     let z = zp_get rip zp v1;
     v2 \<leftarrow> vput e (zp_buf zp) INDIRECT_BLOCK v1;
     (if full then Some (err_code v2, v2) else write_ind e rip z scale new_ind excess new_zone v2)
   }"

definition write_map :: "fs_env \<Rightarrow> nat \<Rightarrow> int \<Rightarrow> u16 \<Rightarrow> vol \<Rightarrow> (int \<times> vol) option" where
  "write_map e rip position new_zone v0 = do {
     let v = set_ino rip (\<lambda>p. p\<lparr>i_dirt := True\<rparr>) v0;
     scale \<leftarrow> scale_factor rip v;
     let zone = drop_bit scale (position sdiv BLOCK_SIZE);
     (if zone < 0 then None
      else if nat zone < NR_DZONE_NUM
      then do {
        (t, v1) \<leftarrow> clock_time e (set_ino rip (\<lambda>p. p\<lparr>i_zone := (i_zone p)(nat zone := new_zone)\<rparr>) v);
        Some (OK, set_ino rip (\<lambda>p. p\<lparr>i_modtime := t\<rparr>) v1)
      }
      else do {
        let excess = nat zone - NR_DZONE_NUM;
        (if excess < NR_INDIRECTS
         then write_single e rip (InInode NR_DZONE_NUM) scale excess new_zone v
         else do {
           let dev = i_dev (inodes v rip);
           let new_dbl = (i_zone (inodes v rip) (NR_DZONE_NUM + 1) = NO_ZONE);
           (z, v1) \<leftarrow> (if new_dbl then alloc_zone dev (i_zone (inodes v rip) 0) v
                       else Some (i_zone (inodes v rip) (NR_DZONE_NUM + 1), v));
           (if z = NO_ZONE then Some (err_code v1, v1)
            else do {
              let v2 = set_ino rip (\<lambda>p. p\<lparr>i_zone := (i_zone p)(NR_DZONE_NUM + 1 := z)\<rparr>) v1;
              let ex = excess - NR_INDIRECTS;
              (if ex div NR_INDIRECTS \<ge> NR_INDIRECTS then Some (EFBIG, v2)
               else do {
                 (bp, v3) \<leftarrow> vget e dev (push_bit scale z) new_dbl v2;
                 write_single e rip (InBlock bp (ex div NR_INDIRECTS)) scale (ex mod NR_INDIRECTS) new_zone
                   (vzero new_dbl bp v3)
               })
            })
         })
      })
   }"

definition clear_zone :: "fs_env \<Rightarrow> nat \<Rightarrow> int \<Rightarrow> bool \<Rightarrow> vol \<Rightarrow> vol option" where
  "clear_zone e rip pos0 from_new_block v = do {
     scale \<leftarrow> scale_factor rip v;
     (if scale = 0 then Some v
      else do {
        let zone_size = push_bit scale BLOCK_SIZE;
        let pos = (if from_new_block then (pos0 sdiv zone_size) * zone_size else pos0);
        let next_pos = pos + BLOCK_SIZE - 1;
        (if next_pos sdiv zone_size \<noteq> pos sdiv zone_size then Some v
         else do {
           (blo, v1) \<leftarrow> read_map e rip next_pos v;
           (if blo = NO_BLOCK then Some v1
            else do {
              let bhi = push_bit scale (drop_bit scale blo + 1) - 1;
              (if bhi = NOT 0 then None \<comment> \<open>the loop variable never exceeds \<open>bhi\<close>\<close>
               else each (\<lambda>b v. do {
                  (bp, v1) \<leftarrow> vget e (i_dev (inodes v rip)) (word_of_nat b) True v;
                  vput e (Some bp) FULL_DATA_BLOCK (vzero True bp v1)
                }) [unat blo..<unat bhi + 1] v1)
            })
         })
      })
   }"

definition new_block :: "fs_env \<Rightarrow> nat \<Rightarrow> int \<Rightarrow> vol \<Rightarrow> (nat option \<times> vol) option" where
  "new_block e rip position v = do {
     (b, v1) \<leftarrow> read_map e rip position v;
     (r, v2) \<leftarrow>
       (if b \<noteq> NO_BLOCK then Some (Some b, v1)
        else do {
          let dev = i_dev (inodes v1 rip);
          z0 \<leftarrow> (if i_size (inodes v1 rip) = 0
                  then do { sp \<leftarrow> get_super dev v1; Some (s_firstdatazone (super_block v1 sp)) }
                  else Some (i_zone (inodes v1 rip) 0));
          (z, v2) \<leftarrow> alloc_zone dev z0 v1;
          (if z = NO_ZONE then Some (None, v2)
           else do {
             (r, v3) \<leftarrow> write_map e rip position z v2;
             (if r \<noteq> OK
              then do { v4 \<leftarrow> free_zone dev z v3; Some (None, v4\<lparr>err_code := r\<rparr>) }
              else do {
                v4 \<leftarrow> (if position \<noteq> i_size (inodes v3 rip) then clear_zone e rip position True v3 else Some v3);
                scale \<leftarrow> scale_factor rip v4;
                let zone_size = push_bit scale BLOCK_SIZE;
                Some (Some (push_bit scale z + word_of_int ((position smod zone_size) sdiv BLOCK_SIZE)), v4)
              })
           })
        });
     (case r of None \<Rightarrow> Some (None, v2)
      | Some b \<Rightarrow> do {
          (bp, v3) \<leftarrow> vget e (i_dev (inodes v2 rip)) b True v2;
          Some (Some bp, vzero True bp v3)
        })
   }"

end
