(* ===== verification/FSPath.thy ===== *)
theory FSPath
  imports FSWrite
begin

text \<open>
  Path names (\<^verbatim>\<open>fs/path.c\<close>): parsing a component, searching a directory, walking to an inode.
\<close>

section \<open>Parsing\<close>

abbreviation (input) "SLASH \<equiv> (47::u8)"
abbreviation (input) "DOT \<equiv> (46::u8)"

text \<open>
  \<^verbatim>\<open>get_name\<close> works on the array \<^verbatim>\<open>user_path\<close>; a position is an index.  The loop over leading
  slashes does not look at the end of the array, the other two do.
\<close>

function skip_lead :: "block \<Rightarrow> nat \<Rightarrow> nat option" where
  "skip_lead p i = (if i \<ge> PATH_MAX then None else if p i = SLASH then skip_lead p (i + 1) else Some i)"
  by pat_completeness auto
termination by (relation "measure (\<lambda>(p, i). 128 - i)") auto

function copy_comp :: "block \<Rightarrow> nat \<Rightarrow> u8 list \<Rightarrow> nat \<times> u8 list" where
  "copy_comp p i acc =
     (if i < PATH_MAX \<and> p i \<noteq> SLASH \<and> p i \<noteq> 0
      then copy_comp p (i + 1) (if length acc < NAME_SIZE then acc @ [p i] else acc)
      else (i, acc))"
  by pat_completeness auto
termination by (relation "measure (\<lambda>(p, i, acc). 128 - i)") auto

function skip_trail :: "block \<Rightarrow> nat \<Rightarrow> nat" where
  "skip_trail p i = (if p i = SLASH \<and> i < PATH_MAX then skip_trail p (i + 1) else i)"
  by pat_completeness auto
termination by (relation "measure (\<lambda>(p, i). 128 - i)") auto

declare skip_lead.simps [simp del] copy_comp.simps [simp del] skip_trail.simps [simp del]

definition get_name :: "block \<Rightarrow> nat \<Rightarrow> (nat option \<times> u8 list) option" where
  "get_name p old_name = do {
     i1 \<leftarrow> skip_lead p old_name;
     let (i2, acc) = copy_comp p i1 [];
     let i3 = skip_trail p i2;
     Some (if i3 \<ge> PATH_MAX then None else Some i3, acc @ replicate (NAME_SIZE - length acc) 0)
   }"

section \<open>Searching a directory\<close>

datatype dir_flag = LOOK_UP | ENTER | DELETE

definition d_inum :: "block \<Rightarrow> nat \<Rightarrow> u16" where
  "d_inum d k = rd16 d (16 * k)"

definition d_name :: "block \<Rightarrow> nat \<Rightarrow> u8 list" where
  "d_name d k = map (\<lambda>j. d (16 * k + 2 + j)) [0..<NAME_SIZE]"

definition set_d_name :: "nat \<Rightarrow> u8 list \<Rightarrow> block \<Rightarrow> block" where
  "set_d_name k nm d = fold (\<lambda>j d. d(16 * k + 2 + j := nm ! j)) [0..<NAME_SIZE] d"

text \<open>\<^verbatim>\<open>cmp_string\<close> and \<^verbatim>\<open>copy\<close> of \<^verbatim>\<open>fs/utility.c\<close>, here on names.\<close>

fun cmp_string :: "u8 list \<Rightarrow> u8 list \<Rightarrow> nat \<Rightarrow> bool" where
  "cmp_string (x # xs) (y # ys) (Suc n) = (x = y \<and> (n = 0 \<or> cmp_string xs ys n))"
| "cmp_string _ _ _ = True"

text \<open>The inner loop: over the slots \<open>ks\<close> of one block, counting with \<^verbatim>\<open>new_slots\<close>.\<close>

datatype slot_res = Found nat | Room nat | Full

fun scan_slots :: "dir_flag \<Rightarrow> u8 list \<Rightarrow> block \<Rightarrow> u16 \<Rightarrow> nat list \<Rightarrow> u16 \<Rightarrow> slot_res \<times> u16" where
  "scan_slots flag nm d old_slots [] n = (Full, n)"
| "scan_slots flag nm d old_slots (k # ks) n =
     (let n' = n + 1
      in if n' > old_slots then (if flag = ENTER then Room k else Full, n')
         else if flag \<noteq> ENTER \<and> d_inum d k \<noteq> 0 \<and> cmp_string (d_name d k) nm NAME_SIZE then (Found k, n')
         else if flag = ENTER \<and> d_inum d k = 0 then (Room k, n')
         else scan_slots flag nm d old_slots ks n')"

datatype dir_res = Hit u16 | Slot nat nat | Nowhere

text \<open>The outer loop, over the block positions of the directory.\<close>

fun scan_dir :: "fs_env \<Rightarrow> nat \<Rightarrow> dir_flag \<Rightarrow> u8 list \<Rightarrow> u16 \<Rightarrow> int list \<Rightarrow> u16 \<Rightarrow> vol
    \<Rightarrow> (dir_res \<times> u16 \<times> vol) option" where
  "scan_dir e dirp flag nm old_slots [] n v = Some (Nowhere, n, v)"
| "scan_dir e dirp flag nm old_slots (pos # ps) n v = do {
     (b, v1) \<leftarrow> read_map e dirp pos v;
     (bp, v2) \<leftarrow> vget e (i_dev (inodes v1 dirp)) b False v1;
     let d = b_data (bufs (cch v2) bp);
     (case scan_slots flag nm d old_slots [0..<64] n of
        (Room k, n') \<Rightarrow> Some (Slot bp k, n', v2)
      | (Full, n') \<Rightarrow> do {
          v3 \<leftarrow> vput e (Some bp) DIRECTORY_BLOCK v2;
          scan_dir e dirp flag nm old_slots ps n' v3
        }
      | (Found k, n') \<Rightarrow>
          (if flag = DELETE
           then do {
             let v3 = v2\<lparr>cch := set_buf bp (\<lambda>b. b\<lparr>b_data := wr16 (16 * k) 0 (b_data b), b_dirt := True\<rparr>) (cch v2)\<rparr>;
             (t, v4) \<leftarrow> clock_time e v3;
             v5 \<leftarrow> vput e (Some bp) DIRECTORY_BLOCK (set_ino dirp (\<lambda>p. p\<lparr>i_modtime := t\<rparr>) v4);
             Some (Hit 0, n', v5)
           }
           else do {
             v3 \<leftarrow> vput e (Some bp) DIRECTORY_BLOCK v2;
             Some (Hit (d_inum d k), n', v3)
           }))
   }"

text \<open>The end of \<^verbatim>\<open>search_dir\<close> for \<open>ENTER\<close>: fill in slot \<open>k\<close> of buffer \<open>bp\<close>.\<close>

definition enter_slot :: "fs_env \<Rightarrow> nat \<Rightarrow> nat \<Rightarrow> nat \<Rightarrow> u8 list \<Rightarrow> u16 \<Rightarrow> u16 \<Rightarrow> u16 \<Rightarrow> vol \<Rightarrow> vol option" where
  "enter_slot e dirp bp k nm numb new_slots old_slots v = do {
     let v1 = v\<lparr>cch := set_buf bp (\<lambda>b. b\<lparr>b_data := wr16 (16 * k) numb (set_d_name k nm (b_data b)), b_dirt := True\<rparr>) (cch v)\<rparr>;
     v2 \<leftarrow> vput e (Some bp) DIRECTORY_BLOCK v1;
     (t, v3) \<leftarrow> clock_time e v2;
     Some (set_ino dirp (\<lambda>p. p\<lparr>i_modtime := t, i_dirt := True,
             i_size := (if new_slots > old_slots then uint new_slots * 16 else i_size p)\<rparr>) v3)
   }"

definition search_dir :: "fs_env \<Rightarrow> cred \<Rightarrow> nat \<Rightarrow> u8 list \<Rightarrow> u16 \<Rightarrow> dir_flag \<Rightarrow> vol \<Rightarrow> (int \<times> u16 \<times> vol) option" where
  "search_dir e w dirp nm numb flag v =
     (if i_mode (inodes v dirp) AND I_TYPE \<noteq> I_DIRECTORY then Some (ENOTDIR, numb, v)
      else do {
        r \<leftarrow> forbidden w dirp (if flag = LOOK_UP then X_BIT else W_BIT OR X_BIT) False v;
        (if r \<noteq> OK then Some (r, numb, v)
         else do {
           let sz = i_size (inodes v dirp);
           let old_slots = word_of_int (sz sdiv 16);
           (res, new_slots, v1) \<leftarrow> scan_dir e dirp flag nm old_slots (steps sz BLOCK_SIZE) 0 v;
           (case res of
              Hit n \<Rightarrow> Some (OK, if flag = LOOK_UP then n else numb, v1)
            | Slot bp k \<Rightarrow> do {
                v2 \<leftarrow> enter_slot e dirp bp k nm numb new_slots old_slots v1;
                Some (OK, numb, v2)
              }
            | Nowhere \<Rightarrow>
                (if flag \<noteq> ENTER then Some (ENOENT, numb, v1)
                 else if new_slots + 1 = 0 then Some (EFBIG, numb, v1)
                 else do {
                   (r, v2) \<leftarrow> new_block e dirp (i_size (inodes v1 dirp)) v1;
                   (case r of
                      None \<Rightarrow> Some (err_code v2, numb, v2)
                    | Some bp \<Rightarrow> do {
                        v3 \<leftarrow> enter_slot e dirp bp 0 nm numb (new_slots + 1) old_slots v2;
                        Some (OK, numb, v3)
                      })
                 }))
         })
      })"

section \<open>Walking a path\<close>

text \<open>The loop that steps from an inode that is mounted on to the root of the mounted system.\<close>

partial_function (option) mount_loop :: "fs_env \<Rightarrow> nat option \<Rightarrow> vol \<Rightarrow> (nat \<times> vol) option" where
  "mount_loop e r v = do {
     rip \<leftarrow> r;
     (if \<not> i_mount (inodes v rip) then Some (rip, v)
      else do {
        sp \<leftarrow> List.find (\<lambda>i. s_imount (super_block v i) = Some rip) [0..<NR_SUPERS];
        v1 \<leftarrow> put_inode e (Some rip) v;
        (r1, v2) \<leftarrow> get_inode e (s_dev (super_block v1 sp)) ROOT_INODE v1;
        mount_loop e r1 v2
      })
   }"

text \<open>
  \<^verbatim>\<open>advance\<close>.  Its recursive call, for \<^verbatim>\<open>..\<close> in the root of a mounted system, may return nil; the
  source then reads \<^verbatim>\<open>rip->i_mount\<close> through it.
\<close>

partial_function (option) advance :: "fs_env \<Rightarrow> cred \<Rightarrow> nat \<Rightarrow> u8 list \<Rightarrow> vol \<Rightarrow> (nat option \<times> vol) option" where
  "advance e w dirp nm v =
     (if nm ! 0 = 0 then get_inode e (i_dev (inodes v dirp)) (i_num (inodes v dirp)) v
      else do {
        (r, numb, v1) \<leftarrow> search_dir e w dirp nm 0 LOOK_UP v;
        (if r \<noteq> OK then Some (None, v1\<lparr>err_code := r\<rparr>)
         else do {
           (q, v2) \<leftarrow> get_inode e (i_dev (inodes v1 dirp)) numb v1;
           (if q = None then Some (None, v2)
            else do {
              rip \<leftarrow> q;
              let up = (if i_num (inodes v2 rip) = ROOT_INODE \<and> i_num (inodes v2 dirp) = ROOT_INODE \<and> nm ! 1 = DOT
                        then List.find (\<lambda>i. s_dev (super_block v2 i) = i_dev (inodes v2 rip)) [1..<NR_SUPERS]
                        else None);
              (if up = None
               then do { (x, v3) \<leftarrow> mount_loop e (Some rip) v2; Some (Some x, v3) }
               else do {
                 sp \<leftarrow> up;
                 v3 \<leftarrow> put_inode e (Some rip) v2;
                 im \<leftarrow> s_imount (super_block v3 sp);
                 (q2, v4) \<leftarrow> get_inode e (i_dev (inodes v3 im)) (i_num (inodes v3 im)) v3;
                 rip2 \<leftarrow> q2;
                 (q3, v5) \<leftarrow> advance e w rip2 nm v4;
                 v6 \<leftarrow> put_inode e (Some rip2) v5;
                 (x, v7) \<leftarrow> mount_loop e q3 v6;
                 Some (Some x, v7)
               })
            })
         })
      })"

text \<open>What a path is relative to: identity, root and working directory, and the path array.\<close>

record pctx =
  p_cred :: cred
  p_root :: "nat option"
  p_work :: "nat option"
  p_path :: block

text \<open>The loop of \<^verbatim>\<open>last_dir\<close> from position \<open>i\<close> of the path.\<close>

partial_function (option) dir_walk :: "fs_env \<Rightarrow> pctx \<Rightarrow> nat \<Rightarrow> nat \<Rightarrow> vol \<Rightarrow> (nat option \<times> u8 list \<times> vol) option" where
  "dir_walk e x rip i v = do {
     (new_name, nm) \<leftarrow> get_name (p_path x) i;
     (if new_name = None
      then do { v1 \<leftarrow> put_inode e (Some rip) (v\<lparr>err_code := E_LONG_STRING\<rparr>); Some (None, nm, v1) }
      else do {
        j \<leftarrow> new_name;
        (if p_path x j = 0 then Some (Some rip, nm, v)
         else do {
           (new_ip, v1) \<leftarrow> advance e (p_cred x) rip nm v;
           v2 \<leftarrow> put_inode e (Some rip) v1;
           (if new_ip = None then Some (None, nm, v2)
            else do { ip \<leftarrow> new_ip; dir_walk e x ip j v2 })
         })
      })
   }"

definition last_dir :: "fs_env \<Rightarrow> pctx \<Rightarrow> vol \<Rightarrow> (nat option \<times> u8 list \<times> vol) option" where
  "last_dir e x v = do {
     rip \<leftarrow> (if p_path x 0 = SLASH then p_root x else p_work x);
     dir_walk e x rip 0 (dup_inode rip v)
   }"

definition eat_path :: "fs_env \<Rightarrow> pctx \<Rightarrow> vol \<Rightarrow> (nat option \<times> vol) option" where
  "eat_path e x v = do {
     (r, nm, v1) \<leftarrow> last_dir e x v;
     (case r of
        None \<Rightarrow> Some (None, v1)
      | Some ldip \<Rightarrow>
          (if nm ! 0 = 0 then Some (Some ldip, v1)
           else do {
             (rip, v2) \<leftarrow> advance e (p_cred x) ldip nm v1;
             v3 \<leftarrow> put_inode e (Some ldip) v2;
             Some (rip, v3)
           }))
   }"

end
