(* ===== verification/FSFile.thy ===== *)
theory FSFile
  imports FSPath
begin

text \<open>
  The top layer of the file system: processes, file descriptors and the current request
  (\<^verbatim>\<open>fs/fproc.h\<close>, \<^verbatim>\<open>fs/file.h\<close>, \<^verbatim>\<open>fs/glo.h\<close>, \<^verbatim>\<open>fs/filedes.c\<close>), copying to and from users (\<^verbatim>\<open>rw_user\<close>,
  \<^verbatim>\<open>fetch_name\<close>), and suspension and revival of processes with the calls of device tasks
  (\<^verbatim>\<open>fs/pipe.c\<close>, \<^verbatim>\<open>fs/device.c\<close>).
\<close>

section \<open>Tables and globals\<close>

record fproc =
  fp_umask :: u16
  fp_workdir :: "nat option"
  fp_rootdir :: "nat option"
  fp_filp :: "nat \<Rightarrow> nat option"
  fp_realuid :: u16
  fp_effuid :: u16
  fp_realgid :: u8
  fp_effgid :: u8
  fs_tty :: u16
  fp_fd :: int
  fp_buffer :: u16
  fp_nbytes :: int
  fp_suspended :: bool
  fp_revived :: bool
  fp_task :: int

record filp =
  filp_mode :: u16
  filp_count :: int
  filp_ino :: "nat option"
  filp_pos :: int

text \<open>
  The request message.  The first two ints of the message formats m1, m2 and m3 occupy the same
  bytes, hence one field each; the third int is m1's (\<open>m_p3\<close> is the pointer m3 has in that place).
\<close>

record fmsg =
  m_i1 :: int
  m_i2 :: int
  m_i3 :: int
  m_p1 :: u16
  m_p2 :: u16
  m_p3 :: u16
  m_ca1 :: block
  m_l1 :: int
  m_l2 :: int
  m_2p1 :: u16
  m_2i3 :: int

record rmsg =
  reply_l1 :: int
  reply_i1 :: int
  reply_i2 :: int
  reply_t :: "nat \<Rightarrow> int"
  reply_spek :: int
  reply_flags :: int

text \<open>What the file system sends: replies, device requests, the signal request to MM, SET_TIME.\<close>

datatype fs_out =
    Reply int int rmsg
  | DevReq int int int int int u16 int
  | IoctlReq int int int int int int
  | CancelReq int int int
  | SigPipe int
  | SetTime int

record fs =
  vol :: vol
  fproc :: "int \<Rightarrow> fproc"
  filp :: "nat \<Rightarrow> filp"
  fp :: int
  super_user :: bool
  dont_reply :: bool
  susp_count :: int
  reviving :: int
  rdahedpos :: int
  rdahed_inode :: "nat option"
  msg :: fmsg
  m1 :: rmsg
  who :: int
  fs_call :: int
  user_path :: block
  umem :: "int \<Rightarrow> nat \<Rightarrow> nat \<Rightarrow> u8"
  copies :: nat
  devs :: nat
  sent :: "fs_out list"

definition set_fproc :: "int \<Rightarrow> (fproc \<Rightarrow> fproc) \<Rightarrow> fs \<Rightarrow> fs" where
  "set_fproc i f s = s\<lparr>fproc := (fproc s)(i := f (fproc s i))\<rparr>"

definition set_filp :: "nat \<Rightarrow> (filp \<Rightarrow> filp) \<Rightarrow> fs \<Rightarrow> fs" where
  "set_filp i f s = s\<lparr>filp := (filp s)(i := f (filp s i))\<rparr>"

definition on_vol :: "(vol \<Rightarrow> vol) \<Rightarrow> fs \<Rightarrow> fs" where
  "on_vol f s = s\<lparr>vol := f (vol s)\<rparr>"

definition in_vol :: "(vol \<Rightarrow> ('a \<times> vol) option) \<Rightarrow> fs \<Rightarrow> ('a \<times> fs) option" where
  "in_vol f s = do { (r, v) \<leftarrow> f (vol s); Some (r, s\<lparr>vol := v\<rparr>) }"

definition do_vol :: "(vol \<Rightarrow> vol option) \<Rightarrow> fs \<Rightarrow> fs option" where
  "do_vol f s = do { v \<leftarrow> f (vol s); Some (s\<lparr>vol := v\<rparr>) }"

definition out :: "fs_out \<Rightarrow> fs \<Rightarrow> fs" where
  "out x s = s\<lparr>sent := sent s @ [x]\<rparr>"

lemma set_fproc_sel [simp]:
  "fproc (set_fproc i f s) j = (if j = i then f (fproc s i) else fproc s j)"
  "vol (set_fproc i f s) = vol s" "filp (set_fproc i f s) = filp s" "fp (set_fproc i f s) = fp s"
  "super_user (set_fproc i f s) = super_user s" "dont_reply (set_fproc i f s) = dont_reply s"
  "susp_count (set_fproc i f s) = susp_count s" "reviving (set_fproc i f s) = reviving s"
  "msg (set_fproc i f s) = msg s" "m1 (set_fproc i f s) = m1 s" "who (set_fproc i f s) = who s"
  "fs_call (set_fproc i f s) = fs_call s" "user_path (set_fproc i f s) = user_path s"
  "umem (set_fproc i f s) = umem s" "copies (set_fproc i f s) = copies s" "devs (set_fproc i f s) = devs s"
  "sent (set_fproc i f s) = sent s" "rdahed_inode (set_fproc i f s) = rdahed_inode s"
  by (simp_all add: set_fproc_def)

lemma set_filp_sel [simp]:
  "filp (set_filp i f s) j = (if j = i then f (filp s i) else filp s j)"
  "vol (set_filp i f s) = vol s" "fproc (set_filp i f s) = fproc s" "fp (set_filp i f s) = fp s"
  "super_user (set_filp i f s) = super_user s" "dont_reply (set_filp i f s) = dont_reply s"
  "susp_count (set_filp i f s) = susp_count s" "reviving (set_filp i f s) = reviving s"
  "msg (set_filp i f s) = msg s" "m1 (set_filp i f s) = m1 s" "who (set_filp i f s) = who s"
  "fs_call (set_filp i f s) = fs_call s" "user_path (set_filp i f s) = user_path s"
  "umem (set_filp i f s) = umem s" "copies (set_filp i f s) = copies s" "devs (set_filp i f s) = devs s"
  "sent (set_filp i f s) = sent s" "rdahed_inode (set_filp i f s) = rdahed_inode s"
  by (simp_all add: set_filp_def)

abbreviation cur :: "fs \<Rightarrow> fproc" where
  "cur s \<equiv> fproc s (fp s)"

abbreviation ino :: "fs \<Rightarrow> nat \<Rightarrow> inode" where
  "ino s i \<equiv> inodes (vol s) i"

definition cred_of :: "fs \<Rightarrow> cred" where
  "cred_of s = \<lparr>c_realuid = fp_realuid (cur s), c_effuid = fp_effuid (cur s), c_realgid = fp_realgid (cur s),
     c_effgid = fp_effgid (cur s), c_su = super_user s\<rparr>"

definition pctx_of :: "fs \<Rightarrow> pctx" where
  "pctx_of s = \<lparr>p_cred = cred_of s, p_root = fp_rootdir (cur s), p_work = fp_workdir (cur s), p_path = user_path s\<rparr>"

abbreviation err :: "fs \<Rightarrow> int" where
  "err s \<equiv> err_code (vol s)"

definition set_err :: "int \<Rightarrow> fs \<Rightarrow> fs" where
  "set_err r = on_vol (\<lambda>v. v\<lparr>err_code := r\<rparr>)"

section \<open>File descriptors\<close>

text \<open>\<^verbatim>\<open>get_fd\<close>: result code, descriptor and \<^verbatim>\<open>filp\<close> slot; neither is claimed yet.\<close>

definition get_fd :: "u16 \<Rightarrow> fs \<Rightarrow> int \<times> nat \<times> nat \<times> fs" where
  "get_fd bits s =
     (case List.find (\<lambda>i. fp_filp (cur s) i = None) [0..<NR_FDS] of
        None \<Rightarrow> (EMFILE, 0, 0, s)
      | Some k \<Rightarrow>
          (case List.find (\<lambda>f. filp_count (filp s f) = 0) [0..<NR_FILPS] of
             None \<Rightarrow> (ENFILE, k, 0, s)
           | Some f \<Rightarrow> (OK, k, f, set_filp f (\<lambda>p. p\<lparr>filp_mode := bits, filp_pos := 0\<rparr>) s)))"

definition get_filp :: "int \<Rightarrow> fs \<Rightarrow> nat option \<times> fs" where
  "get_filp fild s =
     (if fild < 0 \<or> fild \<ge> int NR_FDS then None else fp_filp (cur s) (nat fild), set_err EBADF s)"

definition find_filp :: "nat \<Rightarrow> u16 \<Rightarrow> fs \<Rightarrow> nat option" where
  "find_filp rip bits s =
     List.find (\<lambda>f. filp_count (filp s f) \<noteq> 0 \<and> filp_ino (filp s f) = Some rip \<and> has_flag (filp_mode (filp s f)) bits)
       [0..<NR_FILPS]"

section \<open>Copying to and from users\<close>

text \<open>\<^verbatim>\<open>rw_user\<close>, one function per direction; an address wraps around at 64K.\<close>

definition to_user :: "fs_env \<Rightarrow> nat \<Rightarrow> int \<Rightarrow> u16 \<Rightarrow> nat \<Rightarrow> block \<Rightarrow> fs \<Rightarrow> int \<times> fs" where
  "to_user e seg u vir n d s =
     (let r = v_copy e (copies s); s1 = s\<lparr>copies := copies s + 1\<rparr>
      in if r \<noteq> OK then (r, s1)
         else (r, s1\<lparr>umem := (umem s)(u := (umem s u)(seg := (\<lambda>a.
                 let k = unat (word_of_nat a - vir :: u16) in if a < 65536 \<and> k < n then d k else umem s u seg a)))\<rparr>))"

definition from_user :: "fs_env \<Rightarrow> nat \<Rightarrow> int \<Rightarrow> u16 \<Rightarrow> fs \<Rightarrow> int \<times> block \<times> fs" where
  "from_user e seg u vir s =
     (v_copy e (copies s), (\<lambda>k. umem s u seg (unat (vir + word_of_nat k))), s\<lparr>copies := copies s + 1\<rparr>)"

text \<open>
  \<^verbatim>\<open>fetch_name\<close>.  A short path comes in the message itself; that loop counts down from \<open>len\<close>
  with the test at its end, so a length below 1 runs over every array.
\<close>

definition fetch_name :: "fs_env \<Rightarrow> u16 \<Rightarrow> int \<Rightarrow> bool \<Rightarrow> fs \<Rightarrow> (int \<times> fs) option" where
  "fetch_name e path len in_msg s =
     (if in_msg \<and> len \<le> 14
      then (if len \<le> 0 then None
            else Some (OK, s\<lparr>user_path := (\<lambda>i. if i < nat len then m_ca1 (msg s) i else user_path s i)\<rparr>))
      else if len > int PATH_MAX then Some (ERROR, set_err E_LONG_STRING s)
      else (let (r, d, s1) = from_user e SEG_D (who s) path s
            in if r \<noteq> OK then Some (r, set_err r s1)
               else if len < 0 then None
               else Some (r, set_err r (s1\<lparr>user_path := (\<lambda>i. if i < nat len then d i else user_path s i)\<rparr>))))"

section \<open>Suspending and reviving processes\<close>

definition reply_fs :: "int \<Rightarrow> int \<Rightarrow> fs \<Rightarrow> fs" where
  "reply_fs whom result s = out (Reply whom result (m1 s)) s"

abbreviation (input) "XPIPE \<equiv> (0::int)"
abbreviation (input) "C_READ \<equiv> (3::int)"
abbreviation (input) "C_WRITE \<equiv> (4::int)"

definition suspend :: "int \<Rightarrow> fs \<Rightarrow> fs" where
  "suspend task s =
     (let s1 = (if task = XPIPE then s\<lparr>susp_count := susp_count s + 1\<rparr> else s)
      in (set_fproc (fp s1) (\<lambda>p. p\<lparr>fp_suspended := True,
            fp_fd := int_of ((m_i1 (msg s1) * 256) OR fs_call s1), fp_buffer := m_p1 (msg s1),
            fp_nbytes := m_i2 (msg s1), fp_task := - task\<rparr>) s1)\<lparr>dont_reply := True\<rparr>)"

definition revive :: "int \<Rightarrow> int \<Rightarrow> fs \<Rightarrow> fs option" where
  "revive proc_nr bytes s =
     (if proc_nr < 0 \<or> proc_nr \<ge> NR_PROCS then None \<comment> \<open>panic: revive err\<close>
      else if \<not> fp_suspended (fproc s proc_nr) then Some s
      else if fp_task (fproc s proc_nr) = XPIPE
      then Some ((set_fproc proc_nr (\<lambda>p. p\<lparr>fp_revived := True\<rparr>) s)\<lparr>reviving := reviving s + 1\<rparr>)
      else Some (reply_fs proc_nr bytes
                  (set_fproc proc_nr (\<lambda>p. p\<lparr>fp_suspended := False, fp_nbytes := bytes\<rparr>) s)))"

text \<open>\<^verbatim>\<open>release\<close>; the loop stops when \<^verbatim>\<open>count\<close> processes have been released.\<close>

definition hangs_on :: "fs \<Rightarrow> nat \<Rightarrow> int \<Rightarrow> int \<Rightarrow> bool option" where
  "hangs_on s ip call_nr rp =
     (let p = fproc s rp
      in if fp_suspended p \<and> fp_fd p AND 255 = call_nr
         then do { f \<leftarrow> fp_filp p (nat (drop_bit 8 (fp_fd p))); Some (filp_ino (filp s f) = Some ip) }
         else Some False)"

fun release_loop :: "nat \<Rightarrow> int \<Rightarrow> int list \<Rightarrow> int \<Rightarrow> fs \<Rightarrow> fs option" where
  "release_loop ip call_nr [] count s = Some s"
| "release_loop ip call_nr (rp # rps) count s = do {
     h \<leftarrow> hangs_on s ip call_nr rp;
     (if h
      then do {
        s1 \<leftarrow> revive rp 0 s;
        let s2 = s1\<lparr>susp_count := susp_count s1 - 1\<rparr>;
        (if count - 1 = 0 then Some s2 else release_loop ip call_nr rps (count - 1) s2)
      }
      else release_loop ip call_nr rps count s)
   }"

definition release :: "nat \<Rightarrow> int \<Rightarrow> int \<Rightarrow> fs \<Rightarrow> fs option" where
  "release ip call_nr count s = release_loop ip call_nr [0..NR_PROCS - 1] count s"

definition pipe_check :: "nat \<Rightarrow> bool \<Rightarrow> bool \<Rightarrow> int \<Rightarrow> int \<Rightarrow> fs \<Rightarrow> (int \<times> fs) option" where
  "pipe_check rip writing virgin bytes position s =
     (if \<not> writing
      then (if position \<ge> i_size (ino s rip)
            then (if find_filp rip W_BIT s \<noteq> None
                  then do {
                    let s1 = (if virgin then suspend XPIPE s else s);
                    s2 \<leftarrow> (if susp_count s1 > 0 then release rip C_WRITE 1 s1 else Some s1);
                    Some (0, s2)
                  }
                  else Some (0, s))
            else Some (1, s))
      else if bytes > PIPE_SIZE then Some (EFBIG, s)
      else if find_filp rip R_BIT s = None then Some (EPIPE, out (SigPipe (fp s)) s)
      else if position + bytes > PIPE_SIZE then Some (0, suspend XPIPE s)
      else if position = 0 then do { s1 \<leftarrow> release rip C_READ 1 s; Some (1, s1) }
      else Some (1, s))"

section \<open>Device tasks\<close>

abbreviation (input) "TTY \<equiv> (-7::int)"

definition dmap_task :: "nat \<Rightarrow> int option" where
  "dmap_task mj = (if mj < 7 then Some ([0, -4, -5, -6, -7, -7, -8] ! mj) else None)"

text \<open>The loop of \<^verbatim>\<open>rw_dev\<close>: an answer for another process revives that process.\<close>

fun await :: "int \<Rightarrow> task_reply list \<Rightarrow> fs \<Rightarrow> (task_reply \<times> fs) option" where
  "await proc_nr [] s = None"
| "await proc_nr (r # rs) s =
     (if rep_proc_nr r = proc_nr then Some (r, s)
      else do { s1 \<leftarrow> revive (rep_proc_nr r) (rep_status r) s; await proc_nr rs s1 })"

definition rw_dev :: "fs_env \<Rightarrow> int \<Rightarrow> fs_out \<Rightarrow> int \<Rightarrow> fs \<Rightarrow> (task_reply \<times> fs) option" where
  "rw_dev e task_nr req proc_nr s = await proc_nr (v_task e (devs s)) ((out req s)\<lparr>devs := devs s + 1\<rparr>)"

text \<open>
  \<open>dev_target\<close>: the task and minor device that serve a device; \<^verbatim>\<open>rw_dev2\<close> (major 5, \<^verbatim>\<open>/dev/tty\<close>)
  goes to the controlling terminal.
\<close>

definition dev_target :: "u16 \<Rightarrow> fs \<Rightarrow> (int \<times> int) option" where
  "dev_target dev s =
     (if \<not> known_dev dev then None \<comment> \<open>panic: bad major dev\<close>
      else if dev_major dev = 5
      then do { t \<leftarrow> dmap_task (dev_major (fs_tty (cur s))); Some (t, dev_minor (fs_tty (cur s))) }
      else do { t \<leftarrow> dmap_task (dev_major dev); Some (t, dev_minor dev) })"

text \<open>\<^verbatim>\<open>dev_io\<close> for a character device; the task moves the bytes, which the model leaves out.\<close>

definition dev_io :: "fs_env \<Rightarrow> bool \<Rightarrow> u16 \<Rightarrow> int \<Rightarrow> int \<Rightarrow> int \<Rightarrow> u16 \<Rightarrow> fs \<Rightarrow> (int \<times> fs) option" where
  "dev_io e writing dev pos bytes proc buff s = do {
     (task_nr, minor) \<leftarrow> dev_target dev s;
     task \<leftarrow> dmap_task (dev_major dev);
     (r, s1) \<leftarrow> rw_dev e task_nr (DevReq task_nr (if writing then 4 else 3) minor pos proc buff bytes) proc s;
     Some (rep_status r, if rep_status r = SUSPEND then suspend task s1 else s1)
   }"

definition do_ioctl :: "fs_env \<Rightarrow> fs \<Rightarrow> (int \<times> fs) option" where
  "do_ioctl e s0 =
     (let (f, s) = get_filp (m_i1 (msg s0)) s0
      in case f of None \<Rightarrow> Some (err s, s)
         | Some f \<Rightarrow> do {
             rip \<leftarrow> filp_ino (filp s f);
             (if i_mode (ino s rip) AND I_TYPE \<noteq> I_CHAR_SPECIAL then Some (ENOTTY, s)
              else do {
                let dev = i_zone (ino s rip) 0;
                (task_nr, minor) \<leftarrow> dev_target dev s;
                task \<leftarrow> dmap_task (dev_major dev);
                (r, s1) \<leftarrow> rw_dev e task_nr
                   (IoctlReq task_nr minor (who s) (m_2i3 (msg s)) (m_l1 (msg s)) (m_l2 (msg s))) (who s) s;
                let s2 = (if rep_type r = SUSPEND then suspend task s1 else s1);
                Some (rep_status r, s2\<lparr>m1 := (m1 s2)\<lparr>reply_spek := rep_spek r, reply_flags := rep_flags r\<rparr>\<rparr>)
              })
           })"

text \<open>\<^verbatim>\<open>dev_open\<close> and \<^verbatim>\<open>dev_close\<close> call \<^verbatim>\<open>no_call\<close> for every device of the table.\<close>

definition dev_open :: "u16 \<Rightarrow> int option" where
  "dev_open dev = (if known_dev dev then Some OK else None)"

definition dev_close :: "u16 \<Rightarrow> fs \<Rightarrow> fs option" where
  "dev_close dev s = (if known_dev dev then Some s else None)"

section \<open>Pipes\<close>

definition claim_fd :: "nat \<Rightarrow> nat option \<Rightarrow> fs \<Rightarrow> fs" where
  "claim_fd k f s = set_fproc (fp s) (\<lambda>p. p\<lparr>fp_filp := (fp_filp p)(k := f)\<rparr>) s"

definition do_pipe :: "fs_env \<Rightarrow> fs \<Rightarrow> (int \<times> fs) option" where
  "do_pipe e s0 =
     (let (r, fd0, f0, s1) = get_fd R_BIT s0
      in if r \<noteq> OK then Some (r, s1)
         else
           (let s2 = set_filp f0 (\<lambda>p. p\<lparr>filp_count := 1\<rparr>) (claim_fd fd0 (Some f0) s1);
                (r, fd1, f1, s3) = get_fd W_BIT s2
            in if r \<noteq> OK
               then Some (r, set_filp f0 (\<lambda>p. p\<lparr>filp_count := 0\<rparr>) (claim_fd fd0 None s3))
               else do {
                 let s4 = set_filp f1 (\<lambda>p. p\<lparr>filp_count := 1\<rparr>) (claim_fd fd1 (Some f1) s3);
                 wd \<leftarrow> fp_workdir (cur s4);
                 (q, s5) \<leftarrow> in_vol (alloc_inode e (cred_of s4) (i_dev (ino s4 wd)) I_REGULAR) s4;
                 (case q of
                    None \<Rightarrow>
                      (let s6 = set_filp f0 (\<lambda>p. p\<lparr>filp_count := 0\<rparr>) (claim_fd fd0 None s5);
                           s7 = set_filp f1 (\<lambda>p. p\<lparr>filp_count := 0\<rparr>) (claim_fd fd1 None s6)
                       in Some (err s7, s7))
                  | Some rip \<Rightarrow> do {
                      let s6 = on_vol (set_ino rip (\<lambda>p. p\<lparr>i_pipe := True\<rparr>)) s5;
                      let s7 = on_vol (dup_inode rip) (set_filp f0 (\<lambda>p. p\<lparr>filp_ino := Some rip\<rparr>) s6);
                      let s8 = set_filp f1 (\<lambda>p. p\<lparr>filp_ino := Some rip\<rparr>) s7;
                      s9 \<leftarrow> do_vol (rw_inode e rip True) s8;
                      Some (OK, s9\<lparr>m1 := (m1 s9)\<lparr>reply_i1 := int fd0, reply_i2 := int fd1\<rparr>\<rparr>)
                    })
               }))"

text \<open>
  \<^verbatim>\<open>do_unpause\<close>.  It calls \<^verbatim>\<open>get_filp\<close> with the saved word \<^verbatim>\<open>fp_fd\<close>, which holds the descriptor
  and the call number, on the table of the caller.  Its loop receives into another message than
  the one it tests, so it ends only if the first answer is the right one.
\<close>

definition do_unpause :: "fs_env \<Rightarrow> fs \<Rightarrow> (int \<times> fs) option" where
  "do_unpause e s =
     (if who s > MM_PROC_NR then Some (EPERM, s)
      else
        (let proc_nr = m_i1 (msg s)
         in if proc_nr < 0 \<or> proc_nr \<ge> NR_PROCS then None \<comment> \<open>panic: unpause err 1\<close>
            else if \<not> fp_suspended (fproc s proc_nr) then Some (OK, s)
            else
              (let task = - fp_task (fproc s proc_nr)
               in if task = XPIPE then Some (OK, s)
                  else do {
                    let (f, s1) = get_filp (fp_fd (fproc s proc_nr)) s;
                    f \<leftarrow> f;
                    rip \<leftarrow> filp_ino (filp s1 f);
                    let s2 = (out (CancelReq task (dev_minor (i_zone (ino s1 rip) 0)) proc_nr) s1)\<lparr>devs := devs s1 + 1\<rparr>;
                    (case v_task e (devs s1) of
                       [] \<Rightarrow> None
                     | r # _ \<Rightarrow>
                         (if rep_proc_nr r \<noteq> proc_nr then None
                          else do { s3 \<leftarrow> revive proc_nr EINTR s2; Some (OK, s3) }))
                  })))"

end
