(* ===== verification/FSRead.thy ===== *)
theory FSRead
  imports FSFile
begin

text \<open>
  READ and WRITE: \<^verbatim>\<open>fs/read.c\<close>, \<^verbatim>\<open>do_write\<close> of \<^verbatim>\<open>fs/write.c\<close>, and \<^verbatim>\<open>do_lseek\<close> of \<^verbatim>\<open>fs/open.c\<close>.
\<close>

abbreviation (input) "MAX_P_LONG \<equiv> (2147483647::int)"

section \<open>One chunk\<close>

text \<open>The buffer that \<^verbatim>\<open>rw_chunk\<close> works on: an existing block, a hole, or a new block.\<close>

definition chunk_buf :: "fs_env \<Rightarrow> nat \<Rightarrow> int \<Rightarrow> int \<Rightarrow> int \<Rightarrow> bool \<Rightarrow> vol \<Rightarrow> (nat option \<times> vol) option" where
  "chunk_buf e rip position off chunk writing v = do {
     let ip = inodes v rip;
     let block_spec = (i_mode ip AND I_TYPE = I_BLOCK_SPECIAL);
     (b, v1) \<leftarrow> (if block_spec then Some (word_of_int (position sdiv BLOCK_SIZE), v) else read_map e rip position v);
     let dev = (if block_spec then i_zone ip 0 else i_dev ip);
     (if \<not> block_spec \<and> b = NO_BLOCK
      then (if \<not> writing
            then do { (bp, v2) \<leftarrow> vget e NO_DEV NO_BLOCK False v1; Some (Some bp, vzero True bp v2) }
            else new_block e rip position v1)
      else do {
        let no_read = writing \<and> (chunk = BLOCK_SIZE \<or> (off = 0 \<and> position \<ge> i_size ip));
        (bp, v2) \<leftarrow> vget e dev b no_read v1;
        Some (Some bp, v2)
      })
   }"

definition rw_chunk :: "fs_env \<Rightarrow> nat \<Rightarrow> int \<Rightarrow> int \<Rightarrow> int \<Rightarrow> bool \<Rightarrow> u16 \<Rightarrow> nat \<Rightarrow> int \<Rightarrow> fs \<Rightarrow> (int \<times> fs) option" where
  "rw_chunk e rip position off chunk writing buff seg usr s = do {
     (q, s1) \<leftarrow> in_vol (chunk_buf e rip position off chunk writing) s;
     (case q of
        None \<Rightarrow> Some (err s1, s1)
      | Some bp \<Rightarrow> do {
          let ip = ino s1 rip;
          let block_spec = (i_mode ip AND I_TYPE = I_BLOCK_SPECIAL);
          let s2 = (if writing \<and> chunk \<noteq> BLOCK_SIZE \<and> \<not> block_spec \<and> position \<ge> i_size ip \<and> off = 0
                    then on_vol (vzero True bp) s1 else s1);
          let (r, s3) =
            (if writing
             then (let (r, d, s3) = from_user e seg usr buff s2
                   in (r, on_vol (\<lambda>v. v\<lparr>cch := set_buf bp (\<lambda>b. b\<lparr>
                             b_data := (if r = OK
                                        then (\<lambda>i. if nat off \<le> i \<and> i < nat (off + chunk) then d (i - nat off) else b_data b i)
                                        else b_data b),
                             b_dirt := True\<rparr>) (cch v)\<rparr>) s3))
             else to_user e seg usr buff (nat chunk) (\<lambda>i. b_data (bufs (cch (vol s2)) bp) (nat off + i)) s2);
          s4 \<leftarrow> do_vol (vput e (Some bp) (if off + chunk = BLOCK_SIZE then FULL_DATA_BLOCK else PARTIAL_DATA_BLOCK)) s3;
          Some (r, s4)
        })
   }"

section \<open>The transfer loop\<close>

text \<open>
  The loop of \<^verbatim>\<open>read_write\<close>, which keeps its counters in the request message: \<open>nb\<close> is
  \<^verbatim>\<open>nbytes\<close> as the unsigned number that \<^verbatim>\<open>MIN\<close> compares.
\<close>

definition next_chunk :: "bool \<Rightarrow> u16 \<Rightarrow> int \<Rightarrow> int \<Rightarrow> int" where
  "next_chunk writing nb position bytes_left =
     (let chunk = min (uint nb) (BLOCK_SIZE - position smod BLOCK_SIZE)
      in if \<not> writing \<and> chunk > bytes_left then bytes_left else chunk)"

lemma chunk_progress:
  assumes "0 < k" "k \<le> uint (nb :: u16)"
  shows "unat (nb - word_of_int k) < unat nb"
proof -
  have w: "uint (word_of_int k :: u16) = k"
    using assms uint_lt2p [of nb] by (simp add: uint_word_of_int mod_pos_pos_trivial)
  have "(word_of_int k :: u16) \<le> nb" unfolding word_le_def w by (rule assms(2))
  moreover have "(word_of_int k :: u16) \<noteq> 0" using w assms(1) by auto
  ultimately show ?thesis by (metis unat_sub word_le_nat_alt diff_less le_zero_eq linorder_not_less unat_eq_zero)
qed

function rw_loop :: "fs_env \<Rightarrow> bool \<Rightarrow> nat \<Rightarrow> int \<Rightarrow> nat \<Rightarrow> int \<Rightarrow> u16 \<Rightarrow> u16 \<Rightarrow> int \<Rightarrow> u16 \<Rightarrow> int \<Rightarrow> fs
    \<Rightarrow> (int \<times> int \<times> u16 \<times> fs) option" where
  "rw_loop e writing rip f_size seg usr nb buff position cum_io r s =
     (if nb = 0 \<or> (\<not> writing \<and> f_size - position \<le> 0) then Some (r, position, cum_io, s)
      else if next_chunk writing nb position (f_size - position) \<le> 0 \<or>
              next_chunk writing nb position (f_size - position) > uint nb then None
      else
        (let chunk = next_chunk writing nb position (f_size - position)
         in case rw_chunk e rip position (position smod BLOCK_SIZE) chunk writing buff seg usr s of
              None \<Rightarrow> None
            | Some (r1, s1) \<Rightarrow>
                if r1 \<noteq> OK \<or> rdwt_err (cch (vol s1)) < 0 then Some (r1, position, cum_io, s1)
                else rw_loop e writing rip f_size seg usr (nb - word_of_int chunk) (buff + word_of_int chunk)
                       (long_of (position + chunk)) (cum_io + word_of_int chunk) r1 s1))"
  by pat_completeness auto
termination
  by (relation "measure (\<lambda>(e, writing, rip, f_size, seg, usr, nb, buff, position, cum_io, r, s). unat nb)")
     (auto intro: chunk_progress)

declare rw_loop.simps [simp del]

section \<open>READ and WRITE\<close>

text \<open>The memory manager encodes user and segment in the upper bits of the descriptor.\<close>

definition split_fd :: "fs \<Rightarrow> int \<times> nat \<times> int" where
  "split_fd s =
     (let fd = word_of_int (m_i1 (msg s)) :: u16
      in if who s = MM_PROC_NR \<and> fd AND NOT 255 \<noteq> 0
         then (uint (drop_bit 8 fd AND 255), unat (drop_bit 6 fd AND 3), uint (fd AND 63))
         else (who s, SEG_D, m_i1 (msg s)))"

text \<open>The part for files, pipes and block devices: result, position, bytes moved; or an early return.\<close>

datatype xfer = Return int | Moved int int u16

definition file_transfer :: "fs_env \<Rightarrow> bool \<Rightarrow> nat \<Rightarrow> int \<Rightarrow> int \<Rightarrow> nat \<Rightarrow> int \<Rightarrow> fs \<Rightarrow> (xfer \<times> fs) option" where
  "file_transfer e writing rip f_size position seg usr s = do {
     let ip = ino s rip;
     let grow = (writing \<and> i_mode ip AND I_TYPE \<noteq> I_BLOCK_SPECIAL);
     sp \<leftarrow> (if grow then get_super (i_dev ip) (vol s) else Some 0);
     (if grow \<and> position > long_of (s_max_size (super_block (vol s) sp) - m_i2 (msg s))
      then Some (Return EFBIG, s)
      else do {
        s1 \<leftarrow> (if grow \<and> position > f_size then do_vol (clear_zone e rip f_size False) s else Some s);
        (r, s2) \<leftarrow> (if i_pipe (ino s1 rip) then pipe_check rip writing True (m_i2 (msg s1)) position s1 else Some (OK, s1));
        (if i_pipe (ino s1 rip) \<and> r \<le> 0 then Some (Return r, s2)
         else do {
           (r1, pos1, cum, s3) \<leftarrow> rw_loop e writing rip f_size seg usr (word_of_int (m_i2 (msg s2))) (m_p1 (msg s2)) position 0 r s2;
           Some (Moved r1 pos1 cum, s3)
         })
      })
   }"

text \<open>The end of \<^verbatim>\<open>read_write\<close>: sizes, times, file position, read-ahead and the result.\<close>

definition finish_rw :: "fs_env \<Rightarrow> bool \<Rightarrow> nat \<Rightarrow> nat \<Rightarrow> u16 \<Rightarrow> int \<Rightarrow> int \<Rightarrow> int \<Rightarrow> u16 \<Rightarrow> fs \<Rightarrow> (int \<times> fs) option" where
  "finish_rw e writing f rip mode_word f_size r position0 cum_io s = do {
     (position, s1) \<leftarrow>
       (if writing
        then do {
          let s1 = (if mode_word \<noteq> I_CHAR_SPECIAL \<and> mode_word \<noteq> I_BLOCK_SPECIAL \<and> position0 > f_size
                    then on_vol (set_ino rip (\<lambda>p. p\<lparr>i_size := position0\<rparr>)) s else s);
          (t, s2) \<leftarrow> in_vol (clock_time e) s1;
          Some (position0, on_vol (set_ino rip (\<lambda>p. p\<lparr>i_modtime := t, i_dirt := True\<rparr>)) s2)
        }
        else if i_pipe (ino s rip) \<and> position0 \<ge> i_size (ino s rip)
        then (let s1 = on_vol (set_ino rip (\<lambda>p. p\<lparr>i_size := 0\<rparr>)) s
              in Some (0, case find_filp rip W_BIT s1 of None \<Rightarrow> s1
                          | Some g \<Rightarrow> set_filp g (\<lambda>p. p\<lparr>filp_pos := 0\<rparr>) s1))
        else Some (position0, s));
     let s2 = set_filp f (\<lambda>p. p\<lparr>filp_pos := position\<rparr>) s1;
     let s3 = (if \<not> writing \<and> \<not> i_seek (ino s2 rip) \<and> position smod BLOCK_SIZE = 0
                  \<and> (mode_word = I_REGULAR \<or> mode_word = I_DIRECTORY)
               then s2\<lparr>rdahed_inode := Some rip, rdahedpos := position\<rparr> else s2);
     let s4 = (if mode_word = I_REGULAR then on_vol (set_ino rip (\<lambda>p. p\<lparr>i_seek := False\<rparr>)) s3 else s3);
     let e1 = rdwt_err (cch (vol s4));
     let r1 = (if e1 = EOF then sint cum_io else if e1 \<noteq> OK then e1 else r);
     Some (if r1 = OK then sint cum_io else r1, s4)
   }"

definition read_write :: "fs_env \<Rightarrow> bool \<Rightarrow> fs \<Rightarrow> (int \<times> fs) option" where
  "read_write e writing s0 =
     (let (usr, seg, fd) = split_fd s0;
          s = s0\<lparr>msg := (msg s0)\<lparr>m_i1 := fd\<rparr>\<rparr>; nbytes = m_i2 (msg s)
      in if nbytes = 0 then Some (0, s)
         else if who s \<noteq> MM_PROC_NR \<and> nbytes < 0 then Some (EINVAL, s)
         else
           (let (q, s1) = get_filp fd s
            in case q of None \<Rightarrow> Some (err s1, s1)
               | Some f \<Rightarrow>
                   if \<not> has_flag (filp_mode (filp s1 f)) (if writing then W_BIT else R_BIT) then Some (EBADF, s1)
                   else if filp_pos (filp s1 f) < 0 then Some (EINVAL, s1)
                   else do {
                     rip \<leftarrow> filp_ino (filp s1 f);
                     let position = filp_pos (filp s1 f);
                     let mode_word = i_mode (ino s1 rip) AND I_TYPE;
                     let f_size = (if mode_word = I_BLOCK_SPECIAL \<and> i_size (ino s1 rip) = 0 then MAX_P_LONG
                                   else i_size (ino s1 rip));
                     let s2 = on_vol (\<lambda>v. v\<lparr>cch := (cch v)\<lparr>rdwt_err := OK\<rparr>\<rparr>) s1;
                     (x, s3) \<leftarrow>
                       (if mode_word = I_CHAR_SPECIAL
                        then do {
                          (r, s3) \<leftarrow> dev_io e writing (i_zone (ino s2 rip) 0) position nbytes (who s2) (m_p1 (msg s2)) s2;
                          Some (if r \<ge> 0 then Moved OK (long_of (position + r)) (word_of_int r) else Moved r position 0, s3)
                        }
                        else file_transfer e writing rip f_size position seg usr s2);
                     (case x of Return r \<Rightarrow> Some (r, s3)
                      | Moved r pos1 cum \<Rightarrow> finish_rw e writing f rip mode_word f_size r pos1 cum s3)
                   }))"

definition do_read :: "fs_env \<Rightarrow> fs \<Rightarrow> (int \<times> fs) option" where
  "do_read e s = read_write e False s"

definition do_write :: "fs_env \<Rightarrow> fs \<Rightarrow> (int \<times> fs) option" where
  "do_write e s = read_write e True s"

definition read_ahead :: "fs_env \<Rightarrow> fs \<Rightarrow> fs option" where
  "read_ahead e s = do {
     rip \<leftarrow> rdahed_inode s;
     (b, s1) \<leftarrow> in_vol (read_map e rip (rdahedpos s)) (s\<lparr>rdahed_inode := None\<rparr>);
     (if b = NO_BLOCK then Some s1
      else do {
        (bp, s2) \<leftarrow> in_vol (vget e (i_dev (ino s1 rip)) b False) s1;
        do_vol (vput e (Some bp) PARTIAL_DATA_BLOCK) s2
      })
   }"

definition do_lseek :: "fs \<Rightarrow> (int \<times> fs) option" where
  "do_lseek s0 =
     (let (q, s) = get_filp (m_i1 (msg s0)) s0; offset = m_l1 (msg s0); whence = m_i2 (msg s0)
      in case q of None \<Rightarrow> Some (err s, s)
         | Some f \<Rightarrow> do {
             rip \<leftarrow> filp_ino (filp s f);
             (if i_pipe (ino s rip) then Some (ESPIPE, s)
              else if whence < 0 \<or> whence > 2 then Some (EINVAL, s)
              else
                (let pos = long_of (if whence = 0 then offset else if whence = 1 then filp_pos (filp s f) + offset
                                    else i_size (ino s rip) + offset)
                 in if pos < 0 then Some (EINVAL, s)
                    else (let s1 = set_filp f (\<lambda>p. p\<lparr>filp_pos := pos\<rparr>)
                                     (on_vol (set_ino rip (\<lambda>p. p\<lparr>i_seek := True\<rparr>)) s)
                          in Some (OK, s1\<lparr>m1 := (m1 s1)\<lparr>reply_l1 := pos\<rparr>\<rparr>))))
           })"

end
