(* ===== verification/FSOpen.thy ===== *)
theory FSOpen
  imports FSRead
begin

text \<open>
  SYNC (\<^verbatim>\<open>fs/misc.c\<close>), CREAT, MKNOD, OPEN and CLOSE (\<^verbatim>\<open>fs/open.c\<close>), LINK and UNLINK (\<^verbatim>\<open>fs/link.c\<close>).
\<close>

section \<open>SYNC\<close>

definition flush_bufs :: "fs_env \<Rightarrow> bool \<Rightarrow> cache \<Rightarrow> cache option" where
  "flush_bufs e zero_minor =
     each (\<lambda>bp c. let b = bufs c bp
                  in if b_dev b \<noteq> NO_DEV \<and> b_dirt b \<and> (b_dev b AND 255 = 0) = zero_minor
                     then rw_block e bp True c else Some c) [0..<NR_BUFS]"

definition sync_vol :: "fs_env \<Rightarrow> vol \<Rightarrow> vol option" where
  "sync_vol e v = do {
     sp \<leftarrow> get_super ROOT_DEV v;
     (t, v1) \<leftarrow> clock_time e v;
     let v2 = set_super sp (\<lambda>s. s\<lparr>s_time := t, s_dirt := (if s_rd_only s = 0 then 1 else s_dirt s)\<rparr>) v1;
     v3 \<leftarrow> each (\<lambda>rip v. if i_count (inodes v rip) > 0 \<and> i_dirt (inodes v rip) then rw_inode e rip True v else Some v)
             [0..<NR_INODES] v2;
     v4 \<leftarrow> each (\<lambda>sp v. if s_dev (super_block v sp) \<noteq> NO_DEV \<and> s_dirt (super_block v sp) = 1
                        then rw_super e sp True v else Some v) [0..<NR_SUPERS] v3;
     c1 \<leftarrow> flush_bufs e True (cch v4);
     c2 \<leftarrow> flush_bufs e False c1;
     Some (v4\<lparr>cch := c2\<rparr>)
   }"

definition do_sync :: "fs_env \<Rightarrow> fs \<Rightarrow> (int \<times> fs) option" where
  "do_sync e s = do { s1 \<leftarrow> do_vol (sync_vol e) s; Some (OK, s1) }"

section \<open>Finding the inode of a path argument\<close>

definition path_inode :: "fs_env \<Rightarrow> u16 \<Rightarrow> int \<Rightarrow> bool \<Rightarrow> fs \<Rightarrow> (nat option \<times> fs) option" where
  "path_inode e addr len in_msg s = do {
     (r, s1) \<leftarrow> fetch_name e addr len in_msg s;
     (if r \<noteq> OK then Some (None, s1) else in_vol (eat_path e (pctx_of s1)) s1)
   }"

definition iput :: "fs_env \<Rightarrow> nat option \<Rightarrow> fs \<Rightarrow> fs option" where
  "iput e p = do_vol (put_inode e p)"

definition set_in :: "nat \<Rightarrow> (inode \<Rightarrow> inode) \<Rightarrow> fs \<Rightarrow> fs" where
  "set_in i f = on_vol (set_ino i f)"

section \<open>CREAT and MKNOD\<close>

definition new_node :: "fs_env \<Rightarrow> u16 \<Rightarrow> u16 \<Rightarrow> fs \<Rightarrow> (nat option \<times> fs) option" where
  "new_node e bits z0 s = do {
     (q, nm, v1) \<leftarrow> last_dir e (pctx_of s) (vol s);
     (case q of
        None \<Rightarrow> Some (None, s\<lparr>vol := v1\<rparr>)
      | Some dirp \<Rightarrow> do {
          (rip, s2) \<leftarrow> in_vol (advance e (cred_of s) dirp nm) (s\<lparr>vol := v1\<rparr>);
          (if rip = None \<and> err s2 = ENOENT
           then do {
             (q2, s3) \<leftarrow> in_vol (alloc_inode e (cred_of s) (i_dev (ino s2 dirp)) bits) s2;
             (case q2 of
                None \<Rightarrow> do { s4 \<leftarrow> iput e (Some dirp) s3; Some (None, s4) }
              | Some ip \<Rightarrow> do {
                  s4 \<leftarrow> do_vol (rw_inode e ip True)
                          (set_in ip (\<lambda>p. p\<lparr>i_nlinks := i_nlinks p + 1, i_zone := (i_zone p)(0 := z0)\<rparr>) s3);
                  (r, num, v5) \<leftarrow> search_dir e (cred_of s) dirp nm (i_num (ino s4 ip)) ENTER (vol s4);
                  let s5 = s4\<lparr>vol := v5\<rparr>;
                  s6 \<leftarrow> iput e (Some dirp) s5;
                  (if r \<noteq> OK
                   then do {
                     s7 \<leftarrow> iput e (Some ip) (set_in ip (\<lambda>p. p\<lparr>i_nlinks := i_nlinks p - 1, i_dirt := True\<rparr>) s6);
                     Some (None, set_err r s7)
                   }
                   else Some (Some ip, set_err OK s6))
                })
           }
           else do {
             s3 \<leftarrow> iput e (Some dirp) s2;
             Some (rip, set_err (if rip \<noteq> None then EEXIST else err s2) s3)
           })
        })
   }"

definition claim :: "nat \<Rightarrow> nat \<Rightarrow> nat \<Rightarrow> fs \<Rightarrow> fs" where
  "claim k f rip s = set_filp f (\<lambda>p. p\<lparr>filp_count := 1, filp_ino := Some rip\<rparr>) (claim_fd k (Some f) s)"

definition do_creat :: "fs_env \<Rightarrow> fs \<Rightarrow> (int \<times> fs) option" where
  "do_creat e s = do {
     (r, s1) \<leftarrow> fetch_name e (m_p3 (msg s)) (m_i1 (msg s)) True s;
     (if r \<noteq> OK then Some (err s1, s1)
      else
        (let (r, k, f, s2) = get_fd W_BIT s1
         in if r \<noteq> OK then Some (r, s2)
            else do {
              let bits = I_REGULAR OR (word_of_int (m_i2 (msg s2)) AND ALL_MODES AND fp_umask (cur s2));
              (q, s3) \<leftarrow> new_node e bits NO_ZONE s2;
              let r = err s3;
              (if r \<noteq> OK \<and> r \<noteq> EEXIST then Some (r, s3)
               else do {
                 rip \<leftarrow> q;
                 let mode_word = i_mode (ino s3 rip) AND I_TYPE;
                 (r, s4) \<leftarrow>
                   (if r = OK then Some (OK, s3)
                    else if mode_word = I_REGULAR
                    then do {
                      r \<leftarrow> forbidden (cred_of s3) rip W_BIT False (vol s3);
                      (if r = OK then do { s4 \<leftarrow> do_vol (truncate_file e rip) s3; Some (OK, s4) } else Some (r, s3))
                    }
                    else if mode_word = I_DIRECTORY then Some (EISDIR, s3)
                    else if mode_word = I_CHAR_SPECIAL \<or> mode_word = I_BLOCK_SPECIAL
                    then do {
                      r \<leftarrow> forbidden (cred_of s3) rip W_BIT False (vol s3);
                      (if r \<noteq> OK then Some (r, s3)
                       else do { r \<leftarrow> dev_open (i_zone (ino s3 rip) 0); Some (r, s3) })
                    }
                    else Some (EEXIST, s3));
                 (if r \<noteq> OK then do { s5 \<leftarrow> iput e (Some rip) s4; Some (r, s5) }
                  else Some (int k, claim k f rip s4))
               })
            }))
   }"

definition do_mknod :: "fs_env \<Rightarrow> fs \<Rightarrow> (int \<times> fs) option" where
  "do_mknod e s =
     (if \<not> super_user s then Some (EPERM, s)
      else do {
        (r, s1) \<leftarrow> fetch_name e (m_p1 (msg s)) (m_i1 (msg s)) False s;
        (if r \<noteq> OK then Some (err s1, s1)
         else do {
           let mode = (word_of_int (m_i2 (msg s1)) :: u16);
           let bits = (mode AND I_TYPE) OR (mode AND ALL_MODES AND fp_umask (cur s1));
           (q, s2) \<leftarrow> new_node e bits (word_of_int (m_i3 (msg s1))) s1;
           s3 \<leftarrow> iput e q s2;
           Some (err s3, s3)
         })
      })"

section \<open>OPEN and CLOSE\<close>

definition do_open :: "fs_env \<Rightarrow> fs \<Rightarrow> (int \<times> fs) option" where
  "do_open e s =
     (let mode = m_i2 (msg s)
      in if mode < 0 \<or> mode > 2 then Some (EINVAL, s)
         else do {
           (r, s1) \<leftarrow> fetch_name e (m_p3 (msg s)) (m_i1 (msg s)) True s;
           (if r \<noteq> OK then Some (err s1, s1)
            else
              (let bits = [R_BIT, W_BIT, R_BIT OR W_BIT] ! nat mode; (r, k, f, s2) = get_fd bits s1
               in if r \<noteq> OK then Some (r, s2)
                  else do {
                    (q, s3) \<leftarrow> in_vol (eat_path e (pctx_of s2)) s2;
                    (case q of
                       None \<Rightarrow> Some (err s3, s3)
                     | Some rip \<Rightarrow> do {
                         r \<leftarrow> forbidden (cred_of s3) rip bits False (vol s3);
                         (if r \<noteq> OK then do { s4 \<leftarrow> iput e (Some rip) s3; Some (r, s4) }
                          else do {
                            let mode_word = i_mode (ino s3 rip) AND I_TYPE;
                            let dev = i_zone (ino s3 rip) 0;
                            (if mode_word = I_DIRECTORY \<and> has_flag bits W_BIT
                             then do { s4 \<leftarrow> iput e (Some rip) s3; Some (EISDIR, s4) }
                             else do {
                               let s4 = (if mode_word = I_CHAR_SPECIAL \<and> fs_tty (cur s3) = 0
                                         then set_fproc (fp s3) (\<lambda>p. p\<lparr>fs_tty := dev\<rparr>) s3 else s3);
                               _ \<leftarrow> (if mode_word = I_CHAR_SPECIAL \<or> mode_word = I_BLOCK_SPECIAL
                                     then dev_open dev else Some OK);
                               Some (int k, claim k f rip s4)
                             })
                          })
                       })
                  }))
         })"

definition do_close :: "fs_env \<Rightarrow> fs \<Rightarrow> (int \<times> fs) option" where
  "do_close e s0 =
     (let fd = m_i1 (msg s0); (q, s) = get_filp fd s0
      in case q of None \<Rightarrow> Some (err s, s)
         | Some f \<Rightarrow> do {
             rip \<leftarrow> filp_ino (filp s f);
             let mode_word = i_mode (ino s rip) AND I_TYPE;
             let dev = i_zone (ino s rip) 0;
             s1 \<leftarrow> (if mode_word = I_BLOCK_SPECIAL
                    then do {
                      s1 \<leftarrow> do_vol (sync_vol e) s;
                      Some (if mounted rip (vol s1) then s1
                            else on_vol (\<lambda>v. v\<lparr>cch := invalidate dev (cch v)\<rparr>) s1)
                    }
                    else Some s);
             s2 \<leftarrow> (if mode_word = I_CHAR_SPECIAL \<or> mode_word = I_BLOCK_SPECIAL then dev_close dev s1 else Some s1);
             s3 \<leftarrow> (if i_pipe (ino s2 rip)
                    then release rip (if has_flag (filp_mode (filp s2 f)) R_BIT then C_WRITE else C_READ) NR_PROCS s2
                    else Some s2);
             let s4 = set_filp f (\<lambda>p. p\<lparr>filp_count := filp_count p - 1\<rparr>) s3;
             s5 \<leftarrow> (if filp_count (filp s4 f) = 0 then iput e (Some rip) s4 else Some s4);
             Some (OK, claim_fd (nat fd) None s5)
           })"

section \<open>LINK and UNLINK\<close>

text \<open>The second half of \<^verbatim>\<open>do_link\<close>: the file \<open>rip\<close> is held.\<close>

definition link_to :: "fs_env \<Rightarrow> nat \<Rightarrow> fs \<Rightarrow> (int \<times> fs) option" where
  "link_to e rip s = do {
     (q, nm, v1) \<leftarrow> last_dir e (pctx_of s) (vol s);
     let s1 = s\<lparr>vol := v1\<rparr>;
     (r, s2) \<leftarrow>
       (case q of
          None \<Rightarrow> Some (err s1, s1)
        | Some ip \<Rightarrow> do {
            (new_ip, s2) \<leftarrow> in_vol (advance e (cred_of s1) ip nm) s1;
            (r, s3) \<leftarrow> (if new_ip = None then Some (if err s2 = ENOENT then OK else err s2, s2)
                       else do { s3 \<leftarrow> iput e new_ip s2; Some (EEXIST, s3) });
            let r1 = (if r = OK \<and> i_dev (ino s3 rip) \<noteq> i_dev (ino s3 ip) then EXDEV else r);
            (if r1 \<noteq> OK then Some (r1, s3)
             else do {
               (r2, n, v4) \<leftarrow> search_dir e (cred_of s3) ip nm (i_num (ino s3 rip)) ENTER (vol s3);
               Some (r2, s3\<lparr>vol := v4\<rparr>)
             })
          });
     let s3 = (if r = OK then set_in rip (\<lambda>p. p\<lparr>i_nlinks := i_nlinks p + 1, i_dirt := True\<rparr>) s2 else s2);
     s4 \<leftarrow> iput e (Some rip) s3;
     s5 \<leftarrow> iput e q s4;
     Some (r, s5)
   }"

definition do_link :: "fs_env \<Rightarrow> fs \<Rightarrow> (int \<times> fs) option" where
  "do_link e s = do {
     (q, s1) \<leftarrow> path_inode e (m_p1 (msg s)) (m_i1 (msg s)) False s;
     (case q of
        None \<Rightarrow> Some (err s1, s1)
      | Some rip \<Rightarrow>
          (let ip = ino s1 rip; r0 = (if i_nlinks ip = 127 then EMLINK else OK);
               r = (if r0 = OK \<and> i_mode ip AND I_TYPE = I_DIRECTORY \<and> \<not> super_user s1 then EPERM else r0)
           in if r \<noteq> OK then do { s2 \<leftarrow> iput e (Some rip) s1; Some (r, s2) }
              else do {
                (r2, s2) \<leftarrow> fetch_name e (m_p2 (msg s1)) (m_i2 (msg s1)) False s1;
                (if r2 \<noteq> OK then Some (err s2, s2) else link_to e rip s2)
              }))
   }"

definition do_unlink :: "fs_env \<Rightarrow> fs \<Rightarrow> (int \<times> fs) option" where
  "do_unlink e s = do {
     (r, s1) \<leftarrow> fetch_name e (m_p3 (msg s)) (m_i1 (msg s)) True s;
     (if r \<noteq> OK then Some (err s1, s1)
      else do {
        (q, nm, v2) \<leftarrow> last_dir e (pctx_of s1) (vol s1);
        let s2 = s1\<lparr>vol := v2\<rparr>;
        (case q of
           None \<Rightarrow> Some (err s2, s2)
         | Some dirp \<Rightarrow> do {
             (q2, s3) \<leftarrow> in_vol (advance e (cred_of s2) dirp nm) s2;
             (case q2 of
                None \<Rightarrow> do { let r = err s3; s4 \<leftarrow> iput e (Some dirp) s3; Some (r, s4) }
              | Some rip \<Rightarrow> do {
                  (r, s4) \<leftarrow>
                    (if i_mode (ino s3 rip) AND I_TYPE = I_DIRECTORY \<and> \<not> super_user s3 then Some (EPERM, s3)
                     else do {
                       (r, n, v4) \<leftarrow> search_dir e (cred_of s3) dirp nm 0 DELETE (vol s3);
                       Some (r, s3\<lparr>vol := v4\<rparr>)
                     });
                  let s5 = (if r = OK then set_in rip (\<lambda>p. p\<lparr>i_nlinks := i_nlinks p - 1, i_dirt := True\<rparr>) s4 else s4);
                  s6 \<leftarrow> iput e (Some rip) s5;
                  s7 \<leftarrow> iput e (Some dirp) s6;
                  Some (r, s7)
                })
           })
      })
   }"

end
