(* ===== verification/FSCalls.thy ===== *)
theory FSCalls
  imports FSOpen
begin

text \<open>
  The remaining calls: protection (\<^verbatim>\<open>fs/protect.c\<close>), directories and status (\<^verbatim>\<open>fs/stadir.c\<close>),
  times (\<^verbatim>\<open>fs/time.c\<close>), \<^verbatim>\<open>fs/misc.c\<close> and \<^verbatim>\<open>fs/mount.c\<close>.
\<close>

section \<open>CHMOD, CHOWN, UMASK, ACCESS\<close>

definition do_chmod :: "fs_env \<Rightarrow> fs \<Rightarrow> (int \<times> fs) option" where
  "do_chmod e s = do {
     (q, s1) \<leftarrow> path_inode e (m_p3 (msg s)) (m_i1 (msg s)) True s;
     (case q of None \<Rightarrow> Some (err s1, s1)
      | Some rip \<Rightarrow> do {
          r \<leftarrow> (if i_uid (ino s1 rip) \<noteq> fp_effuid (cur s1) \<and> \<not> super_user s1 then Some EPERM
                else read_only rip (vol s1));
          let s2 = (if r \<noteq> OK then s1
                    else set_in rip (\<lambda>p. p\<lparr>i_mode := (i_mode p AND NOT ALL_MODES) OR (word_of_int (m_i2 (msg s1)) AND ALL_MODES),
                                           i_dirt := True\<rparr>) s1);
          s3 \<leftarrow> iput e (Some rip) s2;
          Some (r, s3)
        })
   }"

definition do_chown :: "fs_env \<Rightarrow> fs \<Rightarrow> (int \<times> fs) option" where
  "do_chown e s =
     (if \<not> super_user s then Some (EPERM, s)
      else do {
        (q, s1) \<leftarrow> path_inode e (m_p1 (msg s)) (m_i1 (msg s)) False s;
        (case q of None \<Rightarrow> Some (err s1, s1)
         | Some rip \<Rightarrow> do {
             r \<leftarrow> read_only rip (vol s1);
             let s2 = (if r \<noteq> OK then s1
                       else set_in rip (\<lambda>p. p\<lparr>i_uid := word_of_int (m_i2 (msg s1)), i_gid := word_of_int (m_i3 (msg s1)),
                                              i_dirt := True\<rparr>) s1);
             s3 \<leftarrow> iput e (Some rip) s2;
             Some (r, s3)
           })
      })"

definition do_umask :: "fs \<Rightarrow> (int \<times> fs) option" where
  "do_umask s =
     Some (sint (NOT (fp_umask (cur s))),
           set_fproc (fp s) (\<lambda>p. p\<lparr>fp_umask := NOT (word_of_int (m_i1 (msg s)) AND RWX_MODES)\<rparr>) s)"

definition do_access :: "fs_env \<Rightarrow> fs \<Rightarrow> (int \<times> fs) option" where
  "do_access e s = do {
     (q, s1) \<leftarrow> path_inode e (m_p3 (msg s)) (m_i1 (msg s)) True s;
     (case q of None \<Rightarrow> Some (err s1, s1)
      | Some rip \<Rightarrow> do {
          r \<leftarrow> forbidden (cred_of s1) rip (word_of_int (m_i2 (msg s1))) True (vol s1);
          s2 \<leftarrow> iput e (Some rip) s1;
          Some (r, s2)
        })
   }"

section \<open>CHDIR, CHROOT, STAT, FSTAT\<close>

text \<open>\<^verbatim>\<open>change\<close> is given the pointer to replace, here by reading and writing it.\<close>

definition change :: "fs_env \<Rightarrow> (fproc \<Rightarrow> nat option) \<Rightarrow> (nat option \<Rightarrow> fproc \<Rightarrow> fproc) \<Rightarrow> fs \<Rightarrow> (int \<times> fs) option" where
  "change e get put s = do {
     (q, s1) \<leftarrow> path_inode e (m_p3 (msg s)) (m_i1 (msg s)) True s;
     (case q of None \<Rightarrow> Some (err s1, s1)
      | Some rip \<Rightarrow> do {
          r \<leftarrow> (if i_mode (ino s1 rip) AND I_TYPE \<noteq> I_DIRECTORY then Some ENOTDIR
                else forbidden (cred_of s1) rip X_BIT False (vol s1));
          (if r \<noteq> OK then do { s2 \<leftarrow> iput e (Some rip) s1; Some (r, s2) }
           else do {
             s2 \<leftarrow> iput e (get (cur s1)) s1;
             Some (OK, set_fproc (fp s2) (put (Some rip)) s2)
           })
        })
   }"

definition do_chdir :: "fs_env \<Rightarrow> fs \<Rightarrow> (int \<times> fs) option" where
  "do_chdir e s =
     (if who s = MM_PROC_NR
      then do {
        let rfp = m_i1 (msg s);
        let cd = (m_i2 (msg s) \<noteq> 0);
        s1 \<leftarrow> iput e (fp_workdir (cur s)) s;
        let wd = (if cd then fp_rootdir (cur s1) else fp_workdir (fproc s1 rfp));
        let s2 = set_fproc (fp s1) (\<lambda>p. p\<lparr>fp_workdir := wd\<rparr>) s1;
        ip \<leftarrow> wd;
        let s3 = on_vol (dup_inode ip) s2;
        Some (OK, set_fproc (fp s3) (\<lambda>p. p\<lparr>fp_effuid := (if cd then 0 else fp_effuid (fproc s3 rfp))\<rparr>) s3)
      }
      else change e fp_workdir (\<lambda>x p. p\<lparr>fp_workdir := x\<rparr>) s)"

definition do_chroot :: "fs_env \<Rightarrow> fs \<Rightarrow> (int \<times> fs) option" where
  "do_chroot e s =
     (if \<not> super_user s then Some (EPERM, s) else change e fp_rootdir (\<lambda>x p. p\<lparr>fp_rootdir := x\<rparr>) s)"

text \<open>The 30 bytes of \<^verbatim>\<open>struct stat\<close>.\<close>

definition stat_bytes :: "inode \<Rightarrow> int \<Rightarrow> block" where
  "stat_bytes ip sz =
     (let t = word_of_int (i_modtime ip)
      in wr32 26 t (wr32 22 t (wr32 18 t (wr32 14 (word_of_int sz)
           (wr16 12 (i_zone ip 0) (wr16 10 (ucast (i_gid ip)) (wr16 8 (i_uid ip) (wr16 6 (ucast (i_nlinks ip))
           (wr16 4 (i_mode ip) (wr16 2 (i_num ip) (wr16 0 (i_dev ip) (\<lambda>_. 0))))))))))))"

definition stat_inode :: "fs_env \<Rightarrow> nat \<Rightarrow> nat option \<Rightarrow> u16 \<Rightarrow> fs \<Rightarrow> int \<times> fs" where
  "stat_inode e rip fil_ptr user_addr s =
     (let ip = ino s rip;
          sz = (case fil_ptr of None \<Rightarrow> i_size ip
                | Some f \<Rightarrow> if i_pipe ip \<and> filp_mode (filp s f) = R_BIT then long_of (i_size ip - filp_pos (filp s f))
                            else i_size ip)
      in to_user e SEG_D (who s) user_addr 30 (stat_bytes ip sz) s)"

definition do_stat :: "fs_env \<Rightarrow> fs \<Rightarrow> (int \<times> fs) option" where
  "do_stat e s = do {
     (q, s1) \<leftarrow> path_inode e (m_p1 (msg s)) (m_i1 (msg s)) False s;
     (case q of None \<Rightarrow> Some (err s1, s1)
      | Some rip \<Rightarrow> do {
          let (r, s2) = stat_inode e rip None (m_p2 (msg s1)) s1;
          s3 \<leftarrow> iput e (Some rip) s2;
          Some (r, s3)
        })
   }"

definition do_fstat :: "fs_env \<Rightarrow> fs \<Rightarrow> (int \<times> fs) option" where
  "do_fstat e s0 =
     (let (q, s) = get_filp (m_i1 (msg s0)) s0
      in case q of None \<Rightarrow> Some (err s, s)
         | Some f \<Rightarrow> do { rip \<leftarrow> filp_ino (filp s f); Some (stat_inode e rip (Some f) (m_p1 (msg s)) s) })"

section \<open>Times\<close>

definition do_utime :: "fs_env \<Rightarrow> fs \<Rightarrow> (int \<times> fs) option" where
  "do_utime e s = do {
     (q, s1) \<leftarrow> path_inode e (m_2p1 (msg s)) (m_i1 (msg s)) False s;
     (case q of None \<Rightarrow> Some (err s1, s1)
      | Some rip \<Rightarrow> do {
          let r = (if i_uid (ino s1 rip) \<noteq> fp_effuid (cur s1) \<and> \<not> super_user s1 then EPERM else OK);
          let s2 = (if r = OK then set_in rip (\<lambda>p. p\<lparr>i_modtime := m_l2 (msg s1), i_dirt := True\<rparr>) s1 else s1);
          s3 \<leftarrow> iput e (Some rip) s2;
          Some (r, s3)
        })
   }"

definition do_time :: "fs_env \<Rightarrow> fs \<Rightarrow> (int \<times> fs) option" where
  "do_time e s = do {
     (t, s1) \<leftarrow> in_vol (clock_time e) s;
     Some (OK, s1\<lparr>m1 := (m1 s1)\<lparr>reply_l1 := t\<rparr>\<rparr>)
   }"

definition do_stime :: "fs_env \<Rightarrow> fs \<Rightarrow> (int \<times> fs) option" where
  "do_stime e s =
     (if \<not> super_user s then Some (EPERM, s)
      else
        (let (k, t) = v_clock e (clks (vol s));
             s1 = out (SetTime (m_l1 (msg s))) (on_vol (\<lambda>v. v\<lparr>clks := clks v + 1\<rparr>) s)
         in if k \<noteq> OK then None else Some (OK, s1)))"

definition do_tims :: "fs_env \<Rightarrow> fs \<Rightarrow> (int \<times> fs) option" where
  "do_tims e s = Some (OK, s\<lparr>m1 := (m1 s)\<lparr>reply_t := v_times e\<rparr>\<rparr>)"

section \<open>DUP, FORK, EXIT, SETUID and SETGID, REVIVE\<close>

definition do_dup :: "fs_env \<Rightarrow> fs \<Rightarrow> (int \<times> fs) option" where
  "do_dup e s0 =
     (let fd = m_i1 (msg s0);
          rfd = sint ((word_of_int fd :: u16) AND NOT 64);
          (q, s) = get_filp rfd s0
      in if q = None then Some (err s, s)
         else do {
           (r, fd2, s1) \<leftarrow>
             (if fd = rfd
              then (let (r, k, f, s1) = get_fd 0 s
                    in if r \<noteq> OK then Some (Some r, 0, s1) else Some (None, int k, s1))
              else
                (let fd2 = m_i2 (msg s)
                 in if fd2 < 0 \<or> fd2 \<ge> int NR_FDS then Some (Some EBADF, 0, s)
                    else if rfd = fd2 then Some (Some fd2, 0, s)
                    else do {
                      (_, s1) \<leftarrow> do_close e (s\<lparr>msg := (msg s)\<lparr>m_i1 := fd2\<rparr>\<rparr>);
                      Some (None, fd2, s1)
                    }));
           (case r of Some r \<Rightarrow> Some (r, s1)
            | None \<Rightarrow> do {
                f \<leftarrow> fp_filp (cur s1) (nat rfd);
                Some (fd2, set_filp f (\<lambda>p. p\<lparr>filp_count := filp_count p + 1\<rparr>) (claim_fd (nat fd2) (Some f) s1))
              })
         })"

definition do_fork_fs :: "fs \<Rightarrow> (int \<times> fs) option" where
  "do_fork_fs s =
     (if who s \<noteq> MM_PROC_NR then Some (ERROR, s)
      else do {
        let child = m_i2 (msg s);
        let cp = fproc s (m_i1 (msg s));
        let s1 = set_fproc child (\<lambda>_. cp) s;
        let s2 = fold (\<lambda>i s. case fp_filp cp i of None \<Rightarrow> s
                             | Some f \<Rightarrow> set_filp f (\<lambda>p. p\<lparr>filp_count := filp_count p + 1\<rparr>) s) [0..<NR_FDS] s1;
        r \<leftarrow> fp_rootdir cp;
        w \<leftarrow> fp_workdir cp;
        Some (OK, on_vol (dup_inode w) (on_vol (dup_inode r) s2))
      })"

definition do_exit_fs :: "fs_env \<Rightarrow> fs \<Rightarrow> (int \<times> fs) option" where
  "do_exit_fs e s =
     (if who s \<noteq> MM_PROC_NR then Some (ERROR, s)
      else do {
        let exitee = m_i1 (msg s);
        s1 \<leftarrow> each (\<lambda>i s. do { (_, s1) \<leftarrow> do_close e (s\<lparr>msg := (msg s)\<lparr>m_i1 := int i\<rparr>\<rparr>); Some s1 })
                [0..<NR_FDS] (s\<lparr>fp := exitee\<rparr>);
        s2 \<leftarrow> iput e (fp_rootdir (cur s1)) s1;
        s3 \<leftarrow> iput e (fp_workdir (cur s2)) s2;
        (if fp_suspended (cur s3)
         then do {
           let s4 = (if fp_task (cur s3) = XPIPE then s3\<lparr>susp_count := susp_count s3 - 1\<rparr> else s3);
           (_, s5) \<leftarrow> do_unpause e (s4\<lparr>msg := (msg s4)\<lparr>m_i1 := exitee\<rparr>\<rparr>);
           Some (OK, set_fproc (fp s5) (\<lambda>p. p\<lparr>fp_suspended := False\<rparr>) s5)
         }
         else Some (OK, s3))
      })"

abbreviation (input) "C_SETUID \<equiv> (23::int)"
abbreviation (input) "C_SETGID \<equiv> (46::int)"

definition do_set :: "fs \<Rightarrow> (int \<times> fs) option" where
  "do_set s =
     (if who s \<noteq> MM_PROC_NR then Some (ERROR, s)
      else
        (let a = m_i2 (msg s); b = m_i3 (msg s);
             s1 = (if fs_call s = C_SETUID
                   then set_fproc (m_i1 (msg s)) (\<lambda>p. p\<lparr>fp_realuid := word_of_int a, fp_effuid := word_of_int b\<rparr>) s
                   else s);
             s2 = (if fs_call s = C_SETGID
                   then set_fproc (m_i1 (msg s)) (\<lambda>p. p\<lparr>fp_effgid := word_of_int b, fp_realgid := word_of_int a\<rparr>) s1
                   else s1)
         in Some (OK, s2)))"

definition do_revive :: "fs \<Rightarrow> (int \<times> fs) option" where
  "do_revive s =
     (if who s > 0 then Some (EPERM, s)
      else do { s1 \<leftarrow> revive (m_i1 (msg s)) (m_i2 (msg s)) s; Some (OK, s1\<lparr>dont_reply := True\<rparr>) })"

section \<open>MOUNT and UMOUNT\<close>

definition name_to_dev :: "fs_env \<Rightarrow> fs \<Rightarrow> (u16 \<times> fs) option" where
  "name_to_dev e s = do {
     (q, s1) \<leftarrow> in_vol (eat_path e (pctx_of s)) s;
     (case q of None \<Rightarrow> Some (NO_DEV, s1)
      | Some rip \<Rightarrow>
          if i_mode (ino s1 rip) AND I_TYPE \<noteq> I_BLOCK_SPECIAL
          then do { s2 \<leftarrow> iput e (Some rip) (set_err ENOTBLK s1); Some (NO_DEV, s2) }
          else do { s2 \<leftarrow> iput e (Some rip) s1; Some (i_zone (ino s1 rip) 0, s2) })
   }"

definition set_sup :: "nat \<Rightarrow> (super \<Rightarrow> super) \<Rightarrow> fs \<Rightarrow> fs" where
  "set_sup i f = on_vol (set_super i f)"

abbreviation sup :: "fs \<Rightarrow> nat \<Rightarrow> super" where
  "sup s i \<equiv> super_block (vol s) i"

text \<open>The part of \<^verbatim>\<open>do_mount\<close> after the super block has been accepted.\<close>

definition mount_on :: "fs_env \<Rightarrow> nat \<Rightarrow> u16 \<Rightarrow> nat \<Rightarrow> fs \<Rightarrow> (int \<times> fs) option" where
  "mount_on e sp dev rip s = do {
     let bits = i_mode (ino s rip) AND I_TYPE;
     let r0 = (if bits = I_BLOCK_SPECIAL \<or> bits = I_CHAR_SPECIAL then ENOTDIR
               else if i_count (ino s rip) > 1 then EBUSY else OK);
     (root_ip, s1) \<leftarrow> (if r0 = OK then in_vol (get_inode e dev ROOT_INODE) s else Some (None, s));
     let r1 = (case root_ip of None \<Rightarrow> if r0 = OK then err s1 else r0
               | Some ip \<Rightarrow> if i_mode (ino s1 ip) = 0 then EINVAL else r0);
     (r2, loaded, s2) \<leftarrow>
       (if r1 = OK then do { (r, s2) \<leftarrow> in_vol (load_bit_maps e dev) s1; Some (if r \<noteq> OK then ENFILE else OK, True, s2) }
        else Some (r1, False, s1));
     let r3 = (case root_ip of None \<Rightarrow> r2
               | Some ip \<Rightarrow> if r2 = OK \<and> i_mode (ino s2 rip) AND I_TYPE = I_DIRECTORY
                               \<and> i_mode (ino s2 ip) AND I_TYPE \<noteq> I_DIRECTORY then ENOTDIR else r2);
     (if r3 \<noteq> OK
      then do {
        s3 \<leftarrow> iput e (Some rip) s2;
        s4 \<leftarrow> iput e root_ip s3;
        s5 \<leftarrow> (if loaded then do_vol (unload_bit_maps e dev) s4 else Some s4);
        s6 \<leftarrow> do_vol (sync_vol e) s5;
        Some (r3, set_sup sp (\<lambda>p. p\<lparr>s_dev := NO_DEV\<rparr>) (on_vol (\<lambda>v. v\<lparr>cch := invalidate dev (cch v)\<rparr>) s6))
      }
      else Some (OK, set_sup sp (\<lambda>p. p\<lparr>s_imount := Some rip, s_isup := root_ip, s_rd_only := word_of_int (m_i3 (msg s2))\<rparr>)
                       (set_in rip (\<lambda>p. p\<lparr>i_mount := True\<rparr>) s2)))
   }"

definition do_mount :: "fs_env \<Rightarrow> fs \<Rightarrow> (int \<times> fs) option" where
  "do_mount e s =
     (if \<not> super_user s then Some (EPERM, s)
      else do {
        (r, s1) \<leftarrow> fetch_name e (m_p1 (msg s)) (m_i1 (msg s)) False s;
        (if r \<noteq> OK then Some (err s1, s1)
         else do {
           (dev, s2) \<leftarrow> name_to_dev e s1;
           (if dev = NO_DEV then Some (err s2, s2)
            else if list_ex (\<lambda>i. s_dev (sup s2 i) = dev) [0..<NR_SUPERS] then Some (EBUSY, s2)
            else (case List.find (\<lambda>i. s_dev (sup s2 i) = NO_DEV) (rev [0..<NR_SUPERS]) of
               None \<Rightarrow> Some (ENFILE, s2)
             | Some sp \<Rightarrow> do {
                 s3 \<leftarrow> do_vol (rw_super e sp False) (set_sup sp (\<lambda>p. p\<lparr>s_dev := dev\<rparr>) s2);
                 let s4 = set_sup sp (\<lambda>p. p\<lparr>s_dev := dev\<rparr>) s3;
                 let x = sup s4 sp;
                 let undo = set_sup sp (\<lambda>p. p\<lparr>s_dev := NO_DEV\<rparr>);
                 (if s_magic x \<noteq> SUPER_MAGIC \<or> s_ninodes x < 1 \<or> s_nzones x < 1 \<or> s_imap_blocks x < 1 \<or> s_zmap_blocks x < 1
                  then Some (EINVAL, undo s4)
                  else do {
                    (q, s5) \<leftarrow> path_inode e (m_p2 (msg s4)) (m_i2 (msg s4)) False s4;
                    (case q of None \<Rightarrow> Some (err s5, undo s5) | Some rip \<Rightarrow> mount_on e sp dev rip s5)
                  })
               }))
         })
      })"

definition do_umount :: "fs_env \<Rightarrow> fs \<Rightarrow> (int \<times> fs) option" where
  "do_umount e s =
     (if \<not> super_user s then Some (EPERM, s)
      else do {
        (r, s1) \<leftarrow> fetch_name e (m_p3 (msg s)) (m_i1 (msg s)) True s;
        (if r \<noteq> OK then Some (err s1, s1)
         else do {
           (dev, s2) \<leftarrow> name_to_dev e s1;
           (if dev = NO_DEV then Some (err s2, s2)
            else if sum_list (map (\<lambda>i. if i_count (ino s2 i) > 0 \<and> i_dev (ino s2 i) = dev then i_count (ino s2 i) else 0)
                       [0..<NR_INODES]) > 1 then Some (EBUSY, s2)
            else do {
              let q = get_super dev (vol s2);
              s3 \<leftarrow> (if q \<noteq> None then do_vol (unload_bit_maps e dev) s2 else Some s2);
              s4 \<leftarrow> do_vol (sync_vol e) s3;
              let s5 = on_vol (\<lambda>v. v\<lparr>cch := invalidate dev (cch v)\<rparr>) s4;
              (case q of None \<Rightarrow> Some (EINVAL, s5)
               | Some sp \<Rightarrow> do {
                   im \<leftarrow> s_imount (sup s5 sp);
                   s6 \<leftarrow> iput e (Some im) (set_in im (\<lambda>p. p\<lparr>i_mount := False\<rparr>) s5);
                   s7 \<leftarrow> iput e (s_isup (sup s6 sp)) s6;
                   Some (OK, set_sup sp (\<lambda>p. p\<lparr>s_imount := None, s_dev := NO_DEV\<rparr>) s7)
                 })
            })
         })
      })"

end
