(* ===== verification/FSMain.thy ===== *)
theory FSMain
  imports FSCalls
begin

text \<open>
  The main loop of the file system, its call table (\<^verbatim>\<open>fs/table.c\<close>) and its start-up
  (\<^verbatim>\<open>fs/main.c\<close>).
\<close>

definition no_sys_fs :: "fs \<Rightarrow> (int \<times> fs) option" where
  "no_sys_fs s = Some (EINVAL, s)"

definition call_vector :: "fs_env \<Rightarrow> int \<Rightarrow> fs \<Rightarrow> (int \<times> fs) option" where
  "call_vector e n =
     (if n = 1 then do_exit_fs e else if n = 2 then do_fork_fs else if n = 3 then do_read e
      else if n = 4 then do_write e else if n = 5 then do_open e else if n = 6 then do_close e
      else if n = 8 then do_creat e else if n = 9 then do_link e else if n = 10 then do_unlink e
      else if n = 12 then do_chdir e else if n = 13 then do_time e else if n = 14 then do_mknod e
      else if n = 15 then do_chmod e else if n = 16 then do_chown e else if n = 18 then do_stat e
      else if n = 19 then do_lseek else if n = 21 then do_mount e else if n = 22 then do_umount e
      else if n = 23 then do_set else if n = 25 then do_stime e else if n = 28 then do_fstat e
      else if n = 30 then do_utime e else if n = 33 then do_access e else if n = 36 then do_sync e
      else if n = 41 then do_dup e else if n = 42 then do_pipe e else if n = 43 then do_tims e
      else if n = 46 then do_set else if n = 54 then do_ioctl e else if n = 60 then do_umask
      else if n = 61 then do_chroot e else if n = 65 then do_unpause e else if n = 67 then do_revive
      else no_sys_fs)"

text \<open>
  \<^verbatim>\<open>get_work\<close>: while a suspended process is to be revived, its saved call is taken up; otherwise
  the next message \<open>inp\<close> (source, call, parameters) is.
\<close>

definition get_work_fs :: "(int \<times> int \<times> fmsg) option \<Rightarrow> fs \<Rightarrow> fs option" where
  "get_work_fs inp s =
     (if reviving s \<noteq> 0
      then (case List.find (\<lambda>i. fp_revived (fproc s i)) [0..NR_PROCS - 1] of
              None \<Rightarrow> None \<comment> \<open>panic: get_work couldn't revive anyone\<close>
            | Some rp \<Rightarrow>
                (let p = fproc s rp
                 in Some ((set_fproc rp (\<lambda>p. p\<lparr>fp_suspended := False, fp_revived := False\<rparr>) s)
                      \<lparr>who := rp, fs_call := fp_fd p AND 255, reviving := reviving s - 1,
                       msg := (msg s)\<lparr>m_i1 := drop_bit 8 (fp_fd p) AND 255, m_p1 := fp_buffer p, m_i2 := fp_nbytes p\<rparr>\<rparr>)))
      else (case inp of None \<Rightarrow> None | Some (source, call, m) \<Rightarrow> Some (s\<lparr>who := source, fs_call := call, msg := m\<rparr>)))"

definition fs_step :: "fs_env \<Rightarrow> (int \<times> int \<times> fmsg) option \<Rightarrow> fs \<Rightarrow> fs option" where
  "fs_step e inp s = do {
     s1 \<leftarrow> get_work_fs inp s;
     let s2 = s1\<lparr>fp := who s1, super_user := (fp_effuid (fproc s1 (who s1)) = 0), dont_reply := False\<rparr>;
     (r, s3) \<leftarrow> (if fs_call s2 < 0 \<or> fs_call s2 \<ge> 69 then Some (E_BAD_CALL, s2) else call_vector e (fs_call s2) s2);
     (if dont_reply s3 then Some s3
      else (let s4 = reply_fs (who s3) r s3
            in if rdahed_inode s4 \<noteq> None then read_ahead e s4 else Some s4))
   }"

section \<open>Start-up\<close>

definition load_super :: "fs_env \<Rightarrow> vol \<Rightarrow> vol option" where
  "load_super e v = do {
     let v1 = v\<lparr>super_block := (\<lambda>i. if i < NR_SUPERS then (super_block v i)\<lparr>s_dev := NO_DEV\<rparr> else super_block v i)\<rparr>;
     v2 \<leftarrow> rw_super e 0 False (set_super 0 (\<lambda>p. p\<lparr>s_dev := ROOT_DEV\<rparr>) v1);
     (q, v3) \<leftarrow> get_inode e ROOT_DEV ROOT_INODE v2;
     rip \<leftarrow> q;
     (if i_mode (inodes v3 rip) AND I_TYPE \<noteq> I_DIRECTORY \<or> sint (i_nlinks (inodes v3 rip)) < 3
         \<or> s_magic (super_block v3 0) \<noteq> SUPER_MAGIC
      then None \<comment> \<open>panic: Root file system corrupted\<close>
      else do {
        let v4 = set_super 0 (\<lambda>p. p\<lparr>s_imount := Some rip, s_isup := Some rip, s_rd_only := 0\<rparr>) (dup_inode rip v3);
        (r, v5) \<leftarrow> load_bit_maps e ROOT_DEV v4;
        (if r \<noteq> OK then None else Some v5)
      })
   }"

definition init_proc :: "fs_env \<Rightarrow> int \<Rightarrow> fs \<Rightarrow> fs option" where
  "init_proc e i s = do {
     (q, s1) \<leftarrow> in_vol (get_inode e ROOT_DEV ROOT_INODE) (s\<lparr>fp := i\<rparr>);
     rip \<leftarrow> q;
     Some (set_fproc i (\<lambda>p. p\<lparr>fp_rootdir := Some rip, fp_workdir := Some rip, fp_realuid := 0, fp_effuid := 0,
             fp_realgid := 0, fp_effgid := 0, fp_umask := NOT 0\<rparr>) (on_vol (dup_inode rip) s1))
   }"

text \<open>
  \<^verbatim>\<open>fs_init\<close>, after \<^verbatim>\<open>load_ram\<close> has reported the memory sizes.  The checks at its end compare
  compile-time constants.
\<close>

definition fs_init :: "fs_env \<Rightarrow> (nat \<Rightarrow> bool) \<Rightarrow> fs \<Rightarrow> fs option" where
  "fs_init e crosses s = do {
     c \<leftarrow> buf_pool crosses (cch (vol s));
     s1 \<leftarrow> do_vol (load_super e) (on_vol (\<lambda>v. v\<lparr>cch := c\<rparr>) s);
     s2 \<leftarrow> init_proc e 0 s1;
     init_proc e 2 s2
   }"

end
