(* ===== verification/FSProps.thy ===== *)
theory FSProps
  imports FSMap FSMain
begin

text \<open>
  What the file system's cache, zones and inodes promise, with demonstrations on a small system.
\<close>

section \<open>A small system\<close>

definition calm_env :: fs_env where
  "calm_env = \<lparr>v_io = (\<lambda>_. 0), v_clock = (\<lambda>_. (0, 7)), v_copy = (\<lambda>_. 0), v_task = (\<lambda>_. []), v_times = (\<lambda>_. 0),
     v_bufptr = (\<lambda>_. 0), v_inoptr = (\<lambda>_. 0), v_bufof = (\<lambda>_. None), v_inoof = (\<lambda>_. None)\<rparr>"

definition blank_buf :: buf where
  "blank_buf = \<lparr>b_data = (\<lambda>_. 0), b_next = None, b_prev = None, b_hash = None, b_blocknr = 0, b_dev = 0,
     b_dirt = False, b_count = 0\<rparr>"

text \<open>A disk whose block k holds k in every byte, and a cache as \<^verbatim>\<open>buf_pool\<close> leaves it.\<close>

definition blank_cache :: cache where
  "blank_cache = \<lparr>bufs = (\<lambda>_. blank_buf), buf_hash = (\<lambda>_. None), front = None, rear = None, bufs_in_use = 0,
     rdwt_err = 0, disk = (\<lambda>d k i. ucast k), ios = 0\<rparr>"

definition demo_cache :: cache where
  "demo_cache = fresh_pool blank_cache"

lemma demo_cache_ok: "cinv demo_cache" "free_buf demo_cache"
  unfolding demo_cache_def by (rule fresh_pool_cinv; simp add: blank_cache_def blank_buf_def)+

lemma calm_io: "io_ok calm_env"
  by (simp add: io_ok_def calm_env_def)

lemma demo_dev: "known_dev 0x301"
  by (simp add: known_dev_def dev_major_def)

lemma demo_contents: "d \<noteq> NO_DEV \<Longrightarrow> contents demo_cache d k = (\<lambda>i. ucast k)"
proof -
  assume d: "d \<noteq> NO_DEV"
  have "contents demo_cache d k = disk demo_cache d k"
    by (rule contents_uncached) (use d in \<open>simp add: keyed_def demo_cache_def fresh_pool_bufs\<close>)
  then show ?thesis by (simp add: demo_cache_def fresh_pool_def blank_cache_def)
qed

text \<open>A file system of 100 zones, the data from zone 5 on, on one disk; its zone map is in buffer 3.\<close>

definition blank_inode :: inode where
  "blank_inode = \<lparr>i_mode = 0, i_uid = 0, i_size = 0, i_modtime = 0, i_gid = 0, i_nlinks = 0, i_zone = (\<lambda>_. 0),
     i_dev = 0, i_num = 0, i_count = 0, i_dirt = False, i_pipe = False, i_mount = False, i_seek = False\<rparr>"

definition demo_super :: super where
  "demo_super = \<lparr>s_ninodes = 64, s_nzones = 100, s_imap_blocks = 1, s_zmap_blocks = 1, s_firstdatazone = 5,
     s_log_zone_size = 0, s_max_size = 7000000, s_magic = 0x137F, s_imap = [0 \<mapsto> 2], s_zmap = [0 \<mapsto> 3], s_dev = 0x301,
     s_isup = Some 0, s_imount = Some 0, s_time = 0, s_rd_only = 0, s_dirt = 0\<rparr>"

definition demo_vol :: vol where
  "demo_vol = \<lparr>cch = set_buf 3 (\<lambda>b. b\<lparr>b_data := (\<lambda>i. if i = 0 then 1 else 0)\<rparr>) demo_cache,
     super_block = (\<lambda>i. if i = 0 then demo_super else demo_super\<lparr>s_dev := NO_DEV\<rparr>), inodes = (\<lambda>_. blank_inode),
     err_code = 0, clks = 0\<rparr>"

lemma demo_get_super: "get_super 0x301 demo_vol = Some 0"
  by (simp add: get_super_def demo_vol_def demo_super_def upt_conv_Cons)

lemma demo_super_0: "super_block demo_vol 0 = demo_super"
  by (simp add: demo_vol_def)

section \<open>The cache\<close>

text \<open>The buffer cache starts well formed: after \<^verbatim>\<open>buf_pool\<close> the LRU chain and the hash chains
  are proper lists over all the buffers, no buffer holds a block, and there is room.\<close>

theorem buf_pool_starts_well:
  assumes "\<And>h. buf_hash c h = None" "\<And>i. i < NR_BUFS \<Longrightarrow> b_count (bufs c i) = 0"
  shows "\<exists>c'. buf_pool (\<lambda>i. False) c = Some c' \<and> cinv c' \<and> free_buf c' \<and> (\<forall>d k. known_dev d \<longrightarrow> contents c' d k = disk c d k)"
proof -
  have "contents (fresh_pool c) d k = disk c d k" if "known_dev d" for d k
  proof -
    have nd: "d \<noteq> NO_DEV" using that by simp
    have "contents (fresh_pool c) d k = disk (fresh_pool c) d k"
      by (rule contents_uncached) (use nd in \<open>auto simp: keyed_def fresh_pool_bufs\<close>)
    then show ?thesis by (simp add: fresh_pool_def)
  qed
  then show ?thesis using fresh_pool_cinv [OF assms] by (simp add: buf_pool_fresh)
qed

theorem buf_pool_starts_well_witness:
  "\<exists>c'. buf_pool (\<lambda>i. False) blank_cache = Some c' \<and> cinv c' \<and> free_buf c'
    \<and> (\<forall>d k. known_dev d \<longrightarrow> contents c' d k = disk blank_cache d k)"
  by (rule buf_pool_starts_well) (simp_all add: blank_cache_def blank_buf_def)

text \<open>C26: \<^verbatim>\<open>get_block\<close> implements a disk that is read directly: whatever is cached, evicted or written
  back on the way, with a free buffer it succeeds, gives a buffer of the block that was asked for with
  the current contents of that block, keeps the cache well formed, and changes the contents of no block.\<close>

theorem get_block_reads_current_contents:
  assumes "cinv c" "known_dev d" "io_ok e" "free_buf c"
  shows "\<exists>bp c'. get_block e d k False c = Some (bp, c') \<and> cinv c' \<and> b_dev (bufs c' bp) = d \<and> b_blocknr (bufs c' bp) = k
    \<and> b_count (bufs c' bp) = b_count (bufs c bp) + 1 \<and> b_data (bufs c' bp) = contents c d k
    \<and> (\<forall>d2 k2. known_dev d2 \<longrightarrow> contents c' d2 k2 = contents c d2 k2)"
proof -
  have "\<forall>n. 0 \<le> v_io e n" using assms(3) by (simp add: io_ok_def)
  from get_block_total [OF assms(1,2) this assms(4), of k False] show ?thesis
    by (auto simp: keyed_def counted_def)
qed

theorem get_block_reads_current_contents_witness:
  "\<exists>bp c'. get_block calm_env 0x301 9 False demo_cache = Some (bp, c') \<and> b_data (bufs c' bp) 0 = 9"
  using get_block_reads_current_contents [OF demo_cache_ok(1) demo_dev calm_io demo_cache_ok(2), of 9]
  by (auto simp: demo_contents)

text \<open>\<^verbatim>\<open>put_block\<close> loses nothing: a buffer that is in use and is either dirty or agrees with the
  disk can be released as any type of block; the cache stays well formed, one user is gone, other
  buffers are untouched, and no block changes its contents, whether it is written, kept or forgotten.\<close>

theorem put_block_keeps_contents:
  assumes "cinv c" "bp < NR_BUFS" "known_dev (b_dev (bufs c bp))" "b_count (bufs c bp) > 0" "io_ok e"
    "b_dirt (bufs c bp) \<or> b_data (bufs c bp) = disk c (b_dev (bufs c bp)) (b_blocknr (bufs c bp))"
  shows "\<exists>c'. put_block e (Some bp) ty c = Some c' \<and> cinv c' \<and> b_count (bufs c' bp) = b_count (bufs c bp) - 1
    \<and> (\<forall>j. j \<noteq> bp \<longrightarrow> b_data (bufs c' j) = b_data (bufs c j) \<and> b_count (bufs c' j) = b_count (bufs c j))
    \<and> (\<forall>d k. known_dev d \<longrightarrow> contents c' d k = contents c d k)"
proof -
  have "\<forall>n. 0 \<le> v_io e n" using assms(5) by (simp add: io_ok_def)
  from put_block_total [OF assms(1-4) this, of ty] assms(6) show ?thesis
    by (auto simp: counted_def same_at_def synced_def)
qed

theorem put_block_keeps_contents_witness:
  "\<exists>bp c1 c2. get_block calm_env 0x301 9 False demo_cache = Some (bp, c1) \<and> put_block calm_env (Some bp) 7 c1 = Some c2
    \<and> cinv c2 \<and> b_count (bufs c2 bp) = b_count (bufs demo_cache bp) \<and> contents c2 0x301 9 = (\<lambda>i. 9)"
proof -
  have io: "\<forall>n. 0 \<le> v_io calm_env n" using calm_io by (simp add: io_ok_def)
  obtain bp c1 where g: "get_block calm_env 0x301 9 False demo_cache = Some (bp, c1)" "cinv c1" "bp < NR_BUFS"
    "keyed c1 0x301 9 bp" "b_count (bufs c1 bp) > 0" "counted 1 bp demo_cache c1"
    "b_count (bufs c1 bp) = 1 \<longrightarrow> synced c1 bp" "contents c1 0x301 9 = contents demo_cache 0x301 9"
    using get_block_total [OF demo_cache_ok(1) demo_dev io demo_cache_ok(2), of 9 False] demo_dev by auto
  have "b_count (bufs demo_cache bp) = 0" using g(3) by (simp add: demo_cache_def fresh_pool_bufs blank_cache_def blank_buf_def)
  then have sy: "synced c1 bp" and kd: "known_dev (b_dev (bufs c1 bp))"
    using g(4,6,7) demo_dev by (simp_all add: counted_def keyed_def)
  obtain c2 where "put_block calm_env (Some bp) 7 c1 = Some c2" "cinv c2" "b_count (bufs c2 bp) = b_count (bufs c1 bp) - 1"
    "contents c2 0x301 9 = contents c1 0x301 9"
    using put_block_keeps_contents [OF g(2,3) kd g(5) calm_io sy [unfolded synced_def], of 7] demo_dev by blast
  then show ?thesis using g(1,6,8) by (simp add: counted_def demo_contents)
qed

text \<open>C27: A block that is changed under \<^verbatim>\<open>get_block\<close> and \<^verbatim>\<open>put_block\<close> reads back as changed, every other
  block as before: whoever gets any block of any device next finds the last data stored in it.\<close>

theorem stored_block_reads_back:
  assumes "cinv c" "known_dev d" "io_ok e" "free_buf c" "known_dev d2"
  shows "\<exists>bp c1 c2 bp2 c3. get_block e d k False c = Some (bp, c1)
    \<and> put_block e (Some bp) ty (set_buf bp (\<lambda>b. b\<lparr>b_data := f (b_data b), b_dirt := True\<rparr>) c1) = Some c2
    \<and> get_block e d2 k2 False c2 = Some (bp2, c3)
    \<and> b_data (bufs c3 bp2) = (if (d2, k2) = (d, k) then f (contents c d k) else contents c d2 k2)"
proof -
  obtain bp c1 c2 where 1: "get_block e d k False c = Some (bp, c1)" "b_data (bufs c1 bp) = contents c d k"
    "put_block e (Some bp) ty (set_buf bp (\<lambda>b. b\<lparr>b_data := f (b_data b), b_dirt := True\<rparr>) c1) = Some c2"
    "cinv c2" "free_buf c2" "contents c2 d k = f (b_data (bufs c1 bp))"
    "\<And>d2 k2. known_dev d2 \<Longrightarrow> (d2, k2) \<noteq> (d, k) \<Longrightarrow> contents c2 d2 k2 = contents c d2 k2"
    using write_visit [OF assms(1-4), of k False ty f] by auto
  obtain bp2 c3 where "get_block e d2 k2 False c2 = Some (bp2, c3)" "b_data (bufs c3 bp2) = contents c2 d2 k2"
    using read_visit [OF 1(4) assms(5,3) 1(5), of k2] by blast
  then show ?thesis using 1 assms(5) by (cases "(d2, k2) = (d, k)") auto
qed

theorem stored_block_reads_back_witness:
  "\<exists>bp c1 c2 bp2 c3. get_block calm_env 0x301 9 False demo_cache = Some (bp, c1)
    \<and> put_block calm_env (Some bp) 7 (set_buf bp (\<lambda>b. b\<lparr>b_data := (b_data b)(3 := 44), b_dirt := True\<rparr>) c1) = Some c2
    \<and> get_block calm_env 0x301 9 False c2 = Some (bp2, c3) \<and> b_data (bufs c3 bp2) 3 = 44 \<and> b_data (bufs c3 bp2) 4 = 9"
  using stored_block_reads_back [OF demo_cache_ok(1) demo_dev calm_io demo_cache_ok(2) demo_dev, of 9 7 "\<lambda>d. d(3 := 44)" 9]
  by (force simp: demo_contents)

section \<open>Zones\<close>

text \<open>The zones of a file system are the numbers from \<^verbatim>\<open>s_firstdatazone\<close> up to \<^verbatim>\<open>s_nzones\<close>.\<close>

definition data_zone :: "super \<Rightarrow> u16 \<Rightarrow> bool" where
  "data_zone s z \<longleftrightarrow> s_firstdatazone s \<le> z \<and> z < s_nzones s"

definition zone_used :: "super \<Rightarrow> cache \<Rightarrow> u16 \<Rightarrow> bool" where
  "zone_used s c z \<longleftrightarrow> map_bit (s_zmap s) c (unat (z - (s_firstdatazone s - 1)))"

definition zones_ok :: "super \<Rightarrow> cache \<Rightarrow> bool" where
  "zones_ok s c \<longleftrightarrow> 1 < s_firstdatazone s \<and> s_firstdatazone s \<le> s_nzones s
     \<and> wf_map (s_zmap s) (s_nzones s - s_firstdatazone s + 1) (s_zmap_blocks s) \<and> map_bit (s_zmap s) c 0"

lemma zone_numbers:
  fixes F N z b :: u16
  assumes "1 < F" "F \<le> N"
  shows "unat (N - F + 1) = unat N - unat F + 1"
    "F \<le> z \<Longrightarrow> unat (z - (F - 1)) = unat z - unat F + 1"
    "b \<noteq> 0 \<Longrightarrow> unat b < unat (N - F + 1) \<Longrightarrow> F \<le> F - 1 + b \<and> F - 1 + b < N \<and> F - 1 + b \<noteq> 0"
proof -
  have f: "1 < unat F" "unat F \<le> unat N" using assms by (simp_all add: word_less_nat_alt word_le_nat_alt)
  have n: "unat N < 65536" using unsigned_less [of N] by simp
  have nf: "unat (N - F) = unat N - unat F" using assms(2) by (simp add: unat_sub)
  show lim: "unat (N - F + 1) = unat N - unat F + 1"   proof -
    have "Suc (unat N - unat F) < 65536" using f n by linarith
    then show ?thesis using nf by (simp add: unat_word_ariths)
  qed
  have f1: "unat (F - 1) = unat F - 1" using assms(1) f by (subst unat_sub) (auto simp: word_le_nat_alt)
  { assume z: "F \<le> z"
    have "F - 1 \<le> z" using z f f1 by (simp add: word_le_nat_alt)
    then show "unat (z - (F - 1)) = unat z - unat F + 1" using z f f1 by (simp add: unat_sub word_le_nat_alt) }
  { assume b: "b \<noteq> 0" "unat b < unat (N - F + 1)"
    then have b0: "0 < unat b" by (simp add: unat_gt_0)
    have "unat (F - 1 + b) = unat F - 1 + unat b"
    proof -
      have "unat F - 1 + unat b < 65536" using b(2) f n lim by linarith
      then show ?thesis using f1 by (simp add: unat_word_ariths)
    qed
    then show "F \<le> F - 1 + b \<and> F - 1 + b < N \<and> F - 1 + b \<noteq> 0"
      using b b0 f lim by (auto simp: word_le_nat_alt word_less_nat_alt) }
qed

lemma zone_of_bit: "(F - 1 + b) - (F - 1) = (b :: u16)"
  by simp

lemma zone_cases:
  assumes "get_super dev v = Some sp" "zones_ok (super_block v sp) (cch v)"
  defines "s \<equiv> super_block v sp"
  shows "\<exists>z v'. alloc_zone dev near v = Some (z, v') \<and> (z = NO_ZONE \<longrightarrow> v' = v\<lparr>err_code := ENOSPC\<rparr> \<and> (\<forall>y. data_zone s y \<longrightarrow> zone_used s (cch v) y))
    \<and> (z \<noteq> NO_ZONE \<longrightarrow> data_zone s z \<and> \<not> zone_used s (cch v) z \<and> zones_ok s (cch v')
       \<and> super_block v' = super_block v \<and> inodes v' = inodes v
       \<and> (\<forall>y. data_zone s y \<longrightarrow> zone_used s (cch v') y = (y = z \<or> zone_used s (cch v) y)))"
proof -
  let ?F = "s_firstdatazone s" and ?N = "s_nzones s"
  let ?bits = "?N - ?F + 1" and ?org = "near - (?F - 1)"
  have zo: "1 < ?F" "?F \<le> ?N" and w: "wf_map (s_zmap s) ?bits (s_zmap_blocks s) \<and> map_bit (s_zmap s) (cch v) 0"
    using assms(2) by (simp_all add: zones_ok_def s_def)
  note num = zone_numbers [OF zo]
  have inr: "unat (y - (?F - 1)) < unat ?bits" "unat (y - (?F - 1)) \<noteq> 0" if "data_zone s y" for y
  proof -
    have y: "?F \<le> y" "y < ?N" using that by (simp_all add: data_zone_def)
    show "unat (y - (?F - 1)) < unat ?bits" "unat (y - (?F - 1)) \<noteq> 0"
      unfolding num(2) [OF y(1)] num(1) using y by (simp_all add: word_le_nat_alt word_less_nat_alt)
  qed
  obtain b c where a: "alloc_bit (s_zmap s) ?bits (s_zmap_blocks s) ?org (cch v) = Some (b, c)"
    using bitmap.alloc_total [OF w] by blast
  show ?thesis
  proof (cases "b = 0")
    case True
    have n: "c = cch v" "\<forall>n<unat ?bits. map_bit (s_zmap s) (cch v) n" using bitmap.alloc_none [OF w] a True by auto
    have "alloc_zone dev near v = Some (NO_ZONE, v\<lparr>err_code := ENOSPC\<rparr>)"
      using a n True assms(1) by (simp add: alloc_zone_def Let_def s_def)
    then show ?thesis using n inr by (auto simp: zone_used_def)
  next
    case False
    let ?z = "?F - 1 + b"
    have h: "unat b < unat ?bits" "\<not> map_bit (s_zmap s) (cch v) (unat b)"
      "wf_map (s_zmap s) ?bits (s_zmap_blocks s) \<and> map_bit (s_zmap s) c 0"
      "\<forall>n<unat ?bits. map_bit (s_zmap s) c n = (n = unat b \<or> map_bit (s_zmap s) (cch v) n)"
      using bitmap.alloc_hit [OF w a False] by auto
    have r: "alloc_zone dev near v = Some (?z, v\<lparr>cch := c\<rparr>)"
      using a False assms(1) by (simp add: alloc_zone_def Let_def s_def)
    note z = num(3) [OF False h(1)]
    have zb: "unat (?z - (?F - 1)) = unat b" by simp
    have "zone_used s c y = (y = ?z \<or> zone_used s (cch v) y)" if "data_zone s y" for y
    proof -
      have "unat (y - (?F - 1)) = unat b \<longleftrightarrow> y = ?z" by (metis zone_of_bit diff_eq_eq add.commute word_unat_eq_iff)
      then show ?thesis using h(4) inr(1) [OF that] by (simp add: zone_used_def)
    qed
    moreover have "\<not> zone_used s (cch v) ?z" using h(2) by (simp add: zone_used_def)
    moreover have "zones_ok s c" using zo h(3) by (simp add: zones_ok_def)
    ultimately show ?thesis using r z by (intro exI [of _ ?z] exI [of _ "v\<lparr>cch := c\<rparr>"]) (simp add: data_zone_def)
  qed
qed

text \<open>C30: \<^verbatim>\<open>alloc_zone\<close> on a file system with a proper zone map never goes outside the data zones: it
  answers a zone between \<^verbatim>\<open>s_firstdatazone\<close> and \<^verbatim>\<open>s_nzones\<close> that was free and is now the only one
  taken in addition, or \<^verbatim>\<open>NO_ZONE\<close> with \<^verbatim>\<open>ENOSPC\<close>, and then every data zone was taken already.\<close>

theorem alloc_zone_in_range:
  assumes "get_super dev v = Some sp" "zones_ok (super_block v sp) (cch v)"
  shows "\<exists>z v'. alloc_zone dev near v = Some (z, v')
    \<and> (if z = NO_ZONE then v' = v\<lparr>err_code := ENOSPC\<rparr> \<and> (\<forall>y. data_zone (super_block v sp) y \<longrightarrow> zone_used (super_block v sp) (cch v) y)
       else data_zone (super_block v sp) z \<and> \<not> zone_used (super_block v sp) (cch v) z
         \<and> (\<forall>y. data_zone (super_block v sp) y \<longrightarrow>
               zone_used (super_block v sp) (cch v') y = (y = z \<or> zone_used (super_block v sp) (cch v) y)))"
proof -
  obtain z v' where "alloc_zone dev near v = Some (z, v')"
    "z = NO_ZONE \<Longrightarrow> v' = v\<lparr>err_code := ENOSPC\<rparr> \<and> (\<forall>y. data_zone (super_block v sp) y \<longrightarrow> zone_used (super_block v sp) (cch v) y)"
    "z \<noteq> NO_ZONE \<Longrightarrow> data_zone (super_block v sp) z \<and> \<not> zone_used (super_block v sp) (cch v) z
         \<and> (\<forall>y. data_zone (super_block v sp) y \<longrightarrow>
               zone_used (super_block v sp) (cch v') y = (y = z \<or> zone_used (super_block v sp) (cch v) y))"
    using zone_cases [OF assms, of near] by blast
  then show ?thesis by (intro exI [of _ z] exI [of _ v']) (cases "z = NO_ZONE"; simp)
qed

lemma demo_bits:
  "map_bit (s_zmap demo_super) (cch demo_vol) 0" "\<not> map_bit (s_zmap demo_super) (cch demo_vol) 1"
  by (simp_all add: map_bit_def demo_super_def demo_vol_def rd16_def bit_simps)

lemma demo_zones: "zones_ok (super_block demo_vol 0) (cch demo_vol)"
  using demo_bits(1) by (simp add: zones_ok_def demo_super_0 wf_map_def) (simp add: demo_super_def inj_on_def)

lemma demo_zone_5: "data_zone demo_super 5" "\<not> zone_used demo_super (cch demo_vol) 5"
  using demo_bits(2) by (simp_all add: data_zone_def zone_used_def) (simp_all add: demo_super_def)

theorem alloc_zone_in_range_witness:
  "\<exists>z v'. alloc_zone 0x301 5 demo_vol = Some (z, v') \<and> 5 \<le> z \<and> z < 100 \<and> \<not> zone_used demo_super (cch demo_vol) z"
  using alloc_zone_in_range [OF demo_get_super demo_zones, of 5] demo_zone_5
  by (auto simp: demo_super_0 data_zone_def demo_super_def split: if_splits)

text \<open>A zone that \<^verbatim>\<open>alloc_zone\<close> has given can be returned with \<^verbatim>\<open>free_zone\<close>, which does not
  panic and leaves exactly the zones taken that were taken before; a second \<^verbatim>\<open>free_zone\<close> panics.\<close>

theorem zone_roundtrip:
  assumes "get_super dev v = Some sp" "zones_ok (super_block v sp) (cch v)" "alloc_zone dev near v = Some (z, v1)" "z \<noteq> NO_ZONE"
  shows "\<exists>v2. free_zone dev z v1 = Some v2 \<and> free_zone dev z v2 = None
    \<and> (\<forall>y. data_zone (super_block v sp) y \<longrightarrow> zone_used (super_block v sp) (cch v2) y = zone_used (super_block v sp) (cch v) y)"
proof -
  let ?s = "super_block v sp" let ?bits = "s_nzones ?s - s_firstdatazone ?s + 1" and ?a = "z - (s_firstdatazone ?s - 1)"
  have h: "data_zone ?s z" "\<not> zone_used ?s (cch v) z" "zones_ok ?s (cch v1)" "super_block v1 = super_block v"
    "\<And>y. data_zone ?s y \<Longrightarrow> zone_used ?s (cch v1) y = (y = z \<or> zone_used ?s (cch v) y)"
    using zone_cases [OF assms(1,2), of near] assms(3,4) by auto
  have zo: "1 < s_firstdatazone ?s" "s_firstdatazone ?s \<le> s_nzones ?s"
    and w: "wf_map (s_zmap ?s) ?bits (s_zmap_blocks ?s) \<and> map_bit (s_zmap ?s) (cch v1) 0"
    using h(3) by (simp_all add: zones_ok_def)
  note num = zone_numbers [OF zo]
  have inr: "unat (y - (s_firstdatazone ?s - 1)) < unat ?bits" "y - (s_firstdatazone ?s - 1) \<noteq> 0" if "data_zone ?s y" for y
  proof -
    have y: "s_firstdatazone ?s \<le> y" "y < s_nzones ?s" using that by (simp_all add: data_zone_def)
    show "unat (y - (s_firstdatazone ?s - 1)) < unat ?bits"
      unfolding num(2) [OF y(1)] num(1) using y by (simp add: word_le_nat_alt word_less_nat_alt)
    show "y - (s_firstdatazone ?s - 1) \<noteq> 0" using num(2) [OF y(1)] by (metis add_is_0 unat_0 zero_neq_one)
  qed
  have u: "map_bit (s_zmap ?s) (cch v1) (unat ?a)" using h(5) [OF h(1)] by (simp add: zone_used_def)
  obtain c where c: "free_bit (s_zmap ?s) ?a (cch v1) = Some c"
    "wf_map (s_zmap ?s) ?bits (s_zmap_blocks ?s) \<and> map_bit (s_zmap ?s) c 0"
    "\<forall>n<unat ?bits. map_bit (s_zmap ?s) c n = (n \<noteq> unat ?a \<and> map_bit (s_zmap ?s) (cch v1) n)"
    using bitmap.free_used [OF w inr(2) [OF h(1)] inr(1) [OF h(1)] u] by blast
  have gs: "get_super dev v1 = Some sp" using assms(1) h(4) by (simp add: get_super_def)
  have f: "free_zone dev z v1 = Some (v1\<lparr>cch := c\<rparr>)" using c(1) gs h(4) assms(4) by (simp add: free_zone_def Let_def)
  have nu: "\<not> map_bit (s_zmap ?s) c (unat ?a)" using c(3) inr(1) [OF h(1)] by blast
  have "free_bit (s_zmap ?s) ?a c = None" using free_bit_twice [OF nu] by blast
  then have f2: "free_zone dev z (v1\<lparr>cch := c\<rparr>) = None"
    using gs h(4) assms(4) by (simp add: free_zone_def Let_def get_super_def)
  have "zone_used ?s c y = zone_used ?s (cch v) y" if y: "data_zone ?s y" for y
  proof -
    have "unat (y - (s_firstdatazone ?s - 1)) = unat ?a \<longleftrightarrow> y = z" by (metis diff_add_cancel word_unat_eq_iff)
    then show ?thesis using c(3) inr(1) [OF y] h(5) [OF y] h(2) by (auto simp: zone_used_def)
  qed
  then show ?thesis using f f2 by (intro exI [of _ "v1\<lparr>cch := c\<rparr>"]) simp
qed

theorem zone_roundtrip_witness:
  "\<exists>z v1 v2. alloc_zone 0x301 5 demo_vol = Some (z, v1) \<and> free_zone 0x301 z v1 = Some v2 \<and> free_zone 0x301 z v2 = None
    \<and> \<not> zone_used demo_super (cch v2) 5"
proof -
  obtain z v1 where a: "alloc_zone 0x301 5 demo_vol = Some (z, v1)"
    "z = NO_ZONE \<longrightarrow> (\<forall>y. data_zone demo_super y \<longrightarrow> zone_used demo_super (cch demo_vol) y)"
    using zone_cases [OF demo_get_super demo_zones, of 5] unfolding demo_super_0 by blast
  have "z \<noteq> NO_ZONE" using a(2) demo_zone_5 by blast
  from zone_roundtrip [OF demo_get_super demo_zones a(1) this] a(1) show ?thesis
    using demo_zone_5 unfolding demo_super_0 by blast
qed

section \<open>The zone map of a file\<close>

text \<open>C28: \<^verbatim>\<open>read_map\<close> computes the zone map: with a well-formed cache and a free buffer, for every
  position that the seven direct zones, the indirect and the double indirect block can reach, it
  answers \<open>file_block\<close>, the block number found by following the zone numbers stored in the blocks
  of the device (or \<^verbatim>\<open>NO_BLOCK\<close> for a hole), at any zone scale, and no block, inode or super block changes.\<close>

theorem read_map_follows_zones:
  assumes "cinv (cch v)" "free_buf (cch v)" "io_ok e" "known_dev (i_dev (inodes v rip))"
    "scale_factor rip v = Some scale" "0 \<le> pos" "nat (pos div 1024) div 2 ^ scale < 7 + 512 + 512 * 512"
  shows "\<exists>v'. read_map e rip pos v
       = Some (file_block (contents (cch v) (i_dev (inodes v rip))) scale (inodes v rip) (nat (pos div 1024)), v')
    \<and> inodes v' = inodes v \<and> super_block v' = super_block v \<and> cinv (cch v') \<and> free_buf (cch v')
    \<and> (\<forall>d k. known_dev d \<longrightarrow> contents (cch v') d k = contents (cch v) d k)"
proof -
  have "nat (pos div 1024) div 2 ^ scale < 262663" using assms(7) by simp
  from read_map_total [OF assms(1,4,3,2,5,6) this] obtain c where
    "read_map e rip pos v
       = Some (file_block (contents (cch v) (i_dev (inodes v rip))) scale (inodes v rip) (nat (pos div 1024)), v\<lparr>cch := c\<rparr>)"
    "cinv c" "free_buf c" "same_contents (cch v) c" by blast
  then show ?thesis by (intro exI [of _ "v\<lparr>cch := c\<rparr>"]) (simp add: same_contents_def)
qed

text \<open>A file whose indirect block is 9: on the small disk every entry of it is 0x0909.\<close>

definition demo_file :: vol where
  "demo_file = set_ino 4 (\<lambda>p. p\<lparr>i_dev := 0x301, i_zone := (\<lambda>_. 0)(7 := 9)\<rparr>) (demo_vol\<lparr>cch := demo_cache\<rparr>)"

theorem read_map_follows_zones_witness:
  "\<exists>v'. read_map calm_env 4 8000 demo_file = Some (0x0909, v') \<and> cinv (cch v')"
proof -
  have i: "inodes demo_file 4 = blank_inode\<lparr>i_dev := 0x301, i_zone := (\<lambda>_. 0)(7 := 9)\<rparr>"
    and c: "cch demo_file = demo_cache" by (simp_all add: demo_file_def demo_vol_def)
  have sc: "scale_factor 4 demo_file = Some 0"
    using demo_get_super by (simp add: scale_factor_def demo_file_def get_super_def demo_super_0) (simp add: demo_super_def)
  have "file_block (contents demo_cache 0x301) 0 (inodes demo_file 4) 7 = 0x0909"
    by (simp add: file_block_def file_zone_def entry_of_def i demo_contents rd16_def)
  then show ?thesis
    using read_map_follows_zones [of demo_file calm_env 4 0 8000] demo_cache_ok calm_io demo_dev sc by (simp add: c i) blast
qed

section \<open>Inodes on the disk\<close>

text \<open>C29: \<^verbatim>\<open>rw_inode\<close> stores an inode and only that one: after an inode is written, reading any inode
  number of the same file system into any slot gives the mode, owner, size, time, group, links and
  zones that were written if it is that number, and for every other number what the disk held for it
  before, the 31 other inodes of the same block included.\<close>

theorem inode_roundtrip:
  assumes "cinv (cch v)" "free_buf (cch v)" "io_ok e" "known_dev (i_dev (inodes v r))" "get_super (i_dev (inodes v r)) v = Some sp"
    "fits32 (i_size (inodes v r))" "fits32 (i_modtime (inodes v r))"
  shows "\<exists>v1. rw_inode e r True v = Some v1 \<and> (\<forall>r2 n. \<exists>v2.
      rw_inode e r2 False (set_ino r2 (\<lambda>p. p\<lparr>i_dev := i_dev (inodes v r), i_num := n\<rparr>) v1) = Some v2
      \<and> (\<exists>p. inodes v2 r2 = (if n = i_num (inodes v r) then disk_part (inodes v r) p
              else stored_inode v (i_dev (inodes v r)) sp n p)\<lparr>i_dirt := False\<rparr> \<and> i_dev p = i_dev (inodes v r) \<and> i_num p = n))"
proof -
  let ?d = "i_dev (inodes v r)"
  obtain c where w: "rw_inode e r True v = Some (set_ino r (\<lambda>p. p\<lparr>i_dirt := False\<rparr>) (v\<lparr>cch := c\<rparr>))" "cinv c" "free_buf c"
    "\<And>n p. stored_inode (v\<lparr>cch := c\<rparr>) ?d sp n p
         = (if n = i_num (inodes v r) then disk_part (inodes v r) p else stored_inode v ?d sp n p)"
    using rw_inode_write [OF assms] by blast
  define v1 where "v1 = set_ino r (\<lambda>p. p\<lparr>i_dirt := False\<rparr>) (v\<lparr>cch := c\<rparr>)"
  have "\<exists>v2. rw_inode e r2 False (set_ino r2 (\<lambda>p. p\<lparr>i_dev := ?d, i_num := n\<rparr>) v1) = Some v2
      \<and> (\<exists>p. inodes v2 r2 = (if n = i_num (inodes v r) then disk_part (inodes v r) p
              else stored_inode v ?d sp n p)\<lparr>i_dirt := False\<rparr> \<and> i_dev p = ?d \<and> i_num p = n)" for r2 n
  proof -
    let ?v = "set_ino r2 (\<lambda>p. p\<lparr>i_dev := ?d, i_num := n\<rparr>) v1"
    have pre: "cinv (cch ?v)" "free_buf (cch ?v)" "known_dev (i_dev (inodes ?v r2))" "get_super (i_dev (inodes ?v r2)) ?v = Some sp"
      using w(2,3) assms(4,5) by (simp_all add: v1_def get_super_def)
    obtain c2 where "rw_inode e r2 False ?v
        = Some (set_ino r2 (\<lambda>p. (stored_inode ?v (i_dev (inodes ?v r2)) sp (i_num (inodes ?v r2)) p)\<lparr>i_dirt := False\<rparr>) (?v\<lparr>cch := c2\<rparr>))"
      using rw_inode_read [OF pre(1,2) assms(3) pre(3,4)] by blast
    moreover have "stored_inode ?v ?d sp n p = stored_inode (v\<lparr>cch := c\<rparr>) ?d sp n p" for p
      by (simp add: stored_inode_def v1_def)
    ultimately have "rw_inode e r2 False ?v = Some (set_ino r2 (\<lambda>p. (if n = i_num (inodes v r) then disk_part (inodes v r) p
              else stored_inode v ?d sp n p)\<lparr>i_dirt := False\<rparr>) (?v\<lparr>cch := c2\<rparr>))"
      using w(4) by simp
    then show ?thesis
      by (intro exI [of _ "set_ino r2 (\<lambda>p. (if n = i_num (inodes v r) then disk_part (inodes v r) p
              else stored_inode v ?d sp n p)\<lparr>i_dirt := False\<rparr>) (?v\<lparr>cch := c2\<rparr>)"] conjI exI [of _ "inodes ?v r2"]) simp_all
  qed
  then show ?thesis using w(1) unfolding v1_def by blast
qed

definition demo_inode :: vol where
  "demo_inode = set_ino 4 (\<lambda>p. p\<lparr>i_dev := 0x301, i_num := 7, i_mode := 0x81A4, i_size := 12\<rparr>) (demo_vol\<lparr>cch := demo_cache\<rparr>)"

theorem inode_roundtrip_witness:
  "\<exists>v1 v2. rw_inode calm_env 4 True demo_inode = Some v1
    \<and> rw_inode calm_env 5 False (set_ino 5 (\<lambda>p. p\<lparr>i_dev := 0x301, i_num := 7\<rparr>) v1) = Some v2
    \<and> i_mode (inodes v2 5) = 0x81A4 \<and> i_size (inodes v2 5) = 12"
proof -
  have i: "i_dev (inodes demo_inode 4) = 0x301" "i_num (inodes demo_inode 4) = 7" "i_mode (inodes demo_inode 4) = 0x81A4"
    "i_size (inodes demo_inode 4) = 12" "i_modtime (inodes demo_inode 4) = 0" and c: "cch demo_inode = demo_cache"
    by (simp_all add: demo_inode_def demo_vol_def blank_inode_def)
  have g: "get_super (i_dev (inodes demo_inode 4)) demo_inode = Some 0"
    using demo_get_super by (simp add: i) (simp add: get_super_def demo_inode_def)
  have pre: "cinv (cch demo_inode)" "free_buf (cch demo_inode)" "known_dev (i_dev (inodes demo_inode 4))"
    "fits32 (i_size (inodes demo_inode 4))" "fits32 (i_modtime (inodes demo_inode 4))"
    using demo_cache_ok demo_dev by (simp_all add: i c fits32_def)
  obtain v1 where v1: "rw_inode calm_env 4 True demo_inode = Some v1" "\<forall>r2 n. \<exists>v2.
      rw_inode calm_env r2 False (set_ino r2 (\<lambda>p. p\<lparr>i_dev := i_dev (inodes demo_inode 4), i_num := n\<rparr>) v1) = Some v2
      \<and> (\<exists>p. inodes v2 r2 = (if n = i_num (inodes demo_inode 4) then disk_part (inodes demo_inode 4) p
              else stored_inode demo_inode (i_dev (inodes demo_inode 4)) 0 n p)\<lparr>i_dirt := False\<rparr>
            \<and> i_dev p = i_dev (inodes demo_inode 4) \<and> i_num p = n)"
    using inode_roundtrip [OF pre(1,2) calm_io pre(3) g pre(4,5)] by blast
  from v1(2) [rule_format, of 5 7] v1(1) show ?thesis
    by (auto simp: i disk_part_def)
qed

section \<open>Protection\<close>

text \<open>Whether the right of bit \<open>b\<close> (0 to execute, 1 to write, 2 to read) is granted by the class of the caller.\<close>

definition may :: "cred \<Rightarrow> bool \<Rightarrow> inode \<Rightarrow> nat \<Rightarrow> bool" where
  "may cr real ip b \<longleftrightarrow> c_su cr \<or>
     (let uid = (if real then c_realuid cr else c_effuid cr); gid = (if real then c_realgid cr else c_effgid cr)
      in bit (i_mode ip) (if uid = i_uid ip then 6 + b else if gid = i_gid ip then 3 + b else b))"

lemma perm_bit: "bit (perm_bits cr real ip) b \<longleftrightarrow> b < 3 \<and> may cr real ip b"
proof -
  have seven: "bit (7 :: int) b \<longleftrightarrow> b < 3"
  proof -
    have "bit (mask 3 :: int) b \<longleftrightarrow> b < 3" unfolding bit_mask_iff by simp
    moreover have "(7 :: int) = mask 3" by (simp add: mask_eq_exp_minus_1)
    ultimately show ?thesis by metis
  qed
  show ?thesis by (auto simp: perm_bits_def Let_def may_def seven bit_and_iff bit_drop_bit_eq add.commute)
qed

lemma or_absorbs: "p OR w = p \<longleftrightarrow> (\<forall>b. bit w b \<longrightarrow> bit (p :: u16) b)"
proof -
  have "bit w b \<Longrightarrow> b < 16" for b using bit_imp_le_length [of w b] by simp
  then show ?thesis by (auto simp: bit_eq_iff bit_or_iff)
qed

lemma flag_bit: "has_flag w 1 \<longleftrightarrow> bit w 0" "has_flag w 2 \<longleftrightarrow> bit w 1"
  using and_exp_eq_0_iff_not_bit [of w 0] and_exp_eq_0_iff_not_bit [of w 1] by (simp_all add: has_flag_def)

lemma any_execute: "m AND (0x49 :: u16) = 0 \<longleftrightarrow> \<not> bit m 0 \<and> \<not> bit m 3 \<and> \<not> bit m 6"
proof -
  have "(0x49 :: u16) = 2 ^ 6 OR (2 ^ 3 OR 2 ^ 0)" by simp
  then have "m AND (0x49 :: u16) = (m AND 2 ^ 6) OR ((m AND 2 ^ 3) OR (m AND 2 ^ 0))"
    by (simp only: bit.conj_disj_distrib)
  then show ?thesis by (simp only: or_eq_0_iff and_exp_eq_0_iff_not_bit) blast
qed

text \<open>C31: \<^verbatim>\<open>forbidden\<close> decides as the rules of protection say: every right asked for must be granted by
  the owner, group or other bits of the mode, whichever class the caller falls in first, or by being the
  super-user; to execute, some execute bit must be set even for the super-user; and to write, the file
  system must not be read-only, which is the different error \<^verbatim>\<open>EROFS\<close>.\<close>

theorem forbidden_follows_rules:
  assumes "get_super (i_dev (inodes v rip)) v = Some sp"
  shows "forbidden cr rip want real v = Some
    (if (\<forall>b. bit want b \<longrightarrow> b < 3 \<and> may cr real (inodes v rip) b)
        \<and> (bit want 0 \<longrightarrow> bit (i_mode (inodes v rip)) 0 \<or> bit (i_mode (inodes v rip)) 3 \<or> bit (i_mode (inodes v rip)) 6)
     then if bit want 1 \<and> s_rd_only (super_block v sp) \<noteq> 0 then EROFS else OK
     else EACCES)"
proof -
  have o: "perm_bits cr real (inodes v rip) OR want \<noteq> perm_bits cr real (inodes v rip)
      \<longleftrightarrow> \<not> (\<forall>b. bit want b \<longrightarrow> b < 3 \<and> may cr real (inodes v rip) b)"
    by (simp add: or_absorbs perm_bit)
  show ?thesis using assms
    by (simp add: forbidden_def Let_def o flag_bit any_execute read_only_def)
qed

definition demo_user :: cred where
  "demo_user = \<lparr>c_realuid = 5, c_effuid = 5, c_realgid = 5, c_effgid = 5, c_su = False\<rparr>"

lemma demo_inode_super: "get_super (i_dev (inodes demo_inode 4)) demo_inode = Some 0" "super_block demo_inode 0 = demo_super"
  using demo_get_super by (simp_all add: demo_inode_def get_super_def demo_super_0)

lemma bit_read: "bit (4 :: int) b \<longleftrightarrow> b = 2" "bit (2 :: int) b \<longleftrightarrow> b = 1"
  using bit_exp_iff [of 2 b, where 'a = int] bit_exp_iff [of 1 b, where 'a = int] by auto

theorem forbidden_follows_rules_witness:
  "forbidden demo_user 4 4 False demo_inode = Some OK \<and> forbidden demo_user 4 2 False demo_inode = Some EACCES"
proof -
  have m: "inodes demo_inode 4 = blank_inode\<lparr>i_dev := 0x301, i_num := 7, i_mode := 0x81A4, i_size := 12\<rparr>"
    by (simp add: demo_inode_def demo_vol_def)
  have "may demo_user False (inodes demo_inode 4) 2" "\<not> may demo_user False (inodes demo_inode 4) 1"
    by (simp_all add: may_def demo_user_def m blank_inode_def)
  then show ?thesis
    using forbidden_follows_rules [OF demo_inode_super(1), of demo_user 4 False]
      forbidden_follows_rules [OF demo_inode_super(1), of demo_user 2 False]
    by (simp add: bit_read)
qed

end
