(* ===== verification/FSPathProps.thy ===== *)
theory FSPathProps
  imports FSProps
begin

text \<open>
  Parsing of path names: \<^verbatim>\<open>get_name\<close> against the components of a path as lists.
\<close>

section \<open>The three loops of a parse\<close>

text \<open>\<open>seg p n i\<close> is the rest of the path from position \<open>i\<close> up to its end at \<open>n\<close>.\<close>

definition seg :: "block \<Rightarrow> nat \<Rightarrow> nat \<Rightarrow> u8 list" where
  "seg p n i = map p [i..<n]"

definition path_ends :: "block \<Rightarrow> nat \<Rightarrow> bool" where
  "path_ends p n \<longleftrightarrow> n < PATH_MAX \<and> p n = 0 \<and> (\<forall>j<n. p j \<noteq> 0)"

lemma seg_Cons: "i < n \<Longrightarrow> seg p n i = p i # seg p n (i + 1)"
  by (simp add: seg_def upt_conv_Cons)

lemma seg_end [simp]: "seg p n n = []"
  by (simp add: seg_def)

lemma length_seg [simp]: "length (seg p n i) = n - i"
  by (simp add: seg_def)

lemma seg_drop: "i + k \<le> n \<Longrightarrow> seg p n (i + k) = drop k (seg p n i)"
  by (simp add: seg_def drop_map)

lemma skip_lead_seg:
  assumes "path_ends p n" "i \<le> n"
  shows "skip_lead p i = Some (i + length (takeWhile (\<lambda>x. x = SLASH) (seg p n i)))"
  using assms(2)
proof (induction "n - i" arbitrary: i)
  case 0
  then have "i = n" by simp
  then show ?case using assms(1) by (simp add: skip_lead.simps [of p n] path_ends_def)
next
  case (Suc k)
  then have i: "i < n" by simp
  have "skip_lead p (i + 1) = Some (i + 1 + length (takeWhile (\<lambda>x. x = SLASH) (seg p n (i + 1))))"
    using Suc i by (intro Suc.hyps) auto
  then show ?case using assms(1) i by (simp add: skip_lead.simps [of p i] seg_Cons path_ends_def)
qed

lemma copy_comp_seg:
  assumes "path_ends p n" "i \<le> n" "length acc \<le> NAME_SIZE"
  shows "copy_comp p i acc = (i + length (takeWhile (\<lambda>x. x \<noteq> SLASH) (seg p n i)),
     take NAME_SIZE (acc @ takeWhile (\<lambda>x. x \<noteq> SLASH) (seg p n i)))"
  using assms(2,3)
proof (induction "n - i" arbitrary: i acc)
  case 0
  then have "i = n" by simp
  then show ?case using assms(1) 0 by (simp add: copy_comp.simps [of p n] path_ends_def)
next
  case (Suc k)
  then have i: "i < n" by simp
  let ?acc = "if length acc < NAME_SIZE then acc @ [p i] else acc"
  have "copy_comp p (i + 1) ?acc = (i + 1 + length (takeWhile (\<lambda>x. x \<noteq> SLASH) (seg p n (i + 1))),
     take NAME_SIZE (?acc @ takeWhile (\<lambda>x. x \<noteq> SLASH) (seg p n (i + 1))))"
    using Suc i by (intro Suc.hyps) auto
  then show ?case using assms(1) i Suc.prems(2) by (simp add: copy_comp.simps [of p i] seg_Cons path_ends_def take_Cons')
qed

lemma skip_trail_seg:
  assumes "path_ends p n" "i \<le> n"
  shows "skip_trail p i = i + length (takeWhile (\<lambda>x. x = SLASH) (seg p n i))"
  using assms(2)
proof (induction "n - i" arbitrary: i)
  case 0
  then have "i = n" by simp
  then show ?case using assms(1) by (simp add: skip_trail.simps [of p n] path_ends_def)
next
  case (Suc k)
  then have i: "i < n" by simp
  have "skip_trail p (i + 1) = i + 1 + length (takeWhile (\<lambda>x. x = SLASH) (seg p n (i + 1)))"
    using Suc i by (intro Suc.hyps) auto
  then show ?case using assms(1) i by (simp add: skip_trail.simps [of p i] seg_Cons path_ends_def)
qed

section \<open>Components\<close>

definition pad_name :: "u8 list \<Rightarrow> u8 list" where
  "pad_name c = take NAME_SIZE c @ replicate (NAME_SIZE - length c) 0"

definition first_comp :: "u8 list \<Rightarrow> u8 list" where
  "first_comp s = takeWhile (\<lambda>x. x \<noteq> SLASH) (dropWhile (\<lambda>x. x = SLASH) s)"

definition later_comps :: "u8 list \<Rightarrow> u8 list" where
  "later_comps s = dropWhile (\<lambda>x. x = SLASH) (dropWhile (\<lambda>x. x \<noteq> SLASH) (dropWhile (\<lambda>x. x = SLASH) s))"

lemma seg_dropWhile: "i \<le> n \<Longrightarrow> seg p n (i + length (takeWhile P (seg p n i))) = dropWhile P (seg p n i)"
  using seg_drop [of i "length (takeWhile P (seg p n i))" n p] length_takeWhile_le [of P "seg p n i"]
  by (simp add: dropWhile_eq_drop)

lemma seg_le: "i \<le> n \<Longrightarrow> i + length (takeWhile P (seg p n i)) \<le> n"
  using length_takeWhile_le [of P "seg p n i"] by simp

lemma get_name_seg:
  assumes "path_ends p n" "i \<le> n"
  shows "\<exists>j. get_name p i = Some (Some j, pad_name (first_comp (seg p n i))) \<and> j \<le> n
    \<and> seg p n j = later_comps (seg p n i)"
proof -
  define a where "a = i + length (takeWhile (\<lambda>x. x = SLASH) (seg p n i))"
  have a: "a \<le> n" "seg p n a = dropWhile (\<lambda>x. x = SLASH) (seg p n i)" "skip_lead p i = Some a"
    using seg_le [OF assms(2)] seg_dropWhile [OF assms(2)] skip_lead_seg [OF assms] by (simp_all add: a_def)
  define b where "b = a + length (takeWhile (\<lambda>x. x \<noteq> SLASH) (seg p n a))"
  have b: "b \<le> n" "seg p n b = dropWhile (\<lambda>x. x \<noteq> SLASH) (seg p n a)"
    "copy_comp p a [] = (b, take NAME_SIZE (takeWhile (\<lambda>x. x \<noteq> SLASH) (seg p n a)))"
    using seg_le [OF a(1)] seg_dropWhile [OF a(1)] copy_comp_seg [OF assms(1) a(1), of "[]"] by (simp_all add: b_def)
  define c where "c = b + length (takeWhile (\<lambda>x. x = SLASH) (seg p n b))"
  have c: "c \<le> n" "seg p n c = dropWhile (\<lambda>x. x = SLASH) (seg p n b)" "skip_trail p b = c"
    using seg_le [OF b(1)] seg_dropWhile [OF b(1)] skip_trail_seg [OF assms(1) b(1)] by (simp_all add: c_def)
  have "\<not> c \<ge> PATH_MAX" using c(1) assms(1) by (simp add: path_ends_def)
  then have "get_name p i = Some (Some c, pad_name (first_comp (seg p n i)))"
    using a b(3) c(3) by (simp add: get_name_def pad_name_def first_comp_def min_def)
  then show ?thesis using c(1,2) b(2) a(2) by (simp add: later_comps_def)
qed

lemma later_shorter:
  assumes "dropWhile (\<lambda>x. x = SLASH) s \<noteq> []"
  shows "length (later_comps s) < length s"
proof -
  obtain y ys where y: "dropWhile (\<lambda>x. x = SLASH) s = y # ys" using assms by (cases "dropWhile (\<lambda>x. x = SLASH) s") auto
  have "y \<noteq> SLASH" using hd_dropWhile [OF assms] y by simp
  then have l: "later_comps s = dropWhile (\<lambda>x. x = SLASH) (dropWhile (\<lambda>x. x \<noteq> SLASH) ys)" by (simp add: later_comps_def y)
  have "length (later_comps s) \<le> length ys" unfolding l
    by (rule le_trans [OF length_dropWhile_le length_dropWhile_le])
  moreover have "length (y # ys) \<le> length s" unfolding y [symmetric] by (rule length_dropWhile_le)
  ultimately show ?thesis by simp
qed

function components :: "u8 list \<Rightarrow> u8 list list" where
  "components s = (if dropWhile (\<lambda>x. x = SLASH) s = [] then [] else first_comp s # components (later_comps s))"
  by pat_completeness auto
termination by (relation "measure length") (simp_all add: later_shorter del: dropWhile_eq_Nil_conv)

declare components.simps [simp del]

text \<open>The names that the loop of \<^verbatim>\<open>last_dir\<close> takes from a path, one after the other.\<close>

partial_function (option) parse_path :: "block \<Rightarrow> nat \<Rightarrow> u8 list list option" where
  "parse_path p i = do {
     (q, nm) \<leftarrow> get_name p i;
     j \<leftarrow> q;
     (if p j = 0 then Some [nm] else do { r \<leftarrow> parse_path p j; Some (nm # r) })
   }"

lemma path_end_seg: "path_ends p n \<Longrightarrow> j \<le> n \<Longrightarrow> p j = 0 \<longleftrightarrow> seg p n j = []"
  by (cases "j = n") (auto simp: path_ends_def seg_Cons)

lemma later_starts:
  assumes "later_comps s \<noteq> []"
  shows "dropWhile (\<lambda>x. x = SLASH) (later_comps s) \<noteq> []"
  using assms by (simp add: later_comps_def dropWhile_idem del: dropWhile_eq_Nil_conv)

lemma parse_path_components:
  assumes "path_ends p n" "i \<le> n"
  shows "parse_path p i = Some (if components (seg p n i) = [] then [pad_name []] else map pad_name (components (seg p n i)))"
  using assms(2)
proof (induction "length (seg p n i)" arbitrary: i rule: less_induct)
  case less
  obtain j where j: "get_name p i = Some (Some j, pad_name (first_comp (seg p n i)))" "j \<le> n"
    "seg p n j = later_comps (seg p n i)"
    using get_name_seg [OF assms(1) less.prems] by blast
  show ?case
  proof (cases "dropWhile (\<lambda>x. x = SLASH) (seg p n i) = []")
    case True
    then have "first_comp (seg p n i) = []" "p j = 0"
      using path_end_seg [OF assms(1) j(2)] j(3) by (simp_all only: first_comp_def later_comps_def True) simp_all
    then show ?thesis using j(1) True
      by (simp add: parse_path.simps [of p i] components.simps [of "seg p n i"] del: dropWhile_eq_Nil_conv)
  next
    case False
    have c: "components (seg p n i) = first_comp (seg p n i) # components (later_comps (seg p n i))"
      using False by (simp add: components.simps [of "seg p n i"] del: dropWhile_eq_Nil_conv)
    show ?thesis
    proof (cases "p j = 0")
      case True
      then have "later_comps (seg p n i) = []" using path_end_seg [OF assms(1) j(2)] j(3) by simp
      then show ?thesis using j(1) True c by (simp add: parse_path.simps [of p i] components.simps [of "[]"])
    next
      case ne: False
      then have ln: "later_comps (seg p n i) \<noteq> []" using path_end_seg [OF assms(1) j(2)] j(3) by simp
      have "length (seg p n j) < length (seg p n i)" unfolding j(3) by (rule later_shorter [OF False])
      from less.hyps [OF this j(2)]
      have "parse_path p j = Some (map pad_name (components (later_comps (seg p n i))))"
        using later_starts [OF ln] unfolding j(3) by (simp add: components.simps [of "later_comps (seg p n i)"] del: dropWhile_eq_Nil_conv)
      then show ?thesis using j(1) ne c by (simp add: parse_path.simps [of p i])
    qed
  qed
qed

text \<open>C32: \<^verbatim>\<open>get_name\<close> splits a path as the convention says: taken one after the other, as \<^verbatim>\<open>last_dir\<close>
  does, the names of a path that ends within \<^verbatim>\<open>user_path\<close> are its maximal runs of bytes other than a
  slash, each cut or padded with zeros to 14 bytes (one empty name for a path without any), so that
  leading, repeated and trailing slashes make no difference.\<close>

theorem path_splits_into_components:
  assumes "n < PATH_MAX" "p n = 0" "\<forall>j<n. p j \<noteq> 0"
  shows "parse_path p 0 = Some (if components (map p [0..<n]) = [] then [pad_name []]
     else map pad_name (components (map p [0..<n])))"
  using parse_path_components [of p n 0] assms by (simp add: path_ends_def seg_def)

text \<open>The path \<^verbatim>\<open>//a/bb/\<close>.\<close>

definition demo_path :: block where
  "demo_path = (\<lambda>_. 0)(0 := 47, 1 := 47, 2 := 97, 3 := 47, 4 := 98, 5 := 98, 6 := 47)"

lemma demo_components: "components (map demo_path [0..<7]) = [[97], [98, 98]]"
  by (simp add: demo_path_def upt_conv_Cons components.simps first_comp_def later_comps_def)

theorem path_splits_into_components_witness:
  "parse_path demo_path 0 = Some [97 # replicate 13 0, 98 # 98 # replicate 12 0]"
proof -
  have "\<forall>j<7. demo_path j \<noteq> 0" by (auto simp: demo_path_def)
  then show ?thesis
    using path_splits_into_components [of 7 demo_path] unfolding demo_components
    by (simp add: pad_name_def) (simp add: demo_path_def)
qed

end
