(* ===== verification/FSPipeProps.thy ===== *)
theory FSPipeProps
  imports FSPathProps
begin

text \<open>
  Suspension and revival: a process that sleeps on a pipe is taken up with the call it made, and
  what happens when a pipe is released twice; the length of a path name; positions of a file.
\<close>

section \<open>A small system\<close>

definition blank_fproc :: fproc where
  "blank_fproc = \<lparr>fp_umask = 0, fp_workdir = Some 0, fp_rootdir = Some 0, fp_filp = (\<lambda>_. None), fp_realuid = 5, fp_effuid = 5,
     fp_realgid = 1, fp_effgid = 1, fs_tty = 0x400, fp_fd = 0, fp_buffer = 0, fp_nbytes = 0, fp_suspended = False,
     fp_revived = False, fp_task = 0\<rparr>"

definition blank_filp :: filp where
  "blank_filp = \<lparr>filp_mode = 0, filp_count = 0, filp_ino = None, filp_pos = 0\<rparr>"

definition blank_msg :: fmsg where
  "blank_msg = \<lparr>m_i1 = 0, m_i2 = 0, m_i3 = 0, m_p1 = 0, m_p2 = 0, m_p3 = 0, m_ca1 = (\<lambda>_. 65), m_l1 = 0, m_l2 = 0, m_2p1 = 0,
     m_2i3 = 0\<rparr>"

definition blank_reply :: rmsg where
  "blank_reply = \<lparr>reply_l1 = 0, reply_i1 = 0, reply_i2 = 0, reply_t = (\<lambda>_. 0), reply_spek = 0, reply_flags = 0\<rparr>"

text \<open>Process 3 has descriptor 2 open for reading on the inode 4, and asks to read 10 bytes from it.\<close>

definition demo_fs :: fs where
  "demo_fs = \<lparr>vol = demo_vol, fproc = (\<lambda>p. if p = 3 then blank_fproc\<lparr>fp_filp := [2 \<mapsto> 9]\<rparr> else blank_fproc),
     filp = (\<lambda>f. if f = 9 then \<lparr>filp_mode = 4, filp_count = 1, filp_ino = Some 4, filp_pos = 0\<rparr> else blank_filp),
     fp = 3, super_user = False, dont_reply = False, susp_count = 0, reviving = 0, rdahedpos = 0, rdahed_inode = None,
     msg = blank_msg\<lparr>m_i1 := 2, m_i2 := 10, m_p1 := 0x1234\<rparr>, m1 = blank_reply, who = 3, fs_call = 3,
     user_path = (\<lambda>_. 0), umem = (\<lambda>_ _ _. 66), copies = 0, devs = 0, sent = []\<rparr>"

lemmas demo_fs_defs = demo_fs_def blank_fproc_def blank_filp_def blank_msg_def blank_reply_def

section \<open>A release with one sleeper\<close>

text \<open>\<open>lone_sleeper\<close>: of all processes only \<open>rp\<close> waits for \<open>call\<close> on the pipe \<open>ip\<close>, and nobody is
  about to be revived.\<close>

definition lone_sleeper :: "fs \<Rightarrow> nat \<Rightarrow> int \<Rightarrow> int \<Rightarrow> bool" where
  "lone_sleeper s ip call rp \<longleftrightarrow> 0 \<le> rp \<and> rp < NR_PROCS \<and> hangs_on s ip call rp = Some True \<and> fp_task (fproc s rp) = XPIPE
     \<and> (\<forall>q. 0 \<le> q \<and> q < NR_PROCS \<and> q \<noteq> rp \<longrightarrow> hangs_on s ip call q = Some False)"

definition none_revived :: "fs \<Rightarrow> bool" where
  "none_revived s \<longleftrightarrow> reviving s = 0 \<and> (\<forall>q. \<not> fp_revived (fproc s q))"

lemma release_loop_skip:
  assumes "\<forall>q\<in>set qs. hangs_on s ip call q = Some False"
  shows "release_loop ip call (qs @ rs) n s = release_loop ip call rs n s"
  using assms by (induction qs) auto

definition woken :: "int \<Rightarrow> fs \<Rightarrow> fs" where
  "woken rp s = (set_fproc rp (\<lambda>p. p\<lparr>fp_revived := True\<rparr>) s)\<lparr>reviving := reviving s + 1, susp_count := susp_count s - 1\<rparr>"

lemma hangs_on_woken [simp]: "hangs_on (woken rp s) ip call q = hangs_on s ip call q"
  by (auto simp: hangs_on_def woken_def Let_def)

lemma release_first:
  assumes "0 \<le> rp" "rp < NR_PROCS" "hangs_on s ip call rp = Some True" "fp_task (fproc s rp) = XPIPE"
    and lo: "\<forall>q. 0 \<le> q \<and> q < rp \<longrightarrow> hangs_on s ip call q = Some False"
  shows "release ip call 1 s = Some (woken rp s)"
proof -
  have su: "fp_suspended (fproc s rp)" using assms(3) by (auto simp: hangs_on_def Let_def split: if_splits)
  have split: "[0..NR_PROCS - 1] = [0..rp - 1] @ rp # [rp + 1..NR_PROCS - 1]"
    using assms(1,2) upto_split3 [of 0 rp "NR_PROCS - 1"] by simp
  have lo: "\<forall>q\<in>set [0..rp - 1]. hangs_on s ip call q = Some False" using lo by auto
  have rv: "revive rp 0 s = Some ((set_fproc rp (\<lambda>p. p\<lparr>fp_revived := True\<rparr>) s)\<lparr>reviving := reviving s + 1\<rparr>)"
    using assms su by (simp add: revive_def)
  show ?thesis
    unfolding release_def split release_loop_skip [OF lo] using assms(3) rv by (simp add: Let_def woken_def)
qed

lemma release_lone:
  assumes "lone_sleeper s ip call rp"
  shows "release ip call n s = Some (woken rp s)"
proof -
  have r: "0 \<le> rp" "rp < NR_PROCS" "hangs_on s ip call rp = Some True" "fp_task (fproc s rp) = XPIPE"
    using assms by (auto simp: lone_sleeper_def)
  have su: "fp_suspended (fproc s rp)" using r(3) by (auto simp: hangs_on_def Let_def split: if_splits)
  have split: "[0..NR_PROCS - 1] = [0..rp - 1] @ rp # [rp + 1..NR_PROCS - 1]"
    using r(1,2) upto_split3 [of 0 rp "NR_PROCS - 1"] by simp
  have lo: "\<forall>q\<in>set [0..rp - 1]. hangs_on s ip call q = Some False"
    and hi: "\<forall>q\<in>set [rp + 1..NR_PROCS - 1]. hangs_on (woken rp s) ip call q = Some False"
    using assms by (auto simp: lone_sleeper_def)
  have rv: "revive rp 0 s = Some ((set_fproc rp (\<lambda>p. p\<lparr>fp_revived := True\<rparr>) s)\<lparr>reviving := reviving s + 1\<rparr>)"
    using r su by (simp add: revive_def)
  have w: "(set_fproc rp (\<lambda>p. p\<lparr>fp_revived := True\<rparr>) s)\<lparr>reviving := reviving s + 1, susp_count := susp_count s - 1\<rparr> = woken rp s"
    by (simp add: woken_def)
  have rest: "release_loop ip call [rp + 1..NR_PROCS - 1] m (woken rp s) = Some (woken rp s)" for m
    using release_loop_skip [OF hi, of "[]" m] by simp
  show ?thesis
    unfolding release_def split release_loop_skip [OF lo] using r(3) rv rest w by (simp add: Let_def)
qed

lemma woken_again: "lone_sleeper s ip call rp \<Longrightarrow> lone_sleeper (woken rp s) ip call rp"
  by (simp add: lone_sleeper_def) (simp add: woken_def)

lemma find_append: "List.find P (xs @ ys) = (case List.find P xs of None \<Rightarrow> List.find P ys | Some x \<Rightarrow> Some x)"
  by (induction xs) auto

lemma find_revived:
  assumes "0 \<le> rp" "rp < NR_PROCS" "fp_revived (fproc s rp)" "\<And>q. q \<noteq> rp \<Longrightarrow> \<not> fp_revived (fproc s q)"
  shows "List.find (\<lambda>i. fp_revived (fproc s i)) [0..NR_PROCS - 1] = Some rp"
proof -
  have split: "[0..NR_PROCS - 1] = [0..rp - 1] @ rp # [rp + 1..NR_PROCS - 1]"
    using assms(1,2) upto_split3 [of 0 rp "NR_PROCS - 1"] by simp
  have "List.find (\<lambda>i. fp_revived (fproc s i)) [0..rp - 1] = None"
    using assms(4) by (auto simp: find_None_iff)
  then show ?thesis unfolding split by (simp add: find_append assms(3))
qed

text \<open>The saved call of a revived process, as \<^verbatim>\<open>get_work\<close> takes it up.\<close>

definition taken_up :: "int \<Rightarrow> fs \<Rightarrow> fs" where
  "taken_up rp s = (set_fproc rp (\<lambda>p. p\<lparr>fp_suspended := False, fp_revived := False\<rparr>) s)
     \<lparr>who := rp, fs_call := fp_fd (fproc s rp) AND 255, reviving := reviving s - 1,
      msg := (msg s)\<lparr>m_i1 := drop_bit 8 (fp_fd (fproc s rp)) AND 255, m_p1 := fp_buffer (fproc s rp),
                     m_i2 := fp_nbytes (fproc s rp)\<rparr>\<rparr>"

lemma get_work_revived:
  assumes "0 \<le> rp" "rp < NR_PROCS" "reviving s \<noteq> 0" "fp_revived (fproc s rp)" "\<And>q. q \<noteq> rp \<Longrightarrow> \<not> fp_revived (fproc s q)"
  shows "get_work_fs inp s = Some (taken_up rp s)"
  using assms(3) find_revived [OF assms(1,2,4,5)] by (simp add: get_work_fs_def Let_def taken_up_def)

lemma get_work_stuck:
  assumes "reviving s \<noteq> 0" "\<And>q. \<not> fp_revived (fproc s q)"
  shows "get_work_fs inp s = None"
proof -
  have "List.find (\<lambda>i. fp_revived (fproc s i)) [0..NR_PROCS - 1] = None" using assms(2) by (auto simp: find_None_iff)
  then show ?thesis using assms(1) by (simp add: get_work_fs_def)
qed

text \<open>Releasing a pipe twice before the file system takes up other work counts one sleeper twice.
  \<^verbatim>\<open>release\<close> does not look at \<^verbatim>\<open>fp_revived\<close>: when a process with two descriptors for the same end of a
  pipe exits, each \<^verbatim>\<open>do_close\<close> releases the process asleep at the other end again; \<^verbatim>\<open>reviving\<close> becomes 2,
  \<^verbatim>\<open>get_work\<close> revives the one process there is, and its next call panics.\<close>

theorem double_release_panics:
  assumes "lone_sleeper s ip call rp" "none_revived s"
  shows "\<exists>s1 s2 s3. release ip call NR_PROCS s = Some s1 \<and> release ip call NR_PROCS s1 = Some s2 \<and> reviving s2 = 2
    \<and> susp_count s2 = susp_count s - 2 \<and> get_work_fs inp s2 = Some s3 \<and> who s3 = rp \<and> get_work_fs inp' s3 = None"
proof -
  let ?s1 = "woken rp s" let ?s2 = "woken rp ?s1" let ?s3 = "taken_up rp ?s2"
  have r: "0 \<le> rp" "rp < NR_PROCS" using assms(1) by (auto simp: lone_sleeper_def)
  have n: "reviving s = 0" "\<And>q. \<not> fp_revived (fproc s q)" using assms(2) by (auto simp: none_revived_def)
  have "get_work_fs inp ?s2 = Some ?s3"
    by (rule get_work_revived [OF r]) (use n in \<open>simp_all add: woken_def\<close>)
  moreover have "get_work_fs inp' ?s3 = None"
    by (rule get_work_stuck) (use n in \<open>simp_all add: woken_def taken_up_def\<close>)
  moreover have "release ip call NR_PROCS s = Some ?s1" "release ip call NR_PROCS ?s1 = Some ?s2"
    using release_lone assms(1) woken_again by blast+
  moreover have "reviving ?s2 = 2" "susp_count ?s2 = susp_count s - 2" "who ?s3 = rp"
    using n by (simp_all add: woken_def taken_up_def)
  ultimately show ?thesis by blast
qed

text \<open>Process 3 asleep in a read of its pipe.\<close>

definition demo_sleeper :: fs where
  "demo_sleeper = set_fproc 3 (\<lambda>p. p\<lparr>fp_suspended := True, fp_fd := 2 * 256 + 3\<rparr>) (demo_fs\<lparr>susp_count := 1\<rparr>)"

theorem double_release_panics_witness:
  "\<exists>s1 s2 s3. release 4 3 16 demo_sleeper = Some s1 \<and> release 4 3 16 s1 = Some s2 \<and> reviving s2 = 2
    \<and> get_work_fs None s2 = Some s3 \<and> get_work_fs None s3 = None"
proof -
  have "lone_sleeper demo_sleeper 4 3 3" "none_revived demo_sleeper"
    by (simp_all add: lone_sleeper_def none_revived_def hangs_on_def demo_sleeper_def demo_fs_defs Let_def)
  then show ?thesis using double_release_panics [of demo_sleeper 4 3 3 None None] by blast
qed

section \<open>A sleeping reader and its writer\<close>

lemma int_of_id: "- 32768 \<le> x \<Longrightarrow> x < 32768 \<Longrightarrow> int_of x = x"
  by (simp add: int_of_def sint_sbintrunc' signed_take_bit_int_eq_self)

lemma saved_call:
  assumes "0 \<le> fd" "fd < 20" "call = C_READ \<or> call = C_WRITE"
  defines "w \<equiv> int_of ((fd * 256) OR call)"
  shows "w AND 255 = call" "drop_bit 8 w = fd" "drop_bit 8 w AND 255 = fd"
proof -
  have "fd * 256 OR call = fd * 256 + call"
  proof -
    have "fd \<in> {0, 1, 2, 3, 4, 5, 6, 7, 8, 9, 10, 11, 12, 13, 14, 15, 16, 17, 18, 19}" using assms(1,2) by (simp; arith)
    then show ?thesis using assms(3) by (elim insertE emptyE disjE) simp_all
  qed
  then have w: "w = fd * 256 + call"
    using assms(1-3) int_of_id [of "fd * 256 + call"] by (auto simp: w_def)
  have c: "0 \<le> call" "call < 256" using assms(3) by auto
  have and255: "x AND 255 = x mod 256" for x :: int
    using take_bit_eq_mask [of 8 x] by (simp add: take_bit_eq_mod mask_eq_exp_minus_1)
  show "w AND 255 = call" unfolding and255 w using c by simp
  show d: "drop_bit 8 w = fd" unfolding w using c by (simp add: drop_bit_eq_div)
  show "drop_bit 8 w AND 255 = fd" unfolding d and255 using assms(1,2) by simp
qed


text \<open>Processes 3 and 5 asleep in reads of the same pipe: the writer wakes process 3 only.\<close>

definition demo_sleepers :: fs where
  "demo_sleepers = set_fproc 5 (\<lambda>p. p\<lparr>fp_suspended := True, fp_fd := 2 * 256 + 3, fp_filp := [2 \<mapsto> 9]\<rparr>)
     ((suspend XPIPE demo_fs)\<lparr>fp := 6, who := 6, fs_call := C_WRITE, msg := blank_msg, susp_count := 2\<rparr>)"


section \<open>Interrupting a process that waits for a terminal\<close>

text \<open>When MM asks to interrupt a process that waits for a device, and MM has no files open itself (it
  never has), \<^verbatim>\<open>do_unpause\<close> never gets its device: the word \<^verbatim>\<open>fp_fd\<close> with descriptor and call number is
  taken for a descriptor of the caller, \<^verbatim>\<open>get_filp\<close> gives nil, and the result is used unchecked.\<close>

theorem unpause_of_device_wait_uses_nil:
  assumes "who s = MM_PROC_NR" "fp s = MM_PROC_NR" "\<forall>i. fp_filp (fproc s MM_PROC_NR) i = None"
    "0 \<le> m_i1 (msg s)" "m_i1 (msg s) < NR_PROCS" "fp_suspended (fproc s (m_i1 (msg s)))" "fp_task (fproc s (m_i1 (msg s))) \<noteq> 0"
  shows "do_unpause e s = None"
  using assms by (simp add: do_unpause_def get_filp_def Let_def)

text \<open>MM asks to interrupt process 3, asleep in a read of a terminal through its descriptor 2.\<close>

theorem unpause_of_device_wait_uses_nil_witness:
  "do_unpause calm_env (set_fproc 3 (\<lambda>p. p\<lparr>fp_suspended := True, fp_fd := 2 * 256 + 3, fp_task := 7\<rparr>)
     (demo_fs\<lparr>who := 0, fp := 0, msg := blank_msg\<lparr>m_i1 := 3\<rparr>\<rparr>)) = None"
  by (rule unpause_of_device_wait_uses_nil) (simp_all add: demo_fs_defs)

section \<open>The length of a path name\<close>

text \<open>\<^verbatim>\<open>fetch_name\<close> when it returns stays within \<^verbatim>\<open>user_path\<close>: nothing beyond its 128 bytes changes;
  with \<^verbatim>\<open>OK\<close> the first \<^verbatim>\<open>len\<close> bytes are those of the message, for a name of at most 14 bytes in a
  message of type M3, or those at the address in the caller's data segment, wrapping at 64K; with any
  other result the path is untouched and \<^verbatim>\<open>err_code\<close> says why.\<close>

theorem fetch_name_within_path:
  assumes "fetch_name e path len in_msg s = Some (r, s')"
  shows "(\<forall>i. int i \<ge> len \<or> 128 \<le> i \<longrightarrow> user_path s' i = user_path s i)
    \<and> (r = OK \<longrightarrow> len \<le> int PATH_MAX \<and> (\<forall>i. int i < len \<longrightarrow> user_path s' i =
         (if in_msg \<and> len \<le> 14 then m_ca1 (msg s) i else umem s (who s) SEG_D (unat (path + word_of_nat i)))))
    \<and> (r \<noteq> OK \<longrightarrow> user_path s' = user_path s \<and> err s' = (if len > int PATH_MAX then E_LONG_STRING else r))"
  using assms
  by (auto simp: fetch_name_def from_user_def set_err_def on_vol_def Let_def simp del: One_nat_def split: if_splits)

theorem fetch_name_within_path_witness:
  "\<exists>s'. fetch_name calm_env 0x50 3 True demo_fs = Some (OK, s') \<and> user_path s' 2 = 65 \<and> user_path s' 3 = 0"
proof -
  obtain s' where s': "fetch_name calm_env 0x50 3 True demo_fs = Some (OK, s')" by (simp add: fetch_name_def)
  show ?thesis using s' fetch_name_within_path [OF s'] by (simp add: demo_fs_defs)
qed

text \<open>A user can stop the file system with one message: \<^verbatim>\<open>CHDIR\<close> with a path length of zero or less
  in the message makes \<^verbatim>\<open>fetch_name\<close> count down from it with its test at the end of the loop, over all
  of memory; the step never completes, whatever the state.\<close>

theorem chdir_with_bad_length_runs_away:
  assumes "reviving s = 0" "u \<noteq> MM_PROC_NR" "m_i1 m \<le> 0"
  shows "fs_step e (Some (u, 12, m)) s = None"
  using assms by (simp add: fs_step_def get_work_fs_def call_vector_def do_chdir_def change_def path_inode_def fetch_name_def Let_def)

theorem chdir_with_bad_length_runs_away_witness:
  "fs_step calm_env (Some (3, 12, blank_msg)) demo_fs = None"
  by (rule chdir_with_bad_length_runs_away) (simp_all add: demo_fs_defs)

section \<open>Positions\<close>

lemma long_of_fits: "fits32 (long_of x)"
  using sint_ge [of "word_of_int x :: u32"] sint_lt [of "word_of_int x :: u32"] by (simp add: long_of_def fits32_def)

lemma long_of_pos:
  assumes "- (2 ^ 31) \<le> x" "x < 2 ^ 32" "0 \<le> long_of x"
  shows "long_of x = x"
proof (cases "x < 2 ^ 31")
  case True
  then show ?thesis using assms(1) by (simp add: long_of_def sint_sbintrunc' signed_take_bit_int_eq_self)
next
  case False
  have "long_of x = x - 2 ^ 32"
  proof -
    have "word_of_int x = (word_of_int (x - 2 ^ 32) :: u32)" by (simp add: word_of_int_eq_iff take_bit_eq_mod)
    moreover have "sint (word_of_int (x - 2 ^ 32) :: u32) = x - 2 ^ 32"
      by (rule sint_of_int_u32) (use False assms(2) in \<open>simp add: fits32_def\<close>)
    ultimately show ?thesis by (simp only: long_of_def)
  qed
  then show ?thesis using assms(2,3) by simp
qed

lemma long_of_sign:
  assumes "- (2 ^ 31) \<le> x \<and> x < 2 ^ 32"
  shows "long_of x < 0 \<longleftrightarrow> x < 0 \<or> 2 ^ 31 \<le> x"
proof (cases "0 \<le> long_of x")
  case True
  then have "long_of x = x" using long_of_pos assms by blast
  then show ?thesis using True long_of_fits [of x] by (auto simp: fits32_def)
next
  case False
  have "long_of x = x" if "0 \<le> x \<and> x < 2 ^ 31"
    using that by (simp add: long_of_def sint_sbintrunc' signed_take_bit_int_eq_self)
  then show ?thesis using False by (cases "0 \<le> x \<and> x < 2 ^ 31") auto
qed

text \<open>C35: What \<^verbatim>\<open>do_lseek\<close> answers and where the position ends up, as long as all positions and sizes are
  between 0 and the largest long. A descriptor that is not open gets \<^verbatim>\<open>EBADF\<close>, a pipe \<^verbatim>\<open>ESPIPE\<close>, a \<^verbatim>\<open>whence\<close>
  other than 0, 1 and 2 \<^verbatim>\<open>EINVAL\<close>, and so does a seek whose target, base plus offset, is negative or does not
  fit in a long; every other seek is accepted. An accepted seek sets the position of this one file to the
  target, returns the target and inhibits read-ahead on its inode; a refused one changes no position and no
  inode. So the positions stay between 0 and the largest long.\<close>

theorem lseek_keeps_position_in_range:
  assumes "fits32 (m_l1 (msg s))"
    "\<forall>f. 0 \<le> filp_pos (filp s f) \<and> fits32 (filp_pos (filp s f))" "\<forall>i. 0 \<le> i_size (ino s i) \<and> fits32 (i_size (ino s i))"
    "\<forall>f. filp_ino (filp s f) = None \<longrightarrow> (\<forall>i. fp_filp (cur s) i \<noteq> Some f)"
  shows "\<exists>r s'. do_lseek s = Some (r, s') \<and> (\<forall>f. 0 \<le> filp_pos (filp s' f) \<and> filp_pos (filp s' f) < 2 ^ 31)
    \<and> (case (if 0 \<le> m_i1 (msg s) \<and> m_i1 (msg s) < 20 then fp_filp (cur s) (nat (m_i1 (msg s))) else None) of
         None \<Rightarrow> r = EBADF \<and> filp s' = filp s \<and> ino s' = ino s
       | Some f \<Rightarrow> \<exists>rip target. filp_ino (filp s f) = Some rip
           \<and> target = m_l1 (msg s) + (if m_i2 (msg s) = 0 then 0 else if m_i2 (msg s) = 1 then filp_pos (filp s f)
                                     else i_size (ino s rip))
           \<and> r = (if i_pipe (ino s rip) then ESPIPE
                  else if m_i2 (msg s) \<noteq> 0 \<and> m_i2 (msg s) \<noteq> 1 \<and> m_i2 (msg s) \<noteq> 2 then EINVAL
                  else if target < 0 \<or> 2 ^ 31 \<le> target then EINVAL else OK)
           \<and> (if r = OK then filp s' = (filp s)(f := (filp s f)\<lparr>filp_pos := target\<rparr>)
                \<and> ino s' = (ino s)(rip := (ino s rip)\<lparr>i_seek := True\<rparr>) \<and> reply_l1 (m1 s') = target
              else filp s' = filp s \<and> ino s' = ino s))"
proof -
  define s0 where "s0 = set_err EBADF s"
  have s0: "filp s0 = filp s" "ino s0 = ino s" "msg s0 = msg s" "err s0 = EBADF" "cur s0 = cur s"
    by (simp_all add: s0_def set_err_def on_vol_def)
  define fo where "fo = (if 0 \<le> m_i1 (msg s) \<and> m_i1 (msg s) < 20 then fp_filp (cur s) (nat (m_i1 (msg s))) else None)"
  have g: "get_filp (m_i1 (msg s)) s = (fo, s0)" by (auto simp: get_filp_def s0_def fo_def)
  have range: "\<forall>f. 0 \<le> filp_pos (filp s f) \<and> filp_pos (filp s f) < 2 ^ 31" using assms(2) by (simp add: fits32_def)
  show ?thesis
  proof (cases fo)
    case None
    then have "do_lseek s = Some (EBADF, s0)" using g s0(4) by (simp add: do_lseek_def)
    then show ?thesis unfolding fo_def [symmetric] None using range s0 by (intro exI [of _ EBADF] exI [of _ s0]) simp
  next
    case (Some f)
    then obtain rip where rip: "filp_ino (filp s f) = Some rip"
      using assms(4) by (cases "filp_ino (filp s f)") (auto simp: fo_def split: if_splits)
    define target where "target = m_l1 (msg s) + (if m_i2 (msg s) = 0 then 0 else if m_i2 (msg s) = 1 then filp_pos (filp s f)
                else i_size (ino s rip))"
    have e: "do_lseek s = (if i_pipe (ino s rip) then Some (ESPIPE, s0)
        else if m_i2 (msg s) < 0 \<or> m_i2 (msg s) > 2 then Some (EINVAL, s0)
        else if long_of target < 0 then Some (EINVAL, s0)
        else (let s1 = set_filp f (\<lambda>p. p\<lparr>filp_pos := long_of target\<rparr>) (on_vol (set_ino rip (\<lambda>p. p\<lparr>i_seek := True\<rparr>)) s0)
              in Some (OK, s1\<lparr>m1 := (m1 s1)\<lparr>reply_l1 := long_of target\<rparr>\<rparr>)))"
      using g rip s0 Some by (simp add: do_lseek_def Let_def target_def add.commute)
    have b: "- (2 ^ 31) \<le> target \<and> target < 2 ^ 32"
      using assms(1) assms(2) [rule_format, of f] assms(3) [rule_format, of rip] by (auto simp: fits32_def target_def)
    then have lt: "long_of target < 0 \<longleftrightarrow> target < 0 \<or> 2 ^ 31 \<le> target" by (rule long_of_sign)
    define r where "r = (if i_pipe (ino s rip) then ESPIPE
                  else if m_i2 (msg s) \<noteq> 0 \<and> m_i2 (msg s) \<noteq> 1 \<and> m_i2 (msg s) \<noteq> 2 then EINVAL
                  else if target < 0 \<or> 2 ^ 31 \<le> target then EINVAL else OK)"
    have w: "(m_i2 (msg s) < 0 \<or> m_i2 (msg s) > 2) = (m_i2 (msg s) \<noteq> 0 \<and> m_i2 (msg s) \<noteq> 1 \<and> m_i2 (msg s) \<noteq> 2)" by arith
    show ?thesis
    proof (cases "r = OK")
      case True
      then have ok: "\<not> i_pipe (ino s rip)" "m_i2 (msg s) = 0 \<or> m_i2 (msg s) = 1 \<or> m_i2 (msg s) = 2" "0 \<le> target" "target < 2 ^ 31"
        by (auto simp: r_def split: if_splits)
      then have ls: "long_of target = target" using long_of_pos b lt by auto
      define s' where "s' = (let s1 = set_filp f (\<lambda>p. p\<lparr>filp_pos := target\<rparr>) (on_vol (set_ino rip (\<lambda>p. p\<lparr>i_seek := True\<rparr>)) s0)
              in s1\<lparr>m1 := (m1 s1)\<lparr>reply_l1 := target\<rparr>\<rparr>)"
      have d: "do_lseek s = Some (r, s')" unfolding e ls Let_def s'_def True using ok by auto
      have f: "filp s' = (filp s)(f := (filp s f)\<lparr>filp_pos := target\<rparr>)" "reply_l1 (m1 s') = target"
        "ino s' = (ino s)(rip := (ino s rip)\<lparr>i_seek := True\<rparr>)"
        using s0(1) fun_cong [OF s0(2)] by (simp_all add: s'_def Let_def on_vol_def set_filp_def fun_eq_iff)
      show ?thesis
        unfolding fo_def [symmetric] Some option.case
        by (intro exI [of _ r] exI [of _ s'] conjI d exI [of _ rip] exI [of _ target] rip target_def r_def)
          (use True f range ok in simp_all)
    next
      case False
      then have d: "do_lseek s = Some (r, s0)" unfolding e lt r_def w by (auto split: if_splits)
      show ?thesis
        unfolding fo_def [symmetric] Some option.case
        by (intro exI [of _ r] exI [of _ s0] conjI d exI [of _ rip] exI [of _ target] rip target_def r_def)
          (use False range s0 in simp_all)
    qed
  qed
qed

text \<open>Descriptor 2 of process 3 moved to 100, counted from the start, and to one byte before the start.\<close>

theorem lseek_keeps_position_in_range_witness:
  "(\<exists>s'. do_lseek (demo_fs\<lparr>msg := blank_msg\<lparr>m_i1 := 2, m_l1 := 100\<rparr>\<rparr>) = Some (OK, s') \<and> filp_pos (filp s' 9) = 100
     \<and> reply_l1 (m1 s') = 100)
   \<and> (\<exists>s'. do_lseek (demo_fs\<lparr>msg := blank_msg\<lparr>m_i1 := 2, m_i2 := 1, m_l1 := -1\<rparr>\<rparr>) = Some (EINVAL, s'))"
proof -
  have c: "fp demo_fs = 3" "fp_filp (fproc demo_fs 3) 2 = Some 9" "ino demo_fs 4 = blank_inode" "\<not> i_pipe blank_inode"
    "filp demo_fs 9 = \<lparr>filp_mode = 4, filp_count = 1, filp_ino = Some 4, filp_pos = 0\<rparr>"
    by (simp_all add: demo_fs_defs demo_vol_def blank_inode_def)
  have h: "\<forall>f. 0 \<le> filp_pos (filp (demo_fs\<lparr>msg := m\<rparr>) f) \<and> fits32 (filp_pos (filp (demo_fs\<lparr>msg := m\<rparr>) f))"
    "\<forall>i. 0 \<le> i_size (ino (demo_fs\<lparr>msg := m\<rparr>) i) \<and> fits32 (i_size (ino (demo_fs\<lparr>msg := m\<rparr>) i))"
    "\<forall>f. filp_ino (filp (demo_fs\<lparr>msg := m\<rparr>) f) = None \<longrightarrow> (\<forall>i. fp_filp (cur (demo_fs\<lparr>msg := m\<rparr>)) i \<noteq> Some f)" for m
    by (auto simp: demo_fs_defs fits32_def demo_vol_def blank_inode_def)
  note seek = lseek_keeps_position_in_range [OF _ h]
  show ?thesis
    using seek [of "blank_msg\<lparr>m_i1 := 2, m_l1 := 100\<rparr>"] seek [of "blank_msg\<lparr>m_i1 := 2, m_i2 := 1, m_l1 := -1\<rparr>"]
    by (auto simp: c blank_msg_def fits32_def)
qed

end
