(* ===== verification/FSFiles.thy ===== *)
theory FSFiles
  imports FSPipeProps
begin

text \<open>
  Descriptors and the counts in \<^verbatim>\<open>filp\<close>: which calls leave them alone, and that the others keep
  every count equal to the number of descriptors that use the slot.
\<close>

section \<open>What most of the system leaves alone\<close>

definition files :: "fs \<Rightarrow> int \<times> (int \<Rightarrow> nat \<Rightarrow> nat option) \<times> (nat \<Rightarrow> int)" where
  "files s = (fp s, (\<lambda>p. fp_filp (fproc s p)), (\<lambda>f. filp_count (filp s f)))"

text \<open>What holds of the outcome of an operation, if there is one.\<close>

definition post :: "'a option \<Rightarrow> ('a \<Rightarrow> bool) \<Rightarrow> bool" where
  "post x P \<longleftrightarrow> (\<forall>y. x = Some y \<longrightarrow> P y)"

named_theorems frames "calls that leave the descriptors alone"

lemma post_simps [simp]:
  "post None P" "post (Some y) P \<longleftrightarrow> P y"
  "post (if b then x else x') P \<longleftrightarrow> (b \<longrightarrow> post x P) \<and> (\<not> b \<longrightarrow> post x' P)"
  by (auto simp: post_def)

lemma post_bind [simp]: "post (Option.bind x f) P \<longleftrightarrow> post x (\<lambda>y. post (f y) P)"
  by (auto simp: post_def bind_eq_Some_conv)

lemma post_case [simp]:
  "post (case q of None \<Rightarrow> x | Some z \<Rightarrow> g z) P \<longleftrightarrow> (q = None \<longrightarrow> post x P) \<and> (\<forall>z. q = Some z \<longrightarrow> post (g z) P)"
  by (auto simp: post_def split: option.splits)

lemma post_pair [simp]: "post (case w of (a, b) \<Rightarrow> h a b) P \<longleftrightarrow> (\<forall>a b. w = (a, b) \<longrightarrow> post (h a b) P)"
  by (auto simp: post_def split: prod.splits)

lemma post_mono: "post x Q \<Longrightarrow> (\<And>y. Q y \<Longrightarrow> P y) \<Longrightarrow> post x P"
  by (simp add: post_def)

lemma post_any: "(\<And>y. P y) \<Longrightarrow> post x P"
  by (simp add: post_def)

lemma post_D: "post x P \<Longrightarrow> x = Some y \<Longrightarrow> P y"
  by (simp add: post_def)

abbreviation keeps :: "fs \<Rightarrow> fs option \<Rightarrow> bool" where
  "keeps s x \<equiv> post x (\<lambda>s'. files s' = files s)"

abbreviation keeps_r :: "fs \<Rightarrow> ('a \<times> fs) option \<Rightarrow> bool" where
  "keeps_r s x \<equiv> post x (\<lambda>y. files (snd y) = files s)"

lemma files_fields [simp]:
  "files (s\<lparr>vol := v\<rparr>) = files s" "files (s\<lparr>super_user := b\<rparr>) = files s" "files (s\<lparr>dont_reply := b\<rparr>) = files s"
  "files (s\<lparr>susp_count := n\<rparr>) = files s" "files (s\<lparr>reviving := n\<rparr>) = files s" "files (s\<lparr>rdahedpos := n\<rparr>) = files s"
  "files (s\<lparr>rdahed_inode := x\<rparr>) = files s" "files (s\<lparr>msg := m\<rparr>) = files s" "files (s\<lparr>m1 := r\<rparr>) = files s"
  "files (s\<lparr>who := n\<rparr>) = files s" "files (s\<lparr>fs_call := n\<rparr>) = files s" "files (s\<lparr>user_path := d\<rparr>) = files s"
  "files (s\<lparr>umem := u\<rparr>) = files s" "files (s\<lparr>copies := k\<rparr>) = files s" "files (s\<lparr>devs := k\<rparr>) = files s"
  "files (s\<lparr>sent := l\<rparr>) = files s"
  by (simp_all add: files_def)

lemma files_updates [simp]:
  "files (on_vol g s) = files s" "files (out x s) = files s" "files (set_err r s) = files s"
  "files (reply_fs w r s) = files s" "files (set_in j h s) = files s"
  "(\<And>p. fp_filp (k p) = fp_filp p) \<Longrightarrow> files (set_fproc i k s) = files s"
  "(\<And>p. filp_count (m p) = filp_count p) \<Longrightarrow> files (set_filp j m s) = files s"
  by (auto simp: files_def on_vol_def out_def set_err_def reply_fs_def set_in_def set_fproc_def set_filp_def fun_eq_iff)

lemma files_set_sup [simp]: "files (set_sup i h s) = files s"
  by (simp add: set_sup_def)

lemma files_if [simp]: "files (if b then s else s') = (if b then files s else files s')"
  by simp

lemma in_vol_files [frames]: "keeps_r s (in_vol g s)"
  by (auto simp: in_vol_def intro!: post_any)

lemma do_vol_files [frames]: "keeps s (do_vol g s)"
  by (auto simp: do_vol_def intro!: post_any)

lemma iput_files [frames]: "keeps s (iput e q s)"
  unfolding iput_def by (rule frames)

lemma get_filp_files [dest!]: "get_filp k s = (q, s') \<Longrightarrow>
    files s' = files s \<and> q = (if k < 0 \<or> k \<ge> int NR_FDS then None else fp_filp (cur s) (nat k))"
  by (auto simp: get_filp_def)

lemma get_fd_files: "get_fd bits s = (r, k, f, s') \<Longrightarrow> files s' = files s"
  by (auto simp: get_fd_def split: option.splits)

lemma to_user_files [dest!]: "to_user e g u vir n d s = (r, s') \<Longrightarrow> files s' = files s"
  by (auto simp: to_user_def Let_def split: if_splits)

lemma to_user_snd [simp]: "files (snd (to_user e g u vir n d s)) = files s"
  by (auto simp: to_user_def Let_def)

lemma from_user_files [dest!]: "from_user e g u vir s = (r, d, s') \<Longrightarrow> files s' = files s"
  by (auto simp: from_user_def)

lemma fetch_name_files [frames]: "keeps_r s (fetch_name e p len b s)"
  by (auto simp: fetch_name_def Let_def)

lemma suspend_files [simp]: "files (suspend t s) = files s"
  by (simp add: suspend_def Let_def)

lemma revive_files [frames]: "keeps s (revive p n s)"
  by (auto simp: revive_def)

lemma release_loop_files: "keeps s (release_loop ip c ps n s)"
proof (induction ps arbitrary: n s)
  case (Cons p ps)
  show ?case
    by (auto simp: Let_def intro!: post_any [where x = "hangs_on s ip c p"] frames [THEN post_mono] Cons [THEN post_mono])
qed simp

lemma release_files [frames]: "keeps s (release ip c n s)"
  by (simp add: release_def release_loop_files)

lemma pipe_check_files [frames]: "keeps_r s (pipe_check i w v n p s)"
  by (auto simp: pipe_check_def Let_def intro!: frames [THEN post_mono])

lemma await_files: "keeps_r s (await p rs s)"
proof (induction rs arbitrary: s)
  case (Cons x rs)
  show ?case by (auto intro!: frames [THEN post_mono] Cons [THEN post_mono])
qed simp

lemma rw_dev_files [frames]: "keeps_r s (rw_dev e t q p s)"
  by (auto simp: rw_dev_def intro!: await_files [THEN post_mono])

lemma dev_io_files [frames]: "keeps_r s (dev_io e w d p n q b s)"
  by (auto simp: dev_io_def intro!: frames [THEN post_mono] post_any [where x = "dev_target d s"] post_any [where x = "dmap_task j" for j])

lemma dev_close_files [frames]: "keeps s (dev_close d s)"
  by (auto simp: dev_close_def)

text \<open>Results that hold no state of the top layer.\<close>

lemma post_values [intro!]:
  "(\<And>y :: nat. P y) \<Longrightarrow> post x P" "(\<And>y :: int. Q y) \<Longrightarrow> post z Q" "(\<And>y :: int \<times> int. R y) \<Longrightarrow> post u R"
  "(\<And>y :: nat option \<times> u8 list \<times> vol. S y) \<Longrightarrow> post v S" "(\<And>y :: int \<times> u16 \<times> vol. T y) \<Longrightarrow> post w T"
  by (simp_all add: post_def)

lemma do_ioctl_files [frames]: "keeps_r s (do_ioctl e s)"
  by (auto simp: do_ioctl_def Let_def intro!: frames [THEN post_mono])

lemma do_unpause_files [frames]: "keeps_r s (do_unpause e s)"
  by (auto simp: do_unpause_def Let_def intro!: frames [THEN post_mono] split: list.splits)

section \<open>Reading and writing\<close>

lemma rw_chunk_files [frames]: "keeps_r s (rw_chunk e i p o1 c w b g u s)"
  by (auto simp: rw_chunk_def from_user_def Let_def intro!: frames [THEN post_mono])

lemma rw_loop_files: "post (rw_loop e w i z g u nb b p c r s) (\<lambda>y. files (snd (snd (snd y))) = files s)"
proof (induction nb arbitrary: b p c r s rule: measure_induct_rule [where f = unat])
  case (less nb)
  show ?case
  proof (cases "nb = 0 \<or> (\<not> w \<and> z - p \<le> 0) \<or> next_chunk w nb p (z - p) \<le> 0 \<or> next_chunk w nb p (z - p) > uint nb")
    case True
    then show ?thesis by (auto simp: rw_loop.simps [of e w i z g u nb])
  next
    case False
    let ?k = "next_chunk w nb p (z - p)"
    have "unat (nb - word_of_int ?k) < unat nb" using False by (intro chunk_progress) auto
    note IH = less [OF this]
    show ?thesis
      using False
      by (subst rw_loop.simps)
        (auto simp: Let_def rw_chunk_files [THEN post_D, THEN sym] dest!: rw_chunk_files [THEN post_D] intro!: IH [THEN post_mono])
  qed
qed

lemma file_transfer_files [frames]: "keeps_r s (file_transfer e w i z p g u s)"
  by (auto simp: file_transfer_def Let_def intro!: frames [THEN post_mono] rw_loop_files [THEN post_mono])

lemma finish_rw_files [frames]: "keeps_r s (finish_rw e w f i m z r p c s)"
  by (auto simp: finish_rw_def Let_def intro!: frames [THEN post_mono] split: option.splits)

lemma read_write_files [frames]: "keeps_r s (read_write e w s)"
  by (auto simp: read_write_def Let_def intro!: frames [THEN post_mono] split: xfer.splits)

lemma read_write_calls [frames]: "keeps_r s (do_read e s)" "keeps_r s (do_write e s)"
  unfolding do_read_def do_write_def by (rule frames)+

lemma read_ahead_files [frames]: "keeps s (read_ahead e s)"
  by (auto simp: read_ahead_def intro!: frames [THEN post_mono])

lemma do_lseek_files [frames]: "keeps_r s (do_lseek s)"
  by (auto simp: do_lseek_def Let_def)

section \<open>Paths and the other calls\<close>

lemma do_sync_files [frames]: "keeps_r s (do_sync e s)"
  by (auto simp: do_sync_def intro!: frames [THEN post_mono])

lemma path_inode_files [frames]: "keeps_r s (path_inode e a n b s)"
  by (auto simp: path_inode_def intro!: frames [THEN post_mono])

lemma new_node_files [frames]: "keeps_r s (new_node e b z s)"
  by (auto simp: new_node_def Let_def intro!: frames [THEN post_mono])

lemma do_mknod_files [frames]: "keeps_r s (do_mknod e s)"
  by (auto simp: do_mknod_def Let_def intro!: frames [THEN post_mono])

lemma link_to_files [frames]: "keeps_r s (link_to e i s)"
  by (auto simp: link_to_def Let_def intro!: frames [THEN post_mono])

lemma do_link_files [frames]: "keeps_r s (do_link e s)"
  by (auto simp: do_link_def Let_def intro!: frames [THEN post_mono])

lemma do_unlink_files [frames]: "keeps_r s (do_unlink e s)"
  by (auto simp: do_unlink_def Let_def intro!: frames [THEN post_mono])

lemma protect_files [frames]:
  "keeps_r s (do_chmod e s)" "keeps_r s (do_chown e s)" "keeps_r s (do_umask s)" "keeps_r s (do_access e s)"
  by (auto simp: do_chmod_def do_chown_def do_umask_def do_access_def Let_def intro!: frames [THEN post_mono])

lemma change_files [frames]:
  assumes "\<And>x p. fp_filp (put x p) = fp_filp p"
  shows "keeps_r s (change e get put s)"
  using assms by (auto simp: change_def Let_def intro!: frames [THEN post_mono])

lemma directory_files [frames]: "keeps_r s (do_chdir e s)" "keeps_r s (do_chroot e s)"
  by (auto simp: do_chdir_def do_chroot_def Let_def intro!: frames [THEN post_mono])

lemma status_files [frames]: "keeps_r s (do_stat e s)" "keeps_r s (do_fstat e s)"
  by (auto simp: do_stat_def do_fstat_def stat_inode_def Let_def intro!: frames [THEN post_mono])

lemma time_files [frames]: "keeps_r s (do_utime e s)" "keeps_r s (do_time e s)" "keeps_r s (do_stime e s)" "keeps_r s (do_tims e s)"
  by (auto simp: do_utime_def do_time_def do_stime_def do_tims_def Let_def intro!: frames [THEN post_mono])

lemma set_files [frames]: "keeps_r s (do_set s)" "keeps_r s (do_revive s)"
  by (auto simp: do_set_def do_revive_def Let_def intro!: frames [THEN post_mono])

lemma name_to_dev_files [frames]: "keeps_r s (name_to_dev e s)"
  by (auto simp: name_to_dev_def Let_def intro!: frames [THEN post_mono])

lemma mount_on_files [frames]: "keeps_r s (mount_on e sp d i s)"
  by (auto simp: mount_on_def Let_def intro!: frames [THEN post_mono])

lemma mount_files [frames]: "keeps_r s (do_mount e s)" "keeps_r s (do_umount e s)"
  by (auto simp: do_mount_def do_umount_def Let_def intro!: frames [THEN post_mono])

lemma no_sys_files [frames]: "keeps_r s (no_sys_fs s)"
  by (simp add: no_sys_fs_def)

section \<open>The counts\<close>

text \<open>The descriptors that use the slot \<open>f\<close>.\<close>

definition users :: "fs \<Rightarrow> nat \<Rightarrow> (int \<times> nat) set" where
  "users s f = {(p, i). 0 \<le> p \<and> p < NR_PROCS \<and> i < NR_FDS \<and> fp_filp (fproc s p) i = Some f}"

definition counts_ok :: "fs \<Rightarrow> bool" where
  "counts_ok s \<longleftrightarrow> (\<forall>f. filp_count (filp s f) = int (card (users s f)))"

lemma finite_users [simp]: "finite (users s f)"
proof (rule finite_subset)
  show "users s f \<subseteq> {0..<NR_PROCS} \<times> {0..<NR_FDS}" by (auto simp: users_def)
qed simp

lemma files_users: "files s' = files s \<Longrightarrow> users s' f = users s f"
proof -
  assume "files s' = files s"
  then have "(\<lambda>p. fp_filp (fproc s' p)) = (\<lambda>p. fp_filp (fproc s p))" by (simp add: files_def)
  then have "fp_filp (fproc s' p) = fp_filp (fproc s p)" for p by (rule fun_cong)
  then show ?thesis by (simp add: users_def)
qed

lemma files_counts: "files s' = files s \<Longrightarrow> counts_ok s' \<longleftrightarrow> counts_ok s"
proof -
  assume a: "files s' = files s"
  then have "(\<lambda>f. filp_count (filp s' f)) = (\<lambda>f. filp_count (filp s f))" by (simp add: files_def)
  then have "filp_count (filp s' f) = filp_count (filp s f)" for f by (rule fun_cong)
  then show ?thesis by (simp add: counts_ok_def files_users [OF a])
qed

lemma files_fp: "files s' = files s \<Longrightarrow> fp s' = fp s \<and> fp_filp (fproc s' p) i = fp_filp (fproc s p) i
    \<and> filp_count (filp s' f) = filp_count (filp s f)"
proof -
  assume "files s' = files s"
  then have a: "fp s' = fp s" and b: "(\<lambda>p. fp_filp (fproc s' p)) = (\<lambda>p. fp_filp (fproc s p))"
    and c: "(\<lambda>f. filp_count (filp s' f)) = (\<lambda>f. filp_count (filp s f))" by (simp_all add: files_def)
  show ?thesis using a fun_cong [OF b, of p] fun_cong [OF c, of f] by simp
qed

definition running :: "fs \<Rightarrow> bool" where
  "running s \<longleftrightarrow> 0 \<le> fp s \<and> fp s < NR_PROCS"

lemma files_running: "files s' = files s \<Longrightarrow> running s' \<longleftrightarrow> running s"
  by (simp add: files_def running_def)

lemma no_users: "counts_ok s \<Longrightarrow> filp_count (filp s f) = 0 \<Longrightarrow> users s f = {}"
  by (simp add: counts_ok_def)

text \<open>A descriptor \<open>k\<close> of the running process that is free is given the slot \<open>f\<close>, or loses its slot.\<close>

lemma users_claim:
  assumes "running s" "k < NR_FDS"
  shows "users (claim_fd k (Some f) s) g = (if g = f then insert (fp s, k) (users s g) else users s g - {(fp s, k)})"
    "users (claim_fd k None s) g = users s g - {(fp s, k)}"
  using assms by (auto simp: users_def claim_fd_def running_def split: if_splits)

lemma users_set_filp [simp]: "users (set_filp f h s) g = users s g"
  by (simp add: users_def)

lemma counts_claim:
  assumes "counts_ok s" "running s" "k < NR_FDS" "fp_filp (cur s) k = None"
    "\<And>p. filp_count p = filp_count (filp s f) \<Longrightarrow> filp_count (h p) = filp_count (filp s f) + 1"
  shows "counts_ok (set_filp f h (claim_fd k (Some f) s))"
proof -
  have n: "(fp s, k) \<notin> users s g" for g using assms(4) by (simp add: users_def)
  have "filp (claim_fd k (Some f) s) = filp s" by (simp add: claim_fd_def)
  then show ?thesis using assms(1,5) n users_claim(1) [OF assms(2,3)]
    by (auto simp: counts_ok_def card_insert_if)
qed

lemma counts_drop:
  assumes "counts_ok s" "running s" "k < NR_FDS" "fp_filp (cur s) k = Some f"
    "\<And>p. filp_count p = filp_count (filp s f) \<Longrightarrow> filp_count (h p) = filp_count (filp s f) - 1"
  shows "counts_ok (set_filp f h (claim_fd k None s))"
proof -
  have i: "(fp s, k) \<in> users s f" using assms(2,3,4) by (simp add: users_def running_def)
  then have c: "card (users s f) > 0" by (auto simp: card_gt_0_iff)
  have o: "(fp s, k) \<notin> users s g" if "g \<noteq> f" for g using assms(4) that by (simp add: users_def)
  have "filp (claim_fd k None s) = filp s" by (simp add: claim_fd_def)
  then show ?thesis using assms(1,5) i o c users_claim(2) [OF assms(2,3)]
    by (auto simp: counts_ok_def card_Diff_singleton of_nat_diff)
qed

section \<open>The calls that open and close\<close>

lemma get_fd_result:
  assumes "get_fd bits s = (r, k, f, s')"
  shows "files s' = files s"
    "r = OK \<Longrightarrow> k < NR_FDS \<and> fp_filp (cur s) k = None \<and> filp_count (filp s f) = 0"
  using assms by (auto simp: get_fd_def find_Some_iff split: option.splits)

text \<open>\<open>free_pair\<close>: a free descriptor of the running process and a slot without users.\<close>

definition free_pair :: "fs \<Rightarrow> nat \<Rightarrow> nat \<Rightarrow> bool" where
  "free_pair s k f \<longleftrightarrow> k < NR_FDS \<and> fp_filp (cur s) k = None \<and> filp_count (filp s f) = 0"

lemma files_pair: "files s' = files s \<Longrightarrow> free_pair s' k f \<longleftrightarrow> free_pair s k f"
  using files_fp [of s' s "fp s" k f] by (simp add: free_pair_def)

lemma get_fd_pair [dest!]: "get_fd bits s = (r, k, f, s') \<Longrightarrow> files s' = files s \<and> (r = OK \<longrightarrow> free_pair s k f)"
  using get_fd_result [of bits s r k f s'] by (simp add: free_pair_def)

definition keeps_counts :: "fs \<Rightarrow> (int \<times> fs) option \<Rightarrow> bool" where
  "keeps_counts s x \<longleftrightarrow> post x (\<lambda>y. counts_ok (snd y) \<and> running (snd y))"

lemma keeps_counts_files: "keeps_r s x \<Longrightarrow> counts_ok s \<Longrightarrow> running s \<Longrightarrow> keeps_counts s x"
  unfolding keeps_counts_def by (erule post_mono) (use files_counts files_running in blast)

lemma claimed:
  assumes "counts_ok s" "running s" "free_pair s k f" "files s' = files s"
    "\<And>p. filp_count p = 0 \<Longrightarrow> filp_count (h p) = 1"
  shows "counts_ok (set_filp f h (claim_fd k (Some f) s'))" "running (set_filp f h (claim_fd k (Some f) s'))"
proof -
  have s: "counts_ok s'" "running s'" "free_pair s' k f"
    using assms files_counts files_running files_pair by blast+
  show "counts_ok (set_filp f h (claim_fd k (Some f) s'))"
    by (rule counts_claim) (use s assms(5) in \<open>simp_all add: free_pair_def\<close>)
  show "running (set_filp f h (claim_fd k (Some f) s'))" using s(2) by (simp add: running_def claim_fd_def)
qed

lemma claimed_file:
  assumes "counts_ok s" "running s" "free_pair s k f" "files s' = files s"
  shows "counts_ok (claim k f rip s') \<and> running (claim k f rip s')"
  unfolding claim_def using claimed [OF assms] by simp

definition opened :: "fs \<Rightarrow> fs \<Rightarrow> bool" where
  "opened s t \<longleftrightarrow> files t = files s \<or> (\<exists>k f rip s'. free_pair s k f \<and> files s' = files s \<and> t = claim k f rip s')"

lemma opened_files: "files t = files s \<Longrightarrow> opened s t"
  by (simp add: opened_def)

lemma opened_claim: "free_pair s1 k f \<Longrightarrow> files s1 = files s \<Longrightarrow> files s' = files s \<Longrightarrow> opened s (claim k f rip s')"
  using files_pair [of s1 s k f] by (auto simp: opened_def)

lemma opened_counts: "opened s t \<Longrightarrow> counts_ok s \<Longrightarrow> running s \<Longrightarrow> counts_ok t \<and> running t"
  unfolding opened_def using files_counts [of t s] files_running [of t s] by (auto dest: claimed_file)

lemma creat_opens: "post (do_creat e s) (\<lambda>y. opened s (snd y))"
  unfolding do_creat_def
  by (auto simp: Let_def opened_files intro!: frames [THEN post_mono] post_any [where x = "dev_open d" for d] intro: opened_claim)

lemma open_opens: "post (do_open e s) (\<lambda>y. opened s (snd y))"
  unfolding do_open_def
  by (auto simp: Let_def opened_files intro!: frames [THEN post_mono] post_any [where x = "dev_open d" for d] intro: opened_claim)

lemma open_counts:
  assumes "counts_ok s" "running s"
  shows "keeps_counts s (do_creat e s)" "keeps_counts s (do_open e s)"
  unfolding keeps_counts_def
  by (rule post_mono [OF creat_opens], simp add: opened_counts assms, rule post_mono [OF open_opens], simp add: opened_counts assms)

text \<open>What claiming and releasing does to the triple of descriptors.\<close>

definition with_fd :: "nat \<Rightarrow> nat option \<Rightarrow> int \<times> (int \<Rightarrow> nat \<Rightarrow> nat option) \<times> (nat \<Rightarrow> int)
    \<Rightarrow> int \<times> (int \<Rightarrow> nat \<Rightarrow> nat option) \<times> (nat \<Rightarrow> int)" where
  "with_fd k q x = (fst x, (fst (snd x))(fst x := (fst (snd x) (fst x))(k := q)), snd (snd x))"

definition with_count :: "nat \<Rightarrow> (int \<Rightarrow> int) \<Rightarrow> int \<times> (int \<Rightarrow> nat \<Rightarrow> nat option) \<times> (nat \<Rightarrow> int)
    \<Rightarrow> int \<times> (int \<Rightarrow> nat \<Rightarrow> nat option) \<times> (nat \<Rightarrow> int)" where
  "with_count f h x = (fst x, fst (snd x), (snd (snd x))(f := h (snd (snd x) f)))"

lemma files_claim: "files (claim_fd k q s) = with_fd k q (files s)"
  by (auto simp: files_def with_fd_def claim_fd_def fun_eq_iff)

lemma files_count:
  "files (set_filp f (\<lambda>p. p\<lparr>filp_count := n\<rparr>) s) = with_count f (\<lambda>_. n) (files s)"
  "files (set_filp f (\<lambda>p. p\<lparr>filp_count := filp_count p + n\<rparr>) s) = with_count f (\<lambda>c. c + n) (files s)"
  "files (set_filp f (\<lambda>p. p\<lparr>filp_count := filp_count p - n\<rparr>) s) = with_count f (\<lambda>c. c - n) (files s)"
  by (auto simp: files_def with_count_def fun_eq_iff)

lemma with_swap: "with_fd k q (with_count f h x) = with_count f h (with_fd k q x)"
  by (simp add: with_fd_def with_count_def)

text \<open>Closing the descriptor \<open>fd\<close>.\<close>

definition closed :: "int \<Rightarrow> fs \<Rightarrow> fs \<Rightarrow> bool" where
  "closed fd s t \<longleftrightarrow> ((fd < 0 \<or> fd \<ge> int NR_FDS \<or> fp_filp (cur s) (nat fd) = None) \<and> files t = files s)
     \<or> (\<exists>f. 0 \<le> fd \<and> fd < int NR_FDS \<and> fp_filp (cur s) (nat fd) = Some f
          \<and> files t = with_count f (\<lambda>c. c - 1) (with_fd (nat fd) None (files s)))"

lemma close_closes: "post (do_close e s) (\<lambda>y. closed (m_i1 (msg s)) s (snd y))"
  unfolding do_close_def closed_def
  by (auto simp: Let_def files_claim files_count with_swap intro!: frames [THEN post_mono] split: if_splits)

lemma closed_counts:
  assumes "closed fd s t" "counts_ok s" "running s"
  shows "counts_ok t \<and> running t \<and> (0 \<le> fd \<and> fd < int NR_FDS \<longrightarrow> fp_filp (cur t) (nat fd) = None)"
proof (cases "files t = files s")
  case True
  then have "fp_filp (cur t) (nat fd) = fp_filp (cur s) (nat fd)" using files_fp [OF True] by metis
  moreover have "fp_filp (cur s) (nat fd) = None" if r: "0 \<le> fd" "fd < int NR_FDS"
  proof (rule ccontr)
    assume n: "fp_filp (cur s) (nat fd) \<noteq> None"
    then obtain f where f: "files t = with_count f (\<lambda>c. c - 1) (with_fd (nat fd) None (files s))"
      using assms(1) n r unfolding closed_def by auto
    have "fst (snd (files t)) (fp s) (nat fd) = None" unfolding f by (simp add: with_count_def with_fd_def files_def)
    then have "fst (snd (files s)) (fp s) (nat fd) = None" using True by simp
    then show False using n by (simp add: files_def)
  qed
  ultimately show ?thesis using True assms(2,3) files_counts files_running by metis
next
  case False
  then obtain f where f: "0 \<le> fd" "fd < int NR_FDS" "fp_filp (cur s) (nat fd) = Some f"
    "files t = with_count f (\<lambda>c. c - 1) (with_fd (nat fd) None (files s))" using assms(1) by (auto simp: closed_def)
  let ?u = "set_filp f (\<lambda>p. p\<lparr>filp_count := filp_count p - 1\<rparr>) (claim_fd (nat fd) None s)"
  have u: "files t = files ?u" using f(4) by (simp add: files_count files_claim)
  have "counts_ok ?u" by (rule counts_drop [OF assms(2,3) _ f(3)]) (use f(1,2) in auto)
  moreover have "running ?u" using assms(3) by (simp add: running_def claim_fd_def)
  moreover have "fp_filp (cur ?u) (nat fd) = None" by (simp add: claim_fd_def)
  moreover have "fp t = fp ?u" "fp_filp (cur t) (nat fd) = fp_filp (fproc ?u (fp t)) (nat fd)" using files_fp [OF u] by auto
  ultimately show ?thesis using files_counts [OF u] files_running [OF u] by simp
qed

lemma close_counts: "counts_ok s \<Longrightarrow> running s \<Longrightarrow> keeps_counts s (do_close e s)"
  unfolding keeps_counts_def by (rule post_mono [OF close_closes]) (use closed_counts in blast)

lemma dup_claims:
  assumes "counts_ok s" "running s" "k < NR_FDS" "fp_filp (cur s) k = None"
  shows "counts_ok (set_filp f (\<lambda>p. p\<lparr>filp_count := filp_count p + 1\<rparr>) (claim_fd k (Some f) s))
    \<and> running (set_filp f (\<lambda>p. p\<lparr>filp_count := filp_count p + 1\<rparr>) (claim_fd k (Some f) s))"
  using counts_claim [OF assms(1-4)] assms(2) by (simp add: running_def claim_fd_def)

lemma dup_after_close:
  assumes "counts_ok s" "running s" "files s' = files s" "0 \<le> fd2" "fd2 < int NR_FDS"
  shows "post (do_close e (s'\<lparr>msg := (msg s')\<lparr>m_i1 := fd2\<rparr>\<rparr>))
    (\<lambda>y. counts_ok (snd y) \<and> running (snd y) \<and> fp_filp (cur (snd y)) (nat fd2) = None)"
proof (rule post_mono [OF close_closes])
  fix y
  let ?s = "s'\<lparr>msg := (msg s')\<lparr>m_i1 := fd2\<rparr>\<rparr>"
  assume c: "closed (m_i1 (msg ?s)) ?s (snd y)"
  have f: "files ?s = files s" using assms(3) by simp
  have "counts_ok ?s" "running ?s" using files_counts [OF f] files_running [OF f] assms(1,2) by simp_all
  from closed_counts [OF c this] assms(4,5)
  show "counts_ok (snd y) \<and> running (snd y) \<and> fp_filp (cur (snd y)) (nat fd2) = None" by simp
qed

lemma dup_counts:
  assumes "counts_ok s" "running s"
  shows "keeps_counts s (do_dup e s)"
proof -
  define fd where "fd = m_i1 (msg s)"
  define rfd where "rfd = sint ((word_of_int fd :: u16) AND NOT 64)"
  obtain q s1 where g: "get_filp rfd s = (q, s1)" by force
  have fs1: "files s1 = files s" using get_filp_files [OF g] by blast
  have ok1: "counts_ok s1" "running s1" using files_counts [OF fs1] files_running [OF fs1] assms by simp_all
  have msg1: "msg s1 = msg s" using g by (auto simp: get_filp_def set_err_def on_vol_def)
  show ?thesis
  proof (cases "fd = rfd")
    case True
    obtain r k f s2 where d: "get_fd 0 s1 = (r, k, f, s2)" by (metis prod_cases4)
    have fs2: "files s2 = files s1" "r = OK \<longrightarrow> free_pair s1 k f" using get_fd_pair [OF d] by auto
    have ok2: "counts_ok s2" "running s2" using files_counts [OF fs2(1)] files_running [OF fs2(1)] ok1 by simp_all
    have "r = OK \<Longrightarrow> k < NR_FDS \<and> fp_filp (cur s2) k = None"
      using fs2 files_pair [OF fs2(1)] by (auto simp: free_pair_def)
    moreover have "do_dup e s = (if q = None then Some (err s1, s1) else if r \<noteq> OK then Some (r, s2)
        else fp_filp (cur s2) (nat rfd) \<bind> (\<lambda>f. Some (int k, set_filp f (\<lambda>p. p\<lparr>filp_count := filp_count p + 1\<rparr>) (claim_fd k (Some f) s2))))"
      unfolding do_dup_def Let_def fd_def [symmetric] rfd_def [symmetric] using g d True by simp
    ultimately show ?thesis using ok1 ok2 dup_claims [OF ok2] by (auto simp: keeps_counts_def)
  next
    case False
    define fd2 where "fd2 = m_i2 (msg s1)"
    have cl: "post (do_close e (s1\<lparr>msg := (msg s1)\<lparr>m_i1 := fd2\<rparr>\<rparr>))
      (\<lambda>y. counts_ok (snd y) \<and> running (snd y) \<and> fp_filp (cur (snd y)) (nat fd2) = None)"
      if "0 \<le> fd2" "fd2 < int NR_FDS" by (rule dup_after_close [OF ok1]) (use that in simp_all)
    have "do_dup e s = (if q = None then Some (err s1, s1) else if fd2 < 0 \<or> fd2 \<ge> int NR_FDS then Some (EBADF, s1)
        else if rfd = fd2 then Some (fd2, s1)
        else do_close e (s1\<lparr>msg := (msg s1)\<lparr>m_i1 := fd2\<rparr>\<rparr>) \<bind> (\<lambda>y. fp_filp (cur (snd y)) (nat rfd)
          \<bind> (\<lambda>f. Some (fd2, set_filp f (\<lambda>p. p\<lparr>filp_count := filp_count p + 1\<rparr>) (claim_fd (nat fd2) (Some f) (snd y))))))"
      unfolding do_dup_def Let_def fd_def [symmetric] rfd_def [symmetric] using g False by (simp add: fd2_def [symmetric] split_beta)
    then show ?thesis using ok1 by (auto simp: keeps_counts_def dup_claims intro!: cl [THEN post_mono])
  qed
qed

text \<open>\<open>holds\<close>: the descriptor \<open>k\<close> of the running process is the only user of the slot \<open>f\<close>.\<close>

definition holds :: "fs \<Rightarrow> nat \<Rightarrow> nat \<Rightarrow> bool" where
  "holds s k f \<longleftrightarrow> k < NR_FDS \<and> fp_filp (cur s) k = Some f \<and> filp_count (filp s f) = 1"

abbreviation sound :: "fs \<Rightarrow> bool" where
  "sound s \<equiv> counts_ok s \<and> running s"

lemma files_sound: "files s' = files s \<Longrightarrow> sound s' \<longleftrightarrow> sound s"
  using files_counts files_running by blast

lemma files_holds: "files s' = files s \<Longrightarrow> holds s' k f \<longleftrightarrow> holds s k f"
  using files_fp [of s' s "fp s" k f] by (simp add: holds_def)

lemma hold:
  assumes "sound s" "free_pair s k f"
  shows "sound (set_filp f (\<lambda>p. p\<lparr>filp_count := 1\<rparr>) (claim_fd k (Some f) s))"
    "holds (set_filp f (\<lambda>p. p\<lparr>filp_count := 1\<rparr>) (claim_fd k (Some f) s)) k f"
    "holds s j g \<Longrightarrow> holds (set_filp f (\<lambda>p. p\<lparr>filp_count := 1\<rparr>) (claim_fd k (Some f) s)) j g"
proof -
  show "sound (set_filp f (\<lambda>p. p\<lparr>filp_count := 1\<rparr>) (claim_fd k (Some f) s))"
    using claimed [of s k f s "\<lambda>p. p\<lparr>filp_count := 1\<rparr>"] assms by simp
  show "holds (set_filp f (\<lambda>p. p\<lparr>filp_count := 1\<rparr>) (claim_fd k (Some f) s)) k f"
    using assms by (simp add: holds_def free_pair_def claim_fd_def)
  show "holds s j g \<Longrightarrow> holds (set_filp f (\<lambda>p. p\<lparr>filp_count := 1\<rparr>) (claim_fd k (Some f) s)) j g"
    using assms by (auto simp: holds_def free_pair_def claim_fd_def)
qed

lemma unhold:
  assumes "sound s" "holds s k f"
  shows "sound (set_filp f (\<lambda>p. p\<lparr>filp_count := 0\<rparr>) (claim_fd k None s))"
    "holds s j g \<Longrightarrow> j \<noteq> k \<Longrightarrow> g \<noteq> f \<Longrightarrow> holds (set_filp f (\<lambda>p. p\<lparr>filp_count := 0\<rparr>) (claim_fd k None s)) j g"
proof -
  have "counts_ok (set_filp f (\<lambda>p. p\<lparr>filp_count := 0\<rparr>) (claim_fd k None s))"
    by (rule counts_drop) (use assms in \<open>simp_all add: holds_def\<close>)
  then show "sound (set_filp f (\<lambda>p. p\<lparr>filp_count := 0\<rparr>) (claim_fd k None s))"
    using assms by (simp add: running_def claim_fd_def)
  show "holds s j g \<Longrightarrow> j \<noteq> k \<Longrightarrow> g \<noteq> f \<Longrightarrow> holds (set_filp f (\<lambda>p. p\<lparr>filp_count := 0\<rparr>) (claim_fd k None s)) j g"
    by (simp add: holds_def claim_fd_def)
qed

lemma pipe_counts:
  assumes "sound s"
  shows "post (do_pipe e s) (\<lambda>y. sound (snd y))"
proof -
  obtain r fd0 f0 s1 where d0: "get_fd R_BIT s = (r, fd0, f0, s1)" by (metis prod_cases4)
  have f1: "files s1 = files s" "r = OK \<Longrightarrow> free_pair s fd0 f0" using get_fd_pair [OF d0] by auto
  have ok1: "sound s1" using files_sound [OF f1(1)] assms by blast
  show ?thesis
  proof (cases "r = OK")
    case False
    then show ?thesis using d0 ok1 by (simp add: do_pipe_def Let_def)
  next
    case True
    have p1: "free_pair s1 fd0 f0" using f1 True files_pair by blast
    define s2 where "s2 = set_filp f0 (\<lambda>p. p\<lparr>filp_count := 1\<rparr>) (claim_fd fd0 (Some f0) s1)"
    have ok2: "sound s2" "holds s2 fd0 f0" using hold(1,2) [OF ok1 p1] by (simp_all add: s2_def)
    obtain q fd1 f1' s3 where d1: "get_fd W_BIT s2 = (q, fd1, f1', s3)" by (metis prod_cases4)
    have f3: "files s3 = files s2" "q = OK \<Longrightarrow> free_pair s2 fd1 f1'" using get_fd_pair [OF d1] by auto
    have ok3: "sound s3" "holds s3 fd0 f0" using files_sound [OF f3(1)] files_holds [OF f3(1)] ok2 by blast+
    show ?thesis
    proof (cases "q = OK")
      case False
      then have "do_pipe e s = Some (q, set_filp f0 (\<lambda>p. p\<lparr>filp_count := 0\<rparr>) (claim_fd fd0 None s3))"
        using True d0 d1 by (simp add: do_pipe_def Let_def s2_def [symmetric])
      then show ?thesis using unhold(1) [OF ok3] by simp
    next
      case qok: True
      have p3: "free_pair s3 fd1 f1'" using f3 qok files_pair by blast
      have ne: "fd1 \<noteq> fd0" "f1' \<noteq> f0" using p3 ok3(2) by (auto simp: free_pair_def holds_def)
      define s4 where "s4 = set_filp f1' (\<lambda>p. p\<lparr>filp_count := 1\<rparr>) (claim_fd fd1 (Some f1') s3)"
      have ok4: "sound s4" "holds s4 fd0 f0" "holds s4 fd1 f1'"
        using hold(1,2) [OF ok3(1) p3] hold(3) [OF ok3(1) p3 ok3(2)] by (simp_all add: s4_def)
      have drop: "sound (set_filp f1' (\<lambda>p. p\<lparr>filp_count := 0\<rparr>) (claim_fd fd1 None
          (set_filp f0 (\<lambda>p. p\<lparr>filp_count := 0\<rparr>) (claim_fd fd0 None s5))))" if "files s5 = files s4" for s5
      proof -
        have ok5: "sound s5" "holds s5 fd0 f0" "holds s5 fd1 f1'"
          using files_sound [OF that] files_holds [OF that] ok4 by blast+
        show ?thesis by (rule unhold(1) [OF unhold(1) [OF ok5(1,2)] unhold(2) [OF ok5(1,2,3) ne]])
      qed
      have same: "sound s5" if "files s5 = files s4" for s5 using files_sound [OF that] ok4(1) by blast
      have v4: "cur s4 = cur (claim_fd fd1 (Some f1') s3)" "vol s4 = vol (claim_fd fd1 (Some f1') s3)" by (simp_all add: s4_def)
      have eq: "do_pipe e s = fp_workdir (cur s4) \<bind> (\<lambda>wd.
          in_vol (alloc_inode e (cred_of s4) (i_dev (ino s4 wd)) I_REGULAR) s4 \<bind> (\<lambda>(x, s5).
            case x of None \<Rightarrow>
              (let s6 = set_filp f0 (\<lambda>p. p\<lparr>filp_count := 0\<rparr>) (claim_fd fd0 None s5);
                   s7 = set_filp f1' (\<lambda>p. p\<lparr>filp_count := 0\<rparr>) (claim_fd fd1 None s6) in Some (err s7, s7))
            | Some rip \<Rightarrow>
              (let s6 = on_vol (set_ino rip (\<lambda>p. p\<lparr>i_pipe := True\<rparr>)) s5;
                   s7 = on_vol (dup_inode rip) (set_filp f0 (\<lambda>p. p\<lparr>filp_ino := Some rip\<rparr>) s6);
                   s8 = set_filp f1' (\<lambda>p. p\<lparr>filp_ino := Some rip\<rparr>) s7
               in do_vol (rw_inode e rip True) s8 \<bind> (\<lambda>s9.
                  Some (OK, s9\<lparr>m1 := (m1 s9)\<lparr>reply_i1 := int fd0, reply_i2 := int fd1\<rparr>\<rparr>)))))"
        using True qok d0 d1 by (simp add: do_pipe_def Let_def s2_def [symmetric] s4_def [symmetric] v4)
      show ?thesis unfolding eq
        by (auto simp: Let_def drop [THEN conjunct1] drop [THEN conjunct2] same [THEN conjunct1] same [THEN conjunct2]
            intro!: frames [THEN post_mono])
    qed
  qed
qed

section \<open>FORK and EXIT\<close>

text \<open>FORK gives the child, a process without descriptors, those of its parent.\<close>

definition fork_count :: "(nat \<Rightarrow> nat option) \<Rightarrow> nat list \<Rightarrow> fs \<Rightarrow> fs" where
  "fork_count t = fold (\<lambda>i s. case t i of None \<Rightarrow> s | Some f \<Rightarrow> set_filp f (\<lambda>p. p\<lparr>filp_count := filp_count p + 1\<rparr>) s)"

lemma fork_count_counts:
  "fproc (fork_count t is s) = fproc s \<and> fp (fork_count t is s) = fp s
   \<and> filp_count (filp (fork_count t is s) f) = filp_count (filp s f) + int (length (filter (\<lambda>i. t i = Some f) is))"
proof (induction "is" arbitrary: s)
  case (Cons i "is")
  show ?case using Cons [of "case t i of None \<Rightarrow> s | Some f \<Rightarrow> set_filp f (\<lambda>p. p\<lparr>filp_count := filp_count p + 1\<rparr>) s"]
    by (cases "t i") (auto simp: fork_count_def)
qed (simp add: fork_count_def)

lemma fork_counts:
  assumes "counts_ok s" "0 \<le> child" "child < NR_PROCS" "\<forall>i. fp_filp (fproc s child) i = None"
  shows "counts_ok (fork_count (fp_filp (fproc s parent)) [0..<NR_FDS] (set_fproc child (\<lambda>_. fproc s parent) s))"
  unfolding counts_ok_def
proof
  fix f
  let ?t = "fp_filp (fproc s parent)" let ?s1 = "set_fproc child (\<lambda>_. fproc s parent) s"
  let ?new = "{i. i < NR_FDS \<and> ?t i = Some f}"
  note fc = fork_count_counts [of ?t "[0..<NR_FDS]" ?s1 f]
  have u: "users (fork_count ?t [0..<NR_FDS] ?s1) f = users s f \<union> Pair child ` ?new"
    using fc assms(2-4) by (auto simp: users_def split: if_splits)
  have "Pair child ` ?new \<inter> users s f = {}" using assms(4) by (auto simp: users_def)
  then have "card (users s f \<union> Pair child ` ?new) = card (users s f) + card ?new"
    by (subst card_Un_disjoint) (auto simp: card_image inj_on_def)
  moreover have "length (filter (\<lambda>i. ?t i = Some f) [0..<NR_FDS]) = card ?new"
    unfolding length_filter_conv_card by (rule arg_cong [where f = card]) (auto simp del: upt_rec_numeral)
  ultimately show "filp_count (filp (fork_count ?t [0..<NR_FDS] ?s1) f) = int (card (users (fork_count ?t [0..<NR_FDS] ?s1) f))"
    using fc assms(1) unfolding u by (simp add: counts_ok_def del: upt_rec_numeral)
qed

text \<open>The new process is one that MM has chosen: a slot of the table whose descriptors are all closed.\<close>

definition fork_request_ok :: "fs \<Rightarrow> bool" where
  "fork_request_ok s \<longleftrightarrow> 0 \<le> m_i2 (msg s) \<and> m_i2 (msg s) < NR_PROCS \<and> (\<forall>i. fp_filp (fproc s (m_i2 (msg s))) i = None)"

lemma do_fork_counts:
  assumes "counts_ok s" "who s = MM_PROC_NR \<longrightarrow> fork_request_ok s"
  shows "post (do_fork_fs s) (\<lambda>y. counts_ok (snd y))"
proof -
  have "counts_ok (on_vol g (on_vol h (fork_count (fp_filp (fproc s p)) [0..<NR_FDS] (set_fproc (m_i2 (msg s)) (\<lambda>_. fproc s p) s))))"
    if "who s = MM_PROC_NR" for g h p
  proof -
    let ?u = "fork_count (fp_filp (fproc s p)) [0..<NR_FDS] (set_fproc (m_i2 (msg s)) (\<lambda>_. fproc s p) s)"
    have "counts_ok ?u" by (rule fork_counts) (use assms that in \<open>auto simp: fork_request_ok_def\<close>)
    moreover have "files (on_vol g (on_vol h ?u)) = files ?u" by simp
    ultimately show ?thesis using files_counts by blast
  qed
  then show ?thesis using assms(1) by (auto simp: do_fork_fs_def Let_def fork_count_def)
qed

lemma exit_counts:
  assumes "counts_ok s" "who s = MM_PROC_NR \<longrightarrow> 0 \<le> m_i1 (msg s) \<and> m_i1 (msg s) < NR_PROCS"
  shows "post (do_exit_fs e s) (\<lambda>y. counts_ok (snd y))"
proof (cases "who s = MM_PROC_NR")
  case False
  then show ?thesis using assms(1) by (simp add: do_exit_fs_def)
next
  case True
  let ?s = "s\<lparr>fp := m_i1 (msg s)\<rparr>"
  have ok: "sound ?s" using assms True by (simp add: counts_ok_def users_def running_def)
  have loop: "post (each (\<lambda>i s. do { (_, s1) \<leftarrow> do_close e (s\<lparr>msg := (msg s)\<lparr>m_i1 := int i\<rparr>\<rparr>); Some s1 }) is t) sound"
    if "sound t" for "is" t
    using that
  proof (induction "is" arbitrary: t)
    case (Cons i "is")
    let ?t = "t\<lparr>msg := (msg t)\<lparr>m_i1 := int i\<rparr>\<rparr>"
    have f: "files ?t = files t" by simp
    have "sound ?t" using files_sound [OF f] Cons.prems by blast
    then have c: "post (do_close e ?t) (\<lambda>y. sound (snd y))" using close_counts by (simp add: keeps_counts_def)
    show ?case by (auto intro!: c [THEN post_mono] Cons.IH)
  qed simp
  have same: "counts_ok t" if "files t = files u" "sound u" for t u using files_counts [OF that(1)] that(2) by blast
  show ?thesis
    using True
    by (auto simp: do_exit_fs_def Let_def intro!: loop [OF ok, THEN post_mono] frames [THEN post_mono] intro: same)
qed

section \<open>One step of the file system\<close>

text \<open>
  What is assumed of a request: it comes from a process (or is the \<^verbatim>\<open>REVIVE\<close> of a task), a FORK or EXIT
  that MM sends names processes of the table, the child one without descriptors; and a process to be
  revived was stopped in a READ or WRITE.
\<close>

definition request_ok :: "fs \<Rightarrow> (int \<times> int \<times> fmsg) option \<Rightarrow> bool" where
  "request_ok s inp \<longleftrightarrow> (if reviving s \<noteq> 0
     then \<forall>p. fp_revived (fproc s p) \<longrightarrow> fp_fd (fproc s p) AND 255 = C_READ \<or> fp_fd (fproc s p) AND 255 = C_WRITE
     else (\<forall>u c m. inp = Some (u, c, m) \<longrightarrow> (c = 67 \<or> 0 \<le> u \<and> u < NR_PROCS)
       \<and> (u = MM_PROC_NR \<and> c = 1 \<longrightarrow> 0 \<le> m_i1 m \<and> m_i1 m < NR_PROCS)
       \<and> (u = MM_PROC_NR \<and> c = 2 \<longrightarrow> 0 \<le> m_i2 m \<and> m_i2 m < NR_PROCS \<and> (\<forall>i. fp_filp (fproc s (m_i2 m)) i = None))))"

lemma keeps_counted: "keeps_r s x \<Longrightarrow> counts_ok s \<Longrightarrow> post x (\<lambda>y. counts_ok (snd y))"
  by (erule post_mono) (use files_counts in blast)

lemma keeps_counted': "keeps s x \<Longrightarrow> counts_ok s \<Longrightarrow> post x counts_ok"
  by (erule post_mono) (use files_counts in blast)

lemma counted_calls: "keeps_counts s x \<Longrightarrow> post x (\<lambda>y. counts_ok (snd y))"
  unfolding keeps_counts_def by (erule post_mono) blast

lemma call_counts:
  assumes "counts_ok s" "n = 67 \<or> running s"
    "n = 1 \<and> who s = MM_PROC_NR \<Longrightarrow> 0 \<le> m_i1 (msg s) \<and> m_i1 (msg s) < NR_PROCS"
    "n = 2 \<and> who s = MM_PROC_NR \<Longrightarrow> fork_request_ok s"
  shows "post (call_vector e n s) (\<lambda>y. counts_ok (snd y))"
proof -
  have r: "sound s" if "n \<noteq> 67" using assms(1,2) that by blast
  have opens: "post (do_creat e s) (\<lambda>y. counts_ok (snd y))" "post (do_open e s) (\<lambda>y. counts_ok (snd y))"
    "post (do_close e s) (\<lambda>y. counts_ok (snd y))" "post (do_dup e s) (\<lambda>y. counts_ok (snd y))"
    "post (do_pipe e s) (\<lambda>y. counts_ok (snd y))" if "n \<noteq> 67"
  proof -
    have c: "counts_ok s" "running s" using r [OF that] by simp_all
    show "post (do_creat e s) (\<lambda>y. counts_ok (snd y))" by (rule counted_calls [OF open_counts(1) [OF c]])
    show "post (do_open e s) (\<lambda>y. counts_ok (snd y))" by (rule counted_calls [OF open_counts(2) [OF c]])
    show "post (do_close e s) (\<lambda>y. counts_ok (snd y))" by (rule counted_calls [OF close_counts [OF c]])
    show "post (do_dup e s) (\<lambda>y. counts_ok (snd y))" by (rule counted_calls [OF dup_counts [OF c]])
    show "post (do_pipe e s) (\<lambda>y. counts_ok (snd y))" by (rule post_mono [OF pipe_counts [OF r [OF that]]]) simp
  qed
  have open_: ?thesis if "n \<in> {5, 6, 8, 41, 42}"
    using opens that by (elim insertE emptyE) (simp_all add: call_vector_def)
  have one: "n = 1 \<Longrightarrow> ?thesis" using exit_counts [OF assms(1)] assms(3) by (simp add: call_vector_def)
  have two: "n = 2 \<Longrightarrow> ?thesis" using do_fork_counts [OF assms(1)] assms(4) by (simp add: call_vector_def)
  have rest: "n \<notin> {1, 2, 5, 6, 8, 41, 42} \<Longrightarrow> ?thesis"
    unfolding call_vector_def
    by (rule keeps_counted [OF _ assms(1)]) (simp add: frames if_split)
  show ?thesis using one two open_ rest by blast
qed

lemma get_work_result:
  assumes "get_work_fs inp s = Some s1" "request_ok s inp"
    and s2_def: "s2 = s1\<lparr>fp := who s1, super_user := b, dont_reply := False\<rparr>"
  shows "counts_ok s2 \<longleftrightarrow> counts_ok s" "fs_call s2 = 67 \<or> running s2"
    "fs_call s2 = 1 \<and> who s2 = MM_PROC_NR \<Longrightarrow> 0 \<le> m_i1 (msg s2) \<and> m_i1 (msg s2) < NR_PROCS"
    "fs_call s2 = 2 \<and> who s2 = MM_PROC_NR \<Longrightarrow> fork_request_ok s2"
proof -
  have "fp_filp (fproc s1 p) = fp_filp (fproc s p) \<and> filp s1 = filp s" for p
    using assms(1) by (auto simp: get_work_fs_def Let_def split: if_splits option.splits)
  then show "counts_ok s2 \<longleftrightarrow> counts_ok s" by (simp add: counts_ok_def users_def s2_def)
  show "fs_call s2 = 67 \<or> running s2"
    "fs_call s2 = 1 \<and> who s2 = MM_PROC_NR \<Longrightarrow> 0 \<le> m_i1 (msg s2) \<and> m_i1 (msg s2) < NR_PROCS"
    "fs_call s2 = 2 \<and> who s2 = MM_PROC_NR \<Longrightarrow> fork_request_ok s2"
    using assms(1,2)
    by (auto simp: s2_def get_work_fs_def request_ok_def running_def fork_request_ok_def Let_def find_Some_iff
        split: if_splits option.splits dest: nth_mem)
qed

text \<open>C33: Every call keeps the counts of \<^verbatim>\<open>filp\<close> true: if each \<^verbatim>\<open>filp_count\<close> is the number of descriptors, over
  all processes, that point to the slot, then after one turn of the main loop, whatever is called and
  however it ends (files opened, closed, duplicated, pipes made and unmade on errors, processes forked,
  exited, suspended or revived), each still is.\<close>

theorem file_counts_stay_true:
  assumes "\<forall>f. filp_count (filp s f) = int (card (users s f))" "request_ok s inp" "fs_step e inp s = Some s'"
  shows "\<forall>f. filp_count (filp s' f) = int (card (users s' f))"
proof -
  have c0: "counts_ok s" using assms(1) by (simp add: counts_ok_def)
  obtain s1 where s1: "get_work_fs inp s = Some s1" using assms(3) by (auto simp: fs_step_def bind_eq_Some_conv)
  define s2 where "s2 = s1\<lparr>fp := who s1, super_user := (fp_effuid (fproc s1 (who s1)) = 0), dont_reply := False\<rparr>"
  note w = get_work_result [OF s1 assms(2) s2_def]
  have c2: "counts_ok s2" using w(1) c0 by simp
  have call: "post (if fs_call s2 < 0 \<or> fs_call s2 \<ge> 69 then Some (E_BAD_CALL, s2) else call_vector e (fs_call s2) s2)
      (\<lambda>y. counts_ok (snd y))"
  proof -
    have cv: "post (call_vector e (fs_call s2) s2) (\<lambda>y. counts_ok (snd y))" by (rule call_counts [OF c2 w(2-4)])
    show ?thesis unfolding post_simps(3) using cv c2 by (auto simp only: post_simps snd_conv)
  qed
  let ?tail = "\<lambda>(q, s3). if dont_reply s3 then Some s3
    else (let s4 = reply_fs (who s3) q s3 in if rdahed_inode s4 \<noteq> None then read_ahead e s4 else Some s4)"
  have last: "post (?tail y) counts_ok" if "counts_ok (snd y)" for y
  proof -
    have ok: "counts_ok (reply_fs (who (snd y)) (fst y) (snd y))" using files_counts [OF files_updates(4)] that by blast
    show ?thesis using read_ahead_files [THEN keeps_counted', OF ok] that ok by (simp add: case_prod_beta Let_def)
  qed
  have step: "fs_step e inp s = ((if fs_call s2 < 0 \<or> fs_call s2 \<ge> 69 then Some (E_BAD_CALL, s2)
      else call_vector e (fs_call s2) s2) \<bind> ?tail)"
    by (simp add: fs_step_def s1 s2_def Let_def)
  have "post (fs_step e inp s) counts_ok"
    unfolding step post_bind by (rule call [THEN post_mono]) (rule last)
  then show ?thesis using assms(3) by (simp add: post_def counts_ok_def)
qed

lemma file_counts_stay_true_witness:
  "\<exists>s'. fs_step calm_env (Some (3, 60, blank_msg)) demo_fs = Some s'
     \<and> (\<forall>f. filp_count (filp s' f) = int (card (users s' f)))"
proof -
  have u: "users demo_fs f = (if f = 9 then {(3, 2)} else {})" for f
    by (auto simp: users_def demo_fs_defs split: if_splits)
  have ok: "\<forall>f. filp_count (filp demo_fs f) = int (card (users demo_fs f))"
    by (simp add: u) (simp add: demo_fs_defs)
  have "fs_step calm_env (Some (3, 60, blank_msg)) demo_fs \<noteq> None"
    by (simp add: fs_step_def get_work_fs_def call_vector_def do_umask_def demo_fs_defs Let_def reply_fs_def out_def
        set_fproc_def)
  then obtain s' where s': "fs_step calm_env (Some (3, 60, blank_msg)) demo_fs = Some s'" by blast
  have "request_ok demo_fs (Some (3, 60, blank_msg))" by (simp add: request_ok_def demo_fs_defs)
  from file_counts_stay_true [OF ok this s'] s' show ?thesis by blast
qed

end
