(* ===== verification/Spec2Isabelle.thy ===== *)
theory Spec2Isabelle
  imports KClock KMemory KTtyInv KWiniProps KFloppyProps MMProps2 FSFiles
begin

text \<open>
  A verification library for MINIX 1: the kernel with its tasks, the memory manager MM and the file system FS.
  The three are separate programs that share no memory and talk by messages; each is modelled over its own
  state record, and what it asks of the others (a copy to user space, a disk transfer, a message sent) is an
  entry of an output list or a parameter of the environment record of its steps.  Integers have the width of
  the 16-bit target: \<open>u8\<close>, \<open>u16\<close>, \<open>u32\<close> words, or \<open>int\<close> with \<open>int_of\<close> and \<open>long_of\<close> where a signed value may wrap
  around, or plain \<open>int\<close> where a lemma or the code keeps the value in range; \<open>char\<close> is signed.  \<open>None\<close> is a panic,
  a nil pointer, an index outside a table or a loop that does not end.

  \<^bold>\<open>Kernel, processes and messages\<close> (\<^verbatim>\<open>src/kernel\<close>).  \<^theory_text>\<open>KTypes\<close> has the process table and memory (\<^verbatim>\<open>proc.h\<close>,
  \<^verbatim>\<open>glo.h\<close>), \<^theory_text>\<open>KProc\<close> the ready queues and the scheduler, \<^theory_text>\<open>KMess\<close> and \<^theory_text>\<open>KIpc\<close> message copying, \<^verbatim>\<open>mini_send\<close>,
  \<^verbatim>\<open>mini_rec\<close> and the callers' queues, \<^theory_text>\<open>KSysCall\<close> \<^verbatim>\<open>sys_call\<close> and \<^verbatim>\<open>interrupt\<close> (all \<^verbatim>\<open>proc.c\<close>), \<^theory_text>\<open>KMain\<close> the
  start-up of \<^verbatim>\<open>main.c\<close>, \<^theory_text>\<open>KSteps\<close> the step relation (system calls, interrupts, quantum ends, user stores);
  \<^theory_text>\<open>KProcInv\<close> and \<^theory_text>\<open>KernelProps\<close> carry the invariant of queues and flags through every step and show that every
  call returns, that a message is delivered or queued in order, and how \<^verbatim>\<open>sys_call\<close> refuses.

  \<^bold>\<open>Kernel tasks.\<close>  \<^theory_text>\<open>KCopy\<close> has \<^verbatim>\<open>umap\<close> and \<^verbatim>\<open>phys_copy\<close> (\<^verbatim>\<open>klib88.asm\<close>, chunk by chunk), \<^theory_text>\<open>KSystem\<close> the system task
  (\<^verbatim>\<open>system.c\<close>); \<^theory_text>\<open>KSysProps\<close> shows that SYS_COPY moves exactly the bytes asked for and where its checks stop,
  \<^theory_text>\<open>KSysInv\<close> that every request keeps the kernel's invariant.  \<^theory_text>\<open>KPrinter\<close> is \<^verbatim>\<open>printer.c\<close> (no character is lost),
  \<^theory_text>\<open>KMemory\<close> \<^verbatim>\<open>memory.c\<close> (what is written to a RAM disk is read back), \<^theory_text>\<open>KClock\<close> \<^verbatim>\<open>clock.c\<close> (alarms ring when due;
  \<^verbatim>\<open>next_alarm\<close> is never late).  The terminal task \<^verbatim>\<open>tty.c\<close> is \<^theory_text>\<open>KTty\<close> (state, \<^verbatim>\<open>vid_copy\<close>, console output) and
  \<^theory_text>\<open>KTtyIn\<close> (keyboard, input queue, requests); \<^theory_text>\<open>KTtyOut\<close> shows where characters appear, \<^theory_text>\<open>KTtyEdit\<close> that cooked
  input is a line editor over lists (locale \<open>input_queue\<close>, interpreted by the circular buffer), \<^theory_text>\<open>KTtyRead\<close> what
  a read takes, \<^theory_text>\<open>KTtyInv\<close> that cursor, escape state and queues stay well formed.  \<^theory_text>\<open>KWini\<close> is the hard disk
  driver \<^verbatim>\<open>wini.c\<close>, \<^theory_text>\<open>KFloppy\<close> the diskette driver \<^verbatim>\<open>floppy.c\<close>, each with the controller as a parameter and the
  port output and the waits as a log; \<^theory_text>\<open>KWiniProps\<close> and \<^theory_text>\<open>KFloppyProps\<close> show which sectors a successful request
  has addressed and moved, the order of the partitions, that diskette requests are answered whatever the
  controller does, and when the motors run.

  \<^bold>\<open>Memory manager\<close> (\<^verbatim>\<open>src/mm\<close>).  \<^theory_text>\<open>MMAlloc\<close> is the hole list of \<^verbatim>\<open>alloc.c\<close> with its first-fit specification in
  \<^theory_text>\<open>MMAllocProps\<close> (locale \<open>allocator\<close>); \<^theory_text>\<open>MMTypes\<close> the \<^verbatim>\<open>mproc\<close> table; \<^theory_text>\<open>MMBreak\<close>, \<^theory_text>\<open>MMForkExit\<close>, \<^theory_text>\<open>MMSignal\<close>,
  \<^theory_text>\<open>MMExec\<close>, \<^theory_text>\<open>MMMain\<close> follow \<^verbatim>\<open>break.c\<close>, \<^verbatim>\<open>forkexit.c\<close>, \<^verbatim>\<open>signal.c\<close>, \<^verbatim>\<open>exec.c\<close>, \<^verbatim>\<open>main.c\<close>; \<^theory_text>\<open>MMInv\<close> and \<^theory_text>\<open>MMInvMem\<close>
  carry the invariant (core images and holes are disjoint, parents and pids fit) through every step, \<^theory_text>\<open>MMProps\<close>
  and \<^theory_text>\<open>MMProps2\<close> state the properties of each call.

  \<^bold>\<open>File system\<close> (\<^verbatim>\<open>src/fs\<close>).  \<^theory_text>\<open>FSTypes\<close> has the tables and the byte layouts; \<^theory_text>\<open>FSCache\<close> \<^verbatim>\<open>cache.c\<close>; \<^theory_text>\<open>FSSuper\<close>
  \<^verbatim>\<open>super.c\<close>; \<^theory_text>\<open>FSInode\<close> \<^verbatim>\<open>inode.c\<close>, \<^verbatim>\<open>read_map\<close> and \<^verbatim>\<open>protect.c\<close>; \<^theory_text>\<open>FSWrite\<close> \<^verbatim>\<open>write.c\<close>; \<^theory_text>\<open>FSPath\<close> \<^verbatim>\<open>path.c\<close>;
  \<^theory_text>\<open>FSFile\<close> \<^verbatim>\<open>filedes.c\<close>, \<^verbatim>\<open>pipe.c\<close>, \<^verbatim>\<open>device.c\<close>, \<^verbatim>\<open>utility.c\<close>; \<^theory_text>\<open>FSRead\<close> \<^verbatim>\<open>read.c\<close>; \<^theory_text>\<open>FSOpen\<close> \<^verbatim>\<open>open.c\<close>, \<^verbatim>\<open>link.c\<close>;
  \<^theory_text>\<open>FSCalls\<close> \<^verbatim>\<open>stadir.c\<close>, \<^verbatim>\<open>time.c\<close>, \<^verbatim>\<open>misc.c\<close>, \<^verbatim>\<open>mount.c\<close>; \<^theory_text>\<open>FSMain\<close> \<^verbatim>\<open>main.c\<close> and the call table.  The proofs:
  \<^theory_text>\<open>FSBits\<close> the bit maps (locale \<open>id_pool\<close>), \<^theory_text>\<open>FSCacheInv\<close> the chains and coherence of the cache (it implements a
  disk read directly), \<^theory_text>\<open>FSMap\<close> file zones and inodes over the cached disk, \<^theory_text>\<open>FSProps\<close>, \<^theory_text>\<open>FSPathProps\<close>,
  \<^theory_text>\<open>FSPipeProps\<close> and \<^theory_text>\<open>FSFiles\<close> the properties of protection, paths, pipes and open files.

  \<^bold>\<open>Loops and fuel.\<close>  A loop over a table or a count is structural recursion.  A loop whose bound the code has as a
  constant has that constant as fuel (10000 looks at the hard disk, 100 at the diskette controller, 4 and 21
  trials of a request, 16 processes in a queue), so running out of it is the code's own branch.  A loop that
  the code does not bound is \<open>partial_function (option)\<close> or a \<open>function\<close> with a measure, and a lemma shows that it
  returns: the pid search, the hash chains, the merging of holes, \<^verbatim>\<open>vid_copy\<close> and \<^verbatim>\<open>out_char\<close>.

  \<^bold>\<open>Not modelled.\<close>  The assembly that saves and restores registers (\<^verbatim>\<open>mpx88.asm\<close>), the dumps of \<^verbatim>\<open>dmp.c\<close> and the
  console output of MM and FS print or touch hardware only.  Interrupts do not preempt a C routine: the code
  locks where this matters, and the step relation interleaves whole routines.  The delay loops, the data path
  of the diskette's DMA and the BIOS tables are outside the program.  \<^verbatim>\<open>load_ram\<close> of FS, which copies the root file
  system at boot, is left out.  The libraries \<^verbatim>\<open>libc\<close>, \<^verbatim>\<open>libansi\<close>, \<^verbatim>\<open>libsys\<close>, the tools and the test programs are
  user programs on top of this system and not part of it.
\<close>

end
